(* ===== verification/Prelude.thy ===== *)
theory Prelude
  imports Main "HOL-Library.Word" "HOL-Library.AList" "HOL-Library.Sublist"
    "HOL-Library.Multiset"
begin

text \<open>
  Shared vocabulary of the development: the machine types of the Go sources, readers over
  byte buffers, big-endian integers, Go maps as association lists with distinct keys, the
  generic contracts (locales) that several components satisfy, and the lemmas that the
  component proofs draw on.
\<close>

named_theorems go_defs \<open>definitions unfolded by the component proofs\<close>
named_theorems inv_intros \<open>preservation lemmas of component invariants\<close>

section \<open>Machine types\<close>

type_synonym byte = "8 word"
type_synonym u16 = "16 word"
type_synonym u32 = "32 word"
type_synonym u64 = "64 word"

text \<open>Fixed-size byte arrays are words of the same width; their bytes are the big-endian
  bytes of the word, as \<open>Hash.Bytes()\<close> and slicing give them.\<close>

type_synonym hash = "256 word"
type_synonym address = "160 word"

lemma unat_u64_less: "unat (x :: u64) < 2 ^ 64"
  using unsigned_less [of x, where 'a = nat] by simp

lemma unat_u16_less: "unat (x :: u16) < 2 ^ 16"
  using unsigned_less [of x, where 'a = nat] by simp

section \<open>Big-endian integers\<close>

text \<open>\<open>binary.Write\<close> and \<open>binary.Read\<close> with \<open>binary.BigEndian\<close>, on \<open>n\<close> bytes.\<close>

fun be_encode :: "nat \<Rightarrow> nat \<Rightarrow> byte list" where
  "be_encode 0 v = []"
| "be_encode (Suc n) v = be_encode n (v div 256) @ [word_of_nat (v mod 256)]"

definition be_decode :: "byte list \<Rightarrow> nat" where
  "be_decode bs = foldl (\<lambda>acc b. acc * 256 + unat b) 0 bs"

lemma length_be_encode [simp]: "length (be_encode n v) = n"
  by (induction n arbitrary: v) auto

lemma be_decode_Nil [simp]: "be_decode [] = 0"
  by (simp add: be_decode_def)

lemma be_decode_snoc [simp]: "be_decode (bs @ [b]) = be_decode bs * 256 + unat b"
  by (simp add: be_decode_def)

lemma unat_byte_of_mod [simp]: "unat (word_of_nat (v mod 256) :: byte) = v mod 256"
  by (simp add: unat_of_nat)

lemma unat_byte_less [simp]: "unat (b :: byte) < 256"
  using unsigned_less [of b] by simp

lemma be_decode_encode [simp]: "be_decode (be_encode n v) = v mod 256 ^ n"
proof (induction n arbitrary: v)
  case 0
  show ?case by simp
next
  case (Suc n)
  have "be_decode (be_encode (Suc n) v) = (v div 256) mod 256 ^ n * 256 + v mod 256"
    by (simp add: Suc)
  also have "\<dots> = v mod 256 ^ Suc n"
    by (simp add: mod_mult2_eq [of v 256 "256 ^ n"])
  finally show ?case .
qed

lemma be_decode_less: "be_decode bs < 256 ^ length bs"
proof (induction bs rule: rev_induct)
  case Nil
  show ?case by simp
next
  case (snoc b bs)
  have "be_decode bs * 256 + unat b < Suc (be_decode bs) * 256"
    by (simp add: unat_byte_less)
  also have "\<dots> \<le> 256 ^ length bs * 256"
    using snoc by (intro mult_right_mono) auto
  finally show ?case by simp
qed

lemma be_encode_decode: "length bs = n \<Longrightarrow> be_encode n (be_decode bs) = bs"
proof (induction n arbitrary: bs)
  case 0
  then show ?case by simp
next
  case (Suc n)
  then obtain cs c where bs: "bs = cs @ [c]"
    by (cases bs rule: rev_cases) auto
  have "(be_decode cs * 256 + unat c) div 256 = be_decode cs"
    using unat_byte_less [of c] by simp
  moreover have "(be_decode cs * 256 + unat c) mod 256 = unat c"
    using unat_byte_less [of c] by simp
  ultimately show ?case
    using Suc by (simp add: bs)
qed

section \<open>Readers over byte buffers\<close>

text \<open>A \<open>bytes.Buffer\<close> is the list of its unread bytes.  The two end-of-input errors of
  package \<open>io\<close> are kept apart: \<open>io.ReadFull\<close> gives \<open>EOF\<close> when not a single byte was read.\<close>

datatype io_error = EOF | ErrUnexpectedEOF

definition ReadFull :: "nat \<Rightarrow> byte list \<Rightarrow> io_error + byte list \<times> byte list" where
  "ReadFull n bs =
     (if n \<le> length bs then Inr (take n bs, drop n bs)
      else if bs = [] then Inl EOF else Inl ErrUnexpectedEOF)"

definition ReadByte :: "byte list \<Rightarrow> io_error + byte \<times> byte list" where
  "ReadByte bs = (case bs of [] \<Rightarrow> Inl EOF | b # r \<Rightarrow> Inr (b, r))"

lemma ReadFull_append [simp]: "length xs = n \<Longrightarrow> ReadFull n (xs @ ys) = Inr (xs, ys)"
  by (simp add: ReadFull_def)

lemma ReadFull_Inr_iff:
  "ReadFull n bs = Inr (xs, ys) \<longleftrightarrow> bs = xs @ ys \<and> length xs = n"
proof
  assume "ReadFull n bs = Inr (xs, ys)"
  then show "bs = xs @ ys \<and> length xs = n"
    by (auto simp: ReadFull_def split: if_splits)
qed (auto simp: ReadFull_def)

lemma ReadByte_Cons [simp]: "ReadByte (b # r) = Inr (b, r)"
  by (simp add: ReadByte_def)

lemma ReadByte_Inr_iff: "ReadByte bs = Inr (b, r) \<longleftrightarrow> bs = b # r"
  by (cases bs) (auto simp: ReadByte_def)

section \<open>Results in sequence\<close>

text \<open>\<open>v, err := f(); if err != nil { return err }\<close> followed by the rest.\<close>

definition and_then :: "'e + 'a \<Rightarrow> ('a \<Rightarrow> 'e + 'b) \<Rightarrow> 'e + 'b" where
  "and_then r f = (case r of Inl e \<Rightarrow> Inl e | Inr x \<Rightarrow> f x)"

lemma and_then_simps [simp]:
  "and_then (Inl e) f = Inl e" "and_then (Inr x) f = f x"
  by (simp_all add: and_then_def)

lemma and_then_Inr_iff: "and_then r f = Inr y \<longleftrightarrow> (\<exists>x. r = Inr x \<and> f x = Inr y)"
  by (cases r) simp_all

lemma map_sum_Inr_iff: "map_sum f id x = Inr y \<longleftrightarrow> x = Inr y"
  by (cases x) auto

text \<open>A fixed number of values read one after the other.\<close>

fun read_n :: "nat \<Rightarrow> (byte list \<Rightarrow> 'e + 'a \<times> byte list) \<Rightarrow> byte list \<Rightarrow> 'e + 'a list \<times> byte list" where
  "read_n 0 f bs = Inr ([], bs)"
| "read_n (Suc n) f bs =
     and_then (f bs) (\<lambda>(x, r). and_then (read_n n f r) (\<lambda>(xs, r'). Inr (x # xs, r')))"

lemma read_n_encoded:
  "(\<And>x r. x \<in> set xs \<Longrightarrow> f (enc x @ r) = Inr (x, r)) \<Longrightarrow>
     read_n (length xs) f (concat (map enc xs) @ r) = Inr (xs, r)"
  by (induction xs) simp_all

lemma read_n_length: "read_n n f bs = Inr (xs, r) \<Longrightarrow> length xs = n"
  by (induction n arbitrary: bs xs) (auto simp: and_then_Inr_iff)

section \<open>Go maps\<close>

text \<open>A Go map is an association list with distinct keys, so that its length and its
  elements are computable; no statement depends on the order of the list.\<close>

type_synonym ('k, 'v) gomap = "('k \<times> 'v) list"

abbreviation gomap_ok :: "('k, 'v) gomap \<Rightarrow> bool" where
  "gomap_ok m \<equiv> distinct (map fst m)"

lemma gomap_ok_filter [simp]: "gomap_ok m \<Longrightarrow> gomap_ok (filter P m)"
  by (induction m) auto

lemma gomap_ok_update [simp]: "gomap_ok m \<Longrightarrow> gomap_ok (AList.update k v m)"
  by (rule distinct_update)

lemma gomap_ok_delete [simp]: "gomap_ok m \<Longrightarrow> gomap_ok (AList.delete k m)"
  by (rule distinct_delete)

lemma map_of_filter_key:
  "map_of (filter (\<lambda>(k, v). P k) m) k = (if P k then map_of m k else None)"
  by (induction m) auto

lemma update_new: "map_of m k = None \<Longrightarrow> AList.update k v m = m @ [(k, v)]"
  by (induction m) (auto split: if_splits)

lemma map_of_None_iff: "map_of m k = None \<longleftrightarrow> k \<notin> fst ` set m"
  by (rule map_of_eq_None_iff)

lemma map_of_SomeI: "gomap_ok m \<Longrightarrow> (k, v) \<in> set m \<Longrightarrow> map_of m k = Some v"
  by simp

section \<open>Shared contracts\<close>

text \<open>A component that starts in a state and is driven by operations: whatever every
  operation keeps is kept by every run.\<close>

locale transition_system =
  fixes step :: "'o \<Rightarrow> 's \<Rightarrow> 's"
    and inv :: "'s \<Rightarrow> bool"
  assumes step_inv: "inv s \<Longrightarrow> inv (step x s)"
begin

lemma run_inv: "inv s \<Longrightarrow> inv (fold step xs s)"
  by (induction xs arbitrary: s) (auto intro: step_inv)

end

text \<open>A binary format read from the front of a buffer: the decoder inverts the encoder and
  accepts nothing but encodings of well-formed values.\<close>

locale codec =
  fixes enc :: "'a \<Rightarrow> byte list"
    and dec :: "byte list \<Rightarrow> 'e + 'a \<times> byte list"
    and wf :: "'a \<Rightarrow> bool"
  assumes dec_enc: "wf x \<Longrightarrow> dec (enc x @ r) = Inr (x, r)"
    and dec_sound: "dec bs = Inr (x, r) \<Longrightarrow> wf x \<and> bs = enc x @ r"
    and enc_nonempty: "enc x \<noteq> []"
begin

lemma dec_Inr_iff: "dec bs = Inr (x, r) \<longleftrightarrow> wf x \<and> bs = enc x @ r"
  using dec_enc dec_sound by blast

lemma dec_shorter: "dec bs = Inr (x, r) \<Longrightarrow> length r < length bs"
  using enc_nonempty by (auto dest: dec_sound)

lemma enc_inject: "wf x \<Longrightarrow> wf y \<Longrightarrow> enc x = enc y \<Longrightarrow> x = y"
  using dec_enc [of x "[]"] dec_enc [of y "[]"] by simp

end

text \<open>A loop that decodes values until the buffer is empty.\<close>

locale codec_loop = codec +
  fixes loop :: "byte list \<Rightarrow> 'a list \<Rightarrow> 'f + 'a list"
    and wrap :: "nat \<Rightarrow> 'e \<Rightarrow> 'f"
  assumes loop_unfold: "loop bs acc =
     (if bs = [] then Inr acc
      else case dec bs of Inl e \<Rightarrow> Inl (wrap (length acc) e)
           | Inr (x, r) \<Rightarrow> loop r (acc @ [x]))"
begin

lemma loop_encoded:
  "list_all wf xs \<Longrightarrow> loop (concat (map enc xs)) acc = Inr (acc @ xs)"
proof (induction xs arbitrary: acc)
  case Nil
  show ?case by (subst loop_unfold) simp
next
  case (Cons x xs)
  then have "loop (enc x @ concat (map enc xs)) acc = loop (concat (map enc xs)) (acc @ [x])"
    using enc_nonempty [of x] by (subst loop_unfold) (simp add: dec_enc)
  with Cons show ?case by simp
qed

lemma loop_sound:
  "loop bs acc = Inr ys \<Longrightarrow>
     \<exists>xs. ys = acc @ xs \<and> list_all wf xs \<and> bs = concat (map enc xs)"
proof (induction bs arbitrary: acc rule: length_induct)
  case (1 bs)
  show ?case
  proof (cases "bs = []")
    case True
    with "1.prems" show ?thesis by (subst (asm) loop_unfold) simp
  next
    case False
    with "1.prems" obtain x r where d: "dec bs = Inr (x, r)"
      and l: "loop r (acc @ [x]) = Inr ys"
      by (subst (asm) loop_unfold) (auto split: sum.splits)
    from d have x: "wf x" "bs = enc x @ r" by (auto dest: dec_sound)
    with "1.IH" l dec_shorter [OF d] obtain xs where
      "ys = acc @ x # xs" "list_all wf xs" "r = concat (map enc xs)" by fastforce
    with x have "ys = acc @ (x # xs) \<and> list_all wf (x # xs) \<and> bs = concat (map enc (x # xs))"
      by simp
    then show ?thesis by blast
  qed
qed

lemma loop_Inr_iff:
  "loop bs [] = Inr ys \<longleftrightarrow> list_all wf ys \<and> bs = concat (map enc ys)"
  using loop_encoded [of ys "[]"] loop_sound [of bs "[]" ys] by auto

end

end
