(* ===== verification/Eth_Types.thy ===== *)
theory Eth_Types
  imports Prelude
begin

text \<open>
  Block identifiers and references (\<open>op-service/eth/id.go\<close>) and the system
  configuration (\<open>op-service/eth/types.go\<close>), without the flag that only its JSON format reads.
\<close>

record BlockID =
  bid_Hash :: hash
  bid_Number :: u64

record L1BlockRef =
  l1_Hash :: hash
  l1_Number :: u64
  l1_ParentHash :: hash
  l1_Time :: u64

record L2BlockRef =
  l2_Hash :: hash
  l2_Number :: u64
  l2_ParentHash :: hash
  l2_Time :: u64
  l2_L1Origin :: BlockID
  l2_SequenceNumber :: u64

definition L1BlockRef_ID :: "L1BlockRef \<Rightarrow> BlockID" where
  "L1BlockRef_ID b = \<lparr>bid_Hash = l1_Hash b, bid_Number = l1_Number b\<rparr>"

text \<open>The EIP-2718 transaction types of package \<open>types\<close> that several components test for.\<close>

definition SetCodeTxType :: byte where "SetCodeTxType = 4"
definition DepositTxType :: byte where "DepositTxType = 126"

text \<open>The parent number saturates at 0.\<close>

definition L1BlockRef_ParentID :: "L1BlockRef \<Rightarrow> BlockID" where
  "L1BlockRef_ParentID b =
     (let n = bid_Number (L1BlockRef_ID b)
      in \<lparr>bid_Hash = l1_ParentHash b, bid_Number = (if n > 0 then n - 1 else n)\<rparr>)"

definition L2BlockRef_ID :: "L2BlockRef \<Rightarrow> BlockID" where
  "L2BlockRef_ID b = \<lparr>bid_Hash = l2_Hash b, bid_Number = l2_Number b\<rparr>"

definition L2BlockRef_ParentID :: "L2BlockRef \<Rightarrow> BlockID" where
  "L2BlockRef_ParentID b =
     (let n = bid_Number (L2BlockRef_ID b)
      in \<lparr>bid_Hash = l2_ParentHash b, bid_Number = (if n > 0 then n - 1 else n)\<rparr>)"

definition L2BlockRef_BlockRef :: "L2BlockRef \<Rightarrow> L1BlockRef" where
  "L2BlockRef_BlockRef b =
     \<lparr>l1_Hash = l2_Hash b, l1_Number = l2_Number b, l1_ParentHash = l2_ParentHash b,
      l1_Time = l2_Time b\<rparr>"

text \<open>The zero values \<open>L1BlockRef{}\<close> and \<open>L2BlockRef{}\<close>.\<close>

definition zero_L1BlockRef :: L1BlockRef where
  "zero_L1BlockRef = \<lparr>l1_Hash = 0, l1_Number = 0, l1_ParentHash = 0, l1_Time = 0\<rparr>"

definition zero_L2BlockRef :: L2BlockRef where
  "zero_L2BlockRef = \<lparr>l2_Hash = 0, l2_Number = 0, l2_ParentHash = 0, l2_Time = 0,
     l2_L1Origin = \<lparr>bid_Hash = 0, bid_Number = 0\<rparr>, l2_SequenceNumber = 0\<rparr>"

lemma L1BlockRef_ID_sel [simp]:
  "bid_Hash (L1BlockRef_ID b) = l1_Hash b"
  "bid_Number (L1BlockRef_ID b) = l1_Number b"
  by (simp_all add: L1BlockRef_ID_def)

lemma L2BlockRef_ID_sel [simp]:
  "bid_Hash (L2BlockRef_ID b) = l2_Hash b"
  "bid_Number (L2BlockRef_ID b) = l2_Number b"
  by (simp_all add: L2BlockRef_ID_def)

record SystemConfig =
  BatcherAddr :: address
  Overhead :: hash
  Scalar :: hash
  GasLimit :: u64
  sys_BaseFee :: "nat option"
  sys_EIP1559Params :: u64
  sys_OperatorFeeParams :: hash
  sys_MinBaseFee :: u64
  sys_DAFootprintGasScalar :: u16

datatype EngineAPIMethod =
    FCUV1 | FCUV2 | FCUV3 | FCUV4
  | NewPayloadV2 | NewPayloadV3 | NewPayloadV4 | NewPayloadV5
  | GetPayloadV2 | GetPayloadV3 | GetPayloadV4 | GetPayloadV5 | GetPayloadV6

end
