(* ===== verification/Rollup_Config.thy ===== *)
theory Rollup_Config
  imports Eth_Types
begin

text \<open>
  The rollup configuration (\<open>op-node/rollup/types.go\<close>, \<open>mantle_types.go\<close>), the fork lists
  (\<open>op-core/forks\<close>) and the chain specification (\<open>op-node/rollup/chain_spec.go\<close>): fork
  activation, the ordering checks, the alignment of the OP forks with the Mantle forks, and
  the block time arithmetic.
\<close>

section \<open>Forks (op-core/forks)\<close>

datatype fork_name =
    Bedrock | Regolith | Canyon | Delta | Ecotone | Fjord | Granite | Holocene | Isthmus
  | Jovian | Interop | PectraBlobSchedule | ForkNone

definition All :: "fork_name list" where
  "All = [Bedrock, Regolith, Canyon, Delta, Ecotone, Fjord, Granite, Holocene, Isthmus,
     Jovian, Interop]"

datatype MantleForkName =
    MantleBaseFee | MantleEverest | MantleEuboea | MantleSkadi | MantleLimb | MantleArsia
  | MantleElysium | MantleNone | MantleNoSupport

definition AllMantleForks :: "MantleForkName list" where
  "AllMantleForks = [MantleBaseFee, MantleEverest, MantleEuboea, MantleSkadi, MantleLimb,
     MantleArsia, MantleElysium]"

text \<open>Panics of the Go code are values.\<close>

datatype 'f fork_panic = InvalidFork 'f | UnknownFork 'f

fun suffix_from :: "'a \<Rightarrow> 'a list \<Rightarrow> 'a list option" where
  "suffix_from x [] = None"
| "suffix_from x (y # ys) = (if y = x then Some (y # ys) else suffix_from x ys)"

definition From :: "fork_name \<Rightarrow> fork_name fork_panic + fork_name list" where
  "From start =
     (case suffix_from start All of Some fs \<Rightarrow> Inr fs | None \<Rightarrow> Inl (InvalidFork start))"

definition MantleForksFrom ::
    "MantleForkName \<Rightarrow> MantleForkName fork_panic + MantleForkName list" where
  "MantleForksFrom start =
     (case suffix_from start AllMantleForks of
        Some fs \<Rightarrow> Inr fs | None \<Rightarrow> Inl (InvalidFork start))"

text \<open>The \<open>next\<close> tables: each fork maps to its successor, the last one to the none value.\<close>

fun next_table :: "'a \<Rightarrow> 'a list \<Rightarrow> ('a, 'a) gomap" where
  "next_table none [] = []"
| "next_table none [f] = [(f, none)]"
| "next_table none (f # g # fs) = (f, g) # next_table none (g # fs)"

definition IsValid :: "fork_name \<Rightarrow> bool" where
  "IsValid f = (map_of (next_table ForkNone All) f \<noteq> None)"

text \<open>A missing key of a Go map reads as the zero value, here the empty name.\<close>

definition Next :: "fork_name \<Rightarrow> fork_name" where
  "Next f = (case map_of (next_table ForkNone All) f of Some g \<Rightarrow> g | None \<Rightarrow> ForkNone)"

definition IsValidMantleFork :: "MantleForkName \<Rightarrow> bool" where
  "IsValidMantleFork f = (map_of (next_table MantleNone AllMantleForks) f \<noteq> None)"

fun ForkToMantleFork :: "fork_name \<Rightarrow> MantleForkName" where
  "ForkToMantleFork Interop = MantleNoSupport"
| "ForkToMantleFork Canyon = MantleArsia"
| "ForkToMantleFork Delta = MantleArsia"
| "ForkToMantleFork Ecotone = MantleArsia"
| "ForkToMantleFork Fjord = MantleArsia"
| "ForkToMantleFork Granite = MantleArsia"
| "ForkToMantleFork Holocene = MantleArsia"
| "ForkToMantleFork Isthmus = MantleArsia"
| "ForkToMantleFork Jovian = MantleArsia"
| "ForkToMantleFork Bedrock = MantleSkadi"
| "ForkToMantleFork Regolith = MantleSkadi"
| "ForkToMantleFork _ = MantleNone"

section \<open>The configuration (op-node/rollup/types.go)\<close>

record Genesis =
  gen_L1 :: BlockID
  gen_L2 :: BlockID
  L2Time :: u64
  gen_SystemConfig :: SystemConfig

record AltDAConfig =
  DAChallengeAddress :: address
  CommitmentTypeName :: string
  DAChallengeWindow :: u64
  DAResolveWindow :: u64

record OptimismConfig =
  EIP1559Elasticity :: u64
  EIP1559Denominator :: u64
  EIP1559DenominatorCanyon :: "u64 option"

record Config =
  cfg_Genesis :: Genesis
  BlockTime :: u64
  cfg_MaxSequencerDrift :: u64
  SeqWindowSize :: u64
  ChannelTimeoutBedrock :: u64
  L1ChainID :: "int option"
  L2ChainID :: "int option"
  RegolithTime :: "u64 option"
  CanyonTime :: "u64 option"
  DeltaTime :: "u64 option"
  EcotoneTime :: "u64 option"
  FjordTime :: "u64 option"
  GraniteTime :: "u64 option"
  HoloceneTime :: "u64 option"
  IsthmusTime :: "u64 option"
  JovianTime :: "u64 option"
  InteropTime :: "u64 option"
  MantleBaseFeeTime :: "u64 option"
  MantleEverestTime :: "u64 option"
  MantleEuboeaTime :: "u64 option"
  MantleSkadiTime :: "u64 option"
  MantleLimbTime :: "u64 option"
  MantleArsiaTime :: "u64 option"
  MantleElysiumTime :: "u64 option"
  MantleHoodiBVMUpgradeTime :: "u64 option"
  BatchInboxAddress :: address
  DepositContractAddress :: address
  L1SystemConfigAddress :: address
  ProtocolVersionsAddress :: address
  ChainOpConfig :: "OptimismConfig option"
  cfg_AltDAConfig :: "AltDAConfig option"
  PectraBlobScheduleTime :: "u64 option"

section \<open>Fork activation\<close>

text \<open>\<open>ActivationTime\<close> panics on Bedrock and on the empty name.\<close>

fun ActivationTime :: "Config \<Rightarrow> fork_name \<Rightarrow> fork_name fork_panic + u64 option" where
  "ActivationTime c Interop = Inr (InteropTime c)"
| "ActivationTime c Jovian = Inr (JovianTime c)"
| "ActivationTime c Isthmus = Inr (IsthmusTime c)"
| "ActivationTime c Holocene = Inr (HoloceneTime c)"
| "ActivationTime c Granite = Inr (GraniteTime c)"
| "ActivationTime c Fjord = Inr (FjordTime c)"
| "ActivationTime c Ecotone = Inr (EcotoneTime c)"
| "ActivationTime c Delta = Inr (DeltaTime c)"
| "ActivationTime c Canyon = Inr (CanyonTime c)"
| "ActivationTime c Regolith = Inr (RegolithTime c)"
| "ActivationTime c PectraBlobSchedule = Inr (PectraBlobScheduleTime c)"
| "ActivationTime c f = Inl (UnknownFork f)"

fun SetActivationTime ::
    "Config \<Rightarrow> fork_name \<Rightarrow> u64 option \<Rightarrow> fork_name fork_panic + Config" where
  "SetActivationTime c Interop ts = Inr (c\<lparr>InteropTime := ts\<rparr>)"
| "SetActivationTime c Jovian ts = Inr (c\<lparr>JovianTime := ts\<rparr>)"
| "SetActivationTime c Isthmus ts = Inr (c\<lparr>IsthmusTime := ts\<rparr>)"
| "SetActivationTime c Holocene ts = Inr (c\<lparr>HoloceneTime := ts\<rparr>)"
| "SetActivationTime c Granite ts = Inr (c\<lparr>GraniteTime := ts\<rparr>)"
| "SetActivationTime c Fjord ts = Inr (c\<lparr>FjordTime := ts\<rparr>)"
| "SetActivationTime c Ecotone ts = Inr (c\<lparr>EcotoneTime := ts\<rparr>)"
| "SetActivationTime c Delta ts = Inr (c\<lparr>DeltaTime := ts\<rparr>)"
| "SetActivationTime c Canyon ts = Inr (c\<lparr>CanyonTime := ts\<rparr>)"
| "SetActivationTime c Regolith ts = Inr (c\<lparr>RegolithTime := ts\<rparr>)"
| "SetActivationTime c PectraBlobSchedule ts = Inr (c\<lparr>PectraBlobScheduleTime := ts\<rparr>)"
| "SetActivationTime c f ts = Inl (UnknownFork f)"

definition IsForkActive :: "Config \<Rightarrow> fork_name \<Rightarrow> u64 \<Rightarrow> fork_name fork_panic + bool" where
  "IsForkActive c fork timestamp =
     (case ActivationTime c fork of
        Inl p \<Rightarrow> Inl p
      | Inr activationTime \<Rightarrow>
          Inr (case activationTime of None \<Rightarrow> False | Some a \<Rightarrow> timestamp \<ge> a))"

text \<open>The per-fork predicates call \<open>IsForkActive\<close> with a name that does not panic.\<close>

definition IsRegolith :: "Config \<Rightarrow> u64 \<Rightarrow> bool" where
  "IsRegolith c timestamp = (IsForkActive c Regolith timestamp = Inr True)"

definition IsCanyon :: "Config \<Rightarrow> u64 \<Rightarrow> bool" where
  "IsCanyon c timestamp = (IsForkActive c Canyon timestamp = Inr True)"

definition IsDelta :: "Config \<Rightarrow> u64 \<Rightarrow> bool" where
  "IsDelta c timestamp = (IsForkActive c Delta timestamp = Inr True)"

definition IsEcotone :: "Config \<Rightarrow> u64 \<Rightarrow> bool" where
  "IsEcotone c timestamp = (IsForkActive c Ecotone timestamp = Inr True)"

definition IsFjord :: "Config \<Rightarrow> u64 \<Rightarrow> bool" where
  "IsFjord c timestamp = (IsForkActive c Fjord timestamp = Inr True)"

definition IsGranite :: "Config \<Rightarrow> u64 \<Rightarrow> bool" where
  "IsGranite c timestamp = (IsForkActive c Granite timestamp = Inr True)"

definition IsHolocene :: "Config \<Rightarrow> u64 \<Rightarrow> bool" where
  "IsHolocene c timestamp = (IsForkActive c Holocene timestamp = Inr True)"

definition IsIsthmus :: "Config \<Rightarrow> u64 \<Rightarrow> bool" where
  "IsIsthmus c timestamp = (IsForkActive c Isthmus timestamp = Inr True)"

definition IsJovian :: "Config \<Rightarrow> u64 \<Rightarrow> bool" where
  "IsJovian c timestamp = (IsForkActive c Jovian timestamp = Inr True)"

text \<open>The toggles of \<open>toggles.go\<close>.\<close>

definition IsMinBaseFee :: "Config \<Rightarrow> u64 \<Rightarrow> bool" where
  "IsMinBaseFee c time = IsJovian c time"

definition IsDAFootprintBlockLimit :: "Config \<Rightarrow> u64 \<Rightarrow> bool" where
  "IsDAFootprintBlockLimit c time = IsJovian c time"

definition IsInterop :: "Config \<Rightarrow> u64 \<Rightarrow> bool" where
  "IsInterop c timestamp = (IsForkActive c Interop timestamp = Inr True)"

definition IsRegolithActivationBlock :: "Config \<Rightarrow> u64 \<Rightarrow> bool" where
  "IsRegolithActivationBlock c l2BlockTime =
     (IsRegolith c l2BlockTime \<and> l2BlockTime \<ge> BlockTime c \<and>
      \<not> IsRegolith c (l2BlockTime - BlockTime c))"

definition IsCanyonActivationBlock :: "Config \<Rightarrow> u64 \<Rightarrow> bool" where
  "IsCanyonActivationBlock c l2BlockTime =
     (IsCanyon c l2BlockTime \<and> l2BlockTime \<ge> BlockTime c \<and>
      \<not> IsCanyon c (l2BlockTime - BlockTime c))"

definition IsDeltaActivationBlock :: "Config \<Rightarrow> u64 \<Rightarrow> bool" where
  "IsDeltaActivationBlock c l2BlockTime =
     (IsDelta c l2BlockTime \<and> l2BlockTime \<ge> BlockTime c \<and>
      \<not> IsDelta c (l2BlockTime - BlockTime c))"

definition IsEcotoneActivationBlock :: "Config \<Rightarrow> u64 \<Rightarrow> bool" where
  "IsEcotoneActivationBlock c l2BlockTime =
     (IsEcotone c l2BlockTime \<and> l2BlockTime \<ge> BlockTime c \<and>
      \<not> IsEcotone c (l2BlockTime - BlockTime c))"

definition IsFjordActivationBlock :: "Config \<Rightarrow> u64 \<Rightarrow> bool" where
  "IsFjordActivationBlock c l2BlockTime =
     (IsFjord c l2BlockTime \<and> l2BlockTime \<ge> BlockTime c \<and>
      \<not> IsFjord c (l2BlockTime - BlockTime c))"

definition IsGraniteActivationBlock :: "Config \<Rightarrow> u64 \<Rightarrow> bool" where
  "IsGraniteActivationBlock c l2BlockTime =
     (IsGranite c l2BlockTime \<and> l2BlockTime \<ge> BlockTime c \<and>
      \<not> IsGranite c (l2BlockTime - BlockTime c))"

definition IsHoloceneActivationBlock :: "Config \<Rightarrow> u64 \<Rightarrow> bool" where
  "IsHoloceneActivationBlock c l2BlockTime =
     (IsHolocene c l2BlockTime \<and> l2BlockTime \<ge> BlockTime c \<and>
      \<not> IsHolocene c (l2BlockTime - BlockTime c))"

definition IsIsthmusActivationBlock :: "Config \<Rightarrow> u64 \<Rightarrow> bool" where
  "IsIsthmusActivationBlock c l2BlockTime =
     (IsIsthmus c l2BlockTime \<and> l2BlockTime \<ge> BlockTime c \<and>
      \<not> IsIsthmus c (l2BlockTime - BlockTime c))"

definition IsJovianActivationBlock :: "Config \<Rightarrow> u64 \<Rightarrow> bool" where
  "IsJovianActivationBlock c l2BlockTime =
     (IsJovian c l2BlockTime \<and> l2BlockTime \<ge> BlockTime c \<and>
      \<not> IsJovian c (l2BlockTime - BlockTime c))"

definition IsInteropActivationBlock :: "Config \<Rightarrow> u64 \<Rightarrow> bool" where
  "IsInteropActivationBlock c l2BlockTime =
     (IsInterop c l2BlockTime \<and> l2BlockTime \<ge> BlockTime c \<and>
      \<not> IsInterop c (l2BlockTime - BlockTime c))"

text \<open>\<open>scheduleableForks = forks.From(forks.Regolith)\<close>.\<close>

definition scheduleableForks :: "fork_name list" where
  "scheduleableForks = (case From Regolith of Inr fs \<Rightarrow> fs | Inl _ \<Rightarrow> [])"

fun first_activated :: "('f \<Rightarrow> u64 \<Rightarrow> bool) \<Rightarrow> 'f \<Rightarrow> u64 \<Rightarrow> u64 \<Rightarrow> 'f list \<Rightarrow> 'f" where
  "first_activated active none oldTime newTime [] = none"
| "first_activated active none oldTime newTime (f # fs) =
     (if active f newTime \<and> \<not> active f oldTime then f
      else first_activated active none oldTime newTime fs)"

definition IsActivationBlock :: "Config \<Rightarrow> u64 \<Rightarrow> u64 \<Rightarrow> fork_name" where
  "IsActivationBlock c oldTime newTime =
     first_activated (\<lambda>f t. IsForkActive c f t = Inr True) ForkNone oldTime newTime
       scheduleableForks"

definition IsActivationBlockForFork ::
    "Config \<Rightarrow> u64 \<Rightarrow> fork_name \<Rightarrow> fork_name fork_panic + bool" where
  "IsActivationBlockForFork c l2BlockTime fork =
     (if \<not> l2BlockTime \<ge> BlockTime c then Inr False
      else case IsForkActive c fork (l2BlockTime - BlockTime c) of
        Inl p \<Rightarrow> Inl p
      | Inr True \<Rightarrow> Inr False
      | Inr False \<Rightarrow> IsForkActive c fork l2BlockTime)"

text \<open>The loop of \<open>ActivateAt\<close>: \<open>ts\<close> is the genesis time until the fork is reached and nil
  afterwards.\<close>

fun activate_loop ::
    "('c \<Rightarrow> 'f \<Rightarrow> u64 option \<Rightarrow> 'p + 'c) \<Rightarrow> 'f \<Rightarrow> u64 \<Rightarrow> u64 option \<Rightarrow> 'f list \<Rightarrow> 'c \<Rightarrow> 'p + 'c" where
  "activate_loop upd fork timestamp ts [] c = Inr c"
| "activate_loop upd fork timestamp ts (f # fs) c =
     (if f = fork
      then (case upd c fork (Some timestamp) of
              Inl p \<Rightarrow> Inl p | Inr c' \<Rightarrow> activate_loop upd fork timestamp None fs c')
      else (case upd c f ts of
              Inl p \<Rightarrow> Inl p | Inr c' \<Rightarrow> activate_loop upd fork timestamp ts fs c'))"

definition ActivateAt :: "Config \<Rightarrow> fork_name \<Rightarrow> u64 \<Rightarrow> fork_name fork_panic + Config" where
  "ActivateAt c fork timestamp =
     (if \<not> IsValid fork then Inl (InvalidFork fork)
      else activate_loop SetActivationTime fork timestamp
             (if fork = Bedrock then None else Some 0) scheduleableForks c)"

definition ActivateAtGenesis :: "Config \<Rightarrow> fork_name \<Rightarrow> fork_name fork_panic + Config" where
  "ActivateAtGenesis c hardfork = ActivateAt c hardfork 0"

section \<open>Mantle forks (op-node/rollup/mantle_types.go)\<close>

fun MantleActivationTime ::
    "Config \<Rightarrow> MantleForkName \<Rightarrow> MantleForkName fork_panic + u64 option" where
  "MantleActivationTime c MantleElysium = Inr (MantleElysiumTime c)"
| "MantleActivationTime c MantleArsia = Inr (MantleArsiaTime c)"
| "MantleActivationTime c MantleLimb = Inr (MantleLimbTime c)"
| "MantleActivationTime c MantleSkadi = Inr (MantleSkadiTime c)"
| "MantleActivationTime c MantleEuboea = Inr (MantleEuboeaTime c)"
| "MantleActivationTime c MantleEverest = Inr (MantleEverestTime c)"
| "MantleActivationTime c MantleBaseFee = Inr (MantleBaseFeeTime c)"
| "MantleActivationTime c MantleNoSupport = Inr None"
| "MantleActivationTime c f = Inl (UnknownFork f)"

fun SetMantleActivationTime ::
    "Config \<Rightarrow> MantleForkName \<Rightarrow> u64 option \<Rightarrow> MantleForkName fork_panic + Config" where
  "SetMantleActivationTime c MantleElysium ts = Inr (c\<lparr>MantleElysiumTime := ts\<rparr>)"
| "SetMantleActivationTime c MantleArsia ts = Inr (c\<lparr>MantleArsiaTime := ts\<rparr>)"
| "SetMantleActivationTime c MantleLimb ts = Inr (c\<lparr>MantleLimbTime := ts\<rparr>)"
| "SetMantleActivationTime c MantleSkadi ts = Inr (c\<lparr>MantleSkadiTime := ts\<rparr>)"
| "SetMantleActivationTime c MantleEuboea ts = Inr (c\<lparr>MantleEuboeaTime := ts\<rparr>)"
| "SetMantleActivationTime c MantleEverest ts = Inr (c\<lparr>MantleEverestTime := ts\<rparr>)"
| "SetMantleActivationTime c MantleBaseFee ts = Inr (c\<lparr>MantleBaseFeeTime := ts\<rparr>)"
| "SetMantleActivationTime c f ts = Inl (UnknownFork f)"

definition IsMantleForkActive ::
    "Config \<Rightarrow> MantleForkName \<Rightarrow> u64 \<Rightarrow> MantleForkName fork_panic + bool" where
  "IsMantleForkActive c fork timestamp =
     (case MantleActivationTime c fork of
        Inl p \<Rightarrow> Inl p
      | Inr activationTime \<Rightarrow>
          Inr (case activationTime of None \<Rightarrow> False | Some a \<Rightarrow> timestamp \<ge> a))"

definition IsMantleBaseFee :: "Config \<Rightarrow> u64 \<Rightarrow> bool" where
  "IsMantleBaseFee c timestamp = (IsMantleForkActive c MantleBaseFee timestamp = Inr True)"

definition IsMantleEverest :: "Config \<Rightarrow> u64 \<Rightarrow> bool" where
  "IsMantleEverest c timestamp = (IsMantleForkActive c MantleEverest timestamp = Inr True)"

definition IsMantleEuboea :: "Config \<Rightarrow> u64 \<Rightarrow> bool" where
  "IsMantleEuboea c timestamp = (IsMantleForkActive c MantleEuboea timestamp = Inr True)"

definition IsMantleSkadi :: "Config \<Rightarrow> u64 \<Rightarrow> bool" where
  "IsMantleSkadi c timestamp = (IsMantleForkActive c MantleSkadi timestamp = Inr True)"

definition IsMantleLimb :: "Config \<Rightarrow> u64 \<Rightarrow> bool" where
  "IsMantleLimb c timestamp = (IsMantleForkActive c MantleLimb timestamp = Inr True)"

definition IsMantleArsia :: "Config \<Rightarrow> u64 \<Rightarrow> bool" where
  "IsMantleArsia c timestamp = (IsMantleForkActive c MantleArsia timestamp = Inr True)"

definition IsMantleElysium :: "Config \<Rightarrow> u64 \<Rightarrow> bool" where
  "IsMantleElysium c timestamp = (IsMantleForkActive c MantleElysium timestamp = Inr True)"

definition IsMantleHoodiBVMUpgrade :: "Config \<Rightarrow> u64 \<Rightarrow> bool" where
  "IsMantleHoodiBVMUpgrade c timestamp =
     (case MantleHoodiBVMUpgradeTime c of None \<Rightarrow> False | Some a \<Rightarrow> timestamp \<ge> a)"

definition IsMantleBaseFeeActivationBlock :: "Config \<Rightarrow> u64 \<Rightarrow> bool" where
  "IsMantleBaseFeeActivationBlock c l2BlockTime =
     (IsMantleBaseFee c l2BlockTime \<and> l2BlockTime \<ge> BlockTime c \<and>
      \<not> IsMantleBaseFee c (l2BlockTime - BlockTime c))"

definition IsMantleEverestActivationBlock :: "Config \<Rightarrow> u64 \<Rightarrow> bool" where
  "IsMantleEverestActivationBlock c l2BlockTime =
     (IsMantleEverest c l2BlockTime \<and> l2BlockTime \<ge> BlockTime c \<and>
      \<not> IsMantleEverest c (l2BlockTime - BlockTime c))"

definition IsMantleEuboeaActivationBlock :: "Config \<Rightarrow> u64 \<Rightarrow> bool" where
  "IsMantleEuboeaActivationBlock c l2BlockTime =
     (IsMantleEuboea c l2BlockTime \<and> l2BlockTime \<ge> BlockTime c \<and>
      \<not> IsMantleEuboea c (l2BlockTime - BlockTime c))"

definition IsMantleSkadiActivationBlock :: "Config \<Rightarrow> u64 \<Rightarrow> bool" where
  "IsMantleSkadiActivationBlock c l2BlockTime =
     (IsMantleSkadi c l2BlockTime \<and> l2BlockTime \<ge> BlockTime c \<and>
      \<not> IsMantleSkadi c (l2BlockTime - BlockTime c))"

definition IsMantleLimbActivationBlock :: "Config \<Rightarrow> u64 \<Rightarrow> bool" where
  "IsMantleLimbActivationBlock c l2BlockTime =
     (IsMantleLimb c l2BlockTime \<and> l2BlockTime \<ge> BlockTime c \<and>
      \<not> IsMantleLimb c (l2BlockTime - BlockTime c))"

definition IsMantleArsiaActivationBlock :: "Config \<Rightarrow> u64 \<Rightarrow> bool" where
  "IsMantleArsiaActivationBlock c l2BlockTime =
     (IsMantleArsia c l2BlockTime \<and> l2BlockTime \<ge> BlockTime c \<and>
      \<not> IsMantleArsia c (l2BlockTime - BlockTime c))"

definition IsMantleElysiumActivationBlock :: "Config \<Rightarrow> u64 \<Rightarrow> bool" where
  "IsMantleElysiumActivationBlock c l2BlockTime =
     (IsMantleElysium c l2BlockTime \<and> l2BlockTime \<ge> BlockTime c \<and>
      \<not> IsMantleElysium c (l2BlockTime - BlockTime c))"

definition scheduleableMantleForks :: "MantleForkName list" where
  "scheduleableMantleForks = (case MantleForksFrom MantleBaseFee of Inr fs \<Rightarrow> fs | Inl _ \<Rightarrow> [])"

definition IsMantleActivationBlock :: "Config \<Rightarrow> u64 \<Rightarrow> u64 \<Rightarrow> MantleForkName" where
  "IsMantleActivationBlock c oldTime newTime =
     first_activated (\<lambda>f t. IsMantleForkActive c f t = Inr True) MantleNone oldTime newTime
       scheduleableMantleForks"

definition MantleActivateAt ::
    "Config \<Rightarrow> MantleForkName \<Rightarrow> u64 \<Rightarrow> MantleForkName fork_panic + Config" where
  "MantleActivateAt c fork timestamp =
     (if \<not> IsValidMantleFork fork then Inl (InvalidFork fork)
      else activate_loop SetMantleActivationTime fork timestamp (Some 0)
             scheduleableMantleForks c)"

definition MantleActivateAtGenesis ::
    "Config \<Rightarrow> MantleForkName \<Rightarrow> MantleForkName fork_panic + Config" where
  "MantleActivateAtGenesis c hardfork = MantleActivateAt c hardfork 0"

text \<open>An \<open>error\<close> result is an option: \<open>None\<close> is nil.\<close>

datatype 'f fork_order_error = PriorForkMissing 'f 'f u64 | PriorForkHigher 'f 'f u64 u64

fun checkMantleFork :: "u64 option \<Rightarrow> u64 option \<Rightarrow> MantleForkName \<Rightarrow> MantleForkName \<Rightarrow>
    MantleForkName fork_order_error option" where
  "checkMantleFork None None aName bName = None"
| "checkMantleFork None (Some b) aName bName = Some (PriorForkMissing bName aName b)"
| "checkMantleFork (Some a) None aName bName = None"
| "checkMantleFork (Some a) (Some b) aName bName =
     (if a > b then Some (PriorForkHigher bName aName b a) else None)"

text \<open>The sequence \<open>if err := ...; err != nil { return err }\<close>.\<close>

fun first_error :: "'e option list \<Rightarrow> 'e option" where
  "first_error [] = None"
| "first_error (Some e # es) = Some e"
| "first_error (None # es) = first_error es"

definition CheckMantleForks :: "Config \<Rightarrow> MantleForkName fork_order_error option" where
  "CheckMantleForks cfg = first_error [
     checkMantleFork (MantleBaseFeeTime cfg) (MantleEverestTime cfg) MantleBaseFee MantleEverest,
     checkMantleFork (MantleEverestTime cfg) (MantleEuboeaTime cfg) MantleEverest MantleEuboea,
     checkMantleFork (MantleEuboeaTime cfg) (MantleSkadiTime cfg) MantleEuboea MantleSkadi,
     checkMantleFork (MantleSkadiTime cfg) (MantleLimbTime cfg) MantleSkadi MantleLimb,
     checkMantleFork (MantleLimbTime cfg) (MantleArsiaTime cfg) MantleLimb MantleArsia,
     checkMantleFork (MantleArsiaTime cfg) (MantleElysiumTime cfg) MantleArsia MantleElysium]"

text \<open>The configuration is changed in place, also when the final check reports an error.\<close>

definition AlignOpWithMantle ::
    "Config \<Rightarrow> MantleForkName fork_order_error option \<times> Config" where
  "AlignOpWithMantle c =
     (let c1 = c\<lparr>CanyonTime := MantleArsiaTime c, DeltaTime := MantleArsiaTime c,
                 EcotoneTime := MantleArsiaTime c, FjordTime := MantleArsiaTime c,
                 GraniteTime := MantleArsiaTime c, HoloceneTime := MantleArsiaTime c,
                 IsthmusTime := MantleArsiaTime c, JovianTime := MantleArsiaTime c\<rparr>;
          c2 = (case ChainOpConfig c1 of
                  None \<Rightarrow> c1\<lparr>ChainOpConfig := Some \<lparr>EIP1559Elasticity = 2,
                     EIP1559Denominator = 8, EIP1559DenominatorCanyon = Some 8\<rparr>\<rparr>
                | Some o' \<Rightarrow> c1\<lparr>ChainOpConfig :=
                     Some (o'\<lparr>EIP1559DenominatorCanyon := Some (EIP1559Denominator o')\<rparr>)\<rparr>)
      in (CheckMantleForks c2, c2))"

section \<open>Validation\<close>

definition KeccakCommitmentString :: string where
  "KeccakCommitmentString = ''KeccakCommitment''"

definition GenericCommitmentString :: string where
  "GenericCommitmentString = ''GenericCommitment''"

datatype CommitmentType = Keccak256CommitmentType | GenericCommitmentType

definition CommitmentTypeFromString :: "string \<Rightarrow> CommitmentType option" where
  "CommitmentTypeFromString s =
     (if s = KeccakCommitmentString then Some Keccak256CommitmentType
      else if s = GenericCommitmentString then Some GenericCommitmentType
      else None)"

datatype config_error =
    ErrBlockTimeZero | ErrMissingChannelTimeout | ErrInvalidSeqWindowSize
  | ErrInvalidMaxSeqDrift | ErrMissingGenesisL1Hash | ErrMissingGenesisL2Hash
  | ErrGenesisHashesSame | ErrMissingGenesisL2Time | ErrMissingBatcherAddr
  | ErrMissingScalar | ErrMissingGasLimit | ErrMissingBatchInboxAddress
  | ErrMissingDepositContractAddress | ErrMissingL1ChainID | ErrMissingL2ChainID
  | ErrChainIDsSame | ErrL1ChainIDNotPositive | ErrL2ChainIDNotPositive
  | ErrInvalidCommitmentType string | ErrKeccakNeedsAddress | ErrGenericNeedsNoAddress
  | ErrForkOrder "fork_name fork_order_error"

fun checkFork :: "u64 option \<Rightarrow> u64 option \<Rightarrow> fork_name \<Rightarrow> fork_name \<Rightarrow>
    fork_name fork_order_error option" where
  "checkFork None None aName bName = None"
| "checkFork None (Some b) aName bName = Some (PriorForkMissing bName aName b)"
| "checkFork (Some a) None aName bName = None"
| "checkFork (Some a) (Some b) aName bName =
     (if a > b then Some (PriorForkHigher bName aName b a) else None)"

definition validateAltDAConfig :: "Config \<Rightarrow> config_error option" where
  "validateAltDAConfig cfg =
     (case cfg_AltDAConfig cfg of
        None \<Rightarrow> None
      | Some a \<Rightarrow>
          if \<not> (CommitmentTypeName a = KeccakCommitmentString \<or>
                 CommitmentTypeName a = GenericCommitmentString)
          then Some (ErrInvalidCommitmentType (CommitmentTypeName a))
          else if CommitmentTypeName a = KeccakCommitmentString \<and> DAChallengeAddress a = 0
          then Some ErrKeccakNeedsAddress
          else if CommitmentTypeName a = GenericCommitmentString \<and> DAChallengeAddress a \<noteq> 0
          then Some ErrGenericNeedsNoAddress
          else None)"

text \<open>A nil chain ID is only reached by the comparisons after the nil checks.\<close>

definition Check :: "Config \<Rightarrow> config_error option" where
  "Check cfg =
     (if BlockTime cfg = 0 then Some ErrBlockTimeZero
      else if ChannelTimeoutBedrock cfg = 0 then Some ErrMissingChannelTimeout
      else if SeqWindowSize cfg < 2 then Some ErrInvalidSeqWindowSize
      else if cfg_MaxSequencerDrift cfg = 0 then Some ErrInvalidMaxSeqDrift
      else if bid_Hash (gen_L1 (cfg_Genesis cfg)) = 0 then Some ErrMissingGenesisL1Hash
      else if bid_Hash (gen_L2 (cfg_Genesis cfg)) = 0 then Some ErrMissingGenesisL2Hash
      else if bid_Hash (gen_L2 (cfg_Genesis cfg)) = bid_Hash (gen_L1 (cfg_Genesis cfg))
      then Some ErrGenesisHashesSame
      else if L2Time (cfg_Genesis cfg) = 0 then Some ErrMissingGenesisL2Time
      else if BatcherAddr (gen_SystemConfig (cfg_Genesis cfg)) = 0
      then Some ErrMissingBatcherAddr
      else if Scalar (gen_SystemConfig (cfg_Genesis cfg)) = 0 then Some ErrMissingScalar
      else if GasLimit (gen_SystemConfig (cfg_Genesis cfg)) = 0 then Some ErrMissingGasLimit
      else if BatchInboxAddress cfg = 0 then Some ErrMissingBatchInboxAddress
      else if DepositContractAddress cfg = 0 then Some ErrMissingDepositContractAddress
      else case L1ChainID cfg of
        None \<Rightarrow> Some ErrMissingL1ChainID
      | Some l1 \<Rightarrow>
          (case L2ChainID cfg of
             None \<Rightarrow> Some ErrMissingL2ChainID
           | Some l2 \<Rightarrow>
               if l1 = l2 then Some ErrChainIDsSame
               else if sgn l1 < 1 then Some ErrL1ChainIDNotPositive
               else if sgn l2 < 1 then Some ErrL2ChainIDNotPositive
               else first_error [
                 validateAltDAConfig cfg,
                 map_option ErrForkOrder
                   (checkFork (RegolithTime cfg) (CanyonTime cfg) Regolith Canyon),
                 map_option ErrForkOrder
                   (checkFork (CanyonTime cfg) (DeltaTime cfg) Canyon Delta),
                 map_option ErrForkOrder
                   (checkFork (DeltaTime cfg) (EcotoneTime cfg) Delta Ecotone),
                 map_option ErrForkOrder
                   (checkFork (EcotoneTime cfg) (FjordTime cfg) Ecotone Fjord),
                 map_option ErrForkOrder
                   (checkFork (FjordTime cfg) (GraniteTime cfg) Fjord Granite),
                 map_option ErrForkOrder
                   (checkFork (GraniteTime cfg) (HoloceneTime cfg) Granite Holocene),
                 map_option ErrForkOrder
                   (checkFork (HoloceneTime cfg) (IsthmusTime cfg) Holocene Isthmus)]))"

text \<open>The clients that the configuration is validated against: their answers are
  parameters.  \<open>isNotFound\<close> stands for \<open>errors.Is(MaybeAsNotFoundErr(err), NotFound)\<close>.\<close>

datatype 'e validate_error =
    ChainIDUnavailable 'e | IncorrectChainID int | NilChainIDPanic | GenesisUnavailable 'e
  | IncorrectGenesisHash hash

definition CheckL1ChainID :: "Config \<Rightarrow> 'e + int \<Rightarrow> 'e validate_error option" where
  "CheckL1ChainID cfg clientChainID =
     (case clientChainID of
        Inl e \<Rightarrow> Some (ChainIDUnavailable e)
      | Inr id' \<Rightarrow>
         (case L1ChainID cfg of
            None \<Rightarrow> Some NilChainIDPanic
          | Some chainID \<Rightarrow> if chainID \<noteq> id' then Some (IncorrectChainID id') else None))"

definition CheckL2ChainID :: "Config \<Rightarrow> 'e + int \<Rightarrow> 'e validate_error option" where
  "CheckL2ChainID cfg clientChainID =
     (case clientChainID of
        Inl e \<Rightarrow> Some (ChainIDUnavailable e)
      | Inr id' \<Rightarrow>
         (case L2ChainID cfg of
            None \<Rightarrow> Some NilChainIDPanic
          | Some chainID \<Rightarrow> if chainID \<noteq> id' then Some (IncorrectChainID id') else None))"

definition CheckL1GenesisBlockHash ::
    "Config \<Rightarrow> ('e \<Rightarrow> bool) \<Rightarrow> (u64 \<Rightarrow> 'e + L1BlockRef) \<Rightarrow> 'e validate_error option" where
  "CheckL1GenesisBlockHash cfg isNotFound blockRefByNumber =
     (case blockRefByNumber (bid_Number (gen_L1 (cfg_Genesis cfg))) of
        Inl e \<Rightarrow> if isNotFound e then None else Some (GenesisUnavailable e)
      | Inr r \<Rightarrow> if l1_Hash r \<noteq> bid_Hash (gen_L1 (cfg_Genesis cfg))
                 then Some (IncorrectGenesisHash (l1_Hash r)) else None)"

definition CheckL2GenesisBlockHash ::
    "Config \<Rightarrow> ('e \<Rightarrow> bool) \<Rightarrow> (u64 \<Rightarrow> 'e + L2BlockRef) \<Rightarrow> 'e validate_error option" where
  "CheckL2GenesisBlockHash cfg isNotFound blockRefByNumber =
     (case blockRefByNumber (bid_Number (gen_L2 (cfg_Genesis cfg))) of
        Inl e \<Rightarrow> if isNotFound e then None else Some (GenesisUnavailable e)
      | Inr r \<Rightarrow> if l2_Hash r \<noteq> bid_Hash (gen_L2 (cfg_Genesis cfg))
                 then Some (IncorrectGenesisHash (l2_Hash r)) else None)"

definition ValidateL1Config ::
    "Config \<Rightarrow> ('e \<Rightarrow> bool) \<Rightarrow> 'e + int \<Rightarrow> (u64 \<Rightarrow> 'e + L1BlockRef) \<Rightarrow> 'e validate_error option" where
  "ValidateL1Config cfg isNotFound chainID blockRefByNumber =
     first_error [CheckL1ChainID cfg chainID,
       CheckL1GenesisBlockHash cfg isNotFound blockRefByNumber]"

definition ValidateL2Config ::
    "Config \<Rightarrow> ('e \<Rightarrow> bool) \<Rightarrow> 'e + int \<Rightarrow> (u64 \<Rightarrow> 'e + L2BlockRef) \<Rightarrow> bool \<Rightarrow>
      'e validate_error option" where
  "ValidateL2Config cfg isNotFound chainID blockRefByNumber skipL2GenesisBlockHash =
     (case CheckL2ChainID cfg chainID of
        Some e \<Rightarrow> Some e
      | None \<Rightarrow> if skipL2GenesisBlockHash then None
                else CheckL2GenesisBlockHash cfg isNotFound blockRefByNumber)"

section \<open>Block times\<close>

definition TimestampForBlock :: "Config \<Rightarrow> u64 \<Rightarrow> u64" where
  "TimestampForBlock cfg blockNumber =
     L2Time (cfg_Genesis cfg) +
       (blockNumber - bid_Number (gen_L2 (cfg_Genesis cfg))) * BlockTime cfg"

datatype target_error = BeforeGenesis u64 | DivideByZeroPanic

definition TargetBlockNumber :: "Config \<Rightarrow> u64 \<Rightarrow> target_error + u64" where
  "TargetBlockNumber cfg timestamp =
     (let genesisTimestamp = L2Time (cfg_Genesis cfg) in
      if timestamp < genesisTimestamp then Inl (BeforeGenesis genesisTimestamp)
      else if BlockTime cfg = 0 then Inl DivideByZeroPanic
      else let wallClockGenesisDiff = timestamp - genesisTimestamp;
               blocksSinceGenesis = wallClockGenesisDiff div BlockTime cfg
           in Inr (bid_Number (gen_L2 (cfg_Genesis cfg)) + blocksSinceGenesis))"

section \<open>Engine API versions and alt-DA\<close>

text \<open>The payload attributes enter only by their timestamp.\<close>

definition ForkchoiceUpdatedVersion :: "Config \<Rightarrow> u64 option \<Rightarrow> EngineAPIMethod" where
  "ForkchoiceUpdatedVersion c attr =
     (case attr of
        None \<Rightarrow> FCUV3
      | Some ts \<Rightarrow> if IsEcotone c ts \<or> IsMantleSkadi c ts then FCUV3
                   else if IsCanyon c ts then FCUV2 else FCUV1)"

definition NewPayloadVersion :: "Config \<Rightarrow> u64 \<Rightarrow> EngineAPIMethod" where
  "NewPayloadVersion c timestamp =
     (if IsIsthmus c timestamp \<or> IsMantleSkadi c timestamp then NewPayloadV4
      else if IsEcotone c timestamp then NewPayloadV3 else NewPayloadV2)"

definition GetPayloadVersion :: "Config \<Rightarrow> u64 \<Rightarrow> EngineAPIMethod" where
  "GetPayloadVersion c timestamp =
     (if IsMantleLimb c timestamp then GetPayloadV5
      else if IsIsthmus c timestamp \<or> IsMantleSkadi c timestamp then GetPayloadV4
      else if IsEcotone c timestamp then GetPayloadV3 else GetPayloadV2)"

record altda_Config =
  DAChallengeContractAddress :: address
  da_CommitmentType :: CommitmentType
  ChallengeWindow :: u64
  ResolveWindow :: u64

datatype altda_error =
    NoAltDAConfig | MissingDAChallengeWindow | MissingDAResolveWindow
  | InvalidCommitmentType string

definition GetOPAltDAConfig :: "Config \<Rightarrow> altda_error + altda_Config" where
  "GetOPAltDAConfig c =
     (case cfg_AltDAConfig c of
        None \<Rightarrow> Inl NoAltDAConfig
      | Some a \<Rightarrow>
          if DAChallengeWindow a = 0 then Inl MissingDAChallengeWindow
          else if DAResolveWindow a = 0 then Inl MissingDAResolveWindow
          else case CommitmentTypeFromString (CommitmentTypeName a) of
            None \<Rightarrow> Inl (InvalidCommitmentType (CommitmentTypeName a))
          | Some t \<Rightarrow> Inr \<lparr>DAChallengeContractAddress = DAChallengeAddress a,
              da_CommitmentType = t, ChallengeWindow = DAChallengeWindow a,
              ResolveWindow = DAResolveWindow a\<rparr>)"

definition AltDAEnabled :: "Config \<Rightarrow> bool" where
  "AltDAEnabled c = (cfg_AltDAConfig c \<noteq> None)"

definition SyncLookback :: "Config \<Rightarrow> u64" where
  "SyncLookback c =
     (case cfg_AltDAConfig c of
        Some a \<Rightarrow> let win = DAChallengeWindow a + DAResolveWindow a
                  in if win > SeqWindowSize c then win else SeqWindowSize c
      | None \<Rightarrow> SeqWindowSize c)"

section \<open>The chain specification (op-node/rollup/chain_spec.go)\<close>

definition maxChannelBankSizeBedrock :: u64 where "maxChannelBankSizeBedrock = 100000000"
definition maxChannelBankSizeFjord :: u64 where "maxChannelBankSizeFjord = 1000000000"
definition maxRLPBytesPerChannelBedrock :: u64 where "maxRLPBytesPerChannelBedrock = 10000000"
definition maxRLPBytesPerChannelFjord :: u64 where "maxRLPBytesPerChannelFjord = 100000000"
definition maxSequencerDriftFjord :: u64 where "maxSequencerDriftFjord = 1800"
definition ChannelTimeoutGranite :: u64 where "ChannelTimeoutGranite = 50"

record ChainSpec =
  config :: Config
  currentFork :: fork_name

definition NewChainSpec :: "Config \<Rightarrow> ChainSpec" where
  "NewChainSpec cfg = \<lparr>config = cfg, currentFork = ForkNone\<rparr>"

definition MaxChannelBankSize :: "ChainSpec \<Rightarrow> u64 \<Rightarrow> u64" where
  "MaxChannelBankSize s t =
     (if IsFjord (config s) t then maxChannelBankSizeFjord else maxChannelBankSizeBedrock)"

definition ChannelTimeout :: "ChainSpec \<Rightarrow> u64 \<Rightarrow> u64" where
  "ChannelTimeout s t =
     (if IsGranite (config s) t then ChannelTimeoutGranite
      else ChannelTimeoutBedrock (config s))"

definition MaxRLPBytesPerChannel :: "ChainSpec \<Rightarrow> u64 \<Rightarrow> u64" where
  "MaxRLPBytesPerChannel s t =
     (if IsFjord (config s) t then maxRLPBytesPerChannelFjord
      else maxRLPBytesPerChannelBedrock)"

definition IsFeatMaxSequencerDriftConstant :: "ChainSpec \<Rightarrow> u64 \<Rightarrow> bool" where
  "IsFeatMaxSequencerDriftConstant s t = IsFjord (config s) t"

definition MaxSequencerDrift :: "ChainSpec \<Rightarrow> u64 \<Rightarrow> u64" where
  "MaxSequencerDrift s t =
     (if IsFeatMaxSequencerDriftConstant s t then maxSequencerDriftFjord
      else cfg_MaxSequencerDrift (config s))"

fun activation_block_of :: "Config \<Rightarrow> fork_name \<Rightarrow> u64 \<Rightarrow> bool" where
  "activation_block_of c Regolith t = IsRegolithActivationBlock c t"
| "activation_block_of c Canyon t = IsCanyonActivationBlock c t"
| "activation_block_of c Delta t = IsDeltaActivationBlock c t"
| "activation_block_of c Ecotone t = IsEcotoneActivationBlock c t"
| "activation_block_of c Fjord t = IsFjordActivationBlock c t"
| "activation_block_of c Granite t = IsGraniteActivationBlock c t"
| "activation_block_of c Holocene t = IsHoloceneActivationBlock c t"
| "activation_block_of c Isthmus t = IsIsthmusActivationBlock c t"
| "activation_block_of c Jovian t = IsJovianActivationBlock c t"
| "activation_block_of c Interop t = IsInteropActivationBlock c t"
| "activation_block_of c f t = False"

definition CheckForkActivation :: "L2BlockRef \<Rightarrow> ChainSpec \<Rightarrow> ChainSpec" where
  "CheckForkActivation block s =
     (let c = config s; t = l2_Time block in
      if currentFork s = ForkNone
      then s\<lparr>currentFork :=
        (if IsInterop c t then Interop
         else if IsJovian c t then Jovian
         else if IsIsthmus c t then Isthmus
         else if IsHolocene c t then Holocene
         else if IsGranite c t then Granite
         else if IsFjord c t then Fjord
         else if IsEcotone c t then Ecotone
         else if IsDelta c t then Delta
         else if IsCanyon c t then Canyon
         else if IsRegolith c t then Regolith
         else Bedrock)\<rparr>
      else if activation_block_of c (Next (currentFork s)) t
      then s\<lparr>currentFork := Next (currentFork s)\<rparr>
      else s)"


section \<open>Laws of fork activation\<close>

definition active_at :: "u64 option \<Rightarrow> u64 \<Rightarrow> bool" where
  "active_at a t = (case a of None \<Rightarrow> False | Some x \<Rightarrow> x \<le> t)"

lemma active_at_simps [simp]:
  "\<not> active_at None t" "active_at (Some a) t \<longleftrightarrow> a \<le> t"
  by (simp_all add: active_at_def)

lemma active_at_mono: "active_at a t \<Longrightarrow> t \<le> t' \<Longrightarrow> active_at a t'"
  by (cases a) (auto intro: order.trans)

lemma IsForkActive_iff:
  "IsForkActive c f t = Inr b \<longleftrightarrow> (\<exists>a. ActivationTime c f = Inr a \<and> b = active_at a t)"
  by (auto simp: IsForkActive_def active_at_def split: sum.splits option.splits)

lemma IsMantleForkActive_iff:
  "IsMantleForkActive c f t = Inr b \<longleftrightarrow>
     (\<exists>a. MantleActivationTime c f = Inr a \<and> b = active_at a t)"
  by (auto simp: IsMantleForkActive_def active_at_def split: sum.splits option.splits)

lemma IsFork_active_at:
  "IsRegolith c t = active_at (RegolithTime c) t"
  "IsCanyon c t = active_at (CanyonTime c) t"
  "IsDelta c t = active_at (DeltaTime c) t"
  "IsEcotone c t = active_at (EcotoneTime c) t"
  "IsFjord c t = active_at (FjordTime c) t"
  "IsGranite c t = active_at (GraniteTime c) t"
  "IsHolocene c t = active_at (HoloceneTime c) t"
  "IsIsthmus c t = active_at (IsthmusTime c) t"
  "IsJovian c t = active_at (JovianTime c) t"
  "IsInterop c t = active_at (InteropTime c) t"
  "IsMantleBaseFee c t = active_at (MantleBaseFeeTime c) t"
  "IsMantleEverest c t = active_at (MantleEverestTime c) t"
  "IsMantleEuboea c t = active_at (MantleEuboeaTime c) t"
  "IsMantleSkadi c t = active_at (MantleSkadiTime c) t"
  "IsMantleLimb c t = active_at (MantleLimbTime c) t"
  "IsMantleArsia c t = active_at (MantleArsiaTime c) t"
  "IsMantleElysium c t = active_at (MantleElysiumTime c) t"
  by (simp_all add: IsRegolith_def IsCanyon_def IsDelta_def IsEcotone_def IsFjord_def
      IsGranite_def IsHolocene_def IsIsthmus_def IsJovian_def IsInterop_def
      IsMantleBaseFee_def IsMantleEverest_def IsMantleEuboea_def IsMantleSkadi_def
      IsMantleLimb_def IsMantleArsia_def IsMantleElysium_def
      IsForkActive_iff IsMantleForkActive_iff)

text \<open>What every fork predicate and its activation-block predicate promise.\<close>

locale fork_gate =
  fixes active :: "Config \<Rightarrow> u64 \<Rightarrow> bool"
    and activation_block :: "Config \<Rightarrow> u64 \<Rightarrow> bool"
  assumes active_mono: "active c t \<Longrightarrow> t \<le> t' \<Longrightarrow> active c t'"
    and activation_block_iff: "activation_block c t \<longleftrightarrow>
          active c t \<and> t \<ge> BlockTime c \<and> \<not> active c (t - BlockTime c)"
begin

lemma activation_block_not_later:
  assumes "activation_block c t" and "activation_block c t'"
    and "unat (BlockTime c) dvd unat t' - unat t" and "t \<le> t'"
  shows "t = t'"
proof (rule ccontr)
  assume "t \<noteq> t'"
  with assms(4) have lt: "unat t < unat t'"
    by (metis order_le_less word_less_nat_alt)
  with assms(3) have "unat (BlockTime c) \<le> unat t' - unat t"
    by (simp add: dvd_imp_le)
  moreover have "BlockTime c \<le> t'"
    using assms(2) by (simp add: activation_block_iff)
  ultimately have "t \<le> t' - BlockTime c"
    using lt by (simp add: word_le_nat_alt unat_sub)
  then have "active c (t' - BlockTime c)"
    using assms(1) active_mono by (blast dest: activation_block_iff [THEN iffD1])
  with assms(2) show False by (simp add: activation_block_iff)
qed

lemma activation_block_unique:
  assumes "activation_block c t" and "activation_block c t'"
    and "unat t mod unat (BlockTime c) = unat t' mod unat (BlockTime c)"
  shows "t = t'"
proof -
  have dvd: "unat (BlockTime c) dvd unat y - unat x"
    if "unat x mod unat (BlockTime c) = unat y mod unat (BlockTime c)" for x y :: u64
    using that by (metis diff_is_0_eq dvd_0_right mod_eq_dvd_iff_nat nat_le_linear)
  show ?thesis
  proof (cases "t \<le> t'")
    case True
    with assms dvd [of t t'] show ?thesis by (intro activation_block_not_later)
  next
    case False
    with assms dvd [of t' t] have "t' = t" by (intro activation_block_not_later) auto
    then show ?thesis by simp
  qed
qed

end

interpretation regolith_gate: fork_gate IsRegolith IsRegolithActivationBlock
  by unfold_locales (auto simp: IsFork_active_at IsRegolithActivationBlock_def active_at_mono)

interpretation canyon_gate: fork_gate IsCanyon IsCanyonActivationBlock
  by unfold_locales (auto simp: IsFork_active_at IsCanyonActivationBlock_def active_at_mono)

interpretation delta_gate: fork_gate IsDelta IsDeltaActivationBlock
  by unfold_locales (auto simp: IsFork_active_at IsDeltaActivationBlock_def active_at_mono)

interpretation ecotone_gate: fork_gate IsEcotone IsEcotoneActivationBlock
  by unfold_locales (auto simp: IsFork_active_at IsEcotoneActivationBlock_def active_at_mono)

interpretation fjord_gate: fork_gate IsFjord IsFjordActivationBlock
  by unfold_locales (auto simp: IsFork_active_at IsFjordActivationBlock_def active_at_mono)

interpretation granite_gate: fork_gate IsGranite IsGraniteActivationBlock
  by unfold_locales (auto simp: IsFork_active_at IsGraniteActivationBlock_def active_at_mono)

interpretation holocene_gate: fork_gate IsHolocene IsHoloceneActivationBlock
  by unfold_locales (auto simp: IsFork_active_at IsHoloceneActivationBlock_def active_at_mono)

interpretation isthmus_gate: fork_gate IsIsthmus IsIsthmusActivationBlock
  by unfold_locales (auto simp: IsFork_active_at IsIsthmusActivationBlock_def active_at_mono)

interpretation jovian_gate: fork_gate IsJovian IsJovianActivationBlock
  by unfold_locales (auto simp: IsFork_active_at IsJovianActivationBlock_def active_at_mono)

interpretation interop_gate: fork_gate IsInterop IsInteropActivationBlock
  by unfold_locales (auto simp: IsFork_active_at IsInteropActivationBlock_def active_at_mono)

interpretation mantle_basefee_gate: fork_gate IsMantleBaseFee IsMantleBaseFeeActivationBlock
  by unfold_locales (auto simp: IsFork_active_at IsMantleBaseFeeActivationBlock_def active_at_mono)

interpretation mantle_everest_gate: fork_gate IsMantleEverest IsMantleEverestActivationBlock
  by unfold_locales (auto simp: IsFork_active_at IsMantleEverestActivationBlock_def active_at_mono)

interpretation mantle_euboea_gate: fork_gate IsMantleEuboea IsMantleEuboeaActivationBlock
  by unfold_locales (auto simp: IsFork_active_at IsMantleEuboeaActivationBlock_def active_at_mono)

interpretation mantle_skadi_gate: fork_gate IsMantleSkadi IsMantleSkadiActivationBlock
  by unfold_locales (auto simp: IsFork_active_at IsMantleSkadiActivationBlock_def active_at_mono)

interpretation mantle_limb_gate: fork_gate IsMantleLimb IsMantleLimbActivationBlock
  by unfold_locales (auto simp: IsFork_active_at IsMantleLimbActivationBlock_def active_at_mono)

interpretation mantle_arsia_gate: fork_gate IsMantleArsia IsMantleArsiaActivationBlock
  by unfold_locales (auto simp: IsFork_active_at IsMantleArsiaActivationBlock_def active_at_mono)

interpretation mantle_elysium_gate: fork_gate IsMantleElysium IsMantleElysiumActivationBlock
  by unfold_locales (auto simp: IsFork_active_at IsMantleElysiumActivationBlock_def active_at_mono)

lemmas fork_list_defs = All_def AllMantleForks_def From_def MantleForksFrom_def
  scheduleableForks_def scheduleableMantleForks_def IsValid_def IsValidMantleFork_def Next_def

lemma scheduleableForks_eq:
  "scheduleableForks = [Regolith, Canyon, Delta, Ecotone, Fjord, Granite, Holocene, Isthmus,
     Jovian, Interop]"
  by (simp add: fork_list_defs)

lemma scheduleableMantleForks_eq: "scheduleableMantleForks = AllMantleForks"
  by (simp add: fork_list_defs)

lemma IsValidMantleFork_iff: "IsValidMantleFork f \<longleftrightarrow> f \<in> set AllMantleForks"
  by (cases f) (simp_all add: fork_list_defs)

lemma Next_simps [simp]:
  "Next Bedrock = Regolith" "Next Regolith = Canyon" "Next Canyon = Delta"
  "Next Delta = Ecotone" "Next Ecotone = Fjord" "Next Fjord = Granite"
  "Next Granite = Holocene" "Next Holocene = Isthmus" "Next Isthmus = Jovian"
  "Next Jovian = Interop" "Next Interop = ForkNone" "Next ForkNone = ForkNone"
  by (simp_all add: fork_list_defs)

lemma first_error_None_iff [simp]: "first_error es = None \<longleftrightarrow> list_all (\<lambda>e. e = None) es"
  by (induction es rule: first_error.induct) auto

text \<open>Both ordering checks accept exactly the pairs in which the later fork implies the
  earlier one.\<close>

lemma checkMantleFork_ordered:
  "checkMantleFork a b n m = None \<Longrightarrow> active_at b t \<Longrightarrow> active_at a t"
  by (cases a; cases b) (auto split: if_splits)

lemma checkFork_ordered: "checkFork a b n m = None \<Longrightarrow> active_at b t \<Longrightarrow> active_at a t"
  by (cases a; cases b) (auto split: if_splits)

lemma checkFork_same [simp]: "checkFork a a n m = None"
  by (cases a) auto

text \<open>The place of a fork in a fork list.\<close>

fun position :: "'a \<Rightarrow> 'a list \<Rightarrow> nat" where
  "position x [] = 0"
| "position x (y # ys) = (if x = y then 0 else Suc (position x ys))"

lemma activate_loop_mantle:
  assumes "f \<in> set AllMantleForks" and "g \<in> set AllMantleForks"
  shows "\<exists>c'. MantleActivateAt c f ts = Inr c' \<and>
    MantleActivationTime c' g = Inr (if position g AllMantleForks < position f AllMantleForks
      then Some 0 else if g = f then Some ts else None) \<and> CheckMantleForks c' = None"
  using assms
  by (auto simp: AllMantleForks_def MantleActivateAt_def IsValidMantleFork_iff
      scheduleableMantleForks_eq CheckMantleForks_def)

lemma MantleActivateAt_schedule:
  assumes "MantleActivateAt c f ts = Inr c'" and "g \<in> set AllMantleForks"
  shows "CheckMantleForks c' = None \<and>
    IsMantleForkActive c' g t =
      Inr (if position g AllMantleForks < position f AllMantleForks then True
           else if g = f then ts \<le> t else False)"
proof -
  have "f \<in> set AllMantleForks"
    using assms(1) by (auto simp: MantleActivateAt_def IsValidMantleFork_iff split: if_splits)
  from activate_loop_mantle [OF this assms(2), of c ts] assms(1) show ?thesis
    by (auto simp: IsMantleForkActive_iff split: if_splits)
qed

lemma AlignOpWithMantle_times:
  assumes "AlignOpWithMantle c = (e, c')"
  shows "CanyonTime c' = MantleArsiaTime c" "DeltaTime c' = MantleArsiaTime c"
    "EcotoneTime c' = MantleArsiaTime c" "FjordTime c' = MantleArsiaTime c"
    "GraniteTime c' = MantleArsiaTime c" "HoloceneTime c' = MantleArsiaTime c"
    "IsthmusTime c' = MantleArsiaTime c" "JovianTime c' = MantleArsiaTime c"
    "MantleArsiaTime c' = MantleArsiaTime c" "RegolithTime c' = RegolithTime c"
    "e = CheckMantleForks c'"
  using assms by (auto simp: AlignOpWithMantle_def Let_def split: option.splits)

lemma Check_forks_ordered:
  assumes "Check c = None"
    and "f \<in> {Regolith, Canyon, Delta, Ecotone, Fjord, Granite, Holocene}"
    and "IsForkActive c (Next f) t = Inr True"
  shows "IsForkActive c f t = Inr True"
proof -
  have "list_all (\<lambda>e. e = None) [
      checkFork (RegolithTime c) (CanyonTime c) Regolith Canyon,
      checkFork (CanyonTime c) (DeltaTime c) Canyon Delta,
      checkFork (DeltaTime c) (EcotoneTime c) Delta Ecotone,
      checkFork (EcotoneTime c) (FjordTime c) Ecotone Fjord,
      checkFork (FjordTime c) (GraniteTime c) Fjord Granite,
      checkFork (GraniteTime c) (HoloceneTime c) Granite Holocene,
      checkFork (HoloceneTime c) (IsthmusTime c) Holocene Isthmus]"
    using assms(1) by (simp add: Check_def split: if_splits option.splits)
  then show ?thesis
    using assms(2,3) by (auto simp: IsForkActive_iff elim: checkFork_ordered)
qed

lemma TimestampForBlock_unat:
  assumes "bid_Number (gen_L2 (cfg_Genesis c)) \<le> n"
    and "unat (L2Time (cfg_Genesis c)) +
      (unat n - unat (bid_Number (gen_L2 (cfg_Genesis c)))) * unat (BlockTime c) < 2 ^ 64"
  shows "unat (TimestampForBlock c n) = unat (L2Time (cfg_Genesis c)) +
      (unat n - unat (bid_Number (gen_L2 (cfg_Genesis c)))) * unat (BlockTime c)"
  using assms
  by (simp add: TimestampForBlock_def unat_word_ariths unat_sub mod_simps)

lemma TargetBlockNumber_TimestampForBlock:
  assumes "BlockTime c \<noteq> 0" and "bid_Number (gen_L2 (cfg_Genesis c)) \<le> n"
    and "unat (L2Time (cfg_Genesis c)) +
      (unat n - unat (bid_Number (gen_L2 (cfg_Genesis c)))) * unat (BlockTime c) < 2 ^ 64"
  shows "TargetBlockNumber c (TimestampForBlock c n) = Inr n"
proof -
  let ?g = "L2Time (cfg_Genesis c)" and ?n0 = "bid_Number (gen_L2 (cfg_Genesis c))"
  have t: "unat (TimestampForBlock c n) = unat ?g + (unat n - unat ?n0) * unat (BlockTime c)"
    using assms(2,3) by (rule TimestampForBlock_unat)
  then have ge: "?g \<le> TimestampForBlock c n"
    by (simp add: word_le_nat_alt)
  have "unat ((TimestampForBlock c n - ?g) div BlockTime c) = unat n - unat ?n0"
    using assms(1) ge t by (simp add: unat_div unat_sub unat_eq_0)
  then have "(TimestampForBlock c n - ?g) div BlockTime c = n - ?n0"
    using assms(2) by (simp add: word_unat_eq_iff unat_sub)
  with ge assms(1) show ?thesis
    by (simp add: TargetBlockNumber_def Let_def)
qed

lemma CheckForkActivation_at_Canyon:
  assumes "CanyonTime (config s) = Some a" and "DeltaTime (config s) = Some a"
    and "currentFork s = Canyon" and "a \<le> l2_Time b - BlockTime (config s)"
  shows "CheckForkActivation b s = s"
  using assms
  by (simp add: CheckForkActivation_def Let_def IsDeltaActivationBlock_def IsFork_active_at)

section \<open>A sample configuration\<close>

text \<open>Values in the shape of a Mantle network, used to evaluate the definitions.\<close>

definition sample_config :: Config where
  "sample_config = \<lparr>
     cfg_Genesis = \<lparr>gen_L1 = \<lparr>bid_Hash = 11, bid_Number = 100\<rparr>,
       gen_L2 = \<lparr>bid_Hash = 22, bid_Number = 0\<rparr>, L2Time = 1000,
       gen_SystemConfig = \<lparr>BatcherAddr = 5, Overhead = 0, Scalar = 7, GasLimit = 30000000,
         sys_BaseFee = None, sys_EIP1559Params = 0, sys_OperatorFeeParams = 0, sys_MinBaseFee = 0,
         sys_DAFootprintGasScalar = 0\<rparr>\<rparr>,
     BlockTime = 2, cfg_MaxSequencerDrift = 600, SeqWindowSize = 3600,
     ChannelTimeoutBedrock = 300, L1ChainID = Some 1, L2ChainID = Some 5000,
     RegolithTime = Some 0, CanyonTime = None, DeltaTime = None, EcotoneTime = None,
     FjordTime = None, GraniteTime = None, HoloceneTime = None, IsthmusTime = None,
     JovianTime = None, InteropTime = None,
     MantleBaseFeeTime = Some 0, MantleEverestTime = Some 0, MantleEuboeaTime = Some 0,
     MantleSkadiTime = Some 1200, MantleLimbTime = Some 1400, MantleArsiaTime = Some 2000,
     MantleElysiumTime = None, MantleHoodiBVMUpgradeTime = None,
     BatchInboxAddress = 3, DepositContractAddress = 4, L1SystemConfigAddress = 6,
     ProtocolVersionsAddress = 0, ChainOpConfig = None, cfg_AltDAConfig = None,
     PectraBlobScheduleTime = None\<rparr>"

definition sample_aligned :: Config where
  "sample_aligned = snd (AlignOpWithMantle sample_config)"

lemma sample_align: "AlignOpWithMantle sample_config = (None, sample_aligned)"
  by (simp add: sample_aligned_def sample_config_def AlignOpWithMantle_def Let_def
      CheckMantleForks_def)

lemma sample_aligned_sel [simp]:
  "BlockTime sample_aligned = 2" "CanyonTime sample_aligned = Some 2000"
  "DeltaTime sample_aligned = Some 2000" "FjordTime sample_aligned = Some 2000"
  "GraniteTime sample_aligned = Some 2000" "HoloceneTime sample_aligned = Some 2000"
  "IsthmusTime sample_aligned = Some 2000" "JovianTime sample_aligned = Some 2000"
  "InteropTime sample_aligned = None" "MantleSkadiTime sample_aligned = Some 1200"
  "SeqWindowSize sample_aligned = 3600" "ChannelTimeoutBedrock sample_aligned = 300"
  "cfg_MaxSequencerDrift sample_aligned = 600"
  by (simp_all add: sample_aligned_def sample_config_def AlignOpWithMantle_def Let_def)

section \<open>Properties\<close>

text \<open>After \<open>AlignOpWithMantle\<close>, every OP fork that \<open>ForkToMantleFork\<close> assigns to Arsia
  (Canyon to Jovian) is active at exactly the timestamps at which Arsia is active.\<close>

theorem AlignOpWithMantle_activation:
  assumes "AlignOpWithMantle c = (e, c')" and "ForkToMantleFork f = MantleArsia"
  shows "(IsForkActive c' f t = Inr True) = (IsMantleForkActive c' MantleArsia t = Inr True)"
  using assms(2) AlignOpWithMantle_times [OF assms(1)]
  by (cases f) (simp_all add: IsForkActive_iff IsMantleForkActive_iff)

theorem AlignOpWithMantle_activation_witness:
  "(IsForkActive sample_aligned Holocene 2500 = Inr True) =
     (IsMantleForkActive sample_aligned MantleArsia 2500 = Inr True)"
  using AlignOpWithMantle_activation [OF sample_align, of Holocene 2500] by simp

text \<open>A configuration that passes \<open>Check\<close> still passes it after the alignment, provided
  Regolith is scheduled no later than Arsia.\<close>

theorem AlignOpWithMantle_Check:
  assumes "Check c = None" and "AlignOpWithMantle c = (e, c')"
    and "checkFork (RegolithTime c) (MantleArsiaTime c) Regolith Canyon = None"
  shows "Check c' = None"
proof -
  have same: "BlockTime c' = BlockTime c" "ChannelTimeoutBedrock c' = ChannelTimeoutBedrock c"
    "SeqWindowSize c' = SeqWindowSize c" "cfg_MaxSequencerDrift c' = cfg_MaxSequencerDrift c"
    "cfg_Genesis c' = cfg_Genesis c" "BatchInboxAddress c' = BatchInboxAddress c"
    "DepositContractAddress c' = DepositContractAddress c" "L1ChainID c' = L1ChainID c"
    "L2ChainID c' = L2ChainID c" "cfg_AltDAConfig c' = cfg_AltDAConfig c"
    using assms(2) by (auto simp: AlignOpWithMantle_def Let_def split: option.splits)
  show ?thesis
    using assms(1,3)
    by (auto simp: Check_def same AlignOpWithMantle_times [OF assms(2)] validateAltDAConfig_def
        split: if_splits option.splits)
qed

theorem AlignOpWithMantle_Check_witness: "Check sample_aligned = None"
proof (rule AlignOpWithMantle_Check [OF _ sample_align])
  show "Check sample_config = None"
    by (simp add: Check_def sample_config_def validateAltDAConfig_def)
qed (simp add: sample_config_def)

text \<open>When \<open>CheckMantleForks\<close> reports no error, an active Mantle fork implies that every
  earlier Mantle fork is active.\<close>

theorem CheckMantleForks_ordered:
  assumes "CheckMantleForks c = None" and "i \<le> j" and "j < length AllMantleForks"
    and "IsMantleForkActive c (AllMantleForks ! j) t = Inr True"
  shows "IsMantleForkActive c (AllMantleForks ! i) t = Inr True"
proof -
  define act where "act k = (IsMantleForkActive c (AllMantleForks ! k) t = Inr True)" for k
  have step: "act k" if "Suc k < length AllMantleForks" "act (Suc k)" for k
    using that assms(1)
    by (auto simp: act_def AllMantleForks_def less_Suc_eq CheckMantleForks_def
        IsMantleForkActive_iff elim: checkMantleFork_ordered)
  from assms(2-4) show ?thesis
    unfolding act_def [symmetric]
    by (induction rule: inc_induct) (auto intro: step)
qed

theorem CheckMantleForks_ordered_witness:
  "IsMantleForkActive sample_config MantleEverest 2000 = Inr True"
proof -
  have "IsMantleForkActive sample_config (AllMantleForks ! 1) 2000 = Inr True"
  proof (rule CheckMantleForks_ordered [where j = 5])
    show "IsMantleForkActive sample_config (AllMantleForks ! 5) 2000 = Inr True"
      by (simp add: AllMantleForks_def IsMantleForkActive_def sample_config_def)
  qed (simp_all add: CheckMantleForks_def sample_config_def AllMantleForks_def)
  then show ?thesis by (simp add: AllMantleForks_def)
qed

text \<open>The Arsia activation block is unique on the grid of L2 block times.\<close>

theorem Arsia_activation_block_unique:
  assumes "IsMantleArsiaActivationBlock c t" and "IsMantleArsiaActivationBlock c t'"
    and "unat t mod unat (BlockTime c) = unat t' mod unat (BlockTime c)"
  shows "t = t'"
  using assms by (rule mantle_arsia_gate.activation_block_unique)

theorem Arsia_activation_block_unique_witness: "(2000 :: u64) = 1998 + 2"
proof -
  have "IsMantleArsiaActivationBlock sample_config 2000"
    by (simp add: IsMantleArsiaActivationBlock_def IsFork_active_at sample_config_def)
  then show ?thesis
    using Arsia_activation_block_unique [of sample_config 2000 "1998 + 2"] by simp
qed

text \<open>C40: \<open>TargetBlockNumber\<close> rounds down: the block it names starts at or before the given
  time and the next block starts after it.\<close>

theorem TargetBlockNumber_rounds_down:
  assumes "TargetBlockNumber c t = Inr n"
    and "unat (bid_Number (gen_L2 (cfg_Genesis c))) +
      (unat t - unat (L2Time (cfg_Genesis c))) div unat (BlockTime c) < 2 ^ 64"
  shows "TimestampForBlock c n \<le> t \<and> unat t < unat (TimestampForBlock c n) + unat (BlockTime c)"
proof -
  let ?g = "L2Time (cfg_Genesis c)" and ?n0 = "bid_Number (gen_L2 (cfg_Genesis c))"
  let ?q = "(unat t - unat ?g) div unat (BlockTime c)"
  have ge: "?g \<le> t" and bt: "BlockTime c \<noteq> 0"
    and n: "n = ?n0 + (t - ?g) div BlockTime c"
    using assms(1) by (auto simp: TargetBlockNumber_def Let_def split: if_splits)
  have "unat ((t - ?g) div BlockTime c) = ?q"
    using ge by (simp add: unat_div unat_sub)
  then have un: "unat n = unat ?n0 + ?q"
    using assms(2) n by (simp add: unat_word_ariths)
  have q: "?q * unat (BlockTime c) \<le> unat t - unat ?g"
    by (rule div_times_less_eq_dividend)
  have bound: "unat ?g + ?q * unat (BlockTime c) < 2 ^ 64"
    using q ge unat_u64_less [of t] unfolding word_le_nat_alt by linarith
  have "unat (TimestampForBlock c n) = unat ?g + ?q * unat (BlockTime c)"
    using un bound TimestampForBlock_unat [of c n] by (simp add: word_le_nat_alt)
  moreover have "unat t - unat ?g < ?q * unat (BlockTime c) + unat (BlockTime c)"
    using bt by (metis add.commute div_mod_decomp mod_less_divisor nat_add_left_cancel_less
        unat_gt_0)
  ultimately show ?thesis
    using q ge unfolding word_le_nat_alt by linarith
qed

theorem TargetBlockNumber_rounds_down_witness:
  "TargetBlockNumber sample_config 1007 = Inr 3 \<and>
     TimestampForBlock sample_config 3 \<le> 1007 \<and>
     (1007 :: nat) < unat (TimestampForBlock sample_config 3) + 2"
proof -
  have t: "TargetBlockNumber sample_config 1007 = Inr 3"
    by (simp add: TargetBlockNumber_def sample_config_def)
  have "TimestampForBlock sample_config 3 \<le> 1007 \<and> unat (1007 :: u64) <
      unat (TimestampForBlock sample_config 3) + unat (BlockTime sample_config)"
    by (rule TargetBlockNumber_rounds_down [OF t]) (simp add: sample_config_def)
  with t show ?thesis by (simp add: sample_config_def)
qed

text \<open>When two forks activate at the same time, as Canyon and Delta do after the alignment
  with Arsia, the fork tracker of the chain specification stays at the first of them for all
  later blocks, although the second one is active.\<close>

theorem CheckForkActivation_stuck:
  assumes "CanyonTime (config s) = Some a" and "DeltaTime (config s) = Some a"
    and "currentFork s = Canyon"
    and "list_all (\<lambda>b. a \<le> l2_Time b - BlockTime (config s)) blocks"
  shows "currentFork (fold CheckForkActivation blocks s) = Canyon \<and> IsDelta (config s) a"
proof -
  have "fold CheckForkActivation blocks s = s"
    using assms(4) CheckForkActivation_at_Canyon [OF assms(1-3)]
    by (induction blocks) auto
  with assms(2,3) show ?thesis by (simp add: IsFork_active_at)
qed

theorem CheckForkActivation_stuck_witness:
  "currentFork (fold CheckForkActivation
     [zero_L2BlockRef\<lparr>l2_Time := 2002\<rparr>, zero_L2BlockRef\<lparr>l2_Time := 2004\<rparr>]
     (CheckForkActivation (zero_L2BlockRef\<lparr>l2_Time := 2000\<rparr>)
        \<lparr>config = sample_aligned, currentFork = Regolith\<rparr>)) = Canyon"
proof -
  let ?s = "CheckForkActivation (zero_L2BlockRef\<lparr>l2_Time := 2000\<rparr>)
    \<lparr>config = sample_aligned, currentFork = Regolith\<rparr>"
  have s: "?s = \<lparr>config = sample_aligned, currentFork = Canyon\<rparr>"
    by (simp add: CheckForkActivation_def IsCanyonActivationBlock_def IsFork_active_at)
  show ?thesis
    using CheckForkActivation_stuck [of ?s 2000
        "[zero_L2BlockRef\<lparr>l2_Time := 2002\<rparr>, zero_L2BlockRef\<lparr>l2_Time := 2004\<rparr>]"]
    by (simp add: s)
qed

end
