(* ===== verification/Batches.thy ===== *)
theory Batches
  imports Rollup_Config
begin

text \<open>
  Batches and their validity (\<open>op-node/rollup/derive/batches.go\<close>, \<open>singular_batch.go\<close>, the parts of
  \<open>span_batch.go\<close> on derived span batches): the rules for singular batches, the prefix rules and the
  full rules for span batches, the conversion of a span batch to singular batches, and the
  construction and derivation of the block data of a span batch. An index out of range or a
  division by zero is the value \<open>None\<close>. The client for L2 blocks is a parameter.
\<close>

section \<open>Definitions\<close>

subsection \<open>Batches\<close>

record SingularBatch =
  sb_ParentHash :: hash
  sb_EpochNum :: u64
  sb_EpochHash :: hash
  sb_Timestamp :: u64
  sb_Transactions :: "byte list list"

record SpanBatchElement =
  el_EpochNum :: u64
  el_Timestamp :: u64
  el_Transactions :: "byte list list"

record SpanBatch =
  ParentCheck :: address
  L1OriginCheck :: address
  sp_GenesisTimestamp :: u64
  sp_Batches :: "SpanBatchElement list"
  originBits :: nat
  blockTxCounts :: "u64 list"

datatype Batch = Singular SingularBatch | Span SpanBatch

record BatchWithL1InclusionBlock =
  bw_Batch :: Batch
  bw_L1InclusionBlock :: L1BlockRef

text \<open>\<open>hash.Bytes()[:20]\<close>\<close>

definition first20 :: "hash \<Rightarrow> address" where
  "first20 h = ucast (drop_bit 96 h)"

definition GetTimestamp :: "SpanBatch \<Rightarrow> u64 option" where
  "GetTimestamp b = (case sp_Batches b of [] \<Rightarrow> None | e # es \<Rightarrow> Some (el_Timestamp e))"

definition GetLastTimestamp :: "SpanBatch \<Rightarrow> u64 option" where
  "GetLastTimestamp b =
     (if sp_Batches b = [] then None else Some (el_Timestamp (last (sp_Batches b))))"

definition GetStartEpochNum :: "SpanBatch \<Rightarrow> u64 option" where
  "GetStartEpochNum b = (case sp_Batches b of [] \<Rightarrow> None | e # es \<Rightarrow> Some (el_EpochNum e))"

definition GetLastEpochNum :: "SpanBatch \<Rightarrow> u64 option" where
  "GetLastEpochNum b =
     (if sp_Batches b = [] then None else Some (el_EpochNum (last (sp_Batches b))))"

definition CheckOriginHash :: "SpanBatch \<Rightarrow> hash \<Rightarrow> bool" where
  "CheckOriginHash b h \<longleftrightarrow> L1OriginCheck b = first20 h"

definition CheckParentHash :: "SpanBatch \<Rightarrow> hash \<Rightarrow> bool" where
  "CheckParentHash b h \<longleftrightarrow> ParentCheck b = first20 h"

subsection \<open>Singular batches\<close>

datatype BatchValidity = BatchDrop | BatchAccept | BatchUndecided | BatchFuture | BatchPast

fun tx_allowed :: "bool \<Rightarrow> byte list \<Rightarrow> bool" where
  "tx_allowed setCode [] = False"
| "tx_allowed setCode (t # ts) =
     (if t = DepositTxType then False else if \<not> setCode \<and> t = SetCodeTxType then False else True)"

definition checkSingularBatch ::
  "Config \<Rightarrow> L1BlockRef list \<Rightarrow> L2BlockRef \<Rightarrow> SingularBatch \<Rightarrow> L1BlockRef \<Rightarrow> BatchValidity" where
  "checkSingularBatch cfg l1Blocks l2SafeHead batch l1InclusionBlock =
     (case l1Blocks of
        [] \<Rightarrow> BatchUndecided
      | epoch # rest \<Rightarrow>
       let nextTimestamp = l2_Time l2SafeHead + BlockTime cfg in
       if sb_Timestamp batch > nextTimestamp
       then (if IsHolocene cfg (l1_Time l1InclusionBlock) then BatchDrop else BatchFuture)
       else if sb_Timestamp batch < nextTimestamp
       then (if IsHolocene cfg (l1_Time l1InclusionBlock) then BatchPast else BatchDrop)
       else if sb_ParentHash batch \<noteq> l2_Hash l2SafeHead then BatchDrop
       else if sb_EpochNum batch + SeqWindowSize cfg < l1_Number l1InclusionBlock then BatchDrop
       else if sb_EpochNum batch < l1_Number epoch then BatchDrop
       else if sb_EpochNum batch \<noteq> l1_Number epoch \<and> sb_EpochNum batch \<noteq> l1_Number epoch + 1
       then BatchDrop
       else if sb_EpochNum batch \<noteq> l1_Number epoch \<and> rest = [] then BatchUndecided
       else
       let batchOrigin = (if sb_EpochNum batch = l1_Number epoch then epoch else hd rest) in
       if sb_EpochHash batch \<noteq> l1_Hash batchOrigin then BatchDrop
       else if sb_Timestamp batch < l1_Time batchOrigin then BatchDrop
       else if (IsJovianActivationBlock cfg (sb_Timestamp batch) \<or>
                IsInteropActivationBlock cfg (sb_Timestamp batch)) \<and> sb_Transactions batch \<noteq> []
       then BatchDrop
       else
       let max = l1_Time batchOrigin + MaxSequencerDrift (NewChainSpec cfg) (l1_Time batchOrigin);
           drift = (if sb_Timestamp batch > max then
                      (if sb_Transactions batch = [] then
                         (if l1_Number epoch = l1_Number batchOrigin then
                            (case rest of
                               [] \<Rightarrow> Some BatchUndecided
                             | nextOrigin # _ \<Rightarrow>
                                 if sb_Timestamp batch \<ge> l1_Time nextOrigin then Some BatchDrop else None)
                          else None)
                       else Some BatchDrop)
                    else None)
       in case drift of
            Some v \<Rightarrow> v
          | None \<Rightarrow>
              if list_all (tx_allowed (IsIsthmus cfg (sb_Timestamp batch) \<or>
                                       IsMantleSkadi cfg (sb_Timestamp batch))) (sb_Transactions batch)
              then BatchAccept else BatchDrop)"

subsection \<open>Span batches\<close>

record SafePayload =
  pl_Transactions :: "byte list list"
  pl_BlockRef :: "L2BlockRef option"

text \<open>The client for L2 blocks; a failed request is \<open>None\<close>. \<open>pl_BlockRef\<close> is what
  \<open>PayloadToBlockRef\<close> extracts from a payload.\<close>

record SafeBlockFetcher =
  L2BlockRefByNumber :: "u64 \<Rightarrow> L2BlockRef option"
  PayloadByNumber :: "u64 \<Rightarrow> SafePayload option"

text \<open>The search for the block with the last epoch: whether its hash matches, if it is there.\<close>

fun check_end_origin :: "SpanBatch \<Rightarrow> u64 \<Rightarrow> L1BlockRef list \<Rightarrow> bool option" where
  "check_end_origin batch endEpochNum [] = None"
| "check_end_origin batch endEpochNum (l1Block # ls) =
     (if l1_Number l1Block = endEpochNum then Some (CheckOriginHash batch (l1_Hash l1Block))
      else check_end_origin batch endEpochNum ls)"

definition checkSpanBatchPrefix ::
  "Config \<Rightarrow> L1BlockRef list \<Rightarrow> L2BlockRef \<Rightarrow> SpanBatch \<Rightarrow> L1BlockRef \<Rightarrow> SafeBlockFetcher \<Rightarrow>
     (BatchValidity \<times> L2BlockRef) option" where
  "checkSpanBatchPrefix cfg l1Blocks l2SafeHead batch l1InclusionBlock l2Fetcher =
     (case l1Blocks of
        [] \<Rightarrow> Some (BatchUndecided, zero_L2BlockRef)
      | epoch # rest \<Rightarrow>
       case (GetStartEpochNum batch, GetTimestamp batch, GetLastTimestamp batch, GetLastEpochNum batch) of
         (Some startEpochNum, Some ts, Some lastTs, Some endEpochNum) \<Rightarrow>
       (if startEpochNum = l1_Number epoch + 1 \<and> rest = [] then Some (BatchUndecided, zero_L2BlockRef)
       else
       let batchOrigin = (if startEpochNum = l1_Number epoch + 1 then hd rest else epoch);
           nextTimestamp = l2_Time l2SafeHead + BlockTime cfg in
       if \<not> IsDelta cfg (l1_Time batchOrigin) then Some (BatchDrop, zero_L2BlockRef)
       else if ts > nextTimestamp
       then Some (if IsHolocene cfg (l1_Time l1InclusionBlock) then BatchDrop else BatchFuture, zero_L2BlockRef)
       else if lastTs < nextTimestamp
       then Some (if IsHolocene cfg (l1_Time l1InclusionBlock) then BatchPast else BatchDrop, zero_L2BlockRef)
       else if ts < nextTimestamp \<and> ts > l2_Time l2SafeHead then Some (BatchDrop, zero_L2BlockRef)
       else if ts < nextTimestamp \<and> BlockTime cfg = 0 then None
       else if ts < nextTimestamp \<and> (l2_Time l2SafeHead - ts) mod BlockTime cfg \<noteq> 0
       then Some (BatchDrop, zero_L2BlockRef)
       else
       case (if ts < nextTimestamp
             then L2BlockRefByNumber l2Fetcher
                    (l2_Number l2SafeHead - (l2_Time l2SafeHead - ts) div BlockTime cfg - 1)
             else Some l2SafeHead) of
         None \<Rightarrow> Some (BatchUndecided, zero_L2BlockRef)
       | Some parentBlock \<Rightarrow>
       if \<not> CheckParentHash batch (l2_Hash parentBlock) then Some (BatchDrop, parentBlock)
       else if startEpochNum + SeqWindowSize cfg < l1_Number l1InclusionBlock
       then Some (BatchDrop, parentBlock)
       else if startEpochNum > bid_Number (l2_L1Origin parentBlock) + 1 then Some (BatchDrop, parentBlock)
       else case check_end_origin batch endEpochNum l1Blocks of
         None \<Rightarrow> Some (BatchUndecided, parentBlock)
       | Some matches \<Rightarrow>
           if \<not> matches then Some (BatchDrop, parentBlock)
           else if startEpochNum < bid_Number (l2_L1Origin parentBlock) then Some (BatchDrop, parentBlock)
           else Some (BatchAccept, parentBlock))
       | _ \<Rightarrow> None)"

text \<open>The first L1 block from index \<open>j\<close> on with the given number.\<close>

fun find_origin :: "u64 \<Rightarrow> nat \<Rightarrow> L1BlockRef list \<Rightarrow> (nat \<times> L1BlockRef) option" where
  "find_origin blockEpoch j [] = None"
| "find_origin blockEpoch j (b # bs) =
     (if blockEpoch = l1_Number b then Some (j, b) else find_origin blockEpoch (j + 1) bs)"

text \<open>The loop over the blocks: \<open>prev\<close> is the epoch of the block before, if any. \<open>None\<close> when all
  blocks pass, otherwise the verdict that ends the loop.\<close>

fun check_span_blocks ::
  "Config \<Rightarrow> L1BlockRef list \<Rightarrow> L2BlockRef \<Rightarrow> nat \<Rightarrow> bool \<Rightarrow> u64 option \<Rightarrow> SpanBatchElement list \<Rightarrow>
     BatchValidity option" where
  "check_span_blocks cfg l1Blocks l2SafeHead originIdx originAdvanced prev [] = None"
| "check_span_blocks cfg l1Blocks l2SafeHead originIdx originAdvanced prev (e # es) =
     (if el_Timestamp e \<le> l2_Time l2SafeHead
      then check_span_blocks cfg l1Blocks l2SafeHead originIdx originAdvanced (Some (el_EpochNum e)) es
      else if el_EpochNum e < bid_Number (l2_L1Origin l2SafeHead) then Some BatchDrop
      else case find_origin (el_EpochNum e) originIdx (drop originIdx l1Blocks) of
        None \<Rightarrow> Some BatchDrop
      | Some (originIdx', l1Origin) \<Rightarrow>
          let originAdvanced' = (case prev of None \<Rightarrow> originAdvanced | Some pe \<Rightarrow> el_EpochNum e > pe);
              max = l1_Time l1Origin + MaxSequencerDrift (NewChainSpec cfg) (l1_Time l1Origin);
              drift = (if el_Timestamp e > max then
                         (if el_Transactions e = [] then
                            (if \<not> originAdvanced' then
                               (if originIdx' + 1 \<ge> length l1Blocks then Some BatchUndecided
                                else if el_Timestamp e \<ge> l1_Time (l1Blocks ! (originIdx' + 1))
                                then Some BatchDrop else None)
                             else None)
                          else Some BatchDrop)
                       else None)
          in if el_Timestamp e < l1_Time l1Origin then Some BatchDrop
             else case drift of
               Some v \<Rightarrow> Some v
             | None \<Rightarrow>
                 if list_all (tx_allowed True) (el_Transactions e)
                 then check_span_blocks cfg l1Blocks l2SafeHead originIdx' originAdvanced'
                        (Some (el_EpochNum e)) es
                 else Some BatchDrop)"

text \<open>Number of leading-byte deposits, or the panic on an empty transaction.\<close>

fun depositCount :: "byte list list \<Rightarrow> nat option" where
  "depositCount [] = Some 0"
| "depositCount ([] # txs) = None"
| "depositCount ((t # ts) # txs) =
     map_option (\<lambda>n. if t = DepositTxType then Suc n else n) (depositCount txs)"

text \<open>One overlapped block: \<open>Inr None\<close> when it matches.\<close>

definition check_overlap_block ::
  "SafeBlockFetcher \<Rightarrow> SpanBatch \<Rightarrow> u64 \<Rightarrow> nat \<Rightarrow> BatchValidity option option" where
  "check_overlap_block l2Fetcher batch parentNum i =
     (case PayloadByNumber l2Fetcher (parentNum + word_of_nat i + 1) of
        None \<Rightarrow> Some (Some BatchUndecided)
      | Some payload \<Rightarrow>
          if i \<ge> length (sp_Batches batch) then None
          else let safeBlockTxs = pl_Transactions payload;
                   batchTxs = el_Transactions (sp_Batches batch ! i)
          in case depositCount safeBlockTxs of
               None \<Rightarrow> None
             | Some n \<Rightarrow>
                 if length safeBlockTxs - n \<noteq> length batchTxs then Some (Some BatchDrop)
                 else if drop n safeBlockTxs \<noteq> batchTxs then Some (Some BatchDrop)
                 else case pl_BlockRef payload of
                   None \<Rightarrow> Some (Some BatchDrop)
                 | Some ref \<Rightarrow>
                     if bid_Number (l2_L1Origin ref) \<noteq> el_EpochNum (sp_Batches batch ! i)
                     then Some (Some BatchDrop) else Some None)"

fun check_overlap ::
  "SafeBlockFetcher \<Rightarrow> SpanBatch \<Rightarrow> u64 \<Rightarrow> nat list \<Rightarrow> BatchValidity option option" where
  "check_overlap l2Fetcher batch parentNum [] = Some None"
| "check_overlap l2Fetcher batch parentNum (i # is) =
     (case check_overlap_block l2Fetcher batch parentNum i of
        None \<Rightarrow> None
      | Some (Some v) \<Rightarrow> Some (Some v)
      | Some None \<Rightarrow> check_overlap l2Fetcher batch parentNum is)"

definition checkSpanBatch ::
  "Config \<Rightarrow> L1BlockRef list \<Rightarrow> L2BlockRef \<Rightarrow> SpanBatch \<Rightarrow> L1BlockRef \<Rightarrow> SafeBlockFetcher \<Rightarrow>
     BatchValidity option" where
  "checkSpanBatch cfg l1Blocks l2SafeHead batch l1InclusionBlock l2Fetcher =
     (case checkSpanBatchPrefix cfg l1Blocks l2SafeHead batch l1InclusionBlock l2Fetcher of
        None \<Rightarrow> None
      | Some (prefixValidity, parentBlock) \<Rightarrow>
          if prefixValidity \<noteq> BatchAccept then Some prefixValidity
          else case GetStartEpochNum batch of
            None \<Rightarrow> None
          | Some startEpochNum \<Rightarrow>
             (case check_span_blocks cfg l1Blocks l2SafeHead 0
                     (startEpochNum = bid_Number (l2_L1Origin parentBlock) + 1) None (sp_Batches batch) of
                Some v \<Rightarrow> Some v
              | None \<Rightarrow>
                 (case GetTimestamp batch of
                    None \<Rightarrow> None
                  | Some ts \<Rightarrow>
                      if ts < l2_Time l2SafeHead + BlockTime cfg
                      then (case check_overlap l2Fetcher batch (l2_Number parentBlock)
                                   [0..<unat (l2_Number l2SafeHead - l2_Number parentBlock)] of
                              None \<Rightarrow> None
                            | Some (Some v) \<Rightarrow> Some v
                            | Some None \<Rightarrow> Some BatchAccept)
                      else Some BatchAccept)))"

definition CheckBatch ::
  "Config \<Rightarrow> L1BlockRef list \<Rightarrow> L2BlockRef \<Rightarrow> BatchWithL1InclusionBlock \<Rightarrow> SafeBlockFetcher \<Rightarrow>
     BatchValidity option" where
  "CheckBatch cfg l1Blocks l2SafeHead batch l2Fetcher =
     (case bw_Batch batch of
        Singular b \<Rightarrow> Some (checkSingularBatch cfg l1Blocks l2SafeHead b (bw_L1InclusionBlock batch))
      | Span b \<Rightarrow> checkSpanBatch cfg l1Blocks l2SafeHead b (bw_L1InclusionBlock batch) l2Fetcher)"

subsection \<open>From a span batch to singular batches\<close>

datatype singular_error = OriginBehindSafeHead u64 u64 | OriginNotFound u64 u64

fun GetSingularBatches_loop ::
  "L1BlockRef list \<Rightarrow> L2BlockRef \<Rightarrow> nat \<Rightarrow> SpanBatchElement list \<Rightarrow> singular_error + SingularBatch list" where
  "GetSingularBatches_loop l1Origins l2SafeHead originIdx [] = Inr []"
| "GetSingularBatches_loop l1Origins l2SafeHead originIdx (batch # bs) =
     (if el_Timestamp batch \<le> l2_Time l2SafeHead
      then GetSingularBatches_loop l1Origins l2SafeHead originIdx bs
      else if el_EpochNum batch < bid_Number (l2_L1Origin l2SafeHead)
      then Inl (OriginBehindSafeHead (el_Timestamp batch) (el_EpochNum batch))
      else case find_origin (el_EpochNum batch) originIdx (drop originIdx l1Origins) of
        None \<Rightarrow> Inl (OriginNotFound (el_Timestamp batch) (el_EpochNum batch))
      | Some (originIdx', l1Origin) \<Rightarrow>
         (case GetSingularBatches_loop l1Origins l2SafeHead originIdx' bs of
            Inl e \<Rightarrow> Inl e
          | Inr sbs \<Rightarrow>
              Inr (\<lparr>sb_ParentHash = 0, sb_EpochNum = el_EpochNum batch, sb_EpochHash = l1_Hash l1Origin,
                    sb_Timestamp = el_Timestamp batch, sb_Transactions = el_Transactions batch\<rparr> # sbs)))"

definition GetSingularBatches ::
  "SpanBatch \<Rightarrow> L1BlockRef list \<Rightarrow> L2BlockRef \<Rightarrow> singular_error + SingularBatch list" where
  "GetSingularBatches b l1Origins l2SafeHead = GetSingularBatches_loop l1Origins l2SafeHead 0 (sp_Batches b)"


section \<open>Singular batches: the rules\<close>

text \<open>The conditions under which a singular batch is accepted on top of a block, in terms of
  the position \<open>k\<close> of the origin of the batch in the known L1 blocks.\<close>

definition drift_ok :: "Config \<Rightarrow> L1BlockRef list \<Rightarrow> L1BlockRef \<Rightarrow> SingularBatch \<Rightarrow> bool" where
  "drift_ok cfg l1Blocks origin b \<longleftrightarrow>
     sb_Timestamp b \<le> l1_Time origin + MaxSequencerDrift (NewChainSpec cfg) (l1_Time origin) \<or>
     sb_Transactions b = [] \<and>
     (l1_Number origin = l1_Number (l1Blocks ! 0) \<longrightarrow>
        2 \<le> length l1Blocks \<and> sb_Timestamp b < l1_Time (l1Blocks ! 1))"

definition txs_ok :: "Config \<Rightarrow> SingularBatch \<Rightarrow> bool" where
  "txs_ok cfg b \<longleftrightarrow>
     (\<forall>tx\<in>set (sb_Transactions b).
        tx \<noteq> [] \<and> hd tx \<noteq> DepositTxType \<and>
        (hd tx = SetCodeTxType \<longrightarrow>
           IsIsthmus cfg (sb_Timestamp b) \<or> IsMantleSkadi cfg (sb_Timestamp b))) \<and>
     (sb_Transactions b \<noteq> [] \<longrightarrow>
        \<not> IsJovianActivationBlock cfg (sb_Timestamp b) \<and>
        \<not> IsInteropActivationBlock cfg (sb_Timestamp b))"

lemma tx_allowed_iff:
  "tx_allowed s tx \<longleftrightarrow> tx \<noteq> [] \<and> hd tx \<noteq> DepositTxType \<and> (hd tx = SetCodeTxType \<longrightarrow> s)"
  by (cases tx) auto

lemma ex_le_1: "(\<exists>k<n. k \<le> Suc 0 \<and> Q k) \<longleftrightarrow> 0 < n \<and> Q 0 \<or> Suc 0 < n \<and> Q (Suc 0)" for n :: nat
  by (metis le_Suc_eq le_zero_eq zero_le order_refl)

lemma if_Accept:
  "(if c then BatchDrop else y) = BatchAccept \<longleftrightarrow> \<not> c \<and> y = BatchAccept"
  "(if c then BatchUndecided else y) = BatchAccept \<longleftrightarrow> \<not> c \<and> y = BatchAccept"
  "(if c then if h then BatchDrop else BatchFuture else y) = BatchAccept \<longleftrightarrow> \<not> c \<and> y = BatchAccept"
  "(if c then if h then BatchPast else BatchDrop else y) = BatchAccept \<longleftrightarrow> \<not> c \<and> y = BatchAccept"
  "(if c then BatchAccept else BatchDrop) = BatchAccept \<longleftrightarrow> c"
  by simp_all

lemma checkSingularBatch_Accept:
  "checkSingularBatch cfg l1Blocks head b incl = BatchAccept \<longleftrightarrow>
     sb_Timestamp b = l2_Time head + BlockTime cfg \<and> sb_ParentHash b = l2_Hash head \<and>
     l1_Number incl \<le> sb_EpochNum b + SeqWindowSize cfg \<and> txs_ok cfg b \<and>
     (\<exists>k<length l1Blocks. k \<le> 1 \<and>
        sb_EpochNum b = l1_Number (l1Blocks ! 0) + word_of_nat k \<and>
        l1_Number (l1Blocks ! 0) \<le> sb_EpochNum b \<and>
        sb_EpochHash b = l1_Hash (l1Blocks ! k) \<and> l1_Time (l1Blocks ! k) \<le> sb_Timestamp b \<and>
        drift_ok cfg l1Blocks (l1Blocks ! k) b)"
proof (cases l1Blocks)
  case Nil
  then show ?thesis by (simp add: checkSingularBatch_def)
next
  case (Cons epoch rest)
  have k: "(\<exists>k<length l1Blocks. k \<le> 1 \<and> Q k) \<longleftrightarrow> Q 0 \<or> rest \<noteq> [] \<and> Q 1" for Q
    by (simp add: Cons ex_le_1 length_greater_0_conv [symmetric] del: length_greater_0_conv)
  let ?o = "if sb_EpochNum b = l1_Number epoch then epoch else hd rest"
  have drift: "(case (if m < sb_Timestamp b then
             (if sb_Transactions b = [] then
                (if l1_Number epoch = l1_Number origin then
                   (case rest of [] \<Rightarrow> Some BatchUndecided
                    | nextOrigin # _ \<Rightarrow>
                        if l1_Time nextOrigin \<le> sb_Timestamp b then Some BatchDrop else None)
                 else None)
              else Some BatchDrop)
           else None) of Some v \<Rightarrow> v | None \<Rightarrow> r) = BatchAccept \<longleftrightarrow>
       drift_ok cfg l1Blocks origin b \<and> r = BatchAccept"
    if "m = l1_Time origin + MaxSequencerDrift (NewChainSpec cfg) (l1_Time origin)" for m origin r
    using that by (cases rest) (auto simp: drift_ok_def Cons not_less)
  have txs: "txs_ok cfg b \<longleftrightarrow>
      list_all (tx_allowed (IsIsthmus cfg (sb_Timestamp b) \<or> IsMantleSkadi cfg (sb_Timestamp b)))
        (sb_Transactions b) \<and>
      \<not> ((IsJovianActivationBlock cfg (sb_Timestamp b) \<or>
          IsInteropActivationBlock cfg (sb_Timestamp b)) \<and> sb_Transactions b \<noteq> [])"
    by (auto simp: txs_ok_def list_all_iff tx_allowed_iff)
  have "checkSingularBatch cfg l1Blocks head b incl = BatchAccept \<longleftrightarrow>
     sb_Timestamp b = l2_Time head + BlockTime cfg \<and> sb_ParentHash b = l2_Hash head \<and>
     l1_Number incl \<le> sb_EpochNum b + SeqWindowSize cfg \<and>
     l1_Number epoch \<le> sb_EpochNum b \<and>
     (sb_EpochNum b = l1_Number epoch \<or> sb_EpochNum b = l1_Number epoch + 1 \<and> rest \<noteq> []) \<and>
     sb_EpochHash b = l1_Hash ?o \<and> l1_Time ?o \<le> sb_Timestamp b \<and>
     drift_ok cfg l1Blocks ?o b \<and> txs_ok cfg b"
    unfolding checkSingularBatch_def Cons list.case Let_def txs
    by (simp only: if_Accept drift [unfolded Cons, OF refl] not_less) auto
  then show ?thesis
    unfolding k by (auto simp: Cons hd_conv_nth)
qed


section \<open>Early and late batches\<close>

lemma checkSingularBatch_time:
  "checkSingularBatch cfg l1Blocks head b incl = BatchFuture \<Longrightarrow> \<not> IsHolocene cfg (l1_Time incl)"
  "checkSingularBatch cfg l1Blocks head b incl = BatchPast \<Longrightarrow> IsHolocene cfg (l1_Time incl)"
  by (auto simp: checkSingularBatch_def Let_def split: if_splits list.splits option.splits)

lemma checkSpanBatchPrefix_time:
  "checkSpanBatchPrefix cfg l1Blocks head b incl f = Some (BatchFuture, p) \<Longrightarrow> \<not> IsHolocene cfg (l1_Time incl)"
  "checkSpanBatchPrefix cfg l1Blocks head b incl f = Some (BatchPast, p) \<Longrightarrow> IsHolocene cfg (l1_Time incl)"
  by (auto simp: checkSpanBatchPrefix_def Let_def split: if_splits list.splits option.splits)

lemma check_span_blocks_verdict:
  "check_span_blocks cfg l1Blocks head i adv prev es = Some v \<Longrightarrow> v = BatchDrop \<or> v = BatchUndecided"
  by (induction es arbitrary: i adv prev)
    (auto simp: Let_def split: if_splits option.splits prod.splits)

lemma check_overlap_verdict:
  "check_overlap f b n is = Some (Some v) \<Longrightarrow> v = BatchDrop \<or> v = BatchUndecided"
  by (induction "is")
    (auto simp: check_overlap_block_def Let_def split: if_splits option.splits prod.splits)

lemma checkSpanBatch_time:
  assumes "checkSpanBatch cfg l1Blocks head b incl f = Some v" and "v = BatchFuture \<or> v = BatchPast"
  shows "\<exists>p. checkSpanBatchPrefix cfg l1Blocks head b incl f = Some (v, p)"
  using assms by (auto simp: checkSpanBatch_def split: option.splits prod.splits if_splits
      dest!: check_span_blocks_verdict check_overlap_verdict)

section \<open>From accepted span batches to singular batches\<close>

lemma GetSingularBatches_loop_ok:
  "check_span_blocks cfg l1Blocks head i adv prev es = None \<Longrightarrow>
     \<exists>sbs. GetSingularBatches_loop l1Blocks head i es = Inr sbs \<and>
        map sb_Timestamp sbs = map el_Timestamp (filter (\<lambda>e. l2_Time head < el_Timestamp e) es) \<and>
        map sb_Transactions sbs = map el_Transactions (filter (\<lambda>e. l2_Time head < el_Timestamp e) es)"
  by (induction es arbitrary: i adv prev)
    (auto simp: Let_def not_le split: if_splits option.splits prod.splits sum.splits, fastforce+)


section \<open>Span batches obey the rules of singular batches\<close>

text \<open>Consecutive L1 blocks, without a wrap-around of the block number.\<close>

definition consecutive :: "L1BlockRef list \<Rightarrow> bool" where
  "consecutive bs \<longleftrightarrow> (\<forall>i<length bs. unat (l1_Number (bs ! i)) = unat (l1_Number (bs ! 0)) + i)"

text \<open>The epoch stays or advances by one, without a wrap-around.\<close>

definition epoch_step :: "u64 \<Rightarrow> u64 \<Rightarrow> bool" where
  "epoch_step pe n \<longleftrightarrow> pe \<le> n \<and> (n = pe \<or> n = pe + 1)"

text \<open>The blocks of a derived span batch on top of epoch \<open>pe\<close>: equidistant in time, and the epoch
  stays or advances by one.\<close>

fun span_shape :: "Config \<Rightarrow> L2BlockRef \<Rightarrow> u64 \<Rightarrow> u64 \<Rightarrow> SpanBatchElement list \<Rightarrow> bool" where
  "span_shape cfg head pe t [] = True"
| "span_shape cfg head pe t (e # es) =
     (l2_Time head < el_Timestamp e \<and> el_Timestamp e = t + BlockTime cfg \<and>
      epoch_step pe (el_EpochNum e) \<and>
      span_shape cfg head (el_EpochNum e) (el_Timestamp e) es)"

text \<open>Applying singular batches one after the other: the verdict on each of them against its parent
  block, with the L1 blocks from the origin of the parent on.  The block built from a batch has
  the hash that \<open>H\<close> gives it.\<close>

definition block_of :: "(L2BlockRef \<Rightarrow> SingularBatch \<Rightarrow> hash) \<Rightarrow> L2BlockRef \<Rightarrow> SingularBatch \<Rightarrow> L2BlockRef" where
  "block_of H parent b = \<lparr>l2_Hash = H parent b, l2_Number = l2_Number parent + 1,
     l2_ParentHash = l2_Hash parent, l2_Time = sb_Timestamp b,
     l2_L1Origin = \<lparr>bid_Hash = sb_EpochHash b, bid_Number = sb_EpochNum b\<rparr>,
     l2_SequenceNumber = (if sb_EpochNum b = bid_Number (l2_L1Origin parent)
                          then l2_SequenceNumber parent + 1 else 0)\<rparr>"

definition from_origin :: "L1BlockRef list \<Rightarrow> u64 \<Rightarrow> L1BlockRef list" where
  "from_origin l1Blocks n = dropWhile (\<lambda>b. l1_Number b < n) l1Blocks"

fun apply_batches ::
  "Config \<Rightarrow> (L2BlockRef \<Rightarrow> SingularBatch \<Rightarrow> hash) \<Rightarrow> L1BlockRef list \<Rightarrow> L1BlockRef \<Rightarrow> L2BlockRef \<Rightarrow>
     SingularBatch list \<Rightarrow> BatchValidity list" where
  "apply_batches cfg H l1Blocks incl parent [] = []"
| "apply_batches cfg H l1Blocks incl parent (b # bs) =
     (let b' = b\<lparr>sb_ParentHash := l2_Hash parent\<rparr> in
      checkSingularBatch cfg (from_origin l1Blocks (bid_Number (l2_L1Origin parent))) parent b' incl #
      apply_batches cfg H l1Blocks incl (block_of H parent b') bs)"

lemma block_of_sel [simp]:
  "l2_Time (block_of H P b) = sb_Timestamp b"
  "l2_Hash (block_of H P b) = H P b"
  "l2_L1Origin (block_of H P b) = \<lparr>bid_Hash = sb_EpochHash b, bid_Number = sb_EpochNum b\<rparr>"
  by (simp_all add: block_of_def)

lemma find_origin_Some:
  "find_origin n j bs = Some (j', b) \<Longrightarrow>
     j \<le> j' \<and> j' - j < length bs \<and> b = bs ! (j' - j) \<and> l1_Number b = n"
proof (induction n j bs rule: find_origin.induct)
  case (2 n j b' bs)
  then show ?case
    by (auto split: if_splits simp: nth_Cons')
qed simp

lemma find_origin_drop:
  assumes "find_origin n i (drop i l1Blocks) = Some (j, b)"
  shows "i \<le> j" "j < length l1Blocks" "b = l1Blocks ! j" "l1_Number b = n"
  using find_origin_Some [OF assms] by (auto simp: less_diff_conv2 less_diff_conv)

lemma consecutive_index:
  assumes "consecutive bs" and "j < length bs"
  shows "j = unat (l1_Number (bs ! j)) - unat (l1_Number (bs ! 0))"
    and "unat (l1_Number (bs ! j)) = unat (l1_Number (bs ! 0)) + j"
  using assms by (auto simp: consecutive_def)

lemma from_origin_consecutive:
  assumes c: "consecutive bs" and j: "j < length bs"
  shows "from_origin bs (l1_Number (bs ! j)) = drop j bs"
proof -
  have "takeWhile (\<lambda>b. l1_Number b < l1_Number (bs ! j)) bs = take j bs"
    using c j by (intro takeWhile_eq_take_P_nth) (auto simp: consecutive_def word_less_nat_alt)
  then show ?thesis
    by (simp add: from_origin_def dropWhile_eq_drop j)
qed


definition to_singular :: "hash \<Rightarrow> hash \<Rightarrow> SpanBatchElement \<Rightarrow> SingularBatch" where
  "to_singular parent epochHash e =
     \<lparr>sb_ParentHash = parent, sb_EpochNum = el_EpochNum e, sb_EpochHash = epochHash,
      sb_Timestamp = el_Timestamp e, sb_Transactions = el_Transactions e\<rparr>"

lemma to_singular_sel [simp]:
  "sb_ParentHash (to_singular p h e) = p" "sb_EpochNum (to_singular p h e) = el_EpochNum e"
  "sb_EpochHash (to_singular p h e) = h" "sb_Timestamp (to_singular p h e) = el_Timestamp e"
  "sb_Transactions (to_singular p h e) = el_Transactions e"
  "(to_singular p h e)\<lparr>sb_ParentHash := p'\<rparr> = to_singular p' h e"
  by (simp_all add: to_singular_def)

lemma epoch_step_unat: "epoch_step pe n \<Longrightarrow> n = pe \<or> n = pe + 1 \<and> unat n = Suc (unat pe)"
proof -
  assume e: "epoch_step pe n"
  then have "1 + pe \<noteq> 0" if "n = pe + 1"
    using that by (auto simp: epoch_step_def add.commute)
  with e show ?thesis
    using unatSuc [of pe] by (auto simp: epoch_step_def add.commute)
qed

lemma epoch_step_between: "pe \<le> n \<Longrightarrow> n \<le> pe + 1 \<Longrightarrow> n \<noteq> pe + 1 \<Longrightarrow> n = pe" for pe n :: u64
  using inc_le [of pe n] by (auto simp: word_le_less_eq)

lemma singular_step:
  assumes c: "consecutive l1Blocks" and p: "p < length l1Blocks" and pe: "pe = l1_Number (l1Blocks ! p)"
    and f: "find_origin (el_EpochNum e) i (drop i l1Blocks) = Some (j, b)"
    and e: "epoch_step pe (el_EpochNum e)"
    and t: "l1_Time b \<le> el_Timestamp e"
    and d: "el_Timestamp e \<le> l1_Time b + MaxSequencerDrift (NewChainSpec cfg) (l1_Time b) \<or>
      el_Transactions e = [] \<and> (\<not> pe < el_EpochNum e \<longrightarrow>
        j + 1 < length l1Blocks \<and> el_Timestamp e < l1_Time (l1Blocks ! (j + 1)))"
    and w: "l1_Number incl \<le> el_EpochNum e + SeqWindowSize cfg"
    and P: "el_Timestamp e = l2_Time P + BlockTime cfg"
    and tx: "txs_ok cfg (to_singular (l2_Hash P) (l1_Hash b) e)"
  shows "checkSingularBatch cfg (from_origin l1Blocks pe) P (to_singular (l2_Hash P) (l1_Hash b) e) incl
    = BatchAccept"
proof -
  note o = find_origin_drop [OF f]
  let ?bs = "drop p l1Blocks"
  have bs: "from_origin l1Blocks pe = ?bs" using from_origin_consecutive [OF c p] pe by simp
  have j: "unat (el_EpochNum e) = unat (l1_Number (l1Blocks ! 0)) + j"
    using consecutive_index(2) [OF c o(2)] o(3,4) by simp
  have q: "unat pe = unat (l1_Number (l1Blocks ! 0)) + p"
    using consecutive_index(2) [OF c p] pe by simp
  obtain k where k: "k \<le> 1" "j = p + k" "el_EpochNum e = pe + word_of_nat k"
  proof (cases "el_EpochNum e = pe")
    case True
    with j q have "j = p + 0" by simp
    with True show ?thesis by (intro that [of 0]) auto
  next
    case False
    with e have n: "el_EpochNum e = pe + 1" by (simp add: epoch_step_def)
    with epoch_step_unat [OF e] False j q have "j = p + 1" by simp
    with n show ?thesis by (intro that [of 1]) auto
  qed
  have "drift_ok cfg ?bs b (to_singular (l2_Hash P) (l1_Hash b) e)"
    using d o e pe k by (auto simp: drift_ok_def epoch_step_def le_Suc_eq word_le_less_eq)
  then show ?thesis
    unfolding bs checkSingularBatch_Accept
    using k o e pe t w P tx by (auto simp: epoch_step_def p intro!: exI [of _ k])
qed


text \<open>What the singular check asks of the transactions of a block beyond the checks on span batches.\<close>

definition fork_txs_ok :: "Config \<Rightarrow> SpanBatchElement \<Rightarrow> bool" where
  "fork_txs_ok cfg e \<longleftrightarrow>
     ((\<exists>tx\<in>set (el_Transactions e). hd tx = SetCodeTxType) \<longrightarrow> IsIsthmus cfg (el_Timestamp e) \<or> IsMantleSkadi cfg (el_Timestamp e)) \<and>
     (el_Transactions e \<noteq> [] \<longrightarrow>
        \<not> IsJovianActivationBlock cfg (el_Timestamp e) \<and>
        \<not> IsInteropActivationBlock cfg (el_Timestamp e))"

lemma check_span_blocks_Cons:
  assumes "check_span_blocks cfg l1Blocks head i adv prev (e # es) = None"
    and "l2_Time head < el_Timestamp e"
  obtains j b adv' where "find_origin (el_EpochNum e) i (drop i l1Blocks) = Some (j, b)"
    and "bid_Number (l2_L1Origin head) \<le> el_EpochNum e" and "l1_Time b \<le> el_Timestamp e"
    and "el_Timestamp e \<le> l1_Time b + MaxSequencerDrift (NewChainSpec cfg) (l1_Time b) \<or>
      el_Transactions e = [] \<and> (\<not> (case prev of None \<Rightarrow> adv | Some pe \<Rightarrow> pe < el_EpochNum e) \<longrightarrow>
        j + 1 < length l1Blocks \<and> el_Timestamp e < l1_Time (l1Blocks ! (j + 1)))"
    and "list_all (tx_allowed True) (el_Transactions e)"
    and "check_span_blocks cfg l1Blocks head j adv' (Some (el_EpochNum e)) es = None"
  using assms
  by (auto simp: Let_def not_le not_less split: if_splits option.splits prod.splits)

lemma check_span_blocks_singular:
  assumes c: "consecutive l1Blocks"
    and "check_span_blocks cfg l1Blocks head i adv prev es = None"
    and "prev = Some pe \<or> prev = None \<and> (es \<noteq> [] \<longrightarrow> adv = (pe < el_EpochNum (hd es)))"
    and "span_shape cfg head pe (l2_Time P) es"
    and "p < length l1Blocks" and "pe = l1_Number (l1Blocks ! p)" and "bid_Number (l2_L1Origin P) = pe"
    and "\<forall>e\<in>set es. l1_Number incl \<le> el_EpochNum e + SeqWindowSize cfg"
  shows "\<exists>sbs. GetSingularBatches_loop l1Blocks head i es = Inr sbs \<and>
           list_all2 (\<lambda>e v. v = BatchAccept \<longleftrightarrow> fork_txs_ok cfg e) es (apply_batches cfg H l1Blocks incl P sbs)"
  using assms(2-)
proof (induction es arbitrary: i adv prev pe p P)
  case Nil
  then show ?case by simp
next
  case (Cons e es)
  have sh: "l2_Time head < el_Timestamp e" "el_Timestamp e = l2_Time P + BlockTime cfg"
    "epoch_step pe (el_EpochNum e)" "span_shape cfg head (el_EpochNum e) (el_Timestamp e) es"
    using Cons.prems(3) by auto
  obtain j b adv' where
    f: "find_origin (el_EpochNum e) i (drop i l1Blocks) = Some (j, b)"
    and h: "bid_Number (l2_L1Origin head) \<le> el_EpochNum e" and t: "l1_Time b \<le> el_Timestamp e"
    and d: "el_Timestamp e \<le> l1_Time b + MaxSequencerDrift (NewChainSpec cfg) (l1_Time b) \<or>
      el_Transactions e = [] \<and> (\<not> (case prev of None \<Rightarrow> adv | Some pe \<Rightarrow> pe < el_EpochNum e) \<longrightarrow>
        j + 1 < length l1Blocks \<and> el_Timestamp e < l1_Time (l1Blocks ! (j + 1)))"
    and tx: "list_all (tx_allowed True) (el_Transactions e)"
    and r: "check_span_blocks cfg l1Blocks head j adv' (Some (el_EpochNum e)) es = None"
    by (rule check_span_blocks_Cons [OF Cons.prems(1) sh(1)])
  note o = find_origin_drop [OF f]
  let ?b = "to_singular (l2_Hash P) (l1_Hash b) e"
  have ok: "txs_ok cfg ?b \<longleftrightarrow> fork_txs_ok cfg e"
    using tx by (auto simp: txs_ok_def list_all_iff tx_allowed_iff fork_txs_ok_def)
  have a: "(case prev of None \<Rightarrow> adv | Some pe \<Rightarrow> pe < el_EpochNum e) = (pe < el_EpochNum e)"
    using Cons.prems(2) by auto
  have "checkSingularBatch cfg (from_origin l1Blocks pe) P ?b incl = BatchAccept \<longleftrightarrow> fork_txs_ok cfg e"
  proof
    assume "checkSingularBatch cfg (from_origin l1Blocks pe) P ?b incl = BatchAccept"
    then show "fork_txs_ok cfg e" using checkSingularBatch_Accept ok by blast
  next
    assume "fork_txs_ok cfg e"
    then show "checkSingularBatch cfg (from_origin l1Blocks pe) P ?b incl = BatchAccept"
      using singular_step [OF c Cons.prems(4,5) f sh(3) t _ _ sh(2)] d a ok Cons.prems(7) by simp
  qed
  moreover have "\<exists>sbs. GetSingularBatches_loop l1Blocks head j es = Inr sbs \<and>
      list_all2 (\<lambda>e v. v = BatchAccept \<longleftrightarrow> fork_txs_ok cfg e) es (apply_batches cfg H l1Blocks incl (block_of H P ?b) sbs)"
    using o(2-4) sh(4) Cons.prems(7)
    by (intro Cons.IH [OF r, where p = j and pe = "el_EpochNum e"]) simp_all
  moreover have "\<not> el_Timestamp e \<le> l2_Time head" "\<not> el_EpochNum e < bid_Number (l2_L1Origin head)"
    using sh(1) h by auto
  ultimately show ?case
    using f Cons.prems(6) by (auto simp: to_singular_def Let_def)
qed

text \<open>Blocks that are not after the safe head are skipped.\<close>

lemma check_span_blocks_old:
  "\<forall>x\<in>set old. el_Timestamp x \<le> l2_Time head \<Longrightarrow>
     check_span_blocks cfg l1Blocks head i adv prev (old @ es) =
       check_span_blocks cfg l1Blocks head i adv (if old = [] then prev else Some (el_EpochNum (last old))) es"
  by (induction old arbitrary: prev) auto

lemma GetSingularBatches_loop_old:
  "\<forall>x\<in>set old. el_Timestamp x \<le> l2_Time head \<Longrightarrow>
     GetSingularBatches_loop l1Blocks head i (old @ es) = GetSingularBatches_loop l1Blocks head i es"
  by (induction old) auto

lemma checkSpanBatchPrefix_Accept:
  assumes "checkSpanBatchPrefix cfg l1Blocks head b incl f = Some (BatchAccept, p)"
  obtains e es where "sp_Batches b = e # es" and "l1Blocks \<noteq> []"
    and "el_Timestamp e \<le> l2_Time head + BlockTime cfg"
    and "l2_Time head + BlockTime cfg \<le> el_Timestamp (last (e # es))"
    and "el_Timestamp e = l2_Time head + BlockTime cfg \<longrightarrow> p = head"
    and "l1_Number incl \<le> el_EpochNum e + SeqWindowSize cfg"
    and "bid_Number (l2_L1Origin p) \<le> el_EpochNum e"
    and "el_EpochNum e \<le> bid_Number (l2_L1Origin p) + 1"
    and "ParentCheck b = first20 (l2_Hash p)"
  using assms
  by (cases "sp_Batches b"; cases l1Blocks)
    (auto simp: checkSpanBatchPrefix_def Let_def GetStartEpochNum_def GetTimestamp_def GetLastTimestamp_def
      GetLastEpochNum_def CheckParentHash_def not_less split: if_splits option.splits)

lemma checkSpanBatch_Accept:
  assumes "checkSpanBatch cfg l1Blocks head b incl f = Some BatchAccept"
  obtains p e es where "checkSpanBatchPrefix cfg l1Blocks head b incl f = Some (BatchAccept, p)"
    and "sp_Batches b = e # es"
    and "check_span_blocks cfg l1Blocks head 0 (el_EpochNum e = bid_Number (l2_L1Origin p) + 1) None
           (sp_Batches b) = None"
  using assms
  by (cases "sp_Batches b")
    (auto simp: checkSpanBatch_def GetStartEpochNum_def GetTimestamp_def
      simp del: check_span_blocks.simps
      split: option.splits prod.splits if_splits dest: check_span_blocks_verdict)

lemma span_shape_epoch_mono:
  "span_shape cfg head pe t es \<Longrightarrow> e \<in> set es \<Longrightarrow> pe \<le> el_EpochNum e"
  by (induction es arbitrary: pe t) (auto simp: epoch_step_def intro: order_trans)

lemma add_mono_nowrap:
  fixes a b c n :: u64
  assumes "n \<le> a + c" and "a \<le> b" and "unat b + unat c < 2 ^ 64"
  shows "n \<le> b + c"
proof -
  have ab: "unat a \<le> unat b" using assms(2) by (simp add: word_le_nat_alt)
  with assms(3) have "unat (a + c) = unat a + unat c" "unat (b + c) = unat b + unat c"
    by (simp_all add: unat_word_ariths)
  with assms(1) ab show ?thesis by (simp add: word_le_nat_alt)
qed


section \<open>A sample\<close>

definition sample_l1 :: "L1BlockRef list" where
  "sample_l1 = [\<lparr>l1_Hash = 1000, l1_Number = 100, l1_ParentHash = 999, l1_Time = 2100\<rparr>,
                \<lparr>l1_Hash = 1001, l1_Number = 101, l1_ParentHash = 1000, l1_Time = 2112\<rparr>]"

definition sample_inclusion :: L1BlockRef where
  "sample_inclusion = \<lparr>l1_Hash = 1002, l1_Number = 102, l1_ParentHash = 1001, l1_Time = 2124\<rparr>"

definition sample_head :: L2BlockRef where
  "sample_head = \<lparr>l2_Hash = 7, l2_Number = 50, l2_ParentHash = 6, l2_Time = 2110,
     l2_L1Origin = \<lparr>bid_Hash = 1000, bid_Number = 100\<rparr>, l2_SequenceNumber = 3\<rparr>"

definition sample_span :: SpanBatch where
  "sample_span = \<lparr>ParentCheck = 0, L1OriginCheck = 0, sp_GenesisTimestamp = 1000,
     sp_Batches = [\<lparr>el_EpochNum = 100, el_Timestamp = 2112, el_Transactions = [[2, 1]]\<rparr>,
                   \<lparr>el_EpochNum = 101, el_Timestamp = 2114, el_Transactions = []\<rparr>],
     originBits = 2, blockTxCounts = [1, 0]\<rparr>"

definition sample_fetcher :: SafeBlockFetcher where
  "sample_fetcher = \<lparr>L2BlockRefByNumber = (\<lambda>_. None), PayloadByNumber = (\<lambda>_. None)\<rparr>"

lemmas sample_defs = sample_l1_def sample_inclusion_def sample_head_def sample_span_def sample_fetcher_def

lemma first20_small: "first20 7 = 0" "first20 1001 = 0"
  by (simp_all add: first20_def drop_bit_eq_div)

lemma sample_prefix:
  "checkSpanBatchPrefix sample_aligned sample_l1 sample_head sample_span sample_inclusion sample_fetcher
     = Some (BatchAccept, sample_head)"
  by (simp add: checkSpanBatchPrefix_def sample_defs GetStartEpochNum_def GetTimestamp_def
      GetLastTimestamp_def GetLastEpochNum_def IsFork_active_at CheckParentHash_def CheckOriginHash_def
      first20_small Let_def)

lemma sample_accept:
  "checkSpanBatch sample_aligned sample_l1 sample_head sample_span sample_inclusion sample_fetcher
     = Some BatchAccept"
  unfolding checkSpanBatch_def sample_prefix
  by (simp add: sample_defs GetStartEpochNum_def GetTimestamp_def IsFork_active_at
      MaxSequencerDrift_def IsFeatMaxSequencerDriftConstant_def NewChainSpec_def
      maxSequencerDriftFjord_def DepositTxType_def Let_def)

section \<open>Properties\<close>

text \<open>C24: A singular batch is accepted on top of a block exactly when it has the next timestamp, names
  that block as its parent, was included within the sequencing window of its epoch, has only
  permitted transactions, and its epoch is the first known L1 block or the one after it, with the
  right hash, not later than the batch, and within the sequencer drift; past the drift the batch
  is empty, and the next origin, unless adopted, is known and still later than the batch.\<close>

theorem checkSingularBatch_iff:
  "checkSingularBatch cfg l1Blocks head b incl = BatchAccept \<longleftrightarrow>
     sb_Timestamp b = l2_Time head + BlockTime cfg \<and> sb_ParentHash b = l2_Hash head \<and>
     l1_Number incl \<le> sb_EpochNum b + SeqWindowSize cfg \<and> txs_ok cfg b \<and>
     (\<exists>k<length l1Blocks. k \<le> 1 \<and>
        sb_EpochNum b = l1_Number (l1Blocks ! 0) + word_of_nat k \<and>
        l1_Number (l1Blocks ! 0) \<le> sb_EpochNum b \<and>
        sb_EpochHash b = l1_Hash (l1Blocks ! k) \<and> l1_Time (l1Blocks ! k) \<le> sb_Timestamp b \<and>
        drift_ok cfg l1Blocks (l1Blocks ! k) b)"
  by (rule checkSingularBatch_Accept)

text \<open>The verdict \<open>BatchFuture\<close> is given only when Holocene is not active at the inclusion block,
  and \<open>BatchPast\<close> only when it is, so the branches of the batch stage and the batch queue that
  treat these verdicts as critical errors are not reached.\<close>

theorem CheckBatch_early_late:
  assumes "CheckBatch cfg l1Blocks head bw f = Some v"
  shows "(v = BatchFuture \<longrightarrow> \<not> IsHolocene cfg (l1_Time (bw_L1InclusionBlock bw))) \<and>
         (v = BatchPast \<longrightarrow> IsHolocene cfg (l1_Time (bw_L1InclusionBlock bw)))"
proof (cases "bw_Batch bw")
  case (Singular b)
  with assms show ?thesis by (auto simp: CheckBatch_def dest: checkSingularBatch_time)
next
  case (Span b)
  with assms have "checkSpanBatch cfg l1Blocks head b (bw_L1InclusionBlock bw) f = Some v"
    by (simp add: CheckBatch_def)
  then show ?thesis
    using checkSpanBatch_time [of cfg l1Blocks head b "bw_L1InclusionBlock bw" f v]
    by (auto dest: checkSpanBatchPrefix_time)
qed

lemma CheckBatch_early_late_witness:
  "CheckBatch sample_aligned sample_l1 (sample_head\<lparr>l2_Time := 2116\<rparr>)
     \<lparr>bw_Batch = Span sample_span, bw_L1InclusionBlock = sample_inclusion\<rparr> sample_fetcher = Some BatchPast \<and>
   IsHolocene sample_aligned (l1_Time sample_inclusion)"
proof -
  have past: "CheckBatch sample_aligned sample_l1 (sample_head\<lparr>l2_Time := 2116\<rparr>)
     \<lparr>bw_Batch = Span sample_span, bw_L1InclusionBlock = sample_inclusion\<rparr> sample_fetcher = Some BatchPast"
    by (simp add: CheckBatch_def checkSpanBatch_def checkSpanBatchPrefix_def sample_defs
        GetStartEpochNum_def GetTimestamp_def GetLastTimestamp_def GetLastEpochNum_def IsFork_active_at Let_def)
  then show ?thesis using CheckBatch_early_late [OF past] by simp
qed

text \<open>When the full check accepts a span batch, its blocks after the safe head convert to
  singular batches without an error and there is at least one of them, so the batch queue
  neither fails critically nor panics when it pops the first one.\<close>

theorem accepted_span_converts:
  assumes "checkSpanBatch cfg l1Blocks head b incl f = Some BatchAccept"
    and "l2_Time head < l2_Time head + BlockTime cfg"
  shows "\<exists>sbs. GetSingularBatches b l1Blocks head = Inr sbs \<and> sbs \<noteq> [] \<and>
     map sb_Timestamp sbs = map el_Timestamp (filter (\<lambda>e. l2_Time head < el_Timestamp e) (sp_Batches b)) \<and>
     map sb_Transactions sbs = map el_Transactions (filter (\<lambda>e. l2_Time head < el_Timestamp e) (sp_Batches b))"
proof -
  obtain p e es where pre: "checkSpanBatchPrefix cfg l1Blocks head b incl f = Some (BatchAccept, p)"
    and b: "sp_Batches b = e # es"
    and ok: "check_span_blocks cfg l1Blocks head 0 (el_EpochNum e = bid_Number (l2_L1Origin p) + 1) None
           (sp_Batches b) = None"
    by (rule checkSpanBatch_Accept [OF assms(1)])
  have "l2_Time head < el_Timestamp (last (sp_Batches b))"
    by (rule checkSpanBatchPrefix_Accept [OF pre]) (use assms(2) in auto)
  then have "last (sp_Batches b) \<in> set (filter (\<lambda>e. l2_Time head < el_Timestamp e) (sp_Batches b))"
    using b by (auto split: if_splits)
  then have "filter (\<lambda>e. l2_Time head < el_Timestamp e) (sp_Batches b) \<noteq> []" by fastforce
  with GetSingularBatches_loop_ok [OF ok] show ?thesis
    by (fastforce simp: GetSingularBatches_def)
qed

lemma accepted_span_converts_witness:
  "\<exists>sbs. GetSingularBatches sample_span sample_l1 sample_head = Inr sbs \<and> sbs \<noteq> [] \<and>
     map sb_Timestamp sbs = [2112, 2114]"
  using accepted_span_converts [OF sample_accept] by (fastforce simp: sample_defs)

text \<open>C6: A span batch that passes the full check consists of blocks that obey the rules for singular batches but for the two rules on transactions that the
  span check lacks: the singular batches extracted from it (those after the safe head, if the span overlaps the safe chain), applied one
  after the other, each on the block built from the one before, are accepted exactly if no SetCode transaction is in a block before Isthmus or Skadi and no transaction is in
  the activation block of Jovian or Interop. The L1 blocks
  are consecutive from the origin of the safe head on, the span has the shape of a derived span batch,
  the last overlapped block has the L1 origin of the safe head, and no sum wraps around.\<close>

theorem span_obeys_singular_rules:
  assumes "checkSpanBatch cfg l1Blocks head b incl f = Some BatchAccept"
    and "consecutive l1Blocks" and "bid_Number (l2_L1Origin head) = l1_Number (l1Blocks ! 0)"
    and "l2_Time head < l2_Time head + BlockTime cfg"
    and "sp_Batches b = old @ e # es" and "\<forall>x\<in>set old. el_Timestamp x \<le> l2_Time head" and "el_Timestamp e = l2_Time head + BlockTime cfg"
    and "span_shape cfg head (el_EpochNum e) (el_Timestamp e) es"
    and "old \<noteq> [] \<Longrightarrow> el_EpochNum (last old) = bid_Number (l2_L1Origin head) \<and> el_EpochNum (hd old) \<le> el_EpochNum e \<and>
      epoch_step (bid_Number (l2_L1Origin head)) (el_EpochNum e)"
    and "\<forall>x\<in>set (e # es). unat (el_EpochNum x) + unat (SeqWindowSize cfg) < 2 ^ 64"
  shows "\<exists>sbs. GetSingularBatches b l1Blocks head = Inr sbs \<and>
     list_all2 (\<lambda>x v. v = BatchAccept \<longleftrightarrow> fork_txs_ok cfg x) (e # es) (apply_batches cfg H l1Blocks incl head sbs)"
proof -
  let ?first = "hd (sp_Batches b)" and ?pe = "bid_Number (l2_L1Origin head)"
  obtain p where pre: "checkSpanBatchPrefix cfg l1Blocks head b incl f = Some (BatchAccept, p)"
    and ok: "check_span_blocks cfg l1Blocks head 0 (el_EpochNum ?first = bid_Number (l2_L1Origin p) + 1) None
           (sp_Batches b) = None"
    by (rule checkSpanBatch_Accept [OF assms(1)]) auto
  have pr: "l1Blocks \<noteq> [] \<and> l1_Number incl \<le> el_EpochNum ?first + SeqWindowSize cfg \<and>
      (old = [] \<longrightarrow> p = head \<and> ?pe \<le> el_EpochNum e \<and> el_EpochNum e \<le> ?pe + 1)"
    by (rule checkSpanBatchPrefix_Accept [OF pre]) (use assms(5,7) in \<open>auto simp: append_eq_Cons_conv\<close>)
  have st: "epoch_step ?pe (el_EpochNum e)"
    using pr assms(9) by (cases "old = []") (auto simp: epoch_step_def intro: epoch_step_between)
  have adv: "(el_EpochNum e = ?pe + 1) = (?pe < el_EpochNum e)"
    using epoch_step_unat [OF st] by (auto simp: word_less_nat_alt)
  have first: "el_EpochNum ?first \<le> el_EpochNum e" using assms(5,9) by (cases old) simp_all
  have w: "l1_Number incl \<le> el_EpochNum x + SeqWindowSize cfg" if "x \<in> set (e # es)" for x
  proof (rule add_mono_nowrap)
    show "l1_Number incl \<le> el_EpochNum ?first + SeqWindowSize cfg" using pr by blast
    have "el_EpochNum e \<le> el_EpochNum x" using that span_shape_epoch_mono [OF assms(8), of x] by (cases "x = e") simp_all
    with first show "el_EpochNum ?first \<le> el_EpochNum x" by (rule order.trans)
    show "unat (el_EpochNum x) + unat (SeqWindowSize cfg) < 2 ^ 64" using that assms(10) by blast
  qed
  have sh: "span_shape cfg head ?pe (l2_Time head) (e # es)" using assms(4,7,8) st by simp
  have ok': "check_span_blocks cfg l1Blocks head 0 (el_EpochNum ?first = bid_Number (l2_L1Origin p) + 1)
      (if old = [] then None else Some ?pe) (e # es) = None"
    using ok assms(9) unfolding assms(5) check_span_blocks_old [OF assms(6)] by (cases "old = []") (simp_all del: check_span_blocks.simps)
  have "\<exists>sbs. GetSingularBatches_loop l1Blocks head 0 (e # es) = Inr sbs \<and>
     list_all2 (\<lambda>x v. v = BatchAccept \<longleftrightarrow> fork_txs_ok cfg x) (e # es) (apply_batches cfg H l1Blocks incl head sbs)"
    using pr adv w assms(3,5) by (intro check_span_blocks_singular [OF assms(2) ok' _ sh, where p = 0]) auto
  then show ?thesis unfolding GetSingularBatches_def assms(5) GetSingularBatches_loop_old [OF assms(6)] .
qed

lemma span_obeys_singular_rules_witness:
  "\<exists>sbs. GetSingularBatches sample_span sample_l1 sample_head = Inr sbs \<and>
     apply_batches sample_aligned (\<lambda>P b. 8) sample_l1 sample_inclusion sample_head sbs = [BatchAccept, BatchAccept]"
proof -
  have c: "consecutive sample_l1"
    by (auto simp: consecutive_def sample_l1_def less_Suc_eq)
  show ?thesis
    using span_obeys_singular_rules [OF sample_accept c, where H = "\<lambda>P b. 8" and old = "[]"]
    by (simp add: sample_defs epoch_step_def fork_txs_ok_def IsFork_active_at IsJovianActivationBlock_def
        IsInteropActivationBlock_def list_all2_Cons1)
qed

end
