(* ===== verification/Derive_Error.thy ===== *)
theory Derive_Error
  imports Prelude
begin

text \<open>
  The errors the derivation stages exchange (\<open>op-node/rollup/derive/error.go\<close>): the sentinels
  \<open>io.EOF\<close>, \<open>NotEnoughData\<close> and \<open>EngineELSyncing\<close>, errors with a severity level, and errors without one. A panic of
  a stage unwinds the stages above it; it is passed up like an error that no stage handles. The
  theory also states what a stage promises to the next one: the shape of a puller of values.
\<close>

section \<open>Errors\<close>

datatype Level = LevelTemporary | LevelReset | LevelCritical

datatype derive_error =
    IoEOF | NotEnoughData | EngineELSyncing | Error Level string | OtherError string
  | GoPanic string

definition NewTemporaryError :: "string \<Rightarrow> derive_error" where
  "NewTemporaryError err = Error LevelTemporary err"

definition NewResetError :: "string \<Rightarrow> derive_error" where
  "NewResetError err = Error LevelReset err"

definition NewCriticalError :: "string \<Rightarrow> derive_error" where
  "NewCriticalError err = Error LevelCritical err"

lemmas level_errors [go_defs] =
  NewTemporaryError_def NewResetError_def NewCriticalError_def

section \<open>Pulling from the previous stage\<close>

text \<open>A stage calls its predecessor and gets a value or an error; the call changes the
  predecessor's state.\<close>

type_synonym ('p, 'a) puller = "'p \<Rightarrow> (derive_error + 'a) \<times> 'p"

text \<open>What a provider promises of the values it hands out, as an invariant of its state.\<close>

locale provider =
  fixes pull :: "('p, 'a) puller"
    and pinv :: "'p \<Rightarrow> bool"
    and good :: "'a \<Rightarrow> bool"
  assumes pull_inv: "pinv p \<Longrightarrow> pull p = (r, p') \<Longrightarrow> pinv p'"
    and pull_good: "pinv p \<Longrightarrow> pull p = (Inr x, p') \<Longrightarrow> good x"
begin

text \<open>The values handed out by \<open>n\<close> calls.\<close>

primrec pulled :: "nat \<Rightarrow> 'p \<Rightarrow> 'a list" where
  "pulled 0 p = []"
| "pulled (Suc n) p =
     (case pull p of (Inl e, p') \<Rightarrow> pulled n p' | (Inr x, p') \<Rightarrow> x # pulled n p')"

lemma pulled_good: "pinv p \<Longrightarrow> list_all good (pulled n p)"
  by (induction n arbitrary: p) (auto split: prod.splits sum.splits intro: pull_inv pull_good)

end

end
