(* ===== verification/Batch_Stages.thy ===== *)
theory Batch_Stages
  imports Batches Derive_Error
begin

text \<open>
  The stages that turn batches into the batch for the next L2 block: the shared part
  (\<open>op-node/rollup/derive/base_batch_stage.go\<close>), the stage used from Holocene on (\<open>batch_stage.go\<close>) and
  the queue used before (\<open>batch_queue.go\<close>). The previous stage and the client for L2 blocks are
  parameters; the state of the previous stage is threaded through the calls. A panic is the error
  \<open>GoPanic\<close>. A batch is nil or of one of two types, so the branches for other batch types are not
  there.
\<close>

section \<open>Definitions\<close>

subsection \<open>The shared part\<close>

record 'p NextBatchProvider =
  prev_Origin :: "'p \<Rightarrow> L1BlockRef"
  prev_NextBatch :: "('p, Batch) puller"
  prev_FlushChannel :: "'p \<Rightarrow> 'p"

record baseBatchStage =
  bs_origin :: L1BlockRef
  bs_l1Blocks :: "L1BlockRef list"
  bs_nextSpan :: "SingularBatch list"

definition newBaseBatchStage :: baseBatchStage where
  "newBaseBatchStage = \<lparr>bs_origin = zero_L1BlockRef, bs_l1Blocks = [], bs_nextSpan = []\<rparr>"

definition popNextBatch ::
  "L2BlockRef \<Rightarrow> 'a baseBatchStage_scheme \<Rightarrow> (derive_error + SingularBatch) \<times> 'a baseBatchStage_scheme" where
  "popNextBatch parent bs =
     (case bs_nextSpan bs of
        [] \<Rightarrow> (Inl (GoPanic ''popping non-existent span-batch, invalid state''), bs)
      | nextBatch # rest \<Rightarrow>
          (Inr (nextBatch\<lparr>sb_ParentHash := l2_Hash parent\<rparr>), bs\<lparr>bs_nextSpan := rest\<rparr>))"

text \<open>The batch and whether it is the last of the span; \<open>None\<close> is the nil batch.\<close>

definition nextFromSpanBatch ::
  "Config \<Rightarrow> L2BlockRef \<Rightarrow> 'a baseBatchStage_scheme \<Rightarrow>
     (derive_error + (SingularBatch \<times> bool) option) \<times> 'a baseBatchStage_scheme" where
  "nextFromSpanBatch cfg parent bs =
     (case bs_nextSpan bs of
        [] \<Rightarrow> (Inr None, bs)
      | b # _ \<Rightarrow>
          if sb_Timestamp b = l2_Time parent + BlockTime cfg
          then (case popNextBatch parent bs of
                  (Inl e, bs') \<Rightarrow> (Inl e, bs')
                | (Inr nextBatch, bs') \<Rightarrow> (Inr (Some (nextBatch, bs_nextSpan bs' = [])), bs'))
          else (Inr None, bs\<lparr>bs_nextSpan := []\<rparr>))"

definition originBehind :: "L1BlockRef \<Rightarrow> L2BlockRef \<Rightarrow> bool" where
  "originBehind prevOrigin parent \<longleftrightarrow> l1_Number prevOrigin < bid_Number (l2_L1Origin parent)"

text \<open>The blocks from the first one with the given number on; all of them if there is none.\<close>

fun advance_blocks :: "u64 \<Rightarrow> L1BlockRef list \<Rightarrow> L1BlockRef list option" where
  "advance_blocks n [] = None"
| "advance_blocks n (b # bs) = (if n = l1_Number b then Some (b # bs) else advance_blocks n bs)"

definition updateOrigins ::
  "L1BlockRef \<Rightarrow> L2BlockRef \<Rightarrow> 'a baseBatchStage_scheme \<Rightarrow> 'a baseBatchStage_scheme" where
  "updateOrigins prevOrigin parent bs =
     (let behind = originBehind prevOrigin parent;
          bs = (if bs_origin bs \<noteq> prevOrigin
                then bs\<lparr>bs_origin := prevOrigin,
                        bs_l1Blocks := (if \<not> behind then bs_l1Blocks bs @ [prevOrigin] else [])\<rparr>
                else bs)
      in if bs_l1Blocks bs \<noteq> [] \<and> bid_Number (l2_L1Origin parent) > l1_Number (hd (bs_l1Blocks bs))
         then (case advance_blocks (bid_Number (l2_L1Origin parent)) (bs_l1Blocks bs) of
                 None \<Rightarrow> bs
               | Some bl \<Rightarrow> bs\<lparr>bs_l1Blocks := bl\<rparr>)
         else bs)"

definition reset_base :: "L1BlockRef \<Rightarrow> 'a baseBatchStage_scheme \<Rightarrow> 'a baseBatchStage_scheme" where
  "reset_base base bs = bs\<lparr>bs_origin := base, bs_l1Blocks := [base], bs_nextSpan := []\<rparr>"

definition deriveNextEmptyBatch ::
  "Config \<Rightarrow> bool \<Rightarrow> L2BlockRef \<Rightarrow> 'a baseBatchStage_scheme \<Rightarrow>
     (derive_error + SingularBatch) \<times> 'a baseBatchStage_scheme" where
  "deriveNextEmptyBatch cfg outOfData parent bs =
     (case bs_l1Blocks bs of
        [] \<Rightarrow> (Inl (GoPanic ''index out of range''), bs)
      | epoch # rest \<Rightarrow>
       let expiryEpoch = l1_Number epoch + SeqWindowSize cfg;
           forceEmptyBatches = (expiryEpoch = l1_Number (bs_origin bs) \<and> outOfData \<or>
                                expiryEpoch < l1_Number (bs_origin bs));
           firstOfEpoch = (l1_Number epoch = bid_Number (l2_L1Origin parent) + 1);
           nextTimestamp = l2_Time parent + BlockTime cfg in
       if \<not> forceEmptyBatches then (Inl IoEOF, bs)
       else case rest of
         [] \<Rightarrow> (Inl IoEOF, bs)
       | nextEpoch # _ \<Rightarrow>
           if nextTimestamp < l1_Time nextEpoch \<or> firstOfEpoch
           then (Inr \<lparr>sb_ParentHash = l2_Hash parent, sb_EpochNum = l1_Number epoch,
                      sb_EpochHash = l1_Hash epoch, sb_Timestamp = nextTimestamp,
                      sb_Transactions = []\<rparr>, bs)
           else (Inl IoEOF, bs\<lparr>bs_l1Blocks := rest\<rparr>))"

subsection \<open>The batch stage\<close>

type_synonym BatchStage = baseBatchStage

definition bst_Reset :: "L1BlockRef \<Rightarrow> BatchStage \<Rightarrow> derive_error option \<times> BatchStage" where
  "bst_Reset base bs = (Some IoEOF, reset_base base bs)"

definition bst_FlushChannel :: "'p NextBatchProvider \<Rightarrow> BatchStage \<times> 'p \<Rightarrow> BatchStage \<times> 'p" where
  "bst_FlushChannel prev = (\<lambda>(bs, p). (bs\<lparr>bs_nextSpan := []\<rparr>, prev_FlushChannel prev p))"

definition nextSingularBatchCandidate ::
  "Config \<Rightarrow> 'p NextBatchProvider \<Rightarrow> SafeBlockFetcher \<Rightarrow> L2BlockRef \<Rightarrow> (BatchStage \<times> 'p, SingularBatch) puller" where
  "nextSingularBatchCandidate cfg prev l2 parent = (\<lambda>(bs, p).
     (case nextFromSpanBatch cfg parent bs of
        (Inl e, bs) \<Rightarrow> (Inl e, bs, p)
      | (Inr (Some (nextBatch, _)), bs) \<Rightarrow> (Inr nextBatch, bs, p)
      | (Inr None, bs) \<Rightarrow>
         (case prev_NextBatch prev p of
            (Inl err, p) \<Rightarrow> (Inl err, bs, p)
          | (Inr (Singular b), p) \<Rightarrow> (Inr b, bs, p)
          | (Inr (Span spanBatch), p) \<Rightarrow>
             (case checkSpanBatchPrefix cfg (bs_l1Blocks bs) parent spanBatch (bs_origin bs) l2 of
                None \<Rightarrow> (Inl (GoPanic ''index out of range''), bs, p)
              | Some (BatchPast, _) \<Rightarrow> (Inl NotEnoughData, bs, p)
              | Some (BatchDrop, _) \<Rightarrow> (Inl NotEnoughData, bst_FlushChannel prev (bs, p))
              | Some (BatchUndecided, _) \<Rightarrow> (Inl NotEnoughData, bs, p)
              | Some (BatchFuture, _) \<Rightarrow> (Inl (NewCriticalError ''impossible future batch validity''), bs, p)
              | Some (BatchAccept, _) \<Rightarrow>
                 (case GetSingularBatches spanBatch (bs_l1Blocks bs) parent of
                    Inl e \<Rightarrow> (Inl NotEnoughData, bst_FlushChannel prev (bs, p))
                  | Inr singularBatches \<Rightarrow>
                     (case popNextBatch parent (bs\<lparr>bs_nextSpan := singularBatches\<rparr>) of
                        (r, bs) \<Rightarrow> (r, bs, p)))))))"

definition bst_NextBatch ::
  "Config \<Rightarrow> 'p NextBatchProvider \<Rightarrow> SafeBlockFetcher \<Rightarrow> L2BlockRef \<Rightarrow>
     (BatchStage \<times> 'p, SingularBatch \<times> bool) puller" where
  "bst_NextBatch cfg prev l2 parent = (\<lambda>(bs, p).
     (let bs = updateOrigins (prev_Origin prev p) parent bs in
      if originBehind (prev_Origin prev p) parent \<or> bid_Number (l2_L1Origin parent) = l1_Number (bs_origin bs)
      then (case prev_NextBatch prev p of
              (Inl err, p) \<Rightarrow> (Inl err, bs, p)
            | (Inr _, p) \<Rightarrow> (Inl NotEnoughData, bs, p))
      else if length (bs_l1Blocks bs) < 2
      then (Inl (NewCriticalError ''unexpected low buffered origin count''), bs, p)
      else if l2_L1Origin parent \<noteq> L1BlockRef_ID (hd (bs_l1Blocks bs)) \<and>
              bid_Number (l2_L1Origin parent) \<noteq> l1_Number (hd (bs_l1Blocks bs)) - 1
      then (Inl (NewResetError ''buffered L1 chain epoch in batch queue does not match safe head origin''), bs, p)
      else
      case nextSingularBatchCandidate cfg prev l2 parent (bs, p) of
        (Inl err, bs, p) \<Rightarrow>
          if err = IoEOF
          then (case deriveNextEmptyBatch cfg True parent bs of
                  (Inl e, bs) \<Rightarrow> (Inl e, bs, p)
                | (Inr b, bs) \<Rightarrow> (Inr (b, True), bs, p))
          else (Inl err, bs, p)
      | (Inr batch, bs, p) \<Rightarrow>
         (case checkSingularBatch cfg (bs_l1Blocks bs) parent batch (bs_origin bs) of
            BatchAccept \<Rightarrow> (Inr (batch, True), bs, p)
          | BatchPast \<Rightarrow> (Inl NotEnoughData, bs, p)
          | BatchDrop \<Rightarrow> (Inl NotEnoughData, bst_FlushChannel prev (bs, p))
          | BatchUndecided \<Rightarrow> (Inl NotEnoughData, bs, p)
          | BatchFuture \<Rightarrow> (Inl (NewCriticalError ''impossible batch validity''), bs, p))))"

subsection \<open>The batch queue\<close>

record BatchQueue = baseBatchStage +
  bq_batches :: "BatchWithL1InclusionBlock list"

definition NewBatchQueue :: BatchQueue where
  "NewBatchQueue = baseBatchStage.extend newBaseBatchStage (BatchQueue.fields [])"

definition bq_Reset :: "L1BlockRef \<Rightarrow> BatchQueue \<Rightarrow> derive_error option \<times> BatchQueue" where
  "bq_Reset base bq = (Some IoEOF, (reset_base base bq)\<lparr>bq_batches := []\<rparr>)"

definition AddBatch :: "Config \<Rightarrow> SafeBlockFetcher \<Rightarrow> Batch \<Rightarrow> L2BlockRef \<Rightarrow> BatchQueue \<Rightarrow> derive_error + BatchQueue" where
  "AddBatch cfg l2 batch parent bq =
     (if bs_l1Blocks bq = [] then Inl (GoPanic ''cannot add batch, no origin was prepared'')
      else let data = \<lparr>bw_Batch = batch, bw_L1InclusionBlock = bs_origin bq\<rparr>
           in case CheckBatch cfg (bs_l1Blocks bq) parent data l2 of
                None \<Rightarrow> Inl (GoPanic ''index out of range'')
              | Some validity \<Rightarrow>
                  Inr (if validity = BatchDrop then bq
                       else bq\<lparr>bq_batches := bq_batches bq @ [data]\<rparr>))"

text \<open>The loop of \<open>deriveNextBatch\<close>: the batch to process next, if any, and the batches to keep.\<close>

datatype batch_loop =
    LoopPanic | LoopUnknown
  | LoopUndecided "BatchWithL1InclusionBlock list"
  | LoopDone "BatchWithL1InclusionBlock option" "BatchWithL1InclusionBlock list"

fun batchLoop ::
  "(BatchWithL1InclusionBlock \<Rightarrow> BatchValidity option) \<Rightarrow> BatchWithL1InclusionBlock list \<Rightarrow>
     BatchWithL1InclusionBlock list \<Rightarrow> batch_loop" where
  "batchLoop check remaining [] = LoopDone None remaining"
| "batchLoop check remaining (batch # rest) =
     (case check batch of
        None \<Rightarrow> LoopPanic
      | Some BatchFuture \<Rightarrow> batchLoop check (remaining @ [batch]) rest
      | Some BatchDrop \<Rightarrow> batchLoop check remaining rest
      | Some BatchAccept \<Rightarrow> LoopDone (Some batch) (remaining @ rest)
      | Some BatchUndecided \<Rightarrow> LoopUndecided (remaining @ batch # rest)
      | Some BatchPast \<Rightarrow> LoopUnknown)"

definition deriveNextBatch ::
  "Config \<Rightarrow> SafeBlockFetcher \<Rightarrow> bool \<Rightarrow> L2BlockRef \<Rightarrow> BatchQueue \<Rightarrow> (derive_error + Batch) \<times> BatchQueue" where
  "deriveNextBatch cfg l2 outOfData parent bq =
     (case bs_l1Blocks bq of
        [] \<Rightarrow> (Inl (NewCriticalError ''cannot derive next batch, no origin was prepared''), bq)
      | epoch # _ \<Rightarrow>
       if l2_L1Origin parent \<noteq> L1BlockRef_ID epoch \<and> bid_Number (l2_L1Origin parent) \<noteq> l1_Number epoch - 1
       then (Inl (NewResetError ''buffered L1 chain epoch in batch queue does not match safe head origin''), bq)
       else case batchLoop (\<lambda>b. CheckBatch cfg (bs_l1Blocks bq) parent b l2) [] (bq_batches bq) of
         LoopPanic \<Rightarrow> (Inl (GoPanic ''index out of range''), bq)
       | LoopUnknown \<Rightarrow> (Inl (NewCriticalError ''unknown batch validity type''), bq)
       | LoopUndecided remaining \<Rightarrow> (Inl IoEOF, bq\<lparr>bq_batches := remaining\<rparr>)
       | LoopDone (Some b) remaining \<Rightarrow> (Inr (bw_Batch b), bq\<lparr>bq_batches := remaining\<rparr>)
       | LoopDone None remaining \<Rightarrow>
          (case deriveNextEmptyBatch cfg outOfData parent (bq\<lparr>bq_batches := remaining\<rparr>) of
             (Inl e, bq) \<Rightarrow> (Inl e, bq)
           | (Inr b, bq) \<Rightarrow> (Inr (Singular b), bq)))"

text \<open>What \<open>NextBatch\<close> does with the batch it found.\<close>

definition emitBatch :: "Batch \<Rightarrow> L2BlockRef \<Rightarrow> BatchQueue \<Rightarrow> (derive_error + SingularBatch \<times> bool) \<times> BatchQueue" where
  "emitBatch batch parent bq =
     (case batch of
        Singular b \<Rightarrow> (Inr (b, bs_nextSpan bq = []), bq)
      | Span spanBatch \<Rightarrow>
         (case GetSingularBatches spanBatch (bs_l1Blocks bq) parent of
            Inl e \<Rightarrow> (Inl (NewCriticalError ''singular batch extraction''), bq)
          | Inr singularBatches \<Rightarrow>
             (case popNextBatch parent (bq\<lparr>bs_nextSpan := singularBatches\<rparr>) of
                (Inl e, bq) \<Rightarrow> (Inl e, bq)
              | (Inr b, bq) \<Rightarrow> (Inr (b, bs_nextSpan bq = []), bq))))"

definition bq_NextBatch ::
  "Config \<Rightarrow> 'p NextBatchProvider \<Rightarrow> SafeBlockFetcher \<Rightarrow> L2BlockRef \<Rightarrow>
     (BatchQueue \<times> 'p, SingularBatch \<times> bool) puller" where
  "bq_NextBatch cfg prev l2 parent = (\<lambda>(bq, p).
     (case nextFromSpanBatch cfg parent bq of
        (Inl e, bq) \<Rightarrow> (Inl e, bq, p)
      | (Inr (Some (batch, isLast)), bq) \<Rightarrow> (Inr (batch, isLast), bq, p)
      | (Inr None, bq) \<Rightarrow>
       let bq = updateOrigins (prev_Origin prev p) parent bq;
           behind = originBehind (prev_Origin prev p) parent in
       case prev_NextBatch prev p of
         (r, p) \<Rightarrow>
         (case (case r of
                  Inl e \<Rightarrow> if e = IoEOF then Inr (True, bq) else Inl e
                | Inr batch \<Rightarrow>
                    if \<not> behind then map_sum id (Pair False) (AddBatch cfg l2 batch parent bq)
                    else Inr (False, bq)) of
            Inl e \<Rightarrow> (Inl e, bq, p)
          | Inr (outOfData, bq) \<Rightarrow>
              if behind then (Inl (if outOfData then IoEOF else NotEnoughData), bq, p)
              else
             (case deriveNextBatch cfg l2 outOfData parent bq of
                (Inl e, bq) \<Rightarrow> (Inl (if e = IoEOF \<and> \<not> outOfData then NotEnoughData else e), bq, p)
              | (Inr batch, bq) \<Rightarrow>
                 (case emitBatch batch parent bq of (r, bq) \<Rightarrow> (r, bq, p))))))"


section \<open>The L1 blocks of a stage\<close>

text \<open>\<open>chain\<close> is the L1 chain; a stage buffers the blocks \<open>a\<close> to \<open>k\<close> of it.\<close>

definition segment :: "'a list \<Rightarrow> nat \<Rightarrow> nat \<Rightarrow> 'a list" where
  "segment chain a k = drop a (take (Suc k) chain)"

lemma length_segment: "k < length chain \<Longrightarrow> length (segment chain a k) = Suc k - a"
  by (simp add: segment_def)

lemma segment_Nil_iff: "k < length chain \<Longrightarrow> segment chain a k = [] \<longleftrightarrow> k < a"
  by (auto simp: segment_def)

lemma nth_segment: "k < length chain \<Longrightarrow> a + i \<le> k \<Longrightarrow> segment chain a k ! i = chain ! (a + i)"
  by (simp add: segment_def)

lemma hd_segment: "k < length chain \<Longrightarrow> a \<le> k \<Longrightarrow> hd (segment chain a k) = chain ! a"
  by (simp add: segment_def hd_drop_conv_nth)

lemma segment_Cons: "k < length chain \<Longrightarrow> a \<le> k \<Longrightarrow> segment chain a k = chain ! a # segment chain (Suc a) k"
  by (simp add: segment_def Cons_nth_drop_Suc [symmetric])

lemma segment_snoc: "Suc k < length chain \<Longrightarrow> a \<le> Suc k \<Longrightarrow> segment chain a k @ [chain ! Suc k] = segment chain a (Suc k)"
  by (simp add: segment_def take_Suc_conv_app_nth [of "Suc k" chain])

lemma chain_number:
  assumes "consecutive chain" and "i < length chain" and "j < length chain"
  shows "l1_Number (chain ! i) < l1_Number (chain ! j) \<longleftrightarrow> i < j"
    and "l1_Number (chain ! i) = l1_Number (chain ! j) \<longleftrightarrow> i = j"
    and "chain ! i = chain ! j \<longleftrightarrow> i = j"
proof -
  have n: "unat (l1_Number (chain ! i)) = unat (l1_Number (chain ! 0)) + i"
    "unat (l1_Number (chain ! j)) = unat (l1_Number (chain ! 0)) + j"
    using assms by (simp_all add: consecutive_def)
  show "l1_Number (chain ! i) < l1_Number (chain ! j) \<longleftrightarrow> i < j"
    using n by (simp add: word_less_nat_alt)
  show eq: "l1_Number (chain ! i) = l1_Number (chain ! j) \<longleftrightarrow> i = j"
    using n by (metis add_left_cancel)
  show "chain ! i = chain ! j \<longleftrightarrow> i = j"
    using eq by metis
qed

lemma chain_number_Suc:
  assumes "consecutive chain" and "Suc i < length chain"
  shows "l1_Number (chain ! Suc i) = l1_Number (chain ! i) + 1"
proof -
  have "unat (l1_Number (chain ! Suc i)) = Suc (unat (l1_Number (chain ! i)))"
    using assms by (simp add: consecutive_def)
  then have "word_of_nat (unat (l1_Number (chain ! Suc i))) = (word_of_nat (Suc (unat (l1_Number (chain ! i)))) :: u64)"
    by (rule arg_cong)
  then show ?thesis by simp
qed

lemma advance_blocks_segment:
  assumes c: "consecutive chain" and k: "k < length chain" and m: "m < length chain" and "a \<le> m"
  shows "advance_blocks (l1_Number (chain ! m)) (segment chain a k) =
    (if m \<le> k then Some (segment chain m k) else None)"
  using \<open>a \<le> m\<close>
proof (induction "Suc k - a" arbitrary: a)
  case 0
  then show ?case using k by (simp add: segment_def)
next
  case (Suc n)
  then have "a \<le> k" by simp
  with k have "segment chain a k = chain ! a # segment chain (Suc a) k" by (rule segment_Cons)
  then show ?case
    using Suc chain_number(2) [OF c m, of a] k m \<open>a \<le> k\<close> by auto
qed

text \<open>What holds between calls: the stage has seen the chain up to block \<open>k\<close>, buffers the blocks from
  \<open>a\<close> on, the origin of the safe head is block \<open>m\<close>, and its time is not before that of its origin. The
  buffer starts at most one block after the origin of the safe head, and then the next L2 block
  can have that block as its origin.\<close>

definition buffered :: "Config \<Rightarrow> L1BlockRef list \<Rightarrow> L2BlockRef \<Rightarrow> nat \<Rightarrow> nat \<Rightarrow> nat \<Rightarrow> bool" where
  "buffered cfg chain parent m a k \<longleftrightarrow>
     (a = Suc k \<and> k < m) \<or>
     (a \<le> k \<and> (a \<le> m \<or> a = Suc m \<and> Suc a \<le> k \<and> l1_Time (chain ! a) \<le> l2_Time parent + BlockTime cfg))"

definition head_ok :: "L1BlockRef list \<Rightarrow> L2BlockRef \<Rightarrow> nat \<Rightarrow> bool" where
  "head_ok chain parent m \<longleftrightarrow>
     m < length chain \<and> l2_L1Origin parent = L1BlockRef_ID (chain ! m) \<and>
     l1_Time (chain ! m) \<le> l2_Time parent"

definition stage_at :: "L1BlockRef list \<Rightarrow> 'a baseBatchStage_scheme \<Rightarrow> nat \<Rightarrow> nat \<Rightarrow> bool" where
  "stage_at chain bs a k \<longleftrightarrow>
     k < length chain \<and> bs_origin bs = chain ! k \<and> bs_l1Blocks bs = segment chain a k"

lemma updateOrigins_at:
  assumes c: "consecutive chain" and h: "head_ok chain parent m" and s: "stage_at chain bs a k'"
    and b: "buffered cfg chain parent m a k'" and k: "k' \<le> k" "k \<le> Suc k'" "k < length chain"
  obtains a' where "stage_at chain (updateOrigins (chain ! k) parent bs) a' k"
    and "buffered cfg chain parent m a' k" and "m \<le> k \<longrightarrow> a' = m \<or> a' = Suc m"
proof -
  have m: "m < length chain" "bid_Number (l2_L1Origin parent) = l1_Number (chain ! m)"
    using h by (simp_all add: head_ok_def)
  have behind: "originBehind (chain ! k) parent \<longleftrightarrow> k < m"
    using chain_number(1) [OF c k(3) m(1)] m(2) by (simp add: originBehind_def)
  define bs1 where "bs1 = (if bs_origin bs \<noteq> chain ! k
      then bs\<lparr>bs_origin := chain ! k,
              bs_l1Blocks := (if \<not> k < m then bs_l1Blocks bs @ [chain ! k] else [])\<rparr> else bs)"
  have s1: "\<exists>a1. stage_at chain bs1 a1 k \<and> buffered cfg chain parent m a1 k"
  proof (cases "k = k'")
    case True
    with s b show ?thesis by (auto simp: bs1_def stage_at_def)
  next
    case False
    with k have k: "k = Suc k'" "k < length chain" by simp_all
    have o: "bs_origin bs \<noteq> chain ! k"
      using s chain_number(3) [OF c _ k(2), of k'] k by (auto simp: stage_at_def)
    show ?thesis
    proof (cases "k < m")
      case True
      then show ?thesis using o k by (intro exI [of _ "Suc k"]) (simp add: bs1_def stage_at_def buffered_def segment_def)
    next
      case False
      then have "stage_at chain bs1 a k"
        using o s k b segment_snoc [of k' chain a] by (auto simp: bs1_def stage_at_def buffered_def)
      moreover have "buffered cfg chain parent m a k"
        using b False k by (auto simp: buffered_def)
      ultimately show ?thesis by blast
    qed
  qed
  then obtain a1 where s1: "stage_at chain bs1 a1 k" "buffered cfg chain parent m a1 k" by blast
  have u: "updateOrigins (chain ! k) parent bs =
      (if bs_l1Blocks bs1 \<noteq> [] \<and> l1_Number (chain ! m) > l1_Number (hd (bs_l1Blocks bs1))
       then (case advance_blocks (l1_Number (chain ! m)) (bs_l1Blocks bs1) of
               None \<Rightarrow> bs1 | Some bl \<Rightarrow> bs1\<lparr>bs_l1Blocks := bl\<rparr>)
       else bs1)"
    unfolding updateOrigins_def Let_def behind m(2) bs1_def [symmetric] ..
  show ?thesis
  proof (cases "a1 \<le> k \<and> a1 < m")
    case True
    then have "bs_l1Blocks bs1 \<noteq> [] \<and> l1_Number (chain ! m) > l1_Number (hd (bs_l1Blocks bs1))"
      using s1(1) chain_number(1) [OF c _ m(1), of a1] k(3)
      by (auto simp: stage_at_def segment_Nil_iff hd_segment)
    then have u: "updateOrigins (chain ! k) parent bs =
        (if m \<le> k then bs1\<lparr>bs_l1Blocks := segment chain m k\<rparr> else bs1)"
      using s1(1) advance_blocks_segment [OF c k(3) m(1), of a1] True by (simp add: u stage_at_def)
    show ?thesis
      using s1 True u by (intro that [of "if m \<le> k then m else a1"]) (auto simp: stage_at_def buffered_def)
  next
    case False
    then have "updateOrigins (chain ! k) parent bs = bs1"
      using s1(1) chain_number(1) [OF c _ m(1), of a1] k(3)
      by (auto simp: u stage_at_def segment_Nil_iff hd_segment not_le)
    then show ?thesis
      using s1 False by (intro that [of a1]) (auto simp: buffered_def)
  qed
qed


section \<open>One call of the batch stage\<close>

text \<open>What the next head is when a call returns.\<close>

definition next_ok ::
  "Config \<Rightarrow> L1BlockRef list \<Rightarrow> L2BlockRef \<Rightarrow> nat \<Rightarrow> nat \<Rightarrow> nat \<Rightarrow> SingularBatch \<Rightarrow> bool" where
  "next_ok cfg chain parent m a k b \<longleftrightarrow>
     sb_ParentHash b = l2_Hash parent \<and> sb_Timestamp b = l2_Time parent + BlockTime cfg \<and>
     (\<exists>m'. m \<le> m' \<and> m' \<le> Suc a \<and> a \<le> m' \<and> m' \<le> k \<and>
        sb_EpochHash b = l1_Hash (chain ! m') \<and> sb_EpochNum b = l1_Number (chain ! m') \<and>
        l1_Time (chain ! m') \<le> sb_Timestamp b)"

definition window_ok :: "Config \<Rightarrow> L1BlockRef list \<Rightarrow> bool" where
  "window_ok cfg chain \<longleftrightarrow> 2 \<le> SeqWindowSize cfg \<and>
     (\<forall>b\<in>set chain. unat (l1_Number b) + unat (SeqWindowSize cfg) < 2 ^ 64)"

lemma accept_next_ok:
  assumes c: "consecutive chain" and s: "stage_at chain bs a k" and a: "a = m \<or> a = Suc m"
    and acc: "checkSingularBatch cfg (bs_l1Blocks bs) parent b incl = BatchAccept"
  shows "next_ok cfg chain parent m a k b"
proof -
  have l: "bs_l1Blocks bs = segment chain a k" and k: "k < length chain"
    using s by (simp_all add: stage_at_def)
  from acc [unfolded checkSingularBatch_Accept] obtain i where
    i: "i < length (bs_l1Blocks bs)" "i \<le> 1" "sb_EpochNum b = l1_Number (bs_l1Blocks bs ! 0) + word_of_nat i"
      "sb_EpochHash b = l1_Hash (bs_l1Blocks bs ! i)" "l1_Time (bs_l1Blocks bs ! i) \<le> sb_Timestamp b"
    and t: "sb_Timestamp b = l2_Time parent + BlockTime cfg" "sb_ParentHash b = l2_Hash parent"
    by blast
  have ik: "a + i \<le> k" using i(1) l k by (simp add: length_segment less_diff_conv)
  then have n: "bs_l1Blocks bs ! i = chain ! (a + i)" "bs_l1Blocks bs ! 0 = chain ! a"
    using nth_segment [OF k, of a i] nth_segment [OF k, of a 0] l by simp_all
  have "sb_EpochNum b = l1_Number (chain ! (a + i))"
    using i(2,3) n(2) chain_number_Suc [OF c, of a] ik k by (auto simp: le_Suc_eq)
  then show ?thesis
    using i n t ik a unfolding next_ok_def by (intro conjI exI [of _ "a + i"]) auto
qed

lemma window_force:
  assumes c: "consecutive chain" and w: "window_ok cfg chain" and "i < length chain" "k < length chain"
    and f: "\<not> l1_Number (chain ! k) < l1_Number (chain ! i) + SeqWindowSize cfg"
  shows "Suc (Suc i) \<le> k"
proof -
  have "unat (l1_Number (chain ! i) + SeqWindowSize cfg) = unat (l1_Number (chain ! i)) + unat (SeqWindowSize cfg)"
    using w assms(3) by (simp add: window_ok_def unat_word_ariths)
  moreover have "2 \<le> unat (SeqWindowSize cfg)"
    using w by (simp add: window_ok_def word_le_nat_alt)
  ultimately show ?thesis
    using f c assms(3,4) by (simp add: not_less word_le_nat_alt consecutive_def)
qed

lemma empty_next_ok:
  assumes c: "consecutive chain" and s: "stage_at chain bs a k" and h: "head_ok chain parent m"
    and b: "buffered cfg chain parent m a k" and a: "a = m \<or> a = Suc m" and ak: "a \<le> k"
    and w: "window_ok cfg chain" and t: "l2_Time parent \<le> l2_Time parent + BlockTime cfg"
    and d: "deriveNextEmptyBatch cfg ood parent bs = (r, bs')"
  shows "(\<exists>e. r = Inl e \<and> e = IoEOF \<and> (\<exists>a'. stage_at chain bs' a' k \<and> buffered cfg chain parent m a' k)) \<or>
         (\<exists>sb. r = Inr sb \<and> bs' = bs \<and> next_ok cfg chain parent m a k sb)"
proof -
  have k: "k < length chain" and l: "bs_l1Blocks bs = chain ! a # segment chain (Suc a) k"
    and o: "bs_origin bs = chain ! k"
    using s ak by (simp_all add: stage_at_def segment_Cons)
  have m: "m < length chain" "bid_Number (l2_L1Origin parent) = l1_Number (chain ! m)"
    "l1_Time (chain ! m) \<le> l2_Time parent"
    using h by (simp_all add: head_ok_def)
  have first: "l1_Number (chain ! a) = bid_Number (l2_L1Origin parent) + 1 \<longleftrightarrow> a = Suc m"
    using a chain_number_Suc [OF c, of m] ak k m by auto
  consider (eof) "r = Inl IoEOF" "bs' = bs" | (gen) sb where "r = Inr sb" "bs' = bs"
      "sb = \<lparr>sb_ParentHash = l2_Hash parent, sb_EpochNum = l1_Number (chain ! a),
             sb_EpochHash = l1_Hash (chain ! a), sb_Timestamp = l2_Time parent + BlockTime cfg,
             sb_Transactions = []\<rparr>"
    | (adv) "r = Inl IoEOF" "bs' = bs\<lparr>bs_l1Blocks := segment chain (Suc a) k\<rparr>" "a \<noteq> Suc m"
      "segment chain (Suc a) k \<noteq> []"
      "l1_Time (hd (segment chain (Suc a) k)) \<le> l2_Time parent + BlockTime cfg"
      "\<not> l1_Number (chain ! k) < l1_Number (chain ! a) + SeqWindowSize cfg"
    using d unfolding deriveNextEmptyBatch_def l o
    by (auto simp: Let_def not_less not_le less_imp_le first split: if_splits list.splits)
  then show ?thesis
  proof cases
    case eof
    with s b show ?thesis by blast
  next
    case gen
    have "l1_Time (chain ! a) \<le> l2_Time parent + BlockTime cfg"
      using a m(3) t b ak by (auto simp: buffered_def)
    with gen a ak show ?thesis by (auto simp: next_ok_def intro!: exI [of _ a])
  next
    case adv
    with a have a: "a = m" by simp
    have "Suc a \<le> k" using adv(4) k by (simp add: segment_Nil_iff)
    moreover have "Suc (Suc a) \<le> k" using window_force [OF c w _ k, of a] adv(6) ak k by simp
    ultimately have "stage_at chain bs' (Suc a) k \<and> buffered cfg chain parent m (Suc a) k"
      using adv s a hd_segment [OF k, of "Suc a"] by (auto simp: stage_at_def buffered_def)
    with adv show ?thesis by blast
  qed
qed


lemma checkSpanBatchPrefix_returns:
  assumes "sp_Batches b \<noteq> []" and "BlockTime cfg \<noteq> 0"
  shows "checkSpanBatchPrefix cfg l1Blocks head b incl f \<noteq> None"
proof
  assume "checkSpanBatchPrefix cfg l1Blocks head b incl f = None"
  with assms show False
    by (cases "sp_Batches b"; cases l1Blocks)
      (auto simp: checkSpanBatchPrefix_def Let_def GetStartEpochNum_def GetTimestamp_def GetLastTimestamp_def
        GetLastEpochNum_def split: if_splits option.splits)
qed

lemma GetSingularBatches_loop_times:
  "GetSingularBatches_loop l1Origins head i es = Inr sbs \<Longrightarrow>
     map sb_Timestamp sbs = map el_Timestamp (filter (\<lambda>e. l2_Time head < el_Timestamp e) es)"
  by (induction es arbitrary: i sbs) (auto simp: not_le split: if_splits option.splits sum.splits)

lemma accepted_prefix_nonempty:
  assumes pre: "checkSpanBatchPrefix cfg l1Blocks head b incl f = Some (BatchAccept, p)"
    and g: "GetSingularBatches b l1Blocks' head = Inr sbs"
    and t: "l2_Time head < l2_Time head + BlockTime cfg"
  shows "sbs \<noteq> []"
proof -
  have "l2_Time head < el_Timestamp (last (sp_Batches b)) \<and> sp_Batches b \<noteq> []"
    by (rule checkSpanBatchPrefix_Accept [OF pre]) (use t in auto)
  then have "last (sp_Batches b) \<in> set (filter (\<lambda>e. l2_Time head < el_Timestamp e) (sp_Batches b))"
    by simp
  then have "filter (\<lambda>e. l2_Time head < el_Timestamp e) (sp_Batches b) \<noteq> []" by fastforce
  then show ?thesis
    using GetSingularBatches_loop_times [OF g [unfolded GetSingularBatches_def]] by auto
qed

section \<open>The contract with the previous stage\<close>

text \<open>Reading and flushing do not move the origin of the previous stage, and span batches are not
  empty.\<close>

locale batch_source =
  fixes prev :: "'p NextBatchProvider"
  assumes origin_NextBatch: "prev_NextBatch prev p = (r, p') \<Longrightarrow> prev_Origin prev p' = prev_Origin prev p"
    and origin_FlushChannel: "prev_Origin prev (prev_FlushChannel prev p) = prev_Origin prev p"
    and span_nonempty: "prev_NextBatch prev p = (Inr (Span b), p') \<Longrightarrow> sp_Batches b \<noteq> []"
begin

lemma candidate_frame:
  assumes "nextSingularBatchCandidate cfg prev l2 parent (bs, p) = (r, bs', p')"
  shows "bs_origin bs' = bs_origin bs \<and> bs_l1Blocks bs' = bs_l1Blocks bs \<and>
    prev_Origin prev p' = prev_Origin prev p"
  using assms origin_FlushChannel
  by (auto simp: nextSingularBatchCandidate_def nextFromSpanBatch_def popNextBatch_def bst_FlushChannel_def
      dest!: origin_NextBatch
      split: prod.splits sum.splits option.splits list.splits if_splits Batch.splits BatchValidity.splits)

lemma candidate_error:
  assumes n: "nextSingularBatchCandidate cfg prev l2 parent (bs, p) = (Inl e, bs', p')"
    and t: "l2_Time parent < l2_Time parent + BlockTime cfg" and h: "IsHolocene cfg (l1_Time (bs_origin bs))"
  shows "e = NotEnoughData \<or> (\<exists>p1. prev_NextBatch prev p = (Inl e, p1))"
proof (cases "nextFromSpanBatch cfg parent bs")
  case (Pair r0 bs0)
  have o: "bs_origin bs0 = bs_origin bs"
    using Pair by (auto simp: nextFromSpanBatch_def popNextBatch_def split: list.splits if_splits)
  have "r0 \<noteq> Inl x" for x
    using Pair by (auto simp: nextFromSpanBatch_def popNextBatch_def split: list.splits if_splits)
  with n Pair have r0: "r0 = Inr None"
    by (cases r0) (auto simp: nextSingularBatchCandidate_def split: option.splits)
  have bt: "BlockTime cfg \<noteq> 0" using t by auto
  show ?thesis
  proof (cases "prev_NextBatch prev p")
    case P: (Pair x p1)
    show ?thesis
    proof (cases "\<exists>sb. x = Inr (Span sb)")
      case False
      then show ?thesis
        using n Pair r0 P
        by (auto simp: nextSingularBatchCandidate_def split: sum.splits Batch.splits)
    next
      case True
      then obtain sb where sb: "x = Inr (Span sb)" by blast
      obtain v q where v: "checkSpanBatchPrefix cfg (bs_l1Blocks bs0) parent sb (bs_origin bs0) l2 = Some (v, q)"
        using checkSpanBatchPrefix_returns [OF span_nonempty bt] P sb by fastforce
      have nf: "v \<noteq> BatchFuture" using checkSpanBatchPrefix_time(1) v h o by auto
      show ?thesis
      proof (cases "v = BatchAccept")
        case False
        with nf n Pair r0 P sb v show ?thesis
          by (cases v) (auto simp: nextSingularBatchCandidate_def bst_FlushChannel_def)
      next
        case True
        then have "GetSingularBatches sb (bs_l1Blocks bs0) parent = Inr sbs \<Longrightarrow> sbs \<noteq> []" for sbs
          using accepted_prefix_nonempty [OF _ _ t] v by blast
        with True n Pair r0 P sb v show ?thesis
          by (auto simp: nextSingularBatchCandidate_def bst_FlushChannel_def popNextBatch_def
              split: sum.splits list.splits)
      qed
    qed
  qed
qed

end


text \<open>Past the origin of the safe head, the checks on the buffered blocks pass.\<close>

lemma buffer_checks_pass:
  assumes c: "consecutive chain" and h: "head_ok chain parent m" and s: "stage_at chain bs a k"
    and b: "buffered cfg chain parent m a k" and a: "a = m \<or> a = Suc m" and mk: "m < k"
  shows "\<not> length (bs_l1Blocks bs) < 2" and "a \<le> k"
    and "\<not> (l2_L1Origin parent \<noteq> L1BlockRef_ID (hd (bs_l1Blocks bs)) \<and>
             bid_Number (l2_L1Origin parent) \<noteq> l1_Number (hd (bs_l1Blocks bs)) - 1)"
proof -
  have k: "k < length chain" and l: "bs_l1Blocks bs = segment chain a k" using s by (simp_all add: stage_at_def)
  have o: "l2_L1Origin parent = L1BlockRef_ID (chain ! m)" using h by (simp add: head_ok_def)
  show ak: "a \<le> k" using b mk a by (auto simp: buffered_def)
  show "\<not> length (bs_l1Blocks bs) < 2"
    using b a mk k by (auto simp: l length_segment buffered_def)
  show "\<not> (l2_L1Origin parent \<noteq> L1BlockRef_ID (hd (bs_l1Blocks bs)) \<and>
      bid_Number (l2_L1Origin parent) \<noteq> l1_Number (hd (bs_l1Blocks bs)) - 1)"
    using a chain_number_Suc [OF c, of m] k mk by (auto simp: l hd_segment [OF k ak] o)
qed

text \<open>What a call leaves behind, with its result.\<close>

definition call_ok ::
  "Config \<Rightarrow> L1BlockRef list \<Rightarrow> L2BlockRef \<Rightarrow> nat \<Rightarrow> nat \<Rightarrow> (derive_error + SingularBatch \<times> bool) \<Rightarrow>
     BatchStage \<Rightarrow> bool" where
  "call_ok cfg chain parent m k r bs \<longleftrightarrow>
     (\<exists>a. stage_at chain bs a k \<and>
        (case r of Inl e \<Rightarrow> buffered cfg chain parent m a k
         | Inr x \<Rightarrow> next_ok cfg chain parent m a k (fst x)))"

lemma call_okI:
  "stage_at chain bs a k \<Longrightarrow> buffered cfg chain parent m a k \<Longrightarrow> call_ok cfg chain parent m k (Inl e) bs"
  "stage_at chain bs a k \<Longrightarrow> next_ok cfg chain parent m a k b \<Longrightarrow> call_ok cfg chain parent m k (Inr (b, l)) bs"
  by (auto simp: call_ok_def)

context batch_source
begin

text \<open>The rest of a call after the checks on the buffered blocks.\<close>

lemma finish_call:
  assumes c: "consecutive chain" and h: "head_ok chain parent m" and s: "stage_at chain bs a k"
    and b: "buffered cfg chain parent m a k" and a: "a = m \<or> a = Suc m" "a \<le> k"
    and w: "window_ok cfg chain" and t: "l2_Time parent < l2_Time parent + BlockTime cfg"
    and o: "prev_Origin prev p = chain ! k"
    and n: "(case nextSingularBatchCandidate cfg prev l2 parent (bs, p) of
        (Inl err, bs, p) \<Rightarrow>
          if err = IoEOF
          then (case deriveNextEmptyBatch cfg True parent bs of
                  (Inl e, bs) \<Rightarrow> (Inl e, bs, p)
                | (Inr b, bs) \<Rightarrow> (Inr (b, True), bs, p))
          else (Inl err, bs, p)
      | (Inr batch, bs, p) \<Rightarrow>
         (case checkSingularBatch cfg (bs_l1Blocks bs) parent batch (bs_origin bs) of
            BatchAccept \<Rightarrow> (Inr (batch, True), bs, p)
          | BatchPast \<Rightarrow> (Inl NotEnoughData, bs, p)
          | BatchDrop \<Rightarrow> (Inl NotEnoughData, bst_FlushChannel prev (bs, p))
          | BatchUndecided \<Rightarrow> (Inl NotEnoughData, bs, p)
          | BatchFuture \<Rightarrow> (Inl (NewCriticalError ''impossible batch validity''), bs, p))) = (r, bs', p')"
  shows "prev_Origin prev p' = chain ! k \<and> call_ok cfg chain parent m k r bs' \<and>
    (\<forall>e. r = Inl e \<longrightarrow> IsHolocene cfg (l1_Time (chain ! k)) \<longrightarrow>
       e = IoEOF \<or> e = NotEnoughData \<or> (\<exists>p1. prev_NextBatch prev p = (Inl e, p1)))"
proof -
  obtain rc bc pc where cand: "nextSingularBatchCandidate cfg prev l2 parent (bs, p) = (rc, bc, pc)"
    by (metis surj_pair)
  have so: "bs_origin bs = chain ! k" using s by (simp add: stage_at_def)
  from candidate_frame [OF cand] have
    fr: "bs_origin bc = chain ! k" "bs_l1Blocks bc = bs_l1Blocks bs" "prev_Origin prev pc = chain ! k"
    using so o by simp_all
  then have sc: "stage_at chain bc a k" using s by (simp add: stage_at_def)
  show ?thesis
  proof (cases rc)
    case (Inl err)
    show ?thesis
    proof (cases "err = IoEOF")
      case True
      obtain re be where e: "deriveNextEmptyBatch cfg True parent bc = (re, be)" by force
      from empty_next_ok [OF c sc h b a w less_imp_le [OF t] e] show ?thesis
        using n cand Inl True e fr(3) sc by (auto intro: call_okI)
    next
      case False
      with n cand Inl fr sc b candidate_error [OF cand [unfolded Inl] t] so show ?thesis
        by (auto intro: call_okI)
    qed
  next
    case (Inr batch)
    show ?thesis
    proof (cases "checkSingularBatch cfg (bs_l1Blocks bc) parent batch (bs_origin bc)")
      case BatchAccept
      from accept_next_ok [OF c sc a(1) this] n cand Inr BatchAccept fr(3) sc show ?thesis
        by (auto intro: call_okI)
    next
      case BatchFuture
      with n cand Inr fr sc b checkSingularBatch_time(1) [OF BatchFuture] show ?thesis
        by (auto intro: call_okI)
    qed (use n cand Inr fr sc b origin_FlushChannel in
        \<open>auto simp: bst_FlushChannel_def stage_at_def intro!: call_okI(1) [of _ _ a]\<close>)
  qed
qed

lemma NextBatch_step:
  assumes c: "consecutive chain" and h: "head_ok chain parent m" and s: "stage_at chain bs a k'"
    and b: "buffered cfg chain parent m a k'" and k: "k' \<le> k" "k \<le> Suc k'" "k < length chain"
    and w: "window_ok cfg chain" and t: "l2_Time parent < l2_Time parent + BlockTime cfg"
    and o: "prev_Origin prev p = chain ! k"
    and n: "bst_NextBatch cfg prev l2 parent (bs, p) = (r, bs', p')"
  shows "prev_Origin prev p' = chain ! k \<and> call_ok cfg chain parent m k r bs' \<and>
    (\<forall>e. r = Inl e \<longrightarrow> IsHolocene cfg (l1_Time (chain ! k)) \<longrightarrow>
       e = IoEOF \<or> e = NotEnoughData \<or> (\<exists>p1. prev_NextBatch prev p = (Inl e, p1)))"
proof -
  let ?u = "updateOrigins (chain ! k) parent bs"
  obtain a1 where s1: "stage_at chain ?u a1 k" and b1: "buffered cfg chain parent m a1 k"
    and a1: "m \<le> k \<longrightarrow> a1 = m \<or> a1 = Suc m"
    by (rule updateOrigins_at [OF c h s b k])
  have m: "m < length chain" "bid_Number (l2_L1Origin parent) = l1_Number (chain ! m)"
    using h by (simp_all add: head_ok_def)
  have uo: "bs_origin ?u = chain ! k" using s1 by (simp add: stage_at_def)
  have drain: "(originBehind (chain ! k) parent \<or> bid_Number (l2_L1Origin parent) = l1_Number (bs_origin ?u)) \<longleftrightarrow> k \<le> m"
    using chain_number(1) [OF c k(3) m(1)] chain_number(2) [OF c m(1) k(3)] m(2) uo
    by (auto simp: originBehind_def)
  show ?thesis
  proof (cases "k \<le> m")
    case True
    obtain x p1 where p1: "prev_NextBatch prev p = (x, p1)" by force
    with True n have "(case x of Inl err \<Rightarrow> Inl err | Inr _ \<Rightarrow> Inl NotEnoughData) = r" "bs' = ?u" "p' = p1"
      unfolding bst_NextBatch_def by (auto simp: o Let_def drain split: sum.splits)
    with p1 s1 b1 origin_NextBatch [OF p1] o show ?thesis
      by (auto split: sum.splits intro: call_okI)
  next
    case False
    then have a1: "a1 = m \<or> a1 = Suc m" and mk: "m < k" using a1 by auto
    note pass = buffer_checks_pass [OF c h s1 b1 a1 mk]
    show ?thesis
      by (rule finish_call [OF c h s1 b1 a1 pass(2) w t o])
        (use n False pass in \<open>simp add: bst_NextBatch_def o Let_def drain\<close>)
  qed
qed

end


section \<open>Runs of the batch stage\<close>

text \<open>A call either returns a batch, from which the next block is built, or an error; between calls
  the pipeline moves its origin to the next block of the L1 chain, once the stage has seen the
  current one. The sum of the time of the head and the block time does not wrap around.\<close>

inductive stage_step ::
  "Config \<Rightarrow> 'p NextBatchProvider \<Rightarrow> L1BlockRef list \<Rightarrow> BatchStage \<times> 'p \<times> L2BlockRef \<Rightarrow>
     BatchStage \<times> 'p \<times> L2BlockRef \<Rightarrow> bool" for cfg prev chain where
  call_batch: "bst_NextBatch cfg prev l2 parent (bs, p) = (Inr (b, l), bs', p') \<Longrightarrow>
    l2_Time parent < l2_Time parent + BlockTime cfg \<Longrightarrow>
    stage_step cfg prev chain (bs, p, parent) (bs', p', block_of H parent b)"
| call_error: "bst_NextBatch cfg prev l2 parent (bs, p) = (Inl e, bs', p') \<Longrightarrow>
    l2_Time parent < l2_Time parent + BlockTime cfg \<Longrightarrow>
    stage_step cfg prev chain (bs, p, parent) (bs', p', parent)"
| advance: "prev_Origin prev p = chain ! k \<Longrightarrow> bs_origin bs = chain ! k \<Longrightarrow> Suc k < length chain \<Longrightarrow>
    prev_Origin prev p' = chain ! Suc k \<Longrightarrow>
    stage_step cfg prev chain (bs, p, parent) (bs, p', parent)"

text \<open>After a reset to a block of the chain at or before the origin of the safe head.\<close>

definition stage_start :: "'p NextBatchProvider \<Rightarrow> L1BlockRef list \<Rightarrow> BatchStage \<times> 'p \<times> L2BlockRef \<Rightarrow> bool" where
  "stage_start prev chain = (\<lambda>(bs, p, parent).
     \<exists>j m bs0. bst_Reset (chain ! j) bs0 = (Some IoEOF, bs) \<and> j \<le> m \<and> head_ok chain parent m \<and>
       prev_Origin prev p = chain ! j)"

definition stage_reachable ::
  "Config \<Rightarrow> 'p NextBatchProvider \<Rightarrow> L1BlockRef list \<Rightarrow> BatchStage \<times> 'p \<times> L2BlockRef \<Rightarrow> bool" where
  "stage_reachable cfg prev chain s \<longleftrightarrow> (\<exists>s0. stage_start prev chain s0 \<and> (stage_step cfg prev chain)\<^sup>*\<^sup>* s0 s)"

definition stage_inv :: "Config \<Rightarrow> 'p NextBatchProvider \<Rightarrow> L1BlockRef list \<Rightarrow> BatchStage \<times> 'p \<times> L2BlockRef \<Rightarrow> bool" where
  "stage_inv cfg prev chain = (\<lambda>(bs, p, parent).
     \<exists>m a k' k. head_ok chain parent m \<and> stage_at chain bs a k' \<and> buffered cfg chain parent m a k' \<and>
       k' \<le> k \<and> k \<le> Suc k' \<and> k < length chain \<and> prev_Origin prev p = chain ! k)"

lemma stage_invI:
  assumes "head_ok chain parent m" "stage_at chain bs a k'" "buffered cfg chain parent m a k'"
    "k' \<le> k" "k \<le> Suc k'" "k < length chain" "prev_Origin prev p = chain ! k"
  shows "stage_inv cfg prev chain (bs, p, parent)"
  unfolding stage_inv_def using assms by blast

lemma stage_invE:
  assumes "stage_inv cfg prev chain (bs, p, parent)"
  obtains m a k' k where "head_ok chain parent m" "stage_at chain bs a k'" "buffered cfg chain parent m a k'"
    "k' \<le> k" "k \<le> Suc k'" "k < length chain" "prev_Origin prev p = chain ! k"
  using assms unfolding stage_inv_def by blast

lemma stage_start_inv:
  assumes "stage_start prev chain s" shows "stage_inv cfg prev chain s"
proof -
  obtain bs p parent j m bs0 where s: "s = (bs, p, parent)" "bst_Reset (chain ! j) bs0 = (Some IoEOF, bs)"
    "j \<le> m" "head_ok chain parent m" "prev_Origin prev p = chain ! j"
    using assms by (cases s) (auto simp: stage_start_def)
  have j: "j < length chain" using s(3,4) by (simp add: head_ok_def)
  then have "segment chain j j = [chain ! j]" by (simp add: segment_Cons) (simp add: segment_def)
  with s j have "stage_at chain bs j j" by (auto simp: stage_at_def bst_Reset_def reset_base_def)
  moreover have "buffered cfg chain parent m j j" using s(3) by (simp add: buffered_def)
  ultimately show ?thesis unfolding s(1) using s j by (intro stage_invI [where a = j and k' = j and k = j and m = m]) simp_all
qed

lemma next_ok_head:
  assumes "next_ok cfg chain parent m a k b" and "k < length chain"
  obtains m' where "head_ok chain (block_of H parent b) m'" and "buffered cfg chain (block_of H parent b) m' a k"
proof -
  from assms(1) obtain m' where "a \<le> m'" "m' \<le> k" "sb_EpochHash b = l1_Hash (chain ! m')"
    "sb_EpochNum b = l1_Number (chain ! m')" "l1_Time (chain ! m') \<le> sb_Timestamp b"
    unfolding next_ok_def by blast
  then show ?thesis
    using assms(2) by (intro that [of m']) (simp_all add: head_ok_def buffered_def L1BlockRef_ID_def)
qed

context batch_source
begin

lemma stage_step_inv:
  assumes c: "consecutive chain" and w: "window_ok cfg chain"
    and s: "stage_step cfg prev chain s s'" and i: "stage_inv cfg prev chain s"
  shows "stage_inv cfg prev chain s'"
  using s i
proof (cases rule: stage_step.cases)
  case (call_batch l2 parent bs p b l bs' p' H)
  from i [unfolded call_batch(1)] obtain m a k' k where
    v: "head_ok chain parent m" "stage_at chain bs a k'" "buffered cfg chain parent m a k'"
    "k' \<le> k" "k \<le> Suc k'" "k < length chain" "prev_Origin prev p = chain ! k"
    by (rule stage_invE)
  from NextBatch_step [OF c v(1-6) w call_batch(4) v(7) call_batch(3)] obtain a' where
    n: "prev_Origin prev p' = chain ! k" "stage_at chain bs' a' k" "next_ok cfg chain parent m a' k b"
    by (auto simp: call_ok_def)
  obtain m' where "head_ok chain (block_of H parent b) m'" "buffered cfg chain (block_of H parent b) m' a' k"
    by (rule next_ok_head [OF n(3) v(6)])
  with n v(6) show ?thesis unfolding call_batch(2) by (intro stage_invI [where m = m' and a = a' and k' = k and k = k]) simp_all
next
  case (call_error l2 parent bs p e bs' p')
  from i [unfolded call_error(1)] obtain m a k' k where
    v: "head_ok chain parent m" "stage_at chain bs a k'" "buffered cfg chain parent m a k'"
    "k' \<le> k" "k \<le> Suc k'" "k < length chain" "prev_Origin prev p = chain ! k"
    by (rule stage_invE)
  from NextBatch_step [OF c v(1-6) w call_error(4) v(7) call_error(3)] obtain a' where
    "prev_Origin prev p' = chain ! k" "stage_at chain bs' a' k" "buffered cfg chain parent m a' k"
    by (auto simp: call_ok_def)
  with v show ?thesis unfolding call_error(2) by (intro stage_invI [where m = m and a = a' and k' = k and k = k]) simp_all
next
  case (advance p k bs p' parent)
  from i [unfolded advance(1)] obtain m a k' where
    v: "head_ok chain parent m" "stage_at chain bs a k'" "buffered cfg chain parent m a k'"
    by (rule stage_invE)
  have "k' = k" using v(2) advance(4,5) chain_number(3) [OF c, of k' k] by (auto simp: stage_at_def)
  with v advance show ?thesis unfolding advance(2) by (intro stage_invI [where m = m and a = a and k' = k and k = "Suc k"]) simp_all
qed

lemma stage_reachable_inv:
  assumes c: "consecutive chain" and w: "window_ok cfg chain" and "stage_reachable cfg prev chain s"
  shows "stage_inv cfg prev chain s"
proof -
  from assms(3) obtain s0 where s0: "stage_start prev chain s0" "(stage_step cfg prev chain)\<^sup>*\<^sup>* s0 s"
    by (auto simp: stage_reachable_def)
  from s0(2) show ?thesis
    by (induction) (auto intro: stage_start_inv [OF s0(1)] stage_step_inv [OF c w])
qed

end


section \<open>The loop over queued batches\<close>

lemma batchLoop_done:
  "batchLoop check rem bs = LoopDone None rem' \<longleftrightarrow>
     (\<forall>b\<in>set bs. check b = Some BatchFuture \<or> check b = Some BatchDrop) \<and>
     rem' = rem @ filter (\<lambda>b. check b = Some BatchFuture) bs"
  "batchLoop check rem bs = LoopDone (Some b) rem' \<longleftrightarrow>
     (\<exists>pre post. bs = pre @ b # post \<and> check b = Some BatchAccept \<and>
        (\<forall>x\<in>set pre. check x = Some BatchFuture \<or> check x = Some BatchDrop) \<and>
        rem' = rem @ filter (\<lambda>x. check x = Some BatchFuture) pre @ post)"
proof (induction bs arbitrary: rem)
  case (Cons c bs)
  {
    case 1
    show ?case using Cons(1) by (auto split: option.splits BatchValidity.splits)
  next
    case 2
    have split: "(\<exists>pre post. c # bs = pre @ b # post \<and> Q pre post) \<longleftrightarrow>
        c = b \<and> Q [] bs \<or> (\<exists>pre post. bs = pre @ b # post \<and> Q (c # pre) post)" for Q
      by (auto simp: Cons_eq_append_conv)
    show ?case
      unfolding split using Cons(2)
      by (cases "check c") (auto split: BatchValidity.splits)
  }
qed auto

lemma batchLoop_undecided:
  "batchLoop check rem bs = LoopUndecided rem' \<longleftrightarrow>
     (\<exists>pre b post. bs = pre @ b # post \<and> check b = Some BatchUndecided \<and>
        (\<forall>x\<in>set pre. check x = Some BatchFuture \<or> check x = Some BatchDrop) \<and>
        rem' = rem @ filter (\<lambda>x. check x = Some BatchFuture) pre @ b # post)"
proof (induction bs arbitrary: rem)
  case (Cons c bs)
  have split: "(\<exists>pre b post. c # bs = pre @ b # post \<and> Q pre b post) \<longleftrightarrow>
      Q [] c bs \<or> (\<exists>pre b post. bs = pre @ b # post \<and> Q (c # pre) b post)" for Q
    by (auto simp: Cons_eq_append_conv)
  show ?case
    unfolding split using Cons
    by (cases "check c") (auto split: BatchValidity.splits)
qed simp

section \<open>Properties\<close>

text \<open>C38: The batch queue takes the first batch that can be accepted in the order of inclusion, after
  passing only over batches that are for the future or to be dropped; it keeps the former and all
  batches after the chosen one, in order. If no batch can be chosen it keeps the batches
  for the future, and at an undecided batch it stops and keeps that one and all after it.\<close>

theorem batchLoop_first_acceptable:
  "(batchLoop check [] bs = LoopDone (Some b) rem \<longleftrightarrow>
      (\<exists>pre post. bs = pre @ b # post \<and> check b = Some BatchAccept \<and>
         set (map check pre) \<subseteq> {Some BatchFuture, Some BatchDrop} \<and>
         rem = filter (\<lambda>x. check x = Some BatchFuture) pre @ post)) \<and>
   (batchLoop check [] bs = LoopDone None rem \<longleftrightarrow>
      set (map check bs) \<subseteq> {Some BatchFuture, Some BatchDrop} \<and>
      rem = filter (\<lambda>x. check x = Some BatchFuture) bs) \<and>
   (batchLoop check [] bs = LoopUndecided rem \<longleftrightarrow>
      (\<exists>pre b post. bs = pre @ b # post \<and> check b = Some BatchUndecided \<and>
         set (map check pre) \<subseteq> {Some BatchFuture, Some BatchDrop} \<and>
         rem = filter (\<lambda>x. check x = Some BatchFuture) pre @ b # post))"
proof -
  have sub: "set (map check xs) \<subseteq> {Some BatchFuture, Some BatchDrop} \<longleftrightarrow>
      (\<forall>x\<in>set xs. check x = Some BatchFuture \<or> check x = Some BatchDrop)" for xs by auto
  show ?thesis
    unfolding sub batchLoop_done batchLoop_undecided by simp
qed

text \<open>A batch that leaves out an epoch can be accepted. When the window of the epoch \<open>m\<close> of the safe head
  runs out and its blocks are complete, the stage moves its buffer to epoch \<open>m + 1\<close>. In the next L1 block
  an empty batch with epoch \<open>m + 2\<close> is then accepted on top of the safe head, although no block with
  epoch \<open>m + 1\<close> was built.\<close>

theorem epoch_skipped:
  assumes "consecutive chain" and "stage_at chain bs m k" and "head_ok chain parent m"
    and "l1_Number (chain ! m) + SeqWindowSize cfg = l1_Number (chain ! k)" and "window_ok cfg chain"
    and "Suc k < length chain"
    and "l1_Time (chain ! Suc m) \<le> l2_Time parent + BlockTime cfg"
    and "l1_Time (chain ! Suc (Suc m)) \<le> l2_Time parent + BlockTime cfg"
  shows "\<exists>bs'. deriveNextEmptyBatch cfg True parent bs = (Inl IoEOF, bs') \<and>
     checkSingularBatch cfg (bs_l1Blocks (updateOrigins (chain ! Suc k) parent bs')) parent
       \<lparr>sb_ParentHash = l2_Hash parent, sb_EpochNum = bid_Number (l2_L1Origin parent) + 2,
        sb_EpochHash = l1_Hash (chain ! Suc (Suc m)), sb_Timestamp = l2_Time parent + BlockTime cfg,
        sb_Transactions = []\<rparr> (chain ! Suc k) = BatchAccept"
proof -
  have k: "k < length chain" "m < length chain" using assms(3,6) by (simp_all add: head_ok_def)
  have mk: "Suc (Suc m) \<le> k"
    using window_force [OF assms(1,5) k(2,1)] assms(4) by simp
  have l: "bs_l1Blocks bs = chain ! m # chain ! Suc m # segment chain (Suc (Suc m)) k" "bs_origin bs = chain ! k"
    using assms(2) mk k by (simp_all add: stage_at_def segment_Cons)
  have pn: "bid_Number (l2_L1Origin parent) = l1_Number (chain ! m)" using assms(3) by (simp add: head_ok_def)
  have n1: "l1_Number (chain ! Suc m) = l1_Number (chain ! m) + 1"
    "l1_Number (chain ! Suc (Suc m)) = l1_Number (chain ! m) + 2"
    using chain_number_Suc [OF assms(1), of m] chain_number_Suc [OF assms(1), of "Suc m"] mk k by simp_all
  let ?bs = "bs\<lparr>bs_l1Blocks := chain ! Suc m # segment chain (Suc (Suc m)) k\<rparr>"
  have d: "deriveNextEmptyBatch cfg True parent bs = (Inl IoEOF, ?bs)"
    using assms(4,7) by (simp add: deriveNextEmptyBatch_def l Let_def pn not_less)
  let ?l = "bs_l1Blocks (updateOrigins (chain ! Suc k) parent ?bs)"
  have ne: "chain ! k \<noteq> chain ! Suc k" using chain_number(3) [OF assms(1) k(1) assms(6)] by simp
  have "\<not> l1_Number (chain ! m) > l1_Number (chain ! Suc m)" "\<not> l1_Number (chain ! Suc k) < l1_Number (chain ! m)"
    using chain_number(1) [OF assms(1), of "Suc m" m] chain_number(1) [OF assms(1), of "Suc k" m] mk k assms(6)
    by simp_all
  then have ul: "?l = segment chain (Suc m) (Suc k)"
    using ne mk k assms(6) segment_snoc [of k chain "Suc m"]
    by (simp add: updateOrigins_def Let_def originBehind_def pn l(2) segment_Cons)
  have nth: "?l ! 0 = chain ! Suc m" "?l ! 1 = chain ! Suc (Suc m)" "length ?l = Suc (Suc k) - Suc m"
    unfolding ul using nth_segment [of "Suc k" chain "Suc m" 0] nth_segment [of "Suc k" chain "Suc m" 1]
      length_segment [of "Suc k" chain] mk assms(6) by simp_all
  have w: "l1_Number (chain ! Suc k) \<le> l1_Number (chain ! Suc (Suc m)) + SeqWindowSize cfg"
  proof -
    have u: "unat (l1_Number (chain ! m) + SeqWindowSize cfg) = unat (l1_Number (chain ! m)) + unat (SeqWindowSize cfg)"
      "unat (l1_Number (chain ! Suc (Suc m)) + SeqWindowSize cfg)
       = unat (l1_Number (chain ! Suc (Suc m))) + unat (SeqWindowSize cfg)"
      using assms(5) mk k by (simp_all add: window_ok_def unat_word_ariths)
    show ?thesis
      unfolding word_le_nat_alt using u consecutive_index(2) [OF assms(1), of m] consecutive_index(2) [OF assms(1), of k]
        consecutive_index(2) [OF assms(1), of "Suc k"] consecutive_index(2) [OF assms(1), of "Suc (Suc m)"]
        assms(4,6) mk k by simp
  qed
  show ?thesis
    unfolding d checkSingularBatch_Accept
    using nth n1 pn w assms(8) mk chain_number(1) [OF assms(1), of "Suc (Suc m)" "Suc m"] k
    by (auto simp: txs_ok_def drift_ok_def not_less intro!: exI [of _ 1])
qed


definition skip_chain :: "L1BlockRef list" where
  "skip_chain = [\<lparr>l1_Hash = 1000, l1_Number = 100, l1_ParentHash = 999, l1_Time = 2100\<rparr>,
     \<lparr>l1_Hash = 1001, l1_Number = 101, l1_ParentHash = 1000, l1_Time = 2102\<rparr>,
     \<lparr>l1_Hash = 1002, l1_Number = 102, l1_ParentHash = 1001, l1_Time = 2104\<rparr>,
     \<lparr>l1_Hash = 1003, l1_Number = 103, l1_ParentHash = 1002, l1_Time = 2106\<rparr>]"

lemma skip_chain_nth [simp]:
  "length skip_chain = 4" "skip_chain ! 0 = \<lparr>l1_Hash = 1000, l1_Number = 100, l1_ParentHash = 999, l1_Time = 2100\<rparr>"
  "skip_chain ! Suc 0 = \<lparr>l1_Hash = 1001, l1_Number = 101, l1_ParentHash = 1000, l1_Time = 2102\<rparr>"
  "skip_chain ! 2 = \<lparr>l1_Hash = 1002, l1_Number = 102, l1_ParentHash = 1001, l1_Time = 2104\<rparr>"
  "skip_chain ! 3 = \<lparr>l1_Hash = 1003, l1_Number = 103, l1_ParentHash = 1002, l1_Time = 2106\<rparr>"
  by (simp_all add: skip_chain_def)

lemma skip_chain_consecutive: "consecutive skip_chain"
proof -
  have "i < 4 \<Longrightarrow> i = 0 \<or> i = Suc 0 \<or> i = 2 \<or> i = 3" for i :: nat by linarith
  then show ?thesis unfolding consecutive_def by fastforce
qed

theorem epoch_skipped_witness:
  "\<exists>bs'. deriveNextEmptyBatch (sample_aligned\<lparr>SeqWindowSize := 2\<rparr>) True sample_head
       \<lparr>bs_origin = skip_chain ! 2, bs_l1Blocks = segment skip_chain 0 2, bs_nextSpan = []\<rparr> = (Inl IoEOF, bs') \<and>
     checkSingularBatch (sample_aligned\<lparr>SeqWindowSize := 2\<rparr>)
       (bs_l1Blocks (updateOrigins (skip_chain ! 3) sample_head bs')) sample_head
       \<lparr>sb_ParentHash = 7, sb_EpochNum = 102, sb_EpochHash = 1002, sb_Timestamp = 2112, sb_Transactions = []\<rparr>
       (skip_chain ! 3) = BatchAccept"
proof -
  let ?bs = "\<lparr>bs_origin = skip_chain ! 2, bs_l1Blocks = segment skip_chain 0 2, bs_nextSpan = []\<rparr>"
  have s: "stage_at skip_chain ?bs 0 2" by (simp add: stage_at_def)
  have h: "head_ok skip_chain sample_head 0"
    by (simp add: head_ok_def sample_head_def L1BlockRef_ID_def)
  have w: "window_ok (sample_aligned\<lparr>SeqWindowSize := 2\<rparr>) skip_chain"
    by (auto simp: window_ok_def skip_chain_def)
  show ?thesis
    using epoch_skipped [OF skip_chain_consecutive s h _ w]
    by (simp add: sample_head_def numeral_2_eq_2 [symmetric] numeral_3_eq_3 [symmetric])
qed

end
