(* ===== verification/Span_Batch_Txs.thy ===== *)
theory Span_Batch_Txs
  imports Batches
begin

unbundle bit_operations_syntax

text \<open>
  The transactions of a span batch (\<open>op-node/rollup/derive/span_batch_txs.go\<close>, \<open>span_batch_tx.go\<close>,
  \<open>span_batch_util.go\<close>): bit lists and variable-length integers, the columns in which the transactions are
  stored, their binary format, the split of transactions into columns and the way back. The
  encodings of package \<open>rlp\<close> and of \<open>types.Transaction\<close> are parameters.
\<close>

section \<open>Definitions\<close>

subsection \<open>Variable-length integers\<close>

text \<open>\<open>binary.PutUvarint\<close> and \<open>binary.ReadUvarint\<close> of the Go library.\<close>

function PutUvarint :: "u64 \<Rightarrow> byte list" where
  "PutUvarint x = (if x \<ge> 128 then (ucast x OR 128) # PutUvarint (drop_bit 7 x) else [ucast x])"
  by auto

termination
proof (relation "measure unat")
  fix x :: u64
  assume "128 \<le> x"
  then have "128 \<le> unat x" by (simp add: word_le_nat_alt)
  then show "(drop_bit 7 x, x) \<in> measure unat"
    by (simp add: drop_bit_eq_div unat_div)
qed simp

datatype varint_error = VarintIo io_error | VarintOverflow

fun ReadUvarint_loop :: "nat \<Rightarrow> nat \<Rightarrow> u64 \<Rightarrow> byte list \<Rightarrow> varint_error + u64 \<times> byte list" where
  "ReadUvarint_loop 0 i x bs = Inl VarintOverflow"
| "ReadUvarint_loop (Suc n) i x bs =
     (case bs of
        [] \<Rightarrow> Inl (VarintIo (if i > 0 then ErrUnexpectedEOF else EOF))
      | b # r \<Rightarrow>
          if b < 128
          then if n = 0 \<and> b > 1 then Inl VarintOverflow
               else Inr (x OR push_bit (7 * i) (ucast b), r)
          else ReadUvarint_loop n (Suc i) (x OR push_bit (7 * i) (ucast (b AND 127))) r)"

definition MaxVarintLen64 :: nat where "MaxVarintLen64 = 10"

definition ReadUvarint :: "byte list \<Rightarrow> varint_error + u64 \<times> byte list" where
  "ReadUvarint bs = ReadUvarint_loop MaxVarintLen64 0 0 bs"

subsection \<open>Bit lists\<close>

datatype span_error =
    ErrTooBigSpanBatchSize | ErrEmptySpanBatch | ErrTypedTxTooShort | ErrTxTypeNotSupported
  | ReadErr string io_error | VarintErr string varint_error | SpanErr string | SpanPanic string

definition MaxSpanBatchElementCount :: u64 where "MaxSpanBatchElementCount = 10000000"

text \<open>\<open>big.Int.BitLen\<close> and \<open>big.Int.SetBit\<close> on numbers that are not negative.\<close>

fun BitLen :: "nat \<Rightarrow> nat" where
  "BitLen n = (if n = 0 then 0 else Suc (BitLen (n div 2)))"

definition SetBit :: "nat \<Rightarrow> nat \<Rightarrow> bool \<Rightarrow> nat" where
  "SetBit x i b = (if b then set_bit i x else unset_bit i x)"

definition bit_bytes :: "u64 \<Rightarrow> u64" where
  "bit_bytes bitLength =
     (let bufLen = bitLength div 8 in if bitLength mod 8 \<noteq> 0 then bufLen + 1 else bufLen)"

definition decodeSpanBatchBits :: "u64 \<Rightarrow> byte list \<Rightarrow> span_error + nat \<times> byte list" where
  "decodeSpanBatchBits bitLength r =
     (case ReadFull (unat (bit_bytes bitLength)) r of
        Inl e \<Rightarrow> Inl (ReadErr ''failed to read bits'' e)
      | Inr (buf, r') \<Rightarrow>
          let out = be_decode buf in
          if (word_of_nat (BitLen out) :: u64) > bitLength then Inl (SpanErr ''bitfield has too many bits'')
          else Inr (out, r'))"

text \<open>A nil \<open>big.Int\<close> is \<open>None\<close>; its \<open>BitLen\<close> panics.\<close>

definition encodeSpanBatchBits :: "u64 \<Rightarrow> nat option \<Rightarrow> span_error + byte list" where
  "encodeSpanBatchBits bitLength bits =
     (case bits of
        None \<Rightarrow> Inl (SpanPanic ''nil pointer dereference'')
      | Some n \<Rightarrow>
          if (word_of_nat (BitLen n) :: u64) > bitLength
          then Inl (SpanErr ''bitfield is larger than bitLength'')
          else Inr (be_encode (unat (bit_bytes bitLength)) n))"

subsection \<open>Transactions\<close>

definition LegacyTxType :: byte where "LegacyTxType = 0"
definition AccessListTxType :: byte where "AccessListTxType = 1"
definition DynamicFeeTxType :: byte where "DynamicFeeTxType = 2"

lemmas tx_types [simp] = LegacyTxType_def AccessListTxType_def DynamicFeeTxType_def SetCodeTxType_def

text \<open>The transaction types that package \<open>types\<close> decodes, with the fields the code uses. Types of access
  lists and authorizations are left open. A transaction of any other type is given by its type.\<close>

datatype ('al, 'au) TxData =
    LegacyTx (txNonce: u64) nat (txGas: u64) (txTo: "address option") nat "byte list" (sigV: nat) (sigR: nat) (sigS: nat)
  | AccessListTx nat (txNonce: u64) nat (txGas: u64) (txTo: "address option") nat "byte list" 'al
      (sigV: nat) (sigR: nat) (sigS: nat)
  | DynamicFeeTx nat (txNonce: u64) nat nat (txGas: u64) (txTo: "address option") nat "byte list" 'al
      (sigV: nat) (sigR: nat) (sigS: nat)
  | SetCodeTx hash (txNonce: u64) hash hash (txGas: u64) address hash "byte list" 'al 'au hash hash hash
  | OtherTx byte nat

datatype ('al, 'au) spanBatchTxData =
    spanBatchLegacyTxData nat nat "byte list"
  | spanBatchAccessListTxData nat nat "byte list" 'al
  | spanBatchDynamicFeeTxData nat nat nat "byte list" 'al
  | spanBatchSetCodeTxData hash hash hash "byte list" 'al 'au

fun txType :: "('al, 'au) spanBatchTxData \<Rightarrow> byte" where
  "txType (spanBatchLegacyTxData _ _ _) = LegacyTxType"
| "txType (spanBatchAccessListTxData _ _ _ _) = AccessListTxType"
| "txType (spanBatchDynamicFeeTxData _ _ _ _ _) = DynamicFeeTxType"
| "txType (spanBatchSetCodeTxData _ _ _ _ _ _) = SetCodeTxType"

text \<open>The encodings of the libraries: RLP of the span-batch form of a transaction, for a given type when
  decoding; binary form of a transaction; the first item of a stream of RLP items, if it is a list.\<close>

datatype list_read =
    ValueTooLarge | PrefixError | NotList | RawError | RawList "byte list" "byte list"

record ('al, 'au) codecs =
  rlp_encode :: "('al, 'au) spanBatchTxData \<Rightarrow> byte list"
  rlp_decode :: "byte \<Rightarrow> byte list \<Rightarrow> ('al, 'au) spanBatchTxData option"
  tx_marshal :: "('al, 'au) TxData \<Rightarrow> byte list option"
  tx_unmarshal :: "byte list \<Rightarrow> ('al, 'au) TxData option"
  rlp_list :: "byte list \<Rightarrow> list_read"

definition stx_MarshalBinary :: "('al, 'au) codecs \<Rightarrow> ('al, 'au) spanBatchTxData \<Rightarrow> byte list" where
  "stx_MarshalBinary C tx =
     (if txType tx = LegacyTxType then rlp_encode C tx else txType tx # rlp_encode C tx)"

definition decodeTyped :: "('al, 'au) codecs \<Rightarrow> byte list \<Rightarrow> span_error + ('al, 'au) spanBatchTxData" where
  "decodeTyped C b =
     (case b of
        t # t2 # r \<Rightarrow>
          if t = AccessListTxType \<or> t = DynamicFeeTxType \<or> t = SetCodeTxType
          then (case rlp_decode C t (t2 # r) of
                  None \<Rightarrow> Inl (SpanErr ''failed to decode typed span batch tx'') | Some inner \<Rightarrow> Inr inner)
          else Inl ErrTxTypeNotSupported
      | _ \<Rightarrow> Inl ErrTypedTxTooShort)"

definition stx_UnmarshalBinary :: "('al, 'au) codecs \<Rightarrow> byte list \<Rightarrow> span_error + ('al, 'au) spanBatchTxData" where
  "stx_UnmarshalBinary C b =
     (if b \<noteq> [] \<and> hd b > 127
      then (case rlp_decode C LegacyTxType b of
              None \<Rightarrow> Inl (SpanErr ''failed to decode spanBatchLegacyTxData'') | Some inner \<Rightarrow> Inr inner)
      else decodeTyped C b)"

fun etx_Type :: "('al, 'au) TxData \<Rightarrow> byte" where
  "etx_Type (LegacyTx _ _ _ _ _ _ _ _ _) = LegacyTxType"
| "etx_Type (AccessListTx _ _ _ _ _ _ _ _ _ _ _) = AccessListTxType"
| "etx_Type (DynamicFeeTx _ _ _ _ _ _ _ _ _ _ _ _) = DynamicFeeTxType"
| "etx_Type (SetCodeTx _ _ _ _ _ _ _ _ _ _ _ _ _) = SetCodeTxType"
| "etx_Type (OtherTx t _) = t"

text \<open>The signature values, the chain and the protection of a transaction, as package \<open>types\<close> documents them:
  a legacy transaction is protected (EIP-155) unless \<open>V\<close> is 27, 28, 1 or 0, and then \<open>V\<close> is
  35 or 36 plus twice the chain. Transactions of the other types name their chain.\<close>

fun RawSignatureValues :: "('al, 'au) TxData \<Rightarrow> nat \<times> nat \<times> nat" where
  "RawSignatureValues (LegacyTx _ _ _ _ _ _ v r s) = (v, r, s)"
| "RawSignatureValues (AccessListTx _ _ _ _ _ _ _ _ v r s) = (v, r, s)"
| "RawSignatureValues (DynamicFeeTx _ _ _ _ _ _ _ _ _ v r s) = (v, r, s)"
| "RawSignatureValues (SetCodeTx _ _ _ _ _ _ _ _ _ _ v r s) = (unat v, unat r, unat s)"
| "RawSignatureValues (OtherTx _ _) = (0, 0, 0)"

fun Protected :: "('al, 'au) TxData \<Rightarrow> bool" where
  "Protected (LegacyTx _ _ _ _ _ _ v _ _) = (v \<noteq> 27 \<and> v \<noteq> 28 \<and> v \<noteq> 1 \<and> v \<noteq> 0)"
| "Protected _ = True"

fun ChainId :: "('al, 'au) TxData \<Rightarrow> nat" where
  "ChainId (LegacyTx _ _ _ _ _ _ v _ _) = (if v = 27 \<or> v = 28 then 0 else if v < 35 then (2 ^ 64 + v - 35) div 2 else (v - 35) div 2)"
| "ChainId (AccessListTx c _ _ _ _ _ _ _ _ _ _) = c"
| "ChainId (DynamicFeeTx c _ _ _ _ _ _ _ _ _ _ _) = c"
| "ChainId (SetCodeTx c _ _ _ _ _ _ _ _ _ _ _ _) = unat c"
| "ChainId (OtherTx _ c) = c"

fun etx_To :: "('al, 'au) TxData \<Rightarrow> address option" where
  "etx_To (SetCodeTx _ _ _ _ _ to _ _ _ _ _ _ _) = Some to"
| "etx_To (OtherTx _ _) = None"
| "etx_To tx = txTo tx"

fun newSpanBatchTx :: "('al, 'au) TxData \<Rightarrow> span_error + ('al, 'au) spanBatchTxData" where
  "newSpanBatchTx (LegacyTx _ price _ _ value dat _ _ _) = Inr (spanBatchLegacyTxData value price dat)"
| "newSpanBatchTx (AccessListTx _ _ price _ _ value dat al _ _ _) = Inr (spanBatchAccessListTxData value price dat al)"
| "newSpanBatchTx (DynamicFeeTx _ _ tip cap _ _ value dat al _ _ _) =
     Inr (spanBatchDynamicFeeTxData value tip cap dat al)"
| "newSpanBatchTx (SetCodeTx _ _ tip cap _ _ value dat al au _ _ _) =
     Inr (spanBatchSetCodeTxData value tip cap dat al au)"
| "newSpanBatchTx (OtherTx _ _) = Inl (SpanErr ''invalid tx type'')"

fun convertToFullTx ::
  "('al, 'au) spanBatchTxData \<Rightarrow> u64 \<Rightarrow> u64 \<Rightarrow> address option \<Rightarrow> nat \<Rightarrow> nat \<Rightarrow> nat \<Rightarrow> nat \<Rightarrow>
     span_error + ('al, 'au) TxData" where
  "convertToFullTx (spanBatchLegacyTxData value price dat) nonce gas to chainID V R S =
     Inr (LegacyTx nonce price gas to value dat V R S)"
| "convertToFullTx (spanBatchAccessListTxData value price dat al) nonce gas to chainID V R S =
     Inr (AccessListTx chainID nonce price gas to value dat al V R S)"
| "convertToFullTx (spanBatchDynamicFeeTxData value tip cap dat al) nonce gas to chainID V R S =
     Inr (DynamicFeeTx chainID nonce tip cap gas to value dat al V R S)"
| "convertToFullTx (spanBatchSetCodeTxData value tip cap dat al au) nonce gas to chainID V R S =
     (case to of
        None \<Rightarrow> Inl (SpanErr ''to address is required for SetCodeTx'')
      | Some a \<Rightarrow>
          if chainID \<ge> 2 ^ 256 \<or> V \<ge> 2 ^ 256 \<or> R \<ge> 2 ^ 256 \<or> S \<ge> 2 ^ 256 then Inl (SpanPanic ''overflow'')
          else Inr (SetCodeTx (word_of_nat chainID) nonce tip cap gas a value dat al au
                      (word_of_nat V) (word_of_nat R) (word_of_nat S)))"

subsection \<open>Columns\<close>

record spanBatchSignature =
  sg_v :: u64
  sg_r :: hash
  sg_s :: hash

record spanBatchTxs =
  totalBlockTxCount :: u64
  contractCreationBits :: "nat option"
  yParityBits :: "nat option"
  txSigs :: "spanBatchSignature list"
  txNonces :: "u64 list"
  txGases :: "u64 list"
  txTos :: "address list"
  txDatas :: "byte list list"
  protectedBits :: "nat option"
  txTypes :: "byte list"
  totalLegacyTxCount :: u64

definition empty_spanBatchTxs :: spanBatchTxs where
  "empty_spanBatchTxs = \<lparr>totalBlockTxCount = 0, contractCreationBits = None, yParityBits = None,
     txSigs = [], txNonces = [], txGases = [], txTos = [], txDatas = [], protectedBits = None,
     txTypes = [], totalLegacyTxCount = 0\<rparr>"

definition encodeTxSigsRS :: "spanBatchSignature list \<Rightarrow> byte list" where
  "encodeTxSigsRS sigs = concat (map (\<lambda>s. be_encode 32 (unat (sg_r s)) @ be_encode 32 (unat (sg_s s))) sigs)"

definition sbtxs_encode :: "spanBatchTxs \<Rightarrow> span_error + byte list" where
  "sbtxs_encode btx =
     and_then (encodeSpanBatchBits (totalBlockTxCount btx) (contractCreationBits btx)) (\<lambda>cc.
     and_then (encodeSpanBatchBits (totalBlockTxCount btx) (yParityBits btx)) (\<lambda>yp.
     and_then (encodeSpanBatchBits (totalLegacyTxCount btx) (protectedBits btx)) (\<lambda>pb.
     Inr (cc @ yp @ encodeTxSigsRS (txSigs btx) @ concat (map (\<lambda>a. be_encode 20 (unat a)) (txTos btx)) @
          concat (txDatas btx) @ concat (map PutUvarint (txNonces btx)) @
          concat (map PutUvarint (txGases btx)) @ pb))))"

definition decodeContractCreationBits :: "spanBatchTxs \<Rightarrow> byte list \<Rightarrow> span_error + spanBatchTxs \<times> byte list" where
  "decodeContractCreationBits btx r =
     (if totalBlockTxCount btx > MaxSpanBatchElementCount then Inl ErrTooBigSpanBatchSize
      else and_then (decodeSpanBatchBits (totalBlockTxCount btx) r) (\<lambda>(bits, r).
           Inr (btx\<lparr>contractCreationBits := Some bits\<rparr>, r)))"

definition decodeYParityBits :: "spanBatchTxs \<Rightarrow> byte list \<Rightarrow> span_error + spanBatchTxs \<times> byte list" where
  "decodeYParityBits btx r =
     and_then (decodeSpanBatchBits (totalBlockTxCount btx) r) (\<lambda>(bits, r).
     Inr (btx\<lparr>yParityBits := Some bits\<rparr>, r))"

definition decodeProtectedBits :: "spanBatchTxs \<Rightarrow> byte list \<Rightarrow> span_error + spanBatchTxs \<times> byte list" where
  "decodeProtectedBits btx r =
     (if totalLegacyTxCount btx > MaxSpanBatchElementCount then Inl ErrTooBigSpanBatchSize
      else and_then (decodeSpanBatchBits (totalLegacyTxCount btx) r) (\<lambda>(bits, r).
           Inr (btx\<lparr>protectedBits := Some bits\<rparr>, r)))"

definition read_bytes :: "string \<Rightarrow> nat \<Rightarrow> byte list \<Rightarrow> span_error + nat \<times> byte list" where
  "read_bytes what n r =
     (case ReadFull n r of Inl e \<Rightarrow> Inl (ReadErr what e) | Inr (buf, r') \<Rightarrow> Inr (be_decode buf, r'))"

definition read_sig :: "byte list \<Rightarrow> span_error + spanBatchSignature \<times> byte list" where
  "read_sig r =
     and_then (read_bytes ''failed to read tx sig r'' 32 r) (\<lambda>(x, r).
     and_then (read_bytes ''failed to read tx sig s'' 32 r) (\<lambda>(y, r).
     Inr (\<lparr>sg_v = 0, sg_r = word_of_nat x, sg_s = word_of_nat y\<rparr>, r)))"

definition decodeTxSigsRS :: "spanBatchTxs \<Rightarrow> byte list \<Rightarrow> span_error + spanBatchTxs \<times> byte list" where
  "decodeTxSigsRS btx r =
     and_then (read_n (unat (totalBlockTxCount btx)) read_sig r) (\<lambda>(sigs, r). Inr (btx\<lparr>txSigs := sigs\<rparr>, r))"

definition read_varint :: "string \<Rightarrow> byte list \<Rightarrow> span_error + u64 \<times> byte list" where
  "read_varint what r = (case ReadUvarint r of Inl e \<Rightarrow> Inl (VarintErr what e) | Inr x \<Rightarrow> Inr x)"

definition decodeTxNonces :: "spanBatchTxs \<Rightarrow> byte list \<Rightarrow> span_error + spanBatchTxs \<times> byte list" where
  "decodeTxNonces btx r =
     and_then (read_n (unat (totalBlockTxCount btx)) (read_varint ''failed to read tx nonce'') r)
       (\<lambda>(xs, r). Inr (btx\<lparr>txNonces := xs\<rparr>, r))"

definition decodeTxGases :: "spanBatchTxs \<Rightarrow> byte list \<Rightarrow> span_error + spanBatchTxs \<times> byte list" where
  "decodeTxGases btx r =
     and_then (read_n (unat (totalBlockTxCount btx)) (read_varint ''failed to read tx gas'') r)
       (\<lambda>(xs, r). Inr (btx\<lparr>txGases := xs\<rparr>, r))"

definition contractCreationCount :: "spanBatchTxs \<Rightarrow> span_error + u64" where
  "contractCreationCount btx =
     (case contractCreationBits btx of
        None \<Rightarrow> Inl (SpanErr ''dev error: contract creation bits not set'')
      | Some bits \<Rightarrow> Inr (word_of_nat (length (filter (bit bits) [0..<unat (totalBlockTxCount btx)]))))"

definition decodeTxTos :: "spanBatchTxs \<Rightarrow> byte list \<Rightarrow> span_error + spanBatchTxs \<times> byte list" where
  "decodeTxTos btx r =
     and_then (contractCreationCount btx) (\<lambda>n.
     and_then (read_n (unat (totalBlockTxCount btx - n))
         (\<lambda>r. and_then (read_bytes ''failed to read tx to address'' 20 r) (\<lambda>(x, r). Inr (word_of_nat x, r))) r)
       (\<lambda>(xs, r). Inr (btx\<lparr>txTos := xs\<rparr>, r)))"

definition ReadTxData :: "('al, 'au) codecs \<Rightarrow> byte list \<Rightarrow> span_error + (byte list \<times> byte) \<times> byte list" where
  "ReadTxData C r =
     (case r of
        [] \<Rightarrow> Inl (ReadErr ''failed to read tx initial byte'' EOF)
      | b # rest \<Rightarrow>
         let typed = b \<le> 127; txData = (if typed then [b] else []); txType = (if typed then b else 0) in
         (case rlp_list C (if typed then rest else r) of
            ValueTooLarge \<Rightarrow> Inl ErrTooBigSpanBatchSize
          | PrefixError \<Rightarrow> Inl (SpanErr ''failed to read tx RLP prefix'')
          | NotList \<Rightarrow> Inl (SpanErr ''tx RLP prefix type must be list'')
          | RawError \<Rightarrow> Inl (SpanErr ''failed to read tx RLP payload'')
          | RawList txPayload r' \<Rightarrow> Inr ((txData @ txPayload, txType), r')))"

definition decodeTxDatas :: "('al, 'au) codecs \<Rightarrow> spanBatchTxs \<Rightarrow> byte list \<Rightarrow> span_error + spanBatchTxs \<times> byte list" where
  "decodeTxDatas C btx r =
     and_then (read_n (unat (totalBlockTxCount btx)) (ReadTxData C) r) (\<lambda>(ds, r).
     Inr (btx\<lparr>txDatas := map fst ds, txTypes := map snd ds,
              totalLegacyTxCount := totalLegacyTxCount btx +
                word_of_nat (length (filter (\<lambda>t. t = LegacyTxType) (map snd ds)))\<rparr>, r))"

definition sbtxs_decode :: "('al, 'au) codecs \<Rightarrow> spanBatchTxs \<Rightarrow> byte list \<Rightarrow> span_error + spanBatchTxs \<times> byte list" where
  "sbtxs_decode C btx r =
     and_then (decodeContractCreationBits btx r) (\<lambda>(btx, r).
     and_then (decodeYParityBits btx r) (\<lambda>(btx, r).
     and_then (decodeTxSigsRS btx r) (\<lambda>(btx, r).
     and_then (decodeTxTos btx r) (\<lambda>(btx, r).
     and_then (decodeTxDatas C btx r) (\<lambda>(btx, r).
     and_then (decodeTxNonces btx r) (\<lambda>(btx, r).
     and_then (decodeTxGases btx r) (\<lambda>(btx, r).
     decodeProtectedBits btx r)))))))"

subsection \<open>From transactions to columns\<close>

definition isProtectedV :: "u64 \<Rightarrow> byte \<Rightarrow> bool" where
  "isProtectedV v t \<longleftrightarrow> (if t = LegacyTxType then v \<noteq> 27 \<and> v \<noteq> 28 else True)"

text \<open>The bit is given to \<open>SetBit\<close>, which panics for a value other than 0 and 1.\<close>

definition convertVToYParity :: "u64 \<Rightarrow> byte \<Rightarrow> span_error + u64" where
  "convertVToYParity v t =
     (if t = LegacyTxType
      then Inr (if isProtectedV v t then (v - 35) AND 1 else v - 27)
      else if t = AccessListTxType \<or> t = DynamicFeeTxType \<or> t = SetCodeTxType then Inr v
      else Inl (SpanErr ''invalid tx type''))"

text \<open>One turn of the loop of \<open>AddTxs\<close>. The columns that a failed call leaves behind are
  not modelled.\<close>

definition AddTx :: "('al, 'au) codecs \<Rightarrow> nat \<Rightarrow> nat \<Rightarrow> byte list \<Rightarrow> spanBatchTxs \<Rightarrow> span_error + spanBatchTxs" where
  "AddTx C chainID idx raw sbtx =
     (case tx_unmarshal C raw of
        None \<Rightarrow> Inl (SpanErr ''failed to decode tx'')
      | Some tx \<Rightarrow>
         let legacy = (etx_Type tx = LegacyTxType);
             sbtx = (if legacy
                     then sbtx\<lparr>protectedBits := map_option (\<lambda>b. SetBit b (unat (totalLegacyTxCount sbtx)) (Protected tx))
                                  (protectedBits sbtx),
                               totalLegacyTxCount := totalLegacyTxCount sbtx + 1\<rparr>
                     else sbtx) in
         if Protected tx \<and> ChainId tx \<noteq> chainID then Inl (SpanErr ''protected tx has other chain ID'')
         else let (v, r, s) = RawSignatureValues tx;
                  sig = \<lparr>sg_v = word_of_nat v, sg_r = word_of_nat r, sg_s = word_of_nat s\<rparr> in
         and_then (convertVToYParity (sg_v sig) (etx_Type tx)) (\<lambda>y.
         if y > 1 then Inl (SpanPanic ''set bit not 0 or 1'')
         else and_then (newSpanBatchTx tx) (\<lambda>stx.
         Inr (sbtx\<lparr>txSigs := txSigs sbtx @ [sig],
                   txTos := txTos sbtx @ (case etx_To tx of None \<Rightarrow> [] | Some a \<Rightarrow> [a]),
                   contractCreationBits := map_option (\<lambda>b. SetBit b idx (etx_To tx = None)) (contractCreationBits sbtx),
                   yParityBits := map_option (\<lambda>b. SetBit b idx (y = 1)) (yParityBits sbtx),
                   txNonces := txNonces sbtx @ [txNonce tx], txGases := txGases sbtx @ [txGas tx],
                   txDatas := txDatas sbtx @ [stx_MarshalBinary C stx],
                   txTypes := txTypes sbtx @ [etx_Type tx]\<rparr>))))"

fun AddTxs_loop :: "('al, 'au) codecs \<Rightarrow> nat \<Rightarrow> nat \<Rightarrow> byte list list \<Rightarrow> spanBatchTxs \<Rightarrow> span_error + spanBatchTxs" where
  "AddTxs_loop C chainID idx [] sbtx = Inr sbtx"
| "AddTxs_loop C chainID idx (raw # raws) sbtx =
     and_then (AddTx C chainID idx raw sbtx) (\<lambda>sbtx. AddTxs_loop C chainID (Suc idx) raws sbtx)"

definition AddTxs :: "('al, 'au) codecs \<Rightarrow> nat \<Rightarrow> byte list list \<Rightarrow> spanBatchTxs \<Rightarrow> span_error + spanBatchTxs" where
  "AddTxs C chainID txs sbtx =
     and_then (AddTxs_loop C chainID (unat (totalBlockTxCount sbtx)) txs sbtx) (\<lambda>sbtx'.
     Inr (sbtx'\<lparr>totalBlockTxCount := totalBlockTxCount sbtx' + word_of_nat (length txs)\<rparr>))"

definition newSpanBatchTxs :: "('al, 'au) codecs \<Rightarrow> nat \<Rightarrow> byte list list \<Rightarrow> span_error + spanBatchTxs" where
  "newSpanBatchTxs C chainID txs =
     AddTxs C chainID txs (empty_spanBatchTxs\<lparr>contractCreationBits := Some 0, yParityBits := Some 0,
       protectedBits := Some 0\<rparr>)"

subsection \<open>From columns to transactions\<close>

fun recoverV_loop :: "nat \<Rightarrow> nat \<Rightarrow> nat \<Rightarrow> nat \<Rightarrow> nat \<Rightarrow> (byte \<times> spanBatchSignature) list \<Rightarrow>
    span_error + spanBatchSignature list" where
  "recoverV_loop chainID yp pb idx pidx [] = Inr []"
| "recoverV_loop chainID yp pb idx pidx ((t, sig) # rest) =
     (let b = (if bit yp idx then 1 else 0 :: u64) in
      if t = LegacyTxType
      then (let v = (if \<not> bit pb pidx then 27 + b else word_of_nat chainID * 2 + 35 + b)
            in map_sum id (Cons (sig\<lparr>sg_v := v\<rparr>)) (recoverV_loop chainID yp pb (Suc idx) (Suc pidx) rest))
      else if t = AccessListTxType \<or> t = DynamicFeeTxType \<or> t = SetCodeTxType
      then map_sum id (Cons (sig\<lparr>sg_v := b\<rparr>)) (recoverV_loop chainID yp pb (Suc idx) pidx rest)
      else Inl (SpanErr ''invalid tx type''))"

definition recoverV :: "nat \<Rightarrow> spanBatchTxs \<Rightarrow> span_error + spanBatchTxs" where
  "recoverV chainID btx =
     (if length (txTypes btx) \<noteq> length (txSigs btx) then Inl (SpanErr ''tx type length and tx sigs length mismatch'')
      else case protectedBits btx of
        None \<Rightarrow> Inl (SpanErr ''dev error: protected bits not set'')
      | Some pb \<Rightarrow>
         (if txTypes btx = [] then Inr btx
          else case yParityBits btx of
            None \<Rightarrow> Inl (SpanPanic ''nil pointer dereference'')
          | Some yp \<Rightarrow>
              and_then (recoverV_loop chainID yp pb 0 0 (zip (txTypes btx) (txSigs btx)))
                (\<lambda>sigs. Inr (btx\<lparr>txSigs := sigs\<rparr>))))"

text \<open>The loop of \<open>fullTxs\<close> from index \<open>idx\<close> on, with the addresses not yet used. A column that is too
  short is an index out of range.\<close>

fun fullTxs_loop :: "('al, 'au) codecs \<Rightarrow> nat \<Rightarrow> spanBatchTxs \<Rightarrow> nat \<Rightarrow> nat \<Rightarrow> address list \<Rightarrow>
    span_error + byte list list" where
  "fullTxs_loop C chainID btx 0 idx tos = Inr []"
| "fullTxs_loop C chainID btx (Suc n) idx tos =
     (if idx \<ge> length (txDatas btx) then Inl (SpanPanic ''index out of range'')
      else and_then (stx_UnmarshalBinary C (txDatas btx ! idx)) (\<lambda>stx.
      if idx \<ge> length (txNonces btx) \<or> idx \<ge> length (txGases btx) then Inl (SpanPanic ''index out of range'')
      else case contractCreationBits btx of
        None \<Rightarrow> Inl (SpanPanic ''nil pointer dereference'')
      | Some cc \<Rightarrow>
         (if \<not> bit cc idx \<and> tos = [] then Inl (SpanErr ''tx to not enough'')
          else let to = (if \<not> bit cc idx then Some (hd tos) else None);
                   tos' = (if \<not> bit cc idx then tl tos else tos) in
          if idx \<ge> length (txSigs btx) then Inl (SpanPanic ''index out of range'')
          else let sig = txSigs btx ! idx in
          and_then (convertToFullTx stx (txNonces btx ! idx) (txGases btx ! idx) to chainID
              (unat (sg_v sig)) (unat (sg_r sig)) (unat (sg_s sig))) (\<lambda>tx.
          case tx_marshal C tx of
            None \<Rightarrow> Inl (SpanErr ''failed to encode tx'')
          | Some encodedTx \<Rightarrow>
              and_then (fullTxs_loop C chainID btx n (Suc idx) tos') (\<lambda>txs. Inr (encodedTx # txs))))))"

definition fullTxs :: "('al, 'au) codecs \<Rightarrow> nat \<Rightarrow> spanBatchTxs \<Rightarrow> span_error + byte list list" where
  "fullTxs C chainID btx = fullTxs_loop C chainID btx (unat (totalBlockTxCount btx)) 0 (txTos btx)"


section \<open>Variable-length integers\<close>

lemma varint_split: "(x :: u64) = take_bit 7 x OR push_bit 7 (drop_bit 7 x)"
proof (rule bit_eqI)
  fix n
  show "bit x n \<longleftrightarrow> bit (take_bit 7 x OR push_bit 7 (drop_bit 7 x)) n"
    by (cases "n < 7") (auto simp: bit_simps not_less dest: bit_imp_le_length)
qed

lemma bit_128: "bit (128 :: byte) n \<longleftrightarrow> n = 7" "bit (128 :: int) n \<longleftrightarrow> n = 7"
  using bit_exp_iff [of 7 n, where 'a = byte] bit_exp_iff [of 7 n, where 'a = int] by auto

lemma bit_127: "bit (127 :: byte) n \<longleftrightarrow> n < 7" "bit (127 :: int) n \<longleftrightarrow> n < 7"
  using bit_mask_iff [of 7 n, where 'a = byte] bit_mask_iff [of 7 n, where 'a = int]
  by (auto simp: mask_eq_exp_minus_1)

lemma varint_low: "(ucast ((ucast x OR 128 :: byte) AND 127) :: u64) = take_bit 7 x" for x :: u64
  by (rule bit_eqI) (auto simp: bit_simps bit_128 bit_127)

lemma varint_high: "\<not> (ucast (x :: u64) OR 128 :: byte) < 128"
proof -
  have "bit (ucast x OR 128 :: byte) 7" by (simp add: bit_simps bit_128)
  moreover have "\<not> bit (b :: byte) 7" if "b < 128" for b
  proof -
    have "unat b < 128" using that by (simp add: word_less_nat_alt)
    then have "\<not> bit (unat b) 7" by (simp add: bit_iff_odd)
    then show ?thesis by (simp add: bit_unsigned_iff)
  qed
  ultimately show ?thesis by blast
qed

lemma varint_small:
  assumes "(x :: u64) < 128"
  shows "(ucast (ucast x :: byte) :: u64) = x" and "(ucast x :: byte) < 128"
    and "x \<le> 1 \<Longrightarrow> \<not> (ucast x :: byte) > 1"
proof -
  have u: "unat (ucast x :: byte) = unat x"
    using assms take_bit_nat_eq_self [of "unat x" 8]
    by (simp add: unsigned_ucast_eq word_less_nat_alt unsigned_take_bit_eq)
  show "(ucast (ucast x :: byte) :: u64) = x"
    using u by (intro unsigned_word_eqI [where 'a = nat]) (simp add: unsigned_ucast_eq take_bit_word_eq_self unsigned_take_bit_eq)
  show "(ucast x :: byte) < 128" using u assms by (simp add: word_less_nat_alt)
  show "x \<le> 1 \<Longrightarrow> \<not> (ucast x :: byte) > 1" using u by (simp add: word_less_nat_alt word_le_nat_alt)
qed


lemma ReadUvarint_loop_PutUvarint:
  "7 * i + 7 * n \<ge> 64 \<Longrightarrow> 7 * i < 64 \<Longrightarrow> unat v < 2 ^ (64 - 7 * i) \<Longrightarrow>
     ReadUvarint_loop n i x (PutUvarint v @ r) = Inr (x OR push_bit (7 * i) v, r)"
proof (induction v arbitrary: n i x rule: PutUvarint.induct)
  case (1 v)
  obtain n' where n: "n = Suc n'" using "1.prems"(1,2) by (cases n) auto
  show ?case
  proof (cases "v \<ge> 128")
    case False
    then have v: "v < 128" by simp
    have "v \<le> 1" if "n' = 0"
    proof -
      have "7 * i \<ge> 57" "7 * i < 64" using "1.prems" n that by auto
      then have "i = 9" by presburger
      then show ?thesis using "1.prems"(3) by (simp add: word_le_nat_alt)
    qed
    then show ?thesis
      using v varint_small [OF v] n by (auto simp: PutUvarint.simps [of v])
  next
    case True
    have u: "128 \<le> unat v" using True by (simp add: word_le_nat_alt)
    with "1.prems"(3) have "128 < (2::nat) ^ (64 - 7 * i)" by linarith
    then have "7 < 64 - 7 * i"
      using power_increasing [of "64 - 7 * i" 7 "2::nat"] by (cases "7 < 64 - 7 * i") auto
    then have i: "7 * Suc i < 64" by simp
    have d: "unat (drop_bit 7 v) < 2 ^ (64 - 7 * Suc i)"
    proof -
      have "unat v < 2 ^ (64 - 7 * Suc i) * 128"
        using "1.prems"(3) i power_add [of "2::nat" "64 - 7 * Suc i" 7] by simp
      then show ?thesis by (simp add: drop_bit_eq_div unat_div div_less_iff_less_mult)
    qed
    have "ReadUvarint_loop n i x (PutUvarint v @ r)
      = ReadUvarint_loop n' (Suc i) (x OR push_bit (7 * i) (take_bit 7 v)) (PutUvarint (drop_bit 7 v) @ r)"
      using True n varint_high [of v] varint_low [of v] by (simp add: PutUvarint.simps [of v])
    also have "\<dots> = Inr ((x OR push_bit (7 * i) (take_bit 7 v)) OR push_bit (7 * Suc i) (drop_bit 7 v), r)"
      using "1.prems" n i d by (intro "1.IH" [OF True]) auto
    also have "(x OR push_bit (7 * i) (take_bit 7 v)) OR push_bit (7 * Suc i) (drop_bit 7 v)
      = x OR push_bit (7 * i) (take_bit 7 v OR push_bit 7 (drop_bit 7 v))"
      by (simp add: or.assoc push_bit_or push_bit_push_bit add.commute)
    finally show ?thesis using varint_split [of v] by simp
  qed
qed

lemma ReadUvarint_PutUvarint [simp]: "ReadUvarint (PutUvarint v @ r) = Inr (v, r)"
  unfolding ReadUvarint_def MaxVarintLen64_def
  using ReadUvarint_loop_PutUvarint [of 0 10 v 0 r] unat_u64_less [of v] by simp


declare PutUvarint.simps [simp del]

section \<open>Bit lists\<close>

lemma BitLen_le_iff: "BitLen n \<le> k \<longleftrightarrow> n < 2 ^ k"
proof (induction n arbitrary: k rule: BitLen.induct)
  case (1 n)
  show ?case
  proof (cases "n = 0")
    case False
    show ?thesis
    proof (cases k)
      case 0
      then show ?thesis using False by (simp add: BitLen.simps [of n])
    next
      case (Suc k')
      have "BitLen n \<le> k \<longleftrightarrow> BitLen (n div 2) \<le> k'"
        using False Suc by (simp add: BitLen.simps [of n])
      also have "\<dots> \<longleftrightarrow> n div 2 < 2 ^ k'" using "1.IH" [OF False] .
      also have "\<dots> \<longleftrightarrow> n < 2 ^ k" using Suc by (simp add: div_less_iff_less_mult mult.commute)
      finally show ?thesis .
    qed
  qed simp
qed

declare BitLen.simps [simp del]

abbreviation bits_of :: "bool list \<Rightarrow> nat" where
  "bits_of bs \<equiv> horner_sum of_bool 2 bs"

lemma bit_bits_of: "bit (bits_of bs) n \<longleftrightarrow> n < length bs \<and> bs ! n"
  by (simp add: bit_horner_sum_bit_iff)

lemma SetBit_bits_of [simp]: "i = length bs \<Longrightarrow> SetBit (bits_of bs) i b = bits_of (bs @ [b])"
  by (rule bit_eqI)
    (auto simp: SetBit_def bit_bits_of bit_set_bit_iff bit_unset_bit_iff nth_append not_less less_Suc_eq)

lemma bits_of_less: "bits_of bs < 2 ^ length bs"
  by (rule horner_sum_of_bool_2_less)

lemma unat_bit_bytes:
  assumes "unat n < 2 ^ 63"
  shows "unat (bit_bytes n) = (unat n + 7) div 8"
proof -
  have "unat (n div 8 + 1) = unat n div 8 + 1"
    using assms by (subst unat_add_lem [THEN iffD1]) (auto simp: unat_div)
  moreover have "n mod 8 = 0 \<longleftrightarrow> unat n mod 8 = 0"
    by (simp add: unat_mod flip: unat_eq_0)
  ultimately show ?thesis
    by (auto simp: bit_bytes_def unat_div) presburger+
qed

lemma bits_roundtrip:
  assumes "unat n < 2 ^ 63" and "length bs = unat n"
  shows "\<exists>e. encodeSpanBatchBits n (Some (bits_of bs)) = Inr e \<and>
           (\<forall>r. decodeSpanBatchBits n (e @ r) = Inr (bits_of bs, r))"
proof -
  define x where "x = bits_of bs"
  have x: "x < 2 ^ unat n" using bits_of_less [of bs] assms by (simp add: x_def)
  then have "BitLen x \<le> unat n" by (simp add: BitLen_le_iff)
  moreover from this have "unat (word_of_nat (BitLen x) :: u64) = BitLen x"
    using assms by (simp add: unat_of_nat)
  ultimately have b: "\<not> (word_of_nat (BitLen x) :: u64) > n" by (simp add: word_less_nat_alt)
  have "(2::nat) ^ unat n \<le> 2 ^ (8 * ((unat n + 7) div 8))" by (intro power_increasing) auto
  then have "x mod 256 ^ unat (bit_bytes n) = x"
    using x assms unat_bit_bytes [of n] by (simp add: power_mult)
  then show ?thesis
    unfolding x_def [symmetric] using b by (auto simp: encodeSpanBatchBits_def decodeSpanBatchBits_def)
qed


section \<open>Columns of a list of transactions\<close>

text \<open>What is asked of a transaction. Its signature: a legacy \<open>V\<close> is 27 or 28, or that of the chain by
  EIP-155; a typed transaction names the chain and has \<open>V\<close> 0 or 1; \<open>R\<close> and \<open>S\<close> fit in 256 bits. Its
  encodings: the binary form is the one the library gives, RLP of the span-batch form decodes, begins as
  the RLP encoding of a list does, and is read as one item.\<close>

definition sig_ok :: "nat \<Rightarrow> ('al, 'au) TxData \<Rightarrow> bool" where
  "sig_ok chainID tx \<longleftrightarrow>
     chainID < 2 ^ 62 \<and>
     (case RawSignatureValues tx of (v, r, s) \<Rightarrow>
        r < 2 ^ 256 \<and> s < 2 ^ 256 \<and>
        (if etx_Type tx = LegacyTxType then v \<in> {27, 28, 35 + 2 * chainID, 36 + 2 * chainID}
         else ChainId tx = chainID \<and> v \<le> 1))"

definition tx_codec_ok :: "('al, 'au) codecs \<Rightarrow> byte list \<Rightarrow> ('al, 'au) TxData \<Rightarrow> bool" where
  "tx_codec_ok C raw tx \<longleftrightarrow>
     tx_unmarshal C raw = Some tx \<and> tx_marshal C tx = Some raw \<and>
     (case newSpanBatchTx tx of
        Inl e \<Rightarrow> False
      | Inr stx \<Rightarrow>
          rlp_decode C (txType stx) (rlp_encode C stx) = Some stx \<and>
          rlp_encode C stx \<noteq> [] \<and> hd (rlp_encode C stx) \<ge> 192 \<and>
          (\<forall>r. rlp_list C (rlp_encode C stx @ r) = RawList (rlp_encode C stx) r))"

definition good_tx :: "('al, 'au) codecs \<Rightarrow> nat \<Rightarrow> byte list \<Rightarrow> ('al, 'au) TxData \<Rightarrow> bool" where
  "good_tx C chainID raw tx \<longleftrightarrow> tx_codec_ok C raw tx \<and> sig_ok chainID tx"

text \<open>The columns of a list of transactions.\<close>

definition is_legacy :: "('al, 'au) TxData \<Rightarrow> bool" where
  "is_legacy tx \<longleftrightarrow> etx_Type tx = LegacyTxType"

definition tx_sig :: "('al, 'au) TxData \<Rightarrow> spanBatchSignature" where
  "tx_sig tx = (case RawSignatureValues tx of (v, r, s) \<Rightarrow>
     \<lparr>sg_v = word_of_nat v, sg_r = word_of_nat r, sg_s = word_of_nat s\<rparr>)"

definition y_parity :: "('al, 'au) TxData \<Rightarrow> bool" where
  "y_parity tx = (let v = fst (RawSignatureValues tx) in if is_legacy tx then even v else v = 1)"

definition stx_of :: "('al, 'au) TxData \<Rightarrow> ('al, 'au) spanBatchTxData" where
  "stx_of tx = projr (newSpanBatchTx tx)"

definition columns :: "('al, 'au) codecs \<Rightarrow> u64 \<Rightarrow> ('al, 'au) TxData list \<Rightarrow> spanBatchTxs" where
  "columns C n txs = \<lparr>totalBlockTxCount = n,
     contractCreationBits = Some (bits_of (map (\<lambda>tx. etx_To tx = None) txs)),
     yParityBits = Some (bits_of (map y_parity txs)),
     txSigs = map tx_sig txs, txNonces = map txNonce txs, txGases = map txGas txs,
     txTos = List.map_filter etx_To txs, txDatas = map (\<lambda>tx. stx_MarshalBinary C (stx_of tx)) txs,
     protectedBits = Some (bits_of (map Protected (filter is_legacy txs))),
     txTypes = map etx_Type txs, totalLegacyTxCount = word_of_nat (length (filter is_legacy txs))\<rparr>"

lemma good_txD:
  assumes "good_tx C chainID raw tx"
  shows "tx_unmarshal C raw = Some tx" "tx_marshal C tx = Some raw"
    "newSpanBatchTx tx = Inr (stx_of tx)" "txType (stx_of tx) = etx_Type tx"
    "rlp_decode C (etx_Type tx) (rlp_encode C (stx_of tx)) = Some (stx_of tx)"
    "rlp_encode C (stx_of tx) \<noteq> []" "hd (rlp_encode C (stx_of tx)) \<ge> 192"
    "rlp_list C (rlp_encode C (stx_of tx) @ r) = RawList (rlp_encode C (stx_of tx)) r"
    "sig_ok chainID tx"
  using assms by (cases tx; auto simp: good_tx_def tx_codec_ok_def stx_of_def)+

lemma good_tx_type:
  "good_tx C chainID raw tx \<Longrightarrow>
     etx_Type tx = LegacyTxType \<or> etx_Type tx = AccessListTxType \<or> etx_Type tx = DynamicFeeTxType \<or>
     etx_Type tx = SetCodeTxType"
  by (cases tx) (auto simp: good_tx_def tx_codec_ok_def)

text \<open>The parity bit, protection and chain of a signature that is right.\<close>

lemma legacy_protected:
  assumes "sig_ok chainID tx" and "is_legacy tx" and "newSpanBatchTx tx = Inr stx"
  shows "Protected tx \<longleftrightarrow> fst (RawSignatureValues tx) \<ge> 35"
  using assms by (cases tx) (auto simp: sig_ok_def is_legacy_def)

lemma protected_chain:
  assumes "sig_ok chainID tx" and "newSpanBatchTx tx = Inr stx" and "Protected tx"
  shows "ChainId tx = chainID"
  using assms by (cases tx) (auto simp: sig_ok_def)

lemma u64_of_nat_inject:
  "n < 2 ^ 64 \<Longrightarrow> m < 2 ^ 64 \<Longrightarrow> (word_of_nat n :: u64) = word_of_nat m \<longleftrightarrow> n = m"
  by (simp add: word_unat_eq_iff unat_of_nat)

lemma EIP155_parity:
  assumes "c < 2 ^ 62" and "d \<in> {0, 1 :: nat}"
  shows "convertVToYParity (word_of_nat (35 + 2 * c + d)) LegacyTxType = Inr (word_of_nat d)"
proof -
  have "(word_of_nat (35 + 2 * c + d) :: u64) - 35 = 2 * word_of_nat c + word_of_nat d"
    by simp
  moreover have "(2 * word_of_nat c + word_of_nat d :: u64) AND 1 = word_of_nat d"
    using assms(2) by (auto simp: and_one_eq mod_2_eq_odd)
  moreover have "isProtectedV (word_of_nat (35 + 2 * c + d)) LegacyTxType"
    using assms u64_of_nat_inject [of "35 + 2 * c + d" 27] u64_of_nat_inject [of "35 + 2 * c + d" 28]
    by (auto simp: isProtectedV_def simp del: of_nat_add of_nat_mult)
  ultimately show ?thesis unfolding convertVToYParity_def by (simp del: of_nat_add of_nat_mult)
qed

lemma convertVToYParity_tx:
  assumes "sig_ok chainID tx" and "newSpanBatchTx tx = Inr stx"
  shows "convertVToYParity (sg_v (tx_sig tx)) (etx_Type tx) = Inr (if y_parity tx then 1 else 0)"
proof -
  define v where "v = fst (RawSignatureValues tx)"
  have sig: "sg_v (tx_sig tx) = word_of_nat v" by (simp add: tx_sig_def v_def split: prod.splits)
  show ?thesis
  proof (cases "is_legacy tx")
    case False
    then have v: "v = 0 \<or> v = 1" and y: "y_parity tx = (v = 1)"
      using assms by (auto simp: sig_ok_def is_legacy_def y_parity_def v_def split: prod.splits)
    have "etx_Type tx = AccessListTxType \<or> etx_Type tx = DynamicFeeTxType \<or> etx_Type tx = SetCodeTxType"
      using False assms(2) by (cases tx) (auto simp: is_legacy_def)
    then show ?thesis
      unfolding sig y using False v by (auto simp: is_legacy_def convertVToYParity_def)
  next
    case True
    have y: "y_parity tx = even v" using True by (simp add: y_parity_def v_def)
    from assms True have c: "chainID < 2 ^ 62" "v \<in> {27, 28, 35 + 2 * chainID, 36 + 2 * chainID}"
      by (auto simp: sig_ok_def v_def is_legacy_def split: prod.splits)
    from c(2) consider "v = 27 \<or> v = 28" | d where "v = 35 + 2 * chainID + d" "d = 0 \<or> d = 1"
      by (auto intro: that(2) [of 0] that(2) [of 1])
    then show ?thesis
    proof cases
      case 1
      then show ?thesis unfolding sig y using True by (auto simp: is_legacy_def convertVToYParity_def isProtectedV_def)
    next
      case 2
      then have "y_parity tx = (d = 1)" using y by auto
      then show ?thesis
        unfolding sig using EIP155_parity [OF c(1), of d] 2 True by (auto simp: is_legacy_def simp del: of_nat_add)
    qed
  qed
qed

section \<open>Building the columns\<close>

lemma AddTx_columns:
  assumes good: "good_tx C chainID raw tx" and "length txs < 2 ^ 64" and "idx = length txs"
  shows "AddTx C chainID idx raw (columns C n txs) = Inr (columns C n (txs @ [tx]))"
proof -
  note g = good_txD [OF good]
  have l: "length (filter is_legacy txs) < 2 ^ 64"
    using assms(2) length_filter_le [of is_legacy txs] by linarith
  have c: "\<not> (Protected tx \<and> ChainId tx \<noteq> chainID)"
    using protected_chain [OF g(9,3)] by blast
  obtain v r s where v: "RawSignatureValues tx = (v, r, s)" by (cases "RawSignatureValues tx")
  have sg: "\<lparr>sg_v = word_of_nat v, sg_r = word_of_nat r, sg_s = word_of_nat s\<rparr> = tx_sig tx"
    by (simp add: tx_sig_def v)
  have y: "convertVToYParity (word_of_nat v) (etx_Type tx) = Inr (if y_parity tx then 1 else 0)"
    using convertVToYParity_tx [OF g(9,3)] by (simp add: tx_sig_def v)
  show ?thesis
    using l c assms(3) y
    by (auto simp: AddTx_def g(1,3) v sg columns_def is_legacy_def unat_of_nat Let_def
        List.map_filter_def simp del: tx_types split: option.splits)
qed

lemma AddTxs_loop_columns:
  assumes "list_all2 (good_tx C chainID) raws txs'" and "length txs + length raws < 2 ^ 64"
    and "idx = length txs"
  shows "AddTxs_loop C chainID idx raws (columns C n txs) = Inr (columns C n (txs @ txs'))"
  using assms
proof (induction raws txs' arbitrary: txs idx rule: list_all2_induct)
  case (Cons raw raws tx txs')
  then have "AddTx C chainID idx raw (columns C n txs) = Inr (columns C n (txs @ [tx]))"
    by (intro AddTx_columns) auto
  moreover have "AddTxs_loop C chainID (Suc idx) raws (columns C n (txs @ [tx])) = Inr (columns C n ((txs @ [tx]) @ txs'))"
    using Cons.prems by (intro Cons.IH) auto
  ultimately show ?case by simp
qed simp

lemma AddTxs_columns:
  assumes "list_all2 (good_tx C chainID) raws txs'" and "length txs + length raws < 2 ^ 64"
  shows "AddTxs C chainID raws (columns C (word_of_nat (length txs)) txs) =
    Inr (columns C (word_of_nat (length (txs @ txs'))) (txs @ txs'))"
proof -
  have "unat (word_of_nat (length txs) :: u64) = length txs" using assms(2) by (simp add: unat_of_nat)
  then show ?thesis
    using AddTxs_loop_columns [OF assms, of "length txs"] list_all2_lengthD [OF assms(1)]
    by (simp add: AddTxs_def columns_def)
qed

lemma empty_columns:
  "empty_spanBatchTxs\<lparr>contractCreationBits := Some 0, yParityBits := Some 0, protectedBits := Some 0\<rparr> = columns C 0 []"
  by (simp add: empty_spanBatchTxs_def columns_def List.map_filter_def)

lemma newSpanBatchTxs_columns:
  assumes "list_all2 (good_tx C chainID) raws txs" and "length raws < 2 ^ 64"
  shows "newSpanBatchTxs C chainID raws = Inr (columns C (word_of_nat (length txs)) txs)"
  using AddTxs_columns [OF assms(1), of "[]"] assms(2)
  by (simp add: newSpanBatchTxs_def empty_columns [of C])

section \<open>Reading the columns back\<close>

lemma read_bytes_encoded [simp]:
  "v < 256 ^ n \<Longrightarrow> read_bytes what n (be_encode n v @ r) = Inr (v, r)"
  by (simp add: read_bytes_def)

lemma unat_hash_less: "unat (x :: hash) < 256 ^ 32"
  using unsigned_less [of x, where 'a = nat] by simp

lemma unat_address_less: "unat (x :: address) < 256 ^ 20"
  using unsigned_less [of x, where 'a = nat] by simp

lemmas unat_array_less [simp] = unat_hash_less [simplified] unat_address_less [simplified]

lemma read_sigs:
  "read_n (length sigs) read_sig (encodeTxSigsRS sigs @ r) = Inr (map (\<lambda>s. s\<lparr>sg_v := 0\<rparr>) sigs, r)"
  unfolding encodeTxSigsRS_def
  by (induction sigs) (auto simp: read_sig_def)

lemma read_varints:
  "read_n (length xs) (read_varint what) (concat (map PutUvarint xs) @ r) = Inr (xs, r)"
  by (rule read_n_encoded) (simp add: read_varint_def)

lemma read_tos:
  "read_n (length xs) (\<lambda>r. and_then (read_bytes what 20 r) (\<lambda>(x, r). Inr (word_of_nat x, r)))
     (concat (map (\<lambda>a. be_encode 20 (unat a)) xs) @ r) = Inr (xs, r)" for xs :: "address list"
  by (rule read_n_encoded) simp

lemma ReadTxData_marshalled:
  assumes "good_tx C chainID raw tx"
  shows "ReadTxData C (stx_MarshalBinary C (stx_of tx) @ r) = Inr ((stx_MarshalBinary C (stx_of tx), etx_Type tx), r)"
proof -
  note g = good_txD [OF assms]
  obtain b bs where b: "rlp_encode C (stx_of tx) = b # bs" "b \<ge> 192"
    using g(6,7) by (cases "rlp_encode C (stx_of tx)") auto
  then have "\<not> b \<le> 127" by (simp add: word_le_nat_alt)
  moreover have "rlp_list C (b # bs @ r) = RawList (b # bs) r" using g(8) [of r] b by simp
  moreover have "etx_Type tx \<le> 127" using good_tx_type [OF assms] by (auto simp: word_le_nat_alt)
  ultimately show ?thesis
    using b by (auto simp: ReadTxData_def stx_MarshalBinary_def g(4) Let_def)
qed

lemma stx_UnmarshalBinary_marshalled:
  assumes "good_tx C chainID raw tx"
  shows "stx_UnmarshalBinary C (stx_MarshalBinary C (stx_of tx)) = Inr (stx_of tx)"
proof -
  note g = good_txD [OF assms]
  obtain b bs where b: "rlp_encode C (stx_of tx) = b # bs" "b \<ge> 192"
    using g(6,7) by (cases "rlp_encode C (stx_of tx)") auto
  then have "b > 127" by (simp add: word_le_nat_alt word_less_nat_alt)
  then show ?thesis
    using b g(5) good_tx_type [OF assms]
    by (auto simp: stx_MarshalBinary_def stx_UnmarshalBinary_def decodeTyped_def g(4))
qed

lemma count_bits: "length (filter (bit (bits_of bs)) [0..<length bs]) = length (filter id bs)"
proof -
  have "filter (bit (bits_of bs)) [0..<length bs] = filter (\<lambda>i. bs ! i) [0..<length bs]"
    by (rule filter_cong) (auto simp: bit_bits_of)
  moreover have "map (nth bs) (filter (\<lambda>i. bs ! i) [0..<length bs]) = filter id (map (nth bs) [0..<length bs])"
    by (simp add: filter_map o_def)
  ultimately show ?thesis by (metis length_map map_nth)
qed

lemma length_map_filter_None:
  "length (List.map_filter f xs) + length (filter (\<lambda>x. f x = None) xs) = length xs"
  by (induction xs) (auto simp: List.map_filter_def)

lemma read_txdatas:
  assumes "list_all2 (good_tx C chainID) raws txs"
  shows "read_n (length txs) (ReadTxData C) (concat (map (\<lambda>tx. stx_MarshalBinary C (stx_of tx)) txs) @ r) =
    Inr (map (\<lambda>tx. (stx_MarshalBinary C (stx_of tx), etx_Type tx)) txs, r)"
  using assms
  by (induction raws txs rule: list_all2_induct) (auto simp: ReadTxData_marshalled)

definition clear_v :: "spanBatchTxs \<Rightarrow> spanBatchTxs" where
  "clear_v btx = btx\<lparr>txSigs := map (\<lambda>s. s\<lparr>sg_v := 0\<rparr>) (txSigs btx)\<rparr>"

lemma decode_columns:
  assumes good: "list_all2 (good_tx C chainID) raws txs" and n: "length txs = unat n" "n \<le> MaxSpanBatchElementCount"
  shows "\<exists>e. sbtxs_encode (columns C n txs) = Inr e \<and>
    (\<forall>r. sbtxs_decode C (empty_spanBatchTxs\<lparr>totalBlockTxCount := n\<rparr>) (e @ r) = Inr (clear_v (columns C n txs), r))"
proof -
  define creates where "creates = map (\<lambda>tx. etx_To tx = None) txs"
  define m where "m = (word_of_nat (length (filter is_legacy txs)) :: u64)"
  have small: "unat n < 2 ^ 63" "length txs \<le> 10000000"
    using n by (auto simp: MaxSpanBatchElementCount_def word_le_nat_alt)
  have lf: "length (filter is_legacy txs) \<le> 10000000" using small(2) length_filter_le le_trans by blast
  have m: "unat m = length (filter is_legacy txs)" "unat m < 2 ^ 63" "\<not> m > MaxSpanBatchElementCount"
    using small lf by (auto simp: m_def unat_of_nat word_less_nat_alt MaxSpanBatchElementCount_def)
  obtain cc where cc: "encodeSpanBatchBits n (Some (bits_of creates)) = Inr cc"
    "\<And>r. decodeSpanBatchBits n (cc @ r) = Inr (bits_of creates, r)"
    using bits_roundtrip [of n creates] small n by (auto simp: creates_def)
  obtain yp where yp: "encodeSpanBatchBits n (Some (bits_of (map y_parity txs))) = Inr yp"
    "\<And>r. decodeSpanBatchBits n (yp @ r) = Inr (bits_of (map y_parity txs), r)"
    using bits_roundtrip [of n "map y_parity txs"] small n by auto
  obtain pb where pb: "encodeSpanBatchBits m (Some (bits_of (map Protected (filter is_legacy txs)))) = Inr pb"
    "\<And>r. decodeSpanBatchBits m (pb @ r) = Inr (bits_of (map Protected (filter is_legacy txs)), r)"
    using bits_roundtrip [of m "map Protected (filter is_legacy txs)"] m by auto
  have "length (filter (bit (bits_of creates)) [0..<unat n]) = length (filter (\<lambda>tx. etx_To tx = None) txs)"
    using count_bits [of creates] n by (simp add: creates_def filter_map o_def)
  then have tos: "unat (n - word_of_nat (length (filter (bit (bits_of creates)) [0..<unat n]))) =
      length (List.map_filter etx_To txs)"
    using length_map_filter_None [of etx_To txs] n small
    by (subst unat_sub) (auto simp: word_le_nat_alt unat_of_nat)
  have legacy: "filter (\<lambda>tx. etx_Type tx = 0) txs = filter is_legacy txs"
    by (simp add: is_legacy_def [abs_def])
  have rd: "\<And>r. read_n (unat n) (ReadTxData C) (concat (map (\<lambda>tx. stx_MarshalBinary C (stx_of tx)) txs) @ r) =
     Inr (map (\<lambda>tx. (stx_MarshalBinary C (stx_of tx), etx_Type tx)) txs, r)"
    using read_txdatas [OF good] n by simp
  have rs: "\<And>r. read_n (unat n) read_sig (encodeTxSigsRS (map tx_sig txs) @ r) =
     Inr (map (\<lambda>s. s\<lparr>sg_v := 0\<rparr>) (map tx_sig txs), r)"
    using read_sigs [of "map tx_sig txs"] n by simp
  have rv: "\<And>f what r. read_n (unat n) (read_varint what) (concat (map (\<lambda>tx. PutUvarint (f tx)) txs) @ r) = Inr (map f txs, r)"
    using read_varints [of "map f txs" for f] n by (simp add: o_def)
  show ?thesis
    using n cc yp pb m(3) read_tos [of "List.map_filter etx_To txs"]
    by (simp add: sbtxs_encode_def sbtxs_decode_def columns_def clear_v_def empty_spanBatchTxs_def not_less
        decodeContractCreationBits_def decodeYParityBits_def decodeTxSigsRS_def decodeTxTos_def decodeTxDatas_def
        decodeTxNonces_def decodeTxGases_def decodeProtectedBits_def contractCreationCount_def
        tos rd rs rv legacy filter_map o_def flip: m_def creates_def)
qed

section \<open>The transactions of the columns\<close>

abbreviation parity_bit :: "('al, 'au) TxData \<Rightarrow> u64" where
  "parity_bit tx \<equiv> (if y_parity tx then 1 else 0)"

lemma tx_sig_v:
  assumes "sig_ok chainID tx" and "newSpanBatchTx tx = Inr stx"
  shows "sg_v (tx_sig tx) =
    (if is_legacy tx then if \<not> Protected tx then 27 + parity_bit tx else word_of_nat chainID * 2 + 35 + parity_bit tx
     else parity_bit tx)"
proof -
  define v where "v = fst (RawSignatureValues tx)"
  have sig: "sg_v (tx_sig tx) = word_of_nat v" by (simp add: tx_sig_def v_def split: prod.splits)
  show ?thesis
  proof (cases "is_legacy tx")
    case False
    then have "v = 0 \<or> v = 1" and "y_parity tx = (v = 1)"
      using assms by (auto simp: sig_ok_def is_legacy_def y_parity_def v_def split: prod.splits)
    then show ?thesis unfolding sig using False by auto
  next
    case True
    have y: "y_parity tx = even v" using True by (simp add: y_parity_def v_def)
    have p: "Protected tx \<longleftrightarrow> v \<ge> 35" using legacy_protected [OF assms(1) True assms(2)] by (simp add: v_def)
    from assms True have "v \<in> {27, 28, 35 + 2 * chainID, 36 + 2 * chainID}"
      by (auto simp: sig_ok_def v_def is_legacy_def split: prod.splits)
    then show ?thesis unfolding sig using True y p by auto
  qed
qed

lemma recoverV_loop_columns:
  assumes "list_all2 (good_tx C chainID) raws txs"
    and "yp = bits_of (map y_parity (pre @ txs))" and "pb = bits_of (map Protected (filter is_legacy (pre @ txs)))"
  shows "recoverV_loop chainID yp pb (length pre) (length (filter is_legacy pre))
    (zip (map etx_Type txs) (map (\<lambda>tx. (tx_sig tx)\<lparr>sg_v := 0\<rparr>) txs)) = Inr (map tx_sig txs)"
  using assms
proof (induction raws txs arbitrary: pre rule: list_all2_induct)
  case (Cons raw raws tx txs)
  note g = good_txD [OF Cons.hyps(1)]
  have y: "bit yp (length pre) = y_parity tx"
    using Cons.prems(1) by (simp add: bit_bits_of nth_append)
  have p: "bit pb (length (filter is_legacy pre)) = Protected tx" if "is_legacy tx"
    using Cons.prems(2) that by (simp add: bit_bits_of nth_append)
  have "recoverV_loop chainID yp pb (length (pre @ [tx])) (length (filter is_legacy (pre @ [tx])))
    (zip (map etx_Type txs) (map (\<lambda>tx. (tx_sig tx)\<lparr>sg_v := 0\<rparr>) txs)) = Inr (map tx_sig txs)"
    using Cons.prems by (intro Cons.IH) simp_all
  moreover have "is_legacy tx \<longleftrightarrow> etx_Type tx = LegacyTxType" by (rule is_legacy_def)
  moreover have "(tx_sig tx)\<lparr>sg_v := k\<rparr> = tx_sig tx" if "sg_v (tx_sig tx) = k" for k
    using that by (cases "tx_sig tx") simp
  ultimately show ?case
    using tx_sig_v [OF g(9,3)] good_tx_type [OF Cons.hyps(1)] y p
    by (cases "is_legacy tx") auto
qed simp

lemma recoverV_columns:
  assumes "list_all2 (good_tx C chainID) raws txs"
  shows "recoverV chainID (clear_v (columns C n txs)) = Inr (columns C n txs)"
  using recoverV_loop_columns [OF assms refl refl, of "[]"]
  by (simp add: recoverV_def clear_v_def columns_def o_def)

lemma convertToFullTx_stx:
  assumes "sig_ok chainID tx" and "newSpanBatchTx tx = Inr stx"
  shows "convertToFullTx stx (txNonce tx) (txGas tx) (etx_To tx) chainID
    (unat (sg_v (tx_sig tx))) (unat (sg_r (tx_sig tx))) (unat (sg_s (tx_sig tx))) = Inr tx"
proof -
  obtain v r s where v: "RawSignatureValues tx = (v, r, s)" by (cases "RawSignatureValues tx")
  then have b: "chainID < 2 ^ 62" "r < 2 ^ 256" "s < 2 ^ 256" "v < 2 ^ 64" "\<not> is_legacy tx \<Longrightarrow> ChainId tx = chainID"
    using assms(1) by (auto simp: sig_ok_def is_legacy_def split: if_splits)
  have sig: "unat (sg_v (tx_sig tx)) = v" "unat (sg_r (tx_sig tx)) = r" "unat (sg_s (tx_sig tx)) = s"
    using b v by (simp_all add: tx_sig_def unat_of_nat)
  show ?thesis
    unfolding sig using assms(2) v b by (cases tx) (auto simp: is_legacy_def unat_array_less(1) [folded not_le])
qed

lemma fullTxs_loop_columns:
  assumes "list_all2 (good_tx C chainID) raws txs" and "btx = columns C n (pre @ txs)"
  shows "fullTxs_loop C chainID btx (length txs) (length pre) (List.map_filter etx_To txs) = Inr raws"
  using assms
proof (induction raws txs arbitrary: pre rule: list_all2_induct)
  case (Cons raw raws tx txs)
  note g = good_txD [OF Cons.hyps(1)]
  have "fullTxs_loop C chainID btx (length txs) (length (pre @ [tx])) (List.map_filter etx_To txs) = Inr raws"
    using Cons.prems by (intro Cons.IH) simp
  then show ?case
    using Cons.prems stx_UnmarshalBinary_marshalled [OF Cons.hyps(1)] convertToFullTx_stx [OF g(9,3)] g(2)
    by (cases "etx_To tx") (auto simp: columns_def nth_append bit_bits_of List.map_filter_def)
qed (simp add: List.map_filter_def)

lemma fullTxs_columns:
  assumes "list_all2 (good_tx C chainID) raws txs" and "length txs = unat n"
  shows "fullTxs C chainID (columns C n txs) = Inr raws"
  using fullTxs_loop_columns [OF assms(1) refl, of n "[]"] assms(2) by (simp add: fullTxs_def columns_def)

section \<open>Properties\<close>

text \<open>C28: Transactions split into columns, encoded, decoded and put together again are the transactions
  that went in, byte for byte, and the decoder stops where the columns end. Nothing is lost with the
  type, the chain and the \<open>V\<close> of the signatures, which are not stored. Asked of each
  transaction: its signature is one the span-batch format can express, and the codecs of the libraries
  read back what they wrote.\<close>

theorem span_txs_roundtrip:
  assumes "list_all2 (good_tx C chainID) raws txs" and "length raws \<le> unat MaxSpanBatchElementCount"
  shows "\<exists>btx bytes. newSpanBatchTxs C chainID raws = Inr btx \<and> sbtxs_encode btx = Inr bytes \<and>
    (\<forall>r. and_then (sbtxs_decode C (empty_spanBatchTxs\<lparr>totalBlockTxCount := totalBlockTxCount btx\<rparr>) (bytes @ r))
           (\<lambda>(dec, rest). and_then (recoverV chainID dec) (\<lambda>dec'.
              map_sum id (\<lambda>txs. (dec', txs, rest)) (fullTxs C chainID dec'))) = Inr (btx, raws, r))"
proof -
  define n where "n = (word_of_nat (length txs) :: u64)"
  have l: "length raws = length txs" using assms(1) by (rule list_all2_lengthD)
  then have n: "length txs = unat n" "n \<le> MaxSpanBatchElementCount" "length raws < 2 ^ 64"
    using assms(2) by (auto simp: n_def unat_of_nat word_le_nat_alt MaxSpanBatchElementCount_def)
  obtain e where "sbtxs_encode (columns C n txs) = Inr e"
    "\<And>r. sbtxs_decode C (empty_spanBatchTxs\<lparr>totalBlockTxCount := n\<rparr>) (e @ r) = Inr (clear_v (columns C n txs), r)"
    using decode_columns [OF assms(1) n(1,2)] by blast
  moreover have "newSpanBatchTxs C chainID raws = Inr (columns C n txs)"
    using newSpanBatchTxs_columns [OF assms(1) n(3)] unfolding n_def .
  moreover have "totalBlockTxCount (columns C n txs) = n" by (simp add: columns_def)
  ultimately show ?thesis
    using recoverV_columns [OF assms(1), of n] fullTxs_columns [OF assms(1) n(1)] by simp
qed

text \<open>A codec that knows two transactions: a protected legacy transfer and a contract creation with
  dynamic fee.\<close>

definition sample_txs :: "(unit, unit) TxData list" where
  "sample_txs = [LegacyTx 7 1 21000 (Some 5) 9 [] 37 3 4, DynamicFeeTx 1 300 1 2 50000 None 0 [6] () 0 5 6]"

definition sample_raws :: "byte list list" where "sample_raws = [[200, 1], [2, 201]]"

definition sample_codecs :: "(unit, unit) codecs" where
  "sample_codecs = \<lparr>
     rlp_encode = (\<lambda>d. case d of spanBatchLegacyTxData _ _ _ \<Rightarrow> [193, 1] | _ \<Rightarrow> [193, 2]),
     rlp_decode = (\<lambda>t bs. if t = 0 then Some (spanBatchLegacyTxData 9 1 []) else Some (spanBatchDynamicFeeTxData 0 1 2 [6] ())),
     tx_marshal = (\<lambda>tx. if etx_Type tx = 0 then Some [200, 1] else Some [2, 201]),
     tx_unmarshal = (\<lambda>bs. if bs = [200, 1] then Some (sample_txs ! 0) else if bs = [2, 201] then Some (sample_txs ! 1) else None),
     rlp_list = (\<lambda>bs. RawList (take 2 bs) (drop 2 bs))\<rparr>"

lemma sample_good: "list_all2 (good_tx sample_codecs 1) sample_raws sample_txs"
  by (simp add: sample_raws_def sample_txs_def sample_codecs_def good_tx_def tx_codec_ok_def sig_ok_def)

theorem span_txs_roundtrip_witness:
  "length sample_raws = 2 \<and>
   (\<exists>btx bytes. newSpanBatchTxs sample_codecs 1 sample_raws = Inr btx \<and> sbtxs_encode btx = Inr bytes \<and>
    (\<forall>r. and_then (sbtxs_decode sample_codecs (empty_spanBatchTxs\<lparr>totalBlockTxCount := totalBlockTxCount btx\<rparr>) (bytes @ r))
           (\<lambda>(dec, rest). and_then (recoverV 1 dec) (\<lambda>dec'.
              map_sum id (\<lambda>txs. (dec', txs, rest)) (fullTxs sample_codecs 1 dec'))) = Inr (btx, sample_raws, r)))"
  using span_txs_roundtrip [OF sample_good]
  by (simp add: sample_raws_def MaxSpanBatchElementCount_def)

end
