(* ===== verification/Span_Batch.thy ===== *)
theory Span_Batch
  imports Span_Batch_Txs
begin

text \<open>
  Span batches in their wire format (\<open>op-node/rollup/derive/span_batch.go\<close>): the prefix and the payload of
  a \<open>RawSpanBatch\<close> with their encoders and decoders, the derivation of a \<open>SpanBatch\<close> from it, and the way the batcher
  builds a \<open>SpanBatch\<close> from singular batches. The texts that the code wraps around errors are left out.
\<close>

section \<open>Definitions\<close>

subsection \<open>Prefix\<close>

record spanBatchPrefix =
  relTimestamp :: u64
  l1OriginNum :: u64
  parentCheck :: address
  l1OriginCheck :: address

definition encodePrefix :: "spanBatchPrefix \<Rightarrow> byte list" where
  "encodePrefix bp = PutUvarint (relTimestamp bp) @ PutUvarint (l1OriginNum bp) @
     be_encode 20 (unat (parentCheck bp)) @ be_encode 20 (unat (l1OriginCheck bp))"

definition decodePrefix :: "byte list \<Rightarrow> span_error + spanBatchPrefix \<times> byte list" where
  "decodePrefix r =
     and_then (read_varint ''failed to read rel timestamp'' r) (\<lambda>(t, r).
     and_then (read_varint ''failed to read l1 origin num'' r) (\<lambda>(n, r).
     and_then (read_bytes ''failed to read parent check'' 20 r) (\<lambda>(p, r).
     and_then (read_bytes ''failed to read l1 origin check'' 20 r) (\<lambda>(c, r).
     Inr (\<lparr>relTimestamp = t, l1OriginNum = n, parentCheck = word_of_nat p, l1OriginCheck = word_of_nat c\<rparr>, r)))))"

subsection \<open>Payload\<close>

text \<open>A nil slice is the empty list, a nil pointer \<open>None\<close>.\<close>

record spanBatchPayload =
  blockCount :: u64
  pl_originBits :: "nat option"
  pl_blockTxCounts :: "u64 list"
  pl_txs :: "spanBatchTxs option"

definition empty_payload :: spanBatchPayload where
  "empty_payload = \<lparr>blockCount = 0, pl_originBits = None, pl_blockTxCounts = [], pl_txs = None\<rparr>"

definition encodeTxs :: "spanBatchPayload \<Rightarrow> span_error + byte list" where
  "encodeTxs bp =
     (case pl_txs bp of None \<Rightarrow> Inl (SpanErr ''cannot write txs: txs not set'') | Some txs \<Rightarrow> sbtxs_encode txs)"

definition encodePayload :: "spanBatchPayload \<Rightarrow> span_error + byte list" where
  "encodePayload bp =
     and_then (encodeSpanBatchBits (blockCount bp) (pl_originBits bp)) (\<lambda>ob.
     and_then (encodeTxs bp) (\<lambda>txs.
     Inr (PutUvarint (blockCount bp) @ ob @ concat (map PutUvarint (pl_blockTxCounts bp)) @ txs)))"

definition decodeBlockCount :: "spanBatchPayload \<Rightarrow> byte list \<Rightarrow> span_error + spanBatchPayload \<times> byte list" where
  "decodeBlockCount bp r =
     and_then (read_varint ''failed to read block count'' r) (\<lambda>(n, r).
     if n > MaxSpanBatchElementCount then Inl ErrTooBigSpanBatchSize
     else if n = 0 then Inl ErrEmptySpanBatch
     else Inr (bp\<lparr>blockCount := n\<rparr>, r))"

definition decodeOriginBits :: "spanBatchPayload \<Rightarrow> byte list \<Rightarrow> span_error + spanBatchPayload \<times> byte list" where
  "decodeOriginBits bp r =
     (if blockCount bp > MaxSpanBatchElementCount then Inl ErrTooBigSpanBatchSize
      else and_then (decodeSpanBatchBits (blockCount bp) r) (\<lambda>(bits, r). Inr (bp\<lparr>pl_originBits := Some bits\<rparr>, r)))"

definition read_tx_count :: "byte list \<Rightarrow> span_error + u64 \<times> byte list" where
  "read_tx_count r =
     and_then (read_varint ''failed to read block tx count'' r) (\<lambda>(n, r).
     if n > MaxSpanBatchElementCount then Inl ErrTooBigSpanBatchSize else Inr (n, r))"

definition decodeBlockTxCounts :: "spanBatchPayload \<Rightarrow> byte list \<Rightarrow> span_error + spanBatchPayload \<times> byte list" where
  "decodeBlockTxCounts bp r =
     and_then (read_n (unat (blockCount bp)) read_tx_count r) (\<lambda>(cs, r). Inr (bp\<lparr>pl_blockTxCounts := cs\<rparr>, r))"

text \<open>\<open>math.SafeAdd\<close> over the counts.\<close>

fun total_txs :: "u64 \<Rightarrow> u64 list \<Rightarrow> span_error + u64" where
  "total_txs t [] = Inr t"
| "total_txs t (c # cs) = (if t + c < t then Inl ErrTooBigSpanBatchSize else total_txs (t + c) cs)"

definition decodeTxs :: "('al, 'au) codecs \<Rightarrow> spanBatchPayload \<Rightarrow> byte list \<Rightarrow> span_error + spanBatchPayload \<times> byte list" where
  "decodeTxs C bp r =
     (let txs = (case pl_txs bp of None \<Rightarrow> empty_spanBatchTxs | Some txs \<Rightarrow> txs) in
      if pl_blockTxCounts bp = [] then Inl (SpanErr ''failed to read txs: blockTxCounts not set'')
      else and_then (total_txs 0 (pl_blockTxCounts bp)) (\<lambda>n.
      if n > MaxSpanBatchElementCount then Inl ErrTooBigSpanBatchSize
      else and_then (sbtxs_decode C (txs\<lparr>totalBlockTxCount := n\<rparr>) r) (\<lambda>(txs, r).
      Inr (bp\<lparr>pl_txs := Some txs\<rparr>, r))))"

definition decodePayload :: "('al, 'au) codecs \<Rightarrow> byte list \<Rightarrow> span_error + spanBatchPayload \<times> byte list" where
  "decodePayload C r =
     and_then (decodeBlockCount empty_payload r) (\<lambda>(bp, r).
     and_then (decodeOriginBits bp r) (\<lambda>(bp, r).
     and_then (decodeBlockTxCounts bp r) (\<lambda>(bp, r).
     decodeTxs C bp r)))"

subsection \<open>Raw span batches\<close>

record RawSpanBatch =
  prefix_of :: spanBatchPrefix
  payload_of :: spanBatchPayload

definition raw_encode :: "RawSpanBatch \<Rightarrow> span_error + byte list" where
  "raw_encode b = and_then (encodePayload (payload_of b)) (\<lambda>p. Inr (encodePrefix (prefix_of b) @ p))"

definition raw_decode :: "('al, 'au) codecs \<Rightarrow> byte list \<Rightarrow> span_error + RawSpanBatch \<times> byte list" where
  "raw_decode C r =
     and_then (decodePrefix r) (\<lambda>(p, r).
     and_then (decodePayload C r) (\<lambda>(q, r).
     Inr (\<lparr>prefix_of = p, payload_of = q\<rparr>, r)))"

text \<open>The loop over the origin bits, from the last block down, with the blocks not yet numbered.\<close>

fun origin_nums :: "nat \<Rightarrow> nat \<Rightarrow> u64 \<Rightarrow> u64 list \<Rightarrow> u64 list" where
  "origin_nums bits 0 num acc = acc"
| "origin_nums bits (Suc i) num acc =
     origin_nums bits i (if bit bits i \<and> i > 0 then num - 1 else num) (num # acc)"

text \<open>The loop that cuts the transactions into blocks.\<close>

fun derive_blocks :: "u64 \<Rightarrow> u64 \<Rightarrow> nat \<Rightarrow> u64 list \<Rightarrow> u64 list \<Rightarrow> byte list list \<Rightarrow>
    span_error + SpanBatchElement list" where
  "derive_blocks start blockTime i [] counts txs = Inr []"
| "derive_blocks start blockTime i (num # nums) [] txs = Inl (SpanPanic ''index out of range'')"
| "derive_blocks start blockTime i (num # nums) (c # counts) txs =
     (if unat c > length txs then Inl (SpanPanic ''index out of range'')
      else and_then (derive_blocks start blockTime (Suc i) nums counts (drop (unat c) txs)) (\<lambda>es.
        Inr (\<lparr>el_EpochNum = num, el_Timestamp = start + blockTime * word_of_nat i,
              el_Transactions = take (unat c) txs\<rparr> # es)))"

definition derive :: "('al, 'au) codecs \<Rightarrow> RawSpanBatch \<Rightarrow> u64 \<Rightarrow> u64 \<Rightarrow> nat \<Rightarrow> span_error + SpanBatch" where
  "derive C b blockTime genesisTimestamp chainID =
     (let p = prefix_of b; q = payload_of b in
      if blockCount q = 0 then Inl ErrEmptySpanBatch
      else case (pl_originBits q, pl_txs q) of
        (Some bits, Some txs) \<Rightarrow>
          and_then (recoverV chainID txs) (\<lambda>txs.
          and_then (fullTxs C chainID txs) (\<lambda>full.
          and_then (derive_blocks (genesisTimestamp + relTimestamp p) blockTime 0
              (origin_nums bits (unat (blockCount q)) (l1OriginNum p) []) (pl_blockTxCounts q) full) (\<lambda>es.
          Inr \<lparr>ParentCheck = parentCheck p, L1OriginCheck = l1OriginCheck p, sp_GenesisTimestamp = 0,
               sp_Batches = es, originBits = 0, blockTxCounts = []\<rparr>)))
      | _ \<Rightarrow> Inl (SpanPanic ''nil pointer dereference''))"

subsection \<open>Building a span batch\<close>

record SpanBatchBuilder = SpanBatch +
  sp_ChainID :: nat
  sbtxs :: spanBatchTxs

definition NewSpanBatch :: "('al, 'au) codecs \<Rightarrow> u64 \<Rightarrow> nat \<Rightarrow> SpanBatchBuilder" where
  "NewSpanBatch C genesisTimestamp chainID =
     \<lparr>ParentCheck = 0, L1OriginCheck = 0, sp_GenesisTimestamp = genesisTimestamp, sp_Batches = [],
      originBits = 0, blockTxCounts = [], sp_ChainID = chainID, sbtxs = projr (newSpanBatchTxs C chainID [])\<rparr>"

definition singularBatchToElement :: "SingularBatch \<Rightarrow> SpanBatchElement" where
  "singularBatchToElement s =
     \<lparr>el_EpochNum = sb_EpochNum s, el_Timestamp = sb_Timestamp s, el_Transactions = sb_Transactions s\<rparr>"

definition AppendSingularBatch ::
  "('al, 'au) codecs \<Rightarrow> SpanBatchBuilder \<Rightarrow> SingularBatch \<Rightarrow> u64 \<Rightarrow> span_error + SpanBatchBuilder" where
  "AppendSingularBatch C b s seqNum =
     (if sp_Batches b \<noteq> [] \<and> el_Timestamp (last (sp_Batches b)) > sb_Timestamp s
      then Inl (SpanPanic ''span batch is not ordered'')
      else let only = (sp_Batches b = []);
               epochBit = (if only then seqNum = 0 else el_EpochNum (last (sp_Batches b)) < sb_EpochNum s);
               b' = b\<lparr>sp_Batches := sp_Batches b @ [singularBatchToElement s],
                      L1OriginCheck := first20 (sb_EpochHash s),
                      ParentCheck := (if only then first20 (sb_ParentHash s) else ParentCheck b),
                      originBits := SetBit (originBits b) (length (sp_Batches b)) epochBit,
                      blockTxCounts := blockTxCounts b @ [word_of_nat (length (sb_Transactions s))]\<rparr> in
      and_then (AddTxs C (sp_ChainID b) (sb_Transactions s) (sbtxs b)) (\<lambda>txs. Inr (b'\<lparr>sbtxs := txs\<rparr>)))"

definition ToRawSpanBatch :: "SpanBatchBuilder \<Rightarrow> span_error + RawSpanBatch" where
  "ToRawSpanBatch b =
     (if sp_Batches b = [] then Inl (SpanErr ''cannot merge empty singularBatch list'')
      else Inr \<lparr>prefix_of = \<lparr>relTimestamp = el_Timestamp (hd (sp_Batches b)) - sp_GenesisTimestamp b,
                            l1OriginNum = el_EpochNum (last (sp_Batches b)),
                            parentCheck = ParentCheck b, l1OriginCheck = L1OriginCheck b\<rparr>,
                payload_of = \<lparr>blockCount = word_of_nat (length (sp_Batches b)), pl_originBits = Some (originBits b),
                             pl_blockTxCounts = blockTxCounts b, pl_txs = Some (sbtxs b)\<rparr>\<rparr>)"

text \<open>Singular batches appended one after the other, each with its sequence number.\<close>

fun append_all :: "('al, 'au) codecs \<Rightarrow> SpanBatchBuilder \<Rightarrow> (SingularBatch \<times> u64) list \<Rightarrow> span_error + SpanBatchBuilder" where
  "append_all C b [] = Inr b"
| "append_all C b ((s, n) # ss) = and_then (AppendSingularBatch C b s n) (\<lambda>b. append_all C b ss)"


section \<open>Decoded span batches\<close>

lemma and_then_Inl_iff: "and_then r f = Inl e \<longleftrightarrow> r = Inl e \<or> (\<exists>x. r = Inr x \<and> f x = Inl e)"
  by (cases r) simp_all

lemma read_n_error: "read_n n f bs = Inl e \<Longrightarrow> \<exists>bs'. f bs' = Inl e"
  by (induction n arbitrary: bs) (auto simp: and_then_Inl_iff)

text \<open>Columns as the decoder leaves them: one entry per transaction, and no bit list is missing.\<close>

definition cols_wf :: "spanBatchTxs \<Rightarrow> bool" where
  "cols_wf t \<longleftrightarrow>
     contractCreationBits t \<noteq> None \<and> yParityBits t \<noteq> None \<and> protectedBits t \<noteq> None \<and>
     (let n = unat (totalBlockTxCount t) in
      length (txSigs t) = n \<and> length (txNonces t) = n \<and> length (txGases t) = n \<and>
      length (txDatas t) = n \<and> length (txTypes t) = n)"

lemmas column_decoders = decodeContractCreationBits_def decodeYParityBits_def decodeTxSigsRS_def decodeTxTos_def
  decodeTxDatas_def decodeTxNonces_def decodeTxGases_def decodeProtectedBits_def

lemma sbtxs_decode_wf:
  assumes "sbtxs_decode C btx r = Inr (t, r')"
  shows "totalBlockTxCount t = totalBlockTxCount btx \<and> cols_wf t"
  using assms
  by (auto simp: sbtxs_decode_def column_decoders and_then_Inr_iff cols_wf_def dest!: read_n_length split: if_splits)

lemma readers_no_panic:
  "decodeSpanBatchBits n r \<noteq> Inl (SpanPanic m)" "read_bytes what k r \<noteq> Inl (SpanPanic m)"
  "read_varint what r \<noteq> Inl (SpanPanic m)" "read_sig r \<noteq> Inl (SpanPanic m)" "ReadTxData C r \<noteq> Inl (SpanPanic m)"
  "contractCreationCount btx \<noteq> Inl (SpanPanic m)"
  by (auto simp: decodeSpanBatchBits_def read_bytes_def read_varint_def read_sig_def and_then_Inl_iff
      ReadTxData_def Let_def contractCreationCount_def
      split: sum.splits prod.splits list.splits list_read.splits if_splits option.splits)

lemma sbtxs_decode_no_panic: "sbtxs_decode C btx r \<noteq> Inl (SpanPanic m)"
  by (auto simp: sbtxs_decode_def column_decoders and_then_Inl_iff readers_no_panic dest!: read_n_error split: if_splits)

definition raw_wf :: "RawSpanBatch \<Rightarrow> bool" where
  "raw_wf b \<longleftrightarrow>
     (let q = payload_of b in
      blockCount q \<noteq> 0 \<and> blockCount q \<le> MaxSpanBatchElementCount \<and> pl_originBits q \<noteq> None \<and>
      length (pl_blockTxCounts q) = unat (blockCount q) \<and>
      (\<exists>t. pl_txs q = Some t \<and> cols_wf t \<and> total_txs 0 (pl_blockTxCounts q) = Inr (totalBlockTxCount t)))"

lemma raw_decode_wf:
  assumes "raw_decode C bs = Inr (b, r)"
  shows "raw_wf b"
  using assms
  by (auto simp: raw_decode_def decodePayload_def decodeBlockCount_def decodeOriginBits_def decodeBlockTxCounts_def
      decodeTxs_def and_then_Inr_iff raw_wf_def Let_def not_less dest!: read_n_length sbtxs_decode_wf split: if_splits)

lemma total_txs_no_panic: "total_txs t cs \<noteq> Inl (SpanPanic m)"
  by (induction cs arbitrary: t) auto

lemma raw_decode_no_panic: "raw_decode C bs \<noteq> Inl (SpanPanic m)"
  by (auto simp: raw_decode_def decodePrefix_def decodePayload_def decodeBlockCount_def decodeOriginBits_def
      decodeBlockTxCounts_def decodeTxs_def read_tx_count_def and_then_Inl_iff Let_def readers_no_panic
      sbtxs_decode_no_panic total_txs_no_panic dest!: read_n_error split: if_splits)


section \<open>Derived span batches\<close>

lemma total_txs_sum: "total_txs t cs = Inr s \<Longrightarrow> unat s = unat t + sum_list (map unat cs)"
proof (induction cs arbitrary: t)
  case (Cons c cs)
  then have "\<not> t + c < t" "total_txs (t + c) cs = Inr s" by (auto split: if_splits)
  moreover from this have "unat (t + c) = unat t + unat c"
    by (metis le_add_same_cancel1 leI unat_plus_simple word_le_nat_alt)
  ultimately show ?case using Cons.IH by fastforce
qed simp

lemma recoverV_loop_length: "recoverV_loop ch yp pb i j ts = Inr sigs \<Longrightarrow> length sigs = length ts"
  by (induction ch yp pb i j ts arbitrary: sigs rule: recoverV_loop.induct)
    (auto simp: Let_def map_sum_def split: if_splits sum.splits)

lemma recoverV_loop_no_panic: "recoverV_loop ch yp pb i j ts \<noteq> Inl (SpanPanic m)"
  by (induction ch yp pb i j ts rule: recoverV_loop.induct) (auto simp: Let_def map_sum_def split: if_splits sum.splits)

lemma recoverV_wf:
  assumes "cols_wf t" and "recoverV ch t = Inr t'"
  shows "cols_wf t' \<and> totalBlockTxCount t' = totalBlockTxCount t"
  using assms
  by (auto simp: recoverV_def cols_wf_def Let_def and_then_Inr_iff dest!: recoverV_loop_length split: if_splits)

lemma recoverV_no_panic: "cols_wf t \<Longrightarrow> recoverV ch t \<noteq> Inl (SpanPanic m)"
  by (auto simp: recoverV_def cols_wf_def Let_def and_then_Inl_iff recoverV_loop_no_panic split: if_splits)

lemma convertToFullTx_no_panic:
  assumes "chainID < 2 ^ 256"
  shows "convertToFullTx stx n g to chainID (unat (v :: u64)) (unat (r :: hash)) (unat (s :: hash)) \<noteq> Inl (SpanPanic m)"
proof -
  have "unat v < 2 ^ 256" using unat_u64_less [of v] by simp
  then show ?thesis
    using assms unat_array_less(1) [folded not_le] by (cases stx) (auto split: option.splits)
qed

lemma stx_UnmarshalBinary_no_panic: "stx_UnmarshalBinary C b \<noteq> Inl (SpanPanic m)"
  by (auto simp: stx_UnmarshalBinary_def decodeTyped_def split: option.splits list.splits)

lemma fullTxs_loop_no_panic:
  assumes "cols_wf t" and "chainID < 2 ^ 256" and "i + n \<le> unat (totalBlockTxCount t)"
  shows "fullTxs_loop C chainID t n i tos \<noteq> Inl (SpanPanic m)"
  using assms(3)
proof (induction n arbitrary: i tos)
  case (Suc n)
  then show ?case
    using assms(1,2) Suc.IH [of "Suc i"]
    by (auto simp: cols_wf_def Let_def and_then_Inl_iff stx_UnmarshalBinary_no_panic
        convertToFullTx_no_panic split: option.splits)
qed simp

lemma fullTxs_loop_length: "fullTxs_loop C chainID t n i tos = Inr txs \<Longrightarrow> length txs = n"
  by (induction n arbitrary: i tos txs) (auto simp: and_then_Inr_iff Let_def split: if_splits option.splits)

lemma origin_nums_eq:
  "origin_nums bits n num acc = map (\<lambda>i. num - word_of_nat (length (filter (bit bits) [Suc i..<n]))) [0..<n] @ acc"
  by (induction n arbitrary: num acc) auto

lemma derive_blocks_shape:
  "length counts = length nums \<Longrightarrow> sum_list (map unat counts) \<le> length txs \<Longrightarrow>
   \<exists>es. derive_blocks start bt i nums counts txs = Inr es \<and> map el_EpochNum es = nums \<and>
     map el_Timestamp es = map (\<lambda>j. start + bt * word_of_nat j) [i..<i + length nums] \<and>
     map (\<lambda>e. length (el_Transactions e)) es = map unat counts \<and>
     concat (map el_Transactions es) = take (sum_list (map unat counts)) txs"
proof (induction start bt i nums counts txs rule: derive_blocks.induct)
  case (3 start blockTime i num nums c counts txs)
  have c: "\<not> unat c > length txs" using "3.prems"(2) by simp
  have "length counts = length nums" "sum_list (map unat counts) \<le> length (drop (unat c) txs)"
    using "3.prems" by auto
  then obtain es where es: "derive_blocks start blockTime (Suc i) nums counts (drop (unat c) txs) = Inr es"
    "map el_EpochNum es = nums"
    "map el_Timestamp es = map (\<lambda>j. start + blockTime * word_of_nat j) [Suc i..<Suc i + length nums]"
    "map (\<lambda>e. length (el_Transactions e)) es = map unat counts"
    "concat (map el_Transactions es) = take (sum_list (map unat counts)) (drop (unat c) txs)"
    using "3.IH" [OF c] by blast
  have u: "[i..<i + length (num # nums)] = i # [Suc i..<Suc i + length nums]" by (simp add: upt_conv_Cons del: upt_Suc)
  show ?case
    unfolding u using c es by (auto simp: take_add simp del: upt_Suc)
qed auto

text \<open>What the derivation of a decoded batch gives: the steps and the blocks.\<close>

lemma derive_wf:
  assumes "raw_wf b" and "derive C b bt g chainID = Inr sp"
  obtains bits txs full where "pl_originBits (payload_of b) = Some bits" and "pl_txs (payload_of b) = Some txs"
    and "and_then (recoverV chainID txs) (fullTxs C chainID) = Inr full"
    and "map el_EpochNum (sp_Batches sp) =
      origin_nums bits (unat (blockCount (payload_of b))) (l1OriginNum (prefix_of b)) []"
    and "map el_Timestamp (sp_Batches sp) =
      map (\<lambda>j. g + relTimestamp (prefix_of b) + bt * word_of_nat j) [0..<unat (blockCount (payload_of b))]"
    and "map (\<lambda>e. length (el_Transactions e)) (sp_Batches sp) = map unat (pl_blockTxCounts (payload_of b))"
    and "concat (map el_Transactions (sp_Batches sp)) = full"
    and "ParentCheck sp = parentCheck (prefix_of b)" and "L1OriginCheck sp = l1OriginCheck (prefix_of b)"
proof -
  define n where "n = unat (blockCount (payload_of b))"
  obtain bits txs where b: "pl_originBits (payload_of b) = Some bits" "pl_txs (payload_of b) = Some txs" "cols_wf txs"
    "total_txs 0 (pl_blockTxCounts (payload_of b)) = Inr (totalBlockTxCount txs)"
    "length (pl_blockTxCounts (payload_of b)) = n" "blockCount (payload_of b) \<noteq> 0"
    using assms(1) by (auto simp: raw_wf_def Let_def n_def)
  obtain txs' full es where d: "recoverV chainID txs = Inr txs'" "fullTxs C chainID txs' = Inr full"
    "derive_blocks (g + relTimestamp (prefix_of b)) bt 0 (origin_nums bits n (l1OriginNum (prefix_of b)) [])
       (pl_blockTxCounts (payload_of b)) full = Inr es"
    "sp = \<lparr>ParentCheck = parentCheck (prefix_of b), L1OriginCheck = l1OriginCheck (prefix_of b), sp_GenesisTimestamp = 0,
       sp_Batches = es, originBits = 0, blockTxCounts = []\<rparr>"
    using assms(2) b by (auto simp: derive_def Let_def and_then_Inr_iff n_def)
  have "totalBlockTxCount txs' = totalBlockTxCount txs" using recoverV_wf [OF b(3) d(1)] by simp
  then have "length full = sum_list (map unat (pl_blockTxCounts (payload_of b)))"
    using d(2) total_txs_sum [OF b(4)] by (auto simp: fullTxs_def dest!: fullTxs_loop_length)
  then show thesis
    using derive_blocks_shape [of "pl_blockTxCounts (payload_of b)" "origin_nums bits n (l1OriginNum (prefix_of b)) []" full
        "g + relTimestamp (prefix_of b)" bt 0] b d that [of bits txs full]
    by (fastforce simp: n_def origin_nums_eq)
qed

lemma derive_no_panic:
  assumes "raw_wf b" and "chainID < 2 ^ 256"
  shows "derive C b bt g chainID \<noteq> Inl (SpanPanic m)"
proof
  assume d: "derive C b bt g chainID = Inl (SpanPanic m)"
  obtain bits txs where b: "pl_originBits (payload_of b) = Some bits" "pl_txs (payload_of b) = Some txs" "cols_wf txs"
    "total_txs 0 (pl_blockTxCounts (payload_of b)) = Inr (totalBlockTxCount txs)" "blockCount (payload_of b) \<noteq> 0"
    "length (pl_blockTxCounts (payload_of b)) = unat (blockCount (payload_of b))"
    using assms(1) by (auto simp: raw_wf_def Let_def)
  then obtain txs' full where r: "recoverV chainID txs = Inr txs'" "fullTxs C chainID txs' = Inr full"
    "derive_blocks (g + relTimestamp (prefix_of b)) bt 0
       (origin_nums bits (unat (blockCount (payload_of b))) (l1OriginNum (prefix_of b)) [])
       (pl_blockTxCounts (payload_of b)) full = Inl (SpanPanic m)"
    using d recoverV_wf [OF b(3)] assms(2)
    by (auto simp: derive_def Let_def and_then_Inl_iff recoverV_no_panic fullTxs_def fullTxs_loop_no_panic)
  moreover have "totalBlockTxCount txs' = totalBlockTxCount txs" using recoverV_wf [OF b(3) r(1)] by simp
  ultimately have "length full = sum_list (map unat (pl_blockTxCounts (payload_of b)))"
    using total_txs_sum [OF b(4)] by (auto simp: fullTxs_def dest!: fullTxs_loop_length)
  then show False
    using derive_blocks_shape [of "pl_blockTxCounts (payload_of b)"
        "origin_nums bits (unat (blockCount (payload_of b))) (l1OriginNum (prefix_of b)) []" full
        "g + relTimestamp (prefix_of b)" bt 0] b(6) r(3)
    by (auto simp: origin_nums_eq)
qed

lemma origin_steps:
  assumes "Suc i < n"
  shows "origin_nums bits n num [] ! Suc i =
    origin_nums bits n num [] ! i + (if bit bits (Suc i) then 1 else 0)"
proof -
  have "[Suc i..<n] = Suc i # [Suc (Suc i)..<n]" using assms by (simp add: upt_conv_Cons)
  then show ?thesis using assms by (simp add: origin_nums_eq del: upt_Suc)
qed

section \<open>Built span batches\<close>

abbreviation block_txs :: "SingularBatch list \<Rightarrow> byte list list" where
  "block_txs sbs \<equiv> concat (map sb_Transactions sbs)"

text \<open>The origin bits of a list of blocks; the first one is given.\<close>

definition epoch_bits :: "bool \<Rightarrow> SingularBatch list \<Rightarrow> bool list" where
  "epoch_bits e0 sbs = map (\<lambda>i. if i = 0 then e0 else sb_EpochNum (sbs ! (i - 1)) < sb_EpochNum (sbs ! i)) [0..<length sbs]"

text \<open>The builder that holds the blocks \<open>sbs\<close>.\<close>

definition built :: "('al, 'au) codecs \<Rightarrow> u64 \<Rightarrow> nat \<Rightarrow> bool \<Rightarrow> SingularBatch list \<Rightarrow> ('al, 'au) TxData list \<Rightarrow> SpanBatchBuilder" where
  "built C g chainID e0 sbs txs =
     \<lparr>ParentCheck = (if sbs = [] then 0 else first20 (sb_ParentHash (hd sbs))),
      L1OriginCheck = (if sbs = [] then 0 else first20 (sb_EpochHash (last sbs))),
      sp_GenesisTimestamp = g, sp_Batches = map singularBatchToElement sbs, originBits = bits_of (epoch_bits e0 sbs),
      blockTxCounts = map (\<lambda>s. word_of_nat (length (sb_Transactions s))) sbs, sp_ChainID = chainID,
      sbtxs = columns C (word_of_nat (length txs)) txs\<rparr>"

lemma NewSpanBatch_built: "NewSpanBatch C g chainID = built C g chainID e0 [] []"
  using newSpanBatchTxs_columns [of C chainID "[]" "[]"] by (simp add: NewSpanBatch_def built_def epoch_bits_def)

lemma epoch_bits_snoc:
  "epoch_bits e0 (sbs @ [s]) =
     epoch_bits e0 sbs @ [if sbs = [] then e0 else sb_EpochNum (last sbs) < sb_EpochNum s]"
  by (auto simp: epoch_bits_def nth_append last_conv_nth)

lemma first_bit: "SetBit 0 0 b = of_bool b" "epoch_bits e0 [s] = [e0]"
  using SetBit_bits_of [of 0 "[]" b] by (simp_all add: epoch_bits_def)

lemma AppendSingularBatch_built:
  assumes "list_all2 (good_tx C chainID) (sb_Transactions s) txs'" and "length txs + length txs' < 2 ^ 64"
    and "sbs \<noteq> [] \<Longrightarrow> sb_Timestamp (last sbs) \<le> sb_Timestamp s" and "sbs = [] \<Longrightarrow> e0 = (n = 0)"
  shows "AppendSingularBatch C (built C g chainID e0 sbs txs) s n = Inr (built C g chainID e0 (sbs @ [s]) (txs @ txs'))"
proof -
  have "AddTxs C chainID (sb_Transactions s) (columns C (word_of_nat (length txs)) txs) =
      Inr (columns C (word_of_nat (length (txs @ txs'))) (txs @ txs'))"
    using assms(1,2) list_all2_lengthD [OF assms(1)] by (intro AddTxs_columns) auto
  moreover have "el_Timestamp (last (map singularBatchToElement sbs)) = sb_Timestamp (last sbs)"
    "el_EpochNum (last (map singularBatchToElement sbs)) = sb_EpochNum (last sbs)" if "sbs \<noteq> []"
    using that by (simp_all add: last_map singularBatchToElement_def)
  moreover have "length (epoch_bits e0 sbs) = length sbs" by (simp add: epoch_bits_def)
  ultimately show ?thesis
    using assms(3,4)
    by (cases "sbs = []") (auto simp: AppendSingularBatch_def built_def epoch_bits_snoc first_bit Let_def)
qed

lemma append_all_built:
  assumes "list_all2 (good_tx C chainID) (block_txs (map fst ss)) txs'" and "length txs + length txs' < 2 ^ 64"
    and "sorted (map sb_Timestamp (sbs @ map fst ss))" and "sbs = [] \<Longrightarrow> ss \<noteq> [] \<Longrightarrow> e0 = (snd (hd ss) = 0)"
  shows "append_all C (built C g chainID e0 sbs txs) ss = Inr (built C g chainID e0 (sbs @ map fst ss) (txs @ txs'))"
  using assms
proof (induction ss arbitrary: sbs txs txs')
  case (Cons sn ss)
  obtain s n where sn: "sn = (s, n)" by (cases sn)
  obtain t1 t2 where t: "txs' = t1 @ t2" "list_all2 (good_tx C chainID) (sb_Transactions s) t1"
    "list_all2 (good_tx C chainID) (block_txs (map fst ss)) t2"
    using Cons.prems(1) sn by (auto simp: list_all2_append1)
  have "AppendSingularBatch C (built C g chainID e0 sbs txs) s n = Inr (built C g chainID e0 (sbs @ [s]) (txs @ t1))"
    using Cons.prems(2-4) t sn by (intro AppendSingularBatch_built) (auto simp: sorted_append)
  moreover have "append_all C (built C g chainID e0 (sbs @ [s]) (txs @ t1)) ss =
    Inr (built C g chainID e0 ((sbs @ [s]) @ map fst ss) ((txs @ t1) @ t2))"
    using Cons.prems t sn by (intro Cons.IH) auto
  ultimately show ?case using sn t(1) by simp
qed simp

lemma decodePrefix_encodePrefix [simp]: "decodePrefix (encodePrefix p @ r) = Inr (p, r)"
  by (cases p) (simp add: decodePrefix_def encodePrefix_def read_varint_def)

lemma total_txs_exact:
  "unat t + sum_list (map unat cs) < 2 ^ 64 \<Longrightarrow> total_txs t cs = Inr (t + sum_list cs)"
proof (induction cs arbitrary: t)
  case (Cons c cs)
  then have "unat (t + c) = unat t + unat c" by (intro unat_add_lem [THEN iffD1]) simp
  with Cons show ?case by (auto simp: add.assoc word_less_nat_alt)
qed simp

lemma read_tx_counts:
  "list_all (\<lambda>c. c \<le> MaxSpanBatchElementCount) cs \<Longrightarrow>
     read_n (length cs) read_tx_count (concat (map PutUvarint cs) @ r) = Inr (cs, r)"
  by (rule read_n_encoded) (auto simp: read_tx_count_def read_varint_def list_all_iff not_less)

lemma origin_nums_epochs:
  assumes "\<And>i. Suc i < n \<Longrightarrow> epoch_step (ep i) (ep (Suc i))"
    and "\<And>i. 0 < i \<Longrightarrow> i < n \<Longrightarrow> bit bits i = (ep (i - 1) < ep i)" and "0 < n"
  shows "origin_nums bits n (ep (n - 1)) acc = map ep [0..<n] @ acc"
  using assms
proof (induction n arbitrary: acc)
  case (Suc n)
  show ?case
  proof (cases n)
    case (Suc m)
    have "(if bit bits n \<and> n > 0 then ep n - 1 else ep n) = ep (n - 1)"
      using Suc.prems(1) [of m] Suc.prems(2) [of n] Suc by (auto simp: epoch_step_def)
    then have "origin_nums bits (Suc n) (ep n) acc = origin_nums bits n (ep (n - 1)) (ep n # acc)"
      by (simp only: origin_nums.simps)
    then show ?thesis using Suc.IH [of "ep n # acc"] Suc.prems \<open>n = Suc m\<close> by (simp del: origin_nums.simps)
  qed simp
qed simp

lemma payload_roundtrip:
  assumes good: "list_all2 (good_tx C chainID) raws txs" and "length txs \<le> unat MaxSpanBatchElementCount"
    and n: "length bs = unat n" "length cs = unat n" "0 < n" "n \<le> MaxSpanBatchElementCount"
    and cs: "sum_list (map unat cs) = length txs" and m: "m = word_of_nat (length txs)"
  shows "\<exists>e. encodePayload \<lparr>blockCount = n, pl_originBits = Some (bits_of bs), pl_blockTxCounts = cs,
      pl_txs = Some (columns C m txs)\<rparr> = Inr e \<and>
    (\<forall>r. decodePayload C (e @ r) = Inr (\<lparr>blockCount = n, pl_originBits = Some (bits_of bs), pl_blockTxCounts = cs,
      pl_txs = Some (clear_v (columns C m txs))\<rparr>, r))"
proof -
  have small: "length txs \<le> 10000000" "unat n < 2 ^ 63"
    using assms(2) n(4) by (auto simp: MaxSpanBatchElementCount_def word_le_nat_alt)
  then have um: "length txs = unat m" "m \<le> MaxSpanBatchElementCount"
    by (auto simp: m unat_of_nat MaxSpanBatchElementCount_def word_le_nat_alt)
  obtain e where e: "sbtxs_encode (columns C m txs) = Inr e"
    "\<And>r. sbtxs_decode C (empty_spanBatchTxs\<lparr>totalBlockTxCount := m\<rparr>) (e @ r) = Inr (clear_v (columns C m txs), r)"
    using decode_columns [OF good um] by blast
  obtain ob where ob: "encodeSpanBatchBits n (Some (bits_of bs)) = Inr ob"
    "\<And>r. decodeSpanBatchBits n (ob @ r) = Inr (bits_of bs, r)"
    using bits_roundtrip [OF small(2) n(1)] by auto
  have "unat c \<le> 10000000" if "c \<in> set cs" for c
    using member_le_sum_list [of "unat c" "map unat cs"] that cs small(1) by auto
  then have rc: "\<And>r. read_n (unat n) read_tx_count (concat (map PutUvarint cs) @ r) = Inr (cs, r)"
    using read_tx_counts [of cs] n(2) by (auto simp: list_all_iff MaxSpanBatchElementCount_def word_le_nat_alt)
  have "total_txs 0 cs = Inr (sum_list cs)" using total_txs_exact [of 0 cs] cs small by simp
  moreover have "sum_list cs = word_of_nat (sum_list (map unat cs))"
    by (induction cs) simp_all
  ultimately have "total_txs 0 cs = Inr m" using cs m by simp
  moreover have "cs \<noteq> []" using n by (auto simp: word_less_nat_alt)
  ultimately show ?thesis
    using e ob rc n(3,4) um(2)
    by (auto simp: encodePayload_def encodeTxs_def decodePayload_def decodeBlockCount_def decodeOriginBits_def
        decodeBlockTxCounts_def decodeTxs_def empty_payload_def read_varint_def not_less)
qed

lemma elements_eqI:
  assumes "map el_EpochNum es = map sb_EpochNum sbs" and "map el_Timestamp es = map sb_Timestamp sbs"
    and "map (\<lambda>e. length (el_Transactions e)) es = map (\<lambda>s. length (sb_Transactions s)) sbs"
    and "concat (map el_Transactions es) = block_txs sbs"
  shows "es = map singularBatchToElement sbs"
proof -
  have l: "length es = length sbs" using map_eq_imp_length_eq [OF assms(1)] .
  have "map el_Transactions es = map sb_Transactions sbs"
    using assms(3,4) l by (intro concat_injective) (auto simp: set_zip map_equality_iff)
  then show ?thesis
    using assms(1,2) l by (intro nth_equalityI SpanBatchElement.equality)
      (auto simp: singularBatchToElement_def map_equality_iff)
qed

text \<open>Singular batches that form a span: equidistant blocks whose epoch stays or advances by one.\<close>

definition span_of :: "u64 \<Rightarrow> SingularBatch list \<Rightarrow> bool" where
  "span_of bt sbs \<longleftrightarrow> sbs \<noteq> [] \<and> length sbs \<le> unat MaxSpanBatchElementCount \<and>
     unat (sb_Timestamp (hd sbs)) + unat bt * length sbs < 2 ^ 64 \<and>
     (\<forall>i<length sbs. sb_Timestamp (sbs ! i) = sb_Timestamp (hd sbs) + bt * word_of_nat i) \<and>
     (\<forall>i. Suc i < length sbs \<longrightarrow> epoch_step (sb_EpochNum (sbs ! i)) (sb_EpochNum (sbs ! Suc i)))"

lemma span_of_sorted:
  assumes "span_of bt sbs"
  shows "sorted (map sb_Timestamp sbs)"
proof (intro sorted_iff_nth_mono [THEN iffD2] allI impI)
  fix i j
  assume ij: "i \<le> j" "j < length (map sb_Timestamp sbs)"
  have u: "unat (sb_Timestamp (sbs ! k)) = unat (sb_Timestamp (hd sbs)) + unat bt * k" if "k < length sbs" for k
  proof -
    have "unat bt * k \<le> unat bt * length sbs" using that by (intro mult_left_mono) auto
    moreover have "unat (sb_Timestamp (hd sbs)) + unat bt * length sbs < 2 ^ 64" using assms unfolding span_of_def by blast
    ultimately have "unat (sb_Timestamp (hd sbs)) + unat bt * k < 2 ^ 64" by linarith
    moreover have "length sbs < 2 ^ 64" using assms by (simp add: span_of_def MaxSpanBatchElementCount_def)
    ultimately show ?thesis
      using assms that by (simp add: span_of_def unat_word_ariths unat_of_nat)
  qed
  show "map sb_Timestamp sbs ! i \<le> map sb_Timestamp sbs ! j"
    using ij u [of i] u [of j] by (simp add: word_le_nat_alt)
qed


lemma built_counts:
  assumes "list_all2 (good_tx C chainID) (block_txs sbs) txs" and "length txs \<le> unat MaxSpanBatchElementCount"
    and "s \<in> set sbs"
  shows "unat (word_of_nat (length (sb_Transactions s)) :: u64) = length (sb_Transactions s)"
  using member_le_sum_list [of "length (sb_Transactions s)" "map (\<lambda>s. length (sb_Transactions s)) sbs"] assms(2,3)
    list_all2_lengthD [OF assms(1)]
  by (auto simp: length_concat o_def unat_of_nat MaxSpanBatchElementCount_def)

lemma derive_built:
  assumes "span_of bt sbs" and good: "list_all2 (good_tx C chainID) (block_txs sbs) txs"
    and "length txs \<le> unat MaxSpanBatchElementCount"
    and raw: "ToRawSpanBatch (built C g chainID e0 sbs txs) = Inr raw"
  shows "derive C (raw\<lparr>payload_of := (payload_of raw)\<lparr>pl_txs := Some (clear_v (columns C (word_of_nat (length txs)) txs))\<rparr>\<rparr>)
      bt g chainID =
    Inr \<lparr>ParentCheck = first20 (sb_ParentHash (hd sbs)), L1OriginCheck = first20 (sb_EpochHash (last sbs)),
      sp_GenesisTimestamp = 0, sp_Batches = map singularBatchToElement sbs, originBits = 0, blockTxCounts = []\<rparr>"
proof -
  have s: "sbs \<noteq> []" "length sbs \<le> 10000000" "length txs \<le> 10000000"
    using assms(1,3) by (auto simp: span_of_def MaxSpanBatchElementCount_def)
  define cs where "cs = map (\<lambda>s. word_of_nat (length (sb_Transactions s)) :: u64) sbs"
  have cs: "map unat cs = map (\<lambda>s. length (sb_Transactions s)) sbs"
    using built_counts [OF good assms(3)] by (simp add: cs_def)
  define nums where "nums = map (\<lambda>i. sb_EpochNum (sbs ! i)) [0..<length sbs]"
  have nums: "nums = map sb_EpochNum sbs" unfolding nums_def by (rule nth_equalityI) auto
  have origins: "origin_nums (bits_of (epoch_bits e0 sbs)) (length sbs) (sb_EpochNum (last sbs)) [] = nums"
    using origin_nums_epochs [of "length sbs" "\<lambda>i. sb_EpochNum (sbs ! i)" "bits_of (epoch_bits e0 sbs)" "[]"] s(1) assms(1)
    by (simp add: span_of_def bit_bits_of epoch_bits_def nums_def last_conv_nth)
  have sum: "sum_list (map unat cs) = length (block_txs sbs)" unfolding cs by (simp add: length_concat o_def)
  have len: "length cs = length nums" "length nums = length sbs" by (simp_all add: cs_def nums_def)
  obtain es where es: "derive_blocks (sb_Timestamp (hd sbs)) bt 0 nums cs (block_txs sbs) = Inr es" "map el_EpochNum es = nums"
    "map el_Timestamp es = map (\<lambda>j. sb_Timestamp (hd sbs) + bt * word_of_nat j) [0..<length sbs]"
    "map (\<lambda>e. length (el_Transactions e)) es = map unat cs" "concat (map el_Transactions es) = block_txs sbs"
    using derive_blocks_shape [of cs nums "block_txs sbs" "sb_Timestamp (hd sbs)" bt 0] sum len
    by auto
  have "map el_Timestamp es = map sb_Timestamp sbs"
    unfolding es(3) using assms(1) by (intro nth_equalityI) (auto simp: span_of_def)
  then have eq: "es = map singularBatchToElement sbs" using es nums cs by (intro elements_eqI) auto
  have n: "unat (word_of_nat (length sbs) :: u64) = length sbs" "(word_of_nat (length sbs) :: u64) \<noteq> 0"
    using s by (auto simp: unat_of_nat word_unat_eq_iff)
  have m: "length txs = unat (word_of_nat (length txs) :: u64)" using s by (simp add: unat_of_nat)
  show ?thesis
    using raw s(1) es(1) origins n recoverV_columns [OF good] fullTxs_columns [OF good m]
    by (auto simp: ToRawSpanBatch_def built_def derive_def eq last_map hd_map singularBatchToElement_def cs_def)
qed


lemma built_payload:
  assumes "span_of bt sbs" and good: "list_all2 (good_tx C chainID) (block_txs sbs) txs"
    and "length txs \<le> unat MaxSpanBatchElementCount"
    and raw: "ToRawSpanBatch (built C g chainID e0 sbs txs) = Inr raw"
  shows "\<exists>e. encodePayload (payload_of raw) = Inr e \<and>
    (\<forall>r. decodePayload C (e @ r) =
      Inr ((payload_of raw)\<lparr>pl_txs := Some (clear_v (columns C (word_of_nat (length txs)) txs))\<rparr>, r))"
proof -
  define n where "n = (word_of_nat (length sbs) :: u64)"
  define cs where "cs = map (\<lambda>s. word_of_nat (length (sb_Transactions s)) :: u64) sbs"
  have s: "sbs \<noteq> []" "length sbs \<le> 10000000" using assms(1) by (auto simp: span_of_def MaxSpanBatchElementCount_def)
  then have n: "unat n = length sbs" by (simp add: n_def unat_of_nat)
  have "length (epoch_bits e0 sbs) = unat n" "length cs = unat n" by (simp_all add: n epoch_bits_def cs_def)
  moreover have "0 < n" "n \<le> MaxSpanBatchElementCount"
    using n s by (auto simp: word_less_nat_alt word_le_nat_alt MaxSpanBatchElementCount_def)
  moreover have "sum_list (map unat cs) = length txs"
    using built_counts [OF good assms(3)] list_all2_lengthD [OF good]
    by (simp add: cs_def length_concat o_def cong: map_cong)
  ultimately show ?thesis
    using payload_roundtrip [OF good assms(3), of "epoch_bits e0 sbs" n cs "word_of_nat (length txs)"] raw s
    by (auto simp: ToRawSpanBatch_def built_def n_def cs_def)
qed

text \<open>A span of two blocks without transactions, the second one in the next epoch, as bytes; what is decoded and derived.\<close>

definition sample_span_bytes :: "byte list" where
  "sample_span_bytes = [10, 5] @ be_encode 20 0 @ be_encode 20 7 @ [2, 2, 0, 0]"

definition sample_raw :: RawSpanBatch where
  "sample_raw = \<lparr>prefix_of = \<lparr>relTimestamp = 10, l1OriginNum = 5, parentCheck = 0, l1OriginCheck = 7\<rparr>,
     payload_of = \<lparr>blockCount = 2, pl_originBits = Some 2, pl_blockTxCounts = [0, 0],
       pl_txs = Some (empty_spanBatchTxs\<lparr>contractCreationBits := Some 0, yParityBits := Some 0, protectedBits := Some 0\<rparr>)\<rparr>\<rparr>"

definition sample_derived :: SpanBatch where
  "sample_derived = \<lparr>ParentCheck = 0, L1OriginCheck = 7, sp_GenesisTimestamp = 0,
     sp_Batches = [\<lparr>el_EpochNum = 4, el_Timestamp = 10, el_Transactions = []\<rparr>,
       \<lparr>el_EpochNum = 5, el_Timestamp = 12, el_Transactions = []\<rparr>], originBits = 0, blockTxCounts = []\<rparr>"

lemma sample_decodes: "raw_decode sample_codecs sample_span_bytes = Inr (sample_raw, [])"
  by code_simp

lemma sample_derives: "derive sample_codecs sample_raw 2 0 5000 = Inr sample_derived"
  by code_simp

text \<open>Two blocks in consecutive epochs, one transaction in each.\<close>

definition sample_singular :: "(SingularBatch \<times> u64) list" where
  "sample_singular =
     [(\<lparr>sb_ParentHash = 3, sb_EpochNum = 4, sb_EpochHash = 40, sb_Timestamp = 10, sb_Transactions = [[200, 1]]\<rparr>, 1),
      (\<lparr>sb_ParentHash = 0, sb_EpochNum = 5, sb_EpochHash = 50, sb_Timestamp = 12, sb_Transactions = [[2, 201]]\<rparr>, 0)]"

lemma sample_singular_span: "span_of 2 (map fst sample_singular)"
  by (auto simp: span_of_def sample_singular_def MaxSpanBatchElementCount_def epoch_step_def less_Suc_eq)

section \<open>Properties\<close>

lemma span_roundtrip:
  assumes "span_of bt (map fst ss)" and "list_all2 (good_tx C chainID) (block_txs (map fst ss)) txs"
    and "length txs \<le> unat MaxSpanBatchElementCount"
  shows "\<exists>b raw bytes. append_all C (NewSpanBatch C g chainID) ss = Inr b \<and> ToRawSpanBatch b = Inr raw \<and>
    raw_encode raw = Inr bytes \<and>
    (\<forall>r. \<exists>raw'. raw_decode C (bytes @ r) = Inr (raw', r) \<and>
      derive C raw' bt g chainID = Inr \<lparr>
        ParentCheck = first20 (sb_ParentHash (fst (hd ss))), L1OriginCheck = first20 (sb_EpochHash (fst (last ss))),
        sp_GenesisTimestamp = 0, sp_Batches = map singularBatchToElement (map fst ss), originBits = 0,
        blockTxCounts = []\<rparr>)"
proof -
  let ?sbs = "map fst ss"
  define e0 where "e0 = (snd (hd ss) = 0)"
  let ?b = "built C g chainID e0 ?sbs txs"
  have s: "?sbs \<noteq> []" "length ?sbs \<le> 10000000" "length txs \<le> 10000000"
    using assms(1,3) by (auto simp: span_of_def MaxSpanBatchElementCount_def)
  have b: "append_all C (NewSpanBatch C g chainID) ss = Inr ?b"
    using append_all_built [OF assms(2), of "[]" "[]" e0 g] span_of_sorted [OF assms(1)] s
    by (simp add: NewSpanBatch_built [of C g chainID e0] e0_def)
  obtain raw where raw: "ToRawSpanBatch ?b = Inr raw" using s(1) by (simp add: ToRawSpanBatch_def built_def)
  let ?p = "(payload_of raw)\<lparr>pl_txs := Some (clear_v (columns C (word_of_nat (length txs)) txs))\<rparr>"
  obtain e where "encodePayload (payload_of raw) = Inr e" "\<And>r. decodePayload C (e @ r) = Inr (?p, r)"
    using built_payload [OF assms raw] by blast
  then have "raw_encode raw = Inr (encodePrefix (prefix_of raw) @ e)"
    "\<And>r. raw_decode C ((encodePrefix (prefix_of raw) @ e) @ r) = Inr (raw\<lparr>payload_of := ?p\<rparr>, r)"
    by (simp_all add: raw_encode_def raw_decode_def)
  with b raw derive_built [OF assms raw] show ?thesis using s(1) by (fastforce simp: hd_map last_map)
qed

text \<open>C8: A span batch survives the wire. Singular batches that form a span (equidistant in time, epochs that
  stay or advance by one) are appended to a new span batch, which is turned into a raw batch and encoded; the decoder
  reads exactly these bytes, and the batch derived from what it read has the blocks that were put in:
  epochs, timestamps and transactions, and the checks of the parent of the first and the origin of the
  last block. Of timestamps and epochs only the first timestamp, the last epoch and one
  bit per block are transmitted.\<close>

theorem span_batch_roundtrip:
  assumes "span_of bt (map fst ss)" and "list_all2 (good_tx C chainID) (block_txs (map fst ss)) txs"
    and "length txs \<le> unat MaxSpanBatchElementCount"
  shows "\<exists>b raw bytes. append_all C (NewSpanBatch C g chainID) ss = Inr b \<and> ToRawSpanBatch b = Inr raw \<and>
    raw_encode raw = Inr bytes \<and>
    (\<forall>r. \<exists>raw'. raw_decode C (bytes @ r) = Inr (raw', r) \<and>
      derive C raw' bt g chainID = Inr \<lparr>
        ParentCheck = first20 (sb_ParentHash (fst (hd ss))), L1OriginCheck = first20 (sb_EpochHash (fst (last ss))),
        sp_GenesisTimestamp = 0, sp_Batches = map singularBatchToElement (map fst ss), originBits = 0,
        blockTxCounts = []\<rparr>)"
  by (rule span_roundtrip [OF assms])


theorem span_batch_roundtrip_witness:
  "\<exists>b raw bytes. append_all sample_codecs (NewSpanBatch sample_codecs 0 1) sample_singular = Inr b \<and>
    ToRawSpanBatch b = Inr raw \<and> raw_encode raw = Inr bytes \<and>
    (\<forall>r. \<exists>raw'. raw_decode sample_codecs (bytes @ r) = Inr (raw', r) \<and>
      derive sample_codecs raw' 2 0 1 = Inr \<lparr>
        ParentCheck = first20 (sb_ParentHash (fst (hd sample_singular))),
        L1OriginCheck = first20 (sb_EpochHash (fst (last sample_singular))), sp_GenesisTimestamp = 0,
        sp_Batches = map singularBatchToElement (map fst sample_singular), originBits = 0, blockTxCounts = []\<rparr>)"
  using sample_good
  by (intro span_batch_roundtrip [OF sample_singular_span, of _ _ sample_txs])
    (simp_all add: sample_singular_def sample_raws_def sample_txs_def MaxSpanBatchElementCount_def)

text \<open>C32: Whatever bytes a channel holds, decoding a span batch from them and deriving its blocks does not panic:
  no index out of range, no nil pointer, no overflow of a 256-bit integer. (The chain id is configured and fits in 256 bits.)\<close>

theorem decoded_span_never_panics:
  assumes "chainID < 2 ^ 256"
  shows "raw_decode C bs \<noteq> Inl (SpanPanic m) \<and>
    (\<forall>b r. raw_decode C bs = Inr (b, r) \<longrightarrow> derive C b bt g chainID \<noteq> Inl (SpanPanic m))"
  using raw_decode_no_panic [of C bs m] derive_no_panic [OF raw_decode_wf assms] by blast

theorem decoded_span_never_panics_witness:
  "raw_decode sample_codecs sample_span_bytes = Inr (sample_raw, []) \<and>
    derive sample_codecs sample_raw 2 0 5000 \<noteq> Inl (SpanPanic ''overflow'')"
  using decoded_span_never_panics [of 5000 sample_codecs sample_span_bytes "''overflow''" 2 0] sample_decodes by simp

text \<open>C33: The shape of a derived span batch, whatever bytes it was decoded from: between one and
  \<open>MaxSpanBatchElementCount\<close> blocks, one block time apart, the last one in the epoch that the prefix names, each in the
  epoch of the block before or the next one (modulo the width of the number, since the code does not check
  that epochs stay positive). The transactions of the blocks, joined, are all the transactions read.\<close>

theorem decoded_span_shape:
  assumes "raw_decode C bs = Inr (b, r)" and "derive C b bt g chainID = Inr sp"
  shows "0 < length (sp_Batches sp) \<and> length (sp_Batches sp) \<le> unat MaxSpanBatchElementCount \<and>
    (\<forall>i<length (sp_Batches sp).
      el_Timestamp (sp_Batches sp ! i) = g + relTimestamp (prefix_of b) + bt * word_of_nat i) \<and>
    el_EpochNum (last (sp_Batches sp)) = l1OriginNum (prefix_of b) \<and>
    (\<forall>i. Suc i < length (sp_Batches sp) \<longrightarrow>
      el_EpochNum (sp_Batches sp ! Suc i) - el_EpochNum (sp_Batches sp ! i) \<in> {0, 1}) \<and>
    (\<exists>txs. pl_txs (payload_of b) = Some txs \<and>
      and_then (recoverV chainID txs) (fullTxs C chainID) = Inr (concat (map el_Transactions (sp_Batches sp))))"
proof -
  have wf: "raw_wf b" using raw_decode_wf [OF assms(1)] .
  define n where "n = unat (blockCount (payload_of b))"
  have n: "0 < n" "n \<le> unat MaxSpanBatchElementCount"
    using wf by (auto simp: raw_wf_def Let_def n_def word_le_nat_alt unat_gt_0)
  obtain bits txs full where d: "pl_txs (payload_of b) = Some txs"
    "and_then (recoverV chainID txs) (fullTxs C chainID) = Inr full"
    "map el_EpochNum (sp_Batches sp) = origin_nums bits n (l1OriginNum (prefix_of b)) []"
    "map el_Timestamp (sp_Batches sp) = map (\<lambda>j. g + relTimestamp (prefix_of b) + bt * word_of_nat j) [0..<n]"
    "concat (map el_Transactions (sp_Batches sp)) = full"
    using derive_wf [OF wf assms(2)] unfolding n_def by metis
  have l: "length (sp_Batches sp) = n" using map_eq_imp_length_eq [OF d(4)] by simp
  then have ep: "el_EpochNum (sp_Batches sp ! i) = origin_nums bits n (l1OriginNum (prefix_of b)) [] ! i" if "i < n" for i
    using that d(3) by (metis nth_map)
  have ts: "el_Timestamp (sp_Batches sp ! i) = g + relTimestamp (prefix_of b) + bt * word_of_nat i" if "i < n" for i
    using that l arg_cong [OF d(4), of "\<lambda>xs. xs ! i"] by simp
  have "el_EpochNum (last (sp_Batches sp)) = l1OriginNum (prefix_of b)"
    using n l ep [of "n - 1"] by (simp add: last_conv_nth origin_nums_eq flip: length_greater_0_conv)
  then show ?thesis
    using n l ts d(1,2,5) ep origin_steps [of _ n bits] by auto
qed

theorem decoded_span_shape_witness:
  "0 < length (sp_Batches sample_derived) \<and> length (sp_Batches sample_derived) \<le> unat MaxSpanBatchElementCount \<and>
    el_Timestamp (sp_Batches sample_derived ! 1) = 0 + relTimestamp (prefix_of sample_raw) + 2 * word_of_nat 1 \<and>
    el_EpochNum (last (sp_Batches sample_derived)) = l1OriginNum (prefix_of sample_raw) \<and>
    el_EpochNum (sp_Batches sample_derived ! Suc 0) - el_EpochNum (sp_Batches sample_derived ! 0) \<in> {0, 1} \<and>
    (\<exists>txs. pl_txs (payload_of sample_raw) = Some txs \<and>
      and_then (recoverV 5000 txs) (fullTxs sample_codecs 5000) =
        Inr (concat (map el_Transactions (sp_Batches sample_derived))))"
proof -
  have l: "length (sp_Batches sample_derived) = 2" by (simp add: sample_derived_def)
  show ?thesis using decoded_span_shape [OF sample_decodes sample_derives] unfolding l by (elim conjE, intro conjI) simp_all
qed

end
