(* ===== verification/Blob.thy ===== *)
theory Blob
  imports Prelude
begin

unbundle bit_operations_syntax

text \<open>
  The blob codec (\<open>op-service/eth/blob.go\<close>): up to 130044 bytes of data in the 4096 field
  elements of a blob, the top two bits of each left empty. The code writes behind a moving
  offset into a cleared array and asserts its alignment; here the bytes written so far are the
  list before the offset, and a failed assertion is an error value. The theory shows that no
  assertion fails and that the decoder gives back what was encoded.
\<close>

section \<open>Definitions\<close>

definition BlobSize :: nat where "BlobSize = 4096 * 32"
definition MaxBlobDataSize :: nat where "MaxBlobDataSize = (4 * 31 + 3) * 1024 - 4"
definition EncodingVersion :: byte where "EncodingVersion = 0"
definition VersionOffset :: nat where "VersionOffset = 1"
definition Rounds :: nat where "Rounds = 1024"

datatype blob_error =
    ErrBlobInvalidFieldElement nat | ErrBlobInvalidEncodingVersion byte
  | ErrBlobInvalidLength nat | ErrBlobInputTooLarge | ErrBlobExtraneousData nat
  | ErrBlobExtraneousDataFieldElement | InvalidByteWriteOffset nat | Invalid6BitValue byte
  | InvalidBytes31WriteOffset nat | DataDoesNotFit

subsection \<open>Encoding\<close>

text \<open>\<open>data[readOffset:]\<close> is the rest of the input.\<close>

definition pad :: "nat \<Rightarrow> byte list \<Rightarrow> byte list" where
  "pad n bs = take n bs @ replicate (n - length bs) 0"

definition read1 :: "byte list \<Rightarrow> byte \<times> byte list" where
  "read1 rest = (case rest of [] \<Rightarrow> (0, []) | x # xs \<Rightarrow> (x, xs))"

definition read31 :: "byte list \<Rightarrow> byte list \<times> byte list" where
  "read31 rest = (pad 31 rest, drop 31 rest)"

definition write1 :: "byte \<Rightarrow> byte list \<Rightarrow> blob_error + byte list" where
  "write1 v out =
     (if length out mod 32 \<noteq> 0 then Inl (InvalidByteWriteOffset (length out))
      else if v AND 0b11000000 \<noteq> 0 then Inl (Invalid6BitValue v)
      else Inr (out @ [v]))"

definition write31 :: "byte list \<Rightarrow> byte list \<Rightarrow> blob_error + byte list" where
  "write31 buf31 out =
     (if length out mod 32 \<noteq> 1 then Inl (InvalidBytes31WriteOffset (length out))
      else Inr (out @ buf31))"

definition write_element :: "byte \<Rightarrow> byte list \<Rightarrow> byte list \<Rightarrow> blob_error + byte list" where
  "write_element v buf31 out = (case write1 v out of Inl e \<Rightarrow> Inl e | Inr out1 \<Rightarrow> write31 buf31 out1)"

text \<open>A round after its first chunk \<open>buf31\<close> has been read.\<close>

definition encode_round ::
  "byte list \<Rightarrow> byte list \<Rightarrow> byte list \<Rightarrow> blob_error + byte list \<times> byte list" where
  "encode_round buf31 rest out =
     (let (x, r1) = read1 rest;
          (bufB, r2) = read31 r1; (y, r3) = read1 r2;
          (bufC, r4) = read31 r3; (z, r5) = read1 r4;
          (bufD, r6) = read31 r5;
          A = x AND 0b00111111;
          B = (y AND 0b00001111) OR drop_bit 2 (x AND 0b11000000);
          C = z AND 0b00111111;
          D = drop_bit 2 (z AND 0b11000000) OR drop_bit 4 (y AND 0b11110000)
      in case write_element A buf31 out of Inl e \<Rightarrow> Inl e | Inr o1 \<Rightarrow>
         case write_element B bufB o1 of Inl e \<Rightarrow> Inl e | Inr o2 \<Rightarrow>
         case write_element C bufC o2 of Inl e \<Rightarrow> Inl e | Inr o3 \<Rightarrow>
         case write_element D bufD o3 of Inl e \<Rightarrow> Inl e | Inr o4 \<Rightarrow> Inr (o4, r6))"

text \<open>The first chunk of round 0: the version, the length as a 24-bit number, and data.\<close>

definition first_chunk :: "byte list \<Rightarrow> byte list \<times> byte list" where
  "first_chunk data =
     (let ilen = word_of_nat (length data) :: u32
      in (pad 31 (EncodingVersion # ucast (drop_bit 16 ilen) # ucast (drop_bit 8 ilen) # ucast ilen
            # take 27 data), drop 27 data))"

fun encode_loop ::
  "nat list \<Rightarrow> byte list \<Rightarrow> byte list \<Rightarrow> blob_error + byte list \<times> byte list" where
  "encode_loop [] rest out = Inr (out, rest)"
| "encode_loop (round # rounds) rest out =
     (if rest = [] then Inr (out, rest)
      else let (buf31, r) = (if round = 0 then first_chunk rest else read31 rest)
        in case encode_round buf31 r out of
             Inl e \<Rightarrow> Inl e
           | Inr (out', rest') \<Rightarrow> encode_loop rounds rest' out')"

definition FromData :: "byte list \<Rightarrow> blob_error + byte list" where
  "FromData data =
     (if length data > MaxBlobDataSize then Inl ErrBlobInputTooLarge
      else case encode_loop [0..<Rounds] data [] of
        Inl e \<Rightarrow> Inl e
      | Inr (out, rest) \<Rightarrow> if rest \<noteq> [] then Inl DataDoesNotFit else Inr (pad BlobSize out))"

subsection \<open>Decoding\<close>

text \<open>Go's \<open>copy(dst[off:], src)\<close>.\<close>

definition copy_at :: "byte list \<Rightarrow> nat \<Rightarrow> byte list \<Rightarrow> byte list" where
  "copy_at dst off src =
     take off dst @ take (length dst - off) src @ drop (off + length src) dst"

definition decodeFieldElement ::
  "byte list \<Rightarrow> nat \<Rightarrow> nat \<Rightarrow> byte list \<Rightarrow> blob_error + byte \<times> nat \<times> nat \<times> byte list" where
  "decodeFieldElement b opos ipos output =
     (if b ! ipos AND 0b11000000 \<noteq> 0 then Inl (ErrBlobInvalidFieldElement ipos)
      else Inr (b ! ipos, opos + 32, ipos + 32,
                copy_at output opos (take 31 (drop (ipos + 1) b))))"

definition reassembleBytes :: "nat \<Rightarrow> byte list \<Rightarrow> byte list \<Rightarrow> nat \<times> byte list" where
  "reassembleBytes opos encodedByte output =
     (let p = opos - 1;
          x = (encodedByte ! 0 AND 0b00111111) OR push_bit 2 (encodedByte ! 1 AND 0b00110000);
          y = (encodedByte ! 1 AND 0b00001111) OR push_bit 4 (encodedByte ! 3 AND 0b00001111);
          z = (encodedByte ! 2 AND 0b00111111) OR push_bit 2 (encodedByte ! 3 AND 0b00110000)
      in (p, ((output[p - 32 := z])[p - 32 * 2 := y])[p - 32 * 3 := x]))"

text \<open>The inner loop over field elements; the first bytes are collected in order.\<close>

fun decode_elements ::
  "nat \<Rightarrow> byte list \<Rightarrow> byte list \<Rightarrow> nat \<Rightarrow> nat \<Rightarrow> byte list \<Rightarrow>
     blob_error + byte list \<times> nat \<times> nat \<times> byte list" where
  "decode_elements 0 b enc opos ipos output = Inr (enc, opos, ipos, output)"
| "decode_elements (Suc n) b enc opos ipos output =
     (case decodeFieldElement b opos ipos output of
        Inl e \<Rightarrow> Inl e
      | Inr (v, opos', ipos', output') \<Rightarrow> decode_elements n b (enc @ [v]) opos' ipos' output')"

fun decode_loop ::
  "nat \<Rightarrow> nat \<Rightarrow> byte list \<Rightarrow> nat \<Rightarrow> nat \<Rightarrow> byte list \<Rightarrow> blob_error + nat \<times> nat \<times> byte list" where
  "decode_loop 0 outputLen b opos ipos output = Inr (opos, ipos, output)"
| "decode_loop (Suc n) outputLen b opos ipos output =
     (if \<not> opos < outputLen then Inr (opos, ipos, output)
      else case decode_elements 4 b [] opos ipos output of
        Inl e \<Rightarrow> Inl e
      | Inr (enc, opos1, ipos1, output1) \<Rightarrow>
         (case reassembleBytes opos1 enc output1 of
            (opos2, output2) \<Rightarrow> decode_loop n outputLen b opos2 ipos1 output2))"

fun first_nonzero :: "nat \<Rightarrow> byte list \<Rightarrow> nat option" where
  "first_nonzero i [] = None"
| "first_nonzero i (x # xs) = (if x \<noteq> 0 then Some i else first_nonzero (i + 1) xs)"

definition ToData :: "byte list \<Rightarrow> blob_error + byte list" where
  "ToData b =
     (if b ! VersionOffset \<noteq> EncodingVersion
      then Inl (ErrBlobInvalidEncodingVersion (b ! VersionOffset))
      else let outputLen = unat (push_bit 16 (ucast (b ! 2)) OR push_bit 8 (ucast (b ! 3))
                                 OR (ucast (b ! 4)) :: u32)
      in if outputLen > MaxBlobDataSize then Inl (ErrBlobInvalidLength outputLen)
      else let output = copy_at (replicate MaxBlobDataSize 0) 0 (take 27 (drop 5 b))
      in case decode_elements 3 b [b ! 0] 28 32 output of
           Inl e \<Rightarrow> Inl e
         | Inr (enc, opos1, ipos1, output1) \<Rightarrow>
            (case reassembleBytes opos1 enc output1 of
               (opos2, output2) \<Rightarrow>
                 (case decode_loop (Rounds - 1) outputLen b opos2 ipos1 output2 of
                    Inl e \<Rightarrow> Inl e
                  | Inr (opos, ipos, out) \<Rightarrow>
                      if first_nonzero outputLen (drop outputLen out) \<noteq> None
                      then Inl ErrBlobExtraneousDataFieldElement
                      else case first_nonzero ipos (drop ipos b) of
                             Some p \<Rightarrow> Inl (ErrBlobExtraneousData p)
                           | None \<Rightarrow> Inr (take outputLen out))))"

section \<open>The four six-bit chunks of a round\<close>

definition chunkA :: "byte \<Rightarrow> byte \<Rightarrow> byte \<Rightarrow> byte" where
  "chunkA x y z = x AND 0b00111111"
definition chunkB :: "byte \<Rightarrow> byte \<Rightarrow> byte \<Rightarrow> byte" where
  "chunkB x y z = (y AND 0b00001111) OR drop_bit 2 (x AND 0b11000000)"
definition chunkC :: "byte \<Rightarrow> byte \<Rightarrow> byte \<Rightarrow> byte" where
  "chunkC x y z = z AND 0b00111111"
definition chunkD :: "byte \<Rightarrow> byte \<Rightarrow> byte \<Rightarrow> byte" where
  "chunkD x y z = drop_bit 2 (z AND 0b11000000) OR drop_bit 4 (y AND 0b11110000)"

lemmas chunk_defs = chunkA_def chunkB_def chunkC_def chunkD_def

lemma byte_eqI:
  fixes a b :: byte
  assumes "\<forall>n \<in> {0, 1, 2, 3, 4, 5, 6, 7}. bit a n = bit b n"
  shows "a = b"
proof (rule bit_word_eqI)
  fix n assume "n < LENGTH(8)"
  then have "n \<in> {0, 1, 2, 3, 4, 5, 6, 7}" by auto
  with assms show "bit a n = bit b n" by blast
qed

lemma chunks_6_bit:
  "chunkA x y z AND 0b11000000 = 0" "chunkB x y z AND 0b11000000 = 0"
  "chunkC x y z AND 0b11000000 = 0" "chunkD x y z AND 0b11000000 = 0"
  by - (rule byte_eqI; simp add: chunk_defs bit_and_iff bit_or_iff bit_drop_bit_eq bit_numeral_rec)+

lemma reassemble_chunks:
  "(chunkA x y z AND 0b00111111) OR push_bit 2 (chunkB x y z AND 0b00110000) = x"
  "(chunkB x y z AND 0b00001111) OR push_bit 4 (chunkD x y z AND 0b00001111) = y"
  "(chunkC x y z AND 0b00111111) OR push_bit 2 (chunkD x y z AND 0b00110000) = z"
  by - (rule byte_eqI; simp add: chunk_defs bit_and_iff bit_or_iff bit_drop_bit_eq
      bit_push_bit_iff bit_numeral_rec)+

section \<open>Encoding in chunks of 127 bytes\<close>

lemma length_pad [simp]: "length (pad n bs) = n"
  by (simp add: pad_def)

lemma pad_nth: "k < n \<Longrightarrow> pad n bs ! k = (if k < length bs then bs ! k else 0)"
  by (simp add: pad_def nth_append)

lemma pad_drop: "k + n \<le> m \<Longrightarrow> pad n (drop k bs) = take n (drop k (pad m bs))"
  by (rule nth_equalityI) (auto simp: pad_nth)

lemma pad_append: "length as \<le> n \<Longrightarrow> pad n (as @ bs) = as @ pad (n - length as) bs"
  by (simp add: pad_def)

lemma pad_split: "pad (m + n) bs = pad m bs @ pad n (drop m bs)"
  by (rule nth_equalityI) (auto simp: pad_nth nth_append)

lemma read1_drop: "k < m \<Longrightarrow> read1 (drop k bs) = (pad m bs ! k, drop (Suc k) bs)"
proof (cases "k < length bs")
  case True
  moreover assume "k < m"
  ultimately show ?thesis
    by (simp add: read1_def pad_nth Cons_nth_drop_Suc [symmetric, OF True])
qed (simp add: read1_def pad_nth)

text \<open>The 128 bytes for a chunk \<open>w0 x w1 y w2 z w3\<close>.\<close>

definition encode_chunk :: "byte list \<Rightarrow> byte list" where
  "encode_chunk c =
     (let x = c ! 31; y = c ! 63; z = c ! 95
      in chunkA x y z # take 31 c @ chunkB x y z # take 31 (drop 32 c) @
         chunkC x y z # take 31 (drop 64 c) @ chunkD x y z # take 31 (drop 96 c))"

lemma length_encode_chunk [simp]: "length c = 127 \<Longrightarrow> length (encode_chunk c) = 128"
  by (simp add: encode_chunk_def Let_def)

lemma write_element_Inr:
  "length out mod 32 = 0 \<Longrightarrow> v AND 0b11000000 = 0 \<Longrightarrow> write_element v buf out = Inr (out @ v # buf)"
  by (simp add: write_element_def write1_def write31_def mod_Suc)

lemma element_aligned:
  "length out mod 32 = 0 \<Longrightarrow> length buf = 31 \<Longrightarrow> length (out @ v # buf) mod 32 = 0"
  by simp

lemma encode_round_Inr:
  assumes "length buf = 31" and "length out mod 32 = 0"
  shows "encode_round buf rest out = Inr (out @ encode_chunk (buf @ pad 96 rest), drop 96 rest)"
proof -
  define c where "c = buf @ pad 96 rest"
  define x y z where xyz: "x = c ! 31" "y = c ! 63" "z = c ! 95"
  have reads: "read1 rest = (x, drop 1 rest)" "read31 (drop 1 rest) = (take 31 (drop 32 c), drop 32 rest)"
    "read1 (drop 32 rest) = (y, drop 33 rest)" "read31 (drop 33 rest) = (take 31 (drop 64 c), drop 64 rest)"
    "read1 (drop 64 rest) = (z, drop 65 rest)" "read31 (drop 65 rest) = (take 31 (drop 96 c), drop 96 rest)"
    using read1_drop [of 0 96 rest] read1_drop [of 32 96 rest] read1_drop [of 64 96 rest]
      pad_drop [of 1 31 96 rest] pad_drop [of 33 31 96 rest] pad_drop [of 65 31 96 rest] assms(1)
    by (simp_all add: xyz c_def nth_append read31_def)
  have len: "length c = 127" "take 31 c = buf" using assms(1) by (simp_all add: c_def)
  define o1 where "o1 = out @ chunkA x y z # buf"
  define o2 where "o2 = o1 @ chunkB x y z # take 31 (drop 32 c)"
  define o3 where "o3 = o2 @ chunkC x y z # take 31 (drop 64 c)"
  have al: "length o1 mod 32 = 0" "length o2 mod 32 = 0" "length o3 mod 32 = 0"
    unfolding o3_def o2_def o1_def using assms len by (auto intro!: element_aligned)
  have w: "write_element (chunkA x y z) buf out = Inr o1"
    "write_element (chunkB x y z) (take 31 (drop 32 c)) o1 = Inr o2"
    "write_element (chunkC x y z) (take 31 (drop 64 c)) o2 = Inr o3"
    "write_element (chunkD x y z) (take 31 (drop 96 c)) o3 = Inr (o3 @ chunkD x y z # take 31 (drop 96 c))"
    using write_element_Inr [OF assms(2) chunks_6_bit(1)] write_element_Inr [OF al(1) chunks_6_bit(2)]
      write_element_Inr [OF al(2) chunks_6_bit(3)] write_element_Inr [OF al(3) chunks_6_bit(4)]
    by (simp_all only: o1_def o2_def o3_def)
  have "encode_round buf rest out = Inr (o3 @ chunkD x y z # take 31 (drop 96 c), drop 96 rest)"
    unfolding encode_round_def Let_def reads prod.case
    unfolding chunk_defs [of x y z, symmetric] by (simp add: w)
  then have "encode_round buf rest out = Inr ((((out @ chunkA x y z # buf) @ chunkB x y z # take 31 (drop 32 c))
          @ chunkC x y z # take 31 (drop 64 c)) @ chunkD x y z # take 31 (drop 96 c), drop 96 rest)"
    by (simp only: o1_def o2_def o3_def)
  then show ?thesis by (simp add: encode_chunk_def Let_def xyz [symmetric] c_def [symmetric] len)
qed

function chunks :: "byte list \<Rightarrow> byte list list" where
  "chunks bs = (if bs = [] then [] else pad 127 bs # chunks (drop 127 bs))"
  by pat_completeness auto
termination by (relation "measure length") auto

declare chunks.simps [simp del]

lemma chunks_simps [simp]: "chunks [] = []" "bs \<noteq> [] \<Longrightarrow> chunks bs = pad 127 bs # chunks (drop 127 bs)"
  by (simp_all add: chunks.simps)

lemma encode_loop_chunks:
  "0 \<notin> set rounds \<Longrightarrow> length rest \<le> 127 * length rounds \<Longrightarrow> length out mod 32 = 0 \<Longrightarrow>
     encode_loop rounds rest out = Inr (out @ concat (map encode_chunk (chunks rest)), [])"
proof (induction rounds arbitrary: rest out)
  case (Cons r rounds)
  show ?case
  proof (cases "rest = []")
    case False
    have "encode_round (pad 31 rest) (drop 31 rest) out
        = Inr (out @ encode_chunk (pad 127 rest), drop 127 rest)"
      using encode_round_Inr [of "pad 31 rest" out "drop 31 rest"] Cons.prems(3)
        pad_split [of 31 96 rest] by (simp add: add.commute)
    moreover have "(length out + 128) mod 32 = 0" using Cons.prems(3) by presburger
    ultimately show ?thesis
      using Cons False by (simp add: read31_def)
  qed simp
qed simp

text \<open>The header in front of the data, and the blob as a whole.\<close>

definition header :: "byte list \<Rightarrow> byte list" where
  "header data = (let ilen = word_of_nat (length data) :: u32
     in [EncodingVersion, ucast (drop_bit 16 ilen), ucast (drop_bit 8 ilen), ucast ilen])"

definition blob_bytes :: "byte list \<Rightarrow> byte list" where
  "blob_bytes data = encode_chunk (header data @ pad 123 data) @
     concat (map encode_chunk (chunks (drop 123 data)))"

lemma encode_zero: "encode_chunk (replicate 127 0) = replicate 128 0"
  by (simp add: encode_chunk_def chunk_defs replicate_append_same replicate_Suc [symmetric]
      replicate_add [symmetric] del: replicate_Suc)

lemma FromData_blob:
  assumes "length data \<le> MaxBlobDataSize"
  shows "FromData data = Inr (pad BlobSize (blob_bytes data))"
proof (cases "data = []")
  case True
  have "header [] @ pad 123 [] = replicate 127 0"
    by (simp add: header_def Let_def pad_def EncodingVersion_def eval_nat_numeral)
  then have "blob_bytes [] = replicate 128 0" by (simp only: blob_bytes_def encode_zero) simp
  then have "pad BlobSize (blob_bytes []) = pad BlobSize []"
    by (simp add: pad_def BlobSize_def flip: replicate_add)
  moreover have "encode_loop rs [] [] = Inr ([], [])" for rs by (cases rs) simp_all
  ultimately show ?thesis using assms True by (simp add: FromData_def)
next
  case False
  define buf where "buf = fst (first_chunk data)"
  have fc: "first_chunk data = (buf, drop 27 data)"
    by (simp add: buf_def first_chunk_def Let_def)
  have "buf @ pad 96 (drop 27 data) = header data @ pad 123 data" and lb: "length buf = 31"
    using pad_split [of 27 96 data] pad_append [of "header data" 31 "take 27 data"]
    by (simp_all add: buf_def first_chunk_def header_def Let_def pad_def)
  then have er: "encode_round buf (drop 27 data) []
      = Inr (encode_chunk (header data @ pad 123 data), drop 123 data)"
    using encode_round_Inr [of buf "[]" "drop 27 data"] by (simp add: add.commute)
  have "length (drop 123 data) \<le> 127 * length [1..<Rounds]"
    using assms by (simp add: Rounds_def MaxBlobDataSize_def)
  then have el: "encode_loop [1..<Rounds] (drop 123 data) (encode_chunk (header data @ pad 123 data))
      = Inr (blob_bytes data, [])"
    using encode_loop_chunks [of "[1..<Rounds]" "drop 123 data" "encode_chunk (header data @ pad 123 data)"]
    by (simp add: blob_bytes_def header_def Let_def)
  have "0 < Rounds" by (simp add: Rounds_def)
  then have "[0..<Rounds] = 0 # [1..<Rounds]" by (simp add: upt_conv_Cons)
  then have "encode_loop [0..<Rounds] data [] = Inr (blob_bytes data, [])"
    using False el by (simp add: fc er)
  then show ?thesis using assms by (simp add: FromData_def)
qed

section \<open>Decoding a chunk\<close>

lemma copy_at_append:
  "length o' = length w \<Longrightarrow> copy_at (opre @ o' @ ot) (length opre) w = opre @ w @ ot"
  by (simp add: copy_at_def)

lemma decodeFieldElement_Inr:
  assumes "v AND 0b11000000 = 0" and "length w = 31" and "length o' = 31"
    and "ipos = length bpre" and "opos = length opre"
  shows "decodeFieldElement (bpre @ v # w @ bpost) opos ipos (opre @ o' @ ot)
    = Inr (v, opos + 32, ipos + 32, opre @ w @ ot)"
  using assms copy_at_append [of o' w opre ot] by (simp add: decodeFieldElement_def)

text \<open>Three field elements, written around the positions left for the reassembled bytes.\<close>

lemma decode_three:
  assumes six: "B AND 0b11000000 = 0" "C AND 0b11000000 = 0" "D AND 0b11000000 = 0"
    and w: "length w1 = 31" "length w2 = 31" "length w3 = 31"
    and o': "length o1 = 31" "length o2 = 31" "length o3 = 31"
    and pos: "ipos = length bpre" "opos = length opre"
  shows "decode_elements 3 (bpre @ B # w1 @ C # w2 @ D # w3 @ bpost) enc opos ipos
      (opre @ o1 @ g2 # o2 @ g3 # o3 @ ot)
    = Inr (enc @ [B, C, D], opos + 96, ipos + 96, opre @ w1 @ g2 # w2 @ g3 # w3 @ ot)"
proof -
  have 1: "decodeFieldElement (bpre @ B # w1 @ C # w2 @ D # w3 @ bpost) opos ipos
      (opre @ o1 @ g2 # o2 @ g3 # o3 @ ot)
    = Inr (B, opos + 32, ipos + 32, opre @ w1 @ g2 # o2 @ g3 # o3 @ ot)"
    using assms by (intro decodeFieldElement_Inr)
  have 2: "decodeFieldElement (bpre @ B # w1 @ C # w2 @ D # w3 @ bpost) (opos + 32) (ipos + 32)
      (opre @ w1 @ g2 # o2 @ g3 # o3 @ ot)
    = Inr (C, opos + 64, ipos + 64, opre @ w1 @ g2 # w2 @ g3 # o3 @ ot)"
    using decodeFieldElement_Inr [of C w2 o2 "ipos + 32" "bpre @ B # w1" "opos + 32" "opre @ w1 @ [g2]"
        "D # w3 @ bpost" "g3 # o3 @ ot"] assms by simp
  have 3: "decodeFieldElement (bpre @ B # w1 @ C # w2 @ D # w3 @ bpost) (opos + 64) (ipos + 64)
      (opre @ w1 @ g2 # w2 @ g3 # o3 @ ot)
    = Inr (D, opos + 96, ipos + 96, opre @ w1 @ g2 # w2 @ g3 # w3 @ ot)"
    using decodeFieldElement_Inr [of D w3 o3 "ipos + 64" "bpre @ B # w1 @ C # w2" "opos + 64"
        "opre @ w1 @ g2 # w2 @ [g3]" bpost ot] assms by simp
  show ?thesis by (simp add: numeral_3_eq_3 1 2 3)
qed

text \<open>Putting the three bytes in their places.\<close>

lemma reassemble_at:
  assumes "length w0 = n0" and "length w1 = 31" and "length w2 = 31" and "length w3 = 31"
    and "opos = n0 + 97"
  shows "reassembleBytes opos [chunkA x y z, chunkB x y z, chunkC x y z, chunkD x y z]
      (w0 @ g1 # w1 @ g2 # w2 @ g3 # w3 @ ot)
    = (n0 + 96, w0 @ x # w1 @ y # w2 @ z # w3 @ ot)"
proof -
  let ?enc = "[chunkA x y z, chunkB x y z, chunkC x y z, chunkD x y z]"
  have n: "?enc ! 0 = chunkA x y z" "?enc ! 1 = chunkB x y z" "?enc ! 2 = chunkC x y z"
    "?enc ! 3 = chunkD x y z" by simp_all
  show ?thesis
    using assms by (simp only: reassembleBytes_def Let_def n reassemble_chunks)
      (simp add: list_update_append)
qed

lemma drop_split: "j \<le> k \<Longrightarrow> k < length c \<Longrightarrow> drop j c = take (k - j) (drop j c) @ c ! k # drop (Suc k) c"
  using id_take_nth_drop [of "k - j" "drop j c"] by simp

lemma split_chunk:
  assumes "length c = 127"
  shows "c = take 31 c @ c ! 31 # take 31 (drop 32 c) @ c ! 63 # take 31 (drop 64 c) @ c ! 95
    # take 31 (drop 96 c)"
  using drop_split [of 0 31 c] drop_split [of 32 63 c] drop_split [of 64 95 c] assms by simp

text \<open>One round of the decoder on the encoding of a chunk.\<close>

lemma decode_round:
  assumes c: "length c = 127" and pos: "ipos = length bpre" "opos = length opre"
    and o': "127 \<le> length orest"
  shows "(case decode_elements 4 (bpre @ encode_chunk c @ bpost) [] opos ipos (opre @ orest) of
      Inl e \<Rightarrow> Inl e
    | Inr (enc, opos1, ipos1, out1) \<Rightarrow> Inr (ipos1, reassembleBytes opos1 enc out1))
    = Inr (ipos + 128, opos + 127, opre @ c @ drop 127 orest)"
proof -
  define x y z where xyz: "x = c ! 31" "y = c ! 63" "z = c ! 95"
  define w0 w1 w2 w3 where w: "w0 = take 31 c" "w1 = take 31 (drop 32 c)" "w2 = take 31 (drop 64 c)"
    "w3 = take 31 (drop 96 c)"
  define t where "t = take 127 orest"
  have t: "length t = 127" "orest = t @ drop 127 orest" using o' by (simp_all add: t_def)
  define o0 o1 o2 o3 where os: "o0 = take 31 t" "o1 = take 31 (drop 32 t)" "o2 = take 31 (drop 64 t)"
    "o3 = take 31 (drop 96 t)"
  have lw: "length w0 = 31" "length w1 = 31" "length w2 = 31" "length w3 = 31"
    "length o0 = 31" "length o1 = 31" "length o2 = 31" "length o3 = 31"
    using c t(1) by (simp_all add: w os)
  have cs: "c = w0 @ x # w1 @ y # w2 @ z # w3" using split_chunk [OF c] by (simp only: xyz w)
  have ts: "t = o0 @ t ! 31 # o1 @ t ! 63 # o2 @ t ! 95 # o3"
    using split_chunk [OF t(1)] by (simp only: os)
  have b: "bpre @ encode_chunk c @ bpost = bpre @ chunkA x y z # w0 @ chunkB x y z # w1 @
      chunkC x y z # w2 @ chunkD x y z # w3 @ bpost"
    by (simp add: encode_chunk_def Let_def xyz w)
  have out: "opre @ orest = opre @ o0 @ t ! 31 # o1 @ t ! 63 # o2 @ t ! 95 # o3 @ drop 127 orest"
    using t(2) ts by (metis append.assoc append_Cons)
  have first: "decodeFieldElement (bpre @ encode_chunk c @ bpost) opos ipos (opre @ orest)
      = Inr (chunkA x y z, opos + 32, ipos + 32,
             opre @ w0 @ t ! 31 # o1 @ t ! 63 # o2 @ t ! 95 # o3 @ drop 127 orest)"
    unfolding b out using lw pos chunks_6_bit(1) by (intro decodeFieldElement_Inr)
  have three: "decode_elements 3 (bpre @ encode_chunk c @ bpost) [chunkA x y z] (opos + 32) (ipos + 32)
      (opre @ w0 @ t ! 31 # o1 @ t ! 63 # o2 @ t ! 95 # o3 @ drop 127 orest)
    = Inr ([chunkA x y z, chunkB x y z, chunkC x y z, chunkD x y z], opos + 128, ipos + 128,
        opre @ w0 @ t ! 31 # w1 @ t ! 63 # w2 @ t ! 95 # w3 @ drop 127 orest)"
    using decode_three [of "chunkB x y z" "chunkC x y z" "chunkD x y z" w1 w2 w3 o1 o2 o3 "ipos + 32"
        "bpre @ chunkA x y z # w0" "opos + 32" "opre @ w0 @ [t ! 31]" bpost "[chunkA x y z]"
        "t ! 63" "t ! 95" "drop 127 orest"] lw pos chunks_6_bit
    by (simp add: b)
  have re: "reassembleBytes (opos + 128) [chunkA x y z, chunkB x y z, chunkC x y z, chunkD x y z]
      (opre @ w0 @ t ! 31 # w1 @ t ! 63 # w2 @ t ! 95 # w3 @ drop 127 orest)
    = (opos + 127, opre @ c @ drop 127 orest)"
    using reassemble_at [of "opre @ w0" "opos + 31" w1 w2 w3 "opos + 128" x y z "t ! 31" "t ! 63" "t ! 95"
        "drop 127 orest"] lw pos cs by simp
  have four: "decode_elements 4 b' enc p q out = (case decodeFieldElement b' p q out of
      Inl e \<Rightarrow> Inl e | Inr (v, p', q', out') \<Rightarrow> decode_elements 3 b' (enc @ [v]) p' q' out')" for b' enc p q out
  proof -
    have "(4 :: nat) = Suc 3" by simp
    then show ?thesis by (simp only: decode_elements.simps)
  qed
  show ?thesis by (simp add: four first three re)
qed

section \<open>Decoding a blob\<close>

lemma decode_loop_chunks:
  "length r \<le> 127 * n \<Longrightarrow>
     \<exists>opos'. decode_loop n (length opre + length r) (bpre @ concat (map encode_chunk (chunks r)) @ bpost)
         (length opre) (length bpre) (opre @ replicate (127 * n) 0)
       = Inr (opos', length bpre + 128 * length (chunks r), opre @ r @ replicate (127 * n - length r) 0)"
proof (induction n arbitrary: r opre bpre)
  case 0
  then show ?case by simp
next
  case (Suc n)
  show ?case
  proof (cases "r = []")
    case True
    then show ?thesis by simp
  next
    case False
    let ?c = "pad 127 r" and ?r = "drop 127 r"
    let ?b = "bpre @ encode_chunk ?c @ concat (map encode_chunk (chunks ?r)) @ bpost"
    have rep: "replicate (127 * Suc n) (0::byte) = replicate 127 0 @ replicate (127 * n) 0"
      by (simp flip: replicate_add)
    have round: "decode_loop (Suc n) (length opre + length r) ?b (length opre) (length bpre)
          (opre @ replicate (127 * Suc n) 0)
        = decode_loop n (length opre + length r) ?b (length opre + 127) (length bpre + 128)
            ((opre @ ?c) @ replicate (127 * n) 0)"
      using decode_round [of ?c "length bpre" bpre "length opre" opre "replicate (127 * Suc n) 0"
          "concat (map encode_chunk (chunks ?r)) @ bpost"] False
      by (auto simp: rep split: sum.splits prod.splits)
    show ?thesis
    proof (cases "length r \<le> 127")
      case True
      then have "?c = r @ replicate (127 - length r) 0" by (simp add: pad_def)
      moreover have "decode_loop n (length opre + length r) ?b (length opre + 127) (length bpre + 128) out
          = Inr (length opre + 127, length bpre + 128, out)" for out
        using True by (cases n) simp_all
      moreover have "127 - length r + 127 * n = 127 * Suc n - length r" using True by simp
      ultimately show ?thesis
        using round False True by (simp flip: replicate_add)
    next
      case big: False
      then have c: "?c = take 127 r" by (simp add: pad_def)
      have "length ?r \<le> 127 * n" using Suc.prems by simp
      from Suc.IH [OF this, of "opre @ ?c" "bpre @ encode_chunk ?c"] obtain opos' where
        "decode_loop n (length opre + length r) ?b (length opre + 127) (length bpre + 128)
            ((opre @ ?c) @ replicate (127 * n) 0)
          = Inr (opos', length bpre + 128 + 128 * length (chunks ?r),
              (opre @ ?c) @ ?r @ replicate (127 * n - length ?r) 0)"
        using big by (auto simp: algebra_simps)
      moreover have "?c @ ?r = r" by (simp add: c)
      moreover have "127 * n - length ?r = 127 * Suc n - length r" using big by simp
      ultimately show ?thesis using round False by (auto simp: algebra_simps)
    qed
  qed
qed

lemma length_chunks: "length r \<le> 127 * n \<Longrightarrow> length (chunks r) \<le> n"
proof (induction n arbitrary: r)
  case (Suc n)
  then show ?case by (cases "r = []") (auto intro: Suc.IH)
qed simp

lemma length_blob_bytes: "length (blob_bytes data) = 128 + 128 * length (chunks (drop 123 data))"
proof -
  have "length c = 127" if "c \<in> set (chunks r)" for c r
    using that by (induction r rule: chunks.induct) (metis chunks_simps length_pad list.set_intros set_ConsD empty_iff empty_set)
  then have "length (concat (map encode_chunk (chunks r))) = 128 * length (chunks r)" for r
    by (simp add: length_concat comp_def sum_list_triv cong: map_cong)
  then show ?thesis by (simp add: blob_bytes_def header_def Let_def)
qed

lemma header_length:
  assumes "length data < 16777216"
  shows "unat (push_bit 16 (ucast (header data ! 1)) OR push_bit 8 (ucast (header data ! 2))
    OR ucast (header data ! 3) :: u32) = length data"
proof -
  define n :: u32 where "n = word_of_nat (length data)"
  have un: "unat n = length data" using assms by (simp add: n_def unat_of_nat)
  then have "take_bit 24 n = n"
    using assms by (simp add: word_unat_eq_iff unsigned_take_bit_eq take_bit_nat_eq_self)
  then have small: "bit n k \<Longrightarrow> k < 24" for k by (metis bit_take_bit_iff)
  have "push_bit 16 (ucast (ucast (drop_bit 16 n) :: byte)) OR push_bit 8 (ucast (ucast (drop_bit 8 n) :: byte))
    OR ucast (ucast n :: byte) = n"
  proof (rule bit_word_eqI)
    fix k :: nat
    consider "k < 8" | "8 \<le> k" "k < 16" | "16 \<le> k" by linarith
    then show "bit (push_bit 16 (ucast (ucast (drop_bit 16 n) :: byte)) OR
        push_bit 8 (ucast (ucast (drop_bit 8 n) :: byte)) OR ucast (ucast n :: byte) :: u32) k = bit n k"
      by cases (auto simp: bit_or_iff bit_push_bit_iff bit_ucast_iff bit_drop_bit_eq dest: small)
  qed
  then show ?thesis by (simp add: header_def Let_def n_def [symmetric] un)
qed

lemma first_nonzero_zeros [simp]: "first_nonzero i (replicate n 0) = None"
  by (induction n arbitrary: i) simp_all

lemma ToData_blob:
  assumes len: "length data \<le> MaxBlobDataSize"
  shows "ToData (pad BlobSize (blob_bytes data)) = Inr data"
proof -
  define c where "c = header data @ pad 123 data"
  define x y z where xyz: "x = c ! 31" "y = c ! 63" "z = c ! 95"
  define d27 where "d27 = take 27 (pad 123 data)"
  define w1 w2 w3 where w: "w1 = take 31 (drop 32 c)" "w2 = take 31 (drop 64 c)" "w3 = take 31 (drop 96 c)"
  define r where "r = drop 123 data"
  define k where "k = BlobSize - length (blob_bytes data)"
  define bpost where "bpost = concat (map encode_chunk (chunks r)) @ replicate k 0"
  define b where "b = pad BlobSize (blob_bytes data)"
  have h: "length (header data) = 4" "header data ! 0 = 0" by (simp_all add: header_def Let_def EncodingVersion_def)
  have c: "length c = 127" "take 31 c = header data @ d27" by (simp_all add: c_def d27_def h)
  have cs: "c = (header data @ d27) @ x # w1 @ y # w2 @ z # w3"
    using split_chunk [OF c(1)] by (simp only: xyz w c(2))
  then have p123: "pad 123 data = d27 @ x # w1 @ y # w2 @ z # w3" by (simp add: c_def)
  have lr: "length r \<le> 127 * 1023" using len by (simp add: r_def MaxBlobDataSize_def)
  have "length (blob_bytes data) \<le> BlobSize"
    using length_chunks [OF lr] by (simp add: length_blob_bytes r_def [symmetric] BlobSize_def)
  then have b_split: "b = encode_chunk c @ bpost"
    by (simp add: b_def pad_def k_def bpost_def blob_bytes_def c_def r_def)
  then have b: "b = (chunkA x y z # header data @ d27) @ chunkB x y z # w1 @ chunkC x y z # w2 @ chunkD x y z # w3 @ bpost"
    by (simp add: encode_chunk_def Let_def xyz w c(2))
  obtain h1 h2 h3 where hd: "header data = [0, h1, h2, h3]"
    by (simp add: header_def Let_def EncodingVersion_def)
  have ln: "length d27 = 27" "length w1 = 31" "length w2 = 31" "length w3 = 31"
    using c(1) by (simp_all add: d27_def w)
  have nth: "b ! 0 = chunkA x y z" "b ! VersionOffset = EncodingVersion"
    "b ! 2 = header data ! 1" "b ! 3 = header data ! 2" "b ! 4 = header data ! 3"
    "take 27 (drop 5 b) = d27"
    using ln by (simp_all add: b hd VersionOffset_def EncodingVersion_def)
  have "length data < 16777216" using len by (simp add: MaxBlobDataSize_def)
  note hl = header_length [OF this]
  let ?z = "\<lambda>n. replicate n (0 :: byte)"
  have out0: "copy_at (?z MaxBlobDataSize) 0 d27
      = (d27 @ [0]) @ ?z 31 @ 0 # ?z 31 @ 0 # ?z 31 @ ?z (127 * 1023)"
    using ln by (simp add: copy_at_def MaxBlobDataSize_def flip: replicate_add replicate_Suc)
  have de: "decode_elements 3 b [chunkA x y z] 28 32 ((d27 @ [0]) @ ?z 31 @ 0 # ?z 31 @ 0 # ?z 31 @ ?z (127 * 1023))
      = Inr ([chunkA x y z, chunkB x y z, chunkC x y z, chunkD x y z], 124, 128,
          (d27 @ [0]) @ w1 @ 0 # w2 @ 0 # w3 @ ?z (127 * 1023))"
    unfolding b
    using decode_three [of "chunkB x y z" "chunkC x y z" "chunkD x y z" w1 w2 w3 "?z 31" "?z 31" "?z 31" 32
        "chunkA x y z # header data @ d27" 28 "d27 @ [0]" bpost "[chunkA x y z]" 0 0 "?z (127 * 1023)"] ln h(1)
    by (simp add: chunks_6_bit)
  have re: "reassembleBytes 124 [chunkA x y z, chunkB x y z, chunkC x y z, chunkD x y z]
      ((d27 @ [0]) @ w1 @ 0 # w2 @ 0 # w3 @ ?z (127 * 1023)) = (123, pad 123 data @ ?z (127 * 1023))"
    using reassemble_at [of d27 27 w1 w2 w3 124 x y z 0 0 0 "?z (127 * 1023)"] ln by (simp add: p123)
  have "\<exists>opos. decode_loop 1023 (length data) b 123 128 (pad 123 data @ ?z (127 * 1023))
      = Inr (opos, 128 + 128 * length (chunks r), data @ ?z (MaxBlobDataSize - length data))"
  proof (cases "123 < length data")
    case True
    have l: "123 + length r = length data" "length (take 123 data) = 123"
      "length (encode_chunk c) = 128" "take 123 data @ r @ bs = data @ bs" for bs
      using True c(1) by (simp_all add: r_def)
    have "127 * 1023 - length r = MaxBlobDataSize - length data"
      using True by (simp add: r_def MaxBlobDataSize_def)
    moreover have "pad 123 data = take 123 data" using True by (simp add: pad_def)
    ultimately show ?thesis
      using decode_loop_chunks [OF lr, of "take 123 data" "encode_chunk c" "?z k"]
      by (simp only: l b_split bpost_def)
  next
    case False
    then have "pad 123 data @ ?z (127 * 1023) = data @ ?z (MaxBlobDataSize - length data)"
      by (simp add: pad_def MaxBlobDataSize_def flip: replicate_add)
    moreover have "decode_loop n (length data) b 123 128 out = Inr (123, 128, out)" for n out
      using False by (cases n) simp_all
    ultimately show ?thesis using False by (simp add: r_def)
  qed
  then obtain opos where dl: "decode_loop (Rounds - 1) (length data) b 123 128 (pad 123 data @ ?z (127 * 1023))
      = Inr (opos, 128 + 128 * length (chunks r), data @ ?z (MaxBlobDataSize - length data))"
    by (auto simp: Rounds_def)
  have tail: "drop (128 + 128 * length (chunks r)) b = ?z k"
    using length_blob_bytes [of data] by (simp add: b_def k_def pad_def r_def)
  show ?thesis
    unfolding b_def [symmetric] ToData_def Let_def nth hl out0 de re dl sum.case prod.case tail
    using len by simp
qed

section \<open>Properties\<close>

text \<open>C25: data of at most \<open>MaxBlobDataSize\<close> bytes is encoded without a failed assertion into a blob
  of \<open>BlobSize\<close> bytes, and \<open>ToData\<close> gives the data back; longer data is refused.\<close>

theorem blob_roundtrip:
  "if length data \<le> MaxBlobDataSize
   then \<exists>b. FromData data = Inr b \<and> length b = BlobSize \<and> ToData b = Inr data
   else FromData data = Inl ErrBlobInputTooLarge"
  using FromData_blob [of data] ToData_blob [of data] by (simp add: FromData_def)

end
