(* ===== verification/Data_Source.thy ===== *)
theory Data_Source
  imports Rollup_Config Derive_Error Blob
begin

text \<open>
  The data sources of an L1 block (\<open>op-node/rollup/derive/data_source.go\<close>, \<open>calldata_source.go\<close>,
  \<open>blob_data_source.go\<close>, \<open>mantle_blob_source.go\<close>): the filter for batcher transactions, the
  calldata source, the standard blob source, and the Mantle blob source, which first tries to read
  the joined blobs of a transaction as one RLP list of frames. The RPC clients, the signer and the
  RLP decoder are parameters. The theory shows which data each source hands out and when the two
  blob sources agree.
\<close>

section \<open>Definitions\<close>

subsection \<open>Batcher transactions\<close>

text \<open>A nil slice of transaction data is \<open>None\<close>.\<close>

record Transaction =
  tx_Type :: byte
  tx_To :: "address option"
  tx_Data :: "byte list option"
  tx_BlobHashes :: "hash list"
  tx_Hash :: hash

definition BlobTxType :: byte where "BlobTxType = 3"

record DataSourceConfig =
  Sender :: "Transaction \<Rightarrow> address option"
  batchInboxAddress :: address
  altDAEnabled :: bool

definition isValidBatchTx :: "DataSourceConfig \<Rightarrow> address \<Rightarrow> Transaction \<Rightarrow> bool" where
  "isValidBatchTx dsCfg batcherAddr tx =
     (if tx_Type tx > BlobTxType \<and> tx_Type tx \<noteq> DepositTxType then False
      else case tx_To tx of
        None \<Rightarrow> False
      | Some to' \<Rightarrow>
          if to' \<noteq> batchInboxAddress dsCfg then False
          else case Sender dsCfg tx of
            None \<Rightarrow> False
          | Some submitter \<Rightarrow> submitter = batcherAddr)"

definition data_bytes :: "Transaction \<Rightarrow> byte list" where
  "data_bytes tx = (case tx_Data tx of None \<Rightarrow> [] | Some d \<Rightarrow> d)"

fun DataFromEVMTransactions :: "DataSourceConfig \<Rightarrow> address \<Rightarrow> Transaction list \<Rightarrow> byte list list" where
  "DataFromEVMTransactions dsCfg batcherAddr [] = []"
| "DataFromEVMTransactions dsCfg batcherAddr (tx # txs) =
     (if isValidBatchTx dsCfg batcherAddr tx
      then data_bytes tx # DataFromEVMTransactions dsCfg batcherAddr txs
      else DataFromEVMTransactions dsCfg batcherAddr txs)"

subsection \<open>The network\<close>

datatype fetch_error = NotFound | FetchFailed

record IndexedBlobHash =
  ibh_Index :: u64
  ibh_Hash :: hash

text \<open>The clients of the L1 node, over the state \<open>'n\<close> of the network: the same request may be
  answered differently at another time. A nil blob is \<open>None\<close>.\<close>

record 'n L1Fetcher =
  InfoAndTxsByHash :: "hash \<Rightarrow> 'n \<Rightarrow> (fetch_error + Transaction list) \<times> 'n"
  GetBlobs :: "L1BlockRef \<Rightarrow> IndexedBlobHash list \<Rightarrow> 'n \<Rightarrow> (fetch_error + byte list option list) \<times> 'n"

subsection \<open>Calldata source\<close>

record CalldataSource =
  cd_open :: bool
  cd_data :: "byte list list"
  cd_ref :: L1BlockRef
  cd_batcherAddr :: address

definition NewCalldataSource ::
  "'n L1Fetcher \<Rightarrow> DataSourceConfig \<Rightarrow> L1BlockRef \<Rightarrow> address \<Rightarrow> 'n \<Rightarrow> CalldataSource \<times> 'n" where
  "NewCalldataSource fetcher dsCfg ref batcherAddr n =
     (case InfoAndTxsByHash fetcher (l1_Hash ref) n of
        (Inl err, n') \<Rightarrow>
          (\<lparr>cd_open = False, cd_data = [], cd_ref = ref, cd_batcherAddr = batcherAddr\<rparr>, n')
      | (Inr txs, n') \<Rightarrow>
          (\<lparr>cd_open = True, cd_data = DataFromEVMTransactions dsCfg batcherAddr txs,
            cd_ref = zero_L1BlockRef, cd_batcherAddr = 0\<rparr>, n'))"

definition calldata_Next ::
  "'n L1Fetcher \<Rightarrow> DataSourceConfig \<Rightarrow> (CalldataSource \<times> 'n, byte list) puller" where
  "calldata_Next fetcher dsCfg s =
     (case s of (ds, n) \<Rightarrow>
      case (if cd_open ds then (None, ds, n)
            else case InfoAndTxsByHash fetcher (l1_Hash (cd_ref ds)) n of
              (Inr txs, n') \<Rightarrow>
                (None, ds\<lparr>cd_open := True, cd_data := DataFromEVMTransactions dsCfg (cd_batcherAddr ds) txs\<rparr>, n')
            | (Inl NotFound, n') \<Rightarrow> (Some (NewResetError ''failed to open calldata source''), ds, n')
            | (Inl FetchFailed, n') \<Rightarrow> (Some (NewTemporaryError ''failed to open calldata source''), ds, n')) of
        (Some err, ds', n') \<Rightarrow> (Inl err, ds', n')
      | (None, ds', n') \<Rightarrow>
         (case cd_data ds' of
            [] \<Rightarrow> (Inl IoEOF, ds', n')
          | data # rest \<Rightarrow> (Inr data, ds'\<lparr>cd_data := rest\<rparr>, n')))"

subsection \<open>Standard blob source\<close>

record blobOrCalldata =
  boc_blob :: "byte list option"
  boc_calldata :: "byte list option"

record BlobDataSource =
  bds_data :: "blobOrCalldata list option"
  bds_ref :: L1BlockRef
  bds_batcherAddr :: address

definition NewBlobDataSource :: "L1BlockRef \<Rightarrow> address \<Rightarrow> BlobDataSource" where
  "NewBlobDataSource ref batcherAddr =
     \<lparr>bds_data = None, bds_ref = ref, bds_batcherAddr = batcherAddr\<rparr>"

text \<open>The hashes of one transaction with their indices, from \<open>blobIndex\<close> on.\<close>

fun index_hashes :: "nat \<Rightarrow> hash list \<Rightarrow> IndexedBlobHash list" where
  "index_hashes blobIndex [] = []"
| "index_hashes blobIndex (h # hs) =
     \<lparr>ibh_Index = word_of_nat blobIndex, ibh_Hash = h\<rparr> # index_hashes (blobIndex + 1) hs"

fun dataAndHashesFromTxs ::
  "DataSourceConfig \<Rightarrow> address \<Rightarrow> nat \<Rightarrow> Transaction list \<Rightarrow>
     blobOrCalldata list \<times> IndexedBlobHash list" where
  "dataAndHashesFromTxs dsCfg batcherAddr blobIndex [] = ([], [])"
| "dataAndHashesFromTxs dsCfg batcherAddr blobIndex (tx # txs) =
     (if \<not> isValidBatchTx dsCfg batcherAddr tx
      then dataAndHashesFromTxs dsCfg batcherAddr (blobIndex + length (tx_BlobHashes tx)) txs
      else if tx_Type tx \<noteq> BlobTxType
      then (case dataAndHashesFromTxs dsCfg batcherAddr blobIndex txs of
              (data, hashes) \<Rightarrow>
                (\<lparr>boc_blob = None, boc_calldata = Some (data_bytes tx)\<rparr> # data, hashes))
      else (case dataAndHashesFromTxs dsCfg batcherAddr (blobIndex + length (tx_BlobHashes tx)) txs of
              (data, hashes) \<Rightarrow>
                (replicate (length (tx_BlobHashes tx)) \<lparr>boc_blob = None, boc_calldata = None\<rparr> @ data,
                 index_hashes blobIndex (tx_BlobHashes tx) @ hashes)))"

datatype fill_error = NotEnoughBlobs | FoundNilBlob | TooManyBlobs

fun fillBlobPointers :: "blobOrCalldata list \<Rightarrow> byte list option list \<Rightarrow> fill_error + blobOrCalldata list" where
  "fillBlobPointers [] blobs = (if blobs \<noteq> [] then Inl TooManyBlobs else Inr [])"
| "fillBlobPointers (d # ds) blobs =
     (if boc_calldata d \<noteq> None
      then (case fillBlobPointers ds blobs of Inl e \<Rightarrow> Inl e | Inr ds' \<Rightarrow> Inr (d # ds'))
      else case blobs of
             [] \<Rightarrow> Inl NotEnoughBlobs
           | None # bs \<Rightarrow> Inl FoundNilBlob
           | Some b # bs \<Rightarrow>
               (case fillBlobPointers ds bs of
                  Inl e \<Rightarrow> Inl e | Inr ds' \<Rightarrow> Inr (d\<lparr>boc_blob := Some b\<rparr> # ds')))"

definition blob_open ::
  "'n L1Fetcher \<Rightarrow> DataSourceConfig \<Rightarrow> L1BlockRef \<Rightarrow> address \<Rightarrow> 'n \<Rightarrow>
     (derive_error + blobOrCalldata list) \<times> 'n" where
  "blob_open fetcher dsCfg ref batcherAddr n =
     (case InfoAndTxsByHash fetcher (l1_Hash ref) n of
        (Inl NotFound, n1) \<Rightarrow> (Inl (NewResetError ''failed to open blob data source''), n1)
      | (Inl FetchFailed, n1) \<Rightarrow> (Inl (NewTemporaryError ''failed to open blob data source''), n1)
      | (Inr txs, n1) \<Rightarrow>
         (case dataAndHashesFromTxs dsCfg batcherAddr 0 txs of
            (data, hashes) \<Rightarrow>
              if hashes = [] then (Inr data, n1)
              else case GetBlobs fetcher ref hashes n1 of
                (Inl NotFound, n2) \<Rightarrow> (Inl (NewResetError ''failed to fetch blobs''), n2)
              | (Inl FetchFailed, n2) \<Rightarrow> (Inl (NewTemporaryError ''failed to fetch blobs''), n2)
              | (Inr blobs, n2) \<Rightarrow>
                 (case fillBlobPointers data blobs of
                    Inl e \<Rightarrow> (Inl (NewResetError ''failed to fill blob pointers''), n2)
                  | Inr data' \<Rightarrow> (Inr data', n2))))"

text \<open>The tail of \<open>Next\<close>, which calls itself again after a blob that does not parse. \<open>None\<close> is the
  dereference of a nil blob.\<close>

fun blob_next_data ::
  "blobOrCalldata list \<Rightarrow> ((derive_error + byte list) \<times> blobOrCalldata list) option" where
  "blob_next_data [] = Some (Inl IoEOF, [])"
| "blob_next_data (next' # rest) =
     (case boc_calldata next' of
        Some calldata \<Rightarrow> Some (Inr calldata, rest)
      | None \<Rightarrow>
         (case boc_blob next' of
            None \<Rightarrow> None
          | Some b \<Rightarrow>
             (case ToData b of
                Inl err \<Rightarrow> blob_next_data rest
              | Inr data \<Rightarrow> Some (Inr data, rest))))"

definition blob_Next ::
  "'n L1Fetcher \<Rightarrow> DataSourceConfig \<Rightarrow> BlobDataSource \<times> 'n \<Rightarrow>
     ((derive_error + byte list) \<times> BlobDataSource \<times> 'n) option" where
  "blob_Next fetcher dsCfg s =
     (case s of (ds, n) \<Rightarrow>
      case (case bds_data ds of
              Some data \<Rightarrow> (Inr data, n)
            | None \<Rightarrow> blob_open fetcher dsCfg (bds_ref ds) (bds_batcherAddr ds) n) of
        (Inl err, n') \<Rightarrow> Some (Inl err, ds\<lparr>bds_data := None\<rparr>, n')
      | (Inr data, n') \<Rightarrow>
         (case blob_next_data data of
            None \<Rightarrow> None
          | Some (r, rest) \<Rightarrow> Some (r, ds\<lparr>bds_data := Some rest\<rparr>, n')))"

subsection \<open>Mantle blob source\<close>

record MantleBlobDataSource =
  mds_data :: "byte list list option"
  mds_ref :: L1BlockRef
  mds_batcherAddr :: address

definition NewMantleBlobDataSource :: "L1BlockRef \<Rightarrow> address \<Rightarrow> MantleBlobDataSource" where
  "NewMantleBlobDataSource ref batcherAddr =
     \<lparr>mds_data = None, mds_ref = ref, mds_batcherAddr = batcherAddr\<rparr>"

record batcherTxData =
  btd_txHash :: hash
  btd_calldata :: "byte list option"
  btd_hashes :: "IndexedBlobHash list"

fun batcherTxsAndHashesFromTxs ::
  "DataSourceConfig \<Rightarrow> address \<Rightarrow> nat \<Rightarrow> Transaction list \<Rightarrow>
     batcherTxData list \<times> IndexedBlobHash list" where
  "batcherTxsAndHashesFromTxs dsCfg batcherAddr blobIndex [] = ([], [])"
| "batcherTxsAndHashesFromTxs dsCfg batcherAddr blobIndex (tx # txs) =
     (if \<not> isValidBatchTx dsCfg batcherAddr tx
      then batcherTxsAndHashesFromTxs dsCfg batcherAddr (blobIndex + length (tx_BlobHashes tx)) txs
      else if tx_Type tx \<noteq> BlobTxType
      then (case batcherTxsAndHashesFromTxs dsCfg batcherAddr blobIndex txs of
              (btxs, hashes) \<Rightarrow>
                (\<lparr>btd_txHash = tx_Hash tx, btd_calldata = tx_Data tx, btd_hashes = []\<rparr> # btxs, hashes))
      else (let txHashes = index_hashes blobIndex (tx_BlobHashes tx)
            in case batcherTxsAndHashesFromTxs dsCfg batcherAddr (blobIndex + length (tx_BlobHashes tx)) txs of
              (btxs, hashes) \<Rightarrow>
                (if txHashes \<noteq> []
                 then \<lparr>btd_txHash = tx_Hash tx, btd_calldata = None, btd_hashes = txHashes\<rparr> # btxs
                 else btxs, txHashes @ hashes)))"

text \<open>The loop of \<open>processTxBlobs\<close>: the data of the blobs that parse, and whether all of them do.\<close>

fun collect_blobs ::
  "(u64, byte list option) gomap \<Rightarrow> IndexedBlobHash list \<Rightarrow> (byte list list \<times> bool) option" where
  "collect_blobs blobMap [] = Some ([], True)"
| "collect_blobs blobMap (h # hs) =
     (case map_of blobMap (ibh_Index h) of
        Some (Some blob) \<Rightarrow>
          (case collect_blobs blobMap hs of
             None \<Rightarrow> None
           | Some (ds, valid) \<Rightarrow>
              (case ToData blob of Inl err \<Rightarrow> Some (ds, False) | Inr d \<Rightarrow> Some (d # ds, valid)))
      | _ \<Rightarrow> None)"

text \<open>Result and whether the blob toggle was called; \<open>None\<close> is the error for a nil blob.\<close>

definition processTxBlobs ::
  "(byte list \<Rightarrow> byte list list option) \<Rightarrow> (u64, byte list option) gomap \<Rightarrow> IndexedBlobHash list \<Rightarrow>
     (byte list list \<times> bool) option" where
  "processTxBlobs rlpDecode blobMap hashes =
     (case collect_blobs blobMap hashes of
        None \<Rightarrow> None
      | Some (fallbackResult, allBlobsValid) \<Rightarrow>
          let txBlobData = concat fallbackResult
          in if allBlobsValid \<and> txBlobData \<noteq> []
             then (case rlpDecode txBlobData of
                     Some frameData \<Rightarrow> Some (frameData, False)
                   | None \<Rightarrow> Some (fallbackResult, True))
             else Some (fallbackResult, False))"

text \<open>The loop over the transactions: whether the toggle was called, and the data or \<open>None\<close> for an
  error. The toggle stays called when a later transaction fails.\<close>

fun process_txs ::
  "(byte list \<Rightarrow> byte list list option) \<Rightarrow> (u64, byte list option) gomap \<Rightarrow> batcherTxData list \<Rightarrow>
     bool \<times> byte list list option" where
  "process_txs rlpDecode blobMap [] = (False, Some [])"
| "process_txs rlpDecode blobMap (t # ts) =
     (case (case btd_calldata t of Some d \<Rightarrow> Some ([d], False)
            | None \<Rightarrow> processTxBlobs rlpDecode blobMap (btd_hashes t)) of
        None \<Rightarrow> (False, None)
      | Some (ds, toggle) \<Rightarrow>
         (case process_txs rlpDecode blobMap ts of
            (toggle', r) \<Rightarrow> (toggle \<or> toggle', map_option (\<lambda>ds'. ds @ ds') r)))"

text \<open>The blob map, or \<open>None\<close> for the index panic when the client returns too few blobs.\<close>

fun fill_blobMap ::
  "IndexedBlobHash list \<Rightarrow> byte list option list \<Rightarrow> (u64, byte list option) gomap \<Rightarrow>
     (u64, byte list option) gomap option" where
  "fill_blobMap [] blobs m = Some m"
| "fill_blobMap (h # hs) [] m = None"
| "fill_blobMap (h # hs) (b # bs) m = fill_blobMap hs bs (AList.update (ibh_Index h) b m)"

text \<open>\<open>open\<close>: the data, whether the toggle was called, and the network. The outer \<open>None\<close> is the
  index panic. The slice of data stays nil when nothing is appended to it.\<close>

definition mantle_open ::
  "(byte list \<Rightarrow> byte list list option) \<Rightarrow> 'n L1Fetcher \<Rightarrow> DataSourceConfig \<Rightarrow> L1BlockRef \<Rightarrow> address \<Rightarrow> 'n \<Rightarrow>
     ((derive_error + byte list list option) \<times> bool \<times> 'n) option" where
  "mantle_open rlpDecode fetcher dsCfg ref batcherAddr n =
     (case InfoAndTxsByHash fetcher (l1_Hash ref) n of
        (Inl NotFound, n1) \<Rightarrow> Some (Inl (NewResetError ''failed to open blob data source''), False, n1)
      | (Inl FetchFailed, n1) \<Rightarrow> Some (Inl (NewTemporaryError ''failed to open blob data source''), False, n1)
      | (Inr txs, n1) \<Rightarrow>
         (case batcherTxsAndHashesFromTxs dsCfg batcherAddr 0 txs of
            (batcherTxs, allBlobHashes) \<Rightarrow>
              if batcherTxs = [] then Some (Inr (Some []), False, n1)
              else case (if allBlobHashes = [] then (Inr [], n1)
                         else GetBlobs fetcher ref allBlobHashes n1) of
                (Inl NotFound, n2) \<Rightarrow> Some (Inl (NewResetError ''failed to fetch blobs''), False, n2)
              | (Inl FetchFailed, n2) \<Rightarrow> Some (Inl (NewTemporaryError ''failed to fetch blobs''), False, n2)
              | (Inr blobs, n2) \<Rightarrow>
                 (case fill_blobMap allBlobHashes blobs [] of
                    None \<Rightarrow> None
                  | Some blobMap \<Rightarrow>
                     (case process_txs rlpDecode blobMap batcherTxs of
                        (toggle, None) \<Rightarrow>
                          Some (Inl (NewResetError ''failed to process blobs''), toggle, n2)
                      | (toggle, Some allData) \<Rightarrow>
                          Some (Inr (if allData = [] then None else Some allData), toggle, n2)))))"

definition mantle_Next ::
  "(byte list \<Rightarrow> byte list list option) \<Rightarrow> 'n L1Fetcher \<Rightarrow> DataSourceConfig \<Rightarrow> MantleBlobDataSource \<times> 'n \<Rightarrow>
     ((derive_error + byte list) \<times> bool \<times> MantleBlobDataSource \<times> 'n) option" where
  "mantle_Next rlpDecode fetcher dsCfg s =
     (case s of (ds, n) \<Rightarrow>
      case (case mds_data ds of
              Some data \<Rightarrow> Some (Inr (Some data), False, n)
            | None \<Rightarrow> mantle_open rlpDecode fetcher dsCfg (mds_ref ds) (mds_batcherAddr ds) n) of
        None \<Rightarrow> None
      | Some (Inl err, toggle, n') \<Rightarrow> Some (Inl err, toggle, ds\<lparr>mds_data := None\<rparr>, n')
      | Some (Inr data, toggle, n') \<Rightarrow>
         (case data of
            None \<Rightarrow> Some (Inl IoEOF, toggle, ds\<lparr>mds_data := None\<rparr>, n')
          | Some [] \<Rightarrow> Some (Inl IoEOF, toggle, ds\<lparr>mds_data := Some []\<rparr>, n')
          | Some (next' # rest) \<Rightarrow> Some (Inr next', toggle, ds\<lparr>mds_data := Some rest\<rparr>, n')))"

subsection \<open>Choice of the source\<close>

record DataSourceFactory =
  ds_ecotoneTime :: "u64 option"
  ds_mantleEverestTime :: "u64 option"
  ds_hasBlobsFetcher :: bool
  blobSourceChanged :: bool

definition NewDataSourceFactory :: "Config \<Rightarrow> bool \<Rightarrow> DataSourceFactory" where
  "NewDataSourceFactory cfg hasBlobsFetcher =
     \<lparr>ds_ecotoneTime = EcotoneTime cfg, ds_mantleEverestTime = MantleEverestTime cfg,
      ds_hasBlobsFetcher = hasBlobsFetcher, blobSourceChanged = False\<rparr>"

datatype DataIter =
    CalldataIter CalldataSource | BlobIter BlobDataSource | MantleBlobIter MantleBlobDataSource

text \<open>\<open>OpenData\<close> without the wrapper for alternative data availability, with the error of the missing
  beacon endpoint.\<close>

definition OpenData ::
  "'n L1Fetcher \<Rightarrow> DataSourceConfig \<Rightarrow> DataSourceFactory \<Rightarrow> L1BlockRef \<Rightarrow> address \<Rightarrow> 'n \<Rightarrow>
     (string + DataIter) \<times> 'n" where
  "OpenData fetcher dsCfg ds ref batcherAddr n =
     (if (case ds_ecotoneTime ds of None \<Rightarrow> False | Some t \<Rightarrow> l1_Time ref \<ge> t) \<and> blobSourceChanged ds
      then (if \<not> ds_hasBlobsFetcher ds
            then (Inl ''ecotone upgrade active but beacon endpoint not configured'', n)
            else (Inr (BlobIter (NewBlobDataSource ref batcherAddr)), n))
      else if (case ds_mantleEverestTime ds of None \<Rightarrow> False | Some t \<Rightarrow> l1_Time ref \<ge> t)
      then (if \<not> ds_hasBlobsFetcher ds
            then (Inl ''mantle everest upgrade active but beacon endpoint not configured'', n)
            else (Inr (MantleBlobIter (NewMantleBlobDataSource ref batcherAddr)), n))
      else case NewCalldataSource fetcher dsCfg ref batcherAddr n of
        (src, n') \<Rightarrow> (Inr (CalldataIter src), n'))"

definition ds_Reset :: "DataSourceFactory \<Rightarrow> DataSourceFactory" where
  "ds_Reset ds = ds\<lparr>blobSourceChanged := False\<rparr>"

text \<open>\<open>Next\<close> of whichever source was opened; the Mantle source may call the toggle of the factory.
  \<open>None\<close> is a panic of the source.\<close>

definition iter_Next ::
  "(byte list \<Rightarrow> byte list list option) \<Rightarrow> 'n L1Fetcher \<Rightarrow> DataSourceConfig \<Rightarrow>
     DataIter \<times> DataSourceFactory \<times> 'n \<Rightarrow>
     ((derive_error + byte list) \<times> DataIter \<times> DataSourceFactory \<times> 'n) option" where
  "iter_Next rlpDecode fetcher dsCfg s =
     (case s of (it, f, n) \<Rightarrow>
      case it of
        CalldataIter ds \<Rightarrow>
          (case calldata_Next fetcher dsCfg (ds, n) of (r, ds', n') \<Rightarrow> Some (r, CalldataIter ds', f, n'))
      | BlobIter ds \<Rightarrow>
          (case blob_Next fetcher dsCfg (ds, n) of
             None \<Rightarrow> None | Some (r, ds', n') \<Rightarrow> Some (r, BlobIter ds', f, n'))
      | MantleBlobIter ds \<Rightarrow>
          (case mantle_Next rlpDecode fetcher dsCfg (ds, n) of
             None \<Rightarrow> None
           | Some (r, toggle, ds', n') \<Rightarrow>
               Some (r, MantleBlobIter ds', if toggle then f\<lparr>blobSourceChanged := True\<rparr> else f, n')))"

section \<open>Blob indices\<close>

definition blob_count :: "Transaction list \<Rightarrow> nat" where
  "blob_count txs = sum_list (map (\<lambda>tx. length (tx_BlobHashes tx)) txs)"

lemma index_hashes_conv: "map ibh_Index (index_hashes k hs) = map word_of_nat [k..<k + length hs]"
proof (induction hs arbitrary: k)
  case (Cons h hs)
  have "[k..<k + length (h # hs)] = k # [k + 1..<(k + 1) + length hs]"
    by (subst upt_conv_Cons) simp_all
  with Cons [of "k + 1"] show ?case by (simp del: upt_Suc)
qed simp

lemma length_index_hashes [simp]: "length (index_hashes k hs) = length hs"
  by (induction hs arbitrary: k) simp_all

lemma snd_dataAndHashes: "snd (dataAndHashesFromTxs cfg a k txs) = snd (batcherTxsAndHashesFromTxs cfg a k txs)"
  by (induction txs arbitrary: k) (auto simp: Let_def case_prod_unfold)

text \<open>The indices of the collected hashes increase strictly.\<close>

lemma blob_indices:
  "\<exists>ks. map ibh_Index (snd (batcherTxsAndHashesFromTxs cfg a k txs)) = map word_of_nat ks \<and>
     distinct ks \<and> set ks \<subseteq> {k..<k + blob_count txs}"
proof (induction txs arbitrary: k)
  case Nil
  show ?case by (intro exI [of _ "[]"]) simp
next
  case (Cons tx txs)
  let ?n = "length (tx_BlobHashes tx)"
  obtain ks where ks: "map ibh_Index (snd (batcherTxsAndHashesFromTxs cfg a (k + ?n) txs)) = map word_of_nat ks"
    "distinct ks" "set ks \<subseteq> {k + ?n..<k + ?n + blob_count txs}" using Cons by blast
  obtain ls where ls: "map ibh_Index (snd (batcherTxsAndHashesFromTxs cfg a k txs)) = map word_of_nat ls"
    "distinct ls" "set ls \<subseteq> {k..<k + blob_count txs}" using Cons by blast
  consider "\<not> isValidBatchTx cfg a tx" | "isValidBatchTx cfg a tx" "tx_Type tx \<noteq> BlobTxType"
    | "isValidBatchTx cfg a tx" "tx_Type tx = BlobTxType" by blast
  then show ?case
  proof cases
    case 1
    with ks show ?thesis by (intro exI [of _ ks]) (auto simp: blob_count_def)
  next
    case 2
    with ls show ?thesis by (intro exI [of _ ls]) (auto simp: blob_count_def split: prod.splits)
  next
    case 3
    with ks show ?thesis
      by (intro exI [of _ "[k..<k + ?n] @ ks"])
         (auto simp: blob_count_def Let_def index_hashes_conv split: prod.splits)
  qed
qed

lemma distinct_indices:
  assumes "blob_count txs < 2 ^ 64"
  shows "distinct (map ibh_Index (snd (batcherTxsAndHashesFromTxs cfg a 0 txs)))"
proof -
  obtain ks where ks: "map ibh_Index (snd (batcherTxsAndHashesFromTxs cfg a 0 txs)) = map word_of_nat ks"
    "distinct ks" "set ks \<subseteq> {0..<blob_count txs}" using blob_indices [of cfg a 0 txs] by auto
  have "inj_on (word_of_nat :: nat \<Rightarrow> u64) (set ks)"
  proof (rule inj_onI)
    fix x y assume "x \<in> set ks" "y \<in> set ks" and eq: "(word_of_nat x :: u64) = word_of_nat y"
    then have "x < 2 ^ 64" "y < 2 ^ 64" using ks(3) assms by fastforce+
    then show "x = y" using arg_cong [OF eq, of unat] by (simp add: unat_of_nat)
  qed
  with ks(1,2) show ?thesis by (simp add: distinct_map)
qed

text \<open>The map serves each hash the blob at its place in the answer of the client.\<close>

definition serves :: "(u64, byte list option) gomap \<Rightarrow> IndexedBlobHash list \<Rightarrow> byte list list \<Rightarrow> bool" where
  "serves m hashes bs \<longleftrightarrow> list_all2 (\<lambda>h b. map_of m (ibh_Index h) = Some (Some b)) hashes bs"

lemma fill_blobMap_other:
  "fill_blobMap hs bs m = Some m' \<Longrightarrow> i \<notin> ibh_Index ` set hs \<Longrightarrow> map_of m' i = map_of m i"
  by (induction hs bs m rule: fill_blobMap.induct) (auto simp: update_conv')

lemma fill_blobMap_serves:
  "distinct (map ibh_Index hs) \<Longrightarrow> length bs = length hs \<Longrightarrow>
     \<exists>m'. fill_blobMap hs (map Some bs) m = Some m' \<and> serves m' hs bs"
proof (induction hs arbitrary: bs m)
  case Nil
  then show ?case by (simp add: serves_def)
next
  case (Cons h hs)
  then obtain b bs' where bs: "bs = b # bs'" "length bs' = length hs" by (cases bs) auto
  from Cons.IH [of bs' "AList.update (ibh_Index h) (Some b) m"] Cons.prems bs obtain m' where
    m': "fill_blobMap hs (map Some bs') (AList.update (ibh_Index h) (Some b) m) = Some m'" "serves m' hs bs'"
    by auto
  have "map_of m' (ibh_Index h) = Some (Some b)"
    using fill_blobMap_other [OF m'(1), of "ibh_Index h"] Cons.prems(1) by (auto simp: update_conv')
  with m' bs show ?case by (simp add: serves_def)
qed

section \<open>Agreement of the two blob sources\<close>

text \<open>The data that a list of filled elements stands for, in order.\<close>

definition element_data :: "blobOrCalldata \<Rightarrow> byte list list" where
  "element_data d = (case boc_calldata d of
       Some c \<Rightarrow> [c]
     | None \<Rightarrow> (case boc_blob d of None \<Rightarrow> []
         | Some b \<Rightarrow> (case ToData b of Inl e \<Rightarrow> [] | Inr x \<Rightarrow> [x])))"

definition handed_out :: "blobOrCalldata list \<Rightarrow> byte list list" where
  "handed_out ds = concat (map element_data ds)"

definition filled :: "blobOrCalldata list \<Rightarrow> bool" where
  "filled ds \<longleftrightarrow> (\<forall>d \<in> set ds. boc_calldata d \<noteq> None \<or> boc_blob d \<noteq> None)"

lemma blob_next_data_handed_out:
  "filled ds \<Longrightarrow> \<exists>rest. filled rest \<and> length rest \<le> length ds \<and>
     (case handed_out ds of [] \<Rightarrow> blob_next_data ds = Some (Inl IoEOF, rest) \<and> rest = []
      | x # xs \<Rightarrow> blob_next_data ds = Some (Inr x, rest) \<and> handed_out rest = xs \<and> length rest < length ds)"
proof (induction ds)
  case Nil
  then show ?case by (simp add: handed_out_def)
next
  case (Cons d ds)
  then have f: "filled ds" by (simp add: filled_def)
  show ?case
  proof (cases "element_data d")
    case Nil
    then have "blob_next_data (d # ds) = blob_next_data ds" "handed_out (d # ds) = handed_out ds"
      using Cons.prems by (auto simp: element_data_def handed_out_def filled_def
          split: option.splits sum.splits)
    with Cons.IH [OF f] show ?thesis by (fastforce split: list.splits)
  next
    case (Cons x xs)
    then have "xs = []" and "blob_next_data (d # ds) = Some (Inr x, ds)"
      by (auto simp: element_data_def split: option.splits sum.splits)
    with Cons f show ?thesis by (auto simp: handed_out_def)
  qed
qed

text \<open>Blobs in the standard format: data that an RLP list cannot start with.\<close>

definition standard_blob :: "byte list \<Rightarrow> bool" where
  "standard_blob b \<longleftrightarrow> (case ToData b of Inl e \<Rightarrow> True | Inr [] \<Rightarrow> False | Inr (x # xs) \<Rightarrow> x < 192)"

text \<open>What is used of the RLP decoder: an encoded list starts with a byte from 192 on.\<close>

definition rlp_list_prefix :: "(byte list \<Rightarrow> byte list list option) \<Rightarrow> bool" where
  "rlp_list_prefix rlpDecode \<longleftrightarrow> (\<forall>x xs. x < 192 \<longrightarrow> rlpDecode (x # xs) = None)"

definition blob_data :: "byte list \<Rightarrow> byte list list" where
  "blob_data b = (case ToData b of Inl e \<Rightarrow> [] | Inr x \<Rightarrow> [x])"

lemma collect_blobs_serves:
  "serves m hs bs \<Longrightarrow> \<exists>valid. collect_blobs m hs = Some (concat (map blob_data bs), valid)"
proof (induction hs arbitrary: bs)
  case Nil
  then show ?case by (auto simp: serves_def)
next
  case (Cons h hs)
  then obtain b bs' where "bs = b # bs'" "map_of m (ibh_Index h) = Some (Some b)" "serves m hs bs'"
    by (auto simp: serves_def list_all2_Cons1)
  with Cons.IH [of bs'] show ?case by (auto simp: blob_data_def split: sum.splits)
qed

lemma processTxBlobs_standard:
  assumes "serves m hs bs" and "list_all standard_blob bs"
    and rlp: "rlp_list_prefix rlpDecode"
  shows "\<exists>toggle. processTxBlobs rlpDecode m hs = Some (concat (map blob_data bs), toggle)"
proof -
  obtain valid where c: "collect_blobs m hs = Some (concat (map blob_data bs), valid)"
    using collect_blobs_serves [OF assms(1)] by blast
  have "rlpDecode (concat (concat (map blob_data bs))) = None"
    if "concat (concat (map blob_data bs)) \<noteq> []"
    using assms(2) that
    by (induction bs) (auto simp: blob_data_def standard_blob_def rlp [unfolded rlp_list_prefix_def] split: sum.splits list.splits)
  with c show ?thesis by (auto simp: processTxBlobs_def Let_def split: option.splits)
qed

lemma fillBlobPointers_replicate:
  "fillBlobPointers (replicate (length bs) \<lparr>boc_blob = None, boc_calldata = None\<rparr> @ ds) (map Some bs @ bs') =
     (case fillBlobPointers ds bs' of Inl e \<Rightarrow> Inl e
      | Inr ds' \<Rightarrow> Inr (map (\<lambda>b. \<lparr>boc_blob = Some b, boc_calldata = None\<rparr>) bs @ ds'))"
  by (induction bs) (auto split: sum.splits)

lemma sources_agree:
  assumes rlp: "rlp_list_prefix rlpDecode"
  shows "\<forall>tx \<in> set txs. tx_Data tx \<noteq> None \<Longrightarrow>
    length bs = length (snd (dataAndHashesFromTxs cfg a k txs)) \<Longrightarrow>
    serves m (snd (dataAndHashesFromTxs cfg a k txs)) bs \<Longrightarrow> list_all standard_blob bs \<Longrightarrow>
    \<exists>data' toggle. fillBlobPointers (fst (dataAndHashesFromTxs cfg a k txs)) (map Some bs) = Inr data' \<and>
      filled data' \<and>
      process_txs rlpDecode m (fst (batcherTxsAndHashesFromTxs cfg a k txs)) = (toggle, Some (handed_out data'))"
proof (induction txs arbitrary: k bs)
  case Nil
  then show ?case by (auto simp: handed_out_def filled_def)
next
  case (Cons tx txs)
  let ?n = "length (tx_BlobHashes tx)"
  have nn: "\<forall>tx \<in> set txs. tx_Data tx \<noteq> None" using Cons.prems(1) by simp
  consider "\<not> isValidBatchTx cfg a tx" | "isValidBatchTx cfg a tx" "tx_Type tx \<noteq> BlobTxType"
    | "isValidBatchTx cfg a tx" "tx_Type tx = BlobTxType" by blast
  then show ?case
  proof cases
    case 1
    with Cons.IH [OF nn, of bs "k + ?n"] Cons.prems show ?thesis by simp
  next
    case 2
    obtain d where d: "tx_Data tx = Some d" using Cons.prems(1) by auto
    from 2 Cons.IH [OF nn, of bs k] Cons.prems obtain data' toggle where
      "fillBlobPointers (fst (dataAndHashesFromTxs cfg a k txs)) (map Some bs) = Inr data'" "filled data'"
      "process_txs rlpDecode m (fst (batcherTxsAndHashesFromTxs cfg a k txs)) = (toggle, Some (handed_out data'))"
      by (auto simp: case_prod_unfold)
    with 2 d show ?thesis
      by (auto simp: case_prod_unfold handed_out_def element_data_def data_bytes_def filled_def)
  next
    case 3
    let ?hs = "index_hashes k (tx_BlobHashes tx)"
    define b1 where "b1 = take ?n bs"
    define b2 where "b2 = drop ?n bs"
    have bs: "bs = b1 @ b2" by (simp add: b1_def b2_def)
    have l1: "length b1 = ?n" using 3 Cons.prems(2) by (simp add: b1_def case_prod_unfold)
    have s: "serves m ?hs b1" "serves m (snd (dataAndHashesFromTxs cfg a (k + ?n) txs)) b2"
      using 3 Cons.prems(3) l1 bs by (auto simp: serves_def case_prod_unfold list_all2_append)
    have st: "list_all standard_blob b1" "list_all standard_blob b2" using Cons.prems(4) bs by simp_all
    obtain t1 where p: "processTxBlobs rlpDecode m ?hs = Some (concat (map blob_data b1), t1)"
      using processTxBlobs_standard [OF s(1) st(1) rlp] by blast
    from 3 Cons.IH [OF nn, of b2 "k + ?n"] Cons.prems(2) s(2) st(2) bs l1 obtain data' t2 where
      IH: "fillBlobPointers (fst (dataAndHashesFromTxs cfg a (k + ?n) txs)) (map Some b2) = Inr data'"
      "filled data'"
      "process_txs rlpDecode m (fst (batcherTxsAndHashesFromTxs cfg a (k + ?n) txs)) = (t2, Some (handed_out data'))"
      by (auto simp: case_prod_unfold)
    let ?new = "map (\<lambda>b. \<lparr>boc_blob = Some b, boc_calldata = None\<rparr>) b1"
    have ho: "handed_out (?new @ data') = concat (map blob_data b1) @ handed_out data'"
      by (simp add: handed_out_def comp_def element_data_def blob_data_def [abs_def])
    have fl: "filled (?new @ data')" using IH(2) by (auto simp: filled_def)
    have f: "fillBlobPointers (fst (dataAndHashesFromTxs cfg a k (tx # txs))) (map Some bs) = Inr (?new @ data')"
      using 3 IH(1) fillBlobPointers_replicate [of b1 "fst (dataAndHashesFromTxs cfg a (k + ?n) txs)" "map Some b2"]
      by (simp add: case_prod_unfold bs l1)
    have "process_txs rlpDecode m (fst (batcherTxsAndHashesFromTxs cfg a k (tx # txs)))
        = (if ?hs \<noteq> [] then (t1 \<or> t2) else t2, Some (handed_out (?new @ data')))"
    proof (cases "?hs = []")
      case True
      then have "b1 = []" using l1 by (metis length_0_conv length_index_hashes)
      with 3 IH(3) True ho show ?thesis by (simp add: case_prod_unfold Let_def)
    next
      case False
      with 3 IH(3) p ho show ?thesis by (simp add: case_prod_unfold Let_def)
    qed
    with f fl show ?thesis by blast
  qed
qed

section \<open>Successive calls of a source\<close>

text \<open>Successive calls of \<open>Next\<close> hand out the data \<open>xs\<close> one after the other, and then the error.\<close>

fun hands_out :: "('s \<Rightarrow> ((derive_error + byte list) \<times> 's) option) \<Rightarrow> 's \<Rightarrow> byte list list \<Rightarrow> derive_error \<Rightarrow> bool" where
  "hands_out nextData s [] err \<longleftrightarrow> (\<exists>s'. nextData s = Some (Inl err, s'))"
| "hands_out nextData s (x # xs) err \<longleftrightarrow> (\<exists>s'. nextData s = Some (Inr x, s') \<and> hands_out nextData s' xs err)"

text \<open>What the batcher posted in a block: the calldata of its transactions without blobs, and the data of the blobs of the others that parse.\<close>

fun posted :: "DataSourceConfig \<Rightarrow> address \<Rightarrow> Transaction list \<Rightarrow> byte list list \<Rightarrow> byte list list" where
  "posted cfg a [] bs = []"
| "posted cfg a (tx # txs) bs =
     (if \<not> isValidBatchTx cfg a tx then posted cfg a txs bs
      else if tx_Type tx \<noteq> BlobTxType then data_bytes tx # posted cfg a txs bs
      else concat (map blob_data (take (length (tx_BlobHashes tx)) bs)) @ posted cfg a txs (drop (length (tx_BlobHashes tx)) bs))"

lemma handed_out_posted:
  "length bs = length (snd (dataAndHashesFromTxs cfg a k txs)) \<Longrightarrow>
    \<exists>data. fillBlobPointers (fst (dataAndHashesFromTxs cfg a k txs)) (map Some bs) = Inr data \<and> handed_out data = posted cfg a txs bs"
proof (induction txs arbitrary: k bs)
  case (Cons tx txs)
  let ?n = "length (tx_BlobHashes tx)"
  consider "\<not> isValidBatchTx cfg a tx" | "isValidBatchTx cfg a tx" "tx_Type tx \<noteq> BlobTxType"
    | "isValidBatchTx cfg a tx" "tx_Type tx = BlobTxType" by blast
  then show ?case
  proof cases
    case 1
    with Cons.IH [of bs "k + ?n"] Cons.prems show ?thesis by simp
  next
    case 2
    with Cons.IH [of bs k] Cons.prems show ?thesis
      by (auto simp: case_prod_unfold handed_out_def element_data_def)
  next
    case 3
    define b1 where "b1 = take ?n bs"
    define b2 where "b2 = drop ?n bs"
    have bs: "bs = b1 @ b2" by (simp add: b1_def b2_def)
    have l1: "length b1 = ?n" using 3 Cons.prems by (simp add: b1_def case_prod_unfold)
    obtain data where d: "fillBlobPointers (fst (dataAndHashesFromTxs cfg a (k + ?n) txs)) (map Some b2) = Inr data" "handed_out data = posted cfg a txs b2"
      using Cons.IH [of b2 "k + ?n"] Cons.prems 3 bs l1 by (auto simp: case_prod_unfold)
    have "handed_out (map (\<lambda>b. \<lparr>boc_blob = Some b, boc_calldata = None\<rparr>) b1 @ data) = concat (map blob_data b1) @ handed_out data"
      by (simp add: handed_out_def comp_def element_data_def blob_data_def [abs_def])
    then show ?thesis
      using 3 d fillBlobPointers_replicate [of b1 "fst (dataAndHashesFromTxs cfg a (k + ?n) txs)" "map Some b2"]
      by (simp add: case_prod_unfold bs l1 b1_def [symmetric] b2_def [symmetric])
  qed
qed (simp add: handed_out_def)

lemma blob_hands_out:
  assumes "filled data"
  shows "hands_out (blob_Next fetcher dsCfg) (ds\<lparr>bds_data := Some data\<rparr>, n) (handed_out data) IoEOF"
  using assms
proof (induction "handed_out data" arbitrary: data ds)
  case Nil
  then obtain rest where "blob_next_data data = Some (Inl IoEOF, rest)" using blob_next_data_handed_out [OF Nil.prems] by auto
  then show ?case unfolding Nil.hyps [symmetric] by (simp add: blob_Next_def)
next
  case (Cons x xs)
  obtain rest where r: "blob_next_data data = Some (Inr x, rest)" "handed_out rest = xs" "filled rest"
    using blob_next_data_handed_out [OF Cons.prems] unfolding Cons.hyps(2) [symmetric] by auto
  have "hands_out (blob_Next fetcher dsCfg) (ds\<lparr>bds_data := Some rest\<rparr>, n) xs IoEOF" using Cons.hyps(1) [of rest ds] r(2,3) by simp
  then show ?case unfolding Cons.hyps(2) [symmetric] using r(1) by (simp add: blob_Next_def)
qed

lemma blob_hands_out_open:
  assumes "blob_open fetcher dsCfg ref a n = (Inr data, nx)" and "filled data"
  shows "hands_out (blob_Next fetcher dsCfg) (NewBlobDataSource ref a, n) (handed_out data) IoEOF"
proof -
  have "blob_Next fetcher dsCfg (NewBlobDataSource ref a, n) = blob_Next fetcher dsCfg ((NewBlobDataSource ref a)\<lparr>bds_data := Some data\<rparr>, nx)"
    using assms(1) by (simp add: blob_Next_def NewBlobDataSource_def split: option.splits)
  then show ?thesis using blob_hands_out [OF assms(2), of fetcher dsCfg "NewBlobDataSource ref a" nx] by (cases "handed_out data") auto
qed

text \<open>\<open>Next\<close> of the Mantle source without the toggle.\<close>

definition mantle_Next_data ::
  "(byte list \<Rightarrow> byte list list option) \<Rightarrow> 'n L1Fetcher \<Rightarrow> DataSourceConfig \<Rightarrow> MantleBlobDataSource \<times> 'n \<Rightarrow>
     ((derive_error + byte list) \<times> MantleBlobDataSource \<times> 'n) option" where
  "mantle_Next_data rlpDecode fetcher dsCfg s = map_option (\<lambda>(r, toggle, s'). (r, s')) (mantle_Next rlpDecode fetcher dsCfg s)"

lemma mantle_hands_out:
  "hands_out (mantle_Next_data rlpDecode fetcher dsCfg) (ds\<lparr>mds_data := Some xs\<rparr>, n) xs IoEOF"
  by (induction xs arbitrary: ds) (auto simp: mantle_Next_data_def mantle_Next_def)

lemma mantle_hands_out_open:
  assumes "mantle_open rlpDecode fetcher dsCfg ref a n = Some (Inr ds, toggle, nx)"
  shows "hands_out (mantle_Next_data rlpDecode fetcher dsCfg) (NewMantleBlobDataSource ref a, n) (case ds of None \<Rightarrow> [] | Some xs \<Rightarrow> xs) IoEOF"
proof (cases ds)
  case None
  then show ?thesis using assms by (simp add: mantle_Next_data_def mantle_Next_def NewMantleBlobDataSource_def)
next
  case (Some xs)
  then have "fst (the (mantle_Next_data rlpDecode fetcher dsCfg (NewMantleBlobDataSource ref a, n))) =
      fst (the (mantle_Next_data rlpDecode fetcher dsCfg ((NewMantleBlobDataSource ref a)\<lparr>mds_data := Some xs\<rparr>, nx)))"
    "mantle_Next_data rlpDecode fetcher dsCfg (NewMantleBlobDataSource ref a, n) =
      mantle_Next_data rlpDecode fetcher dsCfg ((NewMantleBlobDataSource ref a)\<lparr>mds_data := Some xs\<rparr>, nx)"
    using assms by (auto simp: mantle_Next_data_def mantle_Next_def NewMantleBlobDataSource_def split: list.splits)
  then show ?thesis
    using Some mantle_hands_out [of rlpDecode fetcher dsCfg xs "NewMantleBlobDataSource ref a" nx] by (cases xs) auto
qed

lemma opened_sources_agree:
  assumes txs: "InfoAndTxsByHash fetcher (l1_Hash ref) n = (Inr txs, n1)"
    and hashes: "hashes = snd (dataAndHashesFromTxs dsCfg batcherAddr 0 txs)"
    and blobs: "hashes \<noteq> [] \<Longrightarrow> GetBlobs fetcher ref hashes n1 = (Inr (map Some bs), n2)" "length bs = length hashes"
    and standard: "list_all standard_blob bs"
    and rlp: "rlp_list_prefix rlpDecode"
    and data: "\<forall>tx \<in> set txs. tx_Data tx \<noteq> None" and count: "blob_count txs < 2 ^ 64"
  shows "\<exists>data toggle nx ds nm. blob_open fetcher dsCfg ref batcherAddr n = (Inr data, nx) \<and> filled data \<and> handed_out data = posted dsCfg batcherAddr txs bs \<and>
    mantle_open rlpDecode fetcher dsCfg ref batcherAddr n = Some (Inr ds, toggle, nm) \<and>
    (case ds of None \<Rightarrow> [] | Some xs \<Rightarrow> xs) = handed_out data"
proof -
  have h: "snd (batcherTxsAndHashesFromTxs dsCfg batcherAddr 0 txs) = hashes"
    by (simp add: hashes snd_dataAndHashes)
  obtain m where m: "fill_blobMap hashes (map Some bs) [] = Some m" "serves m hashes bs"
    using fill_blobMap_serves [of hashes bs "[]"] distinct_indices [OF count, of dsCfg batcherAddr] blobs(2)
    by (auto simp: h)
  obtain data' toggle where
    a: "fillBlobPointers (fst (dataAndHashesFromTxs dsCfg batcherAddr 0 txs)) (map Some bs) = Inr data'"
    "filled data'"
    "process_txs rlpDecode m (fst (batcherTxsAndHashesFromTxs dsCfg batcherAddr 0 txs)) = (toggle, Some (handed_out data'))"
    using sources_agree [OF rlp data, of bs dsCfg batcherAddr 0 m] m(2) blobs(2) standard hashes by auto
  have po: "handed_out data' = posted dsCfg batcherAddr txs bs"
    using handed_out_posted [of bs dsCfg batcherAddr 0 txs] blobs(2) hashes a(1) by auto
  obtain nx where nx: "(if hashes = [] then (Inr [], n1) else GetBlobs fetcher ref hashes n1) = (Inr (map Some bs), nx)"
    using blobs by (cases "hashes = []") auto
  have no_blobs: "data' = fst (dataAndHashesFromTxs dsCfg batcherAddr 0 txs)" if "hashes = []"
  proof -
    have "fillBlobPointers ds [] = Inr data' \<Longrightarrow> data' = ds" for ds
      by (induction ds arbitrary: data') (auto split: if_splits sum.splits)
    with a(1) that blobs(2) show ?thesis by simp
  qed
  have bo: "blob_open fetcher dsCfg ref batcherAddr n = (Inr data', nx)"
    using nx a(1) no_blobs
    by (cases "hashes = []") (auto simp: blob_open_def txs case_prod_unfold hashes [symmetric])
  have mo: "\<exists>ds t. mantle_open rlpDecode fetcher dsCfg ref batcherAddr n = Some (Inr ds, t, nx) \<and>
      (case ds of None \<Rightarrow> [] | Some xs \<Rightarrow> xs) = handed_out data'"
  proof (cases "fst (batcherTxsAndHashesFromTxs dsCfg batcherAddr 0 txs) = []")
    case True
    have "hashes = []"
    proof -
      have "fst (batcherTxsAndHashesFromTxs dsCfg batcherAddr k txs) = [] \<Longrightarrow>
          snd (batcherTxsAndHashesFromTxs dsCfg batcherAddr k txs) = []" for k
        by (induction txs arbitrary: k) (auto simp: case_prod_unfold Let_def split: if_splits)
      with True h show ?thesis by simp
    qed
    with True nx a(3) show ?thesis by (auto simp: mantle_open_def txs case_prod_unfold)
  next
    case False
    with nx a(3) m(1) h show ?thesis
      by (auto simp: mantle_open_def txs case_prod_unfold)
  qed
  from bo mo a(2) po show ?thesis by blast
qed

section \<open>Properties\<close>

text \<open>C37: On a block whose batcher blobs hold data in the standard format, successive calls of the standard and of the Mantle blob source hand out the same data in
  the same order, and then the end of the data: the calldata of the batcher's transactions without blobs, and the data of the blobs of the others, without those that do not parse.
  The client returns one blob for each hash, the transactions have data (possibly empty, but not nil), and an RLP list starts with a byte
  from 192 on. So after Arsia the in-memory toggle between the two sources does not change what is derived from such blocks.\<close>

theorem mantle_source_agrees:
  assumes txs: "InfoAndTxsByHash fetcher (l1_Hash ref) n = (Inr txs, n1)"
    and hashes: "hashes = snd (dataAndHashesFromTxs dsCfg batcherAddr 0 txs)"
    and blobs: "hashes \<noteq> [] \<Longrightarrow> GetBlobs fetcher ref hashes n1 = (Inr (map Some bs), n2)" "length bs = length hashes"
    and standard: "list_all standard_blob bs"
    and rlp: "rlp_list_prefix rlpDecode"
    and data: "\<forall>tx \<in> set txs. tx_Data tx \<noteq> None" and count: "blob_count txs < 2 ^ 64"
  shows "hands_out (blob_Next fetcher dsCfg) (NewBlobDataSource ref batcherAddr, n) (posted dsCfg batcherAddr txs bs) IoEOF \<and>
    hands_out (\<lambda>s. map_option (\<lambda>(r, toggle, s'). (r, s')) (mantle_Next rlpDecode fetcher dsCfg s)) (NewMantleBlobDataSource ref batcherAddr, n)
      (posted dsCfg batcherAddr txs bs) IoEOF"
proof -
  obtain data toggle nx ds nm where o': "blob_open fetcher dsCfg ref batcherAddr n = (Inr data, nx)" "filled data" "handed_out data = posted dsCfg batcherAddr txs bs"
    "mantle_open rlpDecode fetcher dsCfg ref batcherAddr n = Some (Inr ds, toggle, nm)" "(case ds of None \<Rightarrow> [] | Some xs \<Rightarrow> xs) = handed_out data"
    using opened_sources_agree [OF assms] by blast
  show ?thesis
    using blob_hands_out_open [OF o'(1,2)] mantle_hands_out_open [OF o'(4)] o'(3,5) by (simp add: mantle_Next_data_def [abs_def])
qed

text \<open>A block with a blob transaction of one blob, which holds a version byte and one byte of data.\<close>

definition sample_blob :: "byte list" where
  "sample_blob = (case FromData [0, 5] of Inr b \<Rightarrow> b | Inl e \<Rightarrow> [])"

definition sample_tx :: Transaction where
  "sample_tx = \<lparr>tx_Type = 3, tx_To = Some 3, tx_Data = Some [], tx_BlobHashes = [17], tx_Hash = 1\<rparr>"

definition sample_dsCfg :: DataSourceConfig where
  "sample_dsCfg = \<lparr>Sender = (\<lambda>tx. Some 5), batchInboxAddress = 3, altDAEnabled = False\<rparr>"

definition sample_fetcher :: "unit L1Fetcher" where
  "sample_fetcher = \<lparr>InfoAndTxsByHash = (\<lambda>h n. (Inr [sample_tx], n)),
     GetBlobs = (\<lambda>ref hashes n. (Inr (map (\<lambda>_. Some sample_blob) hashes), n))\<rparr>"

definition sample_rlp :: "byte list \<Rightarrow> byte list list option" where
  "sample_rlp bs = (if bs = [192] then Some [] else None)"

lemma sample_blob_ToData: "ToData sample_blob = Inr [0, 5]"
proof -
  have "\<exists>b. FromData [0, 5] = Inr b \<and> ToData b = Inr [0, 5]"
    using FromData_blob [of "[0, 5]"] ToData_blob [of "[0, 5]"] by (simp add: MaxBlobDataSize_def)
  then show ?thesis by (auto simp: sample_blob_def)
qed

theorem mantle_source_agrees_witness:
  "hands_out (blob_Next sample_fetcher sample_dsCfg) (NewBlobDataSource zero_L1BlockRef 5, ()) [[0, 5]] IoEOF \<and>
    hands_out (\<lambda>s. map_option (\<lambda>(r, toggle, s'). (r, s')) (mantle_Next sample_rlp sample_fetcher sample_dsCfg s))
      (NewMantleBlobDataSource zero_L1BlockRef 5, ()) [[0, 5]] IoEOF"
proof -
  have v: "isValidBatchTx sample_dsCfg 5 sample_tx"
    by (simp add: isValidBatchTx_def sample_dsCfg_def sample_tx_def BlobTxType_def DepositTxType_def)
  have ty: "tx_Type sample_tx = BlobTxType" "tx_BlobHashes sample_tx = [17]" "tx_Data sample_tx \<noteq> None"
    by (simp_all add: sample_tx_def BlobTxType_def)
  have hs: "snd (dataAndHashesFromTxs sample_dsCfg 5 0 [sample_tx]) = [\<lparr>ibh_Index = 0, ibh_Hash = 17\<rparr>]"
    by (simp add: v ty)
  have b: "InfoAndTxsByHash sample_fetcher (l1_Hash zero_L1BlockRef) () = (Inr [sample_tx], ())"
    "GetBlobs sample_fetcher zero_L1BlockRef [\<lparr>ibh_Index = 0, ibh_Hash = 17\<rparr>] ()
      = (Inr (map Some [sample_blob]), ())" by (simp_all add: sample_fetcher_def)
  have p: "posted sample_dsCfg 5 [sample_tx] [sample_blob] = [[0, 5]]" by (simp add: v ty blob_data_def sample_blob_ToData)
  have "rlp_list_prefix sample_rlp" by (auto simp: rlp_list_prefix_def sample_rlp_def)
  moreover have "list_all standard_blob [sample_blob]" by (simp add: standard_blob_def sample_blob_ToData)
  ultimately show ?thesis
    using mantle_source_agrees [OF b(1) hs [symmetric] b(2), of sample_rlp] ty p
    by (simp add: blob_count_def)
qed

end
