(* ===== verification/Frame.thy ===== *)
theory Frame
  imports Prelude
begin

text \<open>
  The frame format (\<open>op-node/rollup/derive/frame.go\<close>): a frame carries a chunk of a channel.
  \<open>MarshalBinary\<close> and \<open>UnmarshalBinary\<close> are inverse to each other on frames that respect the
  length limit, and \<open>ParseFrames\<close> accepts exactly the concatenations of such encodings behind
  the version byte.
\<close>

section \<open>Definitions\<close>

definition MaxFrameLen :: nat where "MaxFrameLen = 1000000"
definition DerivationVersion0 :: byte where "DerivationVersion0 = 0"
definition ChannelIDLength :: nat where "ChannelIDLength = 16"

type_synonym ChannelID = "128 word"

record Frame =
  ID :: ChannelID
  FrameNumber :: u16
  Data :: "byte list"
  IsLast :: bool

text \<open>The writer never fails here (a \<open>bytes.Buffer\<close>); the written bytes are returned.  The
  length field is the data length truncated to 32 bits.\<close>

definition MarshalBinary :: "Frame \<Rightarrow> byte list" where
  "MarshalBinary f =
     be_encode ChannelIDLength (unat (ID f)) @
     be_encode 2 (unat (FrameNumber f)) @
     be_encode 4 (unat (word_of_nat (length (Data f)) :: u32)) @
     Data f @
     (if IsLast f then [1] else [0])"

datatype frame_error =
    ReadingChannelID io_error | ReadingFrameNumber io_error | ReadingFrameDataLength io_error
  | FrameDataLengthTooLarge nat | ReadingFrameData io_error | ReadingIsLast io_error
  | InvalidIsLastByte

fun eofAsUnexpectedMissing :: "io_error \<Rightarrow> io_error" where
  "eofAsUnexpectedMissing EOF = ErrUnexpectedEOF"
| "eofAsUnexpectedMissing ErrUnexpectedEOF = ErrUnexpectedEOF"

text \<open>The result is the frame and the unread rest of the buffer.\<close>

definition UnmarshalBinary :: "byte list \<Rightarrow> frame_error + Frame \<times> byte list" where
  "UnmarshalBinary r =
     (case ReadFull ChannelIDLength r of
        Inl e \<Rightarrow> Inl (ReadingChannelID e)
      | Inr (idb, r1) \<Rightarrow>
     (case ReadFull 2 r1 of
        Inl e \<Rightarrow> Inl (ReadingFrameNumber (eofAsUnexpectedMissing e))
      | Inr (numb, r2) \<Rightarrow>
     (case ReadFull 4 r2 of
        Inl e \<Rightarrow> Inl (ReadingFrameDataLength (eofAsUnexpectedMissing e))
      | Inr (lenb, r3) \<Rightarrow>
          if be_decode lenb > MaxFrameLen then Inl (FrameDataLengthTooLarge (be_decode lenb))
          else
     (case ReadFull (be_decode lenb) r3 of
        Inl e \<Rightarrow> Inl (ReadingFrameData (eofAsUnexpectedMissing e))
      | Inr (data, r4) \<Rightarrow>
     (case ReadByte r4 of
        Inl e \<Rightarrow> Inl (ReadingIsLast (eofAsUnexpectedMissing e))
      | Inr (isLastByte, r5) \<Rightarrow>
          if isLastByte = 0 then
            Inr (\<lparr>ID = word_of_nat (be_decode idb), FrameNumber = word_of_nat (be_decode numb),
                  Data = data, IsLast = False\<rparr>, r5)
          else if isLastByte = 1 then
            Inr (\<lparr>ID = word_of_nat (be_decode idb), FrameNumber = word_of_nat (be_decode numb),
                  Data = data, IsLast = True\<rparr>, r5)
          else Inl InvalidIsLastByte)))))"

section \<open>The codec\<close>

definition frame_wf :: "Frame \<Rightarrow> bool" where
  "frame_wf f \<longleftrightarrow> length (Data f) \<le> MaxFrameLen"

lemma unat_id_small: "unat (x :: ChannelID) < 256 ^ 16"
  using unsigned_less [of x, where 'a = nat] by simp

lemma unat_num_small: "unat (x :: u16) < 256\<^sup>2"
  using unat_u16_less [of x] by simp

lemma frame_len_field:
  "length bs \<le> MaxFrameLen \<Longrightarrow> unat (word_of_nat (length bs) :: u32) = length bs"
  by (simp add: MaxFrameLen_def unat_of_nat)

lemma frame_len_field_decode [simp]:
  "length bs \<le> MaxFrameLen \<Longrightarrow>
     be_decode (be_encode 4 (unat (word_of_nat (length bs) :: u32))) = length bs"
  by (simp add: frame_len_field MaxFrameLen_def)

lemma id_field_decode [simp]: "be_decode (be_encode 16 (unat (x :: ChannelID))) = unat x"
  using unat_id_small [of x] by simp

lemma num_field_decode [simp]: "be_decode (be_encode 2 (unat (x :: u16))) = unat x"
  using unat_num_small [of x] by simp

lemma Unmarshal_Marshal:
  assumes "frame_wf f"
  shows "UnmarshalBinary (MarshalBinary f @ r) = Inr (f, r)"
  using assms
  by (cases f) (simp add: frame_wf_def UnmarshalBinary_def MarshalBinary_def ChannelIDLength_def
      del: be_encode.simps be_decode_encode)

text \<open>A decoded field is the big-endian encoding of the word it is stored in.\<close>

lemma be_encode_word:
  assumes "length bs = n" and "256 ^ n = (2 :: nat) ^ LENGTH('a::len)"
  shows "be_encode n (unat (word_of_nat (be_decode bs) :: 'a word)) = bs"
proof -
  have "unat (word_of_nat (be_decode bs) :: 'a word) = be_decode bs"
    using be_decode_less [of bs] assms by (simp add: unat_of_nat)
  with assms(1) show ?thesis by (simp add: be_encode_decode)
qed

lemma Unmarshal_sound:
  assumes "UnmarshalBinary bs = Inr (f, r)"
  shows "frame_wf f \<and> bs = MarshalBinary f @ r"
proof -
  from assms obtain idb numb lenb data b where
    bs: "bs = idb @ numb @ lenb @ data @ b # r"
    and len: "length idb = 16" "length numb = 2" "length lenb = 4"
      "length data = be_decode lenb" "be_decode lenb \<le> MaxFrameLen"
    and f: "f = \<lparr>ID = word_of_nat (be_decode idb), FrameNumber = word_of_nat (be_decode numb),
                Data = data, IsLast = (b = 1)\<rparr>"
    and b: "b = 0 \<or> b = 1"
    by (auto simp: UnmarshalBinary_def ChannelIDLength_def ReadFull_Inr_iff ReadByte_Inr_iff
        split: sum.splits if_splits)
  have "be_encode 4 (unat (word_of_nat (length data) :: u32)) = lenb"
    using len be_encode_word [of lenb 4, where 'a = 32] by simp
  with f b have "bs = MarshalBinary f @ r"
    using be_encode_word [of idb 16, where 'a = 128] be_encode_word [of numb 2, where 'a = 16]
      len by (auto simp: bs MarshalBinary_def ChannelIDLength_def simp del: be_encode.simps)
  with f len show ?thesis by (simp add: frame_wf_def)
qed

lemma MarshalBinary_nonempty: "MarshalBinary f \<noteq> []"
  by (simp add: MarshalBinary_def)

lemma length_MarshalBinary: "length (MarshalBinary f) = length (Data f) + 23"
  by (simp add: MarshalBinary_def ChannelIDLength_def del: be_encode.simps)

interpretation frame_codec: codec MarshalBinary UnmarshalBinary frame_wf
  by unfold_locales (auto simp: Unmarshal_Marshal MarshalBinary_nonempty dest: Unmarshal_sound)

section \<open>Parsing a transaction\<close>

datatype parse_error =
    DataMustNotBeEmpty | InvalidDerivationByte byte | ParsingFrame nat frame_error
  | DidNotFullyConsume nat nat | NoFrames

text \<open>The loop \<open>for buf.Len() > 0\<close>; it ends because every decoded frame shortens the buffer.\<close>

function parse_loop :: "byte list \<Rightarrow> Frame list \<Rightarrow> parse_error + Frame list" where
  "parse_loop buf frames =
     (if buf = [] then Inr frames
      else case UnmarshalBinary buf of
        Inl e \<Rightarrow> Inl (ParsingFrame (length frames) e)
      | Inr (f, r) \<Rightarrow> parse_loop r (frames @ [f]))"
  by pat_completeness auto
termination
  by (relation "measure (\<lambda>(buf, frames). length buf)")
     (auto dest: frame_codec.dec_shorter)

declare parse_loop.simps [simp del]

text \<open>After the loop the buffer is empty, so the check for left-over data cannot fire; the
  check for an empty list fires when only the version byte was given.\<close>

definition ParseFrames :: "byte list \<Rightarrow> parse_error + Frame list" where
  "ParseFrames data =
     (case data of
        [] \<Rightarrow> Inl DataMustNotBeEmpty
      | v # buf \<Rightarrow>
          if v \<noteq> DerivationVersion0 then Inl (InvalidDerivationByte v)
          else case parse_loop buf [] of
            Inl e \<Rightarrow> Inl e
          | Inr frames \<Rightarrow> if frames = [] then Inl NoFrames else Inr frames)"

interpretation frame_loop:
  codec_loop MarshalBinary UnmarshalBinary frame_wf parse_loop ParsingFrame
  by unfold_locales (subst parse_loop.simps, simp)

lemma ParseFrames_Inr_iff:
  "ParseFrames data = Inr fs \<longleftrightarrow>
     fs \<noteq> [] \<and> list_all frame_wf fs \<and>
     data = DerivationVersion0 # concat (map MarshalBinary fs)"
proof -
  have "ParseFrames data = Inr fs \<longleftrightarrow>
      (\<exists>buf. data = DerivationVersion0 # buf \<and> parse_loop buf [] = Inr fs) \<and> fs \<noteq> []"
    by (cases data) (auto simp: ParseFrames_def split: sum.splits if_splits)
  then show ?thesis by (auto simp: frame_loop.loop_Inr_iff)
qed

section \<open>Properties\<close>

text \<open>C29: \<open>UnmarshalBinary\<close> returns a frame exactly when the buffer starts with the encoding
  of that frame and its data respects \<open>MaxFrameLen\<close>; the rest of the buffer is untouched.
  So the two functions are inverse to each other and no frame has two encodings.\<close>

theorem UnmarshalBinary_iff:
  "UnmarshalBinary bs = Inr (f, r) \<longleftrightarrow>
     length (Data f) \<le> MaxFrameLen \<and> bs = MarshalBinary f @ r"
  unfolding frame_wf_def [symmetric] by (rule frame_codec.dec_Inr_iff)

text \<open>\<open>ParseFrames\<close> accepts exactly the version byte followed by the encodings of one or
  more frames within the length limit, and returns those frames in order.\<close>

theorem ParseFrames_iff:
  "ParseFrames data = Inr fs \<longleftrightarrow>
     fs \<noteq> [] \<and> list_all (\<lambda>f. length (Data f) \<le> MaxFrameLen) fs \<and>
     data = DerivationVersion0 # concat (map MarshalBinary fs)"
proof -
  have "frame_wf = (\<lambda>f. length (Data f) \<le> MaxFrameLen)"
    by (simp add: fun_eq_iff frame_wf_def)
  then show ?thesis using ParseFrames_Inr_iff [of data fs] by simp
qed

end
