(* ===== verification/Channel.thy ===== *)
theory Channel
  imports Frame Eth_Types
begin

text \<open>
  Channels (\<open>op-node/rollup/derive/channel.go\<close>, \<open>params.go\<close>): frames are buffered by number,
  the frame marked last closes the channel, and a closed channel without gaps can be read.
  The theory gives the invariant of the buffer, the reassembly of a channel from its frames
  in any order, the strict order of Holocene channels, and the size accounting.
\<close>

section \<open>Definitions\<close>

definition frameOverhead :: u64 where "frameOverhead = 200"

definition frameSize :: "Frame \<Rightarrow> u64" where
  "frameSize frame = word_of_nat (length (Data frame)) + frameOverhead"

record Channel =
  ch_id :: ChannelID
  openBlock :: L1BlockRef
  requireInOrder :: bool
  ch_size :: u64
  closed :: bool
  highestFrameNumber :: u16
  endFrameNumber :: u16
  inputs :: "(u64, Frame) gomap"
  highestL1InclusionBlock :: L1BlockRef

definition NewChannel :: "ChannelID \<Rightarrow> L1BlockRef \<Rightarrow> bool \<Rightarrow> Channel" where
  "NewChannel id' ob inOrder =
     \<lparr>ch_id = id', openBlock = ob, requireInOrder = inOrder, ch_size = 0, closed = False,
      highestFrameNumber = 0, endFrameNumber = 0, inputs = [],
      highestL1InclusionBlock = zero_L1BlockRef\<rparr>"

datatype channel_error =
    FrameIDMismatch ChannelID ChannelID | EndingFrameOnClosedChannel ChannelID | DuplicateErr
  | FrameNumberPastEnd u16 u16 | FrameOutOfOrder nat u16

text \<open>The key of a frame in the input map, \<open>uint64(frame.FrameNumber)\<close>.\<close>

definition frame_key :: "Frame \<Rightarrow> u64" where
  "frame_key frame = ucast (FrameNumber frame)"

definition AddFrame :: "Frame \<Rightarrow> L1BlockRef \<Rightarrow> Channel \<Rightarrow> channel_error + Channel" where
  "AddFrame frame l1InclusionBlock ch =
     (if ID frame \<noteq> ch_id ch then Inl (FrameIDMismatch (ch_id ch) (ID frame))
      else if IsLast frame \<and> closed ch then Inl (EndingFrameOnClosedChannel (ch_id ch))
      else if map_of (inputs ch) (frame_key frame) \<noteq> None then Inl DuplicateErr
      else if closed ch \<and> FrameNumber frame \<ge> endFrameNumber ch
      then Inl (FrameNumberPastEnd (FrameNumber frame) (endFrameNumber ch))
      else if requireInOrder ch \<and> unat (FrameNumber frame) \<noteq> length (inputs ch)
      then Inl (FrameOutOfOrder (length (inputs ch)) (FrameNumber frame))
      else
        let ch1 = (if IsLast frame
                   then ch\<lparr>endFrameNumber := FrameNumber frame, closed := True\<rparr> else ch);
            ch2 = (if IsLast frame \<and> endFrameNumber ch1 < highestFrameNumber ch1
                   then ch1\<lparr>inputs := filter (\<lambda>(idx, f). \<not> idx \<ge> ucast (endFrameNumber ch1))
                                       (inputs ch1),
                            ch_size := fold (\<lambda>(idx, prunedFrame) s. s - frameSize prunedFrame)
                                       (inputs ch1) (ch_size ch1),
                            highestFrameNumber := endFrameNumber ch1\<rparr>
                   else ch1);
            ch3 = (if FrameNumber frame > highestFrameNumber ch2
                   then ch2\<lparr>highestFrameNumber := FrameNumber frame\<rparr> else ch2);
            ch4 = (if l1_Number (highestL1InclusionBlock ch3) < l1_Number l1InclusionBlock
                   then ch3\<lparr>highestL1InclusionBlock := l1InclusionBlock\<rparr> else ch3)
        in Inr (ch4\<lparr>inputs := AList.update (frame_key frame) frame (inputs ch4),
                    ch_size := ch_size ch4 + frameSize frame\<rparr>))"

definition OpenBlockNumber :: "Channel \<Rightarrow> u64" where
  "OpenBlockNumber ch = l1_Number (openBlock ch)"

definition IsReady :: "Channel \<Rightarrow> bool" where
  "IsReady ch =
     (if \<not> closed ch then False
      else if length (inputs ch) \<noteq> unat (endFrameNumber ch) + 1 then False
      else list_all (\<lambda>i. map_of (inputs ch) (word_of_nat i) \<noteq> None)
             [0..<Suc (unat (endFrameNumber ch))])"

datatype reader_panic = ReaderBeforeReady

fun reader_loop :: "(u64, Frame) gomap \<Rightarrow> nat list \<Rightarrow> reader_panic + byte list" where
  "reader_loop m [] = Inr []"
| "reader_loop m (i # is) =
     (case map_of m (word_of_nat i) of
        None \<Rightarrow> Inl ReaderBeforeReady
      | Some frame \<Rightarrow>
          (case reader_loop m is of Inl p \<Rightarrow> Inl p | Inr rest \<Rightarrow> Inr (Data frame @ rest)))"

text \<open>The bytes that the multi-reader yields, or the panic of a channel that is not ready.\<close>

definition Reader :: "Channel \<Rightarrow> reader_panic + byte list" where
  "Reader ch = reader_loop (inputs ch) [0..<Suc (unat (endFrameNumber ch))]"

section \<open>Frame keys\<close>

lemma unat_ucast_u16 [simp]: "unat (ucast (x :: u16) :: u64) = unat x"
  by (simp add: unsigned_ucast_eq take_bit_nat_eq_self unat_u16_less [THEN less_trans])

lemma ucast_u16_eq_iff [simp]: "(ucast (x :: u16) :: u64) = ucast (y :: u16) \<longleftrightarrow> x = y"
  by (metis unat_ucast_u16 word_unat_eq_iff)

lemma frame_key_eq_iff: "frame_key f = frame_key g \<longleftrightarrow> FrameNumber f = FrameNumber g"
  by (simp add: frame_key_def)

lemma unat_frame_key [simp]: "unat (frame_key f) = unat (FrameNumber f)"
  by (simp add: frame_key_def)

section \<open>The buffer invariant\<close>

definition channel_inv :: "Channel \<Rightarrow> bool" where
  "channel_inv ch \<longleftrightarrow>
     gomap_ok (inputs ch) \<and>
     (\<forall>(k, f) \<in> set (inputs ch). k = frame_key f \<and> ID f = ch_id ch \<and>
        FrameNumber f \<le> highestFrameNumber ch \<and>
        (IsLast f \<longleftrightarrow> closed ch \<and> FrameNumber f = endFrameNumber ch)) \<and>
     (closed ch \<longrightarrow> highestFrameNumber ch = endFrameNumber ch \<and>
        (\<exists>f. (ucast (endFrameNumber ch), f) \<in> set (inputs ch))) \<and>
     (highestFrameNumber ch = 0 \<or>
        (\<exists>f. (ucast (highestFrameNumber ch), f) \<in> set (inputs ch))) \<and>
     (requireInOrder ch \<longrightarrow> (\<forall>(k, f) \<in> set (inputs ch). unat k < length (inputs ch)))"

lemma channel_inv_NewChannel [simp]: "channel_inv (NewChannel i ob b)"
  by (simp add: channel_inv_def NewChannel_def)

text \<open>A successful \<open>AddFrame\<close>, with the intermediate states of the code resolved.\<close>

definition kept :: "Frame \<Rightarrow> Channel \<Rightarrow> (u64, Frame) gomap" where
  "kept f ch = (if IsLast f \<and> FrameNumber f < highestFrameNumber ch
     then filter (\<lambda>(idx, g). \<not> idx \<ge> frame_key f) (inputs ch) else inputs ch)"

text \<open>The guards of \<open>AddFrame\<close>, and the state it ends in.\<close>

definition accepts :: "Channel \<Rightarrow> Frame \<Rightarrow> bool" where
  "accepts ch f \<longleftrightarrow>
     ID f = ch_id ch \<and> \<not> (IsLast f \<and> closed ch) \<and> map_of (inputs ch) (frame_key f) = None \<and>
     \<not> (closed ch \<and> FrameNumber f \<ge> endFrameNumber ch) \<and>
     (requireInOrder ch \<longrightarrow> unat (FrameNumber f) = length (inputs ch))"

definition added :: "Channel \<Rightarrow> Frame \<Rightarrow> L1BlockRef \<Rightarrow> Channel" where
  "added ch f l1 =
     \<lparr>ch_id = ch_id ch, openBlock = openBlock ch, requireInOrder = requireInOrder ch,
      ch_size = (if IsLast f \<and> FrameNumber f < highestFrameNumber ch
         then fold (\<lambda>(idx, g) s. s - frameSize g) (inputs ch) (ch_size ch) else ch_size ch)
         + frameSize f,
      closed = (IsLast f \<or> closed ch),
      highestFrameNumber = (if IsLast f then FrameNumber f
         else max (FrameNumber f) (highestFrameNumber ch)),
      endFrameNumber = (if IsLast f then FrameNumber f else endFrameNumber ch),
      inputs = kept f ch @ [(frame_key f, f)],
      highestL1InclusionBlock = (if l1_Number (highestL1InclusionBlock ch) < l1_Number l1
         then l1 else highestL1InclusionBlock ch)\<rparr>"

lemma added_sel [simp]:
  "inputs (added ch f l1) = kept f ch @ [(frame_key f, f)]"
  "ch_id (added ch f l1) = ch_id ch" "openBlock (added ch f l1) = openBlock ch"
  "requireInOrder (added ch f l1) = requireInOrder ch"
  "closed (added ch f l1) \<longleftrightarrow> IsLast f \<or> closed ch"
  by (simp_all add: added_def)

lemma AddFrame_Inl: "\<not> accepts ch f \<Longrightarrow> \<exists>e. AddFrame f l1 ch = Inl e"
  by (force simp: AddFrame_def accepts_def)

lemma AddFrame_added:
  assumes "accepts ch f"
  shows "AddFrame f l1 ch = Inr (added ch f l1)"
proof -
  have new: "map_of (inputs ch) (frame_key f) = None"
    using assms by (simp add: accepts_def)
  then have up: "AList.update (frame_key f) f (kept f ch) = kept f ch @ [(frame_key f, f)]"
    by (intro update_new) (auto simp: kept_def map_of_filter_key)
  consider (open_) "\<not> IsLast f" | (last_) "IsLast f" "\<not> FrameNumber f < highestFrameNumber ch"
    | (prune) "IsLast f" "FrameNumber f < highestFrameNumber ch" by blast
  then show ?thesis
  proof cases
    case open_
    with assms up show ?thesis
      by (cases ch) (auto simp: AddFrame_def accepts_def added_def kept_def max_def Let_def)
  next
    case last_
    with assms up show ?thesis
      by (cases ch) (auto simp: AddFrame_def accepts_def added_def kept_def Let_def)
  next
    case prune
    with assms up show ?thesis
      by (cases ch) (auto simp: AddFrame_def accepts_def added_def kept_def frame_key_def Let_def)
  qed
qed

lemma AddFrame_Inr_iff: "AddFrame f l1 ch = Inr ch' \<longleftrightarrow> accepts ch f \<and> ch' = added ch f l1"
  using AddFrame_added [of ch f l1] AddFrame_Inl [of ch f l1] by (cases "accepts ch f") auto

lemma frame_key_le_iff: "frame_key f \<le> frame_key g \<longleftrightarrow> FrameNumber f \<le> FrameNumber g"
  by (simp add: word_le_nat_alt)

lemma set_kept: "set (kept f ch) \<subseteq> set (inputs ch)"
  by (auto simp: kept_def)

lemma channel_invD:
  assumes "channel_inv ch"
  shows "gomap_ok (inputs ch)"
    and "(k, f) \<in> set (inputs ch) \<Longrightarrow> k = frame_key f"
    and "(k, f) \<in> set (inputs ch) \<Longrightarrow> ID f = ch_id ch"
    and "(k, f) \<in> set (inputs ch) \<Longrightarrow> FrameNumber f \<le> highestFrameNumber ch"
    and "(k, f) \<in> set (inputs ch) \<Longrightarrow>
           IsLast f \<longleftrightarrow> closed ch \<and> FrameNumber f = endFrameNumber ch"
    and "closed ch \<Longrightarrow> highestFrameNumber ch = endFrameNumber ch"
    and "closed ch \<Longrightarrow> \<exists>f. (ucast (endFrameNumber ch), f) \<in> set (inputs ch)"
    and "highestFrameNumber ch = 0 \<or>
           (\<exists>f. (ucast (highestFrameNumber ch), f) \<in> set (inputs ch))"
    and "requireInOrder ch \<Longrightarrow> (k, f) \<in> set (inputs ch) \<Longrightarrow> unat k < length (inputs ch)"
  using assms by (auto simp: channel_inv_def)

lemma kept_in_order:
  assumes "channel_inv ch" and "accepts ch f" and "requireInOrder ch"
  shows "kept f ch = inputs ch" and "\<not> FrameNumber f < highestFrameNumber ch"
proof -
  have fn: "unat (FrameNumber f) = length (inputs ch)"
    using assms(2,3) by (simp add: accepts_def)
  show *: "\<not> FrameNumber f < highestFrameNumber ch"
    using channel_invD(8,9) [OF assms(1)] assms(3) fn
    by (fastforce simp: word_less_nat_alt)
  then show "kept f ch = inputs ch" by (simp add: kept_def)
qed

lemma channel_inv_added [inv_intros]:
  assumes "channel_inv ch" and "accepts ch f"
  shows "channel_inv (added ch f l1)"
proof -
  note inv = channel_invD [OF assms(1)]
  have new: "frame_key f \<notin> fst ` set (inputs ch)"
    using assms(2) by (simp add: accepts_def map_of_None_iff)
  then have "frame_key f \<notin> fst ` set (kept f ch)"
    using set_kept [of f ch] by auto
  then have ok: "gomap_ok (kept f ch @ [(frame_key f, f)])"
    using inv(1) by (auto simp: kept_def)
  have entry: "k = frame_key g \<and> ID g = ch_id ch \<and>
      FrameNumber g \<le> highestFrameNumber (added ch f l1) \<and>
      (IsLast g \<longleftrightarrow> closed (added ch f l1) \<and> FrameNumber g = endFrameNumber (added ch f l1))"
    if "(k, g) \<in> set (kept f ch)" for k g
  proof -
    have mem: "(k, g) \<in> set (inputs ch)" using that set_kept by blast
    then have ne: "FrameNumber g \<noteq> FrameNumber f"
      using new inv(2) [OF mem] by (force simp: frame_key_eq_iff)
    show ?thesis
      using inv(2-5) [OF mem] that ne assms(2)
      by (auto simp: added_def accepts_def kept_def frame_key_le_iff max_def split: if_splits)
  qed
  have entry_f: "ID f = ch_id ch \<and> FrameNumber f \<le> highestFrameNumber (added ch f l1) \<and>
      (IsLast f \<longleftrightarrow> closed (added ch f l1) \<and> FrameNumber f = endFrameNumber (added ch f l1))"
    using assms(2) by (auto simp: added_def accepts_def)
  have entries: "\<forall>(k, g) \<in> set (kept f ch @ [(frame_key f, f)]). k = frame_key g \<and> ID g = ch_id ch \<and>
      FrameNumber g \<le> highestFrameNumber (added ch f l1) \<and>
      (IsLast g \<longleftrightarrow> closed (added ch f l1) \<and> FrameNumber g = endFrameNumber (added ch f l1))"
  proof (clarify)
    fix k g
    assume "(k, g) \<in> set (kept f ch @ [(frame_key f, f)])"
    then consider "(k, g) \<in> set (kept f ch)" | "k = frame_key f" "g = f" by auto
    then show "k = frame_key g \<and> ID g = ch_id ch \<and>
      FrameNumber g \<le> highestFrameNumber (added ch f l1) \<and>
      (IsLast g \<longleftrightarrow> closed (added ch f l1) \<and> FrameNumber g = endFrameNumber (added ch f l1))"
      by cases (use entry entry_f in blast)+
  qed
  have clos: "closed (added ch f l1) \<longrightarrow>
      highestFrameNumber (added ch f l1) = endFrameNumber (added ch f l1) \<and>
      (\<exists>g. (ucast (endFrameNumber (added ch f l1)), g) \<in> set (kept f ch @ [(frame_key f, f)]))"
    using inv(6,7) assms(2) by (auto simp: added_def accepts_def kept_def frame_key_def max_def)
  have high: "highestFrameNumber (added ch f l1) = 0 \<or>
      (\<exists>g. (ucast (highestFrameNumber (added ch f l1)), g) \<in> set (kept f ch @ [(frame_key f, f)]))"
    using inv(8) by (auto simp: added_def kept_def frame_key_def max_def)
  have ord: "requireInOrder ch \<longrightarrow>
      (\<forall>(k, g) \<in> set (kept f ch @ [(frame_key f, f)]).
         unat k < length (kept f ch @ [(frame_key f, f)]))"
    using inv(9) kept_in_order [OF assms] assms(2)
    by (fastforce simp: accepts_def less_Suc_eq)
  show ?thesis
    unfolding channel_inv_def added_sel(1,2,4) using ok entries clos high ord by blast
qed

section \<open>Reading a channel\<close>

lemma unat_of_nat_u64 [simp]: "n < 65536 \<Longrightarrow> unat (word_of_nat n :: u64) = n"
  by (simp add: unat_of_nat)

lemma of_nat_unat_u16 [simp]: "(word_of_nat (unat (x :: u16)) :: u64) = ucast x"
  by (simp add: word_unat_eq_iff unat_of_nat unat_u16_less [THEN less_trans])

text \<open>With the invariant, the count comparison of \<open>IsReady\<close> follows from the absence of gaps.\<close>

lemma IsReady_iff:
  assumes "channel_inv ch"
  shows "IsReady ch \<longleftrightarrow> closed ch \<and>
    (\<forall>i \<le> unat (endFrameNumber ch). map_of (inputs ch) (word_of_nat i) \<noteq> None)"
proof -
  note inv = channel_invD [OF assms]
  let ?e = "unat (endFrameNumber ch)"
  have "length (inputs ch) = ?e + 1"
    if "closed ch \<and> (\<forall>i \<le> ?e. map_of (inputs ch) (word_of_nat i) \<noteq> None)"
  proof -
    from that have c: "closed ch" and all: "\<forall>i \<le> ?e. map_of (inputs ch) (word_of_nat i) \<noteq> None"
      by blast+
    have e: "?e < 65536" using unat_u16_less [of "endFrameNumber ch"] by simp
    have "unat ` fst ` set (inputs ch) = {..?e}"
    proof
      show "unat ` fst ` set (inputs ch) \<subseteq> {..?e}"
        using inv(2,4,6) c by (fastforce simp: word_le_nat_alt)
      show "{..?e} \<subseteq> unat ` fst ` set (inputs ch)"
      proof
        fix i assume i: "i \<in> {..?e}"
        with all have "word_of_nat i \<in> fst ` set (inputs ch)"
          by (auto simp: map_of_eq_None_iff)
        then have "unat (word_of_nat i :: u64) \<in> unat ` fst ` set (inputs ch)" by (rule imageI)
        with i e show "i \<in> unat ` fst ` set (inputs ch)" by simp
      qed
    qed
    then have "card (unat ` fst ` set (inputs ch)) = ?e + 1" by simp
    moreover have "card (unat ` fst ` set (inputs ch)) = card (fst ` set (inputs ch))"
      by (rule card_image) (simp add: inj_on_def word_unat_eq_iff)
    moreover have "card (fst ` set (inputs ch)) = length (inputs ch)"
      using distinct_card [OF inv(1)] by simp
    ultimately show ?thesis by simp
  qed
  moreover have "IsReady ch \<longleftrightarrow> length (inputs ch) = ?e + 1 \<and> closed ch \<and>
      (\<forall>i \<le> ?e. map_of (inputs ch) (word_of_nat i) \<noteq> None)"
    unfolding IsReady_def list_all_iff set_upt atLeastLessThan_iff less_Suc_eq_le by auto
  ultimately show ?thesis by blast
qed

lemma reader_loop_Inr:
  "list_all (\<lambda>i. map_of m (word_of_nat i) \<noteq> None) is \<Longrightarrow>
     reader_loop m is = Inr (concat (map (\<lambda>i. Data (the (map_of m (word_of_nat i)))) is))"
  by (induction "is") auto

lemma Reader_ready:
  "IsReady ch \<Longrightarrow> Reader ch = Inr (concat (map (\<lambda>i. Data (the (map_of (inputs ch) (word_of_nat i))))
     [0..<Suc (unat (endFrameNumber ch))]))"
  unfolding Reader_def by (rule reader_loop_Inr) (simp add: IsReady_def split: if_splits)

section \<open>Sequences of frames\<close>

text \<open>Adding frames one after the other, as they arrive from L1 blocks, until one is refused.\<close>

fun add_all :: "Channel \<Rightarrow> (Frame \<times> L1BlockRef) list \<Rightarrow> channel_error + Channel" where
  "add_all ch [] = Inr ch"
| "add_all ch ((f, l1) # fs) =
     (case AddFrame f l1 ch of Inl e \<Rightarrow> Inl e | Inr ch' \<Rightarrow> add_all ch' fs)"

lemma add_all_inv: "channel_inv ch \<Longrightarrow> add_all ch fs = Inr ch' \<Longrightarrow> channel_inv ch'"
  by (induction ch fs rule: add_all.induct)
     (auto simp: AddFrame_Inr_iff intro: inv_intros split: sum.splits)

text \<open>The frames of one complete channel, in order.\<close>

definition channel_frames :: "ChannelID \<Rightarrow> Frame list \<Rightarrow> bool" where
  "channel_frames i fs \<longleftrightarrow> fs \<noteq> [] \<and> length fs \<le> 65536 \<and>
     (\<forall>k < length fs. ID (fs ! k) = i \<and> FrameNumber (fs ! k) = word_of_nat k \<and>
        (IsLast (fs ! k) \<longleftrightarrow> Suc k = length fs))"

text \<open>A channel that holds the frames \<open>qs\<close> of a complete channel \<open>fs\<close>.\<close>

definition partially :: "ChannelID \<Rightarrow> Frame list \<Rightarrow> Frame list \<Rightarrow> Channel \<Rightarrow> bool" where
  "partially i fs qs ch \<longleftrightarrow>
     ch_id ch = i \<and> \<not> requireInOrder ch \<and> inputs ch = map (\<lambda>f. (frame_key f, f)) qs \<and>
     (closed ch \<longleftrightarrow> last fs \<in> set qs) \<and>
     (closed ch \<longrightarrow> unat (endFrameNumber ch) = length fs - 1) \<and>
     unat (highestFrameNumber ch) < length fs"

lemma channel_frames_nth:
  assumes "channel_frames i fs" and "f \<in> set fs"
  obtains k where "k < length fs" and "f = fs ! k" and "unat (FrameNumber f) = k"
    and "ID f = i" and "IsLast f \<longleftrightarrow> Suc k = length fs"
  using assms by (auto simp: channel_frames_def in_set_conv_nth unat_of_nat)

lemma channel_frames_inj:
  assumes "channel_frames i fs" and "f \<in> set fs" and "g \<in> set fs"
    and "FrameNumber f = FrameNumber g"
  shows "f = g"
  using assms by (metis channel_frames_nth)

lemma channel_frames_last:
  assumes "channel_frames i fs" and "f \<in> set fs"
  shows "IsLast f \<longleftrightarrow> f = last fs"
proof -
  have ne: "fs \<noteq> []" using assms(1) by (simp add: channel_frames_def)
  then have "IsLast (last fs)"
    using assms(1) by (simp add: channel_frames_def last_conv_nth)
  moreover have "f = last fs" if "IsLast f"
    using that assms ne by (metis channel_frames_nth diff_Suc_1 last_conv_nth)
  ultimately show ?thesis by blast
qed

lemma partially_step:
  assumes fs: "channel_frames i fs" and p: "partially i fs qs ch"
    and f: "f \<in> set fs" "f \<notin> set qs" and qs: "set qs \<subseteq> set fs"
  shows "AddFrame f l1 ch = Inr (added ch f l1) \<and> partially i fs (qs @ [f]) (added ch f l1)"
proof -
  obtain k where k: "k < length fs" "f = fs ! k" "unat (FrameNumber f) = k" "ID f = i"
    "IsLast f \<longleftrightarrow> Suc k = length fs" using fs f(1) by (rule channel_frames_nth)
  have last: "IsLast f \<longleftrightarrow> f = last fs" using fs f(1) by (rule channel_frames_last)
  have "frame_key f \<notin> frame_key ` set qs"
  proof
    assume "frame_key f \<in> frame_key ` set qs"
    then obtain g where g: "g \<in> set qs" "FrameNumber f = FrameNumber g"
      by (auto simp: frame_key_eq_iff)
    then have "f = g" using channel_frames_inj [OF fs f(1)] qs by blast
    with g f(2) show False by simp
  qed
  then have new: "map_of (inputs ch) (frame_key f) = None"
    using p by (simp add: partially_def map_of_None_iff image_image)
  have "\<not> endFrameNumber ch \<le> FrameNumber f" if "closed ch"
  proof -
    have "f \<noteq> last fs" using that p f by (auto simp: partially_def)
    then have "k < length fs - 1" using k last by linarith
    then show ?thesis using that p k by (auto simp: partially_def word_le_nat_alt)
  qed
  then have acc: "accepts ch f"
    using p new last f(2) k(4) by (auto simp: accepts_def partially_def)
  have np: "\<not> (IsLast f \<and> FrameNumber f < highestFrameNumber ch)"
    using p k by (auto simp: partially_def word_less_nat_alt)
  have "partially i fs (qs @ [f]) (added ch f l1)"
    using p k last np
    by (auto simp: partially_def added_def kept_def max_def)
  with AddFrame_added [OF acc] show ?thesis by simp
qed

lemma partially_all:
  assumes "channel_frames i fs"
  shows "partially i fs qs ch \<Longrightarrow> distinct (qs @ map fst ps) \<Longrightarrow> set (qs @ map fst ps) \<subseteq> set fs \<Longrightarrow>
    \<exists>ch'. add_all ch ps = Inr ch' \<and> partially i fs (qs @ map fst ps) ch'"
proof (induction ps arbitrary: qs ch)
  case Nil
  then show ?case by simp
next
  case (Cons p ps)
  obtain f l1 where p: "p = (f, l1)" by (cases p)
  have "AddFrame f l1 ch = Inr (added ch f l1) \<and> partially i fs (qs @ [f]) (added ch f l1)"
    by (rule partially_step [OF assms]) (use Cons.prems p in auto)
  moreover have "\<exists>ch'. add_all (added ch f l1) ps = Inr ch' \<and>
      partially i fs ((qs @ [f]) @ map fst ps) ch'"
    by (rule Cons.IH) (use Cons.prems p calculation in auto)
  ultimately show ?case by (simp add: p)
qed

lemma channel_frames_distinct: "channel_frames i fs \<Longrightarrow> distinct fs"
proof -
  assume fs: "channel_frames i fs"
  then have "unat (FrameNumber (fs ! k)) = k" if "k < length fs" for k
    using that by (simp add: channel_frames_def unat_of_nat)
  then show ?thesis unfolding distinct_conv_nth by metis
qed

lemma partially_ready:
  assumes fs: "channel_frames i fs" and p: "partially i fs qs ch"
    and qs: "set qs = set fs" "distinct qs"
  shows "IsReady ch \<and> Reader ch = Inr (concat (map Data fs))"
proof -
  have ne: "fs \<noteq> []" and len: "length fs \<le> 65536"
    using fs by (simp_all add: channel_frames_def)
  have inj: "inj_on frame_key (set qs)"
    using channel_frames_inj [OF fs] by (auto simp: inj_on_def frame_key_eq_iff qs(1))
  then have ok: "gomap_ok (inputs ch)"
    using p qs(2) by (simp add: partially_def distinct_map comp_def)
  have look: "map_of (inputs ch) (word_of_nat k) = Some (fs ! k)" if "k < length fs" for k
  proof -
    have "frame_key (fs ! k) = word_of_nat k"
      using that fs len by (simp add: channel_frames_def word_unat_eq_iff unat_of_nat)
    moreover have "(frame_key (fs ! k), fs ! k) \<in> set (inputs ch)"
      using that p qs(1) by (auto simp: partially_def)
    ultimately show ?thesis using ok by (metis map_of_SomeI)
  qed
  have c: "closed ch" and e: "Suc (unat (endFrameNumber ch)) = length fs"
    using p qs(1) ne by (auto simp: partially_def)
  have "length (inputs ch) = length fs"
    using p distinct_card [OF qs(2)] distinct_card [OF channel_frames_distinct [OF fs]] qs(1)
    by (simp add: partially_def)
  then have r: "IsReady ch"
    using c e look by (auto simp: IsReady_def list_all_iff)
  have "concat (map (\<lambda>k. Data (the (map_of (inputs ch) (word_of_nat k)))) [0..<length fs])
      = concat (map (\<lambda>k. Data (fs ! k)) [0..<length fs])"
    using look by (intro arg_cong [where f = concat] map_cong) auto
  also have "map (\<lambda>k. Data (fs ! k)) [0..<length fs] = map Data fs"
    by (rule nth_equalityI) simp_all
  finally show ?thesis using r Reader_ready [OF r] e by simp
qed

lemma partially_not_ready:
  assumes fs: "channel_frames i fs" and p: "partially i fs qs ch"
    and qs: "set qs \<subset> set fs" "distinct qs"
  shows "\<not> IsReady ch"
proof
  assume r: "IsReady ch"
  have "length fs > 0" using fs by (simp add: channel_frames_def)
  then have "length (inputs ch) = length fs"
    using r p by (auto simp: IsReady_def partially_def split: if_splits)
  then have "card (set qs) = card (set fs)"
    using p distinct_card [OF qs(2)] distinct_card [OF channel_frames_distinct [OF fs]]
    by (simp add: partially_def)
  with psubset_card_mono [OF finite_set qs(1)] show False by simp
qed

lemma partially_NewChannel: "channel_frames i fs \<Longrightarrow> partially i fs [] (NewChannel i ob False)"
  by (auto simp: partially_def NewChannel_def channel_frames_def)

section \<open>Strictly ordered channels\<close>

text \<open>With \<open>requireInOrder\<close>, the keys of the buffer are the numbers from 0 up, in order.\<close>

definition in_order_inv :: "Channel \<Rightarrow> bool" where
  "in_order_inv ch \<longleftrightarrow> channel_inv ch \<and> requireInOrder ch \<and>
     map fst (inputs ch) = map word_of_nat [0..<length (inputs ch)]"

lemma in_order_inv_NewChannel [simp]: "in_order_inv (NewChannel i ob True)"
  by (simp add: in_order_inv_def) (simp add: NewChannel_def)

lemma in_order_inv_added [inv_intros]:
  assumes "in_order_inv ch" and "accepts ch f"
  shows "in_order_inv (added ch f l1)"
proof -
  have k: "kept f ch = inputs ch"
    using assms by (intro kept_in_order) (auto simp: in_order_inv_def)
  have "unat (FrameNumber f) = length (inputs ch)"
    using assms by (auto simp: accepts_def in_order_inv_def)
  then have "frame_key f = word_of_nat (length (inputs ch))"
    using of_nat_unat_u16 [of "FrameNumber f"] by (simp only: frame_key_def)
  then show ?thesis
    using assms k by (auto simp: in_order_inv_def intro: inv_intros)
qed

lemma length_in_order: "in_order_inv ch \<Longrightarrow> length (inputs ch) \<le> 65536"
proof -
  assume io: "in_order_inv ch"
  note inv = channel_invD [OF io [unfolded in_order_inv_def, THEN conjunct1]]
  have "length (inputs ch) = card (unat ` fst ` set (inputs ch))"
    using distinct_card [OF inv(1)]
    by (simp add: card_image inj_on_def word_unat_eq_iff)
  also have "unat ` fst ` set (inputs ch) \<subseteq> {..<65536}"
  proof clarsimp
    fix k f assume "(k, f) \<in> set (inputs ch)"
    then have "k = frame_key f" by (rule inv(2))
    then show "unat k < 65536" using unat_u16_less [of "FrameNumber f"] by simp
  qed
  then have "card (unat ` fst ` set (inputs ch)) \<le> card {..<65536::nat}"
    by (intro card_mono) simp_all
  finally show ?thesis by simp
qed

lemma in_order_lookup:
  assumes "in_order_inv ch" and "k < length (inputs ch)"
  shows "map_of (inputs ch) (word_of_nat k) = Some (snd (inputs ch ! k))"
proof -
  have "fst (inputs ch ! k) = word_of_nat k"
  proof -
    have "map fst (inputs ch) ! k = map word_of_nat [0..<length (inputs ch)] ! k"
      using assms(1) by (simp add: in_order_inv_def)
    then show ?thesis using assms(2) by simp
  qed
  then have "(word_of_nat k, snd (inputs ch ! k)) \<in> set (inputs ch)"
    using assms(2) by (metis nth_mem prod.collapse)
  then show ?thesis
    using assms(1) by (intro map_of_SomeI) (auto simp: in_order_inv_def channel_inv_def)
qed

lemma in_order_ready:
  assumes "in_order_inv ch"
  shows "IsReady ch \<longleftrightarrow> closed ch"
    and "closed ch \<Longrightarrow> Reader ch = Inr (concat (map (Data \<circ> snd) (inputs ch)))"
proof -
  note inv = channel_invD [OF assms [unfolded in_order_inv_def, THEN conjunct1]]
  let ?e = "unat (endFrameNumber ch)"
  have e: "?e < length (inputs ch)" if "closed ch"
    using that inv(7,9) assms by (fastforce simp: in_order_inv_def)
  show ready: "IsReady ch \<longleftrightarrow> closed ch"
    using IsReady_iff [of ch] e in_order_lookup [OF assms] assms
    by (auto simp: in_order_inv_def)
  assume c: "closed ch"
  then have r: "IsReady ch" using ready by simp
  then have len: "Suc ?e = length (inputs ch)" by (simp add: IsReady_def split: if_splits)
  have "map (\<lambda>k. Data (the (map_of (inputs ch) (word_of_nat k)))) [0..<length (inputs ch)]
      = map (Data \<circ> snd) (inputs ch)"
    by (rule nth_equalityI) (auto simp: in_order_lookup [OF assms])
  then show "Reader ch = Inr (concat (map (Data \<circ> snd) (inputs ch)))"
    using Reader_ready [OF r] len by simp
qed

section \<open>Size accounting\<close>

definition buffered_size :: "Channel \<Rightarrow> u64" where
  "buffered_size ch = sum_list (map (\<lambda>(k, f). frameSize f) (inputs ch))"

lemma fold_minus_frameSize:
  "fold (\<lambda>(idx, g) s. s - frameSize g) m s = s - sum_list (map (\<lambda>(k, f). frameSize f) m)"
  by (induction m arbitrary: s) auto

lemma added_size:
  assumes "ch_size ch = buffered_size ch"
  shows "ch_size (added ch f l1) = (if IsLast f \<and> FrameNumber f < highestFrameNumber ch
    then frameSize f else buffered_size (added ch f l1))"
  using assms by (auto simp: added_def kept_def buffered_size_def fold_minus_frameSize)

section \<open>Runs\<close>

text \<open>The callers of \<open>AddFrame\<close> log a refused frame and keep the channel as it was.\<close>

definition offer :: "Frame \<times> L1BlockRef \<Rightarrow> Channel \<Rightarrow> Channel" where
  "offer fl ch = (case AddFrame (fst fl) (snd fl) ch of Inl e \<Rightarrow> ch | Inr ch' \<Rightarrow> ch')"

lemma offer_cases: "offer fl ch = ch \<or> accepts ch (fst fl) \<and> offer fl ch = added ch (fst fl) (snd fl)"
  by (auto simp: offer_def AddFrame_Inr_iff split: sum.splits)

interpretation channel_run: transition_system offer "\<lambda>ch. channel_inv ch \<and> ch_id ch = i"
  by unfold_locales (metis offer_cases channel_inv_added added_sel(2))

interpretation in_order_run: transition_system offer in_order_inv
  by unfold_locales (metis offer_cases in_order_inv_added)

interpretation unclosed_run:
  transition_system offer "\<lambda>ch. closed ch \<or> ch_size ch = buffered_size ch"
proof unfold_locales
  fix ch fl assume "closed ch \<or> ch_size ch = buffered_size ch"
  then show "closed (offer fl ch) \<or> ch_size (offer fl ch) = buffered_size (offer fl ch)"
    using offer_cases [of fl ch] added_size [of ch "fst fl" "snd fl"]
    by (auto split: if_splits)
qed

section \<open>Properties\<close>

lemma reassembly:
  assumes "channel_frames i fs" and "distinct (map fst ps)" and "set (map fst ps) = set fs"
  shows "\<exists>ch. add_all (NewChannel i ob False) (take n ps) = Inr ch \<and>
    (IsReady ch \<longleftrightarrow> length ps \<le> n) \<and>
    (length ps \<le> n \<longrightarrow> Reader ch = Inr (concat (map Data fs)))"
proof -
  let ?qs = "map fst (take n ps)"
  have q: "distinct ?qs" "set ?qs \<subseteq> set fs"
    using assms(2,3) by (auto simp: take_map [symmetric] dest: in_set_takeD)
  obtain ch where ch: "add_all (NewChannel i ob False) (take n ps) = Inr ch" "partially i fs ?qs ch"
    using partially_all [OF assms(1) partially_NewChannel [OF assms(1), of ob], of "take n ps"] q by auto
  show ?thesis
  proof (cases "length ps \<le> n")
    case True
    with partially_ready [OF assms(1) ch(2)] assms(2,3) ch(1) show ?thesis by auto
  next
    case False
    then have "length ?qs < length (map fst ps)" by simp
    then have "card (set ?qs) < card (set fs)"
      using distinct_card [OF q(1)] distinct_card [OF assms(2)] assms(3) by simp
    then have "set ?qs \<subset> set fs" using q(2) by auto
    then have "\<not> IsReady ch" using partially_not_ready [OF assms(1) ch(2)] q(1) by blast
    with False ch(1) show ?thesis by auto
  qed
qed

text \<open>C17: the frames of a complete channel, each delivered once and in any order, are all
  accepted; the channel becomes ready with the delivery of the missing frame and not before;
  and it then reads as the data of the frames in their numbered order.\<close>

theorem channel_reassembly:
  assumes "channel_frames i fs" and "distinct (map fst ps)" and "set (map fst ps) = set fs"
  shows "\<exists>ch. add_all (NewChannel i ob False) (take n ps) = Inr ch \<and>
    (IsReady ch \<longleftrightarrow> length ps \<le> n) \<and>
    (length ps \<le> n \<longrightarrow> Reader ch = Inr (concat (map Data fs)))"
  by (rule reassembly [OF assms])

definition sample_frame :: "u16 \<Rightarrow> byte list \<Rightarrow> bool \<Rightarrow> Frame" where
  "sample_frame n d l = \<lparr>ID = 7, FrameNumber = n, Data = d, IsLast = l\<rparr>"

definition sample_frames :: "Frame list" where
  "sample_frames = [sample_frame 0 [1, 2] False, sample_frame 1 [3] False, sample_frame 2 [4] True]"

definition sample_delivery :: "(Frame \<times> L1BlockRef) list" where
  "sample_delivery = [(sample_frame 2 [4] True, zero_L1BlockRef),
     (sample_frame 0 [1, 2] False, zero_L1BlockRef), (sample_frame 1 [3] False, zero_L1BlockRef)]"

lemma sample_channel_frames: "channel_frames 7 sample_frames"
  by (auto simp: channel_frames_def sample_frames_def sample_frame_def less_Suc_eq numeral_3_eq_3
      nth_Cons')

theorem channel_reassembly_witness:
  "\<exists>ch. add_all (NewChannel 7 zero_L1BlockRef False) sample_delivery = Inr ch \<and>
     IsReady ch \<and> Reader ch = Inr [1, 2, 3, 4]"
  using channel_reassembly [OF sample_channel_frames, of sample_delivery zero_L1BlockRef 3]
  by (auto simp: sample_delivery_def sample_frames_def sample_frame_def)

text \<open>Whatever frames are offered to a new channel, the buffer holds under each number
  one frame of the channel; only the frame with the end number is marked last, and once it is
  there no frame lies beyond it. The channel is ready exactly when it is closed and no number up
  to the end is missing.\<close>

theorem channel_run_invariant:
  assumes "ch = fold offer ops (NewChannel i ob o')"
  shows "distinct (map fst (inputs ch)) \<and>
    (\<forall>(k, f) \<in> set (inputs ch). k = ucast (FrameNumber f) \<and> ID f = i \<and>
       (IsLast f \<longleftrightarrow> closed ch \<and> FrameNumber f = endFrameNumber ch) \<and>
       (closed ch \<longrightarrow> FrameNumber f \<le> endFrameNumber ch)) \<and>
    (IsReady ch \<longleftrightarrow> closed ch \<and>
       (\<forall>k \<le> unat (endFrameNumber ch). map_of (inputs ch) (word_of_nat k) \<noteq> None))"
proof -
  have "channel_inv (NewChannel i ob o') \<and> ch_id (NewChannel i ob o') = i"
    by simp (simp add: NewChannel_def)
  then have inv: "channel_inv ch" and "ch_id ch = i"
    using channel_run.run_inv [of _ i ops] assms by blast+
  then show ?thesis
    using channel_invD [OF inv] IsReady_iff [OF inv] by (auto simp: frame_key_def)
qed

theorem channel_run_invariant_witness:
  "\<exists>ch. ch = fold offer sample_delivery (NewChannel 7 zero_L1BlockRef False) \<and> closed ch \<and>
     distinct (map fst (inputs ch)) \<and> IsReady ch"
proof -
  let ?ch = "fold offer sample_delivery (NewChannel 7 zero_L1BlockRef False)"
  have "closed ?ch \<and> IsReady ?ch" by code_simp
  with channel_run_invariant [OF refl, of sample_delivery 7 zero_L1BlockRef False] show ?thesis by blast
qed

text \<open>A channel with strict frame order is ready exactly when it is closed, and it reads as
  the data of the accepted frames in the order of their acceptance.\<close>

theorem in_order_channel_reads:
  assumes "ch = fold offer ops (NewChannel i ob True)"
  shows "(IsReady ch \<longleftrightarrow> closed ch) \<and>
    (closed ch \<longrightarrow> Reader ch = Inr (concat (map (Data \<circ> snd) (inputs ch))))"
  using in_order_ready [of ch] in_order_run.run_inv [of "NewChannel i ob True" ops] assms by simp

theorem in_order_channel_reads_witness:
  "Reader (fold offer (map (\<lambda>f. (f, zero_L1BlockRef)) sample_frames) (NewChannel 7 zero_L1BlockRef True))
     = Inr [1, 2, 3, 4]"
proof -
  let ?ch = "fold offer (map (\<lambda>f. (f, zero_L1BlockRef)) sample_frames) (NewChannel 7 zero_L1BlockRef True)"
  have "closed ?ch \<and> concat (map (Data \<circ> snd) (inputs ?ch)) = [1, 2, 3, 4]" by code_simp
  with in_order_channel_reads [OF refl, of "map (\<lambda>f. (f, zero_L1BlockRef)) sample_frames" 7 zero_L1BlockRef]
  show ?thesis by simp
qed

text \<open>As long as a channel is open its size is the total of the buffered frames. The
  closing frame keeps it so unless it prunes: then the size of every buffered frame is
  subtracted, kept or not, and the channel is left with the size of the closing frame alone.\<close>

theorem closing_frame_size:
  assumes "ch = fold offer ops (NewChannel i ob o')" and "\<not> closed ch"
    and "AddFrame f l1 ch = Inr ch'"
  shows "ch_size ch = buffered_size ch \<and>
    ch_size ch' = (if IsLast f \<and> FrameNumber f < highestFrameNumber ch then frameSize f
                   else buffered_size ch')"
proof -
  have "ch_size (NewChannel i ob o') = buffered_size (NewChannel i ob o')"
    by (simp add: NewChannel_def buffered_size_def)
  then have "ch_size ch = buffered_size ch"
    using unclosed_run.run_inv [of "NewChannel i ob o'" ops] assms(1,2) by blast
  with added_size [of ch f l1] assms(3) show ?thesis by (simp add: AddFrame_Inr_iff)
qed

theorem closing_frame_size_witness:
  "\<exists>ch'. AddFrame (sample_frame 1 [3] True) zero_L1BlockRef
      (fold offer [(sample_frame 0 [1, 2] False, zero_L1BlockRef), (sample_frame 4 [9] False, zero_L1BlockRef)]
         (NewChannel 7 zero_L1BlockRef False)) = Inr ch' \<and>
     ch_size ch' = 201 \<and> buffered_size ch' = 403"
proof -
  let ?ops = "[(sample_frame 0 [1, 2] False, zero_L1BlockRef), (sample_frame 4 [9] False, zero_L1BlockRef)]"
  let ?ch = "fold offer ?ops (NewChannel 7 zero_L1BlockRef False)"
  let ?f = "sample_frame 1 [3] True"
  have a: "accepts ?ch ?f" and o': "\<not> closed ?ch" and l: "IsLast ?f \<and> FrameNumber ?f < highestFrameNumber ?ch"
    and s: "frameSize ?f = 201" and b: "buffered_size (added ?ch ?f zero_L1BlockRef) = 403"
    by code_simp+
  from closing_frame_size [OF refl o' AddFrame_added [OF a]] l s b AddFrame_added [OF a]
  show ?thesis by simp
qed

end
