(* ===== verification/Frame_Queue.thy ===== *)
theory Frame_Queue
  imports Channel Rollup_Config Derive_Error "HOL-Library.Sublist"
begin

text \<open>
  The frame queue (\<open>op-node/rollup/derive/frame_queue.go\<close>): frames are parsed from the data of
  the previous stage, pruned by the Holocene rules, and handed out one at a time. The pruning
  loop moves a cursor back and forth over the slice; the theory shows that it is one pass with
  a stack, and what the pruned queue looks like.
\<close>

section \<open>Definitions\<close>

record FrameQueue =
  fq_frames :: "Frame list"

definition NewFrameQueue :: FrameQueue where
  "NewFrameQueue = \<lparr>fq_frames = []\<rparr>"

text \<open>The closure \<open>discard\<close> at cursor \<open>i\<close>.\<close>

definition discard :: "nat \<Rightarrow> Frame list \<Rightarrow> nat \<Rightarrow> Frame list" where
  "discard i frames d = take (i + d) frames @ drop (i + 1 + d) frames"

lemma length_discard: "i + d < length frames \<Longrightarrow> length (discard i frames d) = length frames - 1"
  by (simp add: discard_def)

function prune_loop :: "nat \<Rightarrow> Frame list \<Rightarrow> Frame list" where
  "prune_loop i frames =
     (if i + 1 < length frames then
        (let current = frames ! i; next' = frames ! (i + 1) in
         if ID current = ID next' then
           (if IsLast current then prune_loop i (discard i frames 1)
            else if FrameNumber next' \<noteq> FrameNumber current + 1
            then prune_loop i (discard i frames 1)
            else prune_loop (i + 1) frames)
         else
           (if FrameNumber next' = 0 \<and> \<not> IsLast current
            then prune_loop (if i > 0 then i - 1 else i) (discard i frames 0)
            else if FrameNumber next' \<noteq> 0 then prune_loop i (discard i frames 1)
            else prune_loop (i + 1) frames))
      else frames)"
  by pat_completeness auto
termination
  by (relation "measure (\<lambda>(i, frames). 2 * length frames - i)") (auto simp: length_discard)

declare prune_loop.simps [simp del]

definition pruneFrameQueue :: "Frame list \<Rightarrow> Frame list" where
  "pruneFrameQueue frames = prune_loop 0 frames"

definition fq_prune :: "FrameQueue \<Rightarrow> FrameQueue" where
  "fq_prune fq = fq\<lparr>fq_frames := pruneFrameQueue (fq_frames fq)\<rparr>"

definition fq_reset :: "FrameQueue \<Rightarrow> FrameQueue" where
  "fq_reset fq = fq\<lparr>fq_frames := []\<rparr>"

definition fq_Reset :: "FrameQueue \<Rightarrow> derive_error option \<times> FrameQueue" where
  "fq_Reset fq = (Some IoEOF, fq_reset fq)"

definition fq_Transform :: "fork_name \<Rightarrow> FrameQueue \<Rightarrow> FrameQueue" where
  "fq_Transform f fq = (case f of Holocene \<Rightarrow> fq_reset fq | _ \<Rightarrow> fq)"

text \<open>The stage before is a parameter: its \<open>NextData\<close> and its \<open>Origin\<close>. A transaction that
  does not parse is logged and leaves the queue as it is.\<close>

definition loadNextFrames ::
  "Config \<Rightarrow> ('p, byte list) puller \<Rightarrow> ('p \<Rightarrow> L1BlockRef) \<Rightarrow> FrameQueue \<times> 'p \<Rightarrow>
     derive_error option \<times> FrameQueue \<times> 'p" where
  "loadNextFrames cfg NextData Origin s =
     (case s of (fq, p) \<Rightarrow>
      case NextData p of
        (Inl err, p') \<Rightarrow> (Some err, fq, p')
      | (Inr data, p') \<Rightarrow>
         (case ParseFrames data of
            Inl e \<Rightarrow> (None, fq, p')
          | Inr frames \<Rightarrow>
              let fq1 = fq\<lparr>fq_frames := fq_frames fq @ frames\<rparr>;
                  fq2 = (if IsHolocene cfg (l1_Time (Origin p')) then fq_prune fq1 else fq1)
              in (None, fq2, p')))"

definition NextFrame ::
  "Config \<Rightarrow> ('p, byte list) puller \<Rightarrow> ('p \<Rightarrow> L1BlockRef) \<Rightarrow> (FrameQueue \<times> 'p, Frame) puller" where
  "NextFrame cfg NextData Origin s =
     (case (if fq_frames (fst s) = [] then loadNextFrames cfg NextData Origin s
            else (None, s)) of
        (Some err, s') \<Rightarrow> (Inl err, s')
      | (None, fq, p) \<Rightarrow>
         (case fq_frames fq of
            [] \<Rightarrow> (Inl NotEnoughData, fq, p)
          | ret # rest \<Rightarrow> (Inr ret, fq\<lparr>fq_frames := rest\<rparr>, p)))"

section \<open>The pruning loop as one pass with a stack\<close>

text \<open>The effect of one more frame on the frames kept so far, the latest first.\<close>

fun push :: "Frame list \<Rightarrow> Frame \<Rightarrow> Frame list" where
  "push [] f = [f]"
| "push (c # st) f =
     (if ID c = ID f then (if IsLast c \<or> FrameNumber f \<noteq> FrameNumber c + 1 then c # st else f # c # st)
      else if FrameNumber f \<noteq> 0 then c # st
      else if IsLast c then f # c # st else push st f)"

text \<open>One turn of the loop with the cursor at \<open>c\<close>.\<close>

lemma prune_loop_step:
  "prune_loop (length st) (rev st @ c # n # rest) =
     (if ID c = ID n then
        (if IsLast c \<or> FrameNumber n \<noteq> FrameNumber c + 1
         then prune_loop (length st) (rev st @ c # rest)
         else prune_loop (length (c # st)) (rev (c # st) @ n # rest))
      else if FrameNumber n \<noteq> 0 then prune_loop (length st) (rev st @ c # rest)
      else if IsLast c then prune_loop (length (c # st)) (rev (c # st) @ n # rest)
      else prune_loop (length st - 1) (rev st @ n # rest))"
proof -
  define i where "i = length st"
  define fr where "fr = rev st @ c # n # rest"
  have fr: "i + 1 < length fr \<longleftrightarrow> True" "fr ! i = c" "fr ! (i + 1) = n"
    "discard i fr 1 = rev st @ c # rest" "discard i fr 0 = rev st @ n # rest"
    by (simp_all add: i_def fr_def nth_append discard_def)
  have bk: "(if i > 0 then i - 1 else i) = i - 1" by simp
  have "prune_loop i fr =
     (if ID c = ID n then
        (if IsLast c \<or> FrameNumber n \<noteq> FrameNumber c + 1
         then prune_loop i (rev st @ c # rest) else prune_loop (i + 1) fr)
      else if FrameNumber n \<noteq> 0 then prune_loop i (rev st @ c # rest)
      else if IsLast c then prune_loop (i + 1) fr
      else prune_loop (i - 1) (rev st @ n # rest))"
    unfolding prune_loop.simps [of i fr] Let_def fr bk by (simp del: One_nat_def)
  then show ?thesis by (simp add: i_def fr_def)
qed

lemma prune_loop_push:
  "prune_loop (length st) (rev st @ c # rest) = rev (foldl push (c # st) rest)"
proof (induction rest arbitrary: c st)
  case Nil
  show ?case by (simp add: prune_loop.simps)
next
  case (Cons n rest)
  note IH = Cons.IH
  show ?case
  proof (induction st arbitrary: c)
    case Nil
    show ?case using IH [of "[]" c] IH [of "[c]" n] IH [of "[]" n]
      by (simp add: prune_loop_step [of "[]", simplified])
  next
    case (Cons s st)
    show ?case
      using IH [of "s # st" c] IH [of "c # s # st" n] Cons.IH [of s]
      by (simp add: prune_loop_step [of "s # st", simplified] del: push.simps(2))
         (simp add: push.simps(2) [of c])
  qed
qed

lemma pruneFrameQueue_push: "pruneFrameQueue frames = rev (foldl push [] frames)"
proof (cases frames)
  case Nil
  then show ?thesis by (simp add: pruneFrameQueue_def prune_loop.simps)
next
  case (Cons f fs)
  then show ?thesis using prune_loop_push [of "[]" f fs] by (simp add: pruneFrameQueue_def)
qed

section \<open>Shape of the pruned queue\<close>

text \<open>What Holocene allows for two consecutive frames.\<close>

definition follows :: "Frame \<Rightarrow> Frame \<Rightarrow> bool" where
  "follows c n \<longleftrightarrow>
     (if ID c = ID n then \<not> IsLast c \<and> FrameNumber n = FrameNumber c + 1
      else IsLast c \<and> FrameNumber n = 0)"

lemma push_Cons:
  "push (c # st) f =
     (if follows c f then f # c # st
      else if ID c \<noteq> ID f \<and> FrameNumber f = 0 then push st f else c # st)"
  by (auto simp: follows_def)

declare push.simps(2) [simp del]

lemma successively_push:
  "successively (\<lambda>n c. follows c n) st \<Longrightarrow> successively (\<lambda>n c. follows c n) (push st f)"
  by (induction st) (auto simp: push_Cons successively_Cons)

lemma successively_foldl_push:
  "successively (\<lambda>n c. follows c n) st \<Longrightarrow> successively (\<lambda>n c. follows c n) (foldl push st fs)"
  by (induction fs arbitrary: st) (auto intro: successively_push)

lemma successively_pruned: "successively follows (pruneFrameQueue frames)"
  using successively_foldl_push [of "[]" frames] by (simp add: pruneFrameQueue_push successively_rev)

lemma subseq_push: "subseq (rev (push st f)) (rev st @ [f])"
proof (induction st)
  case Nil
  show ?case by simp
next
  case (Cons c st)
  have "subseq (rev st @ [f]) (rev st @ [c, f])" by (intro list_emb_append_mono) auto
  with Cons show ?case by (auto simp: push_Cons intro: subseq_order.trans)
qed

lemma subseq_foldl_push: "subseq (rev (foldl push st fs)) (rev st @ fs)"
proof (induction fs arbitrary: st)
  case Nil
  show ?case by simp
next
  case (Cons f fs)
  have "subseq (rev (push st f) @ fs) ((rev st @ [f]) @ fs)"
    using subseq_push by (rule list_emb_append_mono) simp
  with Cons.IH [of "push st f"] show ?case by (auto intro: subseq_order.trans)
qed

lemma subseq_pruned: "subseq (pruneFrameQueue frames) frames"
  using subseq_foldl_push [of "[]" frames] by (simp add: pruneFrameQueue_push)

lemma foldl_push_follows:
  "successively follows (c # fs) \<Longrightarrow> foldl push (c # st) fs = rev (c # fs) @ st"
  by (induction fs arbitrary: c st) (auto simp: push_Cons)

lemma pruneFrameQueue_id: "successively follows frames \<Longrightarrow> pruneFrameQueue frames = frames"
  by (cases frames) (simp_all add: pruneFrameQueue_push foldl_push_follows)

section \<open>Complete channels survive\<close>

lemma set_push: "set (push st f) \<subseteq> insert f (set st)"
  by (induction st) (auto simp: push_Cons)

lemma set_foldl_push: "set (foldl push st fs) \<subseteq> set st \<union> set fs"
proof (induction fs arbitrary: st)
  case (Cons f fs)
  from Cons.IH [of "push st f"] set_push [of st f] show ?case by auto
qed simp

text \<open>The first frame of a channel not seen before is always taken.\<close>

lemma push_first:
  "FrameNumber f = 0 \<Longrightarrow> \<forall>g \<in> set st. ID g \<noteq> ID f \<Longrightarrow> \<exists>st'. push st f = f # st'"
  by (induction st) (auto simp: push_Cons)

text \<open>Nothing below a closing frame is ever taken back.\<close>

lemma push_closed: "IsLast c \<Longrightarrow> \<exists>zs. push (xs @ c # st) f = zs @ c # st"
proof (induction xs)
  case Nil
  then show ?case
    by (auto simp: push_Cons follows_def intro: exI [of _ "[]"] exI [of _ "[f]"])
next
  case (Cons x xs)
  then show ?case
    by (auto simp: push_Cons intro: exI [of _ "x # xs"] exI [of _ "f # x # xs"])
qed

lemma foldl_push_closed: "IsLast c \<Longrightarrow> \<exists>zs. foldl push (xs @ c # st) fs = zs @ c # st"
proof (induction fs arbitrary: xs)
  case (Cons f fs)
  then obtain zs where "push (xs @ c # st) f = zs @ c # st" using push_closed by blast
  with Cons show ?case by simp
qed simp

lemma channel_frames_follows:
  assumes "channel_frames i fs"
  shows "successively follows fs"
  unfolding successively_conv_nth
proof (intro allI impI)
  fix k assume "Suc k < length fs"
  then show "follows (fs ! k) (fs ! Suc k)"
    using assms by (auto simp: channel_frames_def follows_def)
qed

lemma pruneFrameQueue_keeps:
  assumes cs: "channel_frames i cs" and pre: "\<forall>g \<in> set pre. ID g \<noteq> i"
  shows "\<exists>us vs. pruneFrameQueue (pre @ cs @ post) = us @ cs @ vs"
proof -
  obtain c ds where c: "cs = c # ds"
    using cs by (cases cs) (auto simp: channel_frames_def)
  let ?st = "foldl push [] pre"
  have "FrameNumber c = 0" "ID c = i" using cs by (auto simp: channel_frames_def c)
  moreover have "\<forall>g \<in> set ?st. ID g \<noteq> i" using pre set_foldl_push [of "[]" pre] by auto
  ultimately obtain st' where st': "push ?st c = c # st'" using push_first [of c ?st] by blast
  have kept: "foldl push ?st cs = rev cs @ st'"
    using foldl_push_follows [of c ds st'] channel_frames_follows [OF cs] by (simp add: c st')
  have l: "IsLast (last cs)" using cs channel_frames_last [OF cs, of "last cs"] by (simp add: c)
  have split: "rev cs @ st' = [] @ last cs # (tl (rev cs) @ st')"
    using c by (metis append_Cons append_Nil hd_rev list.collapse rev_is_Nil_conv list.distinct(1))
  obtain zs where "foldl push (rev cs @ st') post = zs @ rev cs @ st'"
    using foldl_push_closed [OF l, of "[]" "tl (rev cs) @ st'" post] unfolding split by auto
  then have "pruneFrameQueue (pre @ cs @ post) = rev st' @ cs @ rev zs"
    by (simp add: pruneFrameQueue_push kept)
  then show ?thesis by blast
qed

section \<open>The queue as a provider of frames\<close>

lemma loadNextFrames_cases:
  assumes "loadNextFrames cfg NextData Origin (fq, p) = (r, fq', p')"
  obtains "fq' = fq" | frames data where "NextData p = (Inr data, p')"
    and "ParseFrames data = Inr frames" and "r = None"
    and "fq_frames fq' = (if IsHolocene cfg (l1_Time (Origin p'))
           then pruneFrameQueue (fq_frames fq @ frames) else fq_frames fq @ frames)"
  using assms by (auto simp: loadNextFrames_def fq_prune_def Let_def split: prod.splits sum.splits)

lemma NextFrame_cases:
  assumes "NextFrame cfg NextData Origin (fq, p) = (r, fq', p')"
  obtains e where "r = Inl e" and "fq_frames fq' = []"
  | f where "r = Inr f" and "fq_frames fq = f # fq_frames fq'" and "p' = p"
  | f data frames where "r = Inr f" and "fq_frames fq = []" and "NextData p = (Inr data, p')"
    and "ParseFrames data = Inr frames"
    and "f # fq_frames fq' = (if IsHolocene cfg (l1_Time (Origin p'))
           then pruneFrameQueue frames else frames)"
proof (cases "fq_frames fq")
  case (Cons f rest)
  with assms that(2) show ?thesis by (auto simp: NextFrame_def)
next
  case Nil
  obtain r1 fq1 p1 where l: "loadNextFrames cfg NextData Origin (fq, p) = (r1, fq1, p1)"
    by (metis prod_cases3)
  show ?thesis
  proof (rule loadNextFrames_cases [OF l])
    assume "fq1 = fq"
    with assms Nil l that(1) show ?thesis
      by (auto simp: NextFrame_def split: option.splits)
  next
    fix frames data assume *: "NextData p = (Inr data, p1)" "ParseFrames data = Inr frames" "r1 = None"
      "fq_frames fq1 = (if IsHolocene cfg (l1_Time (Origin p1))
         then pruneFrameQueue (fq_frames fq @ frames) else fq_frames fq @ frames)"
    show ?thesis
    proof (cases "fq_frames fq1")
      case Nil
      with assms \<open>fq_frames fq = []\<close> l * that(1) show ?thesis by (auto simp: NextFrame_def)
    next
      case (Cons g gs)
      then have "r = Inr g" "fq_frames fq' = gs" "p' = p1"
        using assms Nil l *(3) by (auto simp: NextFrame_def)
      moreover have "g # gs = (if IsHolocene cfg (l1_Time (Origin p1))
          then pruneFrameQueue frames else frames)"
        using Cons *(4) unfolding Nil append_Nil by metis
      ultimately show ?thesis using Nil *(1,2) that(3) [of g data frames] by simp
    qed
  qed
qed

lemma pruneFrameQueue_wf: "list_all frame_wf fs \<Longrightarrow> list_all frame_wf (pruneFrameQueue fs)"
  using set_foldl_push [of "[]" fs] by (auto simp: pruneFrameQueue_push list_all_iff)

interpretation frame_queue:
  provider "NextFrame cfg NextData Origin" "\<lambda>(fq, p). list_all frame_wf (fq_frames fq)" frame_wf
  for cfg NextData Origin
proof -
  have both: "(case s' of (fq, p) \<Rightarrow> list_all frame_wf (fq_frames fq)) \<and> (\<forall>f. r = Inr f \<longrightarrow> frame_wf f)"
    if wf: "case s of (fq, p) \<Rightarrow> list_all frame_wf (fq_frames fq)"
    and n: "NextFrame cfg NextData Origin s = (r, s')" for s r s'
  proof -
  obtain fq p fq' p' where s: "s = (fq, p)" "s' = (fq', p')" by (metis surj_pair)
  have "list_all frame_wf (fq_frames fq') \<and> (\<forall>f. r = Inr f \<longrightarrow> frame_wf f)"
    using n [unfolded s]
  proof (cases rule: NextFrame_cases)
    case (3 f data frames)
    then have "list_all frame_wf frames" by (simp add: ParseFrames_Inr_iff)
    then have "list_all frame_wf (f # fq_frames fq')"
      using 3(5) by (simp add: pruneFrameQueue_wf split: if_splits)
    with 3(1) show ?thesis by simp
  qed (use wf s in auto)
  then show ?thesis by (simp add: s)
  qed
  show "provider (NextFrame cfg NextData Origin) (\<lambda>(fq, p). list_all frame_wf (fq_frames fq)) frame_wf"
    using both by unfold_locales blast+
qed

section \<open>Properties\<close>

text \<open>The cursor loop of \<open>pruneFrameQueue\<close> ends and computes one pass with a stack: each
  frame is compared with the latest frame kept, and a first frame takes back the frames of an
  unclosed channel.\<close>

theorem pruneFrameQueue_one_pass: "pruneFrameQueue frames = rev (foldl push [] frames)"
  by (rule pruneFrameQueue_push)

text \<open>The pruned queue is a subsequence of the queue in which consecutive frames are either
  consecutive frames of one channel or the closing frame of one and the first of another; a queue
  of that shape is not changed, so pruning again does nothing.\<close>

theorem pruneFrameQueue_Holocene:
  "subseq (pruneFrameQueue frames) frames \<and>
   successively follows (pruneFrameQueue frames) \<and>
   pruneFrameQueue (pruneFrameQueue frames) = pruneFrameQueue frames \<and>
   (pruneFrameQueue frames = frames \<longleftrightarrow> successively follows frames)"
  using subseq_pruned successively_pruned pruneFrameQueue_id by metis

text \<open>A complete channel whose frames stand together in the queue, with no earlier frame of
  the same channel, is kept whole whatever stands before and after it.\<close>

theorem pruneFrameQueue_complete_channel:
  assumes "channel_frames i cs" and "\<forall>g \<in> set pre. ID g \<noteq> i"
  shows "\<exists>us vs. pruneFrameQueue (pre @ cs @ post) = us @ cs @ vs"
  using assms by (rule pruneFrameQueue_keeps)

theorem pruneFrameQueue_complete_channel_witness:
  "\<exists>us vs. pruneFrameQueue ([(sample_frame 0 [] False)\<lparr>ID := 3\<rparr>] @ sample_frames @ sample_frames)
     = us @ sample_frames @ vs"
  by (rule pruneFrameQueue_complete_channel [OF sample_channel_frames]) (simp add: sample_frame_def)

text \<open>With Holocene active at the origin of the data it loads, \<open>NextFrame\<close> keeps the queue
  in the Holocene order, and so is the frame it hands out together with what remains.\<close>

theorem NextFrame_ordered:
  assumes "NextFrame cfg NextData Origin (fq, p) = (r, fq', p')"
    and "successively follows (fq_frames fq)" and "IsHolocene cfg (l1_Time (Origin p'))"
  shows "successively follows (fq_frames fq') \<and>
    (\<forall>f. r = Inr f \<longrightarrow> successively follows (f # fq_frames fq') \<and>
       (fq_frames fq \<noteq> [] \<longrightarrow> fq_frames fq = f # fq_frames fq'))"
  using assms(1)
proof (cases rule: NextFrame_cases)
  case (3 f data frames)
  then have "successively follows (f # fq_frames fq')"
    using assms(3) successively_pruned [of frames] by simp
  with 3(1,2) show ?thesis by (auto simp: successively_Cons)
qed (use assms(2) in \<open>auto simp: successively_Cons\<close>)

text \<open>Two channel transactions in one payload, the second a repetition that is pruned away.\<close>

definition sample_NextData :: "(nat, byte list) puller" where
  "sample_NextData p =
     (Inr (DerivationVersion0 # concat (map MarshalBinary (sample_frames @ sample_frames))), Suc p)"

theorem NextFrame_ordered_witness:
  "\<exists>fq' p'. NextFrame sample_aligned sample_NextData (\<lambda>_. zero_L1BlockRef\<lparr>l1_Time := 2400\<rparr>)
       (NewFrameQueue, 0) = (Inr (hd sample_frames), fq', p') \<and>
     fq_frames fq' = tl sample_frames \<and> successively follows (hd sample_frames # fq_frames fq')"
proof -
  let ?o = "\<lambda>_. zero_L1BlockRef\<lparr>l1_Time := 2400\<rparr>"
  obtain r fq' p' where n: "NextFrame sample_aligned sample_NextData ?o (NewFrameQueue, 0) = (r, fq', p')"
    by (metis prod_cases3)
  have "ParseFrames (DerivationVersion0 # concat (map MarshalBinary (sample_frames @ sample_frames)))
      = Inr (sample_frames @ sample_frames)"
    unfolding ParseFrames_Inr_iff by (simp add: sample_frames_def sample_frame_def frame_wf_def MaxFrameLen_def)
  moreover have "pruneFrameQueue (sample_frames @ sample_frames) = sample_frames" by code_simp
  moreover have h: "IsHolocene sample_aligned (l1_Time (?o p'))"
    by (simp add: IsFork_active_at active_at_def)
  ultimately have "r = Inr (hd sample_frames) \<and> fq_frames fq' = tl sample_frames"
    using n by (auto simp: NextFrame_def loadNextFrames_def sample_NextData_def NewFrameQueue_def
        fq_prune_def Let_def sample_frames_def)
  with NextFrame_ordered [OF n _ h] n show ?thesis by (simp add: NewFrameQueue_def)
qed

end
