(* ===== verification/Channel_Bank.thy ===== *)
theory Channel_Bank
  imports Frame_Queue
begin

text \<open>
  The channel bank (\<open>op-node/rollup/derive/channel_bank.go\<close>), the stage that collects channels
  before Holocene. The code keeps a map of channels and a queue of their identifiers; the theory
  shows that the two always describe one list of channels in the order of their creation, that no
  operation panics, and what each operation does to that list.
\<close>

section \<open>Definitions\<close>

record ChannelBank =
  channels :: "(ChannelID, Channel) gomap"
  channelQueue :: "ChannelID list"

definition NewChannelBank :: ChannelBank where
  "NewChannelBank = \<lparr>channels = [], channelQueue = []\<rparr>"

datatype bank_panic =
    QueueIndexOutOfRange | NilChannel | ReaderPanic reader_panic | InvalidFlushChannelCall

text \<open>The pruning loop on the queue and the map, for a given limit.\<close>

fun prune_channels ::
  "u64 \<Rightarrow> u64 \<Rightarrow> ChannelID list \<Rightarrow> (ChannelID, Channel) gomap \<Rightarrow> bank_panic + ChannelBank" where
  "prune_channels maxSize totalSize [] m =
     (if totalSize > maxSize then Inl QueueIndexOutOfRange
      else Inr \<lparr>channels = m, channelQueue = []\<rparr>)"
| "prune_channels maxSize totalSize (i # q) m =
     (if totalSize > maxSize then
        (case map_of m i of
           None \<Rightarrow> Inl NilChannel
         | Some ch \<Rightarrow> prune_channels maxSize (totalSize - ch_size ch) q (AList.delete i m))
      else Inr \<lparr>channels = m, channelQueue = i # q\<rparr>)"

definition cb_prune :: "ChainSpec \<Rightarrow> L1BlockRef \<Rightarrow> ChannelBank \<Rightarrow> bank_panic + ChannelBank" where
  "cb_prune spec origin cb =
     prune_channels (MaxChannelBankSize spec (l1_Time origin))
       (sum_list (map (\<lambda>(i, ch). ch_size ch) (channels cb))) (channelQueue cb) (channels cb)"

definition channel_timed_out :: "ChainSpec \<Rightarrow> L1BlockRef \<Rightarrow> Channel \<Rightarrow> bool" where
  "channel_timed_out spec origin ch \<longleftrightarrow>
     OpenBlockNumber ch + ChannelTimeout spec (l1_Time origin) < l1_Number origin"

definition IngestFrame ::
  "ChainSpec \<Rightarrow> L1BlockRef \<Rightarrow> Frame \<Rightarrow> ChannelBank \<Rightarrow> bank_panic + ChannelBank" where
  "IngestFrame spec origin f cb =
     (let (currentCh, cb1) =
        (case map_of (channels cb) (ID f) of
           Some ch \<Rightarrow> (ch, cb)
         | None \<Rightarrow> let ch = NewChannel (ID f) origin False in
             (ch, cb\<lparr>channels := AList.update (ID f) ch (channels cb),
                     channelQueue := channelQueue cb @ [ID f]\<rparr>))
      in if channel_timed_out spec origin currentCh then Inr cb1
         else case AddFrame f origin currentCh of
           Inl err \<Rightarrow> Inr cb1
         | Inr ch' \<Rightarrow>
             cb_prune spec origin (cb1\<lparr>channels := AList.update (ID f) ch' (channels cb1)\<rparr>))"

definition tryReadChannelAtIndex ::
  "ChainSpec \<Rightarrow> L1BlockRef \<Rightarrow> nat \<Rightarrow> ChannelBank \<Rightarrow>
     bank_panic + (derive_error + byte list) \<times> ChannelBank" where
  "tryReadChannelAtIndex spec origin i cb =
     (if i \<ge> length (channelQueue cb) then Inl QueueIndexOutOfRange
      else let chanID = channelQueue cb ! i in
        case map_of (channels cb) chanID of
          None \<Rightarrow> Inl NilChannel
        | Some ch \<Rightarrow>
            if channel_timed_out spec origin ch \<or> \<not> IsReady ch then Inr (Inl IoEOF, cb)
            else let cb1 = cb\<lparr>channels := AList.delete chanID (channels cb),
                              channelQueue := take i (channelQueue cb) @ drop (i + 1) (channelQueue cb)\<rparr>
              in case Reader ch of Inl p \<Rightarrow> Inl (ReaderPanic p) | Inr data \<Rightarrow> Inr (Inr data, cb1))"

fun read_loop ::
  "ChainSpec \<Rightarrow> L1BlockRef \<Rightarrow> nat list \<Rightarrow> ChannelBank \<Rightarrow>
     bank_panic + (derive_error + byte list) \<times> ChannelBank" where
  "read_loop spec origin [] cb = Inr (Inl IoEOF, cb)"
| "read_loop spec origin (i # is) cb =
     (case tryReadChannelAtIndex spec origin i cb of
        Inl p \<Rightarrow> Inl p
      | Inr (Inr data, cb') \<Rightarrow> Inr (Inr data, cb')
      | Inr (Inl err, cb') \<Rightarrow> read_loop spec origin is cb')"

text \<open>A timed-out head is dropped and \<open>nil, nil\<close> returned: empty data and no error.\<close>

definition Read ::
  "ChainSpec \<Rightarrow> L1BlockRef \<Rightarrow> ChannelBank \<Rightarrow> bank_panic + (derive_error + byte list) \<times> ChannelBank" where
  "Read spec origin cb =
     (case channelQueue cb of
        [] \<Rightarrow> Inr (Inl IoEOF, cb)
      | first # rest \<Rightarrow>
         (case map_of (channels cb) first of
            None \<Rightarrow> Inl NilChannel
          | Some ch \<Rightarrow>
              if channel_timed_out spec origin ch
              then Inr (Inr [], cb\<lparr>channels := AList.delete first (channels cb), channelQueue := rest\<rparr>)
              else if \<not> IsCanyon (config spec) (l1_Time origin)
              then tryReadChannelAtIndex spec origin 0 cb
              else read_loop spec origin [0..<length (channelQueue cb)] cb))"

text \<open>The stage before is given by its \<open>NextFrame\<close> and its \<open>Origin\<close>; the bank reads the origin
  anew after pulling a frame.\<close>

definition NextRawChannel ::
  "ChainSpec \<Rightarrow> ('p, Frame) puller \<Rightarrow> ('p \<Rightarrow> L1BlockRef) \<Rightarrow> ChannelBank \<times> 'p \<Rightarrow>
     bank_panic + (derive_error + byte list) \<times> ChannelBank \<times> 'p" where
  "NextRawChannel spec nextFrame prevOrigin s =
     (case s of (cb, p) \<Rightarrow>
      case Read spec (prevOrigin p) cb of
        Inl pc \<Rightarrow> Inl pc
      | Inr (Inr data, cb1) \<Rightarrow> Inr (Inr data, cb1, p)
      | Inr (Inl err, cb1) \<Rightarrow>
         if err \<noteq> IoEOF then Inr (Inl err, cb1, p)
         else case nextFrame p of
           (Inl err, p') \<Rightarrow> Inr (Inl err, cb1, p')
         | (Inr frame, p') \<Rightarrow>
             (case IngestFrame spec (prevOrigin p') frame cb1 of
                Inl pc \<Rightarrow> Inl pc
              | Inr cb2 \<Rightarrow> Inr (Inl NotEnoughData, cb2, p')))"

definition cb_Reset :: "ChannelBank \<Rightarrow> derive_error option \<times> ChannelBank" where
  "cb_Reset cb = (Some IoEOF, \<lparr>channels = [], channelQueue = []\<rparr>)"

definition cb_FlushChannel :: "ChannelBank \<Rightarrow> bank_panic + ChannelBank" where
  "cb_FlushChannel cb = Inl InvalidFlushChannelCall"

section \<open>The bank as a list of channels\<close>

text \<open>What the bank promises, on the list of its channels from the oldest to the newest.\<close>

fun spec_prune :: "u64 \<Rightarrow> Channel list \<Rightarrow> Channel list" where
  "spec_prune maxSize [] = []"
| "spec_prune maxSize (c # cs) =
     (if sum_list (map ch_size (c # cs)) > maxSize then spec_prune maxSize cs else c # cs)"

definition spec_open :: "L1BlockRef \<Rightarrow> ChannelID \<Rightarrow> Channel list \<Rightarrow> Channel list" where
  "spec_open origin i cs =
     (if \<exists>c \<in> set cs. ch_id c = i then cs else cs @ [NewChannel i origin False])"

definition spec_ingest :: "ChainSpec \<Rightarrow> L1BlockRef \<Rightarrow> Frame \<Rightarrow> Channel list \<Rightarrow> Channel list" where
  "spec_ingest spec origin f cs =
     (let cs1 = spec_open origin (ID f) cs
      in case find (\<lambda>c. ch_id c = ID f) cs1 of
           None \<Rightarrow> cs1
         | Some ch \<Rightarrow>
             if channel_timed_out spec origin ch then cs1
             else case AddFrame f origin ch of
               Inl err \<Rightarrow> cs1
             | Inr ch' \<Rightarrow> spec_prune (MaxChannelBankSize spec (l1_Time origin))
                           (map (\<lambda>c. if ch_id c = ID f then ch' else c) cs1))"

definition readable :: "ChainSpec \<Rightarrow> L1BlockRef \<Rightarrow> Channel \<Rightarrow> bool" where
  "readable spec origin c \<longleftrightarrow> \<not> channel_timed_out spec origin c \<and> IsReady c"

text \<open>The data of the channel that is read, if any, and the channels that remain.\<close>

definition spec_read ::
  "ChainSpec \<Rightarrow> L1BlockRef \<Rightarrow> Channel list \<Rightarrow> byte list option \<times> Channel list" where
  "spec_read spec origin cs =
     (case cs of
        [] \<Rightarrow> (None, [])
      | c # rest \<Rightarrow>
          if channel_timed_out spec origin c then (Some [], rest)
          else case List.extract (readable spec origin)
                      (if IsCanyon (config spec) (l1_Time origin) then cs else [c]) of
            None \<Rightarrow> (None, cs)
          | Some (before, ch, after) \<Rightarrow>
              (case Reader ch of Inl p \<Rightarrow> (None, cs)
               | Inr data \<Rightarrow> (Some data, before @ drop (length before + 1) cs)))"

text \<open>The map and the queue describe the list \<open>cs\<close>.\<close>

definition rep :: "Channel list \<Rightarrow> ChannelBank \<Rightarrow> bool" where
  "rep cs cb \<longleftrightarrow>
     channelQueue cb = map ch_id cs \<and> distinct (map ch_id cs) \<and>
     gomap_ok (channels cb) \<and>
     (\<forall>i c. map_of (channels cb) i = Some c \<longleftrightarrow> c \<in> set cs \<and> ch_id c = i) \<and>
     (\<forall>c \<in> set cs. channel_inv c \<and> \<not> requireInOrder c)"

lemma rep_Some: "rep cs cb \<Longrightarrow> map_of (channels cb) i = Some c \<longleftrightarrow> c \<in> set cs \<and> ch_id c = i"
  by (simp add: rep_def)

lemma rep_lookup: "rep cs cb \<Longrightarrow> c \<in> set cs \<Longrightarrow> map_of (channels cb) (ch_id c) = Some c"
  by (simp add: rep_Some)

lemma rep_None: "rep cs cb \<Longrightarrow> map_of (channels cb) i = None \<longleftrightarrow> (\<forall>c \<in> set cs. ch_id c \<noteq> i)"
  using rep_Some [of cs cb i] by (cases "map_of (channels cb) i") auto

lemma sum_gomap:
  assumes "gomap_ok m" and "gomap_ok m'" and "set m = set m'"
  shows "sum_list (map (f :: _ \<Rightarrow> 'a::comm_monoid_add) m) = sum_list (map f m')"
proof -
  have "distinct m" "distinct m'" using assms(1,2) by (simp_all add: distinct_map)
  then have "mset m = mset m'" using assms(3) by (simp add: set_eq_iff_mset_eq_distinct)
  then show ?thesis by (metis mset_map sum_mset_sum_list)
qed

lemma rep_total:
  assumes "rep cs cb"
  shows "sum_list (map (\<lambda>(i, ch). ch_size ch) (channels cb)) = sum_list (map ch_size cs)"
proof -
  have "gomap_ok (channels cb)" using assms by (simp add: rep_def)
  then have "(i, c) \<in> set (channels cb) \<longleftrightarrow> (i, c) \<in> set (map (\<lambda>c. (ch_id c, c)) cs)" for i c
    using rep_Some [OF assms, of i c] map_of_eq_Some_iff [of "channels cb" i c] by auto
  then have "set (channels cb) = set (map (\<lambda>c. (ch_id c, c)) cs)" by auto
  then have "sum_list (map (\<lambda>(i, ch). ch_size ch) (channels cb))
      = sum_list (map (\<lambda>(i, ch). ch_size ch) (map (\<lambda>c. (ch_id c, c)) cs))"
    using assms by (intro sum_gomap) (simp_all add: rep_def comp_def)
  then show ?thesis by (simp add: comp_def)
qed

text \<open>Removing a channel from the map and from the queue.\<close>

lemma rep_remove:
  assumes "rep (xs @ c # ys) cb"
  shows "rep (xs @ ys) (cb\<lparr>channels := AList.delete (ch_id c) (channels cb),
    channelQueue := map ch_id xs @ map ch_id ys\<rparr>)"
proof -
  have "\<forall>x \<in> set xs \<union> set ys. ch_id x \<noteq> ch_id c"
    using assms by (auto simp: rep_def image_iff)
  with assms show ?thesis by (auto simp: rep_def delete_conv')
qed

lemma prune_channels_rep:
  "rep cs \<lparr>channels = m, channelQueue = q\<rparr> \<Longrightarrow>
     \<exists>cb'. prune_channels mx (sum_list (map ch_size cs)) q m = Inr cb' \<and> rep (spec_prune mx cs) cb'"
proof (induction cs arbitrary: q m)
  case Nil
  then show ?case by (auto simp: rep_def)
next
  case (Cons c cs)
  then obtain q' where q: "q = ch_id c # q'" by (auto simp: rep_def)
  from Cons.prems have l: "map_of m (ch_id c) = Some c" using rep_lookup [OF Cons.prems, of c] by simp
  have "q' = map ch_id cs" using Cons.prems by (simp add: rep_def q)
  then have "rep cs \<lparr>channels = AList.delete (ch_id c) m, channelQueue = q'\<rparr>"
    using rep_remove [of "[]" c cs] Cons.prems by fastforce
  from Cons.IH [OF this] Cons.prems show ?case by (auto simp: q l)
qed

lemma cb_prune_rep:
  "rep cs cb \<Longrightarrow> \<exists>cb'. cb_prune spec origin cb = Inr cb' \<and>
     rep (spec_prune (MaxChannelBankSize spec (l1_Time origin)) cs) cb'"
  using prune_channels_rep [of cs "channels cb" "channelQueue cb"] rep_total [of cs cb]
  by (cases cb) (auto simp: cb_prune_def)

section \<open>Ingesting\<close>

lemma rep_open:
  assumes "rep cs cb" and "map_of (channels cb) i = None"
  shows "rep (cs @ [NewChannel i origin False])
    (cb\<lparr>channels := AList.update i (NewChannel i origin False) (channels cb),
        channelQueue := channelQueue cb @ [i]\<rparr>)"
proof -
  have [simp]: "ch_id (NewChannel i origin False) = i" "\<not> requireInOrder (NewChannel i origin False)"
    by (simp_all add: NewChannel_def)
  have "i \<notin> ch_id ` set cs" using assms by (auto simp: rep_None)
  then show ?thesis
    using assms by (auto simp: rep_def update_conv')
qed

lemma rep_replace:
  assumes "rep cs cb" and "i \<in> ch_id ` set cs" and "ch_id c' = i" and "channel_inv c'"
    and "\<not> requireInOrder c'"
  shows "rep (map (\<lambda>x. if ch_id x = i then c' else x) cs)
    (cb\<lparr>channels := AList.update i c' (channels cb)\<rparr>)"
proof -
  have "map ch_id (map (\<lambda>x. if ch_id x = i then c' else x) cs) = map ch_id cs"
    using assms(3) by simp
  with assms show ?thesis
    unfolding rep_def by (simp only:) (auto simp: update_conv')
qed

lemma find_channel:
  assumes "rep cs cb" and "map_of (channels cb) i = Some ch"
  shows "find (\<lambda>c. ch_id c = i) cs = Some ch" and "ch \<in> set cs" and "ch_id ch = i"
proof -
  show c: "ch \<in> set cs" "ch_id ch = i" using assms by (simp_all add: rep_Some)
  have "distinct (map ch_id cs)" using assms(1) by (simp add: rep_def)
  with c show "find (\<lambda>c. ch_id c = i) cs = Some ch" by (induction cs) auto
qed

text \<open>The part of \<open>IngestFrame\<close> after the channel has been found or opened.\<close>

lemma ingest_into_rep:
  assumes "rep cs cb" and "map_of (channels cb) (ID f) = Some ch"
  shows "\<exists>cb'. (if channel_timed_out spec origin ch then Inr cb
      else case AddFrame f origin ch of Inl err \<Rightarrow> Inr cb
        | Inr ch' \<Rightarrow> cb_prune spec origin (cb\<lparr>channels := AList.update (ID f) ch' (channels cb)\<rparr>)) = Inr cb' \<and>
    rep (case find (\<lambda>c. ch_id c = ID f) cs of None \<Rightarrow> cs
      | Some ch \<Rightarrow> if channel_timed_out spec origin ch then cs
          else case AddFrame f origin ch of Inl err \<Rightarrow> cs
            | Inr ch' \<Rightarrow> spec_prune (MaxChannelBankSize spec (l1_Time origin))
                (map (\<lambda>c. if ch_id c = ID f then ch' else c) cs)) cb'"
proof (cases "channel_timed_out spec origin ch \<or> \<not> accepts ch f")
  case True
  then show ?thesis
    using assms find_channel [OF assms] AddFrame_Inl [of ch f origin] by (auto split: sum.splits)
next
  case False
  let ?ch = "added ch f origin"
  have c: "ch \<in> set cs" "ch_id ch = ID f" using find_channel [OF assms] by auto
  then have "channel_inv ch" "\<not> requireInOrder ch" using assms(1) by (auto simp: rep_def)
  then have "rep (map (\<lambda>c. if ch_id c = ID f then ?ch else c) cs)
      (cb\<lparr>channels := AList.update (ID f) ?ch (channels cb)\<rparr>)"
    using False c assms(1) by (intro rep_replace) (auto intro: inv_intros simp: rev_image_eqI)
  from cb_prune_rep [OF this, of spec origin] show ?thesis
    using False find_channel [OF assms] by (auto simp: AddFrame_added)
qed

lemma IngestFrame_rep:
  assumes "rep cs cb"
  shows "\<exists>cb'. IngestFrame spec origin f cb = Inr cb' \<and> rep (spec_ingest spec origin f cs) cb'"
proof (cases "map_of (channels cb) (ID f)")
  case None
  then have "spec_open origin (ID f) cs = cs @ [NewChannel (ID f) origin False]"
    using assms by (auto simp: spec_open_def rep_None)
  with ingest_into_rep [OF rep_open [OF assms None, of origin], where f = f and ch = "NewChannel (ID f) origin False"]
  show ?thesis by (simp add: IngestFrame_def spec_ingest_def None Let_def update_conv')
next
  case (Some ch)
  then have "spec_open origin (ID f) cs = cs"
    using find_channel [OF assms Some] by (auto simp: spec_open_def)
  with ingest_into_rep [OF assms Some, of spec origin] show ?thesis
    by (simp add: IngestFrame_def spec_ingest_def Some Let_def)
qed

section \<open>Reading\<close>

lemma ready_Reader: "IsReady ch \<Longrightarrow> \<exists>data. Reader ch = Inr data"
  by (auto dest: Reader_ready)

lemma tryRead_rep:
  assumes "rep (xs @ c # ys) cb"
  shows "readable spec origin c \<Longrightarrow> \<exists>data cb'. Reader c = Inr data \<and>
      tryReadChannelAtIndex spec origin (length xs) cb = Inr (Inr data, cb') \<and> rep (xs @ ys) cb'"
    and "\<not> readable spec origin c \<Longrightarrow>
      tryReadChannelAtIndex spec origin (length xs) cb = Inr (Inl IoEOF, cb)"
proof -
  have q: "channelQueue cb = map ch_id xs @ ch_id c # map ch_id ys"
    using assms by (simp add: rep_def)
  have m: "map_of (channels cb) (ch_id c) = Some c" by (rule rep_lookup [OF assms]) simp
  have n: "channelQueue cb ! length xs = ch_id c" "\<not> length (channelQueue cb) \<le> length xs"
    using q by (auto simp: nth_append)
  show "\<not> readable spec origin c \<Longrightarrow>
      tryReadChannelAtIndex spec origin (length xs) cb = Inr (Inl IoEOF, cb)"
    by (auto simp: tryReadChannelAtIndex_def n m readable_def Let_def)
  assume r: "readable spec origin c"
  then obtain data where d: "Reader c = Inr data" using ready_Reader by (auto simp: readable_def)
  with r rep_remove [OF assms] q show "\<exists>data cb'. Reader c = Inr data \<and>
      tryReadChannelAtIndex spec origin (length xs) cb = Inr (Inr data, cb') \<and> rep (xs @ ys) cb'"
    using n by (auto simp: tryReadChannelAtIndex_def m readable_def Let_def)
qed

lemma read_loop_rep:
  "rep (xs @ ys) cb \<Longrightarrow>
     (case List.extract (readable spec origin) ys of
        None \<Rightarrow> read_loop spec origin [length xs..<length (xs @ ys)] cb = Inr (Inl IoEOF, cb)
      | Some (b, c, a) \<Rightarrow> \<exists>data cb'. Reader c = Inr data \<and>
          read_loop spec origin [length xs..<length (xs @ ys)] cb = Inr (Inr data, cb') \<and>
          rep (xs @ b @ a) cb')"
proof (induction ys arbitrary: xs)
  case Nil
  show ?case by (simp add: extract_Nil_code)
next
  case (Cons y ys)
  have up: "[length xs..<length (xs @ y # ys)] = length xs # [length (xs @ [y])..<length ((xs @ [y]) @ ys)]"
    by (subst upt_conv_Cons) simp_all
  show ?case
  proof (cases "readable spec origin y")
    case True
    obtain data cb' where "Reader y = Inr data" "rep (xs @ ys) cb'"
      "tryReadChannelAtIndex spec origin (length xs) cb = Inr (Inr data, cb')"
      using tryRead_rep(1) [OF Cons.prems True] by blast
    with True show ?thesis unfolding up by (simp add: extract_Cons_code)
  next
    case False
    with tryRead_rep(2) [OF Cons.prems False] Cons.IH [of "xs @ [y]"] Cons.prems show ?thesis
      unfolding up by (auto simp del: length_append upt_Suc simp: extract_Cons_code split: option.splits)
  qed
qed

text \<open>The result of \<open>Read\<close> for what \<open>spec_read\<close> says.\<close>

definition read_result :: "byte list option \<Rightarrow> derive_error + byte list" where
  "read_result r = (case r of None \<Rightarrow> Inl IoEOF | Some data \<Rightarrow> Inr data)"

lemma Read_rep:
  assumes "rep cs cb"
  shows "\<exists>cb'. Read spec origin cb = Inr (read_result (fst (spec_read spec origin cs)), cb') \<and>
    rep (snd (spec_read spec origin cs)) cb'"
proof (cases cs)
  case Nil
  with assms show ?thesis by (auto simp: Read_def rep_def spec_read_def read_result_def)
next
  case (Cons c rest)
  have q: "channelQueue cb = ch_id c # map ch_id rest" using assms Cons by (simp add: rep_def)
  have m: "map_of (channels cb) (ch_id c) = Some c" using rep_lookup [OF assms] Cons by simp
  have len: "length (channelQueue cb) = length cs" using assms by (simp add: rep_def)
  consider (late) "channel_timed_out spec origin c"
    | (bedrock) "\<not> channel_timed_out spec origin c" "\<not> IsCanyon (config spec) (l1_Time origin)"
    | (canyon) "\<not> channel_timed_out spec origin c" "IsCanyon (config spec) (l1_Time origin)" by blast
  then show ?thesis
  proof cases
    case late
    with rep_remove [of "[]" c rest cb] assms Cons q m show ?thesis
      by (auto simp: Read_def spec_read_def read_result_def)
  next
    case bedrock
    with tryRead_rep [of "[]" c rest cb spec origin] assms Cons q m show ?thesis
      by (cases "readable spec origin c")
         (auto simp: Read_def spec_read_def read_result_def extract_Cons_code extract_Nil_code)
  next
    case canyon
    then have r: "Read spec origin cb = read_loop spec origin [0..<length cs] cb"
      using q m Cons by (simp add: Read_def del: upt_Suc)
    note loop = read_loop_rep [of "[]" cs cb spec origin, simplified, OF assms]
    show ?thesis
    proof (cases "List.extract (readable spec origin) cs")
      case None
      with canyon loop Cons assms r show ?thesis
        by (simp add: spec_read_def read_result_def)
    next
      case (Some t)
      obtain b ch a where t: "t = (b, ch, a)" by (cases t)
      then have cs: "cs = b @ ch # a" using Some by (simp add: extract_Some_iff)
      obtain data cb' where "Reader ch = Inr data" "Read spec origin cb = Inr (Inr data, cb')"
        "rep (b @ a) cb'"
        using loop Some t r by auto
      moreover have "drop (length b + 1) cs = a" by (simp add: cs)
      then have "spec_read spec origin cs = (Some data, b @ a)"
        using canyon Cons Some t calculation(1) by (simp add: spec_read_def)
      ultimately show ?thesis by (simp add: read_result_def)
    qed
  qed
qed

section \<open>Runs of the bank\<close>

definition spec_next ::
  "ChainSpec \<Rightarrow> ('p, Frame) puller \<Rightarrow> ('p \<Rightarrow> L1BlockRef) \<Rightarrow> Channel list \<times> 'p \<Rightarrow>
     (derive_error + byte list) \<times> Channel list \<times> 'p" where
  "spec_next spec nextFrame prevOrigin s =
     (case s of (cs, p) \<Rightarrow>
      case spec_read spec (prevOrigin p) cs of
        (Some data, cs1) \<Rightarrow> (Inr data, cs1, p)
      | (None, cs1) \<Rightarrow>
         (case nextFrame p of
            (Inl err, p') \<Rightarrow> (Inl err, cs1, p')
          | (Inr f, p') \<Rightarrow> (Inl NotEnoughData, spec_ingest spec (prevOrigin p') f cs1, p')))"

lemma NextRawChannel_rep:
  assumes "rep cs cb"
  shows "\<exists>r cs' cb' p'. spec_next spec nextFrame prevOrigin (cs, p) = (r, cs', p') \<and>
    NextRawChannel spec nextFrame prevOrigin (cb, p) = Inr (r, cb', p') \<and> rep cs' cb'"
proof -
  obtain d cs1 where sr: "spec_read spec (prevOrigin p) cs = (d, cs1)" by (cases "spec_read spec (prevOrigin p) cs")
  obtain cb1 where r: "Read spec (prevOrigin p) cb = Inr (read_result d, cb1)" and rep1: "rep cs1 cb1"
    using Read_rep [OF assms, of spec "prevOrigin p"] by (auto simp: sr)
  show ?thesis
  proof (cases d)
    case (Some data)
    with r rep1 sr show ?thesis by (simp add: NextRawChannel_def spec_next_def read_result_def)
  next
    case None
    obtain x p' where n: "nextFrame p = (x, p')" by (cases "nextFrame p")
    show ?thesis
    proof (cases x)
      case (Inl e)
      with None n r rep1 sr show ?thesis by (simp add: NextRawChannel_def spec_next_def read_result_def)
    next
      case (Inr f)
      with None n r sr IngestFrame_rep [OF rep1, of spec "prevOrigin p'" f] show ?thesis
        by (auto simp: NextRawChannel_def spec_next_def read_result_def)
    qed
  qed
qed

lemma rep_NewChannelBank: "rep [] NewChannelBank" "rep [] (snd (cb_Reset cb))"
  by (simp_all add: rep_def NewChannelBank_def cb_Reset_def)

text \<open>The pipeline drives the bank by pulling from it and by resetting it.\<close>

datatype bank_op = PullChannel | ResetBank

fun bank_step ::
  "ChainSpec \<Rightarrow> ('p, Frame) puller \<Rightarrow> ('p \<Rightarrow> L1BlockRef) \<Rightarrow> bank_op \<Rightarrow>
     bank_panic + ChannelBank \<times> 'p \<Rightarrow> bank_panic + ChannelBank \<times> 'p" where
  "bank_step spec nextFrame prevOrigin x (Inl pc) = Inl pc"
| "bank_step spec nextFrame prevOrigin PullChannel (Inr s) =
     (case NextRawChannel spec nextFrame prevOrigin s of Inl pc \<Rightarrow> Inl pc | Inr (r, s') \<Rightarrow> Inr s')"
| "bank_step spec nextFrame prevOrigin ResetBank (Inr s) = Inr (snd (cb_Reset (fst s)), snd s)"

definition bank_ok :: "bank_panic + ChannelBank \<times> 'p \<Rightarrow> bool" where
  "bank_ok s \<longleftrightarrow> (\<exists>cs cb p. s = Inr (cb, p) \<and> rep cs cb)"

interpretation bank_run: transition_system "bank_step spec nextFrame prevOrigin" bank_ok
  for spec nextFrame prevOrigin
proof
  fix s :: "bank_panic + ChannelBank \<times> 'a" and x
  assume "bank_ok s"
  then obtain cs cb p where s: "s = Inr (cb, p)" "rep cs cb" by (auto simp: bank_ok_def)
  show "bank_ok (bank_step spec nextFrame prevOrigin x s)"
  proof (cases x)
    case PullChannel
    with NextRawChannel_rep [OF s(2), of spec nextFrame prevOrigin p] s(1) show ?thesis
      by (auto simp: bank_ok_def)
  next
    case ResetBank
    with rep_NewChannelBank(2) s(1) show ?thesis by (auto simp: bank_ok_def)
  qed
qed

lemma spec_prune_drop:
  "\<exists>n \<le> length cs. spec_prune mx cs = drop n cs \<and> sum_list (map ch_size (drop n cs)) \<le> mx \<and>
     (\<forall>k < n. mx < sum_list (map ch_size (drop k cs)))"
proof (induction cs)
  case Nil
  show ?case by simp
next
  case (Cons c cs)
  then obtain n where n: "n \<le> length cs" "spec_prune mx cs = drop n cs"
    "sum_list (map ch_size (drop n cs)) \<le> mx" "\<forall>k < n. mx < sum_list (map ch_size (drop k cs))"
    by blast
  show ?case
  proof (cases "mx < sum_list (map ch_size (c # cs))")
    case True
    then have "\<forall>k < Suc n. mx < sum_list (map ch_size (drop k (c # cs)))"
      using n(4) by (auto simp: less_Suc_eq_0_disj)
    with n True show ?thesis by (intro exI [of _ "Suc n"]) simp
  next
    case False
    then show ?thesis by (intro exI [of _ 0]) (auto simp: not_less)
  qed
qed

section \<open>Properties\<close>

text \<open>C22: the bank refines a list of channels in the order of creation: from a map and a queue
  that describe the list, \<open>NextRawChannel\<close> returns what the specification returns on the list, and
  leaves a map and a queue that describe the new list. In particular it does not panic.\<close>

theorem NextRawChannel_refines:
  assumes "rep cs cb"
  shows "\<exists>r cs' cb' p'. spec_next spec nextFrame prevOrigin (cs, p) = (r, cs', p') \<and>
    NextRawChannel spec nextFrame prevOrigin (cb, p) = Inr (r, cb', p') \<and> rep cs' cb'"
  using assms by (rule NextRawChannel_rep)

theorem NextRawChannel_refines_witness:
  "\<exists>cb' p'. NextRawChannel (NewChainSpec sample_aligned)
       (\<lambda>p. (Inr (sample_frames ! p), Suc p)) (\<lambda>_. zero_L1BlockRef) (NewChannelBank, 0)
     = Inr (Inl NotEnoughData, cb', p') \<and>
     rep (spec_ingest (NewChainSpec sample_aligned) zero_L1BlockRef (sample_frames ! 0) []) cb'"
  using NextRawChannel_refines [OF rep_NewChannelBank(1), of "NewChainSpec sample_aligned"
      "\<lambda>p. (Inr (sample_frames ! p), Suc p)" "\<lambda>_. zero_L1BlockRef" 0]
  by (auto simp: spec_next_def spec_read_def)

text \<open>C36: however the pipeline drives a new bank, with any source of frames, no operation panics,
  and the queue holds the identifiers of the channels in the map, each once.\<close>

theorem bank_never_panics:
  "\<exists>cb p'. fold (bank_step spec nextFrame prevOrigin) ops (Inr (NewChannelBank, p)) = Inr (cb, p') \<and>
     distinct (channelQueue cb) \<and> set (channelQueue cb) = fst ` set (channels cb)"
proof -
  have "bank_ok (Inr (NewChannelBank, p))" using rep_NewChannelBank by (auto simp: bank_ok_def)
  from bank_run.run_inv [OF this, of spec nextFrame prevOrigin ops] obtain cs cb p' where
    r: "fold (bank_step spec nextFrame prevOrigin) ops (Inr (NewChannelBank, p)) = Inr (cb, p')" "rep cs cb"
    by (auto simp: bank_ok_def)
  have "i \<in> set (channelQueue cb) \<longleftrightarrow> i \<in> fst ` set (channels cb)" for i
    using rep_None [OF r(2), of i] r(2) by (auto simp: map_of_eq_None_iff rep_def)
  with r show ?thesis by (auto simp: rep_def)
qed

text \<open>Pruning ends, removes the oldest channels and as few as needed, and leaves a bank within
  the limit. The total is the one the code computes, modulo the width of the counter.\<close>

theorem prune_minimal:
  assumes "rep cs cb"
  shows "\<exists>cb' n. cb_prune spec origin cb = Inr cb' \<and> rep (drop n cs) cb' \<and>
    sum_list (map ch_size (drop n cs)) \<le> MaxChannelBankSize spec (l1_Time origin) \<and>
    (\<forall>k < n. MaxChannelBankSize spec (l1_Time origin) < sum_list (map ch_size (drop k cs)))"
  using cb_prune_rep [OF assms, of spec origin]
    spec_prune_drop [of cs "MaxChannelBankSize spec (l1_Time origin)"] by metis

theorem prune_minimal_witness:
  "\<exists>cb'. cb_prune (NewChainSpec sample_aligned) zero_L1BlockRef
       \<lparr>channels = [(2, (NewChannel 2 zero_L1BlockRef False)\<lparr>ch_size := 60000000\<rparr>),
                   (1, (NewChannel 1 zero_L1BlockRef False)\<lparr>ch_size := 70000000\<rparr>)],
        channelQueue = [1, 2]\<rparr> = Inr cb' \<and>
     rep [(NewChannel 2 zero_L1BlockRef False)\<lparr>ch_size := 60000000\<rparr>] cb'"
proof -
  let ?a = "(NewChannel 1 zero_L1BlockRef False)\<lparr>ch_size := 70000000\<rparr>"
  let ?b = "(NewChannel 2 zero_L1BlockRef False)\<lparr>ch_size := 60000000\<rparr>"
  let ?cb = "\<lparr>channels = [(2, ?b), (1, ?a)], channelQueue = [1, 2]\<rparr>"
  have mx: "MaxChannelBankSize (NewChainSpec sample_aligned) (l1_Time zero_L1BlockRef) = 100000000"
    by (simp add: MaxChannelBankSize_def NewChainSpec_def zero_L1BlockRef_def IsFork_active_at
        maxChannelBankSizeBedrock_def)
  have "rep [?a, ?b] ?cb" by (auto simp: rep_def NewChannel_def channel_inv_def)
  from prune_minimal [OF this, of "NewChainSpec sample_aligned" zero_L1BlockRef] obtain cb' n where
    p: "cb_prune (NewChainSpec sample_aligned) zero_L1BlockRef ?cb = Inr cb'" "rep (drop n [?a, ?b]) cb'"
    "sum_list (map ch_size (drop n [?a, ?b])) \<le> 100000000"
    "\<forall>k < n. 100000000 < sum_list (map ch_size (drop k [?a, ?b]))"
    unfolding mx by blast
  have "n \<noteq> 0" using p(3) by (intro notI) simp
  moreover have "\<not> 1 < n" using p(4) by (intro notI) (auto dest!: spec [of _ 1])
  ultimately have "n = 1" by linarith
  with p(1,2) show ?thesis by auto
qed

end
