(* ===== verification/Channel_Assembler.thy ===== *)
theory Channel_Assembler
  imports Channel_Bank
begin

text \<open>
  The channel assembler (\<open>op-node/rollup/derive/channel_assembler.go\<close>), the stage that replaces
  the channel bank with Holocene: it holds at most one channel, whose frames must arrive in
  order. The ingestion loop ends when the frame source reports an error or a channel is complete,
  so it is a partial function whose value \<open>None\<close> stands for a loop that never ends; the theory
  shows when it ends, that the two critical errors cannot occur, and that it computes what a specification on lists of frames computes.
\<close>

section \<open>Definitions\<close>

record ChannelAssembler =
  ca_channel :: "Channel option"

definition NewChannelAssembler :: ChannelAssembler where
  "NewChannelAssembler = \<lparr>ca_channel = None\<rparr>"

definition resetChannel :: "ChannelAssembler \<Rightarrow> ChannelAssembler" where
  "resetChannel ca = ca\<lparr>ca_channel := None\<rparr>"

definition ca_Reset :: "ChannelAssembler \<Rightarrow> derive_error option \<times> ChannelAssembler" where
  "ca_Reset ca = (Some IoEOF, resetChannel ca)"

definition ca_FlushChannel :: "ChannelAssembler \<Rightarrow> ChannelAssembler" where
  "ca_FlushChannel ca = resetChannel ca"

text \<open>The channel is timed out; without a channel the code would dereference a nil pointer.\<close>

definition channelTimedOut :: "ChainSpec \<Rightarrow> L1BlockRef \<Rightarrow> Channel \<Rightarrow> bool" where
  "channelTimedOut spec origin ch \<longleftrightarrow>
     OpenBlockNumber ch + ChannelTimeout spec (l1_Time origin) < l1_Number origin"

text \<open>One turn of the ingestion loop on a frame: whether the loop goes on, and the channel.\<close>

definition ingest_turn ::
  "ChainSpec \<Rightarrow> L1BlockRef \<Rightarrow> u64 \<Rightarrow> Frame \<Rightarrow> Channel option \<Rightarrow> bool \<times> Channel option" where
  "ingest_turn spec origin now frame ch =
     (case (if FrameNumber frame = 0 then Some (NewChannel (ID frame) origin True) else ch) of
        None \<Rightarrow> (True, None)
      | Some c \<Rightarrow>
         (case AddFrame frame origin c of
            Inl err \<Rightarrow> (True, Some c)
          | Inr c' \<Rightarrow>
              if ch_size c' > MaxRLPBytesPerChannel spec now then (True, None)
              else (\<not> IsLast frame, Some c')))"

partial_function (option) ingest_loop ::
  "ChainSpec \<Rightarrow> ('p, Frame) puller \<Rightarrow> ('p \<Rightarrow> L1BlockRef) \<Rightarrow> L1BlockRef \<Rightarrow> Channel option \<Rightarrow> 'p \<Rightarrow>
     (derive_error option \<times> Channel option \<times> 'p) option" where
  [code]: "ingest_loop spec nextFrame prevOrigin origin ch p =
     (case nextFrame p of
        (Inl err, p') \<Rightarrow> Some (Some err, ch, p')
      | (Inr frame, p') \<Rightarrow>
         (case ingest_turn spec origin (l1_Time (prevOrigin p')) frame ch of
            (goes_on, ch') \<Rightarrow>
              if goes_on then ingest_loop spec nextFrame prevOrigin origin ch' p'
              else Some (None, ch', p')))"

text \<open>The head of \<open>NextRawChannel\<close>, which gives up a channel that timed out, and its tail, which
  forwards the channel the loop left behind.\<close>

definition dropTimedOut :: "ChainSpec \<Rightarrow> L1BlockRef \<Rightarrow> ChannelAssembler \<Rightarrow> ChannelAssembler" where
  "dropTimedOut spec origin ca =
     (case ca_channel ca of
        None \<Rightarrow> ca
      | Some c \<Rightarrow> if channelTimedOut spec origin c then resetChannel ca else ca)"

definition forwardChannel ::
  "ChannelAssembler \<Rightarrow> reader_panic + (derive_error + byte list) \<times> ChannelAssembler" where
  "forwardChannel ca =
     (case ca_channel ca of
        None \<Rightarrow> Inr (Inl (NewCriticalError ''unexpected non-ready channel''), ca)
      | Some ch \<Rightarrow>
          if \<not> IsReady ch then Inr (Inl (NewCriticalError ''unexpected non-ready channel''), ca)
          else case Reader ch of Inl pc \<Rightarrow> Inl pc | Inr data \<Rightarrow> Inr (Inr data, resetChannel ca))"

definition ca_NextRawChannel ::
  "ChainSpec \<Rightarrow> ('p, Frame) puller \<Rightarrow> ('p \<Rightarrow> L1BlockRef) \<Rightarrow> ChannelAssembler \<times> 'p \<Rightarrow>
     (reader_panic + (derive_error + byte list) \<times> ChannelAssembler \<times> 'p) option" where
  "ca_NextRawChannel spec nextFrame prevOrigin s =
     (case s of (ca, p) \<Rightarrow>
      let ca0 = dropTimedOut spec (prevOrigin p) ca; origin = prevOrigin p
      in if (case ca_channel ca0 of None \<Rightarrow> False | Some c \<Rightarrow> IsReady c)
         then Some (Inr (Inl (NewCriticalError ''unexpected ready channel''), ca0, p))
         else case ingest_loop spec nextFrame prevOrigin origin (ca_channel ca0) p of
           None \<Rightarrow> None
         | Some (Some err, ch, p') \<Rightarrow> Some (Inr (Inl err, ca0\<lparr>ca_channel := ch\<rparr>, p'))
         | Some (None, ch, p') \<Rightarrow>
            (case forwardChannel (ca0\<lparr>ca_channel := ch\<rparr>) of
               Inl pc \<Rightarrow> Some (Inl pc)
             | Inr (r, ca1) \<Rightarrow> Some (Inr (r, ca1, p'))))"

section \<open>The staging channel\<close>

text \<open>The exact size of a frame, and of the frames buffered in a channel.\<close>

definition frame_bytes :: "Frame \<Rightarrow> nat" where
  "frame_bytes f = length (Data f) + 200"

definition channel_bytes :: "Channel \<Rightarrow> nat" where
  "channel_bytes c = sum_list (map (frame_bytes \<circ> snd) (inputs c))"

definition size_limit :: nat where "size_limit = 100000000"

lemma MaxRLPBytesPerChannel_le: "unat (MaxRLPBytesPerChannel spec t) \<le> size_limit"
  by (simp add: MaxRLPBytesPerChannel_def size_limit_def maxRLPBytesPerChannelFjord_def
      maxRLPBytesPerChannelBedrock_def)

text \<open>A channel in the assembler, open or just completed.\<close>

definition staged :: "Channel \<Rightarrow> bool" where
  "staged c \<longleftrightarrow> in_order_inv c \<and> unat (ch_size c) = channel_bytes c \<and>
     list_all (frame_wf \<circ> snd) (inputs c)"

definition asm_inv :: "Channel option \<Rightarrow> bool" where
  "asm_inv ch \<longleftrightarrow> (case ch of None \<Rightarrow> True
     | Some c \<Rightarrow> staged c \<and> \<not> closed c \<and> channel_bytes c \<le> size_limit)"

lemma asm_inv_simps [simp]:
  "asm_inv None"
  "asm_inv (Some c) \<longleftrightarrow> staged c \<and> \<not> closed c \<and> channel_bytes c \<le> size_limit"
  by (simp_all add: asm_inv_def)

lemma staged_NewChannel [simp]: "staged (NewChannel i ob True)"
  by (simp add: staged_def) (simp add: NewChannel_def channel_bytes_def)

lemma unat_frameSize: "frame_wf f \<Longrightarrow> unat (frameSize f) = frame_bytes f"
  by (simp add: frameSize_def frame_bytes_def frameOverhead_def frame_wf_def MaxFrameLen_def
      unat_word_ariths unat_of_nat)

lemma frame_bytes_le: "frame_wf f \<Longrightarrow> frame_bytes f \<le> 1000200"
  by (simp add: frame_bytes_def frame_wf_def MaxFrameLen_def)

lemma staged_added:
  assumes "staged c" and "channel_bytes c \<le> size_limit" and "accepts c f" and "frame_wf f"
  shows "staged (added c f l1)" and "channel_bytes (added c f l1) = channel_bytes c + frame_bytes f"
proof -
  have io: "in_order_inv c" using assms(1) by (simp add: staged_def)
  have np: "kept f c = inputs c" "\<not> FrameNumber f < highestFrameNumber c"
    using kept_in_order [of c f] io assms(3) by (auto simp: in_order_inv_def)
  show b: "channel_bytes (added c f l1) = channel_bytes c + frame_bytes f"
    by (simp add: channel_bytes_def np)
  have "unat (ch_size (added c f l1)) = unat (ch_size c) + unat (frameSize f)"
    using assms np frame_bytes_le [OF assms(4)]
    by (simp add: added_def staged_def unat_frameSize size_limit_def unat_word_ariths)
  then show "staged (added c f l1)"
    using assms np b io by (auto simp: staged_def unat_frameSize intro: inv_intros)
qed

text \<open>One turn keeps the invariant, or completes the channel.\<close>

lemma ingest_turn_inv:
  assumes "ingest_turn spec origin now f ch = (go, ch')" and "asm_inv ch" and "frame_wf f"
  shows "go \<Longrightarrow> asm_inv ch'"
    and "\<not> go \<Longrightarrow> \<exists>c. ch' = Some c \<and> staged c \<and> closed c \<and>
           channel_bytes c \<le> unat (MaxRLPBytesPerChannel spec now)"
proof -
  let ?ch = "if FrameNumber f = 0 then Some (NewChannel (ID f) origin True) else ch"
  have "\<not> closed (NewChannel (ID f) origin True)" "channel_bytes (NewChannel (ID f) origin True) = 0"
    by (simp_all add: NewChannel_def channel_bytes_def)
  then have inv: "asm_inv ?ch" using assms(2) by simp
  have "(go \<longrightarrow> asm_inv ch') \<and> (\<not> go \<longrightarrow> (\<exists>c. ch' = Some c \<and> staged c \<and> closed c \<and>
           channel_bytes c \<le> unat (MaxRLPBytesPerChannel spec now)))"
  proof (cases ?ch)
    case None
    then show ?thesis using assms(1) by (simp add: ingest_turn_def)
  next
    case (Some c)
    show ?thesis
    proof (cases "accepts c f")
      case False
      then obtain e where "AddFrame f origin c = Inl e" using AddFrame_Inl by blast
      with Some inv assms(1) show ?thesis by (auto simp: ingest_turn_def simp del: if_split_asm)
    next
      case True
      let ?c = "added c f origin"
      have st: "staged ?c" "channel_bytes ?c = channel_bytes c + frame_bytes f"
        using staged_added [of c f origin] inv Some True assms(3) by auto
      then have "unat (ch_size ?c) = channel_bytes ?c" by (simp add: staged_def)
      then have "channel_bytes ?c \<le> unat (MaxRLPBytesPerChannel spec now)"
        if "\<not> ch_size ?c > MaxRLPBytesPerChannel spec now"
        using that by (simp add: word_less_nat_alt)
      moreover have "closed ?c \<longleftrightarrow> IsLast f" using inv Some by simp
      ultimately show ?thesis
        using Some True st(1) assms(1) MaxRLPBytesPerChannel_le [of spec now]
        by (auto simp: ingest_turn_def AddFrame_added split: if_splits)
    qed
  qed
  then show "go \<Longrightarrow> asm_inv ch'"
    and "\<not> go \<Longrightarrow> \<exists>c. ch' = Some c \<and> staged c \<and> closed c \<and>
           channel_bytes c \<le> unat (MaxRLPBytesPerChannel spec now)" by blast+
qed

section \<open>A staged channel is read whole\<close>

lemma staged_frames:
  assumes "staged c" and "closed c"
  shows "IsReady c" and "channel_frames (ch_id c) (map snd (inputs c))"
    and "Reader c = Inr (concat (map Data (map snd (inputs c))))"
    and "channel_bytes c = sum_list (map frame_bytes (map snd (inputs c)))"
proof -
  have io: "in_order_inv c" using assms(1) by (simp add: staged_def)
  note inv = channel_invD [OF io [unfolded in_order_inv_def, THEN conjunct1]]
  show r: "IsReady c" using in_order_ready(1) [OF io] assms(2) by simp
  then have len: "length (inputs c) = unat (endFrameNumber c) + 1"
    by (simp add: IsReady_def split: if_splits)
  have num: "unat (FrameNumber (snd (inputs c ! k))) = k \<and> ID (snd (inputs c ! k)) = ch_id c \<and>
      (IsLast (snd (inputs c ! k)) \<longleftrightarrow> Suc k = length (inputs c))" if "k < length (inputs c)" for k
  proof -
    obtain key f where e: "inputs c ! k = (key, f)" by (cases "inputs c ! k")
    then have mem: "(key, f) \<in> set (inputs c)" using that by (metis nth_mem)
    have "map_of (inputs c) (word_of_nat k) = Some f" using in_order_lookup [OF io that] e by simp
    moreover have "map_of (inputs c) key = Some f" using inv(1) mem by simp
    ultimately have "key = word_of_nat k"
      using inv(1) io that e by (metis (no_types, lifting) add_0 diff_zero fst_conv in_order_inv_def
          length_map length_upt nth_map nth_upt)
    then have "unat (FrameNumber f) = unat (word_of_nat k :: u64)" using inv(2) [OF mem] by (metis unat_frame_key)
    then have fn: "unat (FrameNumber f) = k"
      using that length_in_order [OF io] by simp
    then show ?thesis
      using inv(3,5) [OF mem] assms(2) len e by (auto simp: word_unat_eq_iff)
  qed
  have "length (inputs c) \<le> 65536" using length_in_order [OF io] .
  with num len show "channel_frames (ch_id c) (map snd (inputs c))"
    by (auto simp: channel_frames_def word_unat_eq_iff unat_of_nat)
  show "Reader c = Inr (concat (map Data (map snd (inputs c))))"
    using in_order_ready(2) [OF io assms(2)] by simp
  show "channel_bytes c = sum_list (map frame_bytes (map snd (inputs c)))"
    by (simp add: channel_bytes_def)
qed

section \<open>The stage over a source of frames\<close>

text \<open>What the assembler relies on: frames within \<open>MaxFrameLen\<close>.\<close>

locale frame_source = provider nextFrame pinv frame_wf
  for nextFrame :: "('p, Frame) puller" and pinv :: "'p \<Rightarrow> bool"
begin

lemma ingest_loop_inv:
  assumes "ingest_loop spec nextFrame prevOrigin origin ch p = Some (e, ch', p')"
    and "asm_inv ch" and "pinv p"
  shows "pinv p' \<and> (case e of Some err \<Rightarrow> asm_inv ch' \<and> (\<exists>p0. nextFrame p0 = (Inl err, p'))
    | None \<Rightarrow> \<exists>c. ch' = Some c \<and> staged c \<and> closed c \<and>
        channel_bytes c \<le> unat (MaxRLPBytesPerChannel spec (l1_Time (prevOrigin p'))))"
proof -
  define post where "post sp po y \<longleftrightarrow> (case y of (e, ch', p') \<Rightarrow> pinv p' \<and>
    (case e of Some err \<Rightarrow> asm_inv ch' \<and> (\<exists>p0. nextFrame p0 = (Inl err, p'))
    | None \<Rightarrow> \<exists>c. ch' = Some c \<and> staged c \<and> closed c \<and>
        channel_bytes c \<le> unat (MaxRLPBytesPerChannel sp (l1_Time (po p')))))"
    for sp and po :: "'p \<Rightarrow> L1BlockRef" and y
  have "nextFrame = nextFrame \<longrightarrow> asm_inv ch \<longrightarrow> pinv p \<longrightarrow> post spec prevOrigin (e, ch', p')"
  proof (rule ingest_loop.raw_induct [where P = "\<lambda>sp nf po o' ch p y.
      nf = nextFrame \<longrightarrow> asm_inv ch \<longrightarrow> pinv p \<longrightarrow> post sp po y", OF _ assms(1)], intro impI)
    fix lp sp nf po o' ch p y
    assume IH: "\<And>sp nf po o' ch p y. lp sp nf po o' ch p = Some y \<Longrightarrow>
        nf = nextFrame \<longrightarrow> asm_inv ch \<longrightarrow> pinv p \<longrightarrow> post sp po y"
      and eq: "(case nf p of (Inl err, p') \<Rightarrow> Some (Some err, ch, p')
        | (Inr frame, p') \<Rightarrow>
            case ingest_turn sp o' (l1_Time (po p')) frame ch of
              (goes_on, ch') \<Rightarrow> if goes_on then lp sp nf po o' ch' p' else Some (None, ch', p')) = Some y"
      and inv: "nf = nextFrame" "asm_inv ch" "pinv p"
    obtain x p1 where n: "nextFrame p = (x, p1)" by (cases "nextFrame p")
    have p1: "pinv p1" using pull_inv [OF inv(3) n] .
    show "post sp po y"
    proof (cases x)
      case (Inl err)
      with eq inv n p1 show ?thesis by (auto simp: post_def)
    next
      case (Inr f)
      obtain go ch1 where t: "ingest_turn sp o' (l1_Time (po p1)) f ch = (go, ch1)"
        by (cases "ingest_turn sp o' (l1_Time (po p1)) f ch")
      have wf: "frame_wf f" using pull_good inv(3) n Inr by blast
      show ?thesis
      proof (cases go)
        case True
        with eq inv n Inr t have "lp sp nextFrame po o' ch1 p1 = Some y" by simp
        from IH [OF this] True ingest_turn_inv(1) [OF t inv(2) wf] p1 show ?thesis by simp
      next
        case False
        with eq inv n Inr t ingest_turn_inv(2) [OF t inv(2) wf] p1 show ?thesis
          by (auto simp: post_def)
      qed
    qed
  qed
  with assms(2,3) show ?thesis by (simp add: post_def)
qed

text \<open>A call that returns: no critical error of the stage, no panic of the reader; the data it
  returns is a complete channel.\<close>

lemma NextRawChannel_returns:
  assumes "ca_NextRawChannel spec nextFrame prevOrigin (ca, p) = Some r"
    and "asm_inv (ca_channel ca)" and "pinv p"
  shows "\<exists>x ca' p'. r = Inr (x, ca', p') \<and> asm_inv (ca_channel ca') \<and> pinv p' \<and>
    (case x of Inl err \<Rightarrow> \<exists>p0. nextFrame p0 = (Inl err, p')
     | Inr data \<Rightarrow> ca_channel ca' = None \<and>
         (\<exists>i fs. channel_frames i fs \<and> list_all frame_wf fs \<and> data = concat (map Data fs) \<and>
            sum_list (map frame_bytes fs)
              \<le> unat (MaxRLPBytesPerChannel spec (l1_Time (prevOrigin p')))))"
proof -
  define ca0 where "ca0 = dropTimedOut spec (prevOrigin p) ca"
  have inv0: "asm_inv (ca_channel ca0)"
    using assms(2) by (auto simp: ca0_def dropTimedOut_def resetChannel_def split: option.splits)
  then have "\<not> (case ca_channel ca0 of None \<Rightarrow> False | Some c \<Rightarrow> IsReady c)"
    by (auto simp: IsReady_def split: option.splits)
  then have eq: "Some r = (case ingest_loop spec nextFrame prevOrigin (prevOrigin p) (ca_channel ca0) p of
       None \<Rightarrow> None
     | Some (Some err, ch, p') \<Rightarrow> Some (Inr (Inl err, ca0\<lparr>ca_channel := ch\<rparr>, p'))
     | Some (None, ch, p') \<Rightarrow>
        (case forwardChannel (ca0\<lparr>ca_channel := ch\<rparr>) of
           Inl pc \<Rightarrow> Some (Inl pc) | Inr (r, ca1) \<Rightarrow> Some (Inr (r, ca1, p'))))"
    using assms(1) unfolding ca_NextRawChannel_def ca0_def Let_def by simp
  then obtain e ch p' where l:
    "ingest_loop spec nextFrame prevOrigin (prevOrigin p) (ca_channel ca0) p = Some (e, ch, p')"
    by (auto split: option.splits)
  note li = ingest_loop_inv [OF l inv0 assms(3)]
  show ?thesis
  proof (cases e)
    case (Some err)
    with eq l li show ?thesis by auto
  next
    case None
    with li obtain c where c: "ch = Some c" "staged c" "closed c"
      "channel_bytes c \<le> unat (MaxRLPBytesPerChannel spec (l1_Time (prevOrigin p')))" and "pinv p'" by auto
    note sf = staged_frames [OF c(2,3)]
    have r: "r = Inr (Inr (concat (map Data (map snd (inputs c)))),
        resetChannel (ca0\<lparr>ca_channel := Some c\<rparr>), p')"
      using eq l None c(1) sf(1,3) by (simp add: forwardChannel_def)
    have "list_all frame_wf (map snd (inputs c))" using c(2) by (simp add: staged_def list_all_iff)
    then have "\<exists>i fs. channel_frames i fs \<and> list_all frame_wf fs \<and>
        concat (map Data (map snd (inputs c))) = concat (map Data fs) \<and>
        sum_list (map frame_bytes fs) \<le> unat (MaxRLPBytesPerChannel spec (l1_Time (prevOrigin p')))"
      using sf(2,4) c(4) by (intro exI [of _ "ch_id c"] exI [of _ "map snd (inputs c)"]) simp
    with r \<open>pinv p'\<close> show ?thesis by (simp add: resetChannel_def)
  qed
qed

end

text \<open>A source that runs dry: successful pulls descend along a well-founded relation.\<close>

locale ending_source = frame_source +
  fixes R :: "('a \<times> 'a) set"
  assumes wf_R: "wf R"
    and pull_descends: "pinv p \<Longrightarrow> nextFrame p = (Inr f, p') \<Longrightarrow> (p', p) \<in> R"
begin

lemma ingest_loop_ends: "pinv p \<Longrightarrow> ingest_loop spec nextFrame prevOrigin origin ch p \<noteq> None"
proof (induction p arbitrary: ch rule: wf_induct_rule [OF wf_R])
  case (1 p)
  show ?case
  proof (cases "nextFrame p")
    case (Pair x p1)
    then show ?thesis
      using "1.IH" [of p1] pull_descends [OF "1.prems"] pull_inv [OF "1.prems"]
      by (subst ingest_loop.simps) (auto split: sum.splits prod.splits)
  qed
qed

lemma NextRawChannel_ends:
  assumes "pinv p"
  shows "ca_NextRawChannel spec nextFrame prevOrigin (ca, p) \<noteq> None"
proof -
  obtain e ch p' where "ingest_loop spec nextFrame prevOrigin (prevOrigin p)
      (ca_channel (dropTimedOut spec (prevOrigin p) ca)) p = Some (e, ch, p')"
    using ingest_loop_ends [OF assms] by (metis option.exhaust prod_cases3)
  then show ?thesis
    by (simp add: ca_NextRawChannel_def Let_def split: option.splits sum.splits prod.splits)
qed

end

section \<open>A complete channel is forwarded\<close>

text \<open>The source hands out the frames \<open>fs\<close> one after the other.\<close>

fun supplies :: "('p, Frame) puller \<Rightarrow> 'p \<Rightarrow> Frame list \<Rightarrow> 'p \<Rightarrow> bool" where
  "supplies nextFrame p [] p' \<longleftrightarrow> p = p'"
| "supplies nextFrame p (f # fs) p' \<longleftrightarrow>
     fst (nextFrame p) = Inr f \<and> supplies nextFrame (snd (nextFrame p)) fs p'"

lemma accepts_next:
  assumes "in_order_inv c" and "\<not> closed c" and "ID f = ch_id c"
    and "unat (FrameNumber f) = length (inputs c)"
  shows "accepts c f"
proof -
  have "length (inputs c) < 65536" using assms(4) unat_u16_less [of "FrameNumber f"] by simp
  then have "k \<noteq> frame_key f" if "k \<in> fst ` set (inputs c)" for k
  proof -
    have "k \<in> set (map word_of_nat [0..<length (inputs c)])"
      using that assms(1) by (simp add: in_order_inv_def flip: set_map)
    then obtain n where "n < length (inputs c)" "k = word_of_nat n" by auto
    then have "unat k = n" using \<open>length (inputs c) < 65536\<close> by simp
    with \<open>n < length (inputs c)\<close> assms(4) show ?thesis by auto
  qed
  then have "map_of (inputs c) (frame_key f) = None" by (auto simp: map_of_eq_None_iff)
  with assms show ?thesis by (simp add: accepts_def in_order_inv_def)
qed

lemma ingest_turn_next:
  assumes "staged c" and "\<not> closed c" and "ID f = ch_id c" and "frame_wf f"
    and "unat (FrameNumber f) = length (inputs c)"
    and "channel_bytes c + frame_bytes f \<le> unat (MaxRLPBytesPerChannel spec now)"
    and "(if FrameNumber f = 0 then Some (NewChannel (ID f) origin True) else ch) = Some c"
  shows "ingest_turn spec origin now f ch = (\<not> IsLast f, Some (added c f origin))"
    and "staged (added c f origin)"
proof -
  have a: "accepts c f" using assms by (intro accepts_next) (auto simp: staged_def)
  have le: "channel_bytes c \<le> size_limit" using assms(6) MaxRLPBytesPerChannel_le [of spec now] by simp
  show st: "staged (added c f origin)" using staged_added [OF assms(1) le a assms(4)] by simp
  then have "unat (ch_size (added c f origin)) = channel_bytes c + frame_bytes f"
    using staged_added(2) [OF assms(1) le a assms(4)] by (simp add: staged_def)
  with assms(6) show "ingest_turn spec origin now f ch = (\<not> IsLast f, Some (added c f origin))"
    using assms(7) a by (auto simp: ingest_turn_def AddFrame_added word_less_nat_alt)
qed

lemma in_order_kept: "staged c \<Longrightarrow> accepts c f \<Longrightarrow> kept f c = inputs c"
  using kept_in_order(1) by (auto simp: staged_def in_order_inv_def)

lemma channel_frames_at:
  assumes "channel_frames i (pre @ f # post)"
  shows "ID f = i" and "unat (FrameNumber f) = length pre" and "IsLast f \<longleftrightarrow> post = []"
proof -
  let ?fs = "pre @ f # post"
  have "\<forall>k < length ?fs. ID (?fs ! k) = i \<and> FrameNumber (?fs ! k) = word_of_nat k \<and>
      (IsLast (?fs ! k) \<longleftrightarrow> Suc k = length ?fs)" and len: "length pre < 65536"
    using assms by (auto simp: channel_frames_def)
  from spec [OF this(1), of "length pre"] show "ID f = i" "unat (FrameNumber f) = length pre"
    "IsLast f \<longleftrightarrow> post = []"
    using len by (auto simp: unat_of_nat)
qed

lemma ingest_complete:
  assumes "channel_frames i (pre @ post)" and "list_all frame_wf (pre @ post)"
    and "\<And>q. sum_list (map frame_bytes (pre @ post)) \<le> unat (MaxRLPBytesPerChannel spec (l1_Time (prevOrigin q)))"
  shows "post \<noteq> [] \<Longrightarrow> supplies nextFrame p post p' \<Longrightarrow>
      staged c \<Longrightarrow> \<not> closed c \<Longrightarrow> ch_id c = i \<Longrightarrow> map snd (inputs c) = pre \<Longrightarrow>
      (if pre = [] then c = NewChannel i origin True else ch = Some c) \<Longrightarrow>
      \<exists>c'. ingest_loop spec nextFrame prevOrigin origin ch p = Some (None, Some c', p') \<and>
        staged c' \<and> closed c' \<and> map snd (inputs c') = pre @ post"
  using assms
proof (induction post arbitrary: pre p c ch)
  case (Cons f post)
  obtain p1 where n: "nextFrame p = (Inr f, p1)" "supplies nextFrame p1 post p'"
    using Cons.prems(2) by (cases "nextFrame p") auto
  note f = channel_frames_at [OF Cons.prems(8)]
  have len: "length (inputs c) = length pre" using Cons.prems(6) by (metis length_map)
  have un: "unat (FrameNumber f) = length (inputs c)" using f(2) by (simp add: len)
  have zero: "FrameNumber f = 0 \<longleftrightarrow> pre = []" using un len by (metis length_0_conv unat_eq_zero)
  have bytes: "channel_bytes c + frame_bytes f
      \<le> unat (MaxRLPBytesPerChannel spec (l1_Time (prevOrigin p1)))"
  proof -
    have "channel_bytes c = sum_list (map frame_bytes pre)"
      using Cons.prems(6) by (auto simp: channel_bytes_def)
    then have "channel_bytes c + frame_bytes f \<le> sum_list (map frame_bytes (pre @ f # post))" by simp
    with Cons.prems(10) show ?thesis by (rule order.trans [rotated])
  qed
  have wf: "frame_wf f" using Cons.prems(9) by simp
  have new: "(if FrameNumber f = 0 then Some (NewChannel (ID f) origin True) else ch) = Some c"
    using Cons.prems(7) zero f(1) by (auto split: if_splits)
  have id: "ID f = ch_id c" using f(1) Cons.prems(5) by simp
  note t = ingest_turn_next [OF Cons.prems(3,4) id wf un bytes new]
  have acc: "accepts c f"
    using Cons.prems(3,4) id un by (intro accepts_next) (auto simp: staged_def)
  have ins: "map snd (inputs (added c f origin)) = pre @ [f]"
    using Cons.prems(6) by (simp add: in_order_kept [OF Cons.prems(3) acc])
  have step: "ingest_loop spec nextFrame prevOrigin origin ch p =
      (if \<not> IsLast f then ingest_loop spec nextFrame prevOrigin origin (Some (added c f origin)) p1
       else Some (None, Some (added c f origin), p1))"
    by (subst ingest_loop.simps) (simp add: n t(1))
  show ?case
  proof (cases "post = []")
    case True
    with step n(2) f(3) t(2) ins show ?thesis by simp
  next
    case False
    have "\<exists>c'. ingest_loop spec nextFrame prevOrigin origin (Some (added c f origin)) p1
        = Some (None, Some c', p') \<and> staged c' \<and> closed c' \<and> map snd (inputs c') = (pre @ [f]) @ post"
      by (rule Cons.IH) (use False n(2) t(2) f(3) ins Cons.prems in auto)
    with step f(3) False show ?thesis by simp
  qed
qed simp

lemma NextRawChannel_complete:
  assumes "channel_frames i cs" and "list_all frame_wf cs" and "supplies nextFrame p cs p'"
    and "asm_inv (ca_channel ca)"
    and "\<And>q. sum_list (map frame_bytes cs) \<le> unat (MaxRLPBytesPerChannel spec (l1_Time (prevOrigin q)))"
  shows "\<exists>ca'. ca_NextRawChannel spec nextFrame prevOrigin (ca, p)
      = Some (Inr (Inr (concat (map Data cs)), ca', p')) \<and> ca_channel ca' = None"
proof -
  define ca0 where "ca0 = dropTimedOut spec (prevOrigin p) ca"
  have "asm_inv (ca_channel ca0)"
    using assms(4) by (auto simp: ca0_def dropTimedOut_def resetChannel_def split: option.splits)
  then have nr: "\<not> (case ca_channel ca0 of None \<Rightarrow> False | Some c \<Rightarrow> IsReady c)"
    by (auto simp: IsReady_def split: option.splits)
  let ?new = "NewChannel i (prevOrigin p) True"
  have "cs \<noteq> []" using assms(1) by (simp add: channel_frames_def)
  moreover have "\<not> closed ?new" "ch_id ?new = i" "inputs ?new = []" by (simp_all add: NewChannel_def)
  ultimately obtain c where c: "staged c" "closed c" "map snd (inputs c) = cs"
    "ingest_loop spec nextFrame prevOrigin (prevOrigin p) (ca_channel ca0) p = Some (None, Some c, p')"
    using ingest_complete [of i "[]" cs spec prevOrigin nextFrame p p' ?new "prevOrigin p" "ca_channel ca0"]
      assms(1,2,3,5) by auto
  note sf = staged_frames [OF c(1,2), unfolded c(3)]
  from nr c(4) sf(1,3) show ?thesis
    by (simp add: ca_NextRawChannel_def ca0_def Let_def forwardChannel_def resetChannel_def)
qed

interpretation queue_source:
  frame_source "NextFrame cfg NextData Origin" "\<lambda>(fq, p). list_all frame_wf (fq_frames fq)"
  for cfg NextData Origin
  by (rule frame_source.intro) (rule frame_queue.provider_axioms)

section \<open>The assembler on lists of frames\<close>

text \<open>The frames pulled from the previous stage one after the other, each with the origin of that stage after the pull.\<close>

fun pull_frames :: "('p, Frame) puller \<Rightarrow> ('p \<Rightarrow> L1BlockRef) \<Rightarrow> 'p \<Rightarrow> (Frame \<times> L1BlockRef) list \<Rightarrow> 'p \<Rightarrow> bool" where
  "pull_frames nextFrame prevOrigin p [] p' \<longleftrightarrow> p' = p"
| "pull_frames nextFrame prevOrigin p ((f, o') # fs) p' \<longleftrightarrow>
     (\<exists>q. nextFrame p = (Inr f, q) \<and> o' = prevOrigin q \<and> pull_frames nextFrame prevOrigin q fs p')"

text \<open>The abstract assembler: the identifier and the frames of the open channel. Frame 0 opens a channel, the next frame of the open channel extends it, any other frame is
  dropped, and a channel that becomes too large is given up.\<close>

type_synonym open_channel = "(ChannelID \<times> Frame list) option"

definition assemble :: "ChainSpec \<Rightarrow> open_channel \<Rightarrow> Frame \<times> L1BlockRef \<Rightarrow> open_channel" where
  "assemble spec st = (\<lambda>(f, origin).
     case (if FrameNumber f = 0 then Some (ID f, []) else st) of
       None \<Rightarrow> None
     | Some (i, fs) \<Rightarrow>
         if ID f = i \<and> unat (FrameNumber f) = length fs
         then if sum_list (map frame_bytes (fs @ [f])) \<le> unat (MaxRLPBytesPerChannel spec (l1_Time origin)) then Some (i, fs @ [f]) else None
         else Some (i, fs))"

definition has_last :: "open_channel \<Rightarrow> bool" where
  "has_last st \<longleftrightarrow> (case st of None \<Rightarrow> False | Some (i, fs) \<Rightarrow> \<exists>f\<in>set fs. IsLast f)"

definition abs_channel :: "Channel option \<Rightarrow> open_channel" where
  "abs_channel ch = map_option (\<lambda>c. (ch_id c, map snd (inputs c))) ch"

lemma abs_channel_simps [simp]: "abs_channel None = None" "abs_channel (Some c) = Some (ch_id c, map snd (inputs c))"
  by (simp_all add: abs_channel_def)

lemma not_complete_open:
  assumes "asm_inv ch"
  shows "\<not> has_last (abs_channel ch)"
proof (cases ch)
  case (Some c)
  then have "\<not> closed c" "channel_inv c" using assms by (simp_all add: staged_def in_order_inv_def)
  then show ?thesis using Some channel_invD(5) by (fastforce simp: has_last_def)
qed (simp add: has_last_def)

lemma ingest_turn_abs:
  assumes "ingest_turn spec origin (l1_Time o') f ch = (go, ch')" and "asm_inv ch" and "frame_wf f"
  shows "abs_channel ch' = assemble spec (abs_channel ch) (f, o')"
proof -
  let ?ch = "if FrameNumber f = 0 then Some (NewChannel (ID f) origin True) else ch"
  have n: "\<not> closed (NewChannel (ID f) origin True)" "channel_bytes (NewChannel (ID f) origin True) = 0"
    "ch_id (NewChannel (ID f) origin True) = ID f" "inputs (NewChannel (ID f) origin True) = []"
    by (simp_all add: NewChannel_def channel_bytes_def)
  then have inv: "asm_inv ?ch" using assms(2) by simp
  have a: "(if FrameNumber f = 0 then Some (ID f, []) else abs_channel ch) = abs_channel ?ch" using n by simp
  show ?thesis
  proof (cases ?ch)
    case None
    then show ?thesis using assms(1) a by (simp add: ingest_turn_def assemble_def split: if_splits)
  next
    case (Some c)
    have c: "staged c" "\<not> closed c" "channel_bytes c \<le> size_limit" "in_order_inv c" using inv Some by (simp_all add: staged_def)
    have acc: "accepts c f \<longleftrightarrow> ID f = ch_id c \<and> unat (FrameNumber f) = length (inputs c)"
      using accepts_next [OF c(4,2), of f] c(4) by (auto simp: accepts_def in_order_inv_def)
    have ab: "assemble spec (abs_channel ch) (f, o') =
        (if ID f = ch_id c \<and> unat (FrameNumber f) = length (inputs c)
         then if sum_list (map frame_bytes (map snd (inputs c) @ [f])) \<le> unat (MaxRLPBytesPerChannel spec (l1_Time o'))
              then Some (ch_id c, map snd (inputs c) @ [f]) else None
         else Some (ch_id c, map snd (inputs c)))"
      unfolding assemble_def prod.case a Some by simp
    show ?thesis
    proof (cases "accepts c f")
      case False
      then obtain e where "AddFrame f origin c = Inl e" using AddFrame_Inl by blast
      with Some assms(1) have "ch' = Some c" by (auto simp: ingest_turn_def simp del: if_split_asm)
      then show ?thesis using ab False acc by simp
    next
      case True
      let ?c = "added c f origin"
      have k: "kept f c = inputs c" using in_order_kept [OF c(1) True] .
      have st: "staged ?c" "channel_bytes ?c = channel_bytes c + frame_bytes f"
        using staged_added [of c f origin] c True assms(3) by auto
      then have "unat (ch_size ?c) = sum_list (map frame_bytes (map snd (inputs c) @ [f]))"
        by (simp add: staged_def channel_bytes_def k)
      then have "ch_size ?c > MaxRLPBytesPerChannel spec (l1_Time o') \<longleftrightarrow>
          \<not> sum_list (map frame_bytes (map snd (inputs c) @ [f])) \<le> unat (MaxRLPBytesPerChannel spec (l1_Time o'))"
        by (simp add: word_less_nat_alt not_le)
      then have "ch' = (if sum_list (map frame_bytes (map snd (inputs c) @ [f])) \<le> unat (MaxRLPBytesPerChannel spec (l1_Time o')) then Some ?c else None)"
        using Some assms(1) True by (auto simp: ingest_turn_def AddFrame_added split: if_splits)
      then show ?thesis using ab True acc k by simp
    qed
  qed
qed

definition open_at :: "ChainSpec \<Rightarrow> L1BlockRef \<Rightarrow> Channel option \<Rightarrow> open_channel" where
  "open_at spec origin ch =
     (case ch of None \<Rightarrow> None | Some c \<Rightarrow> if channelTimedOut spec origin c then None else Some (ch_id c, map snd (inputs c)))"

text \<open>The loop pulls frames until an error or until the channel is complete.\<close>

definition assembles ::
  "ChainSpec \<Rightarrow> ('p, Frame) puller \<Rightarrow> ('p \<Rightarrow> L1BlockRef) \<Rightarrow> open_channel \<Rightarrow> 'p \<Rightarrow> (Frame \<times> L1BlockRef) list \<Rightarrow> open_channel \<Rightarrow> 'p \<Rightarrow> bool" where
  "assembles spec nextFrame prevOrigin st p frames st' p' \<longleftrightarrow>
     pull_frames nextFrame prevOrigin p frames p' \<and> st' = foldl (assemble spec) st frames \<and>
     (\<forall>k<length frames. \<not> has_last (foldl (assemble spec) st (take k frames)))"

lemma assembles_Nil: "assembles spec nextFrame prevOrigin st p [] st p"
  by (simp add: assembles_def)

lemma assembles_Cons:
  assumes "nextFrame p = (Inr f, q)" and "\<not> has_last st"
    and "assembles spec nextFrame prevOrigin (assemble spec st (f, prevOrigin q)) q frames st' p'"
  shows "assembles spec nextFrame prevOrigin st p ((f, prevOrigin q) # frames) st' p'"
proof -
  have "\<not> has_last (foldl (assemble spec) st (take k ((f, prevOrigin q) # frames)))" if "k < Suc (length frames)" for k
    using that assms(2,3) by (cases k) (auto simp: assembles_def)
  then show ?thesis using assms(1,3) by (simp add: assembles_def)
qed

context frame_source
begin

lemma ingest_loop_assembles:
  assumes "ingest_loop spec nextFrame prevOrigin origin ch p = Some (e, ch', p')"
    and "asm_inv ch" and "pinv p"
  shows "\<exists>frames p1. assembles spec nextFrame prevOrigin (abs_channel ch) p frames (abs_channel ch') p1 \<and>
    (case e of Some err \<Rightarrow> nextFrame p1 = (Inl err, p') | None \<Rightarrow> p1 = p')"
proof -
  define post where "post sp po ch p y \<longleftrightarrow> (case y of (e, ch', p') \<Rightarrow>
    \<exists>frames p1. assembles sp nextFrame po (abs_channel ch) p frames (abs_channel ch') p1 \<and>
      (case e of Some err \<Rightarrow> nextFrame p1 = (Inl err, p') | None \<Rightarrow> p1 = p'))"
    for sp and po :: "'p \<Rightarrow> L1BlockRef" and ch and p and y
  have "nextFrame = nextFrame \<longrightarrow> asm_inv ch \<longrightarrow> pinv p \<longrightarrow> post spec prevOrigin ch p (e, ch', p')"
  proof (rule ingest_loop.raw_induct [where P = "\<lambda>sp nf po o' ch p y.
      nf = nextFrame \<longrightarrow> asm_inv ch \<longrightarrow> pinv p \<longrightarrow> post sp po ch p y", OF _ assms(1)], intro impI)
    fix lp sp nf po o' ch p y
    assume IH: "\<And>sp nf po o' ch p y. lp sp nf po o' ch p = Some y \<Longrightarrow>
        nf = nextFrame \<longrightarrow> asm_inv ch \<longrightarrow> pinv p \<longrightarrow> post sp po ch p y"
      and eq: "(case nf p of (Inl err, p') \<Rightarrow> Some (Some err, ch, p')
        | (Inr frame, p') \<Rightarrow>
            case ingest_turn sp o' (l1_Time (po p')) frame ch of
              (goes_on, ch') \<Rightarrow> if goes_on then lp sp nf po o' ch' p' else Some (None, ch', p')) = Some y"
      and inv: "nf = nextFrame" "asm_inv ch" "pinv p"
    obtain x p1 where n: "nextFrame p = (x, p1)" by (cases "nextFrame p")
    have p1: "pinv p1" using pull_inv [OF inv(3) n] .
    show "post sp po ch p y"
    proof (cases x)
      case (Inl err)
      with eq inv n have "y = (Some err, ch, p1)" by simp
      moreover have "assembles sp nextFrame po (abs_channel ch) p [] (abs_channel ch) p" by (rule assembles_Nil)
      ultimately show ?thesis using n Inl unfolding post_def by auto
    next
      case (Inr f)
      obtain go ch1 where t: "ingest_turn sp o' (l1_Time (po p1)) f ch = (go, ch1)"
        by (cases "ingest_turn sp o' (l1_Time (po p1)) f ch")
      have wf: "frame_wf f" using pull_good inv(3) n Inr by blast
      note ab = ingest_turn_abs [OF t inv(2) wf]
      note co = assembles_Cons [of nextFrame p f p1 "abs_channel ch" sp po, folded ab, OF n [unfolded Inr] not_complete_open [OF inv(2)]]
      obtain e ch' p' where y: "y = (e, ch', p')" by (cases y)
      show ?thesis
      proof (cases go)
        case True
        with eq inv n Inr t have "lp sp nextFrame po o' ch1 p1 = Some y" by simp
        from IH [OF this] ingest_turn_inv(1) [OF t inv(2) wf True] p1 have "post sp po ch1 p1 y" by simp
        then obtain frames q where "assembles sp nextFrame po (abs_channel ch1) p1 frames (abs_channel ch') q"
          "case e of Some err \<Rightarrow> nextFrame q = (Inl err, p') | None \<Rightarrow> q = p'" by (auto simp: post_def y)
        with co show ?thesis unfolding post_def y prod.case by blast
      next
        case False
        with eq inv n Inr t have "y = (None, ch1, p1)" by simp
        moreover have "assembles sp nextFrame po (abs_channel ch) p [(f, po p1)] (abs_channel ch1) p1" using co [OF assembles_Nil] .
        ultimately show ?thesis unfolding post_def by auto
      qed
    qed
  qed
  with assms(2,3) show ?thesis by (simp add: post_def)
qed

text \<open>A call that returns has pulled some frames. With an error of the previous stage the open channel is what they make of the open channel before; otherwise
  they complete a channel, which is handed out.\<close>

lemma NextRawChannel_assembles:
  assumes "ca_NextRawChannel spec nextFrame prevOrigin (ca, p) = Some r"
    and "asm_inv (ca_channel ca)" and "pinv p"
  shows "\<exists>x ca' p' frames st p1. r = Inr (x, ca', p') \<and> asm_inv (ca_channel ca') \<and> pinv p' \<and>
    assembles spec nextFrame prevOrigin (open_at spec (prevOrigin p) (ca_channel ca)) p frames st p1 \<and>
    (case x of Inl err \<Rightarrow> nextFrame p1 = (Inl err, p') \<and> abs_channel (ca_channel ca') = st
     | Inr data \<Rightarrow> p1 = p' \<and> ca_channel ca' = None \<and> (\<exists>i fs. st = Some (i, fs) \<and> channel_frames i fs \<and> data = concat (map Data fs)))"
proof -
  define ca0 where "ca0 = dropTimedOut spec (prevOrigin p) ca"
  have inv0: "asm_inv (ca_channel ca0)"
    using assms(2) by (auto simp: ca0_def dropTimedOut_def resetChannel_def split: option.splits)
  have o': "open_at spec (prevOrigin p) (ca_channel ca) = abs_channel (ca_channel ca0)"
    by (simp add: open_at_def ca0_def dropTimedOut_def resetChannel_def split: option.splits)
  have "\<not> (case ca_channel ca0 of None \<Rightarrow> False | Some c \<Rightarrow> IsReady c)"
    using inv0 by (auto simp: IsReady_def split: option.splits)
  then have eq: "Some r = (case ingest_loop spec nextFrame prevOrigin (prevOrigin p) (ca_channel ca0) p of
       None \<Rightarrow> None
     | Some (Some err, ch, p') \<Rightarrow> Some (Inr (Inl err, ca0\<lparr>ca_channel := ch\<rparr>, p'))
     | Some (None, ch, p') \<Rightarrow>
        (case forwardChannel (ca0\<lparr>ca_channel := ch\<rparr>) of
           Inl pc \<Rightarrow> Some (Inl pc) | Inr (r, ca1) \<Rightarrow> Some (Inr (r, ca1, p'))))"
    using assms(1) unfolding ca_NextRawChannel_def ca0_def Let_def by simp
  then obtain e ch p' where l:
    "ingest_loop spec nextFrame prevOrigin (prevOrigin p) (ca_channel ca0) p = Some (e, ch, p')"
    by (auto split: option.splits)
  note li = ingest_loop_inv [OF l inv0 assms(3)]
  obtain frames p1 where f: "assembles spec nextFrame prevOrigin (abs_channel (ca_channel ca0)) p frames (abs_channel ch) p1"
    "case e of Some err \<Rightarrow> nextFrame p1 = (Inl err, p') | None \<Rightarrow> p1 = p'"
    using ingest_loop_assembles [OF l inv0 assms(3)] by blast
  show ?thesis
  proof (cases e)
    case (Some err)
    then have r: "r = Inr (Inl err, ca0\<lparr>ca_channel := ch\<rparr>, p')" using eq l by simp
    show ?thesis
      unfolding r using f li Some
      by (intro exI [of _ "Inl err"] exI [of _ "ca0\<lparr>ca_channel := ch\<rparr>"] exI [of _ p'] exI [of _ frames] exI [of _ "abs_channel ch"] exI [of _ p1])
        (simp add: o')
  next
    case None
    with li obtain c where c: "ch = Some c" "staged c" "closed c" and "pinv p'" by auto
    note sf = staged_frames [OF c(2,3)]
    let ?fs = "map snd (inputs c)" and ?ca = "resetChannel (ca0\<lparr>ca_channel := Some c\<rparr>)"
    have r: "r = Inr (Inr (concat (map Data ?fs)), ?ca, p')" using eq l None c(1) sf(1,3) by (simp add: forwardChannel_def)
    have "ca_channel ?ca = None" by (simp add: resetChannel_def)
    then show ?thesis
      unfolding r using f c(1) None \<open>pinv p'\<close> sf(2)
      by (intro exI [of _ "Inr (concat (map Data ?fs))"] exI [of _ ?ca] exI [of _ p'] exI [of _ frames] exI [of _ "Some (ch_id c, ?fs)"] exI [of _ p1])
        (simp add: o')
  qed
qed

end

section \<open>Properties\<close>

text \<open>C35: The assembler over the frame queue, with any data source, computes what the specification on lists of frames computes. A call that returns has not
  panicked and has not raised one of its two critical errors. It has pulled some frames from the frame queue, and no more after a channel was complete. If the
  queue then gave an error, this error is returned, and the staged frames are what the pulled ones made of the staged ones, where a timed-out channel was
  given up first. Otherwise the last frame pulled completed a channel: what is returned is the data of its frames in order, from number 0 to the frame marked last, and
  the staging channel is empty.\<close>

theorem assembler_forwards_channels:
  assumes "ca_NextRawChannel spec (NextFrame cfg NextData Origin) prevOrigin (ca, fq, p) = Some r"
    and "asm_inv (ca_channel ca)" and "list_all frame_wf (fq_frames fq)"
  shows "\<exists>x ca' s' frames st s1. r = Inr (x, ca', s') \<and> asm_inv (ca_channel ca') \<and> list_all frame_wf (fq_frames (fst s')) \<and>
    assembles spec (NextFrame cfg NextData Origin) prevOrigin (open_at spec (prevOrigin (fq, p)) (ca_channel ca)) (fq, p) frames st s1 \<and>
    (case x of Inl err \<Rightarrow> NextFrame cfg NextData Origin s1 = (Inl err, s') \<and> abs_channel (ca_channel ca') = st
     | Inr data \<Rightarrow> s1 = s' \<and> ca_channel ca' = None \<and> (\<exists>i fs. st = Some (i, fs) \<and> channel_frames i fs \<and> data = concat (map Data fs)))"
  using queue_source.NextRawChannel_assembles [OF assms(1,2)] assms(3) by (simp add: case_prod_unfold)

definition sample_queue :: "FrameQueue \<times> nat" where
  "sample_queue = (\<lparr>fq_frames = sample_frames\<rparr>, 0)"

lemma sample_limit:
  "sum_list (map frame_bytes sample_frames)
     \<le> unat (MaxRLPBytesPerChannel (NewChainSpec sample_aligned) (l1_Time zero_L1BlockRef))"
  by (simp add: MaxRLPBytesPerChannel_def NewChainSpec_def zero_L1BlockRef_def IsFork_active_at
      maxRLPBytesPerChannelBedrock_def sample_frames_def sample_frame_def frame_bytes_def)

lemma sample_wf: "list_all frame_wf sample_frames"
  by (simp add: sample_frames_def sample_frame_def frame_wf_def MaxFrameLen_def)

lemma sample_supplies:
  "supplies (NextFrame sample_aligned sample_NextData (\<lambda>_. zero_L1BlockRef)) sample_queue sample_frames
     (\<lparr>fq_frames = []\<rparr>, 0)"
  by (simp add: sample_queue_def sample_frames_def NextFrame_def)

text \<open>If the source hands out the frames of a complete channel in order and they fit the size
  limit, the call returns their data, whatever the assembler was staging before.\<close>

theorem assembler_complete_channel:
  assumes "channel_frames i cs" and "list_all frame_wf cs" and "supplies nextFrame p cs p'"
    and "asm_inv (ca_channel ca)"
    and "\<And>q. sum_list (map frame_bytes cs) \<le> unat (MaxRLPBytesPerChannel spec (l1_Time (prevOrigin q)))"
  shows "\<exists>ca'. ca_NextRawChannel spec nextFrame prevOrigin (ca, p)
      = Some (Inr (Inr (concat (map Data cs)), ca', p')) \<and> ca_channel ca' = None"
  using assms by (rule NextRawChannel_complete)

theorem assembler_complete_channel_witness:
  "\<exists>ca'. ca_NextRawChannel (NewChainSpec sample_aligned)
       (NextFrame sample_aligned sample_NextData (\<lambda>_. zero_L1BlockRef)) (\<lambda>_. zero_L1BlockRef)
       (NewChannelAssembler, sample_queue)
     = Some (Inr (Inr [1, 2, 3, 4], ca', \<lparr>fq_frames = []\<rparr>, 0)) \<and> ca_channel ca' = None"
  using assembler_complete_channel [OF sample_channel_frames sample_wf sample_supplies,
      of NewChannelAssembler "NewChainSpec sample_aligned" "\<lambda>_. zero_L1BlockRef"] sample_limit
  by (simp add: NewChannelAssembler_def sample_frames_def sample_frame_def)

theorem assembler_forwards_channels_witness:
  "\<exists>x ca' s' frames st s1. ca_NextRawChannel (NewChainSpec sample_aligned)
       (NextFrame sample_aligned sample_NextData (\<lambda>_. zero_L1BlockRef)) (\<lambda>_. zero_L1BlockRef)
       (NewChannelAssembler, sample_queue) = Some (Inr (x, ca', s')) \<and>
     assembles (NewChainSpec sample_aligned) (NextFrame sample_aligned sample_NextData (\<lambda>_. zero_L1BlockRef)) (\<lambda>_. zero_L1BlockRef)
       None sample_queue frames st s1"
proof -
  obtain r where r: "ca_NextRawChannel (NewChainSpec sample_aligned)
       (NextFrame sample_aligned sample_NextData (\<lambda>_. zero_L1BlockRef)) (\<lambda>_. zero_L1BlockRef)
       (NewChannelAssembler, fst sample_queue, snd sample_queue) = Some r"
    using NextRawChannel_complete [OF sample_channel_frames sample_wf sample_supplies,
      of NewChannelAssembler "NewChainSpec sample_aligned" "\<lambda>_. zero_L1BlockRef"] sample_limit
    by (auto simp: NewChannelAssembler_def)
  have "asm_inv (ca_channel NewChannelAssembler)" "list_all frame_wf (fq_frames (fst sample_queue))"
    "open_at (NewChainSpec sample_aligned) zero_L1BlockRef (ca_channel NewChannelAssembler) = None" "(fst sample_queue, snd sample_queue) = sample_queue"
    using sample_wf by (simp_all add: NewChannelAssembler_def sample_queue_def open_at_def)
  with assembler_forwards_channels [OF r this(1,2)] r show ?thesis by auto
qed

end
