(* ===== verification/L1_Stages.thy ===== *)
theory L1_Stages
  imports Data_Source Channel_Assembler
begin

text \<open>
  The first stages of the derivation pipeline (\<open>op-node/rollup/derive/l1_traversal.go\<close>,
  \<open>l1_retrieval.go\<close>): L1 traversal walks the L1 chain block by block, L1 retrieval opens the
  data source of the current block and drains it. The theory shows that the data of a block runs
  out, so that the ingestion loop of the channel assembler ends whatever the network answers.
\<close>

section \<open>Definitions\<close>

subsection \<open>L1 traversal\<close>

record L1Traversal =
  l1t_block :: L1BlockRef
  l1t_done :: bool
  l1t_sysCfg :: SystemConfig

definition NextL1Block :: "L1Traversal \<Rightarrow> (derive_error + L1BlockRef) \<times> L1Traversal" where
  "NextL1Block l1t =
     (if \<not> l1t_done l1t then (Inr (l1t_block l1t), l1t\<lparr>l1t_done := True\<rparr>) else (Inl IoEOF, l1t))"

text \<open>The clients for block references and receipts are parameters, as is the reading of the
  receipts, which updates the system configuration and only logs its errors.\<close>

definition AdvanceL1Block ::
  "(u64 \<Rightarrow> 'n \<Rightarrow> (fetch_error + L1BlockRef) \<times> 'n) \<Rightarrow> (hash \<Rightarrow> 'n \<Rightarrow> (fetch_error + 'r) \<times> 'n) \<Rightarrow>
   (SystemConfig \<Rightarrow> 'r \<Rightarrow> u64 \<Rightarrow> SystemConfig) \<Rightarrow> L1Traversal \<Rightarrow> 'n \<Rightarrow>
     derive_error option \<times> L1Traversal \<times> 'n" where
  "AdvanceL1Block l1BlockRefByNumber fetchReceipts updateSysCfg l1t n =
     (case l1BlockRefByNumber (l1_Number (l1t_block l1t) + 1) n of
        (Inl NotFound, n1) \<Rightarrow> (Some IoEOF, l1t, n1)
      | (Inl FetchFailed, n1) \<Rightarrow>
          (Some (NewTemporaryError ''failed to find L1 block info by number''), l1t, n1)
      | (Inr nextL1Origin, n1) \<Rightarrow>
          if l1_Hash (l1t_block l1t) \<noteq> l1_ParentHash nextL1Origin
          then (Some (NewResetError ''detected L1 reorg''), l1t, n1)
          else case fetchReceipts (l1_Hash nextL1Origin) n1 of
            (Inl e, n2) \<Rightarrow> (Some (NewTemporaryError ''failed to fetch receipts of L1 block''), l1t, n2)
          | (Inr receipts, n2) \<Rightarrow>
              (None, l1t\<lparr>l1t_sysCfg := updateSysCfg (l1t_sysCfg l1t) receipts (l1_Time nextL1Origin),
                         l1t_block := nextL1Origin, l1t_done := False\<rparr>, n2))"

definition l1t_Reset :: "L1BlockRef \<Rightarrow> SystemConfig \<Rightarrow> L1Traversal \<Rightarrow> derive_error option \<times> L1Traversal" where
  "l1t_Reset base cfg l1t =
     (Some IoEOF, l1t\<lparr>l1t_block := base, l1t_done := False, l1t_sysCfg := cfg\<rparr>)"

subsection \<open>L1 retrieval\<close>

text \<open>The stage with the traversal before it, the data source factory and the network.\<close>

record 'n L1Retrieval =
  l1r_datas :: "DataIter option"
  l1r_prev :: L1Traversal
  l1r_dataSrc :: DataSourceFactory
  l1r_net :: 'n

definition l1r_Origin :: "'n L1Retrieval \<Rightarrow> L1BlockRef" where
  "l1r_Origin s = l1t_block (l1r_prev s)"

text \<open>The part of \<open>NextData\<close> that pulls from the open source.\<close>

definition pull_data ::
  "(byte list \<Rightarrow> byte list list option) \<Rightarrow> 'n L1Fetcher \<Rightarrow> DataSourceConfig \<Rightarrow> DataIter \<Rightarrow>
     ('n L1Retrieval, byte list) puller" where
  "pull_data rlpDecode fetcher dsCfg it s =
     (case iter_Next rlpDecode fetcher dsCfg (it, l1r_dataSrc s, l1r_net s) of
        None \<Rightarrow> (Inl (GoPanic ''data source''), s\<lparr>l1r_datas := Some it\<rparr>)
      | Some (Inl err, it', f', n') \<Rightarrow>
          (Inl err, s\<lparr>l1r_datas := (if err = IoEOF then None else Some it'),
                      l1r_dataSrc := f', l1r_net := n'\<rparr>)
      | Some (Inr data, it', f', n') \<Rightarrow>
          (Inr data, s\<lparr>l1r_datas := Some it', l1r_dataSrc := f', l1r_net := n'\<rparr>))"

definition NextData ::
  "(byte list \<Rightarrow> byte list list option) \<Rightarrow> 'n L1Fetcher \<Rightarrow> DataSourceConfig \<Rightarrow>
     ('n L1Retrieval, byte list) puller" where
  "NextData rlpDecode fetcher dsCfg s =
     (case l1r_datas s of
        Some it \<Rightarrow> pull_data rlpDecode fetcher dsCfg it s
      | None \<Rightarrow>
         (case NextL1Block (l1r_prev s) of
            (Inl err, l1t) \<Rightarrow> (Inl err, s\<lparr>l1r_prev := l1t\<rparr>)
          | (Inr next', l1t) \<Rightarrow>
             (case OpenData fetcher dsCfg (l1r_dataSrc s) next' (BatcherAddr (l1t_sysCfg l1t)) (l1r_net s) of
                (Inl e, n') \<Rightarrow> (Inl (OtherError (''failed to open data source: '' @ e)), s\<lparr>l1r_prev := l1t, l1r_net := n'\<rparr>)
              | (Inr it, n') \<Rightarrow>
                  pull_data rlpDecode fetcher dsCfg it (s\<lparr>l1r_prev := l1t, l1r_net := n'\<rparr>))))"

definition l1r_Reset ::
  "'n L1Fetcher \<Rightarrow> DataSourceConfig \<Rightarrow> L1BlockRef \<Rightarrow> SystemConfig \<Rightarrow> 'n L1Retrieval \<Rightarrow>
     derive_error \<times> 'n L1Retrieval" where
  "l1r_Reset fetcher dsCfg base sysCfg s =
     (case OpenData fetcher dsCfg (ds_Reset (l1r_dataSrc s)) base (BatcherAddr sysCfg) (l1r_net s) of
        (Inl e, n') \<Rightarrow> (OtherError (''failed to open data source: '' @ e), s\<lparr>l1r_datas := None, l1r_dataSrc := ds_Reset (l1r_dataSrc s), l1r_net := n'\<rparr>)
      | (Inr it, n') \<Rightarrow>
          (IoEOF, s\<lparr>l1r_datas := Some it, l1r_dataSrc := ds_Reset (l1r_dataSrc s), l1r_net := n'\<rparr>))"

section \<open>The data of a block runs out\<close>

text \<open>How much a source can still hand out: whether it has yet to fetch, and what it holds.\<close>

fun iter_left :: "DataIter \<Rightarrow> nat \<times> nat" where
  "iter_left (CalldataIter ds) = (if cd_open ds then 0 else 1, length (cd_data ds))"
| "iter_left (BlobIter ds) = (case bds_data ds of None \<Rightarrow> (1, 0) | Some xs \<Rightarrow> (0, length xs))"
| "iter_left (MantleBlobIter ds) = (case mds_data ds of None \<Rightarrow> (1, 0) | Some xs \<Rightarrow> (0, length xs))"

definition less_left :: "((nat \<times> nat) \<times> nat \<times> nat) set" where
  "less_left = less_than <*lex*> less_than"

lemma blob_next_data_shorter:
  "blob_next_data ds = Some (Inr x, rest) \<Longrightarrow> length rest < length ds"
  by (induction ds) (auto split: option.splits sum.splits)

lemma iter_Next_left:
  assumes "iter_Next rlpDecode fetcher dsCfg (it, f, n) = Some (Inr data, it', f', n')"
  shows "(iter_left it', iter_left it) \<in> less_left"
proof (cases it)
  case (CalldataIter ds)
  with assms show ?thesis
    by (auto simp: iter_Next_def calldata_Next_def less_left_def
        split: prod.splits if_splits sum.splits fetch_error.splits list.splits)
next
  case (BlobIter ds)
  with assms show ?thesis
    by (auto simp: iter_Next_def blob_Next_def less_left_def
        split: prod.splits option.splits sum.splits dest: blob_next_data_shorter)
next
  case (MantleBlobIter ds)
  with assms show ?thesis
    by (auto simp: iter_Next_def mantle_Next_def less_left_def
        split: prod.splits option.splits sum.splits list.splits)
qed

text \<open>The stage: a block that has not been opened, then the source that is open.\<close>

definition retrieval_left :: "'n L1Retrieval \<Rightarrow> nat \<times> nat \<times> nat" where
  "retrieval_left s = (if l1t_done (l1r_prev s) then 0 else 1,
     case l1r_datas s of None \<Rightarrow> (0, 0) | Some it \<Rightarrow> iter_left it)"

definition retrieval_order :: "('n L1Retrieval \<times> 'n L1Retrieval) set" where
  "retrieval_order = inv_image (less_than <*lex*> less_left) retrieval_left"

lemma wf_retrieval_order: "wf retrieval_order"
  by (simp add: retrieval_order_def less_left_def wf_inv_image wf_lex_prod)

lemma pull_data_left:
  assumes "pull_data rlpDecode fetcher dsCfg it s = (Inr data, s')"
  shows "\<exists>it'. l1r_datas s' = Some it' \<and> (iter_left it', iter_left it) \<in> less_left \<and> l1r_prev s' = l1r_prev s"
proof -
  from assms obtain it' f' n' where
    i: "iter_Next rlpDecode fetcher dsCfg (it, l1r_dataSrc s, l1r_net s) = Some (Inr data, it', f', n')"
    and "s' = s\<lparr>l1r_datas := Some it', l1r_dataSrc := f', l1r_net := n'\<rparr>"
    by (auto simp: pull_data_def split: option.splits sum.splits)
  with iter_Next_left [OF i] show ?thesis by simp
qed

lemma NextData_descends:
  assumes "NextData rlpDecode fetcher dsCfg s = (Inr data, s')"
  shows "(s', s) \<in> retrieval_order"
proof (cases "l1r_datas s")
  case (Some it)
  with assms pull_data_left [of rlpDecode fetcher dsCfg it s] show ?thesis
    by (auto simp: NextData_def retrieval_order_def retrieval_left_def)
next
  case None
  with assms obtain it n' where d: "\<not> l1t_done (l1r_prev s)"
    "pull_data rlpDecode fetcher dsCfg it
       (s\<lparr>l1r_prev := (l1r_prev s)\<lparr>l1t_done := True\<rparr>, l1r_net := n'\<rparr>) = (Inr data, s')"
    by (auto simp: NextData_def NextL1Block_def split: if_splits prod.splits sum.splits)
  from pull_data_left [OF d(2)] d(1) show ?thesis
    by (auto simp: retrieval_order_def retrieval_left_def)
qed

text \<open>The frame queue on top of it.\<close>

definition queue_order :: "((FrameQueue \<times> 'n L1Retrieval) \<times> FrameQueue \<times> 'n L1Retrieval) set" where
  "queue_order = inv_image (retrieval_order <*lex*> less_than) (\<lambda>(fq, p). (p, length (fq_frames fq)))"

lemma NextFrame_descends:
  assumes "NextFrame cfg (NextData rlpDecode fetcher dsCfg) Origin s = (Inr f, s')"
  shows "(s', s) \<in> queue_order"
proof -
  obtain fq p fq' p' where s: "s = (fq, p)" "s' = (fq', p')" by (metis surj_pair)
  from assms [unfolded s] show ?thesis
  proof (cases rule: NextFrame_cases)
    case (3 f' data frames)
    from NextData_descends [OF 3(3)] show ?thesis by (simp add: queue_order_def s)
  qed (auto simp: queue_order_def s)
qed

interpretation pipeline_source:
  ending_source "NextFrame cfg (NextData rlpDecode fetcher dsCfg) Origin"
    "\<lambda>(fq, p). list_all frame_wf (fq_frames fq)" queue_order
  for cfg rlpDecode fetcher dsCfg Origin
proof unfold_locales
  show "wf queue_order" by (simp add: queue_order_def wf_inv_image wf_lex_prod wf_retrieval_order)
qed (rule NextFrame_descends)

section \<open>Properties\<close>

text \<open>Over the frame queue and L1 retrieval, with any network, the ingestion loop of the channel
  assembler ends: \<open>NextRawChannel\<close> returns for every state of the stages.\<close>

theorem assembler_returns:
  assumes "list_all frame_wf (fq_frames fq)"
  shows "\<exists>r. ca_NextRawChannel spec (NextFrame cfg (NextData rlpDecode fetcher dsCfg) Origin) prevOrigin
    (ca, fq, p) = Some r"
  using pipeline_source.NextRawChannel_ends [of "(fq, p)"] assms by fastforce

theorem assembler_returns_witness:
  "\<exists>r. ca_NextRawChannel (NewChainSpec sample_aligned)
     (NextFrame sample_aligned (NextData sample_rlp sample_fetcher sample_dsCfg) l1r_Origin)
     (\<lambda>(fq, p). l1r_Origin p) (NewChannelAssembler, NewFrameQueue,
       \<lparr>l1r_datas = None, l1r_prev = \<lparr>l1t_block = zero_L1BlockRef, l1t_done = False,
           l1t_sysCfg = gen_SystemConfig (cfg_Genesis sample_config)\<rparr>,
        l1r_dataSrc = NewDataSourceFactory sample_aligned True, l1r_net = ()\<rparr>) = Some r"
  by (rule assembler_returns) (simp add: NewFrameQueue_def)

text \<open>C39: if the data source of a block cannot be opened, L1 retrieval reports an error, and the
  next call reports the end of the data: the traversal has marked the block as handed out before
  the source was opened, so that the block is passed over without having been read.\<close>

theorem OpenData_failure_skips_block:
  assumes "l1r_datas s = None"
    and "OpenData fetcher dsCfg (l1r_dataSrc s) (l1t_block (l1r_prev s))
           (BatcherAddr (l1t_sysCfg (l1r_prev s))) (l1r_net s) = (Inl e, n')"
    and "\<not> l1t_done (l1r_prev s)"
  shows "\<exists>s'. NextData rlpDecode fetcher dsCfg s = (Inl (OtherError (''failed to open data source: '' @ e)), s') \<and>
    NextData rlpDecode fetcher dsCfg s' = (Inl IoEOF, s') \<and> l1r_Origin s' = l1r_Origin s"
  using assms by (auto simp: NextData_def NextL1Block_def l1r_Origin_def)

theorem OpenData_failure_skips_block_witness:
  "\<exists>e s'. NextData sample_rlp sample_fetcher sample_dsCfg
       \<lparr>l1r_datas = None, l1r_prev = \<lparr>l1t_block = zero_L1BlockRef, l1t_done = False,
           l1t_sysCfg = gen_SystemConfig (cfg_Genesis sample_config)\<rparr>,
        l1r_dataSrc = NewDataSourceFactory sample_aligned False, l1r_net = ()\<rparr> = (Inl (OtherError e), s') \<and>
     NextData sample_rlp sample_fetcher sample_dsCfg s' = (Inl IoEOF, s')"
proof -
  let ?s = "\<lparr>l1r_datas = None, l1r_prev = \<lparr>l1t_block = zero_L1BlockRef, l1t_done = False,
           l1t_sysCfg = gen_SystemConfig (cfg_Genesis sample_config)\<rparr>,
        l1r_dataSrc = NewDataSourceFactory sample_aligned False, l1r_net = ()\<rparr>"
  have "MantleEverestTime sample_aligned = Some 0"
    by (simp add: sample_aligned_def sample_config_def AlignOpWithMantle_def Let_def)
  then have "OpenData sample_fetcher sample_dsCfg (l1r_dataSrc ?s) (l1t_block (l1r_prev ?s))
      (BatcherAddr (l1t_sysCfg (l1r_prev ?s))) (l1r_net ?s)
    = (Inl ''mantle everest upgrade active but beacon endpoint not configured'', ())"
    by (simp add: OpenData_def NewDataSourceFactory_def)
  from OpenData_failure_skips_block [OF _ this, of sample_rlp] show ?thesis by auto
qed

end
