(* ===== verification/Channel_In_Reader.thy ===== *)
theory Channel_In_Reader
  imports Batch_Stages Span_Batch L1_Stages Channel_Bank
begin

unbundle bit_operations_syntax

text \<open>
  From channels to batches (\<open>op-node/rollup/derive\<close>: \<open>batch.go\<close>, \<open>channel_mux.go\<close>, \<open>channel_in_reader.go\<close>, \<open>BatchReader\<close> of
  \<open>channel.go\<close>): the typed encoding of batches, the choice between channel bank and channel
  assembler, and the stage that decompresses a channel and decodes its batches. The theory also puts these stages on top of
  frame queue and L1 retrieval and states what the batch stage does on top of them all.
\<close>

section \<open>Definitions\<close>

subsection \<open>Typed batches\<close>

definition SingularBatchType :: byte where "SingularBatchType = 0"
definition SpanBatchType :: byte where "SpanBatchType = 1"

datatype InnerBatchData = InnerSingular SingularBatch | InnerSpan RawSpanBatch

datatype CompressionAlgo = Zlib | Brotli

record BatchData =
  inner :: InnerBatchData
  ComprAlgo :: "CompressionAlgo option"

fun inner_GetBatchType :: "InnerBatchData \<Rightarrow> byte" where
  "inner_GetBatchType (InnerSingular _) = SingularBatchType"
| "inner_GetBatchType (InnerSpan _) = SpanBatchType"

definition GetBatchType :: "BatchData \<Rightarrow> byte" where
  "GetBatchType bd = inner_GetBatchType (inner bd)"

text \<open>The libraries: the codecs of the transactions, RLP of a singular batch, and a stream of RLP strings over the data
  decompressed up to a limit. A stream gives its next string or an error, which at its end is \<open>io.EOF\<close>.\<close>

record ('al, 'au, 's) libraries =
  lib_codecs :: "('al, 'au) codecs"
  singular_rlp :: "SingularBatch \<Rightarrow> byte list"
  singular_unrlp :: "byte list \<Rightarrow> SingularBatch option"
  zlib_NewReader :: "byte list \<Rightarrow> u64 \<Rightarrow> 's option"
  brotli_NewReader :: "byte list \<Rightarrow> u64 \<Rightarrow> 's"
  stream_Bytes :: "'s \<Rightarrow> (derive_error + byte list) \<times> 's"

definition encodeTyped :: "('al, 'au, 's) libraries \<Rightarrow> BatchData \<Rightarrow> span_error + byte list" where
  "encodeTyped L b =
     (case inner b of
        InnerSingular s \<Rightarrow> Inr (GetBatchType b # singular_rlp L s)
      | InnerSpan r \<Rightarrow> and_then (raw_encode r) (\<lambda>bs. Inr (GetBatchType b # bs)))"

definition decodeTypedBatch :: "('al, 'au, 's) libraries \<Rightarrow> byte list \<Rightarrow> span_error + InnerBatchData" where
  "decodeTypedBatch L data =
     (case data of
        [] \<Rightarrow> Inl (SpanErr ''batch too short'')
      | t # r \<Rightarrow>
         if t = SingularBatchType
         then (case singular_unrlp L r of None \<Rightarrow> Inl (SpanErr ''rlp'') | Some s \<Rightarrow> Inr (InnerSingular s))
         else if t = SpanBatchType
         then and_then (raw_decode (lib_codecs L) r) (\<lambda>(b, _). Inr (InnerSpan b))
         else Inl (SpanErr ''unrecognized batch type''))"

text \<open>\<open>GetSingularBatch\<close> and \<open>DeriveSpanBatch\<close>: a batch of the other kind is a critical error.\<close>

definition span_derive_error :: "span_error \<Rightarrow> derive_error" where
  "span_derive_error e = (case e of SpanPanic m \<Rightarrow> GoPanic m | SpanErr m \<Rightarrow> OtherError m | _ \<Rightarrow> OtherError ''span batch'')"

definition GetSingularBatch :: "BatchData \<Rightarrow> derive_error + SingularBatch" where
  "GetSingularBatch bd =
     (case inner bd of InnerSingular s \<Rightarrow> Inr s | _ \<Rightarrow> Inl (NewCriticalError ''failed type assertion to SingularBatch''))"

definition DeriveSpanBatch :: "('al, 'au) codecs \<Rightarrow> BatchData \<Rightarrow> u64 \<Rightarrow> u64 \<Rightarrow> nat \<Rightarrow> derive_error + SpanBatch" where
  "DeriveSpanBatch C bd blockTime genesisTimestamp chainID =
     (case inner bd of
        InnerSpan r \<Rightarrow> map_sum span_derive_error id (derive C r blockTime genesisTimestamp chainID)
      | _ \<Rightarrow> Inl (NewCriticalError ''failed type assertion to SpanBatch''))"

subsection \<open>Batch reader\<close>

definition ZlibCM8 :: byte where "ZlibCM8 = 8"
definition ZlibCM15 :: byte where "ZlibCM15 = 15"
definition ChannelVersionBrotli :: byte where "ChannelVersionBrotli = 1"

definition BatchReader ::
  "('al, 'au, 's) libraries \<Rightarrow> byte list \<Rightarrow> u64 \<Rightarrow> bool \<Rightarrow> derive_error + CompressionAlgo \<times> 's" where
  "BatchReader L data maxRLPBytesPerChannel isFjord =
     (case data of
        [] \<Rightarrow> Inl IoEOF
      | c # rest \<Rightarrow>
         if c AND 15 = ZlibCM8 \<or> c AND 15 = ZlibCM15
         then (case zlib_NewReader L data maxRLPBytesPerChannel of
                 None \<Rightarrow> Inl (OtherError ''zlib'') | Some zr \<Rightarrow> Inr (Zlib, zr))
         else if c = ChannelVersionBrotli
         then if \<not> isFjord then Inl (OtherError ''cannot accept brotli compressed batch before Fjord'')
              else Inr (Brotli, brotli_NewReader L rest maxRLPBytesPerChannel)
         else Inl (OtherError ''cannot distinguish the compression algo used given type byte''))"

text \<open>The function that \<open>BatchReader\<close> returns, on the state of the stream.\<close>

definition nextBatchData ::
  "('al, 'au, 's) libraries \<Rightarrow> CompressionAlgo \<times> 's \<Rightarrow> (derive_error + BatchData) \<times> CompressionAlgo \<times> 's" where
  "nextBatchData L = (\<lambda>(algo, s).
     (case stream_Bytes L s of
        (Inl e, s') \<Rightarrow> (Inl e, algo, s')
      | (Inr v, s') \<Rightarrow>
         (map_sum span_derive_error (\<lambda>i. \<lparr>inner = i, ComprAlgo = Some algo\<rparr>) (decodeTypedBatch L v), algo, s')))"

subsection \<open>Channel reader\<close>

record 'p RawChannelProvider =
  rc_Origin :: "'p \<Rightarrow> L1BlockRef"
  rc_NextRawChannel :: "('p, byte list) puller"
  rc_FlushChannel :: "'p \<Rightarrow> 'p"

record 's ChannelInReader =
  nextBatchFn :: "(CompressionAlgo \<times> 's) option"

definition NewChannelInReader :: "'s ChannelInReader" where
  "NewChannelInReader = \<lparr>nextBatchFn = None\<rparr>"

definition WriteChannel ::
  "('al, 'au, 's) libraries \<Rightarrow> Config \<Rightarrow> L1BlockRef \<Rightarrow> byte list \<Rightarrow> 's ChannelInReader \<Rightarrow>
     derive_error option \<times> 's ChannelInReader" where
  "WriteChannel L cfg origin data cr =
     (case BatchReader L data (MaxRLPBytesPerChannel (NewChainSpec cfg) (l1_Time origin)) (IsFjord cfg (l1_Time origin)) of
        Inr f \<Rightarrow> (None, cr\<lparr>nextBatchFn := Some f\<rparr>)
      | Inl err \<Rightarrow> (Some err, cr))"

definition NextChannel :: "'s ChannelInReader \<Rightarrow> 's ChannelInReader" where
  "NextChannel cr = cr\<lparr>nextBatchFn := None\<rparr>"

text \<open>The chain id of a configuration that passed \<open>Check\<close>, which asks for a positive one.\<close>

definition l2_chain_id :: "Config \<Rightarrow> nat" where
  "l2_chain_id cfg = (case L2ChainID cfg of None \<Rightarrow> 0 | Some c \<Rightarrow> nat c)"

text \<open>The part of \<open>NextBatch\<close> after a reader is there. A panic in the decoder is passed on; it is not an error that the
  stage handles.\<close>

definition read_batch ::
  "('al, 'au, 's) libraries \<Rightarrow> Config \<Rightarrow> L1BlockRef \<Rightarrow> CompressionAlgo \<times> 's \<Rightarrow> 's ChannelInReader \<Rightarrow>
     (derive_error + Batch) \<times> 's ChannelInReader" where
  "read_batch L cfg origin f cr =
     (case nextBatchData L f of
        (Inl (GoPanic m), f') \<Rightarrow> (Inl (GoPanic m), cr\<lparr>nextBatchFn := Some f'\<rparr>)
      | (Inl err, f') \<Rightarrow> (Inl NotEnoughData, NextChannel cr)
      | (Inr bd, f') \<Rightarrow>
         (let cr = cr\<lparr>nextBatchFn := Some f'\<rparr> in
          if GetBatchType bd = SingularBatchType then (map_sum id Singular (GetSingularBatch bd), cr)
          else if GetBatchType bd = SpanBatchType
          then if \<not> IsDelta cfg (l1_Time origin) then (Inl (NewTemporaryError ''cannot accept span batch in L1 block''), cr)
               else (map_sum id Span (DeriveSpanBatch (lib_codecs L) bd (BlockTime cfg) (L2Time (cfg_Genesis cfg)) (l2_chain_id cfg)), cr)
          else (Inl (NewTemporaryError ''unrecognized batch type''), cr)))"

definition cr_NextBatch ::
  "('al, 'au, 's) libraries \<Rightarrow> Config \<Rightarrow> 'p RawChannelProvider \<Rightarrow> ('s ChannelInReader \<times> 'p, Batch) puller" where
  "cr_NextBatch L cfg prev = (\<lambda>(cr, p).
     (case nextBatchFn cr of
        Some f \<Rightarrow> (case read_batch L cfg (rc_Origin prev p) f cr of (r, cr') \<Rightarrow> (r, cr', p))
      | None \<Rightarrow>
         (case rc_NextRawChannel prev p of
            (Inl err, p') \<Rightarrow> (Inl err, cr, p')
          | (Inr data, p') \<Rightarrow>
             (case WriteChannel L cfg (rc_Origin prev p') data cr of
                (Some err, cr') \<Rightarrow> (Inl (NewTemporaryError ''batch reader''), cr', p')
              | (None, cr') \<Rightarrow>
                 (case nextBatchFn cr' of
                    None \<Rightarrow> (Inl (GoPanic ''nil function''), cr', p')
                  | Some f \<Rightarrow>
                     (case read_batch L cfg (rc_Origin prev p') f cr' of (r, cr'') \<Rightarrow> (r, cr'', p')))))))"

definition cr_Reset :: "'s ChannelInReader \<Rightarrow> derive_error option \<times> 's ChannelInReader" where
  "cr_Reset cr = (Some IoEOF, cr\<lparr>nextBatchFn := None\<rparr>)"

definition cr_FlushChannel :: "'p RawChannelProvider \<Rightarrow> 's ChannelInReader \<times> 'p \<Rightarrow> 's ChannelInReader \<times> 'p" where
  "cr_FlushChannel prev = (\<lambda>(cr, p). (cr\<lparr>nextBatchFn := None\<rparr>, rc_FlushChannel prev p))"

definition cr_provider ::
  "('al, 'au, 's) libraries \<Rightarrow> Config \<Rightarrow> 'p RawChannelProvider \<Rightarrow> ('s ChannelInReader \<times> 'p) NextBatchProvider" where
  "cr_provider L cfg prev =
     \<lparr>prev_Origin = (\<lambda>(cr, p). rc_Origin prev p), prev_NextBatch = cr_NextBatch L cfg prev,
      prev_FlushChannel = cr_FlushChannel prev\<rparr>"

subsection \<open>Channel multiplexer\<close>

text \<open>The active stage; it is nil before the first reset. A panic ends the program: the model keeps its message in
  the stage and passes it up at the next call.\<close>

datatype channel_stage = NoStage | Bank ChannelBank | Assembler ChannelAssembler | Panicked string

definition NewChannelMux :: channel_stage where "NewChannelMux = NoStage"

definition mux_Reset :: "ChainSpec \<Rightarrow> L1BlockRef \<Rightarrow> channel_stage \<Rightarrow> derive_error option \<times> channel_stage" where
  "mux_Reset spec base c =
     (if IsHolocene (config spec) (l1_Time base)
      then let ca = (case c of Assembler ca \<Rightarrow> ca | _ \<Rightarrow> NewChannelAssembler) in map_prod id Assembler (ca_Reset ca)
      else let cb = (case c of Bank cb \<Rightarrow> cb | _ \<Rightarrow> NewChannelBank) in map_prod id Bank (cb_Reset cb))"

definition TransformHolocene :: "channel_stage \<Rightarrow> channel_stage" where
  "TransformHolocene c =
     (case c of
        Bank _ \<Rightarrow> Assembler NewChannelAssembler
      | Assembler _ \<Rightarrow> Panicked ''Holocene ChannelAssembler already active''
      | NoStage \<Rightarrow> Panicked ''unknown channel stage type''
      | Panicked m \<Rightarrow> Panicked m)"

definition mux_Transform :: "fork_name \<Rightarrow> channel_stage \<Rightarrow> channel_stage" where
  "mux_Transform f c = (case f of Holocene \<Rightarrow> TransformHolocene c | _ \<Rightarrow> c)"

definition bank_panic_msg :: "bank_panic \<Rightarrow> string" where
  "bank_panic_msg pc =
     (case pc of QueueIndexOutOfRange \<Rightarrow> ''index out of range'' | NilChannel \<Rightarrow> ''nil channel''
      | ReaderPanic _ \<Rightarrow> ''dev error in channel.Reader'' | InvalidFlushChannelCall \<Rightarrow> ''invalid FlushChannel call'')"

text \<open>The calls that the multiplexer passes to the active stage. An assembler whose loop does not return is a panic here;
  it does return over the frame queue (\<open>L1_Stages\<close>).\<close>

definition mux_NextRawChannel ::
  "ChainSpec \<Rightarrow> ('p, Frame) puller \<Rightarrow> ('p \<Rightarrow> L1BlockRef) \<Rightarrow> (channel_stage \<times> 'p, byte list) puller" where
  "mux_NextRawChannel spec nextFrame prevOrigin = (\<lambda>(c, p).
     (case c of
        NoStage \<Rightarrow> (Inl (GoPanic ''nil pointer dereference''), c, p)
      | Panicked m \<Rightarrow> (Inl (GoPanic m), c, p)
      | Bank cb \<Rightarrow>
         (case NextRawChannel spec nextFrame prevOrigin (cb, p) of
            Inl pc \<Rightarrow> (Inl (GoPanic (bank_panic_msg pc)), Panicked (bank_panic_msg pc), p)
          | Inr (r, cb', p') \<Rightarrow> (r, Bank cb', p'))
      | Assembler ca \<Rightarrow>
         (case ca_NextRawChannel spec nextFrame prevOrigin (ca, p) of
            None \<Rightarrow> (Inl (GoPanic ''no return''), Panicked ''no return'', p)
          | Some (Inl pc) \<Rightarrow> (Inl (GoPanic ''dev error in channel.Reader''), Panicked ''dev error in channel.Reader'', p)
          | Some (Inr (r, ca', p')) \<Rightarrow> (r, Assembler ca', p'))))"

definition mux_FlushChannel :: "channel_stage \<times> 'p \<Rightarrow> channel_stage \<times> 'p" where
  "mux_FlushChannel = (\<lambda>(c, p).
     (case c of
        NoStage \<Rightarrow> Panicked ''nil pointer dereference''
      | Panicked m \<Rightarrow> Panicked m
      | Bank cb \<Rightarrow> (case cb_FlushChannel cb of Inl pc \<Rightarrow> Panicked (bank_panic_msg pc) | Inr cb' \<Rightarrow> Bank cb')
      | Assembler ca \<Rightarrow> Assembler (ca_FlushChannel ca), p))"

definition mux_provider ::
  "ChainSpec \<Rightarrow> ('p, Frame) puller \<Rightarrow> ('p \<Rightarrow> L1BlockRef) \<Rightarrow> (channel_stage \<times> 'p) RawChannelProvider" where
  "mux_provider spec nextFrame prevOrigin =
     \<lparr>rc_Origin = (\<lambda>(c, p). prevOrigin p), rc_NextRawChannel = mux_NextRawChannel spec nextFrame prevOrigin,
      rc_FlushChannel = mux_FlushChannel\<rparr>"


section \<open>The stages as sources of each other\<close>

text \<open>A source of channels whose origin stays put while it is read or flushed.\<close>

locale raw_channel_source =
  fixes prev :: "'p RawChannelProvider"
  assumes rc_origin: "rc_NextRawChannel prev p = (r, p') \<Longrightarrow> rc_Origin prev p' = rc_Origin prev p"
    and rc_flush: "rc_Origin prev (rc_FlushChannel prev p) = rc_Origin prev p"

lemma derive_blocks_length:
  "derive_blocks start bt i nums counts txs = Inr es \<Longrightarrow> length es = length nums"
  by (induction start bt i nums counts txs arbitrary: es rule: derive_blocks.induct)
    (auto simp: and_then_Inr_iff split: if_splits)

lemma derive_nonempty:
  assumes "derive C r bt g ch = Inr sp"
  shows "sp_Batches sp \<noteq> []"
proof -
  have "sp_Batches sp = es \<Longrightarrow> length es = unat (blockCount (payload_of r))" for es
    using assms
    by (auto simp: derive_def Let_def and_then_Inr_iff origin_nums_eq dest!: derive_blocks_length
        split: if_splits option.splits)
  moreover have "unat (blockCount (payload_of r)) \<noteq> 0"
    using assms by (auto simp: derive_def Let_def unat_eq_zero)
  ultimately show ?thesis by fastforce
qed

lemma read_batch_span:
  assumes "read_batch L cfg origin f cr = (Inr (Span b), cr')"
  shows "sp_Batches b \<noteq> []"
  using assms
  by (auto simp: read_batch_def Let_def DeriveSpanBatch_def map_sum_def dest: derive_nonempty
      split: prod.splits sum.splits derive_error.splits if_splits InnerBatchData.splits)

context raw_channel_source
begin

text \<open>On such a source, the channel reader is a source of batches as the batch stages ask for.\<close>

lemma cr_batch_source:
  fixes L :: "('al, 'au, 's) libraries"
  shows "batch_source (cr_provider L cfg prev)"
proof
  fix p p' :: "'s ChannelInReader \<times> 'p" and r b
  obtain cr q where p: "p = (cr, q)" by (cases p)
  show "prev_Origin (cr_provider L cfg prev) p' = prev_Origin (cr_provider L cfg prev) p"
    if "prev_NextBatch (cr_provider L cfg prev) p = (r, p')"
    using that
    by (auto simp: cr_provider_def cr_NextBatch_def p dest!: rc_origin split: option.splits prod.splits sum.splits)
  show "prev_Origin (cr_provider L cfg prev) (prev_FlushChannel (cr_provider L cfg prev) p) =
      prev_Origin (cr_provider L cfg prev) p"
    by (simp add: cr_provider_def cr_FlushChannel_def p rc_flush)
  show "sp_Batches b \<noteq> []" if "prev_NextBatch (cr_provider L cfg prev) p = (Inr (Span b), p')"
    using that
    by (auto simp: cr_provider_def cr_NextBatch_def p dest!: read_batch_span split: option.splits prod.splits sum.splits)
qed

end

text \<open>A source of frames whose origin stays put, and the multiplexer on it.\<close>

locale frame_origin =
  fixes nextFrame :: "('p, Frame) puller" and prevOrigin :: "'p \<Rightarrow> L1BlockRef"
  assumes origin_kept: "nextFrame p = (r, p') \<Longrightarrow> prevOrigin p' = prevOrigin p"
begin

lemma ingest_loop_origin:
  "ingest_loop spec nextFrame prevOrigin origin ch p = Some (e, ch', p') \<Longrightarrow> prevOrigin p' = prevOrigin p"
proof -
  assume "ingest_loop spec nextFrame prevOrigin origin ch p = Some (e, ch', p')"
  then have "nextFrame = nextFrame \<longrightarrow> prevOrigin (snd (snd (e, ch', p'))) = prevOrigin p"
  proof (rule ingest_loop.raw_induct [where P = "\<lambda>sp nf po o' ch p y. nf = nextFrame \<longrightarrow>
      prevOrigin (snd (snd y)) = prevOrigin p", rotated 1], intro impI)
    fix lp sp nf po o' ch p y
    assume IH: "\<And>sp nf po o' ch p y. lp sp nf po o' ch p = Some y \<Longrightarrow>
        nf = nextFrame \<longrightarrow> prevOrigin (snd (snd y)) = prevOrigin p"
      and eq: "(case nf p of (Inl err, p') \<Rightarrow> Some (Some err, ch, p')
        | (Inr frame, p') \<Rightarrow>
            case ingest_turn sp o' (l1_Time (po p')) frame ch of
              (goes_on, ch') \<Rightarrow> if goes_on then lp sp nf po o' ch' p' else Some (None, ch', p')) = Some y"
      and nf: "nf = nextFrame"
    obtain x p1 where n: "nextFrame p = (x, p1)" by (cases "nextFrame p")
    have "prevOrigin (snd (snd y)) = prevOrigin p1"
    proof (cases x)
      case (Inr f)
      obtain go ch1 where "ingest_turn sp o' (l1_Time (po p1)) f ch = (go, ch1)"
        by (cases "ingest_turn sp o' (l1_Time (po p1)) f ch")
      with eq nf n Inr IH show ?thesis by (cases go) auto
    qed (use eq nf n in auto)
    with origin_kept [OF n] show "prevOrigin (snd (snd y)) = prevOrigin p" by simp
  qed
  then show ?thesis by simp
qed

lemma mux_raw_channel_source: "raw_channel_source (mux_provider spec nextFrame prevOrigin)"
proof
  fix p p' :: "channel_stage \<times> 'p" and r
  obtain c q where p: "p = (c, q)" by (cases p)
  show "rc_Origin (mux_provider spec nextFrame prevOrigin) (rc_FlushChannel (mux_provider spec nextFrame prevOrigin) p) =
      rc_Origin (mux_provider spec nextFrame prevOrigin) p"
    by (simp add: mux_provider_def mux_FlushChannel_def p)
  show "rc_Origin (mux_provider spec nextFrame prevOrigin) p' = rc_Origin (mux_provider spec nextFrame prevOrigin) p"
    if "rc_NextRawChannel (mux_provider spec nextFrame prevOrigin) p = (r, p')"
  proof (cases c)
    case (Bank cb)
    with that p show ?thesis
      by (auto simp: mux_provider_def mux_NextRawChannel_def NextRawChannel_def dest!: origin_kept
          split: sum.splits prod.splits if_splits)
  next
    case (Assembler ca)
    with that p show ?thesis
      by (auto simp: mux_provider_def mux_NextRawChannel_def ca_NextRawChannel_def Let_def dest!: ingest_loop_origin
          split: sum.splits prod.splits if_splits option.splits)
  qed (use that p in \<open>auto simp: mux_provider_def mux_NextRawChannel_def\<close>)
qed

end

text \<open>Frame queue and L1 retrieval.\<close>

lemma NextData_origin:
  "NextData rlpDecode fetcher dsCfg s = (r, s') \<Longrightarrow> l1r_Origin s' = l1r_Origin s"
  by (auto simp: NextData_def NextL1Block_def pull_data_def l1r_Origin_def
      split: option.splits prod.splits sum.splits if_splits)

interpretation l1_stack:
  frame_origin "NextFrame cfg (NextData rlpDecode fetcher dsCfg) l1r_Origin" "\<lambda>(fq, p). l1r_Origin p"
  for cfg rlpDecode fetcher dsCfg
  by unfold_locales
    (auto simp: NextFrame_def loadNextFrames_def Let_def dest!: NextData_origin
      split: prod.splits option.splits list.splits sum.splits if_splits)


text \<open>The source of the batch stage: channel reader on multiplexer on frame queue on L1 retrieval.\<close>

definition derivation_source ::
  "('al, 'au, 's) libraries \<Rightarrow> Config \<Rightarrow> (byte list \<Rightarrow> byte list list option) \<Rightarrow> 'n L1Fetcher \<Rightarrow> DataSourceConfig \<Rightarrow>
     ('s ChannelInReader \<times> channel_stage \<times> FrameQueue \<times> 'n L1Retrieval) NextBatchProvider" where
  "derivation_source L cfg rlpDecode fetcher dsCfg =
     cr_provider L cfg (mux_provider (NewChainSpec cfg) (NextFrame cfg (NextData rlpDecode fetcher dsCfg) l1r_Origin)
       (\<lambda>(fq, p). l1r_Origin p))"

interpretation l1_channels:
  raw_channel_source "mux_provider spec (NextFrame cfg (NextData rlpDecode fetcher dsCfg) l1r_Origin) (\<lambda>(fq, p). l1r_Origin p)"
  for spec cfg rlpDecode fetcher dsCfg
  by (rule l1_stack.mux_raw_channel_source)

interpretation l1_batches: batch_source "derivation_source L cfg rlpDecode fetcher dsCfg"
  for L cfg rlpDecode fetcher dsCfg
  unfolding derivation_source_def by (rule l1_channels.cr_batch_source)

section \<open>The Holocene stages do not panic\<close>

text \<open>The assembler is active with a well-formed channel over well-formed frames.\<close>

definition assembler_ok :: "'s ChannelInReader \<times> channel_stage \<times> FrameQueue \<times> 'n L1Retrieval \<Rightarrow> bool" where
  "assembler_ok = (\<lambda>(cr, c, fq, p).
     (\<exists>ca. c = Assembler ca \<and> asm_inv (ca_channel ca)) \<and> list_all frame_wf (fq_frames fq))"

datatype reader_op = PullBatch | FlushReader

fun reader_step ::
  "('al, 'au, 's) libraries \<Rightarrow> Config \<Rightarrow> (byte list \<Rightarrow> byte list list option) \<Rightarrow> 'n L1Fetcher \<Rightarrow> DataSourceConfig \<Rightarrow>
     reader_op \<Rightarrow> 's ChannelInReader \<times> channel_stage \<times> FrameQueue \<times> 'n L1Retrieval \<Rightarrow>
     's ChannelInReader \<times> channel_stage \<times> FrameQueue \<times> 'n L1Retrieval" where
  "reader_step L cfg rlpDecode fetcher dsCfg PullBatch s =
     snd (prev_NextBatch (derivation_source L cfg rlpDecode fetcher dsCfg) s)"
| "reader_step L cfg rlpDecode fetcher dsCfg FlushReader s =
     prev_FlushChannel (derivation_source L cfg rlpDecode fetcher dsCfg) s"

lemma mux_assembler:
  assumes "asm_inv (ca_channel ca)" and "list_all frame_wf (fq_frames fq)"
  shows "\<exists>r ca' fq' p'. mux_NextRawChannel spec (NextFrame cfg (NextData rlpDecode fetcher dsCfg) l1r_Origin)
      (\<lambda>(fq, p). l1r_Origin p) (Assembler ca, fq, p) = (r, Assembler ca', fq', p') \<and>
    asm_inv (ca_channel ca') \<and> list_all frame_wf (fq_frames fq')"
proof -
  let ?next = "ca_NextRawChannel spec (NextFrame cfg (NextData rlpDecode fetcher dsCfg) l1r_Origin)
      (\<lambda>(fq, p). l1r_Origin p) (ca, fq, p)"
  obtain x where x: "?next = Some x"
    using pipeline_source.NextRawChannel_ends [of "(fq, p)" spec cfg rlpDecode fetcher dsCfg l1r_Origin "\<lambda>(fq, p). l1r_Origin p" ca] assms(2)
    by auto
  from queue_source.NextRawChannel_returns [OF x assms(1)] assms(2) x show ?thesis
    by (fastforce simp: mux_NextRawChannel_def)
qed

lemma reader_step_ok:
  assumes ok: "assembler_ok s"
  shows "assembler_ok (reader_step L cfg rlpDecode fetcher dsCfg x s)"
proof -
  obtain cr ca fq p where s: "s = (cr, Assembler ca, fq, p)" "asm_inv (ca_channel ca)" "list_all frame_wf (fq_frames fq)"
    using ok by (cases s) (auto simp: assembler_ok_def)
  obtain r ca' fq' p' where m: "mux_NextRawChannel (NewChainSpec cfg) (NextFrame cfg (NextData rlpDecode fetcher dsCfg) l1r_Origin)
      (\<lambda>(fq, p). l1r_Origin p) (Assembler ca, fq, p) = (r, Assembler ca', fq', p')"
    "asm_inv (ca_channel ca')" "list_all frame_wf (fq_frames fq')"
    using mux_assembler [OF s(2,3)] by blast
  show ?thesis
  proof (cases x)
    case PullBatch
    with s m show ?thesis
      by (auto simp: derivation_source_def cr_provider_def mux_provider_def cr_NextBatch_def assembler_ok_def
          split: option.splits prod.splits sum.splits)
  next
    case FlushReader
    with s show ?thesis
      by (simp add: derivation_source_def cr_provider_def mux_provider_def cr_FlushChannel_def mux_FlushChannel_def
          assembler_ok_def ca_FlushChannel_def resetChannel_def)
  qed
qed

interpretation holocene_run: transition_system "reader_step L cfg rlpDecode fetcher dsCfg" assembler_ok
  for L cfg rlpDecode fetcher dsCfg
  by unfold_locales (rule reader_step_ok)

section \<open>Properties\<close>

text \<open>C5: The L2 chain follows the L1 chain. From a reset on, whatever the L1 blocks contain, however the calls of the
  batch stage and the moves of the origin interleave, and whatever the network answers: the origin of the safe head is a block
  of the L1 chain that the pipeline walks, and the safe head is not older than its origin.\<close>

theorem safe_head_follows_L1:
  assumes "consecutive chain" and "window_ok cfg chain"
    and "stage_reachable cfg (derivation_source L cfg rlpDecode fetcher dsCfg) chain (bs, p, head)"
  shows "\<exists>m<length chain. l2_L1Origin head = L1BlockRef_ID (chain ! m) \<and> l1_Time (chain ! m) \<le> l2_Time head"
  using l1_batches.stage_reachable_inv [OF assms] by (auto simp: stage_inv_def head_ok_def)

definition sample_libraries :: "(unit, unit, byte list list) libraries" where
  "sample_libraries = \<lparr>lib_codecs = sample_codecs, singular_rlp = (\<lambda>_. []), singular_unrlp = (\<lambda>_. None),
     zlib_NewReader = (\<lambda>_ _. None), brotli_NewReader = (\<lambda>bs _. [bs]),
     stream_Bytes = (\<lambda>s. case s of [] \<Rightarrow> (Inl IoEOF, []) | b # r \<Rightarrow> (Inr b, r))\<rparr>"

abbreviation sample_config2 :: Config where
  "sample_config2 \<equiv> sample_aligned\<lparr>SeqWindowSize := 2\<rparr>"

definition sample_source :: "(byte list list ChannelInReader \<times> channel_stage \<times> FrameQueue \<times> unit L1Retrieval) NextBatchProvider" where
  "sample_source = derivation_source sample_libraries sample_config2 sample_rlp Data_Source.sample_fetcher sample_dsCfg"

definition sample_stack :: "L1BlockRef \<Rightarrow> byte list list ChannelInReader \<times> channel_stage \<times> FrameQueue \<times> unit L1Retrieval" where
  "sample_stack origin = (NewChannelInReader, Assembler NewChannelAssembler, NewFrameQueue,
     \<lparr>l1r_datas = None, l1r_prev = \<lparr>l1t_block = origin, l1t_done = True,
        l1t_sysCfg = gen_SystemConfig (cfg_Genesis sample_config)\<rparr>,
      l1r_dataSrc = NewDataSourceFactory sample_aligned True, l1r_net = ()\<rparr>)"

lemma sample_stack_origin: "prev_Origin sample_source (sample_stack b) = b"
  by (simp add: sample_source_def sample_stack_def derivation_source_def cr_provider_def mux_provider_def l1r_Origin_def)

definition sample_stage :: "nat \<Rightarrow> BatchStage" where
  "sample_stage k = \<lparr>bs_origin = skip_chain ! k, bs_l1Blocks = segment skip_chain 0 k, bs_nextSpan = []\<rparr>"

lemma sample_reachable:
  "stage_reachable sample_config2 sample_source skip_chain (sample_stage 0, sample_stack (skip_chain ! 1), sample_head)"
proof -
  have "head_ok skip_chain sample_head 0" by (simp add: head_ok_def sample_head_def L1BlockRef_ID_def)
  moreover have "bst_Reset (skip_chain ! 0) newBaseBatchStage = (Some IoEOF, sample_stage 0)"
    by (simp add: bst_Reset_def reset_base_def newBaseBatchStage_def sample_stage_def segment_def skip_chain_def)
  ultimately have "stage_start sample_source skip_chain (sample_stage 0, sample_stack (skip_chain ! 0), sample_head)"
    unfolding stage_start_def using sample_stack_origin by blast
  moreover have "stage_step sample_config2 sample_source skip_chain
      (sample_stage 0, sample_stack (skip_chain ! 0), sample_head) (sample_stage 0, sample_stack (skip_chain ! 1), sample_head)"
    by (rule stage_step.advance [where k = 0]) (simp_all add: sample_stack_origin sample_stage_def)
  ultimately show ?thesis unfolding stage_reachable_def by (blast intro: r_into_rtranclp)
qed

lemma sample_window: "window_ok sample_config2 skip_chain"
  by (auto simp: window_ok_def skip_chain_def)

theorem safe_head_follows_L1_witness:
  "\<exists>m<length skip_chain. l2_L1Origin sample_head = L1BlockRef_ID (skip_chain ! m) \<and>
     l1_Time (skip_chain ! m) \<le> l2_Time sample_head"
  using safe_head_follows_L1 [OF skip_chain_consecutive sample_window sample_reachable [unfolded sample_source_def]] .

text \<open>In Holocene the stages below the batch stage do not panic. From a reset at an L1 block with Holocene active, whatever is read
  and however often the channel is flushed in between, the active channel stage stays the assembler: neither the panic of the bank
  for a flush nor a panic of the channel reader or a loop that does not return is reached.\<close>

theorem holocene_stages_never_panic:
  assumes "IsHolocene cfg (l1_Time base)" and "mux_Reset (NewChainSpec cfg) base c0 = (e, c)"
  shows "\<exists>cr' ca' fq' p'. fold (reader_step L cfg rlpDecode fetcher dsCfg) ops (cr, c, NewFrameQueue, p) =
    (cr', Assembler ca', fq', p')"
proof -
  have "assembler_ok (cr, c, NewFrameQueue, p)"
    using assms by (auto simp: mux_Reset_def Let_def ca_Reset_def resetChannel_def assembler_ok_def NewFrameQueue_def NewChainSpec_def)
  from holocene_run.run_inv [OF this, of L cfg rlpDecode fetcher dsCfg ops] show ?thesis
    by (auto simp: assembler_ok_def split: prod.splits)
qed

theorem holocene_stages_never_panic_witness:
  "\<exists>cr' ca' fq' p'. fold (reader_step sample_libraries sample_config2 sample_rlp Data_Source.sample_fetcher sample_dsCfg)
      [PullBatch, FlushReader] (NewChannelInReader, snd (mux_Reset (NewChainSpec sample_config2) (skip_chain ! 1) NoStage),
        NewFrameQueue, snd (snd (snd (sample_stack (skip_chain ! 1))))) = (cr', Assembler ca', fq', p')"
proof (rule holocene_stages_never_panic [OF _ prod.collapse [symmetric]])
  show "IsHolocene sample_config2 (l1_Time (skip_chain ! 1))" by code_simp
qed

text \<open>C26: What a call of the batch stage gives, in every reachable state of the stack. A batch it returns names the safe head as its parent, has the
  next timestamp, and its epoch is a block of the L1 chain at or after the origin of the safe head and not beyond
  the origin of the pipeline, with the right hash and no later in time. If Holocene is active at the origin of the pipeline, an
  error is the end of the data, a request to call again, or an error that the stage before returned: the critical and
  reset errors that the stage itself has for an inconsistent buffer are not reached.\<close>

theorem batch_stage_results:
  assumes "consecutive chain" and "window_ok cfg chain"
    and "stage_reachable cfg (derivation_source L cfg rlpDecode fetcher dsCfg) chain (bs, p, head)"
    and "l2_Time head < l2_Time head + BlockTime cfg"
    and "bst_NextBatch cfg (derivation_source L cfg rlpDecode fetcher dsCfg) l2 head (bs, p) = (r, bs', p')"
  shows "(\<forall>b l. r = Inr (b, l) \<longrightarrow> sb_ParentHash b = l2_Hash head \<and> sb_Timestamp b = l2_Time head + BlockTime cfg \<and>
      (\<exists>m m' k. m \<le> m' \<and> m' \<le> k \<and> k < length chain \<and> l2_L1Origin head = L1BlockRef_ID (chain ! m) \<and>
        prev_Origin (derivation_source L cfg rlpDecode fetcher dsCfg) p = chain ! k \<and>
        sb_EpochHash b = l1_Hash (chain ! m') \<and> sb_EpochNum b = l1_Number (chain ! m') \<and>
        l1_Time (chain ! m') \<le> sb_Timestamp b)) \<and>
    (\<forall>e. r = Inl e \<and> IsHolocene cfg (l1_Time (prev_Origin (derivation_source L cfg rlpDecode fetcher dsCfg) p)) \<longrightarrow>
      e = IoEOF \<or> e = NotEnoughData \<or>
      (\<exists>p1. prev_NextBatch (derivation_source L cfg rlpDecode fetcher dsCfg) p = (Inl e, p1)))"
proof -
  from l1_batches.stage_reachable_inv [OF assms(1-3)] obtain m a k' k where
    v: "head_ok chain head m" "stage_at chain bs a k'" "buffered cfg chain head m a k'" "k' \<le> k" "k \<le> Suc k'"
    "k < length chain" "prev_Origin (derivation_source L cfg rlpDecode fetcher dsCfg) p = chain ! k"
    by (rule stage_invE)
  from l1_batches.NextBatch_step [OF assms(1) v(1-6) assms(2,4) v(7) assms(5)] show ?thesis
    using v by (fastforce simp: call_ok_def next_ok_def head_ok_def)
qed

theorem batch_stage_results_witness:
  "\<exists>r bs' p'. bst_NextBatch sample_config2 sample_source Batches.sample_fetcher sample_head
      (sample_stage 0, sample_stack (skip_chain ! 1)) = (r, bs', p') \<and>
    (\<forall>b l. r = Inr (b, l) \<longrightarrow> sb_ParentHash b = 7 \<and> sb_Timestamp b = 2112) \<and>
    (\<forall>e. r = Inl e \<longrightarrow> e = IoEOF \<or> e = NotEnoughData \<or>
      (\<exists>p1. prev_NextBatch sample_source (sample_stack (skip_chain ! 1)) = (Inl e, p1)))"
proof -
  obtain r bs' p' where n: "bst_NextBatch sample_config2 sample_source Batches.sample_fetcher sample_head
      (sample_stage 0, sample_stack (skip_chain ! 1)) = (r, bs', p')" by (metis surj_pair)
  have h: "IsHolocene sample_config2 (l1_Time (prev_Origin sample_source (sample_stack (skip_chain ! 1))))"
    unfolding sample_stack_origin by code_simp
  have bt: "BlockTime sample_config2 = 2" "l2_Time sample_head = 2110" "l2_Hash sample_head = 7" by code_simp+
  show ?thesis
    using batch_stage_results [OF skip_chain_consecutive sample_window sample_reachable [unfolded sample_source_def]
        _ n [unfolded sample_source_def]] h n bt unfolding sample_source_def [symmetric] by (cases p') auto
qed

end
