(* ===== verification/Pipeline.thy ===== *)
theory Pipeline
  imports Channel_In_Reader
begin

text \<open>
  The derivation pipeline as a whole (\<open>op-node/rollup/derive\<close>: \<open>batch_mux.go\<close>, \<open>attributes_queue.go\<close>, \<open>check_l1.go\<close>, \<open>pipeline.go\<close>,
  \<open>mantle_pipeline.go\<close>): the choice between batch queue and batch stage, the attributes queue, resets, the change of
  stages at a fork, and the step that the deriver calls. Texts that the code wraps around errors are left out.
\<close>

section \<open>Definitions\<close>

subsection \<open>Batch multiplexer\<close>

datatype batch_stage = NoBatchStage | QueueStage BatchQueue | HoloceneStage BatchStage | BatchPanicked string

definition NewBatchStage :: BatchStage where "NewBatchStage = newBaseBatchStage"

definition bm_Reset :: "Config \<Rightarrow> L1BlockRef \<Rightarrow> batch_stage \<Rightarrow> derive_error option \<times> batch_stage" where
  "bm_Reset cfg base b =
     (if IsHolocene cfg (l1_Time base)
      then let bs = (case b of HoloceneStage bs \<Rightarrow> bs | _ \<Rightarrow> NewBatchStage) in map_prod id HoloceneStage (bst_Reset base bs)
      else let bq = (case b of QueueStage bq \<Rightarrow> bq | _ \<Rightarrow> NewBatchQueue) in map_prod id QueueStage (bq_Reset base bq))"

definition bm_TransformHolocene :: "batch_stage \<Rightarrow> batch_stage" where
  "bm_TransformHolocene b =
     (case b of
        QueueStage bq \<Rightarrow> HoloceneStage (NewBatchStage\<lparr>bs_l1Blocks := bs_l1Blocks bq, bs_origin := bs_origin bq\<rparr>)
      | HoloceneStage _ \<Rightarrow> BatchPanicked ''Holocene BatchStage already active''
      | NoBatchStage \<Rightarrow> BatchPanicked ''unknown batch stage type''
      | BatchPanicked m \<Rightarrow> BatchPanicked m)"

definition bm_Transform :: "fork_name \<Rightarrow> batch_stage \<Rightarrow> batch_stage" where
  "bm_Transform f b = (case f of Holocene \<Rightarrow> bm_TransformHolocene b | _ \<Rightarrow> b)"

definition bm_NextBatch ::
  "Config \<Rightarrow> 'p NextBatchProvider \<Rightarrow> SafeBlockFetcher \<Rightarrow> L2BlockRef \<Rightarrow> (batch_stage \<times> 'p, SingularBatch \<times> bool) puller" where
  "bm_NextBatch cfg prev l2 parent = (\<lambda>(b, p).
     (case b of
        NoBatchStage \<Rightarrow> (Inl (GoPanic ''nil pointer dereference''), b, p)
      | BatchPanicked m \<Rightarrow> (Inl (GoPanic m), b, p)
      | QueueStage bq \<Rightarrow> (case bq_NextBatch cfg prev l2 parent (bq, p) of (r, bq', p') \<Rightarrow> (r, QueueStage bq', p'))
      | HoloceneStage bs \<Rightarrow> (case bst_NextBatch cfg prev l2 parent (bs, p) of (r, bs', p') \<Rightarrow> (r, HoloceneStage bs', p'))))"

definition bm_FlushChannel :: "'p NextBatchProvider \<Rightarrow> batch_stage \<times> 'p \<Rightarrow> batch_stage \<times> 'p" where
  "bm_FlushChannel prev = (\<lambda>(b, p).
     (case b of
        NoBatchStage \<Rightarrow> (BatchPanicked ''nil pointer dereference'', p)
      | BatchPanicked m \<Rightarrow> (BatchPanicked m, p)
      | QueueStage bq \<Rightarrow> (BatchPanicked ''BatchQueue: invalid FlushChannel call'', p)
      | HoloceneStage bs \<Rightarrow> (case bst_FlushChannel prev (bs, p) of (bs', p') \<Rightarrow> (HoloceneStage bs', p'))))"

subsection \<open>Attributes queue\<close>

record PayloadAttributes =
  pa_Timestamp :: u64
  pa_PrevRandao :: hash
  pa_SuggestedFeeRecipient :: address
  pa_Transactions :: "byte list list"
  pa_NoTxPool :: bool
  pa_GasLimit :: "u64 option"
  pa_Withdrawals :: "unit list option"
  pa_ParentBeaconBlockRoot :: "hash option"
  pa_EIP1559Params :: "u64 option"
  pa_MinBaseFee :: "u64 option"
  pa_BaseFee :: "nat option"

definition is_deposit :: "byte list \<Rightarrow> bool" where
  "is_deposit tx \<longleftrightarrow> tx \<noteq> [] \<and> hd tx = DepositTxType"

definition pa_WithDepositsOnly :: "PayloadAttributes \<Rightarrow> PayloadAttributes" where
  "pa_WithDepositsOnly a = a\<lparr>pa_Transactions := filter is_deposit (pa_Transactions a)\<rparr>"

definition IsDepositsOnly :: "PayloadAttributes \<Rightarrow> bool" where
  "IsDepositsOnly a \<longleftrightarrow> list_all is_deposit (pa_Transactions a)"

record AttributesWithParent =
  awp_Attributes :: PayloadAttributes
  awp_Parent :: L2BlockRef
  awp_Concluding :: bool
  awp_DerivedFrom :: L1BlockRef

definition WithDepositsOnly :: "AttributesWithParent \<Rightarrow> AttributesWithParent" where
  "WithDepositsOnly a = a\<lparr>awp_Attributes := pa_WithDepositsOnly (awp_Attributes a)\<rparr>"

record AttributesQueue =
  aq_batch :: "SingularBatch option"
  aq_concluding :: bool
  aq_lastAttribs :: "AttributesWithParent option"

definition NewAttributesQueue :: AttributesQueue where
  "NewAttributesQueue = \<lparr>aq_batch = None, aq_concluding = False, aq_lastAttribs = None\<rparr>"

text \<open>The builder of payload attributes reads from the network, whose state is part of the state of the stages before.\<close>

type_synonym 'p builder = "L2BlockRef \<Rightarrow> BlockID \<Rightarrow> ('p, PayloadAttributes) puller"

definition sb_Epoch :: "SingularBatch \<Rightarrow> BlockID" where
  "sb_Epoch b = \<lparr>bid_Hash = sb_EpochHash b, bid_Number = sb_EpochNum b\<rparr>"

definition createNextAttributes ::
  "Config \<Rightarrow> 'p builder \<Rightarrow> SingularBatch \<Rightarrow> L2BlockRef \<Rightarrow> ('p, PayloadAttributes) puller" where
  "createNextAttributes cfg prepare batch l2SafeHead p =
     (if sb_ParentHash batch \<noteq> l2_Hash l2SafeHead then (Inl (NewResetError ''valid batch has bad parent hash''), p)
      else if l2_Time l2SafeHead + BlockTime cfg \<noteq> sb_Timestamp batch
      then (Inl (NewResetError ''valid batch has bad timestamp''), p)
      else case prepare l2SafeHead (sb_Epoch batch) p of
        (Inl err, p') \<Rightarrow> (Inl err, p')
      | (Inr attrs, p') \<Rightarrow>
          (Inr (attrs\<lparr>pa_NoTxPool := True, pa_Transactions := pa_Transactions attrs @ sb_Transactions batch\<rparr>), p'))"

text \<open>\<open>NextAttributes\<close> on the stage before, given by its \<open>NextBatch\<close> and its \<open>Origin\<close>.\<close>

definition build_attributes ::
  "Config \<Rightarrow> 'p builder \<Rightarrow> ('p \<Rightarrow> L1BlockRef) \<Rightarrow> L2BlockRef \<Rightarrow> SingularBatch \<Rightarrow>
     (AttributesQueue \<times> 'p, AttributesWithParent) puller" where
  "build_attributes cfg prepare Origin parent batch = (\<lambda>(aq, p).
     (case createNextAttributes cfg prepare batch parent p of
        (Inl err, p') \<Rightarrow> (Inl err, aq, p')
      | (Inr attrs, p') \<Rightarrow>
          let attr = \<lparr>awp_Attributes = attrs, awp_Parent = parent, awp_Concluding = aq_concluding aq,
                      awp_DerivedFrom = Origin p'\<rparr>
          in (Inr attr, \<lparr>aq_batch = None, aq_concluding = False, aq_lastAttribs = Some attr\<rparr>, p')))"

definition NextAttributes ::
  "Config \<Rightarrow> 'p builder \<Rightarrow> (L2BlockRef \<Rightarrow> ('p, SingularBatch \<times> bool) puller) \<Rightarrow> ('p \<Rightarrow> L1BlockRef) \<Rightarrow> L2BlockRef \<Rightarrow>
     (AttributesQueue \<times> 'p, AttributesWithParent) puller" where
  "NextAttributes cfg prepare NextBatch Origin parent = (\<lambda>(aq, p).
     (case aq_batch aq of
        Some batch \<Rightarrow> build_attributes cfg prepare Origin parent batch (aq, p)
      | None \<Rightarrow>
         (case NextBatch parent p of
            (Inl err, p') \<Rightarrow> (Inl err, aq, p')
          | (Inr (batch, concluding), p') \<Rightarrow>
              build_attributes cfg prepare Origin parent batch (aq\<lparr>aq_batch := Some batch, aq_concluding := concluding\<rparr>, p'))))"

definition aq_Reset :: "AttributesQueue \<Rightarrow> derive_error option \<times> AttributesQueue" where
  "aq_Reset aq = (Some IoEOF, \<lparr>aq_batch = None, aq_concluding = False, aq_lastAttribs = None\<rparr>)"

definition DepositsOnlyAttributes ::
  "('p \<Rightarrow> 'p) \<Rightarrow> BlockID \<Rightarrow> L1BlockRef \<Rightarrow> (AttributesQueue \<times> 'p, AttributesWithParent) puller" where
  "DepositsOnlyAttributes FlushChannel parent derivedFrom = (\<lambda>(aq, p).
     (if aq_batch aq \<noteq> None then (Inl (OtherError ''unexpected buffered batch''), aq, p)
      else case aq_lastAttribs aq of
        None \<Rightarrow> (Inl (OtherError ''no attributes generated yet''), aq, p)
      | Some att \<Rightarrow>
          if derivedFrom \<noteq> awp_DerivedFrom att then (Inl (OtherError ''unexpected derivation origin''), aq, p)
          else if parent \<noteq> L2BlockRef_ID (awp_Parent att) then (Inl (OtherError ''unexpected parent''), aq, p)
          else let attrs = WithDepositsOnly att in (Inr attrs, aq\<lparr>aq_lastAttribs := Some attrs\<rparr>, FlushChannel p)))"

subsection \<open>The pipeline\<close>

text \<open>The stages from L1 retrieval (with the traversal before it) to the channel reader.\<close>

type_synonym ('s, 'n) source = "'s ChannelInReader \<times> channel_stage \<times> FrameQueue \<times> 'n L1Retrieval"

definition src_Origin :: "('s, 'n) source \<Rightarrow> L1BlockRef" where
  "src_Origin = (\<lambda>(cr, c, fq, r). l1r_Origin r)"

definition map_net :: "('n \<Rightarrow> 'a \<times> 'n) \<Rightarrow> ('s, 'n) source \<Rightarrow> 'a \<times> ('s, 'n) source" where
  "map_net f = (\<lambda>(cr, c, fq, r). case f (l1r_net r) of (x, n) \<Rightarrow> (x, cr, c, fq, r\<lparr>l1r_net := n\<rparr>))"

text \<open>What the pipeline calls: the libraries, the network on L1 and L2, and the builder of attributes.\<close>

record ('al, 'au, 's, 'n, 'r) env =
  env_libs :: "('al, 'au, 's) libraries"
  env_cfg :: Config
  env_rlp :: "byte list \<Rightarrow> byte list list option"
  env_l1 :: "'n L1Fetcher"
  env_dsCfg :: DataSourceConfig
  env_l2 :: SafeBlockFetcher
  L1BlockRefByNumber :: "u64 \<Rightarrow> 'n \<Rightarrow> (fetch_error + L1BlockRef) \<times> 'n"
  L1BlockRefByHash :: "hash \<Rightarrow> 'n \<Rightarrow> (fetch_error + L1BlockRef) \<times> 'n"
  FetchReceipts :: "hash \<Rightarrow> 'n \<Rightarrow> (fetch_error + 'r) \<times> 'n"
  env_updateSysCfg :: "SystemConfig \<Rightarrow> 'r \<Rightarrow> u64 \<Rightarrow> SystemConfig"
  L2BlockRefByHash :: "hash \<Rightarrow> 'n \<Rightarrow> (fetch_error + L2BlockRef) \<times> 'n"
  SystemConfigByL2Hash :: "hash \<Rightarrow> 'n \<Rightarrow> (fetch_error + SystemConfig) \<times> 'n"
  PreparePayloadAttributes :: "L2BlockRef \<Rightarrow> BlockID \<Rightarrow> 'n \<Rightarrow> (derive_error + PayloadAttributes) \<times> 'n"
  altDA_Reset :: "L1BlockRef \<Rightarrow> SystemConfig \<Rightarrow> 'n \<Rightarrow> derive_error option \<times> 'n"

record ('s, 'n) DerivationPipeline =
  dp_resetting :: nat
  dp_origin :: L1BlockRef
  dp_resetL2Safe :: L2BlockRef
  dp_resetSysConfig :: SystemConfig
  dp_engineIsReset :: bool
  dp_attrib :: AttributesQueue
  dp_batch :: batch_stage
  dp_source :: "('s, 'n) source"

definition zero_SystemConfig :: SystemConfig where
  "zero_SystemConfig = \<lparr>BatcherAddr = 0, Overhead = 0, Scalar = 0, GasLimit = 0, sys_BaseFee = None,
     sys_EIP1559Params = 0, sys_OperatorFeeParams = 0, sys_MinBaseFee = 0, sys_DAFootprintGasScalar = 0\<rparr>"

definition stage_count :: nat where "stage_count = 8"

definition DerivationReady :: "('s, 'n) DerivationPipeline \<Rightarrow> bool" where
  "DerivationReady dp \<longleftrightarrow> dp_engineIsReset dp \<and> dp_resetting dp \<ge> stage_count"

definition dp_Reset :: "('s, 'n) DerivationPipeline \<Rightarrow> ('s, 'n) DerivationPipeline" where
  "dp_Reset dp = dp\<lparr>dp_resetting := 0, dp_resetSysConfig := zero_SystemConfig, dp_resetL2Safe := zero_L2BlockRef,
     dp_engineIsReset := False\<rparr>"

definition ConfirmEngineReset :: "('s, 'n) DerivationPipeline \<Rightarrow> ('s, 'n) DerivationPipeline" where
  "ConfirmEngineReset dp = dp\<lparr>dp_engineIsReset := True\<rparr>"

definition VerifyNewL1Origin ::
  "(u64 \<Rightarrow> 'n \<Rightarrow> (fetch_error + L1BlockRef) \<times> 'n) \<Rightarrow> L1BlockRef \<Rightarrow> L1BlockRef \<Rightarrow> 'n \<Rightarrow> derive_error option \<times> 'n" where
  "VerifyNewL1Origin byNumber unsafeOrigin newOrigin n =
     (if l1_Number newOrigin = l1_Number unsafeOrigin \<and> newOrigin \<noteq> unsafeOrigin
      then (Some (NewResetError ''l1 origin was inconsistent with l2 unsafe head origin''), n)
      else if l1_Number newOrigin = l1_Number unsafeOrigin + 1 \<and> l1_ParentHash newOrigin \<noteq> l1_Hash unsafeOrigin
      then (Some (NewResetError ''l2 unsafe head origin is no longer canonical''), n)
      else if l1_Number newOrigin > l1_Number unsafeOrigin + 1
      then (case byNumber (l1_Number unsafeOrigin) n of
              (Inl e, n') \<Rightarrow> (Some (NewTemporaryError ''failed to fetch canonical L1 block at slot''), n')
            | (Inr canonical, n') \<Rightarrow>
                ((if canonical \<noteq> unsafeOrigin then Some (NewResetError ''l2 unsafe head origin is no longer canonical'') else None), n'))
      else (None, n))"

text \<open>The stages that change with a fork, in the order of the pipeline.\<close>

definition transform_all :: "fork_name \<Rightarrow> ('s, 'n) DerivationPipeline \<Rightarrow> ('s, 'n) DerivationPipeline" where
  "transform_all f dp =
     dp\<lparr>dp_source := (case dp_source dp of (cr, c, fq, r) \<Rightarrow> (cr, mux_Transform f c, fq_Transform f fq, r)),
        dp_batch := bm_Transform f (dp_batch dp)\<rparr>"

definition transformStages ::
  "Config \<Rightarrow> L1BlockRef \<Rightarrow> L1BlockRef \<Rightarrow> ('s, 'n) DerivationPipeline \<Rightarrow> ('s, 'n) DerivationPipeline" where
  "transformStages cfg oldOrigin newOrigin dp =
     (let fork = IsActivationBlock cfg (l1_Time oldOrigin) (l1_Time newOrigin)
      in if fork = ForkNone then dp else transform_all fork dp)"

definition transformMantleStages ::
  "Config \<Rightarrow> L1BlockRef \<Rightarrow> L1BlockRef \<Rightarrow> ('s, 'n) DerivationPipeline \<Rightarrow> ('s, 'n) DerivationPipeline" where
  "transformMantleStages cfg oldOrigin newOrigin dp =
     (case IsMantleActivationBlock cfg (l1_Time oldOrigin) (l1_Time newOrigin) of
        MantleArsia \<Rightarrow> transform_all Holocene dp
      | _ \<Rightarrow> dp)"

text \<open>The walk back along the L2 chain in \<open>initialReset\<close>. It may not end if the L2 node gives blocks without end.\<close>

partial_function (option) rewind ::
  "('al, 'au, 's, 'n, 'r) env \<Rightarrow> BlockID \<Rightarrow> L2BlockRef \<Rightarrow> L1BlockRef \<Rightarrow> 'n \<Rightarrow>
     ((derive_error + L2BlockRef \<times> L1BlockRef) \<times> 'n) option" where
  [code]: "rewind E l1Origin pipelineL2 pipelineOrigin n =
     (if l2_Number pipelineL2 > bid_Number (gen_L2 (cfg_Genesis (env_cfg E))) \<and>
         bid_Number (l2_L1Origin pipelineL2) > bid_Number (gen_L1 (cfg_Genesis (env_cfg E))) \<and>
         bid_Number (l2_L1Origin pipelineL2) + ChannelTimeout (NewChainSpec (env_cfg E)) (l1_Time pipelineOrigin) > bid_Number l1Origin
      then case L2BlockRefByHash E (l2_ParentHash pipelineL2) n of
             (Inl e, n') \<Rightarrow> Some (Inl (NewResetError ''failed to fetch L2 parent block''), n')
           | (Inr parent, n') \<Rightarrow>
              (case L1BlockRefByHash E (bid_Hash (l2_L1Origin parent)) n' of
                 (Inl e, n'') \<Rightarrow> Some (Inl (NewTemporaryError ''failed to fetch the new L1 progress''), n'')
               | (Inr origin, n'') \<Rightarrow> rewind E l1Origin parent origin n'')
      else Some (Inr (pipelineL2, pipelineOrigin), n))"

definition with_net :: "('s, 'n) DerivationPipeline \<Rightarrow> 'n \<Rightarrow> ('s, 'n) DerivationPipeline" where
  "with_net dp n = dp\<lparr>dp_source := snd (map_net (\<lambda>_. ((), n)) (dp_source dp))\<rparr>"

definition net_of :: "('s, 'n) DerivationPipeline \<Rightarrow> 'n" where
  "net_of dp = (case dp_source dp of (cr, c, fq, r) \<Rightarrow> l1r_net r)"

definition initialReset ::
  "('al, 'au, 's, 'n, 'r) env \<Rightarrow> L2BlockRef \<Rightarrow> ('s, 'n) DerivationPipeline \<Rightarrow>
     (derive_error option \<times> ('s, 'n) DerivationPipeline) option" where
  "initialReset E resetL2Safe dp =
     (case L1BlockRefByHash E (bid_Hash (l2_L1Origin resetL2Safe)) (net_of dp) of
        (Inl e, n) \<Rightarrow> Some (Some (NewTemporaryError ''failed to fetch the new L1 progress''), with_net dp n)
      | (Inr pipelineOrigin, n) \<Rightarrow>
         (case rewind E (l2_L1Origin resetL2Safe) resetL2Safe pipelineOrigin n of
            None \<Rightarrow> None
          | Some (Inl e, n) \<Rightarrow> Some (Some e, with_net dp n)
          | Some (Inr (pipelineL2, pipelineOrigin), n) \<Rightarrow>
             (case SystemConfigByL2Hash E (l2_Hash pipelineL2) n of
                (Inl e, n) \<Rightarrow> Some (Some (NewTemporaryError ''failed to fetch L1 config of L2 block''), with_net dp n)
              | (Inr sysCfg, n) \<Rightarrow>
                  Some (None, (with_net dp n)\<lparr>dp_origin := pipelineOrigin, dp_resetSysConfig := sysCfg,
                                              dp_resetL2Safe := resetL2Safe\<rparr>))))"

text \<open>The reset of stage \<open>i\<close>.\<close>

definition reset_stage ::
  "('al, 'au, 's, 'n, 'r) env \<Rightarrow> nat \<Rightarrow> ('s, 'n) DerivationPipeline \<Rightarrow> derive_error option \<times> ('s, 'n) DerivationPipeline" where
  "reset_stage E i dp =
     (case dp_source dp of (cr, c, fq, r) \<Rightarrow>
      if i = 0 then (case l1t_Reset (dp_origin dp) (dp_resetSysConfig dp) (l1r_prev r) of
                       (e, l1t) \<Rightarrow> (e, dp\<lparr>dp_source := (cr, c, fq, r\<lparr>l1r_prev := l1t\<rparr>)\<rparr>))
      else if i = 1 then (case l1r_Reset (env_l1 E) (env_dsCfg E) (dp_origin dp) (dp_resetSysConfig dp) r of
                       (e, r') \<Rightarrow> (Some e, dp\<lparr>dp_source := (cr, c, fq, r')\<rparr>))
      else if i = 2 then (case altDA_Reset E (dp_origin dp) (dp_resetSysConfig dp) (l1r_net r) of
                       (e, n) \<Rightarrow> (e, dp\<lparr>dp_source := (cr, c, fq, r\<lparr>l1r_net := n\<rparr>)\<rparr>))
      else if i = 3 then (case fq_Reset fq of (e, fq') \<Rightarrow> (e, dp\<lparr>dp_source := (cr, c, fq', r)\<rparr>))
      else if i = 4 then (case mux_Reset (NewChainSpec (env_cfg E)) (dp_origin dp) c of
                       (e, c') \<Rightarrow> (e, dp\<lparr>dp_source := (cr, c', fq, r)\<rparr>))
      else if i = 5 then (case cr_Reset cr of (e, cr') \<Rightarrow> (e, dp\<lparr>dp_source := (cr', c, fq, r)\<rparr>))
      else if i = 6 then (case bm_Reset (env_cfg E) (dp_origin dp) (dp_batch dp) of (e, b) \<Rightarrow> (e, dp\<lparr>dp_batch := b\<rparr>))
      else (case aq_Reset (dp_attrib dp) of (e, aq) \<Rightarrow> (e, dp\<lparr>dp_attrib := aq\<rparr>)))"

definition stage_panic :: "('s, 'n) DerivationPipeline \<Rightarrow> string option" where
  "stage_panic dp =
     (case dp_batch dp of BatchPanicked m \<Rightarrow> Some m
      | _ \<Rightarrow> (case dp_source dp of (_, Panicked m, _) \<Rightarrow> Some m | _ \<Rightarrow> None))"

text \<open>The stages below the attributes queue, pulled for a parent block.\<close>

definition pull_attributes ::
  "('al, 'au, 's, 'n, 'r) env \<Rightarrow> L2BlockRef \<Rightarrow> ('s, 'n) DerivationPipeline \<Rightarrow>
     (derive_error + AttributesWithParent) \<times> ('s, 'n) DerivationPipeline" where
  "pull_attributes E parent dp =
     (case NextAttributes (env_cfg E)
         (\<lambda>parent epoch (b, src). case map_net (PreparePayloadAttributes E parent epoch) src of (r, src') \<Rightarrow> (r, b, src'))
         (bm_NextBatch (env_cfg E) (derivation_source (env_libs E) (env_cfg E) (env_rlp E) (env_l1 E) (env_dsCfg E)) (env_l2 E))
         (\<lambda>(b, src). src_Origin src) parent (dp_attrib dp, dp_batch dp, dp_source dp) of
        (r, aq, b, src) \<Rightarrow> (r, dp\<lparr>dp_attrib := aq, dp_batch := b, dp_source := src\<rparr>))"

definition advance_origin ::
  "('al, 'au, 's, 'n, 'r) env \<Rightarrow> ('s, 'n) DerivationPipeline \<Rightarrow> derive_error option \<times> ('s, 'n) DerivationPipeline" where
  "advance_origin E dp =
     (case dp_source dp of (cr, c, fq, r) \<Rightarrow>
      case AdvanceL1Block (L1BlockRefByNumber E) (FetchReceipts E) (env_updateSysCfg E) (l1r_prev r) (l1r_net r) of
        (e, l1t, n) \<Rightarrow> (e, dp\<lparr>dp_source := (cr, c, fq, r\<lparr>l1r_prev := l1t, l1r_net := n\<rparr>)\<rparr>))"

text \<open>The part of \<open>Step\<close> before the attributes are pulled: the change of origin.\<close>

definition change_origin ::
  "('al, 'au, 's, 'n, 'r) env \<Rightarrow> ('s, 'n) DerivationPipeline \<Rightarrow> derive_error option \<times> ('s, 'n) DerivationPipeline" where
  "change_origin E dp =
     (let prevOrigin = dp_origin dp; newOrigin = src_Origin (dp_source dp) in
      if prevOrigin = newOrigin then (None, dp)
      else case VerifyNewL1Origin (L1BlockRefByNumber E) prevOrigin newOrigin (net_of dp) of
        (Some err, n) \<Rightarrow> (Some err, with_net dp n)
      | (None, n) \<Rightarrow>
          let dp = transformMantleStages (env_cfg E) prevOrigin newOrigin
                     (transformStages (env_cfg E) prevOrigin newOrigin (with_net dp n))
          in case stage_panic dp of Some m \<Rightarrow> (Some (GoPanic m), dp) | None \<Rightarrow> (None, dp\<lparr>dp_origin := newOrigin\<rparr>))"

text \<open>\<open>Step\<close>: \<open>None\<close> if the walk back does not end. A result without attributes and error is \<open>Inr None\<close>.\<close>

definition Step ::
  "('al, 'au, 's, 'n, 'r) env \<Rightarrow> L2BlockRef \<Rightarrow> ('s, 'n) DerivationPipeline \<Rightarrow>
     ((derive_error + AttributesWithParent option) \<times> ('s, 'n) DerivationPipeline) option" where
  "Step E pendingSafeHead dp =
     (if dp_resetting dp < stage_count
      then if \<not> dp_engineIsReset dp
           then Some (Inl (NewResetError ''cannot continue derivation until Engine has been reset''), dp)
           else case (if pendingSafeHead \<noteq> dp_resetL2Safe dp then initialReset E pendingSafeHead dp else Some (None, dp)) of
                  None \<Rightarrow> None
                | Some (Some err, dp) \<Rightarrow> Some (Inl err, dp)
                | Some (None, dp) \<Rightarrow>
                   (case reset_stage E (dp_resetting dp) dp of
                      (Some err, dp) \<Rightarrow>
                        if err = IoEOF then Some (Inr None, dp\<lparr>dp_resetting := dp_resetting dp + 1\<rparr>) else Some (Inl err, dp)
                    | (None, dp) \<Rightarrow> Some (Inr None, dp))
      else case change_origin E dp of
        (Some err, dp) \<Rightarrow> Some (Inl err, dp)
      | (None, dp) \<Rightarrow>
         (case pull_attributes E pendingSafeHead dp of
            (r, dp) \<Rightarrow>
              (case stage_panic dp of
                 Some m \<Rightarrow> Some (Inl (GoPanic m), dp)
               | None \<Rightarrow>
                  (case r of
                     Inr attrib \<Rightarrow> Some (Inr (Some attrib), dp)
                   | Inl err \<Rightarrow>
                       if err = IoEOF
                       then (case advance_origin E dp of
                               (None, dp) \<Rightarrow> Some (Inr None, dp)
                             | (Some e, dp) \<Rightarrow> Some (Inl e, dp))
                       else Some (Inl err, dp)))))"


section \<open>Forks at a change of origin\<close>

text \<open>No Mantle fork before Arsia becomes active between two times.\<close>

definition quiet :: "Config \<Rightarrow> u64 \<Rightarrow> u64 \<Rightarrow> bool" where
  "quiet cfg old new \<longleftrightarrow>
     list_all (\<lambda>f. IsMantleForkActive cfg f new = Inr True \<longrightarrow> IsMantleForkActive cfg f old = Inr True)
       [MantleBaseFee, MantleEverest, MantleEuboea, MantleSkadi, MantleLimb]"

lemma aligned_active:
  assumes "AlignOpWithMantle c = (e, cfg)"
  shows "IsHolocene cfg t = (IsMantleForkActive cfg MantleArsia t = Inr True)"
    and "(IsForkActive cfg Canyon t = Inr True) = IsHolocene cfg t"
    and "(IsForkActive cfg Holocene t = Inr True) = IsHolocene cfg t"
  using AlignOpWithMantle_times [OF assms]
  by (simp_all add: IsFork_active_at IsMantleForkActive_iff IsForkActive_iff)

text \<open>In an aligned configuration the loop over the OP forks does not pick Holocene, since it finds Canyon first.\<close>

lemma aligned_transformStages:
  assumes "AlignOpWithMantle c = (e, cfg)"
  shows "transformStages cfg old new dp = dp"
proof -
  have "IsActivationBlock cfg s t \<noteq> Holocene" for s t
    using aligned_active [OF assms] by (auto simp: IsActivationBlock_def scheduleableForks_eq)
  moreover have "transform_all f dp = dp" if "f \<noteq> Holocene" for f
    using that by (cases f) (auto simp: transform_all_def mux_Transform_def fq_Transform_def bm_Transform_def)
  ultimately show ?thesis by (simp add: transformStages_def Let_def)
qed

lemma IsMantleActivationBlock_Arsia:
  assumes "quiet cfg old new"
  shows "IsMantleActivationBlock cfg old new = MantleArsia \<longleftrightarrow>
    IsMantleForkActive cfg MantleArsia new = Inr True \<and> IsMantleForkActive cfg MantleArsia old \<noteq> Inr True"
  using assms
  by (auto simp: IsMantleActivationBlock_def scheduleableMantleForks_eq AllMantleForks_def quiet_def)

lemma aligned_transform:
  assumes "AlignOpWithMantle c = (e, cfg)" and "quiet cfg (l1_Time old) (l1_Time new)"
  shows "transformMantleStages cfg old new (transformStages cfg old new dp) =
    (if IsHolocene cfg (l1_Time new) \<and> \<not> IsHolocene cfg (l1_Time old) then transform_all Holocene dp else dp)"
proof (cases "IsHolocene cfg (l1_Time new) \<and> \<not> IsHolocene cfg (l1_Time old)")
  case True
  then have "IsMantleActivationBlock cfg (l1_Time old) (l1_Time new) = MantleArsia"
    using IsMantleActivationBlock_Arsia [OF assms(2)] aligned_active(1) [OF assms(1)] by simp
  with True show ?thesis
    by (simp add: aligned_transformStages [OF assms(1)] transformMantleStages_def)
next
  case False
  then have "IsMantleActivationBlock cfg (l1_Time old) (l1_Time new) \<noteq> MantleArsia"
    using IsMantleActivationBlock_Arsia [OF assms(2)] aligned_active(1) [OF assms(1)] by simp
  with False show ?thesis
    by (auto simp: aligned_transformStages [OF assms(1)] transformMantleStages_def split: MantleForkName.splits)
qed

section \<open>The stages fit the fork\<close>

text \<open>Before Holocene the channel bank and the batch queue, from Holocene on the channel assembler and the batch stage, each
  in a consistent state.\<close>

definition source_fits :: "bool \<Rightarrow> ('s, 'n) source \<Rightarrow> bool" where
  "source_fits holocene = (\<lambda>(cr, c, fq, r). list_all frame_wf (fq_frames fq) \<and>
     (if holocene then \<exists>ca. c = Assembler ca \<and> asm_inv (ca_channel ca) else \<exists>cb cs. c = Bank cb \<and> rep cs cb))"

definition batch_fits :: "bool \<Rightarrow> batch_stage \<Rightarrow> bool" where
  "batch_fits holocene b \<longleftrightarrow> (if holocene then \<exists>bs. b = HoloceneStage bs else \<exists>bq. b = QueueStage bq)"

definition stages_fit :: "Config \<Rightarrow> ('s, 'n) DerivationPipeline \<Rightarrow> bool" where
  "stages_fit cfg dp \<longleftrightarrow>
     (let h = IsHolocene cfg (l1_Time (dp_origin dp)) in source_fits h (dp_source dp) \<and> batch_fits h (dp_batch dp))"

lemma fits_no_panic: "stages_fit cfg dp \<Longrightarrow> stage_panic dp = None"
  by (auto simp: stages_fit_def Let_def source_fits_def batch_fits_def stage_panic_def split: prod.splits if_splits)

text \<open>What every call of the stage before keeps is kept by the batch queue, and by the batch stage if flushing keeps it too.\<close>

locale batch_source_inv =
  fixes prev :: "'p NextBatchProvider" and P :: "'p \<Rightarrow> bool"
  assumes NextBatch_keeps: "P p \<Longrightarrow> prev_NextBatch prev p = (r, p') \<Longrightarrow> P p'"
begin

lemma bq_NextBatch_keeps:
  assumes "P p" and "bq_NextBatch cfg prev l2 parent (bq, p) = (r, bq', p')"
  shows "P p'"
  using assms
  by (auto simp: bq_NextBatch_def Let_def dest: NextBatch_keeps
      split: prod.splits sum.splits option.splits if_splits)

end

locale flushed_source_inv = batch_source_inv +
  assumes Flush_keeps: "P p \<Longrightarrow> P (prev_FlushChannel prev p)"
begin

lemma bst_NextBatch_keeps:
  assumes "P p" and "bst_NextBatch cfg prev l2 parent (bs, p) = (r, bs', p')"
  shows "P p'"
  using assms
  by (auto simp: bst_NextBatch_def nextSingularBatchCandidate_def bst_FlushChannel_def Let_def
      dest: NextBatch_keeps intro!: Flush_keeps
      split: prod.splits sum.splits option.splits if_splits Batch.splits BatchValidity.splits)

end


lemma bank_frames_wf:
  assumes "NextRawChannel spec (NextFrame cfg nextData Orig) prevOrigin (cb, fq, q) = Inr (r, cb', fq', q')"
    and "list_all frame_wf (fq_frames fq)"
  shows "list_all frame_wf (fq_frames fq')"
  using assms frame_queue.pull_inv [of "(fq, q)" cfg nextData Orig _ "(fq', q')"]
  by (auto simp: NextRawChannel_def split: prod.splits sum.splits if_splits)

lemma mux_bank:
  assumes "rep cs cb" and "list_all frame_wf (fq_frames fq)"
  shows "\<exists>r cs' cb' fq' q'. mux_NextRawChannel spec (NextFrame cfg nextData Orig) prevOrigin (Bank cb, fq, q) = (r, Bank cb', fq', q') \<and>
    rep cs' cb' \<and> list_all frame_wf (fq_frames fq')"
proof -
  obtain r cs' cb' fq' q' where
    n: "NextRawChannel spec (NextFrame cfg nextData Orig) prevOrigin (cb, fq, q) = Inr (r, cb', fq', q')" "rep cs' cb'"
    using NextRawChannel_rep [OF assms(1), of spec "NextFrame cfg nextData Orig" prevOrigin "(fq, q)"] by auto
  from bank_frames_wf [OF n(1) assms(2)] n show ?thesis by (fastforce simp: mux_NextRawChannel_def)
qed

interpretation bank_source: batch_source_inv "derivation_source L cfg rlpDecode fetcher dsCfg" "source_fits False"
  for L cfg rlpDecode fetcher dsCfg
proof
  fix p r p'
  assume f: "source_fits False p" and n: "prev_NextBatch (derivation_source L cfg rlpDecode fetcher dsCfg) p = (r, p')"
  obtain cr cb cs fq q where p: "p = (cr, Bank cb, fq, q)" "rep cs cb" "list_all frame_wf (fq_frames fq)"
    using f by (cases p) (auto simp: source_fits_def)
  from mux_bank [OF p(2,3), of "NewChainSpec cfg" cfg "NextData rlpDecode fetcher dsCfg" l1r_Origin "\<lambda>(fq, p). l1r_Origin p" q]
  obtain x cs' cb' fq' q' where
    m: "mux_NextRawChannel (NewChainSpec cfg) (NextFrame cfg (NextData rlpDecode fetcher dsCfg) l1r_Origin) (\<lambda>(fq, p). l1r_Origin p)
      (Bank cb, fq, q) = (x, Bank cb', fq', q')" "rep cs' cb'" "list_all frame_wf (fq_frames fq')"
    by blast
  show "source_fits False p'"
    using n p m
    by (auto simp: derivation_source_def cr_provider_def mux_provider_def cr_NextBatch_def source_fits_def
        split: option.splits prod.splits sum.splits)
qed

lemma assembler_ok_fits: "assembler_ok = source_fits True"
  by (auto simp: fun_eq_iff assembler_ok_def source_fits_def)

interpretation assembler_source: flushed_source_inv "derivation_source L cfg rlpDecode fetcher dsCfg" "source_fits True"
  for L cfg rlpDecode fetcher dsCfg
proof
  fix p r p'
  show "source_fits True p'" if "source_fits True p" "prev_NextBatch (derivation_source L cfg rlpDecode fetcher dsCfg) p = (r, p')"
    using reader_step_ok [of p L cfg rlpDecode fetcher dsCfg PullBatch] that by (simp add: assembler_ok_fits)
  show "source_fits True (prev_FlushChannel (derivation_source L cfg rlpDecode fetcher dsCfg) p)" if "source_fits True p"
    using reader_step_ok [of p L cfg rlpDecode fetcher dsCfg FlushReader] that by (simp add: assembler_ok_fits)
qed

lemma source_fits_map_net: "map_net f p = (x, p') \<Longrightarrow> source_fits h p' = source_fits h p"
  by (auto simp: map_net_def source_fits_def split: prod.splits)

lemma bm_NextBatch_fits:
  assumes "source_fits h p" and "batch_fits h b"
    and "bm_NextBatch cfg (derivation_source L cfg' rlpDecode fetcher dsCfg) l2 parent (b, p) = (r, b', p')"
  shows "source_fits h p' \<and> batch_fits h b'"
  using assms
  by (cases h)
    (auto simp: bm_NextBatch_def batch_fits_def split: prod.splits
      dest: bank_source.bq_NextBatch_keeps assembler_source.bst_NextBatch_keeps)

abbreviation env_builder :: "('al, 'au, 's, 'n, 'r) env \<Rightarrow> (batch_stage \<times> ('s, 'n) source) builder" where
  "env_builder E \<equiv> \<lambda>parent epoch (b, src). case map_net (PreparePayloadAttributes E parent epoch) src of (r, src') \<Rightarrow> (r, b, src')"

lemma createNextAttributes_fits:
  assumes "createNextAttributes cfg (env_builder E) batch parent (b, p) = (r, b', p')"
  shows "source_fits h p' = source_fits h p \<and> b' = b"
proof -
  obtain x q where Pair: "map_net (PreparePayloadAttributes E parent (sb_Epoch batch)) p = (x, q)" by (metis surj_pair)
  with assms source_fits_map_net [OF Pair, of h] show ?thesis
    by (auto simp: createNextAttributes_def split: sum.splits if_splits)
qed

lemma build_attributes_fits:
  assumes "build_attributes cfg (env_builder E) O' parent batch (aq, b, p) = (r, aq', b', p')"
  shows "source_fits h p' = source_fits h p \<and> b' = b"
proof (cases "createNextAttributes cfg (env_builder E) batch parent (b, p)")
  case (fields x b1 q)
  with assms createNextAttributes_fits [OF fields, of h] show ?thesis
    by (auto simp: build_attributes_def Let_def split: sum.splits)
qed

lemma pull_attributes_fits:
  assumes f: "source_fits h (dp_source dp)" "batch_fits h (dp_batch dp)" and p: "pull_attributes E parent dp = (r, dp')"
  shows "source_fits h (dp_source dp') \<and> batch_fits h (dp_batch dp') \<and> dp_origin dp' = dp_origin dp"
proof -
  let ?src = "derivation_source (env_libs E) (env_cfg E) (env_rlp E) (env_l1 E) (env_dsCfg E)"
  obtain aq b src where n: "NextAttributes (env_cfg E) (env_builder E) (bm_NextBatch (env_cfg E) ?src (env_l2 E))
      (\<lambda>(b, src). src_Origin src) parent (dp_attrib dp, dp_batch dp, dp_source dp) = (r, aq, b, src)"
    and dp: "dp' = dp\<lparr>dp_attrib := aq, dp_batch := b, dp_source := src\<rparr>"
    using p by (auto simp: pull_attributes_def split: prod.splits)
  have "source_fits h src \<and> batch_fits h b"
  proof (cases "aq_batch (dp_attrib dp)")
    case (Some batch)
    with n f build_attributes_fits show ?thesis by (fastforce simp: NextAttributes_def)
  next
    case None
    obtain x b1 p1 where m: "bm_NextBatch (env_cfg E) ?src (env_l2 E) parent (dp_batch dp, dp_source dp) = (x, b1, p1)"
      by (metis prod_cases3)
    note g = bm_NextBatch_fits [OF f m]
    show ?thesis
    proof (cases x)
      case (Inl err)
      with m None n g show ?thesis by (simp add: NextAttributes_def)
    next
      case (Inr y)
      with m None n have "build_attributes (env_cfg E) (env_builder E) (\<lambda>(b, src). src_Origin src) parent (fst y)
          ((dp_attrib dp)\<lparr>aq_batch := Some (fst y), aq_concluding := snd y\<rparr>, b1, p1) = (r, aq, b, src)"
        by (simp add: NextAttributes_def split: prod.splits)
      from build_attributes_fits [OF this, of h] g show ?thesis by simp
    qed
  qed
  then show ?thesis by (simp add: dp)
qed


lemma stage_panic_origin [simp]: "stage_panic (dp\<lparr>dp_origin := x\<rparr>) = stage_panic dp"
  by (simp add: stage_panic_def split: batch_stage.split)

lemma IsHolocene_mono: "IsHolocene cfg s \<Longrightarrow> s \<le> t \<Longrightarrow> IsHolocene cfg t"
  by (auto simp: IsFork_active_at active_at_def split: option.splits)

lemma with_net_fits [simp]:
  "stages_fit cfg (with_net dp n) = stages_fit cfg dp" "dp_origin (with_net dp n) = dp_origin dp"
  by (auto simp: stages_fit_def with_net_def map_net_def source_fits_def Let_def split: prod.splits)

lemma transform_fits:
  assumes "source_fits False (dp_source dp)" and "batch_fits False (dp_batch dp)"
  shows "source_fits True (dp_source (transform_all Holocene dp)) \<and> batch_fits True (dp_batch (transform_all Holocene dp))"
  using assms
  by (auto simp: transform_all_def source_fits_def batch_fits_def mux_Transform_def TransformHolocene_def fq_Transform_def
      fq_reset_def bm_Transform_def bm_TransformHolocene_def NewChannelAssembler_def split: prod.splits)

lemma VerifyNewL1Origin_no_panic: "fst (VerifyNewL1Origin byNumber old new n) \<noteq> Some (GoPanic m)"
  by (auto simp: VerifyNewL1Origin_def NewResetError_def NewTemporaryError_def split: prod.splits sum.splits)

lemma change_origin_ok:
  assumes al: "AlignOpWithMantle c = (e, env_cfg E)" and fit: "stages_fit (env_cfg E) dp"
    and le: "l1_Time (dp_origin dp) \<le> l1_Time (src_Origin (dp_source dp))"
    and q: "quiet (env_cfg E) (l1_Time (dp_origin dp)) (l1_Time (src_Origin (dp_source dp)))"
    and ch: "change_origin E dp = (x, dp')"
  shows "stages_fit (env_cfg E) dp'" and "x \<noteq> Some (GoPanic m)"
    and "dp_origin dp' = (if x = None then src_Origin (dp_source dp) else dp_origin dp)"
proof -
  let ?old = "dp_origin dp" and ?new = "src_Origin (dp_source dp)"
  obtain y n where v: "VerifyNewL1Origin (L1BlockRefByNumber E) ?old ?new (net_of dp) = (y, n)" by force
  let ?tr = "transformMantleStages (env_cfg E) ?old ?new (transformStages (env_cfg E) ?old ?new (with_net dp n))"
  have f: "stages_fit (env_cfg E) (?tr\<lparr>dp_origin := ?new\<rparr>) \<and> stages_fit (env_cfg E) (dp\<lparr>dp_origin := dp_origin dp\<rparr>)"
    unfolding aligned_transform [OF al q]
    using transform_fits [of "with_net dp n"] fit IsHolocene_mono [OF _ le, of "env_cfg E"] with_net_fits(1) [of "env_cfg E" dp n]
    by (cases "IsHolocene (env_cfg E) (l1_Time ?old)") (auto simp: stages_fit_def Let_def)
  then have s: "stage_panic ?tr = None" using fits_no_panic [of "env_cfg E" "?tr\<lparr>dp_origin := ?new\<rparr>"] by simp
  show "stages_fit (env_cfg E) dp'" using ch v fit f s by (auto simp: change_origin_def Let_def split: if_splits option.splits)
  show "x \<noteq> Some (GoPanic m)"
    using ch v s VerifyNewL1Origin_no_panic [of "L1BlockRefByNumber E" ?old ?new "net_of dp" m]
    by (auto simp: change_origin_def Let_def split: if_splits option.splits)
  show "dp_origin dp' = (if x = None then src_Origin (dp_source dp) else dp_origin dp)"
    using ch v s by (auto simp: change_origin_def Let_def with_net_def split: if_splits option.splits)
qed

lemma advance_origin_fits:
  assumes "advance_origin E dp = (x, dp')" and "stages_fit cfg dp"
  shows "stages_fit cfg dp'"
  using assms by (auto simp: advance_origin_def stages_fit_def source_fits_def Let_def split: prod.splits)

section \<open>Resets\<close>






text \<open>A number of steps for the same safe head.\<close>

fun run_steps ::
  "('al, 'au, 's, 'n, 'r) env \<Rightarrow> L2BlockRef \<Rightarrow> nat \<Rightarrow> ('s, 'n) DerivationPipeline \<Rightarrow> ('s, 'n) DerivationPipeline option" where
  "run_steps E head 0 dp = Some dp"
| "run_steps E head (Suc k) dp = (case Step E head dp of None \<Rightarrow> None | Some (r, dp') \<Rightarrow> run_steps E head k dp')"


text \<open>The stages after a complete reset to \<open>origin\<close>.\<close>

lemma mux_Reset_fits: "source_fits (IsHolocene cfg (l1_Time o')) (cr, snd (mux_Reset (NewChainSpec cfg) o' c), NewFrameQueue, r)"
  using rep_NewChannelBank(2)
  by (auto simp: source_fits_def mux_Reset_def Let_def ca_Reset_def resetChannel_def NewFrameQueue_def NewChainSpec_def cb_Reset_def
      split: channel_stage.splits)

lemma bm_Reset_fits: "batch_fits (IsHolocene cfg (l1_Time o')) (snd (bm_Reset cfg o' b))"
  by (simp add: batch_fits_def bm_Reset_def Let_def bst_Reset_def bq_Reset_def)

lemma Reset_EOF: "fst (mux_Reset spec o' c) = Some IoEOF" "fst (bm_Reset cfg o' b) = Some IoEOF"
  by (simp_all add: mux_Reset_def bm_Reset_def Let_def ca_Reset_def cb_Reset_def bst_Reset_def bq_Reset_def)

lemma reset_run:
  assumes e: "dp_resetting dp = 0" "dp_engineIsReset dp" and i: "dp_resetL2Safe dp = head"
    and o: "l1r_Reset (env_l1 E) (env_dsCfg E) (dp_origin dp) (dp_resetSysConfig dp)
        ((snd (snd (snd (dp_source dp))))\<lparr>l1r_prev := snd (l1t_Reset (dp_origin dp) (dp_resetSysConfig dp) (l1r_prev (snd (snd (snd (dp_source dp))))))\<rparr>) = (IoEOF, r1)"
    and a: "altDA_Reset E (dp_origin dp) (dp_resetSysConfig dp) (l1r_net r1) = (Some IoEOF, n1)"
  shows "\<exists>dp'. run_steps E head 8 dp = Some dp' \<and> DerivationReady dp' \<and> stages_fit (env_cfg E) dp' \<and>
    dp_origin dp' = dp_origin dp \<and> src_Origin (dp_source dp') = dp_origin dp \<and> aq_batch (dp_attrib dp') = None"
proof -
  obtain cr c fq r where s: "dp_source dp = (cr, c, fq, r)" by (cases "dp_source dp")
  obtain cm where m: "mux_Reset (NewChainSpec (env_cfg E)) (dp_origin dp) c = (Some IoEOF, cm)"
    using Reset_EOF(1) by (metis prod.collapse)
  obtain b where b: "bm_Reset (env_cfg E) (dp_origin dp) (dp_batch dp) = (Some IoEOF, b)"
    using Reset_EOF(2) by (metis prod.collapse)
  define dp' where "dp' = dp\<lparr>dp_resetting := 8, dp_batch := b, dp_attrib := snd (aq_Reset (dp_attrib dp)),
    dp_source := (snd (cr_Reset cr), cm, NewFrameQueue, r1\<lparr>l1r_net := n1\<rparr>)\<rparr>"
  have k: "8 = Suc (Suc (Suc (Suc (Suc (Suc (Suc (Suc 0)))))))" by simp
  have "run_steps E head 8 dp = Some dp'"
    unfolding k using e i o a s m b
    by (simp add: Step_def reset_stage_def stage_count_def l1t_Reset_def fq_Reset_def fq_reset_def cr_Reset_def aq_Reset_def
        dp'_def NewFrameQueue_def)
  moreover have "l1r_Origin r1 = dp_origin dp"
    using o s by (auto simp: l1r_Reset_def l1t_Reset_def l1r_Origin_def split: prod.splits sum.splits)
  moreover have "stages_fit (env_cfg E) dp'"
    using mux_Reset_fits [of "env_cfg E" "dp_origin dp" _ c] bm_Reset_fits [of "env_cfg E" "dp_origin dp" "dp_batch dp"] m b
    by (simp add: stages_fit_def dp'_def)
  ultimately show ?thesis
    using e by (simp add: dp'_def DerivationReady_def stage_count_def src_Origin_def aq_Reset_def l1r_Origin_def)
qed


section \<open>Properties\<close>

text \<open>C4: The active stages always fit the fork. In a configuration aligned with Arsia, a step of a pipeline that is not being reset
  returns, and if bank and queue are active before Holocene and assembler and batch stage from then on, the same holds after
  the step, at the origin it moved to; if it did not move to the origin of the traversal, the step gives an error. The change of stages happens once, at the first origin
  with Holocene active, and does not panic; bank and queue are never flushed. Asked of the L1 chain and the schedule: time does not go back, and no Mantle fork before
  Arsia becomes active between the two origins.\<close>

theorem Step_keeps_stages:
  assumes "AlignOpWithMantle c = (e, env_cfg E)" and "stage_count \<le> dp_resetting dp" and "stages_fit (env_cfg E) dp"
    and "l1_Time (dp_origin dp) \<le> l1_Time (src_Origin (dp_source dp))"
    and "quiet (env_cfg E) (l1_Time (dp_origin dp)) (l1_Time (src_Origin (dp_source dp)))"
  shows "\<exists>r dp'. Step E head dp = Some (r, dp') \<and> stages_fit (env_cfg E) dp' \<and>
    (dp_origin dp' = src_Origin (dp_source dp) \<or> dp_origin dp' = dp_origin dp \<and> (\<exists>err. r = Inl err)) \<and>
    (\<forall>m. fst (change_origin E dp) \<noteq> Some (GoPanic m))"
proof -
  obtain x dp1 where ch: "change_origin E dp = (x, dp1)" by force
  note c = change_origin_ok [OF assms(1,3,4,5) ch]
  obtain r dp2 where pl: "pull_attributes E head dp1 = (r, dp2)" by force
  have f2: "stages_fit (env_cfg E) dp2" "dp_origin dp2 = dp_origin dp1"
    using pull_attributes_fits [OF _ _ pl] c(1) by (auto simp: stages_fit_def Let_def)
  obtain y dp3 where ad: "advance_origin E dp2 = (y, dp3)" by force
  have f3: "stages_fit (env_cfg E) dp3" "dp_origin dp3 = dp_origin dp2"
    using advance_origin_fits [OF ad f2(1)] ad by (auto simp: advance_origin_def split: prod.splits)
  have "\<exists>r dp'. Step E head dp = Some (r, dp') \<and> stages_fit (env_cfg E) dp' \<and>
      (dp_origin dp' = src_Origin (dp_source dp) \<or> dp_origin dp' = dp_origin dp \<and> (\<exists>err. r = Inl err))"
  proof (cases x)
    case None
    with assms(2) ch pl ad c(3) f2 f3 fits_no_panic [OF f2(1)] show ?thesis
      by (cases y) (auto simp: Step_def split: sum.splits)
  next
    case (Some err)
    with assms(2) ch c(1,3) show ?thesis by (auto simp: Step_def)
  qed
  then show ?thesis using c(2) ch by auto
qed

definition sample_env :: "(unit, unit, byte list list, unit, unit) env" where
  "sample_env = \<lparr>env_libs = sample_libraries, env_cfg = sample_aligned, env_rlp = sample_rlp,
     env_l1 = Data_Source.sample_fetcher, env_dsCfg = sample_dsCfg, env_l2 = Batches.sample_fetcher,
     L1BlockRefByNumber = (\<lambda>k n. (Inl NotFound, n)),
     L1BlockRefByHash = (\<lambda>h n. (Inr \<lparr>l1_Hash = h, l1_Number = 100, l1_ParentHash = 0, l1_Time = 1990\<rparr>, n)),
     FetchReceipts = (\<lambda>h n. (Inr (), n)), env_updateSysCfg = (\<lambda>c r t. c),
     L2BlockRefByHash = (\<lambda>h n. (Inl NotFound, n)), SystemConfigByL2Hash = (\<lambda>h n. (Inr zero_SystemConfig, n)),
     PreparePayloadAttributes = (\<lambda>parent epoch n. (Inl (NewTemporaryError ''builder''), n)),
     altDA_Reset = (\<lambda>base cfg n. (Some IoEOF, n))\<rparr>"

text \<open>A pipeline before Arsia whose traversal stands at a block with a later time.\<close>

definition sample_pipeline :: "(byte list list, unit) DerivationPipeline" where
  "sample_pipeline = \<lparr>dp_resetting = 8, dp_origin = \<lparr>l1_Hash = 1, l1_Number = 100, l1_ParentHash = 0, l1_Time = 1990\<rparr>,
     dp_resetL2Safe = zero_L2BlockRef, dp_resetSysConfig = zero_SystemConfig, dp_engineIsReset = True,
     dp_attrib = NewAttributesQueue, dp_batch = QueueStage NewBatchQueue,
     dp_source = (NewChannelInReader, Bank NewChannelBank, NewFrameQueue,
       snd (snd (snd (sample_stack \<lparr>l1_Hash = 2, l1_Number = 101, l1_ParentHash = 1, l1_Time = 2002\<rparr>))))\<rparr>"

lemma sample_pipeline_origin:
  "l1_Time (src_Origin (dp_source sample_pipeline)) = 2002" "l1_Time (dp_origin sample_pipeline) = 1990"
  "dp_resetting sample_pipeline = 8"
  by (simp_all add: sample_pipeline_def src_Origin_def sample_stack_def l1r_Origin_def)

lemma sample_pipeline_fits: "HoloceneTime cfg = Some 2000 \<Longrightarrow> stages_fit cfg sample_pipeline"
  using rep_NewChannelBank(1)
  by (auto simp: stages_fit_def sample_pipeline_def source_fits_def batch_fits_def NewFrameQueue_def IsFork_active_at)

lemma sample_quiet: "quiet sample_aligned 1990 2002"
  by code_simp

theorem Step_keeps_stages_witness:
  "\<exists>r dp'. Step sample_env sample_head sample_pipeline = Some (r, dp') \<and> stages_fit sample_aligned dp' \<and>
    (dp_origin dp' = src_Origin (dp_source sample_pipeline) \<or> dp_origin dp' = dp_origin sample_pipeline \<and> (\<exists>err. r = Inl err)) \<and>
    (\<forall>m. fst (change_origin sample_env sample_pipeline) \<noteq> Some (GoPanic m))"
proof -
  have c: "env_cfg sample_env = sample_aligned" by (simp add: sample_env_def)
  show ?thesis
    unfolding c [symmetric] using sample_align sample_pipeline_fits sample_quiet
    by (intro Step_keeps_stages) (simp_all add: c sample_pipeline_origin stage_count_def)
qed

text \<open>If another Mantle fork becomes active between the same two L1 origins as Arsia, the stages are not changed: the loop over the
  Mantle forks reports only the first fork that became active, and only Arsia is acted upon. Bank and queue then stay in
  place although Holocene is active, and since the fork is no longer new at later origins they stay there.\<close>

theorem arsia_change_skipped:
  assumes "AlignOpWithMantle c = (e, cfg)" and "stages_fit cfg dp"
    and "f \<in> {MantleBaseFee, MantleEverest, MantleEuboea, MantleSkadi, MantleLimb}"
    and "IsMantleForkActive cfg f (l1_Time new) = Inr True" and "IsMantleForkActive cfg f (l1_Time (dp_origin dp)) \<noteq> Inr True"
    and "IsHolocene cfg (l1_Time new)" and "\<not> IsHolocene cfg (l1_Time (dp_origin dp))"
  shows "transformMantleStages cfg (dp_origin dp) new (transformStages cfg (dp_origin dp) new dp) = dp \<and>
    \<not> stages_fit cfg (dp\<lparr>dp_origin := new\<rparr>)"
proof
  have "IsMantleActivationBlock cfg (l1_Time (dp_origin dp)) (l1_Time new) \<noteq> MantleArsia"
    using assms(3-5) by (auto simp: IsMantleActivationBlock_def scheduleableMantleForks_eq AllMantleForks_def)
  then show "transformMantleStages cfg (dp_origin dp) new (transformStages cfg (dp_origin dp) new dp) = dp"
    by (auto simp: transformMantleStages_def aligned_transformStages [OF assms(1)] split: MantleForkName.splits)
  show "\<not> stages_fit cfg (dp\<lparr>dp_origin := new\<rparr>)"
    using assms(2,6,7) by (auto simp: stages_fit_def Let_def batch_fits_def)
qed

theorem arsia_change_skipped_witness:
  "\<exists>cfg. AlignOpWithMantle (sample_config\<lparr>MantleLimbTime := Some 2000\<rparr>) = (None, cfg) \<and>
     transformMantleStages cfg (dp_origin sample_pipeline) (src_Origin (dp_source sample_pipeline))
       (transformStages cfg (dp_origin sample_pipeline) (src_Origin (dp_source sample_pipeline)) sample_pipeline) = sample_pipeline \<and>
     \<not> stages_fit cfg (sample_pipeline\<lparr>dp_origin := src_Origin (dp_source sample_pipeline)\<rparr>)"
proof -
  obtain cfg where a: "AlignOpWithMantle (sample_config\<lparr>MantleLimbTime := Some 2000\<rparr>) = (None, cfg)"
    and t: "HoloceneTime cfg = Some 2000" "MantleLimbTime cfg = Some 2000"
    by (simp add: sample_config_def AlignOpWithMantle_def Let_def CheckMantleForks_def)
  have l: "IsMantleForkActive cfg MantleLimb x = Inr b \<longleftrightarrow> b = active_at (Some 2000) x" for x b
    using t(2) by (simp add: IsMantleForkActive_iff)
  show ?thesis
    using arsia_change_skipped [OF a sample_pipeline_fits [OF t(1)], of MantleLimb "src_Origin (dp_source sample_pipeline)"] a t
    by (auto simp: l IsFork_active_at sample_pipeline_origin)
qed



text \<open>C30: A reset completes. Once the engine is confirmed to be reset and the work before the reset succeeds, eight steps for the same safe head
  reset all stages, provided the data source of the origin can be opened and the stage for alternative data gives its
  end of reset. The pipeline is then ready, stands at the origin it was rewound to, holds no batch, and its stages fit the fork.\<close>

theorem reset_completes:
  assumes "dp_resetting dp = 0" and "dp_engineIsReset dp" and "dp_resetL2Safe dp \<noteq> head"
    and "initialReset E head dp = Some (None, dp0)"
    and "OpenData (env_l1 E) (env_dsCfg E) (ds_Reset (l1r_dataSrc (snd (snd (snd (dp_source dp0)))))) (dp_origin dp0)
      (BatcherAddr (dp_resetSysConfig dp0)) (net_of dp0) = (Inr it, n1)"
    and "altDA_Reset E (dp_origin dp0) (dp_resetSysConfig dp0) n1 = (Some IoEOF, n2)"
  shows "\<exists>dp'. run_steps E head 8 dp = Some dp' \<and> DerivationReady dp' \<and> stages_fit (env_cfg E) dp' \<and>
    dp_origin dp' = dp_origin dp0 \<and> src_Origin (dp_source dp') = dp_origin dp0 \<and> aq_batch (dp_attrib dp') = None"
proof -
  have d: "dp_resetting dp0 = 0" "dp_engineIsReset dp0" "dp_resetL2Safe dp0 = head"
    using assms(1,2,4) by (auto simp: initialReset_def with_net_def split: prod.splits sum.splits option.splits)
  have "Step E head dp = Step E head dp0" using assms(1-4) d by (simp add: Step_def stage_count_def)
  then have "run_steps E head 8 dp = run_steps E head 8 dp0" by (simp add: eval_nat_numeral)
  moreover obtain cr c fq r where s: "dp_source dp0 = (cr, c, fq, r)" by (cases "dp_source dp0")
  ultimately show ?thesis
    using reset_run [OF d, of E] assms(5,6) s by (simp add: l1r_Reset_def l1t_Reset_def net_of_def)
qed


theorem reset_completes_witness:
  "\<exists>dp'. run_steps sample_env sample_head 8 (sample_pipeline\<lparr>dp_resetting := 0\<rparr>) = Some dp' \<and> DerivationReady dp' \<and>
    stages_fit sample_aligned dp' \<and> l1_Time (src_Origin (dp_source dp')) = 1990 \<and> aq_batch (dp_attrib dp') = None"
proof -
  let ?dp = "sample_pipeline\<lparr>dp_resetting := 0\<rparr>"
  have g: "bid_Number (gen_L1 (cfg_Genesis sample_aligned)) = 100" by code_simp
  obtain dp0 where i: "initialReset sample_env sample_head ?dp = Some (None, dp0)"
    and o: "l1_Time (dp_origin dp0) = 1990" and f: "l1r_dataSrc (snd (snd (snd (dp_source dp0)))) = NewDataSourceFactory sample_aligned True"
    by (auto simp: initialReset_def rewind.simps sample_env_def sample_head_def sample_pipeline_def with_net_def map_net_def
        sample_stack_def g)
  have "MantleEverestTime sample_aligned = Some 0" 
    by (simp add: sample_aligned_def sample_config_def AlignOpWithMantle_def Let_def)
  then obtain it n1 where "OpenData (env_l1 sample_env) (env_dsCfg sample_env) (ds_Reset (l1r_dataSrc (snd (snd (snd (dp_source dp0))))))
      (dp_origin dp0) (BatcherAddr (dp_resetSysConfig dp0)) (net_of dp0) = (Inr it, n1)"
    using o by (auto simp: f OpenData_def NewDataSourceFactory_def ds_Reset_def sample_env_def)
  from reset_completes [OF _ _ _ i this] o show ?thesis
    by (fastforce simp: sample_pipeline_def sample_env_def sample_head_def zero_L2BlockRef_def)
qed

end
