(* ===== verification/Solabi.thy ===== *)
theory Solabi
  imports Prelude
begin

text \<open>
  Readers and writers of Solidity's ABI encoding (\<open>op-service/solabi/util.go\<close>): every value takes a word of 32 bytes,
  numbers and addresses are padded with zeros on the left, and the readers reject any other padding. Each reader is
  shown to be the exact inverse of its writer.
\<close>

section \<open>Definitions\<close>

datatype abi_error = AbiIo io_error | AbiErr string

text \<open>\<open>binary.Write\<close> and \<open>binary.Read\<close> of an unsigned integer of \<open>n\<close> bytes, or of a byte array.\<close>

definition write_word :: "nat \<Rightarrow> 'a::len word \<Rightarrow> byte list" where
  "write_word n w = be_encode n (unat w)"

definition read_word :: "nat \<Rightarrow> byte list \<Rightarrow> io_error + 'a::len word \<times> byte list" where
  "read_word n bs = and_then (ReadFull n bs) (\<lambda>(x, r). Inr (word_of_nat (be_decode x), r))"

definition ReadAndValidateSignature :: "byte list \<Rightarrow> byte list \<Rightarrow> abi_error + byte list \<times> byte list" where
  "ReadAndValidateSignature expectedSignature bs =
     (case ReadFull 4 bs of
        Inl e \<Rightarrow> Inl (AbiIo e)
      | Inr (sig, r) \<Rightarrow>
          if sig \<noteq> expectedSignature then Inl (AbiErr ''invalid function signature'') else Inr (sig, r))"

definition ReadHash :: "byte list \<Rightarrow> abi_error + hash \<times> byte list" where
  "ReadHash bs = map_sum AbiIo id (read_word 32 bs)"

definition ReadEthBytes32 :: "byte list \<Rightarrow> abi_error + hash \<times> byte list" where
  "ReadEthBytes32 bs = map_sum AbiIo id (read_word 32 bs)"

text \<open>The padding that the readers of numbers and addresses have in common.\<close>

definition read_padding :: "nat \<Rightarrow> string \<Rightarrow> byte list \<Rightarrow> abi_error + byte list" where
  "read_padding n msg bs =
     (case ReadFull n bs of
        Inl e \<Rightarrow> Inl (AbiIo e)
      | Inr (p, r) \<Rightarrow> if p \<noteq> replicate n 0 then Inl (AbiErr msg) else Inr r)"

definition ReadAddress :: "byte list \<Rightarrow> abi_error + address \<times> byte list" where
  "ReadAddress bs =
     and_then (read_padding 12 ''address padding was not empty'' bs) (\<lambda>r. map_sum AbiIo id (read_word 20 r))"

definition ReadUint64 :: "byte list \<Rightarrow> abi_error + u64 \<times> byte list" where
  "ReadUint64 bs =
     and_then (read_padding 24 ''number padding was not empty'' bs)
       (\<lambda>r. map_sum (\<lambda>e. AbiErr ''expected number length to be 8 bytes'') id (read_word 8 r))"

definition ReadUint32 :: "byte list \<Rightarrow> abi_error + u32 \<times> byte list" where
  "ReadUint32 bs =
     and_then (read_padding 28 ''number padding was not empty'' bs)
       (\<lambda>r. map_sum (\<lambda>e. AbiErr ''expected number length to be 8 bytes'') id (read_word 4 r))"

definition ReadUint16 :: "byte list \<Rightarrow> abi_error + u16 \<times> byte list" where
  "ReadUint16 bs =
     and_then (read_padding 30 ''number padding was not empty'' bs)
       (\<lambda>r. map_sum (\<lambda>e. AbiErr ''expected number length to be 8 bytes'') id (read_word 2 r))"

definition ReadUint256 :: "byte list \<Rightarrow> abi_error + nat \<times> byte list" where
  "ReadUint256 bs = (case ReadFull 32 bs of Inl e \<Rightarrow> Inl (AbiIo e) | Inr (n, r) \<Rightarrow> Inr (be_decode n, r))"

definition EmptyReader :: "byte list \<Rightarrow> bool" where "EmptyReader bs \<longleftrightarrow> bs = []"

text \<open>The writers give the bytes they write; writing to a buffer does not fail.\<close>

definition WriteHash :: "hash \<Rightarrow> byte list" where "WriteHash h = write_word 32 h"

definition WriteEthBytes32 :: "hash \<Rightarrow> byte list" where "WriteEthBytes32 b = write_word 32 b"

definition WriteAddress :: "address \<Rightarrow> byte list" where "WriteAddress a = replicate 12 0 @ write_word 20 a"

definition WriteUint256 :: "nat \<Rightarrow> abi_error + byte list" where
  "WriteUint256 n = (if n \<ge> 2 ^ 256 then Inl (AbiErr ''big int exceeds 256 bits'') else Inr (be_encode 32 n))"

definition WriteUint64 :: "u64 \<Rightarrow> byte list" where "WriteUint64 n = replicate 24 0 @ write_word 8 n"


section \<open>Readers are the inverses of writers\<close>

lemma length_write_word [simp]: "length (write_word n w) = n"
  by (simp add: write_word_def)

lemma read_word_iff:
  assumes "8 * n = LENGTH('a::len)"
  shows "read_word n bs = Inr (w :: 'a word, r) \<longleftrightarrow> bs = write_word n w @ r"
proof -
  have p: "(256 :: nat) ^ n = 2 ^ LENGTH('a)" unfolding assms [symmetric] by (simp add: power_mult)
  have "write_word n (word_of_nat (be_decode x) :: 'a word) = x" if "length x = n" for x
    using that be_decode_less [of x] p by (simp add: write_word_def unat_of_nat be_encode_decode)
  moreover have "word_of_nat (be_decode (write_word n w)) = w"
    using unsigned_less [of w, where 'a = nat] p by (simp add: write_word_def)
  ultimately show ?thesis
    by (auto simp: read_word_def and_then_Inr_iff ReadFull_Inr_iff)
qed

lemma read_padding_iff: "read_padding n msg bs = Inr r \<longleftrightarrow> bs = replicate n 0 @ r"
  by (auto simp: read_padding_def ReadFull_Inr_iff split: sum.splits if_splits)

lemma ReadAndValidateSignature_iff:
  "ReadAndValidateSignature sig bs = Inr (s, r) \<longleftrightarrow> length sig = 4 \<and> s = sig \<and> bs = sig @ r"
  by (auto simp: ReadAndValidateSignature_def ReadFull_Inr_iff split: sum.splits if_splits)

text \<open>One interpretation of the contract of a binary format for each pair.\<close>

interpretation abi_hash: codec WriteHash ReadHash "\<lambda>_. True"
  by unfold_locales (auto simp: ReadHash_def WriteHash_def map_sum_Inr_iff read_word_iff simp flip: length_0_conv)

interpretation abi_bytes32: codec WriteEthBytes32 ReadEthBytes32 "\<lambda>_. True"
  by unfold_locales (auto simp: ReadEthBytes32_def WriteEthBytes32_def map_sum_Inr_iff read_word_iff simp flip: length_0_conv)

interpretation abi_address: codec WriteAddress ReadAddress "\<lambda>_. True"
  by unfold_locales (auto simp: ReadAddress_def WriteAddress_def map_sum_Inr_iff read_word_iff read_padding_iff and_then_Inr_iff)

interpretation abi_uint64: codec WriteUint64 ReadUint64 "\<lambda>_. True"
  by unfold_locales (auto simp: ReadUint64_def WriteUint64_def map_sum_Inr_iff read_word_iff read_padding_iff and_then_Inr_iff)

interpretation abi_uint256: codec "be_encode 32" ReadUint256 "\<lambda>n. n < 2 ^ 256"
proof unfold_locales
  show "x < 2 ^ 256 \<Longrightarrow> ReadUint256 (be_encode 32 x @ r) = Inr (x, r)" for x r by (simp add: ReadUint256_def)
  show "x < 2 ^ 256 \<and> bs = be_encode 32 x @ r" if "ReadUint256 bs = Inr (x, r)" for bs x r
  proof -
    from that obtain n where "bs = n @ r" "length n = 32" "x = be_decode n"
      by (auto simp: ReadUint256_def ReadFull_Inr_iff split: sum.splits)
    then show ?thesis using be_decode_less [of n] by (simp add: be_encode_decode)
  qed
  show "be_encode 32 x \<noteq> []" for x by (simp flip: length_0_conv)
qed

lemma ReadUint16_iff: "ReadUint16 bs = Inr (x, r) \<longleftrightarrow> bs = replicate 30 0 @ write_word 2 x @ r"
  by (auto simp: ReadUint16_def map_sum_Inr_iff read_word_iff read_padding_iff and_then_Inr_iff)

lemma ReadUint32_iff: "ReadUint32 bs = Inr (x, r) \<longleftrightarrow> bs = replicate 28 0 @ write_word 4 x @ r"
  by (auto simp: ReadUint32_def map_sum_Inr_iff read_word_iff read_padding_iff and_then_Inr_iff)

lemma WriteUint256_iff: "WriteUint256 n = Inr bs \<longleftrightarrow> n < 2 ^ 256 \<and> bs = be_encode 32 n"
  by (auto simp: WriteUint256_def)

text \<open>The facts with which parsers of several fields are inverted.\<close>

lemmas abi_iffs = and_then_Inr_iff ReadAndValidateSignature_iff abi_hash.dec_Inr_iff abi_bytes32.dec_Inr_iff
  abi_address.dec_Inr_iff abi_uint64.dec_Inr_iff abi_uint256.dec_Inr_iff ReadUint16_iff ReadUint32_iff read_word_iff
  WriteUint256_iff map_sum_Inr_iff

lemma abi_lengths [simp]:
  "length (WriteHash h) = 32" "length (WriteEthBytes32 b) = 32" "length (WriteAddress a) = 32" "length (WriteUint64 n) = 32"
  by (simp_all add: WriteHash_def WriteEthBytes32_def WriteAddress_def WriteUint64_def)

lemma Write_inject [simp]:
  "WriteHash a = WriteHash a' \<longleftrightarrow> a = a'" "WriteEthBytes32 b = WriteEthBytes32 b' \<longleftrightarrow> b = b'"
  "WriteAddress c = WriteAddress c' \<longleftrightarrow> c = c'" "WriteUint64 d = WriteUint64 d' \<longleftrightarrow> d = d'"
  using abi_hash.enc_inject abi_bytes32.enc_inject abi_address.enc_inject abi_uint64.enc_inject by blast+

lemma write_word_inject: "8 * n = LENGTH('a::len) \<Longrightarrow> write_word n w = write_word n w' \<longleftrightarrow> w = (w' :: 'a word)"
  using read_word_iff [of n "write_word n w" w "[]"] read_word_iff [of n "write_word n w" w' "[]"] by auto

end
