(* ===== verification/Receipts.thy ===== *)
theory Receipts
  imports Eth_Types
begin

text \<open>
  The receipts of an L1 block with their event logs, as \<open>core/types\<close> of go-ethereum gives them to the derivation, and what
  the two scans of them (deposits, system configuration updates) have in common. The hash function Keccak-256 is a parameter
  \<open>K\<close> from byte strings to hashes wherever it is used; no property of it is assumed.
\<close>

record Log =
  lg_Address :: address
  lg_Topics :: "hash list"
  lg_Data :: "byte list"
  lg_BlockHash :: hash
  lg_Index :: u64

record Receipt =
  rcp_Status :: u64
  rcp_Logs :: "Log list"

definition ReceiptStatusSuccessful :: u64 where "ReceiptStatusSuccessful = 1"

type_synonym keccak = "byte list \<Rightarrow> hash"

definition bytes_of :: "string \<Rightarrow> byte list" where
  "bytes_of s = map (\<lambda>c. word_of_nat (of_char c)) s"

text \<open>The condition under which a log is an event of the given contract, and all such logs of successful transactions in order.\<close>

definition is_event :: "address \<Rightarrow> hash \<Rightarrow> Log \<Rightarrow> bool" where
  "is_event addr topic lg \<longleftrightarrow> lg_Address lg = addr \<and> length (lg_Topics lg) > 0 \<and> lg_Topics lg ! 0 = topic"

definition events :: "address \<Rightarrow> hash \<Rightarrow> Receipt list \<Rightarrow> Log list" where
  "events addr topic rs =
     filter (is_event addr topic) (concat (map rcp_Logs (filter (\<lambda>r. rcp_Status r = ReceiptStatusSuccessful) rs)))"

lemma events_simps [simp]:
  "events addr topic [] = []"
  "events addr topic (r # rs) =
     (if rcp_Status r = ReceiptStatusSuccessful then filter (is_event addr topic) (rcp_Logs r) else []) @ events addr topic rs"
  by (auto simp: events_def)

text \<open>The nested loop of both scans is one pass over the events.\<close>

lemma fold_if_filter: "fold (\<lambda>x s. if P x then g x s else s) xs s = fold g (filter P xs) s"
  by (induction xs arbitrary: s) auto

lemma fold_receipts:
  "fold (\<lambda>r s. if rcp_Status r \<noteq> ReceiptStatusSuccessful then s
               else fold (\<lambda>l s. if is_event addr topic l then g l s else s) (rcp_Logs r) s) rs s =
     fold g (events addr topic rs) s"
  by (induction rs arbitrary: s) (auto simp: fold_if_filter)

text \<open>A byte array of 32 bytes and the word it stands for.\<close>

definition bytes32 :: "hash \<Rightarrow> byte list" where "bytes32 h = be_encode 32 (unat h)"

definition hash_of :: "byte list \<Rightarrow> hash" where "hash_of bs = word_of_nat (be_decode bs)"

lemma length_bytes32 [simp]: "length (bytes32 h) = 32"
  by (simp add: bytes32_def)

lemma bytes32_hash_of [simp]: "length bs = 32 \<Longrightarrow> bytes32 (hash_of bs) = bs"
  using be_decode_less [of bs] by (simp add: bytes32_def hash_of_def unat_of_nat be_encode_decode)

lemma hash_of_bytes32 [simp]: "hash_of (bytes32 h) = h"
  using unsigned_less [of h, where 'a = nat] by (simp add: bytes32_def hash_of_def)

end
