(* ===== verification/System_Config.thy ===== *)
theory System_Config
  imports Rollup_Config Derive_Error Solabi Receipts
begin

text \<open>
  Updates of the system configuration by events of the system configuration contract on L1
  (\<open>op-node/rollup/derive/system_config.go\<close>, \<open>mantle_system_config.go\<close>) and the packed fee parameters
  (\<open>EcotoneScalars\<close>, \<open>OperatorFee\<close> of \<open>op-service/eth/types.go\<close>). The theory shows that an event is applied exactly if it
  is the ABI encoding of an update, and that from Ecotone on no sequence of events makes the fee scalar unreadable.
\<close>

section \<open>Definitions\<close>

subsection \<open>Packed fee parameters\<close>

definition L1ScalarBedrock :: byte where "L1ScalarBedrock = 0"
definition L1ScalarEcotone :: byte where "L1ScalarEcotone = 1"

record EcotoneScalars =
  BlobBaseFeeScalar :: u32
  BaseFeeScalar :: u32

datatype scalar_error = ErrBedrockScalarPaddingNotEmpty | InvalidScalarPadding | UnrecognizedScalarVersion byte

definition CheckEcotoneL1SystemConfigScalar :: "hash \<Rightarrow> scalar_error option" where
  "CheckEcotoneL1SystemConfigScalar scalar =
     (let versionByte = bytes32 scalar ! 0 in
      if versionByte = L1ScalarBedrock
      then (if take 27 (drop 1 (bytes32 scalar)) \<noteq> replicate 27 0 then Some ErrBedrockScalarPaddingNotEmpty else None)
      else if versionByte = L1ScalarEcotone
      then (if take 23 (drop 1 (bytes32 scalar)) \<noteq> replicate 23 0 then Some InvalidScalarPadding else None)
      else Some (UnrecognizedScalarVersion versionByte))"

text \<open>\<open>binary.BigEndian.Uint32\<close> and \<open>Uint64\<close> of a slice.\<close>

definition slice :: "nat \<Rightarrow> nat \<Rightarrow> byte list \<Rightarrow> byte list" where
  "slice i j bs = take (j - i) (drop i bs)"

definition be_word :: "byte list \<Rightarrow> 'a::len word" where "be_word bs = word_of_nat (be_decode bs)"

definition DecodeScalar :: "hash \<Rightarrow> scalar_error + EcotoneScalars" where
  "DecodeScalar scalar =
     (let b = bytes32 scalar in
      if b ! 0 = L1ScalarBedrock
      then Inr \<lparr>BlobBaseFeeScalar = 0, BaseFeeScalar = be_word (slice 28 32 b)\<rparr>
      else if b ! 0 = L1ScalarEcotone
      then Inr \<lparr>BlobBaseFeeScalar = be_word (slice 24 28 b), BaseFeeScalar = be_word (slice 28 32 b)\<rparr>
      else Inl (UnrecognizedScalarVersion (b ! 0)))"

definition EncodeScalar :: "EcotoneScalars \<Rightarrow> hash" where
  "EncodeScalar s =
     hash_of (L1ScalarEcotone # replicate 23 0 @ write_word 4 (BlobBaseFeeScalar s) @ write_word 4 (BaseFeeScalar s))"

definition sys_EcotoneScalars :: "SystemConfig \<Rightarrow> scalar_error + EcotoneScalars" where
  "sys_EcotoneScalars sysCfg =
     (case CheckEcotoneL1SystemConfigScalar (Scalar sysCfg) of
        Some ErrBedrockScalarPaddingNotEmpty \<Rightarrow> Inr \<lparr>BlobBaseFeeScalar = 0, BaseFeeScalar = 0xFFFFFFFF\<rparr>
      | Some err \<Rightarrow> Inl err
      | None \<Rightarrow> DecodeScalar (Scalar sysCfg))"

record OperatorFeeParams =
  ofp_Scalar :: u32
  ofp_Constant :: u64

definition DecodeOperatorFeeParams :: "hash \<Rightarrow> OperatorFeeParams" where
  "DecodeOperatorFeeParams scalar =
     \<lparr>ofp_Scalar = be_word (slice 20 24 (bytes32 scalar)), ofp_Constant = be_word (slice 24 32 (bytes32 scalar))\<rparr>"

definition EncodeOperatorFeeParams :: "OperatorFeeParams \<Rightarrow> hash" where
  "EncodeOperatorFeeParams params =
     hash_of (replicate 20 0 @ write_word 4 (ofp_Scalar params) @ write_word 8 (ofp_Constant params))"

definition OperatorFee :: "SystemConfig \<Rightarrow> OperatorFeeParams" where
  "OperatorFee sysCfg = DecodeOperatorFeeParams (sys_OperatorFeeParams sysCfg)"

subsection \<open>Parsing the data of an event\<close>

definition ErrParsingSystemConfig :: "string \<Rightarrow> derive_error" where
  "ErrParsingSystemConfig msg = NewCriticalError (''error parsing system config: '' @ msg)"

text \<open>All parsers read a pointer, a length, the payload, and the end of the data; \<open>err\<close> makes the error.\<close>

definition parse_update ::
  "(string \<Rightarrow> derive_error) \<Rightarrow> u64 \<Rightarrow> (byte list \<Rightarrow> derive_error + 'a \<times> byte list) \<Rightarrow> byte list \<Rightarrow> derive_error + 'a" where
  "parse_update err len body data =
     (case ReadUint64 data of
        Inl _ \<Rightarrow> Inl (err ''invalid pointer field'')
      | Inr (pointer, r) \<Rightarrow>
          if pointer \<noteq> 32 then Inl (err ''invalid pointer field'')
          else case ReadUint64 r of
            Inl _ \<Rightarrow> Inl (err ''invalid length field'')
          | Inr (len', r) \<Rightarrow>
              if len' \<noteq> len then Inl (err ''invalid length field'')
              else case body r of
                Inl e \<Rightarrow> Inl e
              | Inr (x, r) \<Rightarrow> if \<not> EmptyReader r then Inl (err ''too many bytes'') else Inr x)"

definition or_err :: "derive_error \<Rightarrow> abi_error + 'a \<Rightarrow> derive_error + 'a" where
  "or_err e x = map_sum (\<lambda>_. e) id x"

definition parseSystemConfigUpdateBatcher :: "byte list \<Rightarrow> derive_error + address" where
  "parseSystemConfigUpdateBatcher =
     parse_update ErrParsingSystemConfig 32 (\<lambda>r. or_err (ErrParsingSystemConfig ''could not read address'') (ReadAddress r))"

definition parseSystemConfigUpdateFeeScalars :: "byte list \<Rightarrow> derive_error + hash \<times> hash" where
  "parseSystemConfigUpdateFeeScalars =
     parse_update ErrParsingSystemConfig 64
       (\<lambda>r. and_then (or_err (ErrParsingSystemConfig ''could not read overhead'') (ReadEthBytes32 r)) (\<lambda>(overhead, r).
            and_then (or_err (ErrParsingSystemConfig ''could not read scalar'') (ReadEthBytes32 r)) (\<lambda>(scalar, r).
            Inr ((overhead, scalar), r))))"

definition parseSystemConfigUpdateGasLimit :: "byte list \<Rightarrow> derive_error + u64" where
  "parseSystemConfigUpdateGasLimit =
     parse_update ErrParsingSystemConfig 32 (\<lambda>r. or_err (ErrParsingSystemConfig ''could not read gas limit'') (ReadUint64 r))"

definition parseSystemConfigUpdateEIP1559Params :: "byte list \<Rightarrow> derive_error + hash" where
  "parseSystemConfigUpdateEIP1559Params =
     parse_update ErrParsingSystemConfig 32
       (\<lambda>r. or_err (ErrParsingSystemConfig ''could not read eip-1559 params'') (ReadEthBytes32 r))"

definition parseSystemConfigUpdateOperatorFeeParams :: "byte list \<Rightarrow> derive_error + hash" where
  "parseSystemConfigUpdateOperatorFeeParams =
     parse_update ErrParsingSystemConfig 32
       (\<lambda>r. or_err (ErrParsingSystemConfig ''could not read operator fee params'') (ReadEthBytes32 r))"

definition parseSystemConfigUpdateMinBaseFee :: "byte list \<Rightarrow> derive_error + u64" where
  "parseSystemConfigUpdateMinBaseFee =
     parse_update ErrParsingSystemConfig 32 (\<lambda>r. or_err (ErrParsingSystemConfig ''could not read minBaseFee'') (ReadUint64 r))"

definition parseSystemConfigUpdateDAFootprintGasScalar :: "byte list \<Rightarrow> derive_error + u16" where
  "parseSystemConfigUpdateDAFootprintGasScalar =
     parse_update ErrParsingSystemConfig 32
       (\<lambda>r. or_err (ErrParsingSystemConfig ''could not read DA footprint gas scalar'') (ReadUint16 r))"

definition parseSystemConfigUpdateBaseFee :: "byte list \<Rightarrow> derive_error + nat" where
  "parseSystemConfigUpdateBaseFee =
     parse_update NewCriticalError 32 (\<lambda>r. or_err (NewCriticalError ''could not read base fee'') (ReadUint256 r))"

subsection \<open>Applying events\<close>

definition ConfigUpdateEventABIHash :: "keccak \<Rightarrow> hash" where
  "ConfigUpdateEventABIHash K = K (bytes_of ''ConfigUpdate(uint256,uint8,bytes)'')"

definition ConfigUpdateEventVersion0 :: hash where "ConfigUpdateEventVersion0 = 0"

definition SystemConfigUpdateBatcher :: hash where "SystemConfigUpdateBatcher = 0"
definition SystemConfigUpdateFeeScalars :: hash where "SystemConfigUpdateFeeScalars = 1"
definition SystemConfigUpdateGasLimit :: hash where "SystemConfigUpdateGasLimit = 2"
definition SystemConfigUpdateUnsafeBlockSigner :: hash where "SystemConfigUpdateUnsafeBlockSigner = 3"
definition SystemConfigUpdateBaseFee :: hash where "SystemConfigUpdateBaseFee = 4"
definition SystemConfigUpdateEIP1559Params :: hash where "SystemConfigUpdateEIP1559Params = 5"
definition SystemConfigUpdateOperatorFeeParams :: hash where "SystemConfigUpdateOperatorFeeParams = 6"
definition SystemConfigUpdateMinBaseFee :: hash where "SystemConfigUpdateMinBaseFee = 7"
definition SystemConfigUpdateDAFootprintGasScalar :: hash where "SystemConfigUpdateDAFootprintGasScalar = 8"

lemmas update_types = SystemConfigUpdateBatcher_def SystemConfigUpdateFeeScalars_def SystemConfigUpdateGasLimit_def
  SystemConfigUpdateUnsafeBlockSigner_def SystemConfigUpdateBaseFee_def SystemConfigUpdateEIP1559Params_def
  SystemConfigUpdateOperatorFeeParams_def SystemConfigUpdateMinBaseFee_def SystemConfigUpdateDAFootprintGasScalar_def

definition ProcessSystemConfigUpdateLogEvent ::
  "keccak \<Rightarrow> Config \<Rightarrow> u64 \<Rightarrow> Log \<Rightarrow> SystemConfig \<Rightarrow> derive_error + SystemConfig" where
  "ProcessSystemConfigUpdateLogEvent K rollupCfg l1Time ev sc =
     (if length (lg_Topics ev) \<noteq> 3 then Inl (OtherError ''expected 3 event topics'')
      else if lg_Topics ev ! 0 \<noteq> ConfigUpdateEventABIHash K then Inl (OtherError ''invalid SystemConfig update event'')
      else if lg_Topics ev ! 1 \<noteq> ConfigUpdateEventVersion0 then Inl (OtherError ''unrecognized SystemConfig update event version'')
      else
      let updateType = lg_Topics ev ! 2; data = lg_Data ev in
      if updateType = SystemConfigUpdateBatcher
      then and_then (parseSystemConfigUpdateBatcher data) (\<lambda>addr. Inr (sc\<lparr>BatcherAddr := addr\<rparr>))
      else if updateType = SystemConfigUpdateFeeScalars
      then and_then (parseSystemConfigUpdateFeeScalars data) (\<lambda>(overhead, scalar).
             if IsEcotone rollupCfg l1Time
             then (if CheckEcotoneL1SystemConfigScalar scalar \<noteq> None then Inr sc
                   else Inr (sc\<lparr>Scalar := scalar, Overhead := 0\<rparr>))
             else Inr (sc\<lparr>Overhead := overhead, Scalar := scalar\<rparr>))
      else if updateType = SystemConfigUpdateGasLimit
      then and_then (parseSystemConfigUpdateGasLimit data) (\<lambda>gasLimit. Inr (sc\<lparr>GasLimit := gasLimit\<rparr>))
      else if updateType = SystemConfigUpdateBaseFee
      then and_then (parseSystemConfigUpdateBaseFee data) (\<lambda>baseFee. Inr (sc\<lparr>sys_BaseFee := Some baseFee\<rparr>))
      else if updateType = SystemConfigUpdateEIP1559Params
      then and_then (parseSystemConfigUpdateEIP1559Params data)
             (\<lambda>params. Inr (sc\<lparr>sys_EIP1559Params := be_word (slice 24 32 (bytes32 params))\<rparr>))
      else if updateType = SystemConfigUpdateOperatorFeeParams
      then and_then (parseSystemConfigUpdateOperatorFeeParams data) (\<lambda>params. Inr (sc\<lparr>sys_OperatorFeeParams := params\<rparr>))
      else if updateType = SystemConfigUpdateUnsafeBlockSigner then Inr sc
      else if updateType = SystemConfigUpdateMinBaseFee
      then and_then (parseSystemConfigUpdateMinBaseFee data) (\<lambda>minBaseFee. Inr (sc\<lparr>sys_MinBaseFee := minBaseFee\<rparr>))
      else if updateType = SystemConfigUpdateDAFootprintGasScalar
      then and_then (parseSystemConfigUpdateDAFootprintGasScalar data)
             (\<lambda>daFootprintGasScalar. Inr (sc\<lparr>sys_DAFootprintGasScalar := daFootprintGasScalar\<rparr>))
      else Inl (OtherError ''unrecognized L1 sysCfg update type''))"

text \<open>The errors of malformed events are collected, the configuration goes on from the last applied event.\<close>

definition update_log ::
  "keccak \<Rightarrow> Config \<Rightarrow> u64 \<Rightarrow> Log \<Rightarrow> derive_error list \<times> SystemConfig \<Rightarrow> derive_error list \<times> SystemConfig" where
  "update_log K cfg l1Time lg = (\<lambda>(errs, sc).
     (case ProcessSystemConfigUpdateLogEvent K cfg l1Time lg sc of
        Inr updated \<Rightarrow> (errs, updated)
      | Inl err \<Rightarrow> (errs @ [err], sc)))"

definition UpdateSystemConfigWithL1Receipts ::
  "keccak \<Rightarrow> Config \<Rightarrow> u64 \<Rightarrow> Receipt list \<Rightarrow> SystemConfig \<Rightarrow> derive_error list \<times> SystemConfig" where
  "UpdateSystemConfigWithL1Receipts K cfg l1Time receipts sc =
     fold (\<lambda>r st. if rcp_Status r \<noteq> ReceiptStatusSuccessful then st
                  else fold (\<lambda>lg st. if is_event (L1SystemConfigAddress cfg) (ConfigUpdateEventABIHash K) lg
                                     then update_log K cfg l1Time lg st else st) (rcp_Logs r) st)
       receipts ([], sc)"


section \<open>Packed fee parameters can be read back\<close>

lemma be_word_write_word [simp]: "8 * n = LENGTH('a::len) \<Longrightarrow> be_word (write_word n w) = (w :: 'a word)"
  using read_word_iff [of n "write_word n w" w "[]"] by (simp add: read_word_def be_word_def and_then_Inr_iff ReadFull_def)

lemma EcotoneScalars_EncodeScalar: "Scalar sc = EncodeScalar s \<Longrightarrow> sys_EcotoneScalars sc = Inr s"
  by (simp add: sys_EcotoneScalars_def EncodeScalar_def CheckEcotoneL1SystemConfigScalar_def DecodeScalar_def
      slice_def L1ScalarBedrock_def L1ScalarEcotone_def Let_def)

lemma OperatorFee_EncodeOperatorFeeParams: "DecodeOperatorFeeParams (EncodeOperatorFeeParams p) = p"
  by (simp add: DecodeOperatorFeeParams_def EncodeOperatorFeeParams_def slice_def)


section \<open>Events and updates\<close>

text \<open>The updates that the contract announces, their encoding in an event, and their effect.\<close>

datatype config_update =
    NewBatcher address | NewFeeScalars hash hash | NewGasLimit u64 | NewBaseFee nat | NewEIP1559Params hash
  | NewOperatorFeeParams hash | NewUnsafeBlockSigner "byte list" | NewMinBaseFee u64 | NewDAFootprintGasScalar u16

fun update_kind :: "config_update \<Rightarrow> hash" where
  "update_kind (NewBatcher _) = 0"
| "update_kind (NewFeeScalars _ _) = 1"
| "update_kind (NewGasLimit _) = 2"
| "update_kind (NewUnsafeBlockSigner _) = 3"
| "update_kind (NewBaseFee _) = 4"
| "update_kind (NewEIP1559Params _) = 5"
| "update_kind (NewOperatorFeeParams _) = 6"
| "update_kind (NewMinBaseFee _) = 7"
| "update_kind (NewDAFootprintGasScalar _) = 8"

fun update_payload :: "config_update \<Rightarrow> byte list" where
  "update_payload (NewBatcher a) = WriteAddress a"
| "update_payload (NewFeeScalars o' s) = WriteEthBytes32 o' @ WriteEthBytes32 s"
| "update_payload (NewGasLimit g) = WriteUint64 g"
| "update_payload (NewBaseFee n) = be_encode 32 n"
| "update_payload (NewEIP1559Params p) = WriteEthBytes32 p"
| "update_payload (NewOperatorFeeParams p) = WriteEthBytes32 p"
| "update_payload (NewUnsafeBlockSigner d) = d"
| "update_payload (NewMinBaseFee m) = WriteUint64 m"
| "update_payload (NewDAFootprintGasScalar d) = replicate 30 0 @ write_word 2 d"

text \<open>The data of an event: offset and length of the payload, then the payload. The event for the block signer is not read.\<close>

definition update_data :: "config_update \<Rightarrow> byte list" where
  "update_data u =
     (case u of NewUnsafeBlockSigner d \<Rightarrow> d
      | _ \<Rightarrow> WriteUint64 32 @ WriteUint64 (word_of_nat (length (update_payload u))) @ update_payload u)"

definition update_wf :: "config_update \<Rightarrow> bool" where
  "update_wf u \<longleftrightarrow> (case u of NewBaseFee n \<Rightarrow> n < 2 ^ 256 | _ \<Rightarrow> True)"

definition encodes :: "keccak \<Rightarrow> Log \<Rightarrow> config_update \<Rightarrow> bool" where
  "encodes K ev u \<longleftrightarrow> update_wf u \<and> lg_Topics ev = [ConfigUpdateEventABIHash K, ConfigUpdateEventVersion0, update_kind u] \<and>
     lg_Data ev = update_data u"

definition is_update :: "keccak \<Rightarrow> Log \<Rightarrow> bool" where "is_update K ev \<longleftrightarrow> (\<exists>u. encodes K ev u)"

fun apply_update :: "Config \<Rightarrow> u64 \<Rightarrow> config_update \<Rightarrow> SystemConfig \<Rightarrow> SystemConfig" where
  "apply_update cfg t (NewBatcher a) sc = sc\<lparr>BatcherAddr := a\<rparr>"
| "apply_update cfg t (NewFeeScalars o' s) sc =
     (if \<not> IsEcotone cfg t then sc\<lparr>Overhead := o', Scalar := s\<rparr>
      else if CheckEcotoneL1SystemConfigScalar s = None then sc\<lparr>Overhead := 0, Scalar := s\<rparr> else sc)"
| "apply_update cfg t (NewGasLimit g) sc = sc\<lparr>GasLimit := g\<rparr>"
| "apply_update cfg t (NewBaseFee n) sc = sc\<lparr>sys_BaseFee := Some n\<rparr>"
| "apply_update cfg t (NewEIP1559Params p) sc = sc\<lparr>sys_EIP1559Params := ucast p\<rparr>"
| "apply_update cfg t (NewOperatorFeeParams p) sc = sc\<lparr>sys_OperatorFeeParams := p\<rparr>"
| "apply_update cfg t (NewUnsafeBlockSigner d) sc = sc"
| "apply_update cfg t (NewMinBaseFee m) sc = sc\<lparr>sys_MinBaseFee := m\<rparr>"
| "apply_update cfg t (NewDAFootprintGasScalar d) sc = sc\<lparr>sys_DAFootprintGasScalar := d\<rparr>"

lemma or_err_iff: "or_err e x = Inr y \<longleftrightarrow> x = Inr y"
  by (simp add: or_err_def map_sum_Inr_iff)

lemma parse_update_iff:
  "parse_update err len body data = Inr x \<longleftrightarrow>
     (\<exists>r. data = WriteUint64 32 @ WriteUint64 len @ r \<and> body r = Inr (x, []))"
  by (auto simp: parse_update_def abi_uint64.dec_Inr_iff EmptyReader_def abi_uint64.dec_enc split: sum.splits if_splits)

lemma drop_be_encode: "drop k (be_encode (k + m) v) = be_encode m v"
  by (induction m arbitrary: v) auto

lemma low_bytes: "be_word (slice 24 32 (bytes32 p)) = (ucast p :: u64)"
proof -
  have "slice 24 32 (bytes32 p) = be_encode 8 (unat p)"
    using drop_be_encode [of 24 8 "unat p"] by (simp add: slice_def bytes32_def)
  moreover have "unat (ucast p :: u64) = unat p mod 2 ^ 64"
    by (simp add: unsigned_ucast_eq take_bit_eq_mod)
  ultimately show ?thesis
    by (intro word_unat_eq_iff [THEN iffD2]) (simp add: be_word_def unat_of_nat)
qed

lemmas parse_defs = parseSystemConfigUpdateBatcher_def parseSystemConfigUpdateFeeScalars_def parseSystemConfigUpdateGasLimit_def
  parseSystemConfigUpdateEIP1559Params_def parseSystemConfigUpdateOperatorFeeParams_def parseSystemConfigUpdateMinBaseFee_def
  parseSystemConfigUpdateDAFootprintGasScalar_def parseSystemConfigUpdateBaseFee_def


text \<open>Each parser accepts the encoding of its value and nothing else.\<close>

lemma parse_iffs:
  "parseSystemConfigUpdateBatcher data = Inr a \<longleftrightarrow> data = WriteUint64 32 @ WriteUint64 32 @ WriteAddress a"
  "parseSystemConfigUpdateFeeScalars data = Inr (o', s) \<longleftrightarrow>
     data = WriteUint64 32 @ WriteUint64 64 @ WriteEthBytes32 o' @ WriteEthBytes32 s"
  "parseSystemConfigUpdateGasLimit data = Inr g \<longleftrightarrow> data = WriteUint64 32 @ WriteUint64 32 @ WriteUint64 g"
  "parseSystemConfigUpdateEIP1559Params data = Inr p \<longleftrightarrow> data = WriteUint64 32 @ WriteUint64 32 @ WriteEthBytes32 p"
  "parseSystemConfigUpdateOperatorFeeParams data = Inr p \<longleftrightarrow> data = WriteUint64 32 @ WriteUint64 32 @ WriteEthBytes32 p"
  "parseSystemConfigUpdateMinBaseFee data = Inr m \<longleftrightarrow> data = WriteUint64 32 @ WriteUint64 32 @ WriteUint64 m"
  "parseSystemConfigUpdateDAFootprintGasScalar data = Inr d \<longleftrightarrow>
     data = WriteUint64 32 @ WriteUint64 32 @ replicate 30 0 @ write_word 2 d"
  "parseSystemConfigUpdateBaseFee data = Inr n \<longleftrightarrow> n < 2 ^ 256 \<and> data = WriteUint64 32 @ WriteUint64 32 @ be_encode 32 n"
  by (auto simp: parse_defs parse_update_iff or_err_iff abi_iffs)

lemma applied_update:
  assumes "encodes K ev u"
  shows "ProcessSystemConfigUpdateLogEvent K cfg t ev sc = Inr (apply_update cfg t u sc)"
proof -
  have d: "lg_Data ev = update_data u" "update_wf u"
    "lg_Topics ev = [ConfigUpdateEventABIHash K, ConfigUpdateEventVersion0, update_kind u]"
    using assms by (auto simp: encodes_def)
  show ?thesis
    by (cases u) (use d parse_iffs [of "lg_Data ev", THEN iffD2] in
      \<open>simp_all add: ProcessSystemConfigUpdateLogEvent_def update_types update_data_def update_wf_def low_bytes Let_def\<close>)
qed


lemma encodesI:
  "update_wf u \<Longrightarrow> lg_Topics ev = [ConfigUpdateEventABIHash K, ConfigUpdateEventVersion0, update_kind u] \<Longrightarrow>
     lg_Data ev = update_data u \<Longrightarrow> Ex (encodes K ev)"
  unfolding encodes_def by blast

lemmas encodes_intros = encodesI [of "NewBatcher a" for a] encodesI [of "NewFeeScalars o' s" for o' s] encodesI [of "NewGasLimit g" for g]
  encodesI [of "NewBaseFee n" for n] encodesI [of "NewEIP1559Params p" for p] encodesI [of "NewOperatorFeeParams p" for p]
  encodesI [of "NewUnsafeBlockSigner d" for d] encodesI [of "NewMinBaseFee m" for m] encodesI [of "NewDAFootprintGasScalar d" for d]

lemma accepted_event:
  assumes "ProcessSystemConfigUpdateLogEvent K cfg t ev sc = Inr sc'"
  shows "Ex (encodes K ev)"
proof -
  obtain k where k: "lg_Topics ev = [ConfigUpdateEventABIHash K, ConfigUpdateEventVersion0, k]"
    using assms by (auto simp: ProcessSystemConfigUpdateLogEvent_def numeral_3_eq_3 length_Suc_conv split: if_splits)
  show ?thesis
    using assms k unfolding ProcessSystemConfigUpdateLogEvent_def
    by (auto simp: update_types and_then_Inr_iff parse_iffs Let_def split: if_splits
        intro: encodes_intros [unfolded update_data_def update_wf_def, simplified])
qed

lemma Process_iff:
  "ProcessSystemConfigUpdateLogEvent K cfg t ev sc = Inr sc' \<longleftrightarrow> (\<exists>u. encodes K ev u \<and> sc' = apply_update cfg t u sc)"
  using applied_update [of K ev _ cfg t sc] accepted_event [of K cfg t ev sc sc'] by fastforce

lemma UpdateSystemConfig_events:
  "UpdateSystemConfigWithL1Receipts K cfg t rs sc =
     fold (update_log K cfg t) (events (L1SystemConfigAddress cfg) (ConfigUpdateEventABIHash K) rs) ([], sc)"
  unfolding UpdateSystemConfigWithL1Receipts_def by (rule fold_receipts)

lemma fold_update_log:
  "\<exists>us. list_all2 (encodes K) (filter (is_update K) evs) us \<and>
     snd (fold (update_log K cfg t) evs (errs, sc)) = fold (apply_update cfg t) us sc \<and>
     length (fst (fold (update_log K cfg t) evs (errs, sc))) = length errs + length (filter (\<lambda>ev. \<not> is_update K ev) evs)"
proof (induction evs arbitrary: errs sc)
  case Nil
  show ?case by simp
next
  case (Cons ev evs)
  show ?case
  proof (cases "is_update K ev")
    case True
    then obtain u where u: "encodes K ev u" by (auto simp: is_update_def)
    have s: "update_log K cfg t ev (errs, sc) = (errs, apply_update cfg t u sc)"
      using applied_update [OF u] by (simp add: update_log_def)
    obtain us where "list_all2 (encodes K) (filter (is_update K) evs) us"
      "snd (fold (update_log K cfg t) evs (errs, apply_update cfg t u sc)) = fold (apply_update cfg t) us (apply_update cfg t u sc)"
      "length (fst (fold (update_log K cfg t) evs (errs, apply_update cfg t u sc))) =
         length errs + length (filter (\<lambda>ev. \<not> is_update K ev) evs)"
      using Cons [of errs "apply_update cfg t u sc"] by blast
    with s True u show ?thesis by (intro exI [of _ "u # us"]) simp
  next
    case False
    then obtain e where "ProcessSystemConfigUpdateLogEvent K cfg t ev sc = Inl e"
      using Process_iff [of K cfg t ev sc] unfolding is_update_def by (metis sum.exhaust)
    then have "update_log K cfg t ev (errs, sc) = (errs @ [e], sc)" by (simp add: update_log_def)
    with Cons [of "errs @ [e]" sc] False show ?thesis by simp
  qed
qed

lemma apply_update_scalar:
  assumes "IsEcotone cfg t" and "\<exists>s. sys_EcotoneScalars sc = Inr s"
  shows "\<exists>s. sys_EcotoneScalars (apply_update cfg t u sc) = Inr s"
proof -
  have "\<exists>s. DecodeScalar h = Inr s" if "CheckEcotoneL1SystemConfigScalar h = None" for h
    using that by (auto simp: CheckEcotoneL1SystemConfigScalar_def DecodeScalar_def Let_def split: if_splits)
  moreover have "Scalar (apply_update cfg t u sc) = Scalar sc \<or>
      CheckEcotoneL1SystemConfigScalar (Scalar (apply_update cfg t u sc)) = None"
    using assms(1) by (cases u) auto
  ultimately show ?thesis using assms(2) unfolding sys_EcotoneScalars_def
    by (metis option.simps(4))
qed


section \<open>Properties\<close>

text \<open>C15: The system configuration changes exactly by the updates that the contract announces. Of the logs of successful transactions, those
  that encode an update (right contract, event and version, a known type, and data that is byte for byte the ABI encoding of the
  new value) are applied in order, each to its own field; every other event of the contract counts as one error and has no effect.
  Since Ecotone a fee scalar in an invalid format has no effect either.\<close>

theorem system_config_follows_events:
  "\<exists>us. list_all2 (encodes K) (filter (is_update K)
      (events (L1SystemConfigAddress cfg) (ConfigUpdateEventABIHash K) receipts)) us \<and>
    snd (UpdateSystemConfigWithL1Receipts K cfg l1Time receipts sc) = fold (apply_update cfg l1Time) us sc \<and>
    length (fst (UpdateSystemConfigWithL1Receipts K cfg l1Time receipts sc)) =
      length (filter (\<lambda>ev. \<not> is_update K ev) (events (L1SystemConfigAddress cfg) (ConfigUpdateEventABIHash K) receipts))"
  using fold_update_log [of K "events (L1SystemConfigAddress cfg) (ConfigUpdateEventABIHash K) receipts" cfg l1Time "[]" sc]
  unfolding UpdateSystemConfig_events by simp

text \<open>C34: From Ecotone on the fee scalar stays readable: if the scalars can be decoded before the receipts of an L1 block are
  processed, they can be decoded after, whatever the receipts contain. So the L1 info transaction can always be built.\<close>

theorem fee_scalars_stay_readable:
  assumes "IsEcotone cfg l1Time" and "sys_EcotoneScalars sc = Inr s"
  shows "\<exists>s'. sys_EcotoneScalars (snd (UpdateSystemConfigWithL1Receipts K cfg l1Time receipts sc)) = Inr s'"
proof -
  obtain us where "snd (UpdateSystemConfigWithL1Receipts K cfg l1Time receipts sc) = fold (apply_update cfg l1Time) us sc"
    using fold_update_log [of K "events (L1SystemConfigAddress cfg) (ConfigUpdateEventABIHash K) receipts" cfg l1Time "[]" sc]
    unfolding UpdateSystemConfig_events by auto
  moreover have "\<exists>s'. sys_EcotoneScalars (fold (apply_update cfg l1Time) us sc) = Inr s'" for us
    using assms(2)
  proof (induction us arbitrary: sc s)
    case (Cons u us)
    from Cons.IH apply_update_scalar [OF assms(1), of sc u] Cons.prems show ?case by auto
  qed simp
  ultimately show ?thesis by metis
qed

definition bad_scalar_receipt :: Receipt where
  "bad_scalar_receipt = \<lparr>rcp_Status = 1, rcp_Logs = [\<lparr>lg_Address = L1SystemConfigAddress sample_aligned, lg_Topics = [0, 0, 1],
     lg_Data = WriteUint64 32 @ WriteUint64 64 @ WriteEthBytes32 3 @ WriteEthBytes32 (2 ^ 255), lg_BlockHash = 0, lg_Index = 0\<rparr>]\<rparr>"

theorem fee_scalars_stay_readable_witness:
  "\<exists>s'. sys_EcotoneScalars (snd (UpdateSystemConfigWithL1Receipts (\<lambda>_. 0) sample_aligned 2110 [bad_scalar_receipt]
     (gen_SystemConfig (cfg_Genesis sample_aligned)))) = Inr s'"
  by (rule fee_scalars_stay_readable [where s = "\<lparr>BlobBaseFeeScalar = 0, BaseFeeScalar = 7\<rparr>"]) code_simp+

end
