(* ===== verification/Deposits.thy ===== *)
theory Deposits
  imports Derive_Error Receipts Solabi
begin

text \<open>
  Deposits from L1 (\<open>op-node/rollup/derive/deposit_log.go\<close>, \<open>deposits.go\<close>, \<open>deposit_source.go\<close>): the decoding of the
  events of the deposit contract, in both versions of Mantle's format, the encoding of version 0, and the derivation of the deposit
  transactions of an L1 block. Slicing out of range is a panic in Go and an error value here.
\<close>

section \<open>Definitions\<close>

text \<open>\<open>types.DepositTx\<close> with the fields that Mantle adds. Big integers are not negative; \<open>nil\<close> is \<open>None\<close>.\<close>

record DepositTx =
  dep_SourceHash :: hash
  dep_From :: address
  dep_To :: "address option"
  dep_Mint :: "nat option"
  dep_Value :: nat
  dep_Gas :: u64
  dep_IsSystemTransaction :: bool
  dep_EthValue :: "nat option"
  dep_EthTxValue :: "nat option"
  dep_Data :: "byte list"

definition zero_DepositTx :: DepositTx where
  "zero_DepositTx = \<lparr>dep_SourceHash = 0, dep_From = 0, dep_To = None, dep_Mint = None, dep_Value = 0, dep_Gas = 0,
     dep_IsSystemTransaction = False, dep_EthValue = None, dep_EthTxValue = None, dep_Data = []\<rparr>"

datatype deposit_error = DepositErr string | DepositPanic

subsection \<open>Sources\<close>

definition UserDepositSourceDomain :: u64 where "UserDepositSourceDomain = 0"
definition L1InfoDepositSourceDomain :: u64 where "L1InfoDepositSourceDomain = 1"
definition UpgradeDepositSourceDomain :: u64 where "UpgradeDepositSourceDomain = 2"
definition InvalidatedBlockSourceDomain :: u64 where "InvalidatedBlockSourceDomain = 4"

text \<open>A number in the last eight bytes of a word of 32.\<close>

abbreviation padded64 :: "u64 \<Rightarrow> byte list" where "padded64 n \<equiv> replicate 24 0 @ write_word 8 n"

definition domain_hash :: "keccak \<Rightarrow> u64 \<Rightarrow> hash \<Rightarrow> hash" where
  "domain_hash K domain h = K (padded64 domain @ bytes32 h)"

definition UserDepositSource_SourceHash :: "keccak \<Rightarrow> hash \<Rightarrow> u64 \<Rightarrow> hash" where
  "UserDepositSource_SourceHash K l1BlockHash logIndex =
     domain_hash K UserDepositSourceDomain (K (bytes32 l1BlockHash @ padded64 logIndex))"

definition L1InfoDepositSource_SourceHash :: "keccak \<Rightarrow> hash \<Rightarrow> u64 \<Rightarrow> hash" where
  "L1InfoDepositSource_SourceHash K l1BlockHash seqNumber =
     domain_hash K L1InfoDepositSourceDomain (K (bytes32 l1BlockHash @ padded64 seqNumber))"

definition UpgradeDepositSource_SourceHash :: "keccak \<Rightarrow> string \<Rightarrow> hash" where
  "UpgradeDepositSource_SourceHash K intent = domain_hash K UpgradeDepositSourceDomain (K (bytes_of intent))"

definition InvalidatedBlockSource_SourceHash :: "keccak \<Rightarrow> hash \<Rightarrow> hash" where
  "InvalidatedBlockSource_SourceHash K outputRoot = domain_hash K InvalidatedBlockSourceDomain outputRoot"

subsection \<open>Decoding an event\<close>

definition DepositEventABIHash :: "keccak \<Rightarrow> hash" where
  "DepositEventABIHash K = K (bytes_of ''TransactionDeposited(address,address,uint256,bytes)'')"

definition DepositEventVersion0 :: hash where "DepositEventVersion0 = 0"
definition DepositEventVersion1 :: hash where "DepositEventVersion1 = 1"

text \<open>The slice \<open>b[i:j]\<close> and the element \<open>b[i]\<close>.\<close>

definition go_slice :: "nat \<Rightarrow> nat \<Rightarrow> byte list \<Rightarrow> deposit_error + byte list" where
  "go_slice i j bs = (if i \<le> j \<and> j \<le> length bs then Inr (take (j - i) (drop i bs)) else Inl DepositPanic)"

definition go_index :: "nat \<Rightarrow> byte list \<Rightarrow> deposit_error + byte" where
  "go_index i bs = (if i < length bs then Inr (bs ! i) else Inl DepositPanic)"

definition nil_if_zero :: "nat \<Rightarrow> nat option" where "nil_if_zero n = (if n = 0 then None else Some n)"

text \<open>Gas limit, creation flag and data, which follow the amounts in both versions; \<open>offset\<close> is where they start.\<close>

definition unmarshal_rest :: "nat \<Rightarrow> DepositTx \<Rightarrow> address \<Rightarrow> byte list \<Rightarrow> deposit_error + DepositTx" where
  "unmarshal_rest offset dep to opaqueData =
     and_then (go_slice offset (offset + 8) opaqueData) (\<lambda>g.
     if be_decode g \<ge> 2 ^ 64 then Inl (DepositErr ''bad gas value'')
     else and_then (go_index (offset + 8) opaqueData) (\<lambda>c.
          and_then (go_slice (offset + 9) (length opaqueData) opaqueData) (\<lambda>d.
          Inr (dep\<lparr>dep_Gas := word_of_nat (be_decode g), dep_To := (if c = 0 then Some to else None), dep_Data := d\<rparr>))))"

definition unmarshalDepositVersion0 :: "DepositTx \<Rightarrow> address \<Rightarrow> byte list \<Rightarrow> deposit_error + DepositTx" where
  "unmarshalDepositVersion0 dep to opaqueData =
     (if length opaqueData < 32 + 32 + 32 + 8 + 1 then Inl (DepositErr ''unexpected opaqueData length'')
      else and_then (go_slice 0 32 opaqueData) (\<lambda>mint.
           and_then (go_slice 32 64 opaqueData) (\<lambda>value.
           and_then (go_slice 64 96 opaqueData) (\<lambda>ethValue.
           unmarshal_rest 96 (dep\<lparr>dep_Mint := nil_if_zero (be_decode mint), dep_Value := be_decode value,
             dep_EthValue := nil_if_zero (be_decode ethValue)\<rparr>) to opaqueData))))"

definition unmarshalDepositVersion1 :: "DepositTx \<Rightarrow> address \<Rightarrow> byte list \<Rightarrow> deposit_error + DepositTx" where
  "unmarshalDepositVersion1 dep to opaqueData =
     (if length opaqueData < 32 + 32 + 32 + 32 + 8 + 1 then Inl (DepositErr ''unexpected opaqueData length'')
      else and_then (go_slice 0 32 opaqueData) (\<lambda>mint.
           and_then (go_slice 32 64 opaqueData) (\<lambda>value.
           and_then (go_slice 64 96 opaqueData) (\<lambda>ethValue.
           and_then (go_slice 96 128 opaqueData) (\<lambda>ethTxValue.
           unmarshal_rest 128 (dep\<lparr>dep_Mint := nil_if_zero (be_decode mint), dep_Value := be_decode value,
             dep_EthValue := nil_if_zero (be_decode ethValue), dep_EthTxValue := nil_if_zero (be_decode ethTxValue)\<rparr>)
             to opaqueData)))))"

text \<open>The length field is compared as a 64-bit number; the sum with 32 wraps.\<close>

definition bad_length :: "nat \<Rightarrow> u64 \<Rightarrow> bool" where
  "bad_length n dataLen \<longleftrightarrow> n \<ge> 2 ^ 64 \<or> (word_of_nat n :: u64) > dataLen - 64 \<or> (word_of_nat n :: u64) + 32 \<le> dataLen - 64"

definition topic_address :: "hash \<Rightarrow> address" where
  "topic_address t = word_of_nat (be_decode (drop 12 (bytes32 t)))"

definition UnmarshalDepositLogEvent :: "keccak \<Rightarrow> Log \<Rightarrow> deposit_error + DepositTx" where
  "UnmarshalDepositLogEvent K ev =
     (if length (lg_Topics ev) \<noteq> 4 then Inl (DepositErr ''expected 4 event topics'')
      else if lg_Topics ev ! 0 \<noteq> DepositEventABIHash K then Inl (DepositErr ''invalid deposit event selector'')
      else if length (lg_Data ev) < 64 then Inl (DepositErr ''incomplate opaqueData slice header'')
      else if length (lg_Data ev) mod 32 \<noteq> 0 then Inl (DepositErr ''expected log data to be multiple of 32 bytes'')
      else
      let from = topic_address (lg_Topics ev ! 1); to = topic_address (lg_Topics ev ! 2); version = lg_Topics ev ! 3 in
      and_then (go_slice 0 32 (lg_Data ev)) (\<lambda>opaqueContentOffset.
      if be_decode opaqueContentOffset \<ge> 2 ^ 64 \<or> be_decode opaqueContentOffset \<noteq> 32
      then Inl (DepositErr ''invalid opaqueData slice header offset'')
      else and_then (go_slice 32 64 (lg_Data ev)) (\<lambda>opaqueContentLength.
      let n = be_decode opaqueContentLength in
      if bad_length n (word_of_nat (length (lg_Data ev))) then Inl (DepositErr ''invalid opaqueData slice header length'')
      else and_then (go_slice 64 (64 + n) (lg_Data ev)) (\<lambda>opaqueData.
      let dep = zero_DepositTx\<lparr>dep_SourceHash := UserDepositSource_SourceHash K (lg_BlockHash ev) (lg_Index ev),
                  dep_From := from, dep_IsSystemTransaction := False\<rparr>
      in if version = DepositEventVersion0 then unmarshalDepositVersion0 dep to opaqueData
         else if version = DepositEventVersion1 then unmarshalDepositVersion1 dep to opaqueData
         else Inl (DepositErr ''invalid deposit version'')))))"

subsection \<open>Encoding an event\<close>

definition AddressAsLeftPaddedHash :: "address \<Rightarrow> hash" where
  "AddressAsLeftPaddedHash addr = hash_of (replicate 12 0 @ write_word 20 addr)"

text \<open>An amount in 32 bytes; \<open>nil\<close> leaves the zeros.\<close>

definition put_amount :: "string \<Rightarrow> nat option \<Rightarrow> deposit_error + byte list" where
  "put_amount msg m =
     (case m of None \<Rightarrow> Inr (replicate 32 0)
      | Some n \<Rightarrow> if n \<ge> 2 ^ 256 then Inl (DepositErr msg) else Inr (be_encode 32 n))"

definition marshalDepositVersion0 :: "DepositTx \<Rightarrow> deposit_error + byte list" where
  "marshalDepositVersion0 deposit =
     and_then (put_amount ''mint value exceeds 256 bits'' (dep_Mint deposit)) (\<lambda>mint.
     and_then (put_amount ''value value exceeds 256 bits'' (Some (dep_Value deposit))) (\<lambda>value.
     and_then (put_amount ''ethValue value exceeds 256 bits'' (dep_EthValue deposit)) (\<lambda>ethValue.
     Inr (mint @ value @ ethValue @ write_word 8 (dep_Gas deposit) @ [if dep_To deposit = None then 1 else 0] @ dep_Data deposit))))"

definition pad32 :: "byte list \<Rightarrow> byte list" where
  "pad32 data = (if length data mod 32 \<noteq> 0 then data @ replicate (32 - length data mod 32) 0 else data)"

definition MarshalDepositLogEventV0 :: "keccak \<Rightarrow> address \<Rightarrow> DepositTx \<Rightarrow> deposit_error + Log" where
  "MarshalDepositLogEventV0 K depositContractAddr deposit =
     and_then (marshalDepositVersion0 deposit) (\<lambda>opaqueData.
     Inr \<lparr>lg_Address = depositContractAddr,
          lg_Topics = [DepositEventABIHash K, AddressAsLeftPaddedHash (dep_From deposit),
            (case dep_To deposit of None \<Rightarrow> 0 | Some a \<Rightarrow> AddressAsLeftPaddedHash a), DepositEventVersion0],
          lg_Data = pad32 (padded64 32 @ padded64 (word_of_nat (length opaqueData)) @ opaqueData),
          lg_BlockHash = 0, lg_Index = 0\<rparr>)"

subsection \<open>The deposits of a block\<close>

text \<open>The decoded deposits and the errors, in the order of the logs.\<close>

definition add_deposit :: "keccak \<Rightarrow> Log \<Rightarrow> DepositTx list \<times> deposit_error list \<Rightarrow> DepositTx list \<times> deposit_error list" where
  "add_deposit K lg = (\<lambda>(out, errs).
     (case UnmarshalDepositLogEvent K lg of Inl err \<Rightarrow> (out, errs @ [err]) | Inr dep \<Rightarrow> (out @ [dep], errs)))"

definition UserDeposits :: "keccak \<Rightarrow> Receipt list \<Rightarrow> address \<Rightarrow> DepositTx list \<times> deposit_error list" where
  "UserDeposits K receipts depositContractAddr =
     fold (\<lambda>r st. if rcp_Status r \<noteq> ReceiptStatusSuccessful then st
                  else fold (\<lambda>lg st. if is_event depositContractAddr (DepositEventABIHash K) lg
                                     then add_deposit K lg st else st) (rcp_Logs r) st)
       receipts ([], [])"

text \<open>\<open>types.NewTx(tx).MarshalBinary()\<close> of go-ethereum is the parameter \<open>M\<close>.\<close>

fun encode_deposits ::
  "(DepositTx \<Rightarrow> byte list option) \<Rightarrow> DepositTx list \<Rightarrow> byte list list \<times> deposit_error list \<Rightarrow> byte list list \<times> deposit_error list" where
  "encode_deposits M [] st = st"
| "encode_deposits M (tx # txs) (encodedTxs, result) =
     (case M tx of
        None \<Rightarrow> encode_deposits M txs (encodedTxs, result @ [DepositErr ''failed to encode user tx''])
      | Some opaqueTx \<Rightarrow> encode_deposits M txs (encodedTxs @ [opaqueTx], result))"

definition DeriveDeposits ::
  "keccak \<Rightarrow> (DepositTx \<Rightarrow> byte list option) \<Rightarrow> Receipt list \<Rightarrow> address \<Rightarrow> byte list list \<times> deposit_error list" where
  "DeriveDeposits K M receipts depositContractAddr =
     (case UserDeposits K receipts depositContractAddr of (userDeposits, result) \<Rightarrow> encode_deposits M userDeposits ([], result))"


section \<open>Decoding is the inverse of encoding\<close>

lemma be_decode_zeros [simp]: "be_decode (replicate k 0 @ xs) = be_decode xs"
  by (induction xs rule: rev_induct) (simp_all add: be_decode_def flip: append_assoc, induction k, simp_all)

lemma be_decode_inj: "length xs = length ys \<Longrightarrow> be_decode xs = be_decode ys \<longleftrightarrow> xs = ys"
  using be_encode_decode [OF refl, of xs] be_encode_decode [OF refl, of ys] by metis

lemma be_decode_write_word [simp]: "be_decode (write_word 8 (n :: u64)) = unat n"
  using unsigned_less [of n, where 'a = nat] by (simp add: write_word_def)

lemma split_prefix: "n \<le> length bs \<Longrightarrow> \<exists>x y. bs = x @ y \<and> length x = n"
  by (metis append_take_drop_id length_take min_absorb2)

lemma amount_bytes: "length x = 32 \<Longrightarrow> x = be_encode 32 (be_decode x) \<and> be_decode x < 2 ^ 256"
  using be_decode_less [of x] by (simp add: be_encode_decode)

lemma gas_bytes: "length x = 8 \<Longrightarrow> x = write_word 8 (word_of_nat (be_decode x) :: u64) \<and> be_decode x < 2 ^ 64"
  using be_decode_less [of x] by (simp add: write_word_def unat_of_nat be_encode_decode)

text \<open>The packed content of an event: amounts, gas limit, creation flag, data.\<close>

definition packed :: "nat list \<Rightarrow> u64 \<Rightarrow> byte \<Rightarrow> byte list \<Rightarrow> byte list" where
  "packed amounts gas c d = concat (map (be_encode 32) amounts) @ write_word 8 gas @ c # d"

definition decoded :: "DepositTx \<Rightarrow> address \<Rightarrow> nat list \<Rightarrow> u64 \<Rightarrow> byte \<Rightarrow> byte list \<Rightarrow> DepositTx" where
  "decoded dep to amounts gas c d =
     dep\<lparr>dep_Mint := nil_if_zero (amounts ! 0), dep_Value := amounts ! 1, dep_EthValue := nil_if_zero (amounts ! 2),
         dep_EthTxValue := (if length amounts = 4 then nil_if_zero (amounts ! 3) else dep_EthTxValue dep),
         dep_Gas := gas, dep_To := (if c = 0 then Some to else None), dep_Data := d\<rparr>"

lemma unmarshal_rest_packed:
  "length pre = n \<Longrightarrow> unmarshal_rest n dep to (pre @ write_word 8 gas @ c # d) =
     Inr (dep\<lparr>dep_Gas := gas, dep_To := (if c = 0 then Some to else None), dep_Data := d\<rparr>)"
  using unsigned_less [of gas, where 'a = nat]
  by (simp add: unmarshal_rest_def go_slice_def go_index_def write_word_def nth_append)

lemma unmarshalDepositVersion0_packed:
  assumes "length amounts = 3" and "list_all (\<lambda>n. n < 2 ^ 256) amounts"
  shows "unmarshalDepositVersion0 dep to (packed amounts gas c d) = Inr (decoded dep to amounts gas c d)"
proof -
  obtain m v e where a: "amounts = [m, v, e]" using assms(1) by (auto simp: length_Suc_conv numeral_3_eq_3)
  have "unmarshal_rest 96 dep' to ((be_encode 32 m @ be_encode 32 v @ be_encode 32 e) @ write_word 8 gas @ c # d) =
     Inr (dep'\<lparr>dep_Gas := gas, dep_To := (if c = 0 then Some to else None), dep_Data := d\<rparr>)" for dep'
    by (rule unmarshal_rest_packed) simp
  then show ?thesis using assms(2)
    by (simp add: a packed_def decoded_def unmarshalDepositVersion0_def go_slice_def)
qed

lemma unmarshalDepositVersion1_packed:
  assumes "length amounts = 4" and "list_all (\<lambda>n. n < 2 ^ 256) amounts"
  shows "unmarshalDepositVersion1 dep to (packed amounts gas c d) = Inr (decoded dep to amounts gas c d)"
proof -
  obtain m v e x where a: "amounts = [m, v, e, x]" using assms(1) by (auto simp: length_Suc_conv eval_nat_numeral)
  have "unmarshal_rest 128 dep' to ((be_encode 32 m @ be_encode 32 v @ be_encode 32 e @ be_encode 32 x) @ write_word 8 gas @ c # d) =
     Inr (dep'\<lparr>dep_Gas := gas, dep_To := (if c = 0 then Some to else None), dep_Data := d\<rparr>)" for dep'
    by (rule unmarshal_rest_packed) simp
  then show ?thesis using assms(2)
    by (simp add: a packed_def decoded_def unmarshalDepositVersion1_def go_slice_def)
qed

text \<open>Every byte string that is long enough is the packed content of some amounts.\<close>

lemma packed_ex:
  "32 * k + 9 \<le> length bs \<Longrightarrow>
     \<exists>amounts gas c d. bs = packed amounts gas c d \<and> length amounts = k \<and> list_all (\<lambda>n. n < 2 ^ 256) amounts"
proof (induction k arbitrary: bs)
  case 0
  then obtain g r where g: "bs = g @ r" "length g = 8" using split_prefix [of 8 bs] by auto
  with 0 obtain c d where "r = c # d" by (cases r) auto
  with g gas_bytes [of g] have "bs = packed [] (word_of_nat (be_decode g)) c d" by (simp add: packed_def)
  then show ?case by force
next
  case (Suc k)
  then obtain x r where x: "bs = x @ r" "length x = 32" using split_prefix [of 32 bs] by auto
  with Suc.prems Suc.IH [of r] obtain amounts gas c d where
    "r = packed amounts gas c d" "length amounts = k" "list_all (\<lambda>n. n < 2 ^ 256) amounts" by auto
  then have "bs = packed (be_decode x # amounts) gas c d \<and> length (be_decode x # amounts) = Suc k \<and>
      list_all (\<lambda>n. n < 2 ^ 256) (be_decode x # amounts)"
    using x amount_bytes [of x] by (simp add: packed_def)
  then show ?case by blast
qed

lemma length_packed: "length (packed amounts gas c d) = 32 * length amounts + 9 + length d"
  by (induction amounts) (simp_all add: packed_def)

lemma bad_length_iff:
  assumes "64 \<le> l" and "l < 2 ^ 63"
  shows "\<not> bad_length n (word_of_nat l) \<longleftrightarrow> n \<le> l - 64 \<and> l - 64 < n + 32"
proof -
  have l: "unat (word_of_nat l - 64 :: u64) = l - 64"
    using assms by (simp add: unat_sub word_le_nat_alt unat_of_nat)
  show ?thesis
  proof (cases "n < 2 ^ 63")
    case True
    then have "unat (word_of_nat n :: u64) = n" "unat ((word_of_nat n :: u64) + 32) = n + 32"
      by (simp_all add: unat_of_nat unat_word_ariths)
    then show ?thesis using True l by (auto simp: bad_length_def word_less_nat_alt word_le_nat_alt)
  next
    case False
    then show ?thesis using assms l by (auto simp: bad_length_def word_less_nat_alt unat_of_nat)
  qed
qed

text \<open>The events that are deposits, and the deposit each one makes. The bytes after the content, which fill it up to a multiple of 32,
  are not looked at.\<close>

definition event_data :: "byte list \<Rightarrow> byte list \<Rightarrow> byte list" where
  "event_data opaqueData pad = padded64 32 @ padded64 (word_of_nat (length opaqueData)) @ opaqueData @ pad"

definition is_deposit_event :: "keccak \<Rightarrow> Log \<Rightarrow> DepositTx \<Rightarrow> bool" where
  "is_deposit_event K ev dep \<longleftrightarrow>
     (\<exists>from to version amounts gas c d pad.
        lg_Topics ev = [DepositEventABIHash K, from, to, version] \<and>
        (version = DepositEventVersion0 \<and> length amounts = 3 \<or> version = DepositEventVersion1 \<and> length amounts = 4) \<and>
        list_all (\<lambda>n. n < 2 ^ 256) amounts \<and>
        lg_Data ev = event_data (packed amounts gas c d) pad \<and> length pad < 32 \<and> 32 dvd length (lg_Data ev) \<and>
        dep = decoded (zero_DepositTx\<lparr>dep_SourceHash := UserDepositSource_SourceHash K (lg_BlockHash ev) (lg_Index ev),
                         dep_From := topic_address from\<rparr>) (topic_address to) amounts gas c d)"

lemma is_deposit_eventI:
  "lg_Topics ev = [DepositEventABIHash K, fr, to, version] \<Longrightarrow>
   version = DepositEventVersion0 \<and> length amounts = 3 \<or> version = DepositEventVersion1 \<and> length amounts = 4 \<Longrightarrow>
   list_all (\<lambda>n. n < 2 ^ 256) amounts \<Longrightarrow> lg_Data ev = event_data (packed amounts gas c d) pad \<Longrightarrow> length pad < 32 \<Longrightarrow>
   32 dvd length (lg_Data ev) \<Longrightarrow>
   is_deposit_event K ev (decoded (zero_DepositTx\<lparr>dep_SourceHash := UserDepositSource_SourceHash K (lg_BlockHash ev) (lg_Index ev),
     dep_From := topic_address fr\<rparr>) (topic_address to) amounts gas c d)"
  unfolding is_deposit_event_def by blast

text \<open>The header of the event data, read as the code does.\<close>

lemma header_iff:
  assumes "length data < 2 ^ 63"
  shows "64 \<le> length data \<and> (\<exists>o' l. go_slice 0 32 data = Inr o' \<and> be_decode o' = 32 \<and> go_slice 32 64 data = Inr l \<and>
      \<not> bad_length (be_decode l) (word_of_nat (length data)) \<and> go_slice 64 (64 + be_decode l) data = Inr opaqueData) \<longleftrightarrow>
    (\<exists>pad. data = event_data opaqueData pad \<and> length pad < 32)" (is "?lhs \<longleftrightarrow> ?rhs")
proof
  assume ?lhs
  then obtain o' l where h: "64 \<le> length data" "go_slice 0 32 data = Inr o'" "be_decode o' = 32" "go_slice 32 64 data = Inr l"
    "be_decode l \<le> length data - 64" "length data - 64 < be_decode l + 32" "go_slice 64 (64 + be_decode l) data = Inr opaqueData"
    using assms bad_length_iff by blast
  obtain x r where x: "data = x @ r" "length x = 32" using h(1) split_prefix [of 32 data] by auto
  with h(1) obtain y s where y: "r = y @ s" "length y = 32" using split_prefix [of 32 r] by auto
  have ol: "o' = x" "l = y" using h(2,4) x y by (auto simp: go_slice_def)
  have xo: "x = padded64 32" using h(3) x(2) be_decode_inj [of x "padded64 32"] by (simp add: ol)
  obtain u pad where s: "s = u @ pad" "length u = be_decode l"
    using h(5) x y split_prefix [of "be_decode l" s] by auto
  then have u: "u = opaqueData" using h(7) x y by (auto simp: go_slice_def ol)
  have "be_decode l < 2 ^ 64" using h(5) assms by simp
  then have "y = padded64 (word_of_nat (length opaqueData))"
    using s u y(2) be_decode_inj [of y "padded64 (word_of_nat (length opaqueData))"] by (simp add: ol unat_of_nat)
  with x y xo s u h(6) show ?rhs by (auto simp: event_data_def)
next
  assume ?rhs
  then obtain pad where d: "data = event_data opaqueData pad" "length pad < 32" by blast
  have "length opaqueData < 2 ^ 64" using assms d by (simp add: event_data_def)
  then have n: "unat (word_of_nat (length opaqueData) :: u64) = length opaqueData" by (simp add: unat_of_nat)
  have "go_slice 0 32 data = Inr (padded64 32)" "go_slice 32 64 data = Inr (padded64 (word_of_nat (length opaqueData)))"
    "go_slice 64 (64 + length opaqueData) data = Inr opaqueData" "length data = 64 + length opaqueData + length pad"
    by (simp_all add: d event_data_def go_slice_def)
  moreover have "\<not> bad_length (length opaqueData) (word_of_nat (length data))"
    using calculation(4) assms d(2) by (subst bad_length_iff) auto
  ultimately show ?lhs by (simp add: n)
qed

lemma unmarshal_by_header:
  assumes "length (lg_Data ev) < 2 ^ 63" and "lg_Topics ev = [DepositEventABIHash K, fr, to, version]"
    and "32 dvd length (lg_Data ev)" and "lg_Data ev = event_data opaqueData pad" and "length pad < 32"
  shows "UnmarshalDepositLogEvent K ev =
    (let dep = zero_DepositTx\<lparr>dep_SourceHash := UserDepositSource_SourceHash K (lg_BlockHash ev) (lg_Index ev),
                 dep_From := topic_address fr, dep_IsSystemTransaction := False\<rparr>
     in if version = DepositEventVersion0 then unmarshalDepositVersion0 dep (topic_address to) opaqueData
        else if version = DepositEventVersion1 then unmarshalDepositVersion1 dep (topic_address to) opaqueData
        else Inl (DepositErr ''invalid deposit version''))"
proof -
  obtain o' l where "64 \<le> length (lg_Data ev)" "go_slice 0 32 (lg_Data ev) = Inr o'" "be_decode o' = 32"
    "go_slice 32 64 (lg_Data ev) = Inr l" "\<not> bad_length (be_decode l) (word_of_nat (length (lg_Data ev)))"
    "go_slice 64 (64 + be_decode l) (lg_Data ev) = Inr opaqueData"
    using header_iff [OF assms(1), of opaqueData] assms(4,5) by blast
  then show ?thesis using assms(2,3) by (simp add: UnmarshalDepositLogEvent_def Let_def dvd_eq_mod_eq_0)
qed

lemma unmarshal_cases:
  assumes "length (lg_Data ev) < 2 ^ 63"
  obtains (bad) msg where "UnmarshalDepositLogEvent K ev = Inl (DepositErr msg)"
  | (good) fr to version opaqueData pad where "lg_Topics ev = [DepositEventABIHash K, fr, to, version]"
    "32 dvd length (lg_Data ev)" "lg_Data ev = event_data opaqueData pad" "length pad < 32"
proof (cases "length (lg_Topics ev) = 4 \<and> lg_Topics ev ! 0 = DepositEventABIHash K \<and> 64 \<le> length (lg_Data ev) \<and>
    32 dvd length (lg_Data ev)")
  case False
  then have "\<exists>msg. UnmarshalDepositLogEvent K ev = Inl (DepositErr msg)"
    unfolding UnmarshalDepositLogEvent_def dvd_eq_mod_eq_0 by (metis not_less)
  then show thesis using bad by blast
next
  case True
  then obtain fr to version where t: "lg_Topics ev = [DepositEventABIHash K, fr, to, version]"
    by (auto simp: length_Suc_conv eval_nat_numeral)
  obtain o' l where ol: "go_slice 0 32 (lg_Data ev) = Inr o'" "go_slice 32 64 (lg_Data ev) = Inr l"
    using True by (auto simp: go_slice_def)
  show thesis
  proof (cases "be_decode o' = 32 \<and> \<not> bad_length (be_decode l) (word_of_nat (length (lg_Data ev)))")
    case False
    with True ol t have "\<exists>msg. UnmarshalDepositLogEvent K ev = Inl (DepositErr msg)"
      by (simp add: UnmarshalDepositLogEvent_def dvd_eq_mod_eq_0 Let_def)
    then show thesis using bad by blast
  next
    case ok: True
    then have "be_decode l \<le> length (lg_Data ev) - 64" using True assms bad_length_iff by blast
    then have "64 + be_decode l \<le> length (lg_Data ev)" using True by linarith
    then obtain opaqueData where "go_slice 64 (64 + be_decode l) (lg_Data ev) = Inr opaqueData"
      by (simp add: go_slice_def)
    with ok True ol header_iff [OF assms, of opaqueData] obtain pad where
      "lg_Data ev = event_data opaqueData pad" "length pad < 32" by blast
    with t True show thesis by (intro good) auto
  qed
qed

lemma unmarshalDepositVersion_short:
  "length bs < 105 \<Longrightarrow> unmarshalDepositVersion0 dep to bs = Inl (DepositErr ''unexpected opaqueData length'')"
  "length bs < 137 \<Longrightarrow> unmarshalDepositVersion1 dep to bs = Inl (DepositErr ''unexpected opaqueData length'')"
  by (simp_all add: unmarshalDepositVersion0_def unmarshalDepositVersion1_def)

abbreviation blank_deposit :: "keccak \<Rightarrow> Log \<Rightarrow> hash \<Rightarrow> DepositTx" where
  "blank_deposit K ev fr \<equiv> zero_DepositTx\<lparr>dep_SourceHash := UserDepositSource_SourceHash K (lg_BlockHash ev) (lg_Index ev),
     dep_From := topic_address fr\<rparr>"

lemma not_system: "blank_deposit K ev fr\<lparr>dep_IsSystemTransaction := False\<rparr> = blank_deposit K ev fr"
  by (simp add: zero_DepositTx_def)

lemma deposit_event_decodes:
  assumes "length (lg_Data ev) < 2 ^ 63" and "is_deposit_event K ev dep"
  shows "UnmarshalDepositLogEvent K ev = Inr dep"
proof -
  obtain fr to version amounts gas c d pad where
    t: "lg_Topics ev = [DepositEventABIHash K, fr, to, version]" and
    v: "version = DepositEventVersion0 \<and> length amounts = 3 \<or> version = DepositEventVersion1 \<and> length amounts = 4" and
    a: "list_all (\<lambda>n. n < 2 ^ 256) amounts" and
    d: "lg_Data ev = event_data (packed amounts gas c d) pad" "length pad < 32" "32 dvd length (lg_Data ev)" and
    dep: "dep = decoded (blank_deposit K ev fr) (topic_address to) amounts gas c d"
    using assms(2) unfolding is_deposit_event_def by blast
  show ?thesis
    unfolding unmarshal_by_header [OF assms(1) t d(3,1,2)] Let_def not_system dep
    using v unmarshalDepositVersion0_packed [OF _ a] unmarshalDepositVersion1_packed [OF _ a]
    by (auto simp: DepositEventVersion0_def DepositEventVersion1_def)
qed

lemma unmarshal_outcome:
  assumes "length (lg_Data ev) < 2 ^ 63"
  shows "(\<exists>msg. UnmarshalDepositLogEvent K ev = Inl (DepositErr msg)) \<or>
    (\<exists>dep. UnmarshalDepositLogEvent K ev = Inr dep \<and> is_deposit_event K ev dep)"
proof (rule unmarshal_cases [OF assms, of K])
  fix fr to version opaqueData pad
  assume good: "lg_Topics ev = [DepositEventABIHash K, fr, to, version]" "32 dvd length (lg_Data ev)"
    "lg_Data ev = event_data opaqueData pad" "length pad < 32"
  note u = unmarshal_by_header [OF assms good, unfolded Let_def not_system]
  have event: ?thesis if v: "version = DepositEventVersion0 \<and> k = 3 \<or> version = DepositEventVersion1 \<and> k = 4"
    and l: "32 * k + 9 \<le> length opaqueData" for k
  proof -
    obtain amounts gas c d where p: "opaqueData = packed amounts gas c d" "length amounts = k" "list_all (\<lambda>n. n < 2 ^ 256) amounts"
      using packed_ex [OF l] by blast
    have "is_deposit_event K ev (decoded (blank_deposit K ev fr) (topic_address to) amounts gas c d)"
      unfolding is_deposit_event_def using good p v by blast
    then show ?thesis using deposit_event_decodes [OF assms] by blast
  qed
  show ?thesis
    using event [of 3] event [of 4] u unmarshalDepositVersion_short [of opaqueData]
    by (cases "length opaqueData < 105"; cases "length opaqueData < 137") (auto simp: DepositEventVersion0_def DepositEventVersion1_def split: if_splits)
qed blast

lemma UserDeposits_events:
  "UserDeposits K receipts addr = fold (add_deposit K) (events addr (DepositEventABIHash K) receipts) ([], [])"
  unfolding UserDeposits_def by (rule fold_receipts)

lemma fold_add_deposit:
  "fold (add_deposit K) evs (out, errs) =
     (out @ List.map_filter (\<lambda>ev. case UnmarshalDepositLogEvent K ev of Inl _ \<Rightarrow> None | Inr dep \<Rightarrow> Some dep) evs,
      errs @ List.map_filter (\<lambda>ev. case UnmarshalDepositLogEvent K ev of Inl e \<Rightarrow> Some e | Inr _ \<Rightarrow> None) evs)"
  by (induction evs arbitrary: out errs) (auto simp: add_deposit_def List.map_filter_simps split: sum.splits)

lemma encode_deposits_ok:
  "encode_deposits M deps (out, errs) = (txs, []) \<longleftrightarrow> errs = [] \<and> (\<exists>ts. list_all2 (\<lambda>d t. M d = Some t) deps ts \<and> txs = out @ ts)"
  by (induction deps arbitrary: out errs) (auto simp: list_all2_Cons1 split: option.splits)

lemma map_filter_errors:
  "List.map_filter (\<lambda>ev. case f ev of Inl e \<Rightarrow> Some e | Inr _ \<Rightarrow> None) evs = [] \<longleftrightarrow> list_all (\<lambda>ev. \<exists>x. f ev = Inr x) evs"
  by (induction evs) (auto simp: List.map_filter_simps split: sum.splits)

lemma map_filter_decoded:
  "list_all (\<lambda>ev. \<exists>x. f ev = Inr x) evs \<Longrightarrow>
     list_all2 (\<lambda>ev x. f ev = Inr x) evs (List.map_filter (\<lambda>ev. case f ev of Inl _ \<Rightarrow> None | Inr x \<Rightarrow> Some x) evs)"
  by (induction evs) (auto simp: List.map_filter_simps)

lemma list_all2_unique: "list_all2 (\<lambda>ev x. f ev = Inr x) evs xs \<Longrightarrow> list_all2 (\<lambda>ev x. f ev = Inr x) evs ys \<Longrightarrow> xs = ys"
  by (induction evs arbitrary: xs ys) (auto simp: list_all2_Cons1)

lemma list_all2_decoded: "list_all2 (\<lambda>ev x. f ev = Inr x) evs xs \<Longrightarrow> list_all (\<lambda>ev. \<exists>x. f ev = Inr x) evs"
  by (induction rule: list_all2_induct) auto

lemma topic_address_padded [simp]: "topic_address (AddressAsLeftPaddedHash a) = a"
  using read_word_iff [of 20 "write_word 20 a" a "[]"]
  by (simp add: topic_address_def AddressAsLeftPaddedHash_def read_word_def and_then_Inr_iff ReadFull_def)

definition amount :: "nat option \<Rightarrow> nat" where "amount m = (case m of None \<Rightarrow> 0 | Some n \<Rightarrow> n)"

lemma be_encode_0: "be_encode n 0 = replicate n 0"
  by (induction n) (simp_all add: replicate_append_same)

lemma put_amount_iff: "put_amount msg m = Inr bs \<longleftrightarrow> amount m < 2 ^ 256 \<and> bs = be_encode 32 (amount m)"
  by (auto simp: put_amount_def amount_def be_encode_0 split: option.splits)

lemma marshalDepositVersion0_packed:
  assumes "marshalDepositVersion0 dep = Inr bs"
  shows "bs = packed [amount (dep_Mint dep), dep_Value dep, amount (dep_EthValue dep)] (dep_Gas dep)
      (if dep_To dep = None then 1 else 0) (dep_Data dep) \<and>
    list_all (\<lambda>n. n < 2 ^ 256) [amount (dep_Mint dep), dep_Value dep, amount (dep_EthValue dep)]"
  using assms by (auto simp: marshalDepositVersion0_def and_then_Inr_iff put_amount_iff packed_def amount_def [of "Some _"])

lemma pad32_ex: "\<exists>pad. pad32 data = data @ pad \<and> length pad < 32 \<and> 32 dvd length (pad32 data)"
proof (cases "length data mod 32 = 0")
  case False
  have "n + (32 - n mod 32) = 32 * (n div 32 + 1)" for n :: nat by presburger
  with False show ?thesis by (simp add: pad32_def)
qed (auto simp: pad32_def dvd_eq_mod_eq_0)

text \<open>Deposits may not be ignored. The derivation of the deposits of a block succeeds exactly if every event of the deposit contract in a successful
  transaction decodes and every deposit can be encoded, and then it gives one transaction for each event, in the order of the logs.\<close>

lemma DeriveDeposits_iff:
  "DeriveDeposits K M receipts addr = (txs, []) \<longleftrightarrow>
    (\<exists>deps. list_all2 (\<lambda>ev dep. UnmarshalDepositLogEvent K ev = Inr dep) (events addr (DepositEventABIHash K) receipts) deps \<and>
      list_all2 (\<lambda>dep tx. M dep = Some tx) deps txs)"
proof -
  let ?f = "UnmarshalDepositLogEvent K" and ?evs = "events addr (DepositEventABIHash K) receipts"
  let ?deps = "List.map_filter (\<lambda>ev. case ?f ev of Inl _ \<Rightarrow> None | Inr x \<Rightarrow> Some x) ?evs"
  have "DeriveDeposits K M receipts addr = (txs, []) \<longleftrightarrow>
      list_all (\<lambda>ev. \<exists>x. ?f ev = Inr x) ?evs \<and> list_all2 (\<lambda>dep tx. M dep = Some tx) ?deps txs"
    unfolding DeriveDeposits_def UserDeposits_events fold_add_deposit by (simp add: encode_deposits_ok map_filter_errors)
  then show ?thesis
    using map_filter_decoded [of ?f ?evs] list_all2_decoded [of ?f ?evs] list_all2_unique [of ?f ?evs ?deps] by blast
qed

section \<open>Properties\<close>

text \<open>C16: The decoder of deposit events accepts exactly the deposits. On every log that a Go program can hold it returns the deposit that the event
  describes, or an error if the event describes none; no slice or index is out of range. An event describes a deposit if it has four topics with the
  right selector and a known version, and its data is offset 32, a length, that many bytes of packed content (three or four amounts, gas limit, creation flag,
  call data), and less than 32 further bytes up to a multiple of 32.\<close>

theorem deposit_event_iff:
  assumes "length (lg_Data ev) < 2 ^ 63"
  shows "UnmarshalDepositLogEvent K ev \<noteq> Inl DepositPanic \<and>
    (\<forall>dep. (UnmarshalDepositLogEvent K ev = Inr dep) = is_deposit_event K ev dep)"
  using unmarshal_outcome [OF assms, of K]
proof
  assume "\<exists>msg. UnmarshalDepositLogEvent K ev = Inl (DepositErr msg)"
  then show ?thesis using deposit_event_decodes [OF assms, of K] by auto
next
  assume "\<exists>dep. UnmarshalDepositLogEvent K ev = Inr dep \<and> is_deposit_event K ev dep"
  then show ?thesis using deposit_event_decodes [OF assms, of K] by (metis Inl_Inr_False Inr_inject)
qed

definition sample_deposit :: DepositTx where
  "sample_deposit = zero_DepositTx\<lparr>dep_From := 7, dep_To := Some 8, dep_Mint := Some 9, dep_Value := 10, dep_Gas := 21000,
     dep_Data := [1, 2, 3]\<rparr>"

definition sample_log :: Log where
  "sample_log = \<lparr>lg_Address = 5, lg_Topics = [0, 7, 8, 0],
     lg_Data = event_data (packed [9, 10, 0] 21000 0 [1, 2, 3]) (replicate 20 0), lg_BlockHash = 0, lg_Index = 0\<rparr>"

theorem deposit_event_iff_witness:
  "UnmarshalDepositLogEvent (\<lambda>_. 0) sample_log \<noteq> Inl DepositPanic \<and>
    UnmarshalDepositLogEvent (\<lambda>_. 0) sample_log = Inr sample_deposit"
proof -
  have a: "topic_address (word_of_nat n) = word_of_nat n" if "n < 256" for n
    using that topic_address_padded [of "word_of_nat n"]
    by (simp add: AddressAsLeftPaddedHash_def hash_of_def write_word_def unat_of_nat)
  have "is_deposit_event (\<lambda>_. 0) sample_log (decoded (blank_deposit (\<lambda>_. 0) sample_log 7) (topic_address 8) [9, 10, 0] 21000 0 [1, 2, 3])"
    by (rule is_deposit_eventI [where version = 0 and pad = "replicate 20 0"])
      (simp_all add: sample_log_def DepositEventABIHash_def DepositEventVersion0_def event_data_def length_packed)
  also have "decoded (blank_deposit (\<lambda>_. 0) sample_log 7) (topic_address 8) [9, 10, 0] 21000 0 [1, 2, 3] = sample_deposit"
    using a [of 7] a [of 8] by (simp add: decoded_def sample_deposit_def zero_DepositTx_def nil_if_zero_def
        UserDepositSource_SourceHash_def domain_hash_def)
  finally show ?thesis
    using deposit_event_iff [of sample_log "\<lambda>_. 0"] by (simp add: sample_log_def event_data_def length_packed)
qed

text \<open>A deposit survives the log. The event that \<open>MarshalDepositLogEventV0\<close> makes of a deposit, once it is part of a block, decodes to the same deposit: with the
  source hash of its place in the block, not a system transaction, amounts of zero as \<open>nil\<close>, and no amount that version 0 does not have.\<close>

theorem deposit_log_roundtrip:
  assumes "MarshalDepositLogEventV0 K addr dep = Inr lg" and "length (dep_Data dep) < 2 ^ 62"
  shows "UnmarshalDepositLogEvent K (lg\<lparr>lg_BlockHash := h, lg_Index := i\<rparr>) =
    Inr (dep\<lparr>dep_SourceHash := UserDepositSource_SourceHash K h i, dep_IsSystemTransaction := False,
           dep_Mint := nil_if_zero (amount (dep_Mint dep)), dep_EthValue := nil_if_zero (amount (dep_EthValue dep)),
           dep_EthTxValue := None\<rparr>)"
proof -
  let ?a = "[amount (dep_Mint dep), dep_Value dep, amount (dep_EthValue dep)]"
  let ?p = "packed ?a (dep_Gas dep) (if dep_To dep = None then 1 else 0) (dep_Data dep)"
  let ?lg = "lg\<lparr>lg_BlockHash := h, lg_Index := i\<rparr>"
  from assms(1) have a: "list_all (\<lambda>n. n < 2 ^ 256) ?a" and
    t: "lg_Topics lg = [DepositEventABIHash K, AddressAsLeftPaddedHash (dep_From dep),
      (case dep_To dep of None \<Rightarrow> 0 | Some a \<Rightarrow> AddressAsLeftPaddedHash a), DepositEventVersion0]" and
    d: "lg_Data lg = pad32 (event_data ?p [])"
    using marshalDepositVersion0_packed [of dep] by (auto simp: MarshalDepositLogEventV0_def and_then_Inr_iff event_data_def)
  obtain pad where pad: "lg_Data lg = event_data ?p pad" "length pad < 32" "32 dvd length (lg_Data lg)"
    using pad32_ex [of "event_data ?p []"] d by (auto simp: event_data_def)
  then have l: "length (lg_Data ?lg) < 2 ^ 63" using assms(2) by (simp add: event_data_def length_packed)
  have dep: "decoded (blank_deposit K ?lg (AddressAsLeftPaddedHash (dep_From dep)))
      (topic_address (case dep_To dep of None \<Rightarrow> 0 | Some a \<Rightarrow> AddressAsLeftPaddedHash a)) ?a (dep_Gas dep)
      (if dep_To dep = None then 1 else 0) (dep_Data dep) =
    dep\<lparr>dep_SourceHash := UserDepositSource_SourceHash K h i, dep_IsSystemTransaction := False,
      dep_Mint := nil_if_zero (amount (dep_Mint dep)), dep_EthValue := nil_if_zero (amount (dep_EthValue dep)), dep_EthTxValue := None\<rparr>"
    by (cases dep) (auto simp: decoded_def zero_DepositTx_def split: option.splits)
  show ?thesis
    unfolding dep [symmetric]
    by (rule deposit_event_decodes [OF l is_deposit_eventI]) (use a t pad in simp_all)
qed

theorem deposit_log_roundtrip_witness:
  "\<exists>lg. MarshalDepositLogEventV0 (\<lambda>_. 0) 5 sample_deposit = Inr lg \<and>
    UnmarshalDepositLogEvent (\<lambda>_. 0) (lg\<lparr>lg_BlockHash := 1, lg_Index := 2\<rparr>) = Inr sample_deposit"
proof -
  obtain lg where lg: "MarshalDepositLogEventV0 (\<lambda>_. 0) 5 sample_deposit = Inr lg"
    by (simp add: MarshalDepositLogEventV0_def marshalDepositVersion0_def put_amount_def sample_deposit_def zero_DepositTx_def)
  from deposit_log_roundtrip [OF this] lg show ?thesis
    by (simp add: sample_deposit_def zero_DepositTx_def nil_if_zero_def amount_def UserDepositSource_SourceHash_def domain_hash_def)
qed

end
