(* ===== verification/L1_Info.thy ===== *)
theory L1_Info
  imports System_Config Deposits
begin

text \<open>
  The L1 info transaction at the start of every L2 block (\<open>op-node/rollup/derive/l1_block_info.go\<close>): its five binary formats,
  its construction from an L1 block and the system configuration, and the reading of an L2 block (\<open>payload_util.go\<close>),
  which recovers the L1 origin and the system configuration from it.
\<close>

section \<open>Definitions\<close>

subsection \<open>Formats\<close>

record L1BlockInfo =
  li_Number :: u64
  li_Time :: u64
  li_BaseFee :: "nat option"
  li_BlockHash :: hash
  li_SequenceNumber :: u64
  li_BatcherAddr :: address
  li_L1FeeOverhead :: hash
  li_L1FeeScalar :: hash
  li_BlobBaseFee :: "nat option"
  li_BaseFeeScalar :: u32
  li_BlobBaseFeeScalar :: u32
  li_OperatorFeeScalar :: u32
  li_OperatorFeeConstant :: u64
  li_DAFootprintGasScalar :: u16

definition zero_L1BlockInfo :: L1BlockInfo where
  "zero_L1BlockInfo = \<lparr>li_Number = 0, li_Time = 0, li_BaseFee = None, li_BlockHash = 0, li_SequenceNumber = 0, li_BatcherAddr = 0,
     li_L1FeeOverhead = 0, li_L1FeeScalar = 0, li_BlobBaseFee = None, li_BaseFeeScalar = 0, li_BlobBaseFeeScalar = 0,
     li_OperatorFeeScalar = 0, li_OperatorFeeConstant = 0, li_DAFootprintGasScalar = 0\<rparr>"

datatype info_error =
    InfoAbi abi_error | InfoErr string | ErrInvalidEcotoneFormat | ErrInvalidIsthmusFormat | ErrInvalidJovianFormat
  | InfoScalar scalar_error | InfoPanic

definition selector :: "keccak \<Rightarrow> string \<Rightarrow> byte list" where
  "selector K signature = take 4 (bytes32 (K (bytes_of signature)))"

definition L1InfoFuncBedrockBytes4 :: "keccak \<Rightarrow> byte list" where
  "L1InfoFuncBedrockBytes4 K = selector K ''setL1BlockValues(uint64,uint64,uint256,bytes32,uint64,bytes32,uint256,uint256)''"
definition L1InfoFuncEcotoneBytes4 :: "keccak \<Rightarrow> byte list" where
  "L1InfoFuncEcotoneBytes4 K = selector K ''setL1BlockValuesEcotone()''"
definition L1InfoFuncIsthmusBytes4 :: "keccak \<Rightarrow> byte list" where
  "L1InfoFuncIsthmusBytes4 K = selector K ''setL1BlockValuesIsthmus()''"
definition L1InfoFuncJovianBytes4 :: "keccak \<Rightarrow> byte list" where
  "L1InfoFuncJovianBytes4 K = selector K ''setL1BlockValuesJovian()''"
definition L1InfoFuncArsiaBytes4 :: "keccak \<Rightarrow> byte list" where
  "L1InfoFuncArsiaBytes4 K = selector K ''setL1BlockValuesArsia()''"

definition L1InfoArguments :: nat where "L1InfoArguments = 8"
definition L1InfoBedrockLen :: nat where "L1InfoBedrockLen = 4 + 32 * L1InfoArguments"
definition L1InfoEcotoneLen :: nat where "L1InfoEcotoneLen = 4 + 32 * 5"
definition L1InfoIsthmusLen :: nat where "L1InfoIsthmusLen = 4 + 32 * 5 + 4 + 8"
definition L1InfoJovianLen :: nat where "L1InfoJovianLen = L1InfoIsthmusLen + 2"

lemmas info_lens = L1InfoArguments_def L1InfoBedrockLen_def L1InfoEcotoneLen_def L1InfoIsthmusLen_def L1InfoJovianLen_def

text \<open>\<open>solabi.WriteUint256\<close> on a pointer: \<open>BitLen\<close> of \<open>nil\<close> panics.\<close>

definition write_big :: "nat option \<Rightarrow> info_error + byte list" where
  "write_big n = (case n of None \<Rightarrow> Inl InfoPanic | Some n \<Rightarrow> map_sum InfoAbi id (WriteUint256 n))"

definition abi :: "abi_error + 'a \<Rightarrow> info_error + 'a" where "abi x = map_sum InfoAbi id x"
definition fixed :: "info_error \<Rightarrow> io_error + 'a \<Rightarrow> info_error + 'a" where "fixed e x = map_sum (\<lambda>_. e) id x"

definition marshalBinaryBedrock :: "keccak \<Rightarrow> L1BlockInfo \<Rightarrow> info_error + byte list" where
  "marshalBinaryBedrock K info =
     and_then (write_big (li_BaseFee info)) (\<lambda>baseFee.
     Inr (L1InfoFuncBedrockBytes4 K @ WriteUint64 (li_Number info) @ WriteUint64 (li_Time info) @ baseFee @ WriteHash (li_BlockHash info) @
       WriteUint64 (li_SequenceNumber info) @ WriteAddress (li_BatcherAddr info) @ WriteEthBytes32 (li_L1FeeOverhead info) @
       WriteEthBytes32 (li_L1FeeScalar info)))"

definition unmarshalBinaryBedrock :: "keccak \<Rightarrow> byte list \<Rightarrow> info_error + L1BlockInfo" where
  "unmarshalBinaryBedrock K data =
     (if length data \<noteq> L1InfoBedrockLen then Inl (InfoErr ''data is unexpected length'')
      else
      and_then (abi (ReadAndValidateSignature (L1InfoFuncBedrockBytes4 K) data)) (\<lambda>(_, r).
      and_then (abi (ReadUint64 r)) (\<lambda>(number, r).
      and_then (abi (ReadUint64 r)) (\<lambda>(time, r).
      and_then (abi (ReadUint256 r)) (\<lambda>(baseFee, r).
      and_then (abi (ReadHash r)) (\<lambda>(blockHash, r).
      and_then (abi (ReadUint64 r)) (\<lambda>(seqNumber, r).
      and_then (abi (ReadAddress r)) (\<lambda>(batcherAddr, r).
      and_then (abi (ReadEthBytes32 r)) (\<lambda>(overhead, r).
      and_then (abi (ReadEthBytes32 r)) (\<lambda>(scalar, r).
      if \<not> EmptyReader r then Inl (InfoErr ''too many bytes'')
      else Inr (zero_L1BlockInfo\<lparr>li_Number := number, li_Time := time, li_BaseFee := Some baseFee, li_BlockHash := blockHash,
        li_SequenceNumber := seqNumber, li_BatcherAddr := batcherAddr, li_L1FeeOverhead := overhead, li_L1FeeScalar := scalar\<rparr>)))))))))))"

definition writeBinaryEcotone :: "L1BlockInfo \<Rightarrow> info_error + byte list" where
  "writeBinaryEcotone info =
     and_then (write_big (li_BaseFee info)) (\<lambda>baseFee.
     let blobBasefee = (case li_BlobBaseFee info of None \<Rightarrow> Some 1 | Some n \<Rightarrow> Some n) in
     and_then (write_big blobBasefee) (\<lambda>blobBaseFee.
     Inr (write_word 4 (li_BaseFeeScalar info) @ write_word 4 (li_BlobBaseFeeScalar info) @ write_word 8 (li_SequenceNumber info) @
       write_word 8 (li_Time info) @ write_word 8 (li_Number info) @ baseFee @ blobBaseFee @ WriteHash (li_BlockHash info) @
       WriteAddress (li_BatcherAddr info))))"

definition readBinaryEcotone :: "L1BlockInfo \<Rightarrow> byte list \<Rightarrow> info_error + L1BlockInfo \<times> byte list" where
  "readBinaryEcotone info r =
     and_then (fixed ErrInvalidEcotoneFormat (read_word 4 r)) (\<lambda>(baseFeeScalar, r).
     and_then (fixed ErrInvalidEcotoneFormat (read_word 4 r)) (\<lambda>(blobBaseFeeScalar, r).
     and_then (fixed ErrInvalidEcotoneFormat (read_word 8 r)) (\<lambda>(seqNumber, r).
     and_then (fixed ErrInvalidEcotoneFormat (read_word 8 r)) (\<lambda>(time, r).
     and_then (fixed ErrInvalidEcotoneFormat (read_word 8 r)) (\<lambda>(number, r).
     and_then (abi (ReadUint256 r)) (\<lambda>(baseFee, r).
     and_then (abi (ReadUint256 r)) (\<lambda>(blobBaseFee, r).
     and_then (abi (ReadHash r)) (\<lambda>(blockHash, r).
     and_then (abi (ReadAddress r)) (\<lambda>(batcherAddr, r).
     Inr (info\<lparr>li_BaseFeeScalar := baseFeeScalar, li_BlobBaseFeeScalar := blobBaseFeeScalar, li_SequenceNumber := seqNumber,
       li_Time := time, li_Number := number, li_BaseFee := Some baseFee, li_BlobBaseFee := Some blobBaseFee,
       li_BlockHash := blockHash, li_BatcherAddr := batcherAddr\<rparr>, r))))))))))"

definition writeBinaryIsthmus :: "L1BlockInfo \<Rightarrow> info_error + byte list" where
  "writeBinaryIsthmus info =
     and_then (writeBinaryEcotone info) (\<lambda>w.
     Inr (w @ write_word 4 (li_OperatorFeeScalar info) @ write_word 8 (li_OperatorFeeConstant info)))"

definition readBinaryIsthmus :: "L1BlockInfo \<Rightarrow> byte list \<Rightarrow> info_error + L1BlockInfo \<times> byte list" where
  "readBinaryIsthmus info r =
     and_then (readBinaryEcotone info r) (\<lambda>(info, r).
     and_then (fixed ErrInvalidIsthmusFormat (read_word 4 r)) (\<lambda>(operatorFeeScalar, r).
     and_then (fixed ErrInvalidIsthmusFormat (read_word 8 r)) (\<lambda>(operatorFeeConstant, r).
     Inr (info\<lparr>li_OperatorFeeScalar := operatorFeeScalar, li_OperatorFeeConstant := operatorFeeConstant\<rparr>, r))))"

definition writeBinaryJovian :: "L1BlockInfo \<Rightarrow> info_error + byte list" where
  "writeBinaryJovian info =
     and_then (writeBinaryIsthmus info) (\<lambda>w. Inr (w @ write_word 2 (li_DAFootprintGasScalar info)))"

definition readBinaryJovian :: "L1BlockInfo \<Rightarrow> byte list \<Rightarrow> info_error + L1BlockInfo \<times> byte list" where
  "readBinaryJovian info r =
     and_then (readBinaryIsthmus info r) (\<lambda>(info, r).
     and_then (fixed ErrInvalidJovianFormat (read_word 2 r)) (\<lambda>(daFootprintGasScalar, r).
     Inr (info\<lparr>li_DAFootprintGasScalar := daFootprintGasScalar\<rparr>, r)))"

text \<open>Four of the formats are a selector and the fields; the reader checks the length first and the end of the data last.\<close>

definition marshal_with :: "byte list \<Rightarrow> (L1BlockInfo \<Rightarrow> info_error + byte list) \<Rightarrow> L1BlockInfo \<Rightarrow> info_error + byte list" where
  "marshal_with sig write info = and_then (write info) (\<lambda>w. Inr (sig @ w))"

definition unmarshal_with ::
  "nat \<Rightarrow> byte list \<Rightarrow> (L1BlockInfo \<Rightarrow> byte list \<Rightarrow> info_error + L1BlockInfo \<times> byte list) \<Rightarrow> byte list \<Rightarrow> info_error + L1BlockInfo" where
  "unmarshal_with len sig read data =
     (if length data \<noteq> len then Inl (InfoErr ''data is unexpected length'')
      else
      and_then (abi (ReadAndValidateSignature sig data)) (\<lambda>(_, r).
      and_then (read zero_L1BlockInfo r) (\<lambda>(info, r).
      if \<not> EmptyReader r then Inl (InfoErr ''too many bytes'') else Inr info)))"

definition marshalBinaryEcotone :: "keccak \<Rightarrow> L1BlockInfo \<Rightarrow> info_error + byte list" where
  "marshalBinaryEcotone K = marshal_with (L1InfoFuncEcotoneBytes4 K) writeBinaryEcotone"
definition unmarshalBinaryEcotone :: "keccak \<Rightarrow> byte list \<Rightarrow> info_error + L1BlockInfo" where
  "unmarshalBinaryEcotone K = unmarshal_with L1InfoEcotoneLen (L1InfoFuncEcotoneBytes4 K) readBinaryEcotone"

definition marshalBinaryIsthmus :: "keccak \<Rightarrow> L1BlockInfo \<Rightarrow> info_error + byte list" where
  "marshalBinaryIsthmus K = marshal_with (L1InfoFuncIsthmusBytes4 K) writeBinaryIsthmus"
definition unmarshalBinaryIsthmus :: "keccak \<Rightarrow> byte list \<Rightarrow> info_error + L1BlockInfo" where
  "unmarshalBinaryIsthmus K = unmarshal_with L1InfoIsthmusLen (L1InfoFuncIsthmusBytes4 K) readBinaryIsthmus"

definition marshalBinaryJovian :: "keccak \<Rightarrow> L1BlockInfo \<Rightarrow> info_error + byte list" where
  "marshalBinaryJovian K = marshal_with (L1InfoFuncJovianBytes4 K) writeBinaryJovian"
definition unmarshalBinaryJovian :: "keccak \<Rightarrow> byte list \<Rightarrow> info_error + L1BlockInfo" where
  "unmarshalBinaryJovian K = unmarshal_with L1InfoJovianLen (L1InfoFuncJovianBytes4 K) readBinaryJovian"

definition marshalBinaryMantleArsia :: "keccak \<Rightarrow> L1BlockInfo \<Rightarrow> info_error + byte list" where
  "marshalBinaryMantleArsia K = marshal_with (L1InfoFuncArsiaBytes4 K) writeBinaryJovian"
definition unmarshalBinaryMantleArsia :: "keccak \<Rightarrow> byte list \<Rightarrow> info_error + L1BlockInfo" where
  "unmarshalBinaryMantleArsia K = unmarshal_with L1InfoJovianLen (L1InfoFuncArsiaBytes4 K) readBinaryJovian"

subsection \<open>Building and reading the transaction\<close>

text \<open>What is used of go-ethereum: Keccak-256, the encoding of a deposit transaction and the decoding of a transaction to type and data, the
  configuration of L1 mainnet before Elysium, the blob fee of Cancun, and the extra data of a block header.\<close>

record 'cc geth =
  g_keccak :: keccak
  g_marshal :: "DepositTx \<Rightarrow> byte list option"
  g_unmarshal :: "byte list \<Rightarrow> (byte \<times> byte list) option"
  g_mainnetArsia :: 'cc
  g_CalcBlobFeeCancun :: "u64 \<Rightarrow> nat"
  g_ValidateExtraData :: "Config \<Rightarrow> u64 \<Rightarrow> byte list \<Rightarrow> bool"
  g_DecodeExtraData :: "Config \<Rightarrow> u64 \<Rightarrow> byte list \<Rightarrow> u64 \<times> u64 \<times> u64 option"
  g_Encode1559Params :: "u64 \<Rightarrow> u64 \<Rightarrow> u64"

text \<open>The methods of \<open>eth.BlockInfo\<close> that are called.\<close>

record 'cc BlockInfo =
  bi_Hash :: hash
  bi_ParentHash :: hash
  bi_Number :: u64
  bi_Time :: u64
  bi_MixDigest :: hash
  bi_BaseFee :: "nat option"
  bi_BlobBaseFee :: "'cc \<Rightarrow> nat option"
  bi_ExcessBlobGas :: "u64 option"
  bi_ParentBeaconRoot :: "hash option"

definition ChainIDFromBig :: "int option \<Rightarrow> info_error + int" where
  "ChainIDFromBig chainID =
     (case chainID of None \<Rightarrow> Inl InfoPanic
      | Some i \<Rightarrow> if \<bar>i\<bar> \<ge> 2 ^ 256 then Inl InfoPanic else Inr (i mod 2 ^ 256))"

definition MantleArsiaL1ChainConfigByChainID :: "'cc geth \<Rightarrow> int \<Rightarrow> 'cc option" where
  "MantleArsiaL1ChainConfigByChainID G chainID = (if chainID = 1 then Some (g_mainnetArsia G) else None)"

definition RegolithSystemTxGas :: u64 where "RegolithSystemTxGas = 1000000"
definition DAFootprintGasScalarDefault :: u16 where "DAFootprintGasScalarDefault = 400"
definition L1InfoDepositerAddress :: address where "L1InfoDepositerAddress = 0xdeaddeaddeaddeaddeaddeaddeaddeaddead0001"
definition L1BlockAddr :: address where "L1BlockAddr = 0x4200000000000000000000000000000000000015"

definition SetDAFootprintGasScalarOrDefault :: "u16 \<Rightarrow> L1BlockInfo \<Rightarrow> L1BlockInfo" where
  "SetDAFootprintGasScalarOrDefault daFootprintGasScalar info =
     (if daFootprintGasScalar = 0 then info\<lparr>li_DAFootprintGasScalar := DAFootprintGasScalarDefault\<rparr>
      else info\<lparr>li_DAFootprintGasScalar := daFootprintGasScalar\<rparr>)"

definition isEcotoneButNotFirstBlock :: "Config \<Rightarrow> u64 \<Rightarrow> bool" where
  "isEcotoneButNotFirstBlock cfg t \<longleftrightarrow> IsEcotone cfg t \<and> \<not> IsEcotoneActivationBlock cfg t"
definition isIsthmusButNotFirstBlock :: "Config \<Rightarrow> u64 \<Rightarrow> bool" where
  "isIsthmusButNotFirstBlock cfg t \<longleftrightarrow> IsIsthmus cfg t \<and> \<not> IsIsthmusActivationBlock cfg t"
definition isJovianButNotFirstBlock :: "Config \<Rightarrow> u64 \<Rightarrow> bool" where
  "isJovianButNotFirstBlock cfg t \<longleftrightarrow> IsJovian cfg t \<and> \<not> IsJovianActivationBlock cfg t"
definition isMantleArsiaButNotFirstBlock :: "Config \<Rightarrow> u64 \<Rightarrow> bool" where
  "isMantleArsiaButNotFirstBlock cfg t \<longleftrightarrow> IsMantleArsia cfg t \<and> \<not> IsMantleArsiaActivationBlock cfg t"
definition isMantleElysiumButNotFirstBlock :: "Config \<Rightarrow> u64 \<Rightarrow> bool" where
  "isMantleElysiumButNotFirstBlock cfg t \<longleftrightarrow> IsMantleElysium cfg t \<and> \<not> IsMantleElysiumActivationBlock cfg t"

definition L1BlockInfoFromBytes :: "keccak \<Rightarrow> Config \<Rightarrow> u64 \<Rightarrow> byte list \<Rightarrow> info_error + L1BlockInfo" where
  "L1BlockInfoFromBytes K cfg l2BlockTime data =
     (if isMantleArsiaButNotFirstBlock cfg l2BlockTime then unmarshalBinaryMantleArsia K data
      else if isJovianButNotFirstBlock cfg l2BlockTime then unmarshalBinaryJovian K data
      else if isIsthmusButNotFirstBlock cfg l2BlockTime then unmarshalBinaryIsthmus K data
      else if isEcotoneButNotFirstBlock cfg l2BlockTime then unmarshalBinaryEcotone K data
      else unmarshalBinaryBedrock K data)"

text \<open>The blob base fee of \<open>L1InfoDeposit\<close>, from Ecotone on.\<close>

definition info_BlobBaseFee :: "'cc geth \<Rightarrow> Config \<Rightarrow> 'cc \<Rightarrow> 'cc BlockInfo \<Rightarrow> u64 \<Rightarrow> info_error + nat" where
  "info_BlobBaseFee G cfg l1ChainConfig block l2Timestamp =
     and_then (if isMantleArsiaButNotFirstBlock cfg l2Timestamp \<and> \<not> isMantleElysiumButNotFirstBlock cfg l2Timestamp
               then and_then (ChainIDFromBig (L1ChainID cfg)) (\<lambda>chainID.
                      Inr (bi_BlobBaseFee block (case MantleArsiaL1ChainConfigByChainID G chainID of None \<Rightarrow> l1ChainConfig | Some c \<Rightarrow> c)))
               else Inr (bi_BlobBaseFee block l1ChainConfig)) (\<lambda>fee.
     let fee = (case PectraBlobScheduleTime cfg of
                  Some t \<Rightarrow> if bi_Time block < t then map_option (g_CalcBlobFeeCancun G) (bi_ExcessBlobGas block) else fee
                | None \<Rightarrow> fee)
     in Inr (case fee of None \<Rightarrow> 1 | Some n \<Rightarrow> n))"

text \<open>The fields of the transaction, set step by step as the forks are active.\<close>

definition set_l1_fees ::
  "'cc geth \<Rightarrow> Config \<Rightarrow> 'cc \<Rightarrow> SystemConfig \<Rightarrow> 'cc BlockInfo \<Rightarrow> u64 \<Rightarrow> L1BlockInfo \<Rightarrow> info_error + L1BlockInfo" where
  "set_l1_fees G cfg l1ChainConfig sysCfg block l2Timestamp info =
     (if isEcotoneButNotFirstBlock cfg l2Timestamp
      then and_then (info_BlobBaseFee G cfg l1ChainConfig block l2Timestamp) (\<lambda>fee.
           and_then (map_sum InfoScalar id (sys_EcotoneScalars sysCfg)) (\<lambda>scalars.
           Inr (info\<lparr>li_BlobBaseFee := Some fee, li_BlobBaseFeeScalar := BlobBaseFeeScalar scalars,
             li_BaseFeeScalar := BaseFeeScalar scalars\<rparr>)))
      else Inr (info\<lparr>li_L1FeeOverhead := Overhead sysCfg, li_L1FeeScalar := Scalar sysCfg\<rparr>))"

definition set_operator_fee :: "Config \<Rightarrow> SystemConfig \<Rightarrow> u64 \<Rightarrow> L1BlockInfo \<Rightarrow> L1BlockInfo" where
  "set_operator_fee cfg sysCfg l2Timestamp info =
     (if isIsthmusButNotFirstBlock cfg l2Timestamp
      then info\<lparr>li_OperatorFeeScalar := ofp_Scalar (OperatorFee sysCfg), li_OperatorFeeConstant := ofp_Constant (OperatorFee sysCfg)\<rparr>
      else info)"

definition set_da_footprint :: "Config \<Rightarrow> SystemConfig \<Rightarrow> u64 \<Rightarrow> L1BlockInfo \<Rightarrow> L1BlockInfo" where
  "set_da_footprint cfg sysCfg l2Timestamp info =
     (if isJovianButNotFirstBlock cfg l2Timestamp
      then SetDAFootprintGasScalarOrDefault (sys_DAFootprintGasScalar sysCfg) info else info)"

definition info_fields ::
  "'cc geth \<Rightarrow> Config \<Rightarrow> 'cc \<Rightarrow> SystemConfig \<Rightarrow> u64 \<Rightarrow> 'cc BlockInfo \<Rightarrow> u64 \<Rightarrow> info_error + L1BlockInfo" where
  "info_fields G cfg l1ChainConfig sysCfg seqNumber block l2Timestamp =
     and_then (set_l1_fees G cfg l1ChainConfig sysCfg block l2Timestamp
       (zero_L1BlockInfo\<lparr>li_Number := bi_Number block, li_Time := bi_Time block, li_BaseFee := bi_BaseFee block,
          li_BlockHash := bi_Hash block, li_SequenceNumber := seqNumber, li_BatcherAddr := BatcherAddr sysCfg\<rparr>))
       (\<lambda>info. Inr (set_da_footprint cfg sysCfg l2Timestamp (set_operator_fee cfg sysCfg l2Timestamp info)))"

definition marshal_info :: "keccak \<Rightarrow> Config \<Rightarrow> u64 \<Rightarrow> L1BlockInfo \<Rightarrow> info_error + byte list" where
  "marshal_info K cfg l2Timestamp info =
     (if isMantleArsiaButNotFirstBlock cfg l2Timestamp then marshalBinaryMantleArsia K info
      else if isJovianButNotFirstBlock cfg l2Timestamp then marshalBinaryJovian K info
      else if isIsthmusButNotFirstBlock cfg l2Timestamp then marshalBinaryIsthmus K info
      else if isEcotoneButNotFirstBlock cfg l2Timestamp then marshalBinaryEcotone K info
      else marshalBinaryBedrock K info)"

definition L1InfoDeposit ::
  "'cc geth \<Rightarrow> Config \<Rightarrow> 'cc \<Rightarrow> SystemConfig \<Rightarrow> u64 \<Rightarrow> 'cc BlockInfo \<Rightarrow> u64 \<Rightarrow> info_error + DepositTx" where
  "L1InfoDeposit G cfg l1ChainConfig sysCfg seqNumber block l2Timestamp =
     and_then (info_fields G cfg l1ChainConfig sysCfg seqNumber block l2Timestamp) (\<lambda>info.
     and_then (marshal_info (g_keccak G) cfg l2Timestamp info) (\<lambda>data.
     let out = zero_DepositTx\<lparr>dep_SourceHash := L1InfoDepositSource_SourceHash (g_keccak G) (bi_Hash block) seqNumber,
           dep_From := L1InfoDepositerAddress, dep_To := Some L1BlockAddr, dep_Mint := None, dep_Value := 0,
           dep_Gas := 150000000, dep_IsSystemTransaction := True, dep_Data := data\<rparr>
     in Inr (if IsRegolith cfg l2Timestamp
             then out\<lparr>dep_IsSystemTransaction := False, dep_Gas := RegolithSystemTxGas\<rparr> else out)))"

definition L1InfoDepositBytes ::
  "'cc geth \<Rightarrow> Config \<Rightarrow> 'cc \<Rightarrow> SystemConfig \<Rightarrow> u64 \<Rightarrow> 'cc BlockInfo \<Rightarrow> u64 \<Rightarrow> info_error + byte list" where
  "L1InfoDepositBytes G cfg l1ChainConfig sysCfg seqNumber l1Info l2Timestamp =
     and_then (L1InfoDeposit G cfg l1ChainConfig sysCfg seqNumber l1Info l2Timestamp) (\<lambda>dep.
     (case g_marshal G dep of None \<Rightarrow> Inl (InfoErr ''failed to encode L1 info tx'') | Some tx \<Rightarrow> Inr tx))"

subsection \<open>Reading an L2 block\<close>

record ExecutionPayload =
  ep_ParentHash :: hash
  ep_BlockHash :: hash
  ep_BlockNumber :: u64
  ep_Timestamp :: u64
  ep_GasLimit :: u64
  ep_ExtraData :: "byte list"
  ep_Transactions :: "byte list list"

text \<open>The L1 info in the first transaction, which both functions read.\<close>

definition payload_info :: "'cc geth \<Rightarrow> Config \<Rightarrow> ExecutionPayload \<Rightarrow> info_error + L1BlockInfo" where
  "payload_info G cfg payload =
     (case ep_Transactions payload of
        [] \<Rightarrow> Inl (InfoErr ''l2 block is missing L1 info deposit tx'')
      | tx # _ \<Rightarrow>
         (case g_unmarshal G tx of
            None \<Rightarrow> Inl (InfoErr ''failed to decode first tx to read l1 info from'')
          | Some (ty, data) \<Rightarrow>
              if ty \<noteq> DepositTxType then Inl (InfoErr ''first payload tx has unexpected tx type'')
              else L1BlockInfoFromBytes (g_keccak G) cfg (ep_Timestamp payload) data))"

definition PayloadToBlockRef :: "'cc geth \<Rightarrow> Config \<Rightarrow> ExecutionPayload \<Rightarrow> info_error + L2BlockRef" where
  "PayloadToBlockRef G cfg payload =
     and_then
       (if ep_BlockNumber payload = bid_Number (gen_L2 (cfg_Genesis cfg))
        then (if ep_BlockHash payload \<noteq> bid_Hash (gen_L2 (cfg_Genesis cfg)) then Inl (InfoErr ''expected L2 genesis hash to match'')
              else Inr (gen_L1 (cfg_Genesis cfg), 0))
        else and_then (payload_info G cfg payload) (\<lambda>info.
               Inr (\<lparr>bid_Hash = li_BlockHash info, bid_Number = li_Number info\<rparr>, li_SequenceNumber info))) (\<lambda>(l1Origin, sequenceNumber).
     Inr \<lparr>l2_Hash = ep_BlockHash payload, l2_Number = ep_BlockNumber payload, l2_ParentHash = ep_ParentHash payload,
       l2_Time = ep_Timestamp payload, l2_L1Origin = l1Origin, l2_SequenceNumber = sequenceNumber\<rparr>)"

definition PayloadToSystemConfig :: "'cc geth \<Rightarrow> Config \<Rightarrow> ExecutionPayload \<Rightarrow> info_error + SystemConfig" where
  "PayloadToSystemConfig G cfg payload =
     (if ep_BlockNumber payload = bid_Number (gen_L2 (cfg_Genesis cfg))
      then (if ep_BlockHash payload \<noteq> bid_Hash (gen_L2 (cfg_Genesis cfg)) then Inl (InfoErr ''expected L2 genesis hash to match'')
            else Inr (gen_SystemConfig (cfg_Genesis cfg)))
      else and_then (payload_info G cfg payload) (\<lambda>info.
      let t = ep_Timestamp payload;
          scalar = (if isEcotoneButNotFirstBlock cfg t
                    then hash_of ([1] @ slice 1 24 (bytes32 (li_L1FeeScalar info)) @ write_word 4 (li_BlobBaseFeeScalar info) @
                           write_word 4 (li_BaseFeeScalar info))
                    else li_L1FeeScalar info)
      in if \<not> g_ValidateExtraData G cfg t (ep_ExtraData payload) then Inl (InfoErr ''invalid extra data'')
         else
         let (d, e, m) = g_DecodeExtraData G cfg t (ep_ExtraData payload);
             r = \<lparr>BatcherAddr = li_BatcherAddr info, Overhead = li_L1FeeOverhead info, Scalar = scalar, GasLimit = ep_GasLimit payload,
                  sys_BaseFee = None, sys_EIP1559Params = g_Encode1559Params G d e, sys_OperatorFeeParams = 0, sys_MinBaseFee = 0,
                  sys_DAFootprintGasScalar = 0\<rparr>;
             r = (if IsIsthmus cfg t
                  then r\<lparr>sys_OperatorFeeParams := EncodeOperatorFeeParams
                           \<lparr>ofp_Scalar = li_OperatorFeeScalar info, ofp_Constant = li_OperatorFeeConstant info\<rparr>\<rparr>
                  else r)
         in and_then (if IsMinBaseFee cfg t
                      then (case m of None \<Rightarrow> Inl InfoPanic | Some m \<Rightarrow> Inr (r\<lparr>sys_MinBaseFee := m\<rparr>))
                      else Inr r) (\<lambda>r.
            Inr (if IsDAFootprintBlockLimit cfg t then r\<lparr>sys_DAFootprintGasScalar := li_DAFootprintGasScalar info\<rparr> else r))))"


section \<open>The formats can be read back\<close>

lemma length_selector [simp]: "length (selector K s) = 4"
  by (simp add: selector_def)

lemmas selectors = L1InfoFuncBedrockBytes4_def L1InfoFuncEcotoneBytes4_def L1InfoFuncIsthmusBytes4_def L1InfoFuncJovianBytes4_def
  L1InfoFuncArsiaBytes4_def

lemma wrap_iffs [simp]: "abi x = Inr y \<longleftrightarrow> x = Inr y" "fixed e z = Inr y' \<longleftrightarrow> z = Inr y'"
  by (simp_all add: abi_def fixed_def map_sum_Inr_iff)

lemma abi_Inr [simp]: "abi (Inr x) = Inr x" "fixed e (Inr y) = Inr y"
  by simp_all

lemma read_write_word [simp]: "8 * n = LENGTH('a::len) \<Longrightarrow> read_word n (write_word n w @ r) = Inr (w :: 'a word, r)"
  by (simp add: read_word_iff)

lemma read_write_word_end [simp]: "8 * n = LENGTH('a::len) \<Longrightarrow> read_word n (write_word n w) = Inr (w :: 'a word, [])"
  using read_write_word [of n w "[]"] by simp

lemma write_big_iff: "write_big n = Inr bs \<longleftrightarrow> (\<exists>k. n = Some k \<and> k < 2 ^ 256 \<and> bs = be_encode 32 k)"
  by (auto simp: write_big_def map_sum_Inr_iff WriteUint256_iff split: option.splits)

text \<open>The fields that a format carries.\<close>

definition carry_bedrock :: "L1BlockInfo \<Rightarrow> L1BlockInfo" where
  "carry_bedrock info = zero_L1BlockInfo\<lparr>li_Number := li_Number info, li_Time := li_Time info, li_BaseFee := li_BaseFee info,
     li_BlockHash := li_BlockHash info, li_SequenceNumber := li_SequenceNumber info, li_BatcherAddr := li_BatcherAddr info,
     li_L1FeeOverhead := li_L1FeeOverhead info, li_L1FeeScalar := li_L1FeeScalar info\<rparr>"

definition carry_ecotone :: "L1BlockInfo \<Rightarrow> L1BlockInfo" where
  "carry_ecotone info = zero_L1BlockInfo\<lparr>li_Number := li_Number info, li_Time := li_Time info, li_BaseFee := li_BaseFee info,
     li_BlockHash := li_BlockHash info, li_SequenceNumber := li_SequenceNumber info, li_BatcherAddr := li_BatcherAddr info,
     li_BlobBaseFee := Some (case li_BlobBaseFee info of None \<Rightarrow> 1 | Some n \<Rightarrow> n), li_BaseFeeScalar := li_BaseFeeScalar info,
     li_BlobBaseFeeScalar := li_BlobBaseFeeScalar info\<rparr>"

definition carry_isthmus :: "L1BlockInfo \<Rightarrow> L1BlockInfo" where
  "carry_isthmus info = (carry_ecotone info)\<lparr>li_OperatorFeeScalar := li_OperatorFeeScalar info,
     li_OperatorFeeConstant := li_OperatorFeeConstant info\<rparr>"

definition carry_jovian :: "L1BlockInfo \<Rightarrow> L1BlockInfo" where
  "carry_jovian info = (carry_isthmus info)\<lparr>li_DAFootprintGasScalar := li_DAFootprintGasScalar info\<rparr>"

text \<open>Bedrock.\<close>

lemma bedrock_read:
  assumes "marshalBinaryBedrock K info = Inr data"
  shows "unmarshalBinaryBedrock K data = Inr (carry_bedrock info)"
proof -
  from assms obtain n where n: "li_BaseFee info = Some n" "n < 2 ^ 256" and
    d: "data = L1InfoFuncBedrockBytes4 K @ WriteUint64 (li_Number info) @ WriteUint64 (li_Time info) @ be_encode 32 n @
      WriteHash (li_BlockHash info) @ WriteUint64 (li_SequenceNumber info) @ WriteAddress (li_BatcherAddr info) @
      WriteEthBytes32 (li_L1FeeOverhead info) @ WriteEthBytes32 (li_L1FeeScalar info)"
    by (auto simp: marshalBinaryBedrock_def and_then_Inr_iff write_big_iff)
  have s: "ReadAndValidateSignature (L1InfoFuncBedrockBytes4 K) (L1InfoFuncBedrockBytes4 K @ r) = Inr (L1InfoFuncBedrockBytes4 K, r)" for r
    by (simp add: ReadAndValidateSignature_iff selectors)
  have l: "length (L1InfoFuncBedrockBytes4 K) = 4" by (simp add: selectors)
  show ?thesis
    using n abi_bytes32.dec_enc [of "li_L1FeeScalar info" "[]"]
    by (simp add: d unmarshalBinaryBedrock_def s abi_uint64.dec_enc abi_uint256.dec_enc abi_hash.dec_enc abi_address.dec_enc
        abi_bytes32.dec_enc carry_bedrock_def EmptyReader_def info_lens l)
qed

lemma bedrock_exact: "unmarshalBinaryBedrock K data = Inr info \<Longrightarrow> marshalBinaryBedrock K info = Inr data"
  by (auto simp: unmarshalBinaryBedrock_def marshalBinaryBedrock_def abi_iffs EmptyReader_def write_big_def selectors
      split: if_splits)

text \<open>The other formats share their readers; \<open>info\<^sub>0\<close> is what is read into.\<close>

lemma ecotone_read:
  "writeBinaryEcotone info = Inr w \<Longrightarrow> readBinaryEcotone zero_L1BlockInfo (w @ r) = Inr (carry_ecotone info, r)"
  by (auto simp: writeBinaryEcotone_def readBinaryEcotone_def and_then_Inr_iff write_big_iff abi_uint256.dec_enc
      abi_hash.dec_enc abi_address.dec_enc carry_ecotone_def Let_def split: option.splits)

lemma isthmus_read:
  "writeBinaryIsthmus info = Inr w \<Longrightarrow> readBinaryIsthmus zero_L1BlockInfo (w @ r) = Inr (carry_isthmus info, r)"
  by (auto simp: writeBinaryIsthmus_def readBinaryIsthmus_def and_then_Inr_iff ecotone_read carry_isthmus_def)

lemma jovian_read:
  "writeBinaryJovian info = Inr w \<Longrightarrow> readBinaryJovian zero_L1BlockInfo (w @ r) = Inr (carry_jovian info, r)"
  by (auto simp: writeBinaryJovian_def readBinaryJovian_def and_then_Inr_iff isthmus_read carry_jovian_def)

lemma ecotone_exact:
  "readBinaryEcotone info0 bs = Inr (info, r) \<Longrightarrow> \<exists>w. writeBinaryEcotone info = Inr w \<and> bs = w @ r \<and> length w = 160"
  by (auto simp: readBinaryEcotone_def writeBinaryEcotone_def abi_iffs write_big_def Let_def)

lemma isthmus_exact:
  assumes "readBinaryIsthmus info0 bs = Inr (info, r)"
  shows "\<exists>w. writeBinaryIsthmus info = Inr w \<and> bs = w @ r \<and> length w = 172"
proof -
  from assms obtain info1 r1 where e: "readBinaryEcotone info0 bs = Inr (info1, r1)" and
    i: "r1 = write_word 4 (li_OperatorFeeScalar info) @ write_word 8 (li_OperatorFeeConstant info) @ r"
      "info = info1\<lparr>li_OperatorFeeScalar := li_OperatorFeeScalar info, li_OperatorFeeConstant := li_OperatorFeeConstant info\<rparr>"
    by (auto simp: readBinaryIsthmus_def abi_iffs)
  from ecotone_exact [OF e] obtain w where w: "writeBinaryEcotone info1 = Inr w" "bs = w @ r1" "length w = 160" by blast
  have "writeBinaryEcotone info = writeBinaryEcotone info1" by (subst i(2)) (simp add: writeBinaryEcotone_def)
  with w i(1) show ?thesis by (simp add: writeBinaryIsthmus_def)
qed

lemma jovian_exact:
  assumes "readBinaryJovian info0 bs = Inr (info, r)"
  shows "\<exists>w. writeBinaryJovian info = Inr w \<and> bs = w @ r \<and> length w = 174"
proof -
  from assms obtain info1 r1 where e: "readBinaryIsthmus info0 bs = Inr (info1, r1)" and
    i: "r1 = write_word 2 (li_DAFootprintGasScalar info) @ r"
      "info = info1\<lparr>li_DAFootprintGasScalar := li_DAFootprintGasScalar info\<rparr>"
    by (auto simp: readBinaryJovian_def abi_iffs)
  from isthmus_exact [OF e] obtain w where w: "writeBinaryIsthmus info1 = Inr w" "bs = w @ r1" "length w = 172" by blast
  have "writeBinaryIsthmus info = writeBinaryIsthmus info1" by (subst i(2)) (simp add: writeBinaryIsthmus_def writeBinaryEcotone_def)
  with w i(1) show ?thesis by (simp add: writeBinaryJovian_def)
qed

text \<open>What a format promises: the reader gives the fields that the format carries, and accepts only what the writer writes.\<close>

locale info_format =
  fixes marshal :: "L1BlockInfo \<Rightarrow> info_error + byte list"
    and unmarshal :: "byte list \<Rightarrow> info_error + L1BlockInfo"
    and carry :: "L1BlockInfo \<Rightarrow> L1BlockInfo"
  assumes unmarshal_marshal: "marshal info = Inr data \<Longrightarrow> unmarshal data = Inr (carry info)"
    and marshal_unmarshal: "unmarshal data = Inr info \<Longrightarrow> marshal info = Inr data"
    and carry_header: "li_Number (carry info) = li_Number info" "li_Time (carry info) = li_Time info"
      "li_BaseFee (carry info) = li_BaseFee info" "li_BlockHash (carry info) = li_BlockHash info"
      "li_SequenceNumber (carry info) = li_SequenceNumber info" "li_BatcherAddr (carry info) = li_BatcherAddr info"
begin

lemma unmarshal_inject: "unmarshal data = Inr info \<Longrightarrow> unmarshal data' = Inr info \<Longrightarrow> data = data'"
  by (drule marshal_unmarshal)+ simp

lemma carry_idem: "unmarshal data = Inr info \<Longrightarrow> carry info = info"
  using unmarshal_marshal [OF marshal_unmarshal] by fastforce

end

text \<open>A selector before the fields, with the length checked first, makes a format of a reader and a writer of the fields.\<close>

lemma info_format_with:
  assumes read: "\<And>info w r. write info = Inr w \<Longrightarrow> read zero_L1BlockInfo (w @ r) = Inr (carry info, r)"
    and exact: "\<And>bs info r. read zero_L1BlockInfo bs = Inr (info, r) \<Longrightarrow> \<exists>w. write info = Inr w \<and> bs = w @ r \<and> length w = n"
    and sig: "length sig = 4" and len: "len = 4 + n"
    and hd: "\<And>info. carry_bedrock (carry info) = (carry_bedrock info)\<lparr>li_L1FeeOverhead := 0, li_L1FeeScalar := 0\<rparr>"
  shows "info_format (marshal_with sig write) (unmarshal_with len sig read) carry"
proof
  fix info data assume "marshal_with sig write info = Inr data"
  then obtain w where w: "write info = Inr w" "data = sig @ w" by (auto simp: marshal_with_def and_then_Inr_iff)
  have r: "read zero_L1BlockInfo w = Inr (carry info, [])" using read [OF w(1), of "[]"] by simp
  then have "length w = n" using exact [OF r] by auto
  then show "unmarshal_with len sig read data = Inr (carry info)"
    using w r sig len by (simp add: unmarshal_with_def ReadAndValidateSignature_def EmptyReader_def)
next
  fix info data assume "unmarshal_with len sig read data = Inr info"
  then obtain s r where "data = sig @ r" "read zero_L1BlockInfo r = Inr (info, [])"
    by (auto simp: unmarshal_with_def abi_iffs EmptyReader_def split: if_splits)
  then show "marshal_with sig write info = Inr data" using exact [of r info "[]"] by (auto simp: marshal_with_def)
qed (use hd in \<open>simp_all add: carry_bedrock_def zero_L1BlockInfo_def\<close>)

lemmas carry_defs = carry_bedrock_def carry_ecotone_def carry_isthmus_def carry_jovian_def

lemma carry_hd:
  "carry_bedrock (carry_ecotone info) = (carry_bedrock info)\<lparr>li_L1FeeOverhead := 0, li_L1FeeScalar := 0\<rparr>"
  "carry_bedrock (carry_isthmus info) = (carry_bedrock info)\<lparr>li_L1FeeOverhead := 0, li_L1FeeScalar := 0\<rparr>"
  "carry_bedrock (carry_jovian info) = (carry_bedrock info)\<lparr>li_L1FeeOverhead := 0, li_L1FeeScalar := 0\<rparr>"
  by (simp_all add: carry_defs zero_L1BlockInfo_def)

interpretation bedrock: info_format "marshalBinaryBedrock K" "unmarshalBinaryBedrock K" carry_bedrock for K
  by (unfold_locales, erule bedrock_read, erule bedrock_exact) (simp_all add: carry_bedrock_def)

interpretation ecotone: info_format "marshalBinaryEcotone K" "unmarshalBinaryEcotone K" carry_ecotone for K
  unfolding marshalBinaryEcotone_def unmarshalBinaryEcotone_def
  by (rule info_format_with [where n = 160], erule ecotone_read, erule ecotone_exact) (simp_all add: carry_hd selectors info_lens)

interpretation isthmus: info_format "marshalBinaryIsthmus K" "unmarshalBinaryIsthmus K" carry_isthmus for K
  unfolding marshalBinaryIsthmus_def unmarshalBinaryIsthmus_def
  by (rule info_format_with [where n = 172], erule isthmus_read, erule isthmus_exact) (simp_all add: carry_hd selectors info_lens)

interpretation jovian: info_format "marshalBinaryJovian K" "unmarshalBinaryJovian K" carry_jovian for K
  unfolding marshalBinaryJovian_def unmarshalBinaryJovian_def
  by (rule info_format_with [where n = 174], erule jovian_read, erule jovian_exact) (simp_all add: carry_hd selectors info_lens)

interpretation arsia: info_format "marshalBinaryMantleArsia K" "unmarshalBinaryMantleArsia K" carry_jovian for K
  unfolding marshalBinaryMantleArsia_def unmarshalBinaryMantleArsia_def
  by (rule info_format_with [where n = 174], erule jovian_read, erule jovian_exact) (simp_all add: carry_hd selectors info_lens)

text \<open>The format of a block is itself a format.\<close>

definition carry_info :: "Config \<Rightarrow> u64 \<Rightarrow> L1BlockInfo \<Rightarrow> L1BlockInfo" where
  "carry_info cfg t =
     (if isMantleArsiaButNotFirstBlock cfg t \<or> isJovianButNotFirstBlock cfg t then carry_jovian
      else if isIsthmusButNotFirstBlock cfg t then carry_isthmus
      else if isEcotoneButNotFirstBlock cfg t then carry_ecotone else carry_bedrock)"

interpretation block_info: info_format "marshal_info K cfg t" "L1BlockInfoFromBytes K cfg t" "carry_info cfg t" for K cfg t
proof
  show "L1BlockInfoFromBytes K cfg t data = Inr (carry_info cfg t info)" if "marshal_info K cfg t info = Inr data" for info data
    using that unfolding marshal_info_def L1BlockInfoFromBytes_def carry_info_def
    by (auto split: if_splits dest: arsia.unmarshal_marshal jovian.unmarshal_marshal isthmus.unmarshal_marshal
        ecotone.unmarshal_marshal bedrock.unmarshal_marshal)
  show "marshal_info K cfg t info = Inr data" if "L1BlockInfoFromBytes K cfg t data = Inr info" for info data
    using that unfolding marshal_info_def L1BlockInfoFromBytes_def
    by (auto split: if_splits dest: arsia.marshal_unmarshal jovian.marshal_unmarshal isthmus.marshal_unmarshal
        ecotone.marshal_unmarshal bedrock.marshal_unmarshal)
qed (simp_all add: carry_info_def carry_defs)


section \<open>From the transaction back to the block and the configuration\<close>

lemma L1InfoDeposit_data:
  "L1InfoDeposit G cfg cc sc seq block t = Inr dep \<Longrightarrow>
     \<exists>info. info_fields G cfg cc sc seq block t = Inr info \<and> marshal_info (g_keccak G) cfg t info = Inr (dep_Data dep)"
  by (auto simp: L1InfoDeposit_def and_then_Inr_iff Let_def split: if_splits)

text \<open>The part of the info that every format carries.\<close>

definition header :: "L1BlockInfo \<Rightarrow> u64 \<times> u64 \<times> nat option \<times> hash \<times> u64 \<times> address" where
  "header info = (li_Number info, li_Time info, li_BaseFee info, li_BlockHash info, li_SequenceNumber info, li_BatcherAddr info)"

lemma header_steps:
  "header (set_operator_fee cfg sc t info) = header info" "header (set_da_footprint cfg sc t info) = header info"
  "set_l1_fees G cfg cc sc block t info = Inr info' \<Longrightarrow> header info' = header info"
  by (auto simp: header_def set_operator_fee_def set_da_footprint_def SetDAFootprintGasScalarOrDefault_def
      set_l1_fees_def and_then_Inr_iff split: if_splits)

lemma info_fields_header:
  "info_fields G cfg cc sc seq block t = Inr info \<Longrightarrow>
     header info = (bi_Number block, bi_Time block, bi_BaseFee block, bi_Hash block, seq, BatcherAddr sc)"
  by (auto simp: info_fields_def and_then_Inr_iff header_steps) (simp add: header_def)

lemma aligned_not_first:
  assumes "AlignOpWithMantle c = (e, cfg)"
  shows "isEcotoneButNotFirstBlock cfg t = isMantleArsiaButNotFirstBlock cfg t"
    and "isIsthmusButNotFirstBlock cfg t = isMantleArsiaButNotFirstBlock cfg t"
    and "isJovianButNotFirstBlock cfg t = isMantleArsiaButNotFirstBlock cfg t"
    and "IsIsthmus cfg t = IsMantleArsia cfg t" "IsJovian cfg t = IsMantleArsia cfg t"
  using AlignOpWithMantle_times [OF assms]
  by (simp_all add: isEcotoneButNotFirstBlock_def isIsthmusButNotFirstBlock_def isJovianButNotFirstBlock_def
      isMantleArsiaButNotFirstBlock_def IsEcotoneActivationBlock_def IsIsthmusActivationBlock_def IsJovianActivationBlock_def
      IsMantleArsiaActivationBlock_def IsFork_active_at)

text \<open>What of the configuration the transaction depends on.\<close>

definition same_fees :: "bool \<Rightarrow> SystemConfig \<Rightarrow> SystemConfig \<Rightarrow> bool" where
  "same_fees arsia sc sc' \<longleftrightarrow> BatcherAddr sc' = BatcherAddr sc \<and>
     (if arsia then sys_EcotoneScalars sc' = sys_EcotoneScalars sc \<and> OperatorFee sc' = OperatorFee sc \<and>
        SetDAFootprintGasScalarOrDefault (sys_DAFootprintGasScalar sc') = SetDAFootprintGasScalarOrDefault (sys_DAFootprintGasScalar sc)
      else Overhead sc' = Overhead sc \<and> Scalar sc' = Scalar sc)"

lemma L1InfoDeposit_same_fees:
  assumes "AlignOpWithMantle c = (e, cfg)" and "same_fees (isMantleArsiaButNotFirstBlock cfg t) sc sc'"
  shows "L1InfoDeposit G cfg cc sc' seq block t = L1InfoDeposit G cfg cc sc seq block t"
proof -
  have "set_l1_fees G cfg cc sc' block t = set_l1_fees G cfg cc sc block t"
    "set_operator_fee cfg sc' t = set_operator_fee cfg sc t" "set_da_footprint cfg sc' t = set_da_footprint cfg sc t"
    using assms(2) aligned_not_first [OF assms(1), of t]
    by (auto simp: same_fees_def set_l1_fees_def set_operator_fee_def set_da_footprint_def fun_eq_iff split: if_splits)
  then show ?thesis using assms(2) by (simp add: L1InfoDeposit_def info_fields_def same_fees_def)
qed

lemma carried_fees:
  assumes "AlignOpWithMantle c = (e, cfg)" and "info_fields G cfg cc sc seq block t = Inr info"
  shows "if isMantleArsiaButNotFirstBlock cfg t
    then sys_EcotoneScalars sc = Inr \<lparr>BlobBaseFeeScalar = li_BlobBaseFeeScalar info, BaseFeeScalar = li_BaseFeeScalar info\<rparr> \<and>
      OperatorFee sc = \<lparr>ofp_Scalar = li_OperatorFeeScalar info, ofp_Constant = li_OperatorFeeConstant info\<rparr> \<and>
      li_DAFootprintGasScalar info = li_DAFootprintGasScalar (SetDAFootprintGasScalarOrDefault (sys_DAFootprintGasScalar sc) info)
    else li_L1FeeOverhead info = Overhead sc \<and> li_L1FeeScalar info = Scalar sc"
proof (cases "isMantleArsiaButNotFirstBlock cfg t")
  case True
  with assms show ?thesis using aligned_not_first [OF assms(1), of t]
    by (auto simp: info_fields_def and_then_Inr_iff set_l1_fees_def set_operator_fee_def set_da_footprint_def map_sum_Inr_iff
        SetDAFootprintGasScalarOrDefault_def)
next
  case False
  with assms show ?thesis using aligned_not_first [OF assms(1), of t]
    by (auto simp: info_fields_def set_l1_fees_def set_operator_fee_def set_da_footprint_def)
qed

lemma restored_fees:
  assumes "AlignOpWithMantle c = (e, cfg)" and "info_fields G cfg cc sc seq block (ep_Timestamp pl) = Inr info"
    and "payload_info G cfg pl = Inr (carry_info cfg (ep_Timestamp pl) info)"
    and "ep_BlockNumber pl \<noteq> bid_Number (gen_L2 (cfg_Genesis cfg))" and "PayloadToSystemConfig G cfg pl = Inr sc'"
  shows "same_fees (isMantleArsiaButNotFirstBlock cfg (ep_Timestamp pl)) sc sc' \<and> GasLimit sc' = ep_GasLimit pl"
proof -
  let ?t = "ep_Timestamp pl" and ?b = "isMantleArsiaButNotFirstBlock cfg (ep_Timestamp pl)"
  let ?i = "carry_info cfg (ep_Timestamp pl) info"
  have h: "li_BatcherAddr info = BatcherAddr sc" using info_fields_header [OF assms(2)] by (simp add: header_def)
  have fork: "isEcotoneButNotFirstBlock cfg ?t = ?b" "?b \<Longrightarrow> IsIsthmus cfg ?t" "?b \<Longrightarrow> IsDAFootprintBlockLimit cfg ?t"
    using aligned_not_first [OF assms(1), of ?t]
    by (auto simp: isMantleArsiaButNotFirstBlock_def IsDAFootprintBlockLimit_def)
  have carry: "?i = (if ?b then carry_jovian info else carry_bedrock info)"
    using aligned_not_first [OF assms(1), of ?t] by (simp add: carry_info_def)
  have sc': "BatcherAddr sc' = li_BatcherAddr ?i" "GasLimit sc' = ep_GasLimit pl" "Overhead sc' = li_L1FeeOverhead ?i"
    "Scalar sc' = (if ?b then hash_of ([1] @ slice 1 24 (bytes32 (li_L1FeeScalar ?i)) @ write_word 4 (li_BlobBaseFeeScalar ?i) @
        write_word 4 (li_BaseFeeScalar ?i)) else li_L1FeeScalar ?i)"
    "IsIsthmus cfg ?t \<Longrightarrow> sys_OperatorFeeParams sc' = EncodeOperatorFeeParams
        \<lparr>ofp_Scalar = li_OperatorFeeScalar ?i, ofp_Constant = li_OperatorFeeConstant ?i\<rparr>"
    "IsDAFootprintBlockLimit cfg ?t \<Longrightarrow> sys_DAFootprintGasScalar sc' = li_DAFootprintGasScalar ?i"
    using assms(3-5) fork(1)
    by (auto simp: PayloadToSystemConfig_def and_then_Inr_iff Let_def split: if_splits prod.splits option.splits)
  show ?thesis
  proof (cases ?b)
    case False
    then show ?thesis using sc' carry h carried_fees [OF assms(1,2)] by (simp add: same_fees_def carry_bedrock_def)
  next
    case True
    have i: "li_L1FeeScalar ?i = 0" "li_BlobBaseFeeScalar ?i = li_BlobBaseFeeScalar info" "li_BaseFeeScalar ?i = li_BaseFeeScalar info"
      "li_OperatorFeeScalar ?i = li_OperatorFeeScalar info" "li_OperatorFeeConstant ?i = li_OperatorFeeConstant info"
      "li_DAFootprintGasScalar ?i = li_DAFootprintGasScalar info" "li_BatcherAddr ?i = li_BatcherAddr info"
      using True by (simp_all add: carry carry_defs zero_L1BlockInfo_def)
    have z: "slice (Suc 0) 24 (bytes32 0) = replicate 23 0"
      by (simp add: slice_def bytes32_def be_encode_0)
    have f: "sys_EcotoneScalars sc = Inr \<lparr>BlobBaseFeeScalar = li_BlobBaseFeeScalar info, BaseFeeScalar = li_BaseFeeScalar info\<rparr>"
      "OperatorFee sc = \<lparr>ofp_Scalar = li_OperatorFeeScalar info, ofp_Constant = li_OperatorFeeConstant info\<rparr>"
      "li_DAFootprintGasScalar info = li_DAFootprintGasScalar (SetDAFootprintGasScalarOrDefault (sys_DAFootprintGasScalar sc) info)"
      using carried_fees [OF assms(1,2)] True by simp_all
    have "Scalar sc' = EncodeScalar \<lparr>BlobBaseFeeScalar = li_BlobBaseFeeScalar info, BaseFeeScalar = li_BaseFeeScalar info\<rparr>"
      using sc'(4) True by (simp add: i z EncodeScalar_def L1ScalarEcotone_def)
    then have "sys_EcotoneScalars sc' = sys_EcotoneScalars sc" using EcotoneScalars_EncodeScalar f(1) by simp
    moreover have "OperatorFee sc' = OperatorFee sc"
      using sc'(5) fork(2) True f(2) by (simp add: i OperatorFee_def OperatorFee_EncodeOperatorFeeParams)
    moreover have "SetDAFootprintGasScalarOrDefault (sys_DAFootprintGasScalar sc') =
        SetDAFootprintGasScalarOrDefault (sys_DAFootprintGasScalar sc)"
      using sc'(6) fork(3) True f(3) i(6)
      by (auto simp: SetDAFootprintGasScalarOrDefault_def DAFootprintGasScalarDefault_def fun_eq_iff split: if_splits)
    ultimately show ?thesis using sc'(1,2) True h i(7) by (simp add: same_fees_def)
  qed
qed

lemma payload_info_carried:
  assumes "L1InfoDeposit G cfg cc sc seq block (ep_Timestamp pl) = Inr dep" and "ep_Transactions pl = tx # txs"
    and "g_unmarshal G tx = Some (DepositTxType, dep_Data dep)"
  obtains info where "info_fields G cfg cc sc seq block (ep_Timestamp pl) = Inr info"
    "payload_info G cfg pl = Inr (carry_info cfg (ep_Timestamp pl) info)"
  using L1InfoDeposit_data [OF assms(1)] assms(2,3) block_info.unmarshal_marshal by (auto simp: payload_info_def)


text \<open>When the transaction can be built: the fees fit in 256 bits, and the scalars can be decoded.\<close>

lemma marshal_info_ok:
  assumes "li_BaseFee info = Some n" and "n < 2 ^ 256" and "\<And>m. li_BlobBaseFee info = Some m \<Longrightarrow> m < 2 ^ 256"
  shows "\<exists>data. marshal_info K cfg t info = Inr data"
proof -
  have w: "write_big (Some n) = Inr (be_encode 32 n)" "write_big (Some 1) = Inr (be_encode 32 1)"
    "li_BlobBaseFee info = Some m \<Longrightarrow> write_big (Some m) = Inr (be_encode 32 m)" for m
    using assms by (simp_all add: write_big_def WriteUint256_def)
  then have "\<exists>w. writeBinaryEcotone info = Inr w"
    using assms(1) by (cases "li_BlobBaseFee info") (simp_all add: writeBinaryEcotone_def)
  with w(1) assms(1) show ?thesis
    by (auto simp: marshal_info_def marshalBinaryMantleArsia_def marshalBinaryJovian_def marshalBinaryIsthmus_def marshalBinaryEcotone_def
        marshal_with_def writeBinaryJovian_def writeBinaryIsthmus_def marshalBinaryBedrock_def)
qed

lemma L1InfoDeposit_succeeds:
  assumes "bi_BaseFee block = Some n" and "n < 2 ^ 256"
    and "info_BlobBaseFee G cfg cc block t = Inr fee" and "fee < 2 ^ 256" and "sys_EcotoneScalars sc = Inr s"
  shows "\<exists>dep. L1InfoDeposit G cfg cc sc seq block t = Inr dep"
proof -
  obtain info where i: "info_fields G cfg cc sc seq block t = Inr info"
    using assms by (cases "isEcotoneButNotFirstBlock cfg t") (simp_all add: info_fields_def set_l1_fees_def)
  have "li_BlobBaseFee info = Some m \<Longrightarrow> m < 2 ^ 256" for m
    using i assms by (auto simp: info_fields_def set_l1_fees_def set_operator_fee_def set_da_footprint_def
        SetDAFootprintGasScalarOrDefault_def zero_L1BlockInfo_def split: if_splits)
  moreover have "li_BaseFee info = Some n" using info_fields_header [OF i] assms(1) by (simp add: header_def)
  ultimately obtain data where "marshal_info (g_keccak G) cfg t info = Inr data"
    using marshal_info_ok [of info n] assms(2) by blast
  with i show ?thesis by (simp add: L1InfoDeposit_def Let_def)
qed


section \<open>Properties\<close>

text \<open>C27: The L1 info transaction can be read back, in every format. Whatever forks are active, reading the data of the transaction
  that \<open>L1InfoDeposit\<close> builds gives number, time, base fee and hash of the L1 block, the sequence number and the batcher address; and no
  other data reads as the same info.\<close>

theorem l1_info_roundtrip:
  assumes "L1InfoDeposit G cfg cc sysCfg seqNumber block t = Inr dep"
  shows "\<exists>info. L1BlockInfoFromBytes (g_keccak G) cfg t (dep_Data dep) = Inr info \<and>
    li_Number info = bi_Number block \<and> li_Time info = bi_Time block \<and> li_BaseFee info = bi_BaseFee block \<and>
    li_BlockHash info = bi_Hash block \<and> li_SequenceNumber info = seqNumber \<and> li_BatcherAddr info = BatcherAddr sysCfg \<and>
    (\<forall>data. L1BlockInfoFromBytes (g_keccak G) cfg t data = Inr info \<longrightarrow> data = dep_Data dep)"
proof -
  obtain info where i: "info_fields G cfg cc sysCfg seqNumber block t = Inr info" "marshal_info (g_keccak G) cfg t info = Inr (dep_Data dep)"
    using L1InfoDeposit_data [OF assms] by blast
  from block_info.unmarshal_marshal [OF i(2)] block_info.unmarshal_inject info_fields_header [OF i(1)] show ?thesis
    by (intro exI [of _ "carry_info cfg t info"]) (auto simp: block_info.carry_header header_def)
qed

definition sample_geth :: "unit geth" where
  "sample_geth = \<lparr>g_keccak = (\<lambda>_. 0), g_marshal = (\<lambda>d. Some (DepositTxType # dep_Data d)),
     g_unmarshal = (\<lambda>b. case b of [] \<Rightarrow> None | t # d \<Rightarrow> Some (t, d)), g_mainnetArsia = (), g_CalcBlobFeeCancun = (\<lambda>_. 1),
     g_ValidateExtraData = (\<lambda>_ _ _. True), g_DecodeExtraData = (\<lambda>_ _ _. (250, 6, Some 0)), g_Encode1559Params = (\<lambda>d e. e)\<rparr>"

definition sample_info_block :: "unit BlockInfo" where
  "sample_info_block = \<lparr>bi_Hash = 91, bi_ParentHash = 90, bi_Number = 9, bi_Time = 2100, bi_MixDigest = 3, bi_BaseFee = Some 7,
     bi_BlobBaseFee = (\<lambda>_. Some 2), bi_ExcessBlobGas = Some 0, bi_ParentBeaconRoot = None\<rparr>"

abbreviation sample_sysCfg :: SystemConfig where "sample_sysCfg \<equiv> gen_SystemConfig (cfg_Genesis sample_aligned)"

lemma sample_L1InfoDeposit:
  "\<exists>dep. L1InfoDeposit sample_geth sample_aligned () sample_sysCfg seq sample_info_block 2110 = Inr dep"
proof (rule L1InfoDeposit_succeeds [where n = 7])
  have f: "isMantleArsiaButNotFirstBlock sample_aligned 2110" "\<not> isMantleElysiumButNotFirstBlock sample_aligned 2110"
    "L1ChainID sample_aligned = Some 1" "PectraBlobScheduleTime sample_aligned = None" by code_simp+
  then show "info_BlobBaseFee sample_geth sample_aligned () sample_info_block 2110 = Inr 2"
    by (simp add: info_BlobBaseFee_def ChainIDFromBig_def sample_info_block_def)
  show "sys_EcotoneScalars sample_sysCfg = Inr \<lparr>BlobBaseFeeScalar = 0, BaseFeeScalar = 7\<rparr>" by code_simp
qed (simp_all add: sample_info_block_def)

theorem l1_info_roundtrip_witness:
  "\<exists>dep info. L1InfoDeposit sample_geth sample_aligned () sample_sysCfg 4 sample_info_block 2110 = Inr dep \<and>
    L1BlockInfoFromBytes (g_keccak sample_geth) sample_aligned 2110 (dep_Data dep) = Inr info \<and>
    li_Number info = 9 \<and> li_BlockHash info = 91 \<and> li_SequenceNumber info = 4"
proof -
  obtain dep where "L1InfoDeposit sample_geth sample_aligned () sample_sysCfg 4 sample_info_block 2110 = Inr dep"
    using sample_L1InfoDeposit ..
  from this l1_info_roundtrip [OF this] show ?thesis by (auto simp: sample_info_block_def)
qed

text \<open>C13: The system configuration survives in the L2 blocks. In an aligned configuration, the system configuration that is restored from an L2 block is
  as good as the one the block was built with: the batcher address is the same, the gas limit is that of the block, and the L1 info transaction
  of any later block is the same for both, as long as both blocks are before the end of the Arsia activation block or both after it. Fee scalars, operator fees and
  the footprint scalar all pass through the packed format.\<close>

theorem system_config_survives:
  assumes "AlignOpWithMantle c = (e, cfg)"
    and "L1InfoDeposit G cfg cc sc seq block (ep_Timestamp pl) = Inr dep" and "ep_Transactions pl = tx # txs"
    and "g_unmarshal G tx = Some (DepositTxType, dep_Data dep)"
    and "ep_BlockNumber pl \<noteq> bid_Number (gen_L2 (cfg_Genesis cfg))" and "PayloadToSystemConfig G cfg pl = Inr sc'"
    and "isMantleArsiaButNotFirstBlock cfg t' = isMantleArsiaButNotFirstBlock cfg (ep_Timestamp pl)"
  shows "L1InfoDeposit G cfg cc' sc' seq' block' t' = L1InfoDeposit G cfg cc' sc seq' block' t' \<and>
    BatcherAddr sc' = BatcherAddr sc \<and> GasLimit sc' = ep_GasLimit pl"
proof -
  obtain info where i: "info_fields G cfg cc sc seq block (ep_Timestamp pl) = Inr info"
    "payload_info G cfg pl = Inr (carry_info cfg (ep_Timestamp pl) info)"
    using payload_info_carried [OF assms(2-4)] .
  have s: "same_fees (isMantleArsiaButNotFirstBlock cfg t') sc sc' \<and> GasLimit sc' = ep_GasLimit pl"
    using restored_fees [OF assms(1) i assms(5,6)] assms(7) by simp
  then show ?thesis
    using L1InfoDeposit_same_fees [OF assms(1) conjunct1 [OF s]] by (auto simp: same_fees_def)
qed

definition sample_payload :: "byte list \<Rightarrow> ExecutionPayload" where
  "sample_payload data = \<lparr>ep_ParentHash = 21, ep_BlockHash = 23, ep_BlockNumber = 555, ep_Timestamp = 2110, ep_GasLimit = 30000000,
     ep_ExtraData = [], ep_Transactions = [DepositTxType # data]\<rparr>"

theorem system_config_survives_witness:
  "\<exists>(dep :: DepositTx) sc'. PayloadToSystemConfig sample_geth sample_aligned (sample_payload (dep_Data dep)) = Inr sc' \<and>
    L1InfoDeposit sample_geth sample_aligned () sc' 5 sample_info_block 2112 =
      L1InfoDeposit sample_geth sample_aligned () sample_sysCfg 5 sample_info_block 2112"
proof -
  obtain dep where d: "L1InfoDeposit sample_geth sample_aligned () sample_sysCfg 4 sample_info_block 2110 = Inr dep"
    using sample_L1InfoDeposit ..
  let ?pl = "sample_payload (dep_Data dep)"
  have g: "bid_Number (gen_L2 (cfg_Genesis sample_aligned)) = 0" by code_simp
  have b: "isMantleArsiaButNotFirstBlock sample_aligned 2112 = isMantleArsiaButNotFirstBlock sample_aligned (ep_Timestamp ?pl)"
    by (simp add: sample_payload_def) code_simp
  have u: "g_unmarshal sample_geth (DepositTxType # dep_Data dep) = Some (DepositTxType, dep_Data dep)" by (simp add: sample_geth_def)
  obtain info where i: "payload_info sample_geth sample_aligned ?pl = Inr info"
    using payload_info_carried [of sample_geth sample_aligned "()" sample_sysCfg 4 sample_info_block ?pl dep] d u
    by (auto simp: sample_payload_def)
  then obtain sc' where p: "PayloadToSystemConfig sample_geth sample_aligned ?pl = Inr sc'"
    using g by (cases "IsMinBaseFee sample_aligned 2110")
      (simp_all add: PayloadToSystemConfig_def sample_payload_def sample_geth_def Let_def)
  have "L1InfoDeposit sample_geth sample_aligned () sc' 5 sample_info_block 2112 =
      L1InfoDeposit sample_geth sample_aligned () sample_sysCfg 5 sample_info_block 2112"
    using system_config_survives [OF sample_align _ _ _ _ p b, of "()" sample_sysCfg 4 sample_info_block dep] d u g
    by (simp add: sample_payload_def)
  with p show ?thesis by blast
qed

end
