(* ===== verification/Attributes.thy ===== *)
theory Attributes
  imports Pipeline L1_Info
begin

text \<open>
  The builder of payload attributes (\<open>op-node/rollup/derive/attributes.go\<close>) with the transactions of the network upgrades
  (\<open>skadi_upgrade_transactions.go\<close>, \<open>arsia_upgrade_transactions.go\<close>), and its place in the attributes queue: the block built from the attributes
  of a batch refers back to the L1 block that the batch names, and dropping the transactions of the batch gives back what was prepared.
\<close>

section \<open>Definitions\<close>

subsection \<open>Upgrade transactions\<close>

text \<open>The bytecodes of the deployed contracts, and the address that go-ethereum computes for a deployment.\<close>

record upgrade_code =
  beaconBlockRootDeploymentBytecode :: "byte list"
  skadiBlockHashDeploymentBytecode :: "byte list"
  l1BlockArsiaDeploymentBytecode :: "byte list"
  gasPriceOracleArsiaDeploymentBytecode :: "byte list"
  operatorFeeVaultArsiaDeploymentByteCode :: "byte list"
  CreateAddress :: "address \<Rightarrow> u64 \<Rightarrow> address"

definition EIP4788ContractDeployer :: address where "EIP4788ContractDeployer = 0x0B799C86a49DEeb90402691F1041aa3AF2d3C875"
definition EIP2935ContractDeployer :: address where "EIP2935ContractDeployer = 0x3462413Af4609098e1E27A490f554f260213D685"
definition GasPriceOracleAddr :: address where "GasPriceOracleAddr = 0x420000000000000000000000000000000000000F"
definition OperatorFeeVaultAddr :: address where "OperatorFeeVaultAddr = 0x420000000000000000000000000000000000001b"
definition SequencerFeeVaultAddr :: address where "SequencerFeeVaultAddr = 0x4200000000000000000000000000000000000011"
definition L1BlockArsiaDeployerAddress :: address where "L1BlockArsiaDeployerAddress = 0x4250000000000000000000000000000000000000"
definition GasPriceOracleArsiaDeployerAddress :: address where "GasPriceOracleArsiaDeployerAddress = 0x4250000000000000000000000000000000000001"
definition OperatorFeeVaultArsiaDeployerAddress :: address where "OperatorFeeVaultArsiaDeployerAddress = 0x4250000000000000000000000000000000000002"

text \<open>The transactions of an upgrade differ in their intent, sender, target, gas and data.\<close>

definition upgrade_tx :: "keccak \<Rightarrow> string \<Rightarrow> address \<Rightarrow> address option \<Rightarrow> u64 \<Rightarrow> byte list \<Rightarrow> DepositTx" where
  "upgrade_tx K intent from to gas data =
     zero_DepositTx\<lparr>dep_SourceHash := UpgradeDepositSource_SourceHash K intent, dep_From := from, dep_To := to,
       dep_Mint := Some 0, dep_Value := 0, dep_Gas := gas, dep_IsSystemTransaction := False, dep_Data := data\<rparr>"

definition upgradeToCalldata :: "keccak \<Rightarrow> address \<Rightarrow> byte list" where
  "upgradeToCalldata K addr = selector K ''upgradeTo(address)'' @ WriteAddress addr"

fun marshal_all :: "(DepositTx \<Rightarrow> byte list option) \<Rightarrow> DepositTx list \<Rightarrow> byte list list option" where
  "marshal_all M [] = Some []"
| "marshal_all M (tx # txs) =
     (case M tx of None \<Rightarrow> None | Some b \<Rightarrow> map_option (Cons b) (marshal_all M txs))"

definition MantleSkadiNetworkUpgradeTransactions ::
  "keccak \<Rightarrow> (DepositTx \<Rightarrow> byte list option) \<Rightarrow> upgrade_code \<Rightarrow> byte list list option" where
  "MantleSkadiNetworkUpgradeTransactions K M code =
     marshal_all M
       [upgrade_tx K ''Skadi: EIP-4788 Contract Deployment'' EIP4788ContractDeployer None 250000 (beaconBlockRootDeploymentBytecode code),
        upgrade_tx K ''Skadi: EIP-2935 Contract Deployment'' EIP2935ContractDeployer None 250000 (skadiBlockHashDeploymentBytecode code)]"

definition MantleArsiaNetworkUpgradeTransactions ::
  "keccak \<Rightarrow> (DepositTx \<Rightarrow> byte list option) \<Rightarrow> upgrade_code \<Rightarrow> byte list list option" where
  "MantleArsiaNetworkUpgradeTransactions K M code =
     marshal_all M
       [upgrade_tx K ''Arsia: L1 Block Deployment'' L1BlockArsiaDeployerAddress None 700000 (l1BlockArsiaDeploymentBytecode code),
        upgrade_tx K ''Arsia: Gas Price Oracle Deployment'' GasPriceOracleArsiaDeployerAddress None 1800000
          (gasPriceOracleArsiaDeploymentBytecode code),
        upgrade_tx K ''Arsia: Operator Fee Vault Deployment'' OperatorFeeVaultArsiaDeployerAddress None 500000
          (operatorFeeVaultArsiaDeploymentByteCode code),
        upgrade_tx K ''Arsia: L1 Block Proxy Update'' 0 (Some L1BlockAddr) 50000
          (upgradeToCalldata K (CreateAddress code L1BlockArsiaDeployerAddress 0)),
        upgrade_tx K ''Arsia: Gas Price Oracle Proxy Update'' 0 (Some GasPriceOracleAddr) 50000
          (upgradeToCalldata K (CreateAddress code GasPriceOracleArsiaDeployerAddress 0)),
        upgrade_tx K ''Arsia: Operator Fee Vault Proxy Update'' 0 (Some OperatorFeeVaultAddr) 50000
          (upgradeToCalldata K (CreateAddress code OperatorFeeVaultArsiaDeployerAddress 0)),
        upgrade_tx K ''Arsia: Gas Price Oracle Set Arsia'' L1InfoDepositerAddress (Some GasPriceOracleAddr) 100000
          (selector K ''setArsia()'')]"

subsection \<open>The builder\<close>

record ('cc, 'n) FetchingAttributesBuilder =
  ab_geth :: "'cc geth"
  ab_code :: upgrade_code
  ab_cfg :: Config
  ab_l1ChainConfig :: 'cc
  ab_testSkipL1OriginCheck :: bool
  ab_SystemConfigByL2Hash :: "hash \<Rightarrow> 'n \<Rightarrow> (fetch_error + SystemConfig) \<times> 'n"
  ab_FetchReceipts :: "hash \<Rightarrow> 'n \<Rightarrow> (fetch_error + 'cc BlockInfo \<times> Receipt list) \<times> 'n"
  ab_InfoByHash :: "hash \<Rightarrow> 'n \<Rightarrow> (fetch_error + 'cc BlockInfo) \<times> 'n"

text \<open>The L1 block, the deposits, the sequence number and the system configuration that the new block is built with.\<close>

definition fetch_inputs ::
  "('cc, 'n) FetchingAttributesBuilder \<Rightarrow> L2BlockRef \<Rightarrow> BlockID \<Rightarrow> SystemConfig \<Rightarrow> 'n \<Rightarrow>
     (derive_error + 'cc BlockInfo \<times> byte list list \<times> u64 \<times> SystemConfig) \<times> 'n" where
  "fetch_inputs ba l2Parent epoch sysConfig n =
     (if bid_Number (l2_L1Origin l2Parent) \<noteq> bid_Number epoch
      then (case ab_FetchReceipts ba (bid_Hash epoch) n of
              (Inl e, n) \<Rightarrow> (Inl (NewTemporaryError ''failed to fetch L1 block info and receipts''), n)
            | (Inr (info, receipts), n) \<Rightarrow>
                if bid_Hash (l2_L1Origin l2Parent) \<noteq> bi_ParentHash info
                then (Inl (NewResetError ''cannot create new block with L1 origin on top of L1 origin''), n)
                else case DeriveDeposits (g_keccak (ab_geth ba)) (g_marshal (ab_geth ba)) receipts (DepositContractAddress (ab_cfg ba)) of
                  (deposits, errs) \<Rightarrow>
                    if DepositPanic \<in> set errs then (Inl (GoPanic ''index out of range''), n)
                    else if errs \<noteq> [] then (Inl (NewCriticalError ''failed to derive some deposits''), n)
                    else (Inr (info, deposits, 0,
                            snd (UpdateSystemConfigWithL1Receipts (g_keccak (ab_geth ba)) (ab_cfg ba) (bi_Time info) receipts sysConfig)), n))
      else if bid_Hash (l2_L1Origin l2Parent) \<noteq> bid_Hash epoch
      then (Inl (NewResetError ''cannot create new block with L1 origin in conflict with L1 origin''), n)
      else case ab_InfoByHash ba (bid_Hash epoch) n of
             (Inl e, n) \<Rightarrow> (Inl (NewTemporaryError ''failed to fetch L1 block info''), n)
           | (Inr info, n) \<Rightarrow> (Inr (info, [], l2_SequenceNumber l2Parent + 1, sysConfig), n))"

definition upgrade_txs :: "('cc, 'n) FetchingAttributesBuilder \<Rightarrow> u64 \<Rightarrow> derive_error + byte list list" where
  "upgrade_txs ba nextL2Time =
     (let K = g_keccak (ab_geth ba); M = g_marshal (ab_geth ba) in
      and_then (if IsMantleSkadiActivationBlock (ab_cfg ba) nextL2Time
                then (case MantleSkadiNetworkUpgradeTransactions K M (ab_code ba) of
                        None \<Rightarrow> Inl (NewCriticalError ''failed to build mantle skadi network upgrade txs'') | Some txs \<Rightarrow> Inr txs)
                else Inr []) (\<lambda>skadi.
      and_then (if IsMantleArsiaActivationBlock (ab_cfg ba) nextL2Time
                then (case MantleArsiaNetworkUpgradeTransactions K M (ab_code ba) of
                        None \<Rightarrow> Inl (NewCriticalError ''failed to build mantle arsia network upgrade txs'') | Some txs \<Rightarrow> Inr txs)
                else Inr []) (\<lambda>arsia.
      Inr (skadi @ arsia))))"

definition info_derive_error :: "info_error \<Rightarrow> derive_error" where
  "info_derive_error e = (if e = InfoPanic then GoPanic ''L1 info'' else NewCriticalError ''failed to create l1InfoTx'')"

text \<open>The attributes made of the inputs, after the check of the time.\<close>

definition assemble_attributes ::
  "('cc, 'n) FetchingAttributesBuilder \<Rightarrow> u64 \<Rightarrow> 'cc BlockInfo \<Rightarrow> byte list list \<Rightarrow> u64 \<Rightarrow> SystemConfig \<Rightarrow> derive_error + PayloadAttributes" where
  "assemble_attributes ba nextL2Time l1Info depositTxs seqNumber sysConfig =
     (let cfg = ab_cfg ba in
      and_then (upgrade_txs ba nextL2Time) (\<lambda>upgradeTxs.
      and_then (map_sum info_derive_error id
                 (L1InfoDepositBytes (ab_geth ba) cfg (ab_l1ChainConfig ba) sysConfig seqNumber l1Info nextL2Time)) (\<lambda>l1InfoTx.
      Inr \<lparr>pa_Timestamp = nextL2Time, pa_PrevRandao = bi_MixDigest l1Info, pa_SuggestedFeeRecipient = SequencerFeeVaultAddr,
           pa_Transactions = l1InfoTx # depositTxs @ upgradeTxs, pa_NoTxPool = True, pa_GasLimit = Some (GasLimit sysConfig),
           pa_Withdrawals = (if IsCanyon cfg nextL2Time \<or> IsMantleSkadi cfg nextL2Time then Some [] else None),
           pa_ParentBeaconBlockRoot = (if IsEcotone cfg nextL2Time \<or> IsMantleSkadi cfg nextL2Time
             then Some (case bi_ParentBeaconRoot l1Info of None \<Rightarrow> 0 | Some h \<Rightarrow> h) else None),
           pa_EIP1559Params = (if IsHolocene cfg nextL2Time then Some (sys_EIP1559Params sysConfig) else None),
           pa_MinBaseFee = (if IsMinBaseFee cfg nextL2Time then Some (sys_MinBaseFee sysConfig) else None),
           pa_BaseFee = (if IsMantleBaseFee cfg nextL2Time \<and> \<not> IsMantleArsia cfg nextL2Time then sys_BaseFee sysConfig else None)\<rparr>)))"

definition fab_PreparePayloadAttributes ::
  "('cc, 'n) FetchingAttributesBuilder \<Rightarrow> L2BlockRef \<Rightarrow> BlockID \<Rightarrow> 'n \<Rightarrow> (derive_error + PayloadAttributes) \<times> 'n" where
  "fab_PreparePayloadAttributes ba l2Parent epoch n =
     (case ab_SystemConfigByL2Hash ba (l2_Hash l2Parent) n of
        (Inl e, n) \<Rightarrow> (Inl (NewTemporaryError ''failed to retrieve L2 parent block''), n)
      | (Inr sysConfig, n) \<Rightarrow>
         (case fetch_inputs ba l2Parent epoch sysConfig n of
            (Inl e, n) \<Rightarrow> (Inl e, n)
          | (Inr (l1Info, depositTxs, seqNumber, sysConfig), n) \<Rightarrow>
              let nextL2Time = l2_Time l2Parent + BlockTime (ab_cfg ba) in
              if \<not> ab_testSkipL1OriginCheck ba \<and> nextL2Time < bi_Time l1Info
              then (Inl (NewResetError ''cannot build L2 block on top for time before L1 origin''), n)
              else (assemble_attributes ba nextL2Time l1Info depositTxs seqNumber sysConfig, n)))"


section \<open>What is prepared\<close>

text \<open>What is relied on: go-ethereum decodes what it encoded, with the type byte of a deposit in front, and the L1 node answers a request for the
  hash of the epoch with that block.\<close>

definition deposit_codec_ok :: "'cc geth \<Rightarrow> bool" where
  "deposit_codec_ok G \<longleftrightarrow> (\<forall>d tx. g_marshal G d = Some tx \<longrightarrow>
     is_deposit tx \<and> g_unmarshal G tx = Some (DepositTxType, dep_Data d))"

definition serves_epoch :: "('cc, 'n) FetchingAttributesBuilder \<Rightarrow> BlockID \<Rightarrow> bool" where
  "serves_epoch ba epoch \<longleftrightarrow>
     (\<forall>n info n'. ab_InfoByHash ba (bid_Hash epoch) n = (Inr info, n') \<longrightarrow> bi_Hash info = bid_Hash epoch \<and> bi_Number info = bid_Number epoch) \<and>
     (\<forall>n info rs n'. ab_FetchReceipts ba (bid_Hash epoch) n = (Inr (info, rs), n') \<longrightarrow>
        bi_Hash info = bid_Hash epoch \<and> bi_Number info = bid_Number epoch)"

lemma marshal_all_deposits:
  "deposit_codec_ok G \<Longrightarrow> marshal_all (g_marshal G) ds = Some txs \<Longrightarrow> list_all is_deposit txs"
  by (induction ds arbitrary: txs) (auto simp: deposit_codec_ok_def split: option.splits)

lemma network_upgrade_deposits:
  "MantleSkadiNetworkUpgradeTransactions K (g_marshal G) code = Some txs \<Longrightarrow> deposit_codec_ok G \<Longrightarrow> list_all is_deposit txs"
  "MantleArsiaNetworkUpgradeTransactions K (g_marshal G) code = Some txs \<Longrightarrow> deposit_codec_ok G \<Longrightarrow> list_all is_deposit txs"
  unfolding MantleSkadiNetworkUpgradeTransactions_def MantleArsiaNetworkUpgradeTransactions_def by (rule marshal_all_deposits, assumption+)+

lemma upgrade_txs_deposits: "deposit_codec_ok (ab_geth ba) \<Longrightarrow> upgrade_txs ba t = Inr txs \<Longrightarrow> list_all is_deposit txs"
  by (auto simp: upgrade_txs_def and_then_Inr_iff Let_def dest: network_upgrade_deposits split: if_splits option.splits)

lemma L1InfoDepositBytes_iff:
  "L1InfoDepositBytes G cfg cc sc seq block t = Inr tx \<longleftrightarrow> (\<exists>dep. L1InfoDeposit G cfg cc sc seq block t = Inr dep \<and> g_marshal G dep = Some tx)"
  by (auto simp: L1InfoDepositBytes_def and_then_Inr_iff split: option.splits)

text \<open>The inputs: either the epoch is new, or it is that of the parent.\<close>

lemma fetch_inputs_Inr:
  assumes "fetch_inputs ba l2Parent epoch sc n = (Inr (info, deposits, seq, sc'), n')"
  obtains (new) receipts where "bid_Number (l2_L1Origin l2Parent) \<noteq> bid_Number epoch"
    "ab_FetchReceipts ba (bid_Hash epoch) n = (Inr (info, receipts), n')" "bi_ParentHash info = bid_Hash (l2_L1Origin l2Parent)"
    "DeriveDeposits (g_keccak (ab_geth ba)) (g_marshal (ab_geth ba)) receipts (DepositContractAddress (ab_cfg ba)) = (deposits, [])"
    "seq = 0" "sc' = snd (UpdateSystemConfigWithL1Receipts (g_keccak (ab_geth ba)) (ab_cfg ba) (bi_Time info) receipts sc)"
  | (same) "l2_L1Origin l2Parent = epoch" "ab_InfoByHash ba (bid_Hash epoch) n = (Inr info, n')" "deposits = []"
    "seq = l2_SequenceNumber l2Parent + 1" "sc' = sc"
  using assms by (auto simp: fetch_inputs_def split: if_splits prod.splits sum.splits)

lemma fetch_inputs_deposits:
  assumes "deposit_codec_ok (ab_geth ba)" and "fetch_inputs ba l2Parent epoch sc n = (Inr (info, deposits, seq, sc'), n')"
  shows "list_all is_deposit deposits"
  using assms(2)
proof (cases rule: fetch_inputs_Inr)
  case (new receipts)
  then obtain deps where "list_all2 (\<lambda>dep tx. g_marshal (ab_geth ba) dep = Some tx) deps deposits"
    using DeriveDeposits_iff by blast
  then show ?thesis using assms(1) by (induction rule: list_all2_induct) (auto simp: deposit_codec_ok_def)
qed simp

text \<open>The attributes on success, with everything they were made of.\<close>

lemma prepare_Inr:
  assumes "fab_PreparePayloadAttributes ba l2Parent epoch n = (Inr attrs, n')"
  obtains sc n1 info deposits seq sc' upgradeTxs dep l1InfoTx where
    "fetch_inputs ba l2Parent epoch sc n1 = (Inr (info, deposits, seq, sc'), n')"
    "ab_testSkipL1OriginCheck ba \<or> bi_Time info \<le> l2_Time l2Parent + BlockTime (ab_cfg ba)"
    "upgrade_txs ba (l2_Time l2Parent + BlockTime (ab_cfg ba)) = Inr upgradeTxs"
    "L1InfoDeposit (ab_geth ba) (ab_cfg ba) (ab_l1ChainConfig ba) sc' seq info (l2_Time l2Parent + BlockTime (ab_cfg ba)) = Inr dep"
    "g_marshal (ab_geth ba) dep = Some l1InfoTx"
    "pa_Transactions attrs = l1InfoTx # deposits @ upgradeTxs" "pa_Timestamp attrs = l2_Time l2Parent + BlockTime (ab_cfg ba)"
    "pa_NoTxPool attrs" "pa_GasLimit attrs = Some (GasLimit sc')"
proof -
  let ?t = "l2_Time l2Parent + BlockTime (ab_cfg ba)"
  obtain r n1 where s: "ab_SystemConfigByL2Hash ba (l2_Hash l2Parent) n = (r, n1)" by force
  with assms obtain sc where r: "r = Inr sc" by (cases r) (auto simp: fab_PreparePayloadAttributes_def)
  obtain q n2 where f: "fetch_inputs ba l2Parent epoch sc n1 = (q, n2)" by force
  with assms s r obtain info deposits seq sc' where q: "q = Inr (info, deposits, seq, sc')"
    by (cases q) (auto simp: fab_PreparePayloadAttributes_def)
  have a: "ab_testSkipL1OriginCheck ba \<or> bi_Time info \<le> ?t" "n2 = n'"
    "assemble_attributes ba ?t info deposits seq sc' = Inr attrs"
    using assms by (auto simp: fab_PreparePayloadAttributes_def s r f q Let_def split: if_splits)
  from a(3) obtain upgradeTxs l1InfoTx where u: "upgrade_txs ba ?t = Inr upgradeTxs"
    "L1InfoDepositBytes (ab_geth ba) (ab_cfg ba) (ab_l1ChainConfig ba) sc' seq info ?t = Inr l1InfoTx"
    "pa_Transactions attrs = l1InfoTx # deposits @ upgradeTxs" "pa_Timestamp attrs = ?t" "pa_NoTxPool attrs"
    "pa_GasLimit attrs = Some (GasLimit sc')"
    unfolding assemble_attributes_def Let_def and_then_Inr_iff map_sum_Inr_iff by (elim exE conjE) (erule Inr_inject [elim_format], force)
  from u(2) obtain dep where "L1InfoDeposit (ab_geth ba) (ab_cfg ba) (ab_l1ChainConfig ba) sc' seq info ?t = Inr dep"
    "g_marshal (ab_geth ba) dep = Some l1InfoTx" unfolding L1InfoDepositBytes_iff by blast
  with that f q a(1,2) u show thesis by blast
qed

lemma fetched_epoch:
  assumes "serves_epoch ba epoch" and "fetch_inputs ba l2Parent epoch sc n = (Inr (info, deposits, seq, sc'), n')"
  shows "bi_Hash info = bid_Hash epoch" "bi_Number info = bid_Number epoch"
    "seq = (if bid_Number (l2_L1Origin l2Parent) = bid_Number epoch then l2_SequenceNumber l2Parent + 1 else 0)"
proof -
  have "bi_Hash info = bid_Hash epoch \<and> bi_Number info = bid_Number epoch \<and>
      seq = (if bid_Number (l2_L1Origin l2Parent) = bid_Number epoch then l2_SequenceNumber l2Parent + 1 else 0)"
    using assms(2)
  proof (cases rule: fetch_inputs_Inr)
    case (new receipts)
    with assms(1) have "bi_Hash info = bid_Hash epoch \<and> bi_Number info = bid_Number epoch" unfolding serves_epoch_def by blast
    with new show ?thesis by simp
  next
    case same
    with assms(1) have "bi_Hash info = bid_Hash epoch \<and> bi_Number info = bid_Number epoch" unfolding serves_epoch_def by blast
    with same show ?thesis by simp
  qed
  then show "bi_Hash info = bid_Hash epoch" "bi_Number info = bid_Number epoch"
    "seq = (if bid_Number (l2_L1Origin l2Parent) = bid_Number epoch then l2_SequenceNumber l2Parent + 1 else 0)" by blast+
qed

lemma createNextAttributes_Inr:
  assumes "createNextAttributes cfg prepare batch parent p = (Inr attrs, p')"
  obtains prep where "prepare parent (sb_Epoch batch) p = (Inr prep, p')" "l2_Time parent + BlockTime cfg = sb_Timestamp batch"
    "attrs = prep\<lparr>pa_NoTxPool := True, pa_Transactions := pa_Transactions prep @ sb_Transactions batch\<rparr>"
  using assms by (auto simp: createNextAttributes_def split: if_splits prod.splits sum.splits)

text \<open>The block that the engine builds from attributes whose first transaction is the L1 info refers to the L1 block of that transaction.\<close>

lemma block_of_info:
  assumes "L1InfoDeposit G cfg cc sc seq block (ep_Timestamp pl) = Inr dep" and "g_marshal G dep = Some tx" and "deposit_codec_ok G"
    and "ep_Transactions pl = tx # txs" and "ep_BlockNumber pl \<noteq> bid_Number (gen_L2 (cfg_Genesis cfg))"
  shows "\<exists>ref. PayloadToBlockRef G cfg pl = Inr ref \<and> l2_L1Origin ref = \<lparr>bid_Hash = bi_Hash block, bid_Number = bi_Number block\<rparr> \<and>
    l2_SequenceNumber ref = seq \<and> l2_Time ref = ep_Timestamp pl \<and> l2_Hash ref = ep_BlockHash pl"
proof -
  have "g_unmarshal G tx = Some (DepositTxType, dep_Data dep)" using assms(2,3) by (auto simp: deposit_codec_ok_def)
  then obtain info where i: "info_fields G cfg cc sc seq block (ep_Timestamp pl) = Inr info"
    "payload_info G cfg pl = Inr (carry_info cfg (ep_Timestamp pl) info)"
    using payload_info_carried [OF assms(1,4)] by blast
  with info_fields_header [OF i(1)] assms(5) show ?thesis
    by (simp add: PayloadToBlockRef_def block_info.carry_header header_def)
qed

lemma prepared_deposits_only:
  assumes "deposit_codec_ok (ab_geth ba)" and "fab_PreparePayloadAttributes ba l2Parent epoch n = (Inr attrs, n')"
  shows "IsDepositsOnly attrs"
  using assms(2)
proof (rule prepare_Inr)
  fix sc n1 info deposits seq sc' upgradeTxs dep l1InfoTx
  assume p: "fetch_inputs ba l2Parent epoch sc n1 = (Inr (info, deposits, seq, sc'), n')"
    "upgrade_txs ba (l2_Time l2Parent + BlockTime (ab_cfg ba)) = Inr upgradeTxs"
    "g_marshal (ab_geth ba) dep = Some l1InfoTx" "pa_Transactions attrs = l1InfoTx # deposits @ upgradeTxs"
  from p(3) assms(1) have "is_deposit l1InfoTx" by (simp add: deposit_codec_ok_def)
  with p(4) fetch_inputs_deposits [OF assms(1) p(1)] upgrade_txs_deposits [OF assms(1) p(2)] show ?thesis
    by (simp add: IsDepositsOnly_def)
qed

section \<open>A sample builder\<close>

definition sample_receipt :: Receipt where
  "sample_receipt = \<lparr>rcp_Status = ReceiptStatusSuccessful, rcp_Logs = [sample_log\<lparr>lg_Address := 4\<rparr>]\<rparr>"

definition sample_builder :: "(unit, unit) FetchingAttributesBuilder" where
  "sample_builder = \<lparr>ab_geth = sample_geth, ab_code = \<lparr>beaconBlockRootDeploymentBytecode = [], skadiBlockHashDeploymentBytecode = [],
       l1BlockArsiaDeploymentBytecode = [], gasPriceOracleArsiaDeploymentBytecode = [], operatorFeeVaultArsiaDeploymentByteCode = [],
       CreateAddress = (\<lambda>_ _. 0)\<rparr>,
     ab_cfg = sample_aligned, ab_l1ChainConfig = (), ab_testSkipL1OriginCheck = False,
     ab_SystemConfigByL2Hash = (\<lambda>_ n. (Inr sample_sysCfg, n)),
     ab_FetchReceipts = (\<lambda>h n. (if h = 91 then Inr (sample_info_block, [sample_receipt]) else Inl NotFound, n)),
     ab_InfoByHash = (\<lambda>h n. (if h = 91 then Inr sample_info_block else Inl NotFound, n))\<rparr>"

definition sample_parent :: "hash \<Rightarrow> u64 \<Rightarrow> L2BlockRef" where
  "sample_parent h i = \<lparr>l2_Hash = 21, l2_Number = 554, l2_ParentHash = 20, l2_Time = 2108,
     l2_L1Origin = \<lparr>bid_Hash = h, bid_Number = i\<rparr>, l2_SequenceNumber = 3\<rparr>"

definition sample_batch :: SingularBatch where
  "sample_batch = \<lparr>sb_ParentHash = 21, sb_EpochNum = 9, sb_EpochHash = 91, sb_Timestamp = 2110, sb_Transactions = [[2, 3]]\<rparr>"

lemma sample_codec: "deposit_codec_ok (ab_geth sample_builder)"
  by (auto simp: deposit_codec_ok_def sample_builder_def sample_geth_def is_deposit_def)

lemma sample_serves: "serves_epoch sample_builder \<lparr>bid_Hash = 91, bid_Number = 9\<rparr>"
  by (simp add: serves_epoch_def sample_builder_def sample_info_block_def)

lemma sample_info_tx:
  "\<exists>tx. L1InfoDepositBytes sample_geth sample_aligned () sample_sysCfg seq sample_info_block 2110 = Inr tx"
proof -
  obtain dep where "L1InfoDeposit sample_geth sample_aligned () sample_sysCfg seq sample_info_block 2110 = Inr dep"
    using sample_L1InfoDeposit ..
  moreover have "g_marshal sample_geth dep = Some (DepositTxType # dep_Data dep)" by (simp add: sample_geth_def)
  ultimately show ?thesis unfolding L1InfoDepositBytes_iff by blast
qed

lemma sample_deposits:
  "\<exists>txs. DeriveDeposits (g_keccak sample_geth) (g_marshal sample_geth) [sample_receipt] (DepositContractAddress sample_aligned) = (txs, [])"
proof -
  let ?lg = "sample_log\<lparr>lg_Address := 4\<rparr>" and ?K = "(\<lambda>_. 0) :: keccak"
  have g: "g_keccak sample_geth = ?K" "g_marshal sample_geth = (\<lambda>d. Some (DepositTxType # dep_Data d))" by (simp_all add: sample_geth_def)
  have "is_deposit_event ?K ?lg (decoded (blank_deposit ?K ?lg 7) (topic_address 8) [9, 10, 0] 21000 0 [1, 2, 3])"
    by (rule is_deposit_eventI [where version = 0 and pad = "replicate 20 0"])
      (simp_all add: sample_log_def DepositEventABIHash_def DepositEventVersion0_def event_data_def length_packed)
  then obtain d where d: "UnmarshalDepositLogEvent ?K ?lg = Inr d"
    using deposit_event_decodes [of ?lg ?K] by (auto simp: sample_log_def event_data_def length_packed)
  have "DepositContractAddress sample_aligned = 4" by code_simp
  then have e: "events (DepositContractAddress sample_aligned) (DepositEventABIHash ?K) [sample_receipt] = [?lg]"
    by (simp add: sample_receipt_def is_event_def sample_log_def DepositEventABIHash_def)
  have "list_all2 (\<lambda>ev dep. UnmarshalDepositLogEvent ?K ev = Inr dep) [?lg] [d] \<and>
      list_all2 (\<lambda>dep tx. Some (DepositTxType # dep_Data dep) = Some tx) [d] [DepositTxType # dep_Data d]"
    using d by simp
  then show ?thesis unfolding g DeriveDeposits_iff e by blast
qed

lemma sample_update:
  "snd (UpdateSystemConfigWithL1Receipts (g_keccak sample_geth) sample_aligned t [sample_receipt] sc) = sc"
proof -
  have "L1SystemConfigAddress sample_aligned = 6" by code_simp
  then show ?thesis by (simp add: UpdateSystemConfig_events sample_receipt_def is_event_def)
qed

lemma sample_prepare:
  assumes "i = 9 \<and> h = 91 \<or> i = 8 \<and> h = 90"
  shows "\<exists>attrs. fab_PreparePayloadAttributes sample_builder (sample_parent h i) \<lparr>bid_Hash = 91, bid_Number = 9\<rparr> () = (Inr attrs, ())"
proof -
  have "\<not> IsMantleSkadiActivationBlock sample_aligned 2110" "\<not> IsMantleArsiaActivationBlock sample_aligned 2110" by code_simp+
  then have u: "upgrade_txs sample_builder 2110 = Inr []" by (simp add: upgrade_txs_def sample_builder_def)
  have "\<exists>attrs. assemble_attributes sample_builder 2110 sample_info_block deposits seq sample_sysCfg = Inr attrs" for deposits seq
    using u sample_info_tx [of seq] by (auto simp: assemble_attributes_def Let_def sample_builder_def)
  moreover have "\<exists>deposits seq. fetch_inputs sample_builder (sample_parent h i) \<lparr>bid_Hash = 91, bid_Number = 9\<rparr> sample_sysCfg () =
      (Inr (sample_info_block, deposits, seq, sample_sysCfg), ())"
    using assms sample_deposits
    by (auto simp: fetch_inputs_def sample_builder_def sample_parent_def sample_update sample_info_block_def)
  ultimately show ?thesis
    by (auto simp: fab_PreparePayloadAttributes_def Let_def)
       (auto simp: sample_builder_def sample_parent_def sample_info_block_def)
qed

lemma sample_create:
  assumes "i = 9 \<and> h = 91 \<or> i = 8 \<and> h = 90"
  shows "\<exists>attrs. createNextAttributes (ab_cfg sample_builder) (fab_PreparePayloadAttributes sample_builder) sample_batch (sample_parent h i) () =
      (Inr attrs, ())"
proof -
  have e: "sb_Epoch sample_batch = \<lparr>bid_Hash = 91, bid_Number = 9\<rparr>" "sb_ParentHash sample_batch = l2_Hash (sample_parent h i)"
    "l2_Time (sample_parent h i) + BlockTime (ab_cfg sample_builder) = sb_Timestamp sample_batch"
    by (simp_all add: sb_Epoch_def sample_batch_def sample_parent_def sample_builder_def)
  from sample_prepare [OF assms] show ?thesis by (elim exE) (simp add: createNextAttributes_def e)
qed

section \<open>Properties\<close>

text \<open>C9: The derived block refers to the L1 block of its batch. If the attributes of a batch are made on a parent block, and the engine
  returns a block with their timestamp and transactions, then the node reads from that block the epoch of the batch as its L1 origin, the time of the
  batch, and a sequence number that counts the blocks of the epoch: one more than the parent's in the same epoch, zero in a new one.\<close>

theorem derived_block_refers_to_batch:
  assumes "deposit_codec_ok (ab_geth ba)" and "serves_epoch ba (sb_Epoch batch)"
    and "createNextAttributes (ab_cfg ba) (fab_PreparePayloadAttributes ba) batch parent n = (Inr attrs, n')"
    and "ep_Transactions pl = pa_Transactions attrs" and "ep_Timestamp pl = pa_Timestamp attrs"
    and "ep_BlockNumber pl \<noteq> bid_Number (gen_L2 (cfg_Genesis (ab_cfg ba)))"
  shows "\<exists>ref. PayloadToBlockRef (ab_geth ba) (ab_cfg ba) pl = Inr ref \<and> l2_Hash ref = ep_BlockHash pl \<and>
    l2_L1Origin ref = sb_Epoch batch \<and> l2_Time ref = sb_Timestamp batch \<and>
    l2_SequenceNumber ref = (if bid_Number (l2_L1Origin parent) = bid_Number (sb_Epoch batch) then l2_SequenceNumber parent + 1 else 0)"
proof -
  let ?t = "l2_Time parent + BlockTime (ab_cfg ba)"
  obtain prep where prep: "fab_PreparePayloadAttributes ba parent (sb_Epoch batch) n = (Inr prep, n')" "?t = sb_Timestamp batch"
    "attrs = prep\<lparr>pa_NoTxPool := True, pa_Transactions := pa_Transactions prep @ sb_Transactions batch\<rparr>"
    using assms(3) by (rule createNextAttributes_Inr)
  obtain sc n1 info deposits seq sc' ups dep tx where p:
    "fetch_inputs ba parent (sb_Epoch batch) sc n1 = (Inr (info, deposits, seq, sc'), n')"
    "L1InfoDeposit (ab_geth ba) (ab_cfg ba) (ab_l1ChainConfig ba) sc' seq info ?t = Inr dep"
    "g_marshal (ab_geth ba) dep = Some tx" "pa_Transactions prep = tx # deposits @ ups" "pa_Timestamp prep = ?t"
    using prepare_Inr [OF prep(1)] by metis
  have t: "ep_Timestamp pl = ?t" using assms(5) prep(3) p(5) by simp
  have "L1InfoDeposit (ab_geth ba) (ab_cfg ba) (ab_l1ChainConfig ba) sc' seq info (ep_Timestamp pl) = Inr dep" using p(2) t by simp
  moreover have "ep_Transactions pl = tx # deposits @ ups @ sb_Transactions batch" using assms(4) prep(3) p(4) by simp
  ultimately obtain ref where r: "PayloadToBlockRef (ab_geth ba) (ab_cfg ba) pl = Inr ref"
    "l2_L1Origin ref = \<lparr>bid_Hash = bi_Hash info, bid_Number = bi_Number info\<rparr>" "l2_SequenceNumber ref = seq" "l2_Time ref = ep_Timestamp pl"
    "l2_Hash ref = ep_BlockHash pl"
    using block_of_info [OF _ p(3) assms(1) _ assms(6)] by blast
  then show ?thesis using fetched_epoch [OF assms(2) p(1)] prep(2) t by simp
qed

theorem derived_block_refers_to_batch_witness:
  "\<exists>attrs. createNextAttributes (ab_cfg sample_builder) (fab_PreparePayloadAttributes sample_builder) sample_batch (sample_parent 91 9) () =
      (Inr attrs, ()) \<and>
    (\<exists>ref. PayloadToBlockRef (ab_geth sample_builder) (ab_cfg sample_builder)
        \<lparr>ep_ParentHash = 21, ep_BlockHash = 23, ep_BlockNumber = 555, ep_Timestamp = pa_Timestamp attrs, ep_GasLimit = 30000000,
         ep_ExtraData = [], ep_Transactions = pa_Transactions attrs\<rparr> = Inr ref \<and>
      l2_L1Origin ref = \<lparr>bid_Hash = 91, bid_Number = 9\<rparr> \<and> l2_Time ref = 2110 \<and> l2_SequenceNumber ref = 4)"
proof -
  have e: "sb_Epoch sample_batch = \<lparr>bid_Hash = 91, bid_Number = 9\<rparr>" by (simp add: sb_Epoch_def sample_batch_def)
  have c: "ab_cfg sample_builder = sample_aligned" by (simp add: sample_builder_def)
  obtain attrs where "createNextAttributes (ab_cfg sample_builder) (fab_PreparePayloadAttributes sample_builder) sample_batch (sample_parent 91 9) () =
      (Inr attrs, ())"
    using sample_create [of 9 91] by blast
  moreover have "(555 :: u64) \<noteq> bid_Number (gen_L2 (cfg_Genesis (ab_cfg sample_builder)))" unfolding c by code_simp
  ultimately show ?thesis
    using derived_block_refers_to_batch [OF sample_codec sample_serves [folded e], of "sample_parent 91 9" "()" attrs "()"
        "\<lparr>ep_ParentHash = 21, ep_BlockHash = 23, ep_BlockNumber = 555, ep_Timestamp = pa_Timestamp attrs, ep_GasLimit = 30000000,
         ep_ExtraData = [], ep_Transactions = pa_Transactions attrs\<rparr>"]
    by (auto simp: e sample_parent_def) (auto simp: sample_batch_def)
qed

text \<open>C10: Every deposit of a new epoch is in its first block. The attributes of the first block of an epoch contain, right after the L1 info transaction and in the order of the
  logs, one transaction for every event of the deposit contract in the receipts of the L1 block, and what follows them is fixed by the upgrades; the L1 block is the child
  of the parent's L1 origin, and its time is not after that of the new block.\<close>

theorem deposits_included:
  assumes "fab_PreparePayloadAttributes ba l2Parent epoch n = (Inr attrs, n')" and "bid_Number (l2_L1Origin l2Parent) \<noteq> bid_Number epoch"
  shows "\<exists>n1 info receipts l1InfoTx deposits upgradeTxs. ab_FetchReceipts ba (bid_Hash epoch) n1 = (Inr (info, receipts), n') \<and>
    bi_ParentHash info = bid_Hash (l2_L1Origin l2Parent) \<and> (bi_Time info \<le> pa_Timestamp attrs \<or> ab_testSkipL1OriginCheck ba) \<and>
    pa_Timestamp attrs = l2_Time l2Parent + BlockTime (ab_cfg ba) \<and>
    pa_Transactions attrs = l1InfoTx # deposits @ upgradeTxs \<and> upgrade_txs ba (pa_Timestamp attrs) = Inr upgradeTxs \<and>
    list_all2 (\<lambda>ev tx. \<exists>dep. UnmarshalDepositLogEvent (g_keccak (ab_geth ba)) ev = Inr dep \<and> g_marshal (ab_geth ba) dep = Some tx)
      (events (DepositContractAddress (ab_cfg ba)) (DepositEventABIHash (g_keccak (ab_geth ba))) receipts) deposits"
proof -
  let ?t = "l2_Time l2Parent + BlockTime (ab_cfg ba)"
  obtain sc n1 info deposits seq sc' ups tx where p:
    "fetch_inputs ba l2Parent epoch sc n1 = (Inr (info, deposits, seq, sc'), n')" "ab_testSkipL1OriginCheck ba \<or> bi_Time info \<le> ?t"
    "upgrade_txs ba ?t = Inr ups" "pa_Transactions attrs = tx # deposits @ ups" "pa_Timestamp attrs = ?t"
    using prepare_Inr [OF assms(1)] by metis
  from p(1) obtain receipts where r: "ab_FetchReceipts ba (bid_Hash epoch) n1 = (Inr (info, receipts), n')"
    "bi_ParentHash info = bid_Hash (l2_L1Origin l2Parent)"
    "DeriveDeposits (g_keccak (ab_geth ba)) (g_marshal (ab_geth ba)) receipts (DepositContractAddress (ab_cfg ba)) = (deposits, [])"
    using assms(2) by (cases rule: fetch_inputs_Inr) auto
  from r(3) have "list_all2 (\<lambda>ev tx. \<exists>dep. UnmarshalDepositLogEvent (g_keccak (ab_geth ba)) ev = Inr dep \<and> g_marshal (ab_geth ba) dep = Some tx)
      (events (DepositContractAddress (ab_cfg ba)) (DepositEventABIHash (g_keccak (ab_geth ba))) receipts) deposits"
    unfolding DeriveDeposits_iff by (elim exE conjE) (rule list_all2_trans [rotated], assumption+, blast)
  with p r show ?thesis
    by (intro exI [of _ n1] exI [of _ info] exI [of _ receipts] exI [of _ tx] exI [of _ deposits] exI [of _ ups]) auto
qed

theorem deposits_included_witness:
  "\<exists>attrs n1 info receipts l1InfoTx deposits upgradeTxs.
    fab_PreparePayloadAttributes sample_builder (sample_parent 90 8) \<lparr>bid_Hash = 91, bid_Number = 9\<rparr> () = (Inr attrs, ()) \<and>
    ab_FetchReceipts sample_builder 91 n1 = (Inr (info, receipts), ()) \<and> bi_Time info \<le> pa_Timestamp attrs \<and>
    pa_Transactions attrs = l1InfoTx # deposits @ upgradeTxs \<and>
    length deposits = length (events (DepositContractAddress sample_aligned) (DepositEventABIHash (g_keccak sample_geth)) receipts)"
proof -
  obtain attrs where p: "fab_PreparePayloadAttributes sample_builder (sample_parent 90 8) \<lparr>bid_Hash = 91, bid_Number = 9\<rparr> () = (Inr attrs, ())"
    using sample_prepare [of 8 90] by blast
  have s: "\<not> ab_testSkipL1OriginCheck sample_builder" "ab_cfg sample_builder = sample_aligned" "ab_geth sample_builder = sample_geth"
    by (simp_all add: sample_builder_def)
  have n: "bid_Number (l2_L1Origin (sample_parent 90 8)) \<noteq> bid_Number \<lparr>bid_Hash = 91, bid_Number = 9\<rparr>" by (simp add: sample_parent_def)
  from deposits_included [OF p n] p s show ?thesis
    by (elim exE conjE) (intro exI conjI, assumption, auto dest: list_all2_lengthD)
qed

text \<open>The deposits-only block is the prepared one. If a batch was accepted and its attributes turn out to be invalid, the replacement, which keeps the deposits and drops
  everything else, is exactly what the builder had prepared for that epoch: deposits, L1 info and upgrade transactions stay, and all transactions of the
  batch go.\<close>

theorem replacement_is_prepared:
  assumes "deposit_codec_ok (ab_geth ba)" and "checkSingularBatch cfg l1Blocks parent batch incl = BatchAccept"
    and "createNextAttributes (ab_cfg ba) (fab_PreparePayloadAttributes ba) batch parent n = (Inr attrs, n')"
  shows "fab_PreparePayloadAttributes ba parent (sb_Epoch batch) n = (Inr (pa_WithDepositsOnly attrs), n') \<and>
    IsDepositsOnly (pa_WithDepositsOnly attrs)"
proof -
  obtain prep where prep: "fab_PreparePayloadAttributes ba parent (sb_Epoch batch) n = (Inr prep, n')"
    "attrs = prep\<lparr>pa_NoTxPool := True, pa_Transactions := pa_Transactions prep @ sb_Transactions batch\<rparr>"
    using assms(3) by (rule createNextAttributes_Inr)
  have d: "IsDepositsOnly prep" using prepared_deposits_only [OF assms(1) prep(1)] .
  have "pa_NoTxPool prep" using prep(1) by (rule prepare_Inr)
  moreover have "filter is_deposit (sb_Transactions batch) = []"
    using assms(2) by (auto simp: checkSingularBatch_Accept txs_ok_def filter_empty_conv is_deposit_def)
  moreover have "filter is_deposit (pa_Transactions prep) = pa_Transactions prep"
    using d by (simp add: IsDepositsOnly_def list_all_iff)
  ultimately have "pa_WithDepositsOnly attrs = prep" by (simp add: prep(2) pa_WithDepositsOnly_def)
  with prep(1) d show ?thesis by simp
qed

theorem replacement_is_prepared_witness:
  "\<exists>attrs. createNextAttributes (ab_cfg sample_builder) (fab_PreparePayloadAttributes sample_builder) sample_batch (sample_parent 91 9) () =
      (Inr attrs, ()) \<and>
    fab_PreparePayloadAttributes sample_builder (sample_parent 91 9) \<lparr>bid_Hash = 91, bid_Number = 9\<rparr> () = (Inr (pa_WithDepositsOnly attrs), ())"
proof -
  let ?b = "\<lparr>l1_Hash = 91, l1_Number = 9, l1_ParentHash = 90, l1_Time = 2100\<rparr>"
  obtain attrs where a: "createNextAttributes (ab_cfg sample_builder) (fab_PreparePayloadAttributes sample_builder) sample_batch (sample_parent 91 9) () =
      (Inr attrs, ())"
    using sample_create [of 9 91] by blast
  have "checkSingularBatch sample_aligned [?b] (sample_parent 91 9) sample_batch ?b = BatchAccept" by code_simp
  with a replacement_is_prepared [OF sample_codec this a] show ?thesis by (auto simp: sb_Epoch_def sample_batch_def)
qed

end
