(* ===== verification/Fault_Position.thy ===== *)
theory Fault_Position
  imports Receipts "HOL-Library.Log_Nat"
begin

text \<open>
  Positions in the tree of a dispute game (\<open>op-challenger/game/fault/types/position.go\<close>). A position is a depth and an index at that
  depth; the index is a big integer that may be \<open>nil\<close>. The trace index of a position is the last leaf below it. The lemmas say how the moves
  bisect the range of leaves.
\<close>

unbundle bit_operations_syntax

section \<open>Definitions\<close>

datatype position_error = ErrPositionDepthTooSmall | PositionPanic

record Position =
  pos_depth :: u64
  pos_indexAtDepth :: "int option"

definition NewPosition :: "u64 \<Rightarrow> int \<Rightarrow> Position" where
  "NewPosition depth indexAtDepth = \<lparr>pos_depth = depth, pos_indexAtDepth = Some indexAtDepth\<rparr>"

definition BitLen :: "int \<Rightarrow> nat" where "BitLen x = floorlog 2 (nat \<bar>x\<bar>)"

definition bigMSB :: "int \<Rightarrow> u64" where
  "bigMSB x = (if x = 0 then 0 else word_of_int (int (BitLen x) - 1))"

definition NewPositionFromGIndex :: "int \<Rightarrow> Position" where
  "NewPositionFromGIndex x =
     (let depth = bigMSB x; withoutMSB = NOT (push_bit (unat depth) 1) in NewPosition depth (x AND withoutMSB))"

definition RootPosition :: Position where "RootPosition = NewPositionFromGIndex 1"

definition IndexAtDepth :: "Position \<Rightarrow> int" where
  "IndexAtDepth p = (case pos_indexAtDepth p of None \<Rightarrow> 0 | Some i \<Rightarrow> i)"

definition MoveRight :: "Position \<Rightarrow> Position" where
  "MoveRight p = \<lparr>pos_depth = pos_depth p, pos_indexAtDepth = Some (IndexAtDepth p + 1)\<rparr>"

text \<open>\<open>1 << newPosDepth\<close> is an \<open>int\<close> of 64 bits; the modulus of big integers takes the absolute value of the divisor and panics on zero.\<close>

definition RelativeToAncestorAtDepth :: "Position \<Rightarrow> u64 \<Rightarrow> position_error + Position" where
  "RelativeToAncestorAtDepth p ancestor =
     (if ancestor > pos_depth p then Inl ErrPositionDepthTooSmall
      else let newPosDepth = pos_depth p - ancestor;
               nodesAtDepth = sint (push_bit (unat newPosDepth) 1 :: u64)
           in if nodesAtDepth = 0 then Inl PositionPanic
              else Inr (NewPosition newPosDepth (IndexAtDepth p mod \<bar>nodesAtDepth\<bar>)))"

definition IsRootPosition :: "Position \<Rightarrow> bool" where
  "IsRootPosition p \<longleftrightarrow> pos_depth p = 0 \<and> 0 = IndexAtDepth p"

definition lshIndex :: "Position \<Rightarrow> u64 \<Rightarrow> int" where
  "lshIndex p amount = push_bit (unat amount) (IndexAtDepth p)"

text \<open>\<open>None\<close> is the panic.\<close>

definition TraceIndex :: "Position \<Rightarrow> u64 \<Rightarrow> int option" where
  "TraceIndex p maxDepth =
     (if maxDepth < pos_depth p then None
      else let rd = maxDepth - pos_depth p; rhs = push_bit (unat rd) 1 - 1 in Some (lshIndex p rd OR rhs))"

definition boolToInt :: "bool \<Rightarrow> int" where "boolToInt b = (if b then 1 else 0)"

definition pos_move :: "Position \<Rightarrow> bool \<Rightarrow> Position" where
  "pos_move p right = \<lparr>pos_depth = pos_depth p + 1, pos_indexAtDepth = Some (lshIndex p 1 OR boolToInt right)\<rparr>"

definition parentIndexAtDepth :: "Position \<Rightarrow> int" where
  "parentIndexAtDepth p = IndexAtDepth p div 2"

definition RightOf :: "Position \<Rightarrow> Position \<Rightarrow> bool" where
  "RightOf p parent \<longleftrightarrow> parentIndexAtDepth p \<noteq> IndexAtDepth parent"

definition pos_parent :: "Position \<Rightarrow> Position" where
  "pos_parent p = \<lparr>pos_depth = pos_depth p - 1, pos_indexAtDepth = Some (parentIndexAtDepth p)\<rparr>"

definition Attack :: "Position \<Rightarrow> Position" where "Attack p = pos_move p False"

definition Defend :: "Position \<Rightarrow> Position" where "Defend p = pos_move (pos_move (pos_parent p) True) False"

definition ToGIndex :: "Position \<Rightarrow> int" where
  "ToGIndex p = push_bit (unat (pos_depth p)) 1 OR IndexAtDepth p"

section \<open>Shifts as arithmetic\<close>

lemma or_below: "0 \<le> y \<Longrightarrow> y < 2 ^ n \<Longrightarrow> push_bit n x OR y = x * 2 ^ n + y" for x y :: int
proof -
  assume "0 \<le> y" "y < 2 ^ n"
  then have y: "take_bit n y = y" by (simp add: take_bit_int_eq_self)
  have "push_bit n x AND y = 0" by (subst y [symmetric]) (auto simp: bit_eq_iff bit_simps)
  then show ?thesis by (simp add: disjunctive_add_eq_or push_bit_eq_mult)
qed

lemma unat_Suc_depth: "d < D \<Longrightarrow> unat (d + 1) = Suc (unat d)" for d D :: u64
proof -
  assume d: "d < D"
  then have "unat d + 1 < 2 ^ 64" using unat_u64_less [of D] by (simp add: word_less_nat_alt)
  then show ?thesis by (simp add: unat_word_ariths)
qed

lemma unat_diff_depth: "d \<le> D \<Longrightarrow> unat (D - d) = unat D - unat d" for d D :: u64
  by (rule unat_sub)

section \<open>Trace indices\<close>

text \<open>The last leaf below a position in a tree of depth \<open>D\<close>, and the number of leaves below it.\<close>

definition pspan :: "u64 \<Rightarrow> Position \<Rightarrow> int" where
  "pspan D p = 2 ^ (unat D - unat (pos_depth p))"

definition tix :: "u64 \<Rightarrow> Position \<Rightarrow> int" where
  "tix D p = (IndexAtDepth p + 1) * pspan D p - 1"

lemma TraceIndex_tix: "TraceIndex p D = (if D < pos_depth p then None else Some (tix D p))"
proof (cases "D < pos_depth p")
  case False
  let ?n = "unat D - unat (pos_depth p)"
  have u: "unat (D - pos_depth p) = ?n" using False by (intro unat_diff_depth) simp
  have o: "push_bit ?n (IndexAtDepth p) OR (2 ^ ?n - 1) = IndexAtDepth p * 2 ^ ?n + (2 ^ ?n - 1)"
    using or_below [of "2 ^ ?n - 1" ?n "IndexAtDepth p"] by simp
  show ?thesis using False by (simp add: TraceIndex_def Let_def lshIndex_def u o tix_def pspan_def algebra_simps)
qed (simp add: TraceIndex_def)

lemma pspan_pos [simp]: "pspan D p > 0" by (simp add: pspan_def)

lemma Attack_simps: 
  "pos_depth (Attack p) = pos_depth p + 1" "IndexAtDepth (Attack p) = 2 * IndexAtDepth p"
  using or_below [of 0 1 "IndexAtDepth p"] by (simp_all add: Attack_def pos_move_def lshIndex_def IndexAtDepth_def boolToInt_def push_bit_eq_mult)

lemma Defend_simps:
  "pos_depth (Defend p) = pos_depth p + 1" "IndexAtDepth (Defend p) = 4 * (IndexAtDepth p div 2) + 2"
  using or_below [of 0 1 "IndexAtDepth (pos_move (pos_parent p) True)"] or_below [of 1 1 "IndexAtDepth (pos_parent p)"]
  by (simp_all add: Defend_def pos_move_def pos_parent_def parentIndexAtDepth_def lshIndex_def IndexAtDepth_def boolToInt_def push_bit_eq_mult)

lemma pspan_step: "pos_depth p < D \<Longrightarrow> pos_depth q = pos_depth p + 1 \<Longrightarrow> pspan D p = 2 * pspan D q"
proof -
  assume d: "pos_depth p < D" "pos_depth q = pos_depth p + 1"
  then have "unat D - unat (pos_depth p) = Suc (unat D - unat (pos_depth q))"
    using unat_Suc_depth [OF d(1)] by (simp add: word_less_nat_alt)
  then show ?thesis by (simp add: pspan_def)
qed

text \<open>An attack moves to the middle of the range to the left, a defence to the middle of the range to the right.\<close>

lemma tix_Attack: "pos_depth p < D \<Longrightarrow> tix D (Attack p) = tix D p - pspan D (Attack p)"
  using pspan_step [of p D "Attack p"] by (simp add: tix_def Attack_simps algebra_simps)

lemma tix_Defend:
  assumes "pos_depth p < D" and "even (IndexAtDepth p)"
  shows "tix D (Defend p) = tix D p + pspan D (Defend p)"
proof -
  obtain k where "IndexAtDepth p = 2 * k" using assms(2) by blast
  then show ?thesis using pspan_step [of p D "Defend p"] assms by (simp add: tix_def Defend_simps algebra_simps)
qed

lemma not_RightOf_Attack: "\<not> RightOf (Attack p) p"
  by (simp add: RightOf_def parentIndexAtDepth_def Attack_simps)

lemma RightOf_Defend: "even (IndexAtDepth p) \<Longrightarrow> RightOf (Defend p) p"
  by (auto simp: RightOf_def parentIndexAtDepth_def Defend_simps)

section \<open>Generalized indices\<close>

definition valid_position :: "Position \<Rightarrow> bool" where
  "valid_position p \<longleftrightarrow> pos_indexAtDepth p \<noteq> None \<and> 0 \<le> IndexAtDepth p \<and> IndexAtDepth p < 2 ^ unat (pos_depth p)"

lemma ToGIndex_eq: "valid_position p \<Longrightarrow> ToGIndex p = 2 ^ unat (pos_depth p) + IndexAtDepth p"
  using or_below [of "IndexAtDepth p" "unat (pos_depth p)" 1] by (simp add: valid_position_def ToGIndex_def)

lemma BitLen_eq: "2 ^ n \<le> x \<Longrightarrow> x < 2 ^ Suc n \<Longrightarrow> BitLen x = Suc n" for x :: int
proof -
  assume x: "2 ^ n \<le> x" "x < 2 ^ Suc n"
  have p: "0 < x" using x(1) zero_less_power [of "2 :: int" n] by linarith
  have "2 ^ n \<le> nat \<bar>x\<bar>" "nat \<bar>x\<bar> < 2 ^ Suc n" using x p by (simp_all add: le_nat_iff nat_less_iff)
  then show ?thesis unfolding BitLen_def by (intro antisym) (auto intro: floorlog_leI floorlog_ge_SucI)
qed

lemma clear_top_bit: "0 \<le> y \<Longrightarrow> y < 2 ^ n \<Longrightarrow> (2 ^ n + y) AND NOT (push_bit n 1) = y" for y :: int
proof -
  assume y: "0 \<le> y" "y < 2 ^ n"
  then have t: "take_bit n y = y" by (simp add: take_bit_int_eq_self)
  have "2 ^ n + y = push_bit n 1 OR y" using or_below [OF y, of 1] by simp
  also have "\<dots> AND NOT (push_bit n 1) = y"
    by (subst (1 2) t [symmetric]) (auto simp: bit_eq_iff [where 'a = int] bit_simps)
  finally show ?thesis .
qed

lemma valid_Attack: "valid_position p \<Longrightarrow> pos_depth p < D \<Longrightarrow> valid_position (Attack p)"
  using unat_Suc_depth [of "pos_depth p" D] by (simp add: valid_position_def Attack_simps) (simp add: Attack_def pos_move_def)

lemma valid_Defend:
  assumes "valid_position p" and "pos_depth p < D" and "even (IndexAtDepth p)" and "pos_depth p \<noteq> 0"
  shows "valid_position (Defend p)"
proof -
  obtain k where k: "IndexAtDepth p = 2 * k" using assms(3) by blast
  obtain n where n: "unat (pos_depth p) = Suc n" using assms(4) by (cases "unat (pos_depth p)") (auto simp: unat_eq_0)
  then show ?thesis
    using assms(1) unat_Suc_depth [OF assms(2)] k by (simp add: valid_position_def Defend_simps) (simp add: Defend_def pos_move_def)
qed

lemma BitLen_bounds:
  assumes "1 \<le> x"
  obtains n where "BitLen x = Suc n" "2 ^ n \<le> x" "x < 2 ^ Suc n"
proof -
  obtain n where n: "2 ^ n \<le> nat x" "nat x < 2 ^ Suc n"
    using ex_power_ivl1 [of 2 "nat x"] assms nat_mono [OF assms] by (auto simp del: le_nat_iff)
  then have "2 ^ n \<le> x" "x < 2 ^ Suc n" using assms by (simp_all add: le_nat_iff nat_less_iff)
  with that BitLen_eq show thesis by blast
qed

lemma NewPositionFromGIndex_eq:
  assumes "2 ^ n \<le> x" and "x < 2 ^ Suc n" and "n < 2 ^ 64"
  shows "NewPositionFromGIndex x = NewPosition (word_of_nat n) (x - 2 ^ n)"
proof -
  have "x \<noteq> 0" using assms(1) zero_less_power [of "2 :: int" n] by linarith
  then have m: "bigMSB x = word_of_nat n" using BitLen_eq [OF assms(1,2)] by (simp add: bigMSB_def)
  have "unat (word_of_nat n :: u64) = n" using assms(3) by (simp add: unat_of_nat)
  moreover have "x AND NOT (push_bit n 1) = x - 2 ^ n" using clear_top_bit [of "x - 2 ^ n" n] assms by simp
  ultimately show ?thesis by (simp add: NewPositionFromGIndex_def m Let_def)
qed

lemma position_eqI: "pos_depth p = d \<Longrightarrow> pos_indexAtDepth p \<noteq> None \<Longrightarrow> IndexAtDepth p = i \<Longrightarrow> p = NewPosition d i"
  by (cases p) (auto simp: IndexAtDepth_def NewPosition_def)

lemma NewPosition_simps [simp]: "pos_depth (NewPosition d i) = d" "IndexAtDepth (NewPosition d i) = i" "pos_indexAtDepth (NewPosition d i) = Some i"
  by (simp_all add: NewPosition_def IndexAtDepth_def)

lemma ToGIndex_inverse: "valid_position p \<Longrightarrow> NewPositionFromGIndex (ToGIndex p) = p"
proof -
  assume v: "valid_position p"
  let ?n = "unat (pos_depth p)"
  have "2 ^ ?n \<le> ToGIndex p" "ToGIndex p < 2 ^ Suc ?n" "?n < 2 ^ 64"
    using v unat_u64_less by (simp_all add: ToGIndex_eq [OF v]) (simp_all add: valid_position_def)
  then have "NewPositionFromGIndex (ToGIndex p) = NewPosition (pos_depth p) (IndexAtDepth p)"
    by (simp only: NewPositionFromGIndex_eq) (simp add: ToGIndex_eq [OF v])
  also have "\<dots> = p" using v position_eqI [of p "pos_depth p" "IndexAtDepth p"] by (simp add: valid_position_def)
  finally show ?thesis .
qed

lemma ToGIndex_inj: "valid_position p \<Longrightarrow> valid_position q \<Longrightarrow> ToGIndex p = ToGIndex q \<longleftrightarrow> p = q"
  by (metis ToGIndex_inverse)

section \<open>Positions in a subtree\<close>

lemma sint_push_bit_1: "n < 64 \<Longrightarrow> \<bar>sint (push_bit n 1 :: u64)\<bar> = 2 ^ n"
proof (cases "n = 63")
  case True
  have "sint (push_bit 63 1 :: u64) = - (2 ^ 63)" by code_simp
  then show ?thesis by (simp add: True)
next
  case False
  assume "n < 64"
  with False have "n < 63" by simp
  then have "(2 :: int) ^ n < 2 ^ 63" by (rule power_strict_increasing) simp
  moreover have "(0 :: int) \<le> 2 ^ n" by simp
  ultimately have "signed_take_bit 63 ((2 :: int) ^ n) = 2 ^ n" by (intro signed_take_bit_int_eq_self) linarith+
  then have "sint (word_of_int (2 ^ n) :: u64) = 2 ^ n" by (simp only: sint_sbintrunc') simp
  then show ?thesis by simp
qed

lemma RelativeToAncestor_ok:
  assumes "a \<le> pos_depth p" and "unat (pos_depth p) - unat a < 64"
  shows "RelativeToAncestorAtDepth p a = Inr (NewPosition (pos_depth p - a) (IndexAtDepth p mod 2 ^ (unat (pos_depth p) - unat a)))"
proof -
  have u: "unat (pos_depth p - a) = unat (pos_depth p) - unat a" using assms(1) by (rule unat_diff_depth)
  have "\<bar>sint (push_bit (unat (pos_depth p - a)) 1 :: u64)\<bar> = 2 ^ (unat (pos_depth p) - unat a)"
    unfolding u by (rule sint_push_bit_1 [OF assms(2)])
  moreover from this have "sint (push_bit (unat (pos_depth p - a)) 1 :: u64) \<noteq> 0" by auto
  ultimately show ?thesis using assms(1) by (simp add: RelativeToAncestorAtDepth_def Let_def)
qed

section \<open>Properties\<close>

text \<open>Generalized indices name positions. A position is valid, with an index that exists at its depth, exactly if it is the position of a
  generalized index, and then \<open>ToGIndex\<close> gives that index back.\<close>

theorem gindex_roundtrip:
  "valid_position p \<longleftrightarrow> (\<exists>x. 1 \<le> x \<and> BitLen x \<le> 2 ^ 64 \<and> NewPositionFromGIndex x = p \<and> ToGIndex p = x)"
proof
  assume v: "valid_position p"
  have "2 ^ unat (pos_depth p) \<le> ToGIndex p" "ToGIndex p < 2 ^ Suc (unat (pos_depth p))"
    using v by (simp_all add: ToGIndex_eq [OF v]) (simp_all add: valid_position_def)
  moreover have "(1 :: int) \<le> 2 ^ unat (pos_depth p)" by simp
  moreover have "Suc (unat (pos_depth p)) \<le> 2 ^ 64" using unat_u64_less [of "pos_depth p"] by (simp only: Suc_le_eq)
  ultimately show "\<exists>x. 1 \<le> x \<and> BitLen x \<le> 2 ^ 64 \<and> NewPositionFromGIndex x = p \<and> ToGIndex p = x"
    using BitLen_eq ToGIndex_inverse [OF v] by (intro exI [of _ "ToGIndex p"]) (simp only: order_trans)
next
  assume "\<exists>x. 1 \<le> x \<and> BitLen x \<le> 2 ^ 64 \<and> NewPositionFromGIndex x = p \<and> ToGIndex p = x"
  then obtain x where x: "1 \<le> x" "BitLen x \<le> 2 ^ 64" "NewPositionFromGIndex x = p" by blast
  obtain n where n: "BitLen x = Suc n" "2 ^ n \<le> x" "x < 2 ^ Suc n" using BitLen_bounds [OF x(1)] .
  have l: "n < 2 ^ 64" using x(2) n(1) by (simp only: Suc_le_eq)
  then have "unat (word_of_nat n :: u64) = n" by (simp add: unat_of_nat)
  then show "valid_position p" using n(2,3) x(3) NewPositionFromGIndex_eq [OF n(2,3) l] by (auto simp: valid_position_def)
qed

text \<open>A position relative to an ancestor keeps its place. The trace index of the relative position in the subtree is the trace index in the game, counted
  from the first leaf below the ancestor.\<close>

theorem relative_trace_index:
  assumes "a \<le> pos_depth p" and "pos_depth p \<le> D" and "unat (pos_depth p) - unat a < 64"
  shows "\<exists>q. RelativeToAncestorAtDepth p a = Inr q \<and> pos_depth q = pos_depth p - a \<and>
    TraceIndex p D = Some (tix D p) \<and> TraceIndex q (D - a) = Some (tix D p mod 2 ^ (unat D - unat a))"
proof -
  let ?k = "unat (pos_depth p) - unat a" and ?r = "unat D - unat (pos_depth p)"
  let ?q = "NewPosition (pos_depth p - a) (IndexAtDepth p mod 2 ^ ?k)"
  have le: "pos_depth p - a \<le> D - a" using assms(1,2) by (simp add: word_le_nat_alt unat_diff_depth)
  have u: "unat (D - a) - unat (pos_depth p - a) = ?r" "unat D - unat a = ?r + ?k"
    using assms(1,2) by (simp_all add: unat_diff_depth word_le_nat_alt)
  have "tix D p mod 2 ^ (?r + ?k) = tix (D - a) ?q"
  proof -
    have "tix D p = IndexAtDepth p * 2 ^ ?r + (2 ^ ?r - 1)" by (simp add: tix_def pspan_def algebra_simps)
    also have "\<dots> mod 2 ^ (?r + ?k) = 2 ^ ?r * (IndexAtDepth p mod 2 ^ ?k) + (2 ^ ?r - 1)"
      using zmod_zmult2_eq [of "2 ^ ?k" "IndexAtDepth p * 2 ^ ?r + (2 ^ ?r - 1)" "2 ^ ?r"] by (simp add: power_add div_pos_pos_trivial zmod_minus1)
    also have "\<dots> = tix (D - a) ?q" by (simp add: tix_def pspan_def u(1) algebra_simps)
    finally show ?thesis .
  qed
  with le assms(2) show ?thesis
    by (intro exI [of _ ?q]) (simp add: RelativeToAncestor_ok [OF assms(1,3)] TraceIndex_tix u(2) not_less)
qed

theorem relative_trace_index_witness:
  "\<exists>q. RelativeToAncestorAtDepth (NewPosition 5 26) 3 = Inr q \<and> TraceIndex q 5 = Some 23"
  using relative_trace_index [of 3 "NewPosition 5 26" 8] by (auto simp: tix_def pspan_def)

end
