(* ===== verification/Fault_Game.thy ===== *)
theory Fault_Game
  imports Fault_Position
begin

text \<open>
  Claims and the state of a dispute game (\<open>op-challenger/game/fault/types/types.go\<close>, \<open>game.go\<close>): identity of claims, chess clocks, parents and
  ancestors. A game is well formed if its claims are those a contract accepts: each answers an earlier claim by an attack or a defence.
\<close>

section \<open>Definitions\<close>

subsection \<open>Clocks\<close>

text \<open>A duration is a signed number of nanoseconds in 64 bits; an instant is a number of nanoseconds since 1970.\<close>

type_synonym duration = "64 word"

record Clock =
  clk_Duration :: duration
  clk_Timestamp :: int

definition Time_Unix :: "int \<Rightarrow> int" where "Time_Unix sec = sec * 1000000000"

definition zero_Time :: int where "zero_Time = Time_Unix (- 62135596800)"

definition Time_Sub :: "int \<Rightarrow> int \<Rightarrow> duration" where
  "Time_Sub t u = word_of_int (max (- (2 ^ 63)) (min (2 ^ 63 - 1) (t - u)))"

definition NewClock :: "duration \<Rightarrow> int \<Rightarrow> Clock" where
  "NewClock duration timestamp = \<lparr>clk_Duration = duration, clk_Timestamp = timestamp\<rparr>"

definition DecodeClock :: "nat \<Rightarrow> Clock" where
  "DecodeClock clock =
     (let maxUint64 = 2 ^ 64; quotient = clock div maxUint64; remainder = clock mod maxUint64
      in NewClock (word_of_nat quotient * 1000000000) (Time_Unix (sint (word_of_nat remainder :: 64 word))))"

subsection \<open>Claims\<close>

record ClaimData =
  cl_Value :: hash
  cl_Bond :: "int option"
  cl_Position :: Position

record Claim = ClaimData +
  cl_CounteredBy :: address
  cl_Claimant :: address
  cl_Clock :: Clock
  cl_ContractIndex :: int
  cl_ParentContractIndex :: int

definition zero_Claim :: Claim where
  "zero_Claim = \<lparr>cl_Value = 0, cl_Bond = None, cl_Position = \<lparr>pos_depth = 0, pos_indexAtDepth = None\<rparr>, cl_CounteredBy = 0,
     cl_Claimant = 0, cl_Clock = \<lparr>clk_Duration = 0, clk_Timestamp = zero_Time\<rparr>, cl_ContractIndex = 0, cl_ParentContractIndex = 0\<rparr>"

text \<open>The bytes of the absolute value of a big integer, without leading zeros.\<close>

definition big_Bytes :: "int \<Rightarrow> byte list" where
  "big_Bytes x = be_encode ((BitLen x + 7) div 8) (nat \<bar>x\<bar>)"

definition claim_ID :: "keccak \<Rightarrow> Claim \<Rightarrow> hash" where
  "claim_ID K c = K (big_Bytes (ToGIndex (cl_Position c)) @ bytes32 (cl_Value c) @ big_Bytes (cl_ParentContractIndex c))"

definition IsRoot :: "Claim \<Rightarrow> bool" where "IsRoot c \<longleftrightarrow> IsRootPosition (cl_Position c)"

abbreviation cl_Depth :: "Claim \<Rightarrow> u64" where "cl_Depth c \<equiv> pos_depth (cl_Position c)"

subsection \<open>Game state\<close>

record gameState =
  gs_claims :: "Claim list"
  gs_claimIDs :: "hash \<rightharpoonup> bool"
  gs_depth :: u64

definition NewGameState :: "keccak \<Rightarrow> Claim list \<Rightarrow> u64 \<Rightarrow> gameState" where
  "NewGameState K claims depth =
     \<lparr>gs_claims = claims, gs_claimIDs = fold (\<lambda>c m. m(claim_ID K c \<mapsto> True)) claims Map.empty, gs_depth = depth\<rparr>"

definition AgreeWithClaimLevel :: "Claim \<Rightarrow> bool \<Rightarrow> bool" where
  "AgreeWithClaimLevel claim agreeWithRootClaim =
     (let isOddLevel = cl_Depth claim mod 2 = 1 in if agreeWithRootClaim then \<not> isOddLevel else isOddLevel)"

definition map_true :: "('k \<rightharpoonup> bool) \<Rightarrow> 'k \<Rightarrow> bool" where
  "map_true m k = (case m k of None \<Rightarrow> False | Some b \<Rightarrow> b)"

definition IsDuplicate :: "keccak \<Rightarrow> gameState \<Rightarrow> Claim \<Rightarrow> bool" where
  "IsDuplicate K g claim = map_true (gs_claimIDs g) (claim_ID K claim)"

definition getParent :: "gameState \<Rightarrow> Claim \<Rightarrow> Claim option" where
  "getParent g claim =
     (if IsRoot claim then None
      else if cl_ParentContractIndex claim \<ge> int (length (gs_claims g)) \<or> cl_ParentContractIndex claim < 0 then None
      else Some (gs_claims g ! nat (cl_ParentContractIndex claim)))"

datatype game_error = ErrClaimNotFound

definition GetParent :: "gameState \<Rightarrow> Claim \<Rightarrow> game_error + Claim" where
  "GetParent g claim = (case getParent g claim of None \<Rightarrow> Inl ErrClaimNotFound | Some p \<Rightarrow> Inr p)"

definition DefendsParent :: "gameState \<Rightarrow> Claim \<Rightarrow> bool" where
  "DefendsParent g claim =
     (case getParent g claim of None \<Rightarrow> False | Some p \<Rightarrow> RightOf (cl_Position claim) (cl_Position p))"

definition ChessClock :: "int \<Rightarrow> Claim \<Rightarrow> Claim \<Rightarrow> duration" where
  "ChessClock now claim parent =
     (let duration = Time_Sub now (clk_Timestamp (cl_Clock claim))
      in if parent \<noteq> zero_Claim then clk_Duration (cl_Clock parent) + duration else duration)"

definition gs_ChessClock :: "gameState \<Rightarrow> int \<Rightarrow> Claim \<Rightarrow> duration" where
  "gs_ChessClock g now claim =
     ChessClock now claim (case getParent g claim of None \<Rightarrow> zero_Claim | Some p \<Rightarrow> p)"

text \<open>The walk up the ancestors may not end if parents form a cycle; \<open>None\<close> is a walk that does not return.\<close>

datatype ancestor = AncestorFound Claim | AncestorMissing | AncestorPanic

partial_function (option) AncestorWithTraceIndex :: "gameState \<Rightarrow> Claim \<Rightarrow> int \<Rightarrow> ancestor option" where
  "AncestorWithTraceIndex g claim idx =
     (case TraceIndex (cl_Position claim) (gs_depth g) of
        None \<Rightarrow> Some AncestorPanic
      | Some t \<Rightarrow>
          if t = idx then Some (AncestorFound claim)
          else if IsRoot claim then Some AncestorMissing
          else (case getParent g claim of
                  None \<Rightarrow> Some AncestorMissing
                | Some p \<Rightarrow> AncestorWithTraceIndex g p idx))"

section \<open>Well-formed games\<close>

text \<open>What the contract enforces: the root claim comes first, every other claim attacks or defends an earlier claim, the root is not defended,
  and no claim is below the maximal depth.\<close>

definition answers :: "u64 \<Rightarrow> Claim \<Rightarrow> Position \<Rightarrow> bool" where
  "answers D p pos \<longleftrightarrow> cl_Depth p < D \<and> (pos = Attack (cl_Position p) \<or> \<not> IsRoot p \<and> pos = Defend (cl_Position p))"

definition wf_claim :: "u64 \<Rightarrow> Claim list \<Rightarrow> nat \<Rightarrow> bool" where
  "wf_claim D cs i \<longleftrightarrow>
     cl_ContractIndex (cs ! i) = int i \<and>
     (if i = 0 then cl_Position (cs ! i) = NewPosition 0 0
      else 0 \<le> cl_ParentContractIndex (cs ! i) \<and> nat (cl_ParentContractIndex (cs ! i)) < i \<and>
           answers D (cs ! nat (cl_ParentContractIndex (cs ! i))) (cl_Position (cs ! i)))"

definition wf_claims :: "u64 \<Rightarrow> Claim list \<Rightarrow> bool" where
  "wf_claims D cs \<longleftrightarrow> cs \<noteq> [] \<and> (\<forall>i<length cs. wf_claim D cs i)"

abbreviation pidx :: "Claim list \<Rightarrow> nat \<Rightarrow> nat" where "pidx cs i \<equiv> nat (cl_ParentContractIndex (cs ! i))"

lemma wf_root:
  assumes "wf_claims D cs"
  shows "cs \<noteq> []" "cl_Position (cs ! 0) = NewPosition 0 0" "cl_ContractIndex (cs ! 0) = 0"
  using assms by (force simp: wf_claims_def wf_claim_def)+

lemma wf_step:
  assumes "wf_claims D cs" and "0 < i" and "i < length cs"
  shows "0 \<le> cl_ParentContractIndex (cs ! i)" "pidx cs i < i" "answers D (cs ! pidx cs i) (cl_Position (cs ! i))"
  using assms by (auto simp: wf_claims_def wf_claim_def)

lemma wf_index: "wf_claims D cs \<Longrightarrow> i < length cs \<Longrightarrow> cl_ContractIndex (cs ! i) = int i"
  by (simp add: wf_claims_def wf_claim_def)

text \<open>Induction along parents.\<close>

lemma wf_induct [consumes 2, case_names root child]:
  assumes "wf_claims D cs" and "i < length cs" and "P 0"
    and "\<And>i. 0 < i \<Longrightarrow> i < length cs \<Longrightarrow> P (pidx cs i) \<Longrightarrow> P i"
  shows "P i"
  using assms(2)
proof (induction i rule: less_induct)
  case (less i)
  then show ?case
    using wf_step(2) [OF assms(1), of i] assms(3,4) by (cases "i = 0") (auto intro: less_trans)
qed

text \<open>Positions of claims are valid, and only the root has an odd number of leaves on one side: all indices are even.\<close>

lemma wf_positions:
  assumes "wf_claims D cs" and "i < length cs"
  shows "valid_position (cl_Position (cs ! i))" "even (IndexAtDepth (cl_Position (cs ! i)))" "cl_Depth (cs ! i) \<le> D"
    "cl_Depth (cs ! i) = 0 \<longleftrightarrow> i = 0" "IsRoot (cs ! i) \<longleftrightarrow> i = 0"
proof -
  have "valid_position (cl_Position (cs ! i)) \<and> even (IndexAtDepth (cl_Position (cs ! i))) \<and> cl_Depth (cs ! i) \<le> D \<and>
      (cl_Depth (cs ! i) = 0 \<longleftrightarrow> i = 0)"
    using assms
  proof (induction rule: wf_induct)
    case root
    then show ?case using wf_root(2) [OF assms(1)] by (simp add: valid_position_def)
  next
    case (child i)
    let ?p = "cl_Position (cs ! pidx cs i)" and ?q = "cl_Position (cs ! i)"
    have a: "pos_depth ?p < D" "?q = Attack ?p \<or> \<not> IsRoot (cs ! pidx cs i) \<and> ?q = Defend ?p"
      using wf_step(3) [OF assms(1) child(1,2)] by (auto simp: answers_def)
    have d: "unat (pos_depth ?q) = Suc (unat (pos_depth ?p))" using a unat_Suc_depth by (auto simp: Attack_simps Defend_simps)
    have "pos_depth ?q \<le> D" using d a(1) by (simp add: word_less_nat_alt word_le_nat_alt)
    moreover have "pos_depth ?q \<noteq> 0" using d by auto
    moreover have "even (IndexAtDepth ?q)" using a(2) by (auto simp: Attack_simps Defend_simps)
    moreover have "valid_position ?q"
    proof (cases "?q = Attack ?p")
      case True
      then show ?thesis using valid_Attack child(3) a(1) by simp
    next
      case False
      then have "pos_depth ?p \<noteq> 0" using a(2) child(3) by (auto simp: IsRoot_def IsRootPosition_def valid_position_def)
      then show ?thesis using False a valid_Defend child(3) by auto
    qed
    ultimately show ?case using child(1) by simp
  qed
  then show "valid_position (cl_Position (cs ! i))" "even (IndexAtDepth (cl_Position (cs ! i)))" "cl_Depth (cs ! i) \<le> D"
    "cl_Depth (cs ! i) = 0 \<longleftrightarrow> i = 0" "IsRoot (cs ! i) \<longleftrightarrow> i = 0"
    by (auto simp: IsRoot_def IsRootPosition_def valid_position_def)
qed

lemma getParent_wf:
  assumes "wf_claims D (gs_claims g)" and "i < length (gs_claims g)"
  shows "getParent g (gs_claims g ! i) = (if i = 0 then None else Some (gs_claims g ! pidx (gs_claims g) i))"
  using wf_positions(5) [OF assms] wf_step [OF assms(1) _ assms(2)] assms(2) by (auto simp: getParent_def)

section \<open>Bisection\<close>

text \<open>The nearest ancestors to the left and to the right of a claim.\<close>

fun left_idx :: "Claim list \<Rightarrow> nat \<Rightarrow> nat option" where
  "left_idx cs i =
     (if i = 0 \<or> \<not> pidx cs i < i then None
      else if RightOf (cl_Position (cs ! i)) (cl_Position (cs ! pidx cs i)) then Some (pidx cs i) else left_idx cs (pidx cs i))"

fun right_idx :: "Claim list \<Rightarrow> nat \<Rightarrow> nat option" where
  "right_idx cs i =
     (if i = 0 \<or> \<not> pidx cs i < i then None
      else if RightOf (cl_Position (cs ! i)) (cl_Position (cs ! pidx cs i)) then right_idx cs (pidx cs i) else Some (pidx cs i))"

declare left_idx.simps [simp del] right_idx.simps [simp del]

abbreviation ctix :: "u64 \<Rightarrow> Claim list \<Rightarrow> nat \<Rightarrow> int" where "ctix D cs i \<equiv> tix D (cl_Position (cs ! i))"
abbreviation cspan :: "u64 \<Rightarrow> Claim list \<Rightarrow> nat \<Rightarrow> int" where "cspan D cs i \<equiv> pspan D (cl_Position (cs ! i))"

lemma wf_child_cases:
  assumes "wf_claims D cs" and "0 < i" and "i < length cs"
  obtains (attack) "cl_Position (cs ! i) = Attack (cl_Position (cs ! pidx cs i))"
      "\<not> RightOf (cl_Position (cs ! i)) (cl_Position (cs ! pidx cs i))"
      "cspan D cs (pidx cs i) = 2 * cspan D cs i" "ctix D cs i = ctix D cs (pidx cs i) - cspan D cs i"
      "left_idx cs i = left_idx cs (pidx cs i)" "right_idx cs i = Some (pidx cs i)"
  | (defend) "cl_Position (cs ! i) = Defend (cl_Position (cs ! pidx cs i))" "pidx cs i \<noteq> 0"
      "RightOf (cl_Position (cs ! i)) (cl_Position (cs ! pidx cs i))"
      "cspan D cs (pidx cs i) = 2 * cspan D cs i" "ctix D cs i = ctix D cs (pidx cs i) + cspan D cs i"
      "left_idx cs i = Some (pidx cs i)" "right_idx cs i = right_idx cs (pidx cs i)"
proof -
  let ?p = "cl_Position (cs ! pidx cs i)" and ?q = "cl_Position (cs ! i)"
  note st = wf_step [OF assms]
  have l: "pidx cs i < length cs" using st(2) assms(3) by simp
  have e: "even (IndexAtDepth ?p)" using wf_positions(2) [OF assms(1) l] .
  have d: "pos_depth ?p < D" using st(3) by (simp add: answers_def)
  have i: "left_idx cs i = (if RightOf ?q ?p then Some (pidx cs i) else left_idx cs (pidx cs i))"
    "right_idx cs i = (if RightOf ?q ?p then right_idx cs (pidx cs i) else Some (pidx cs i))"
    using st(2) assms(2) left_idx.simps [of cs i] right_idx.simps [of cs i] by simp_all
  show thesis
  proof (cases "?q = Attack ?p")
    case True
    show thesis
      by (rule attack) (use True i d pspan_step [of ?p D ?q] tix_Attack [OF d] not_RightOf_Attack [of ?p] in \<open>simp_all add: Attack_simps\<close>)
  next
    case False
    then have q: "?q = Defend ?p" "\<not> IsRoot (cs ! pidx cs i)" using st(3) by (auto simp: answers_def)
    have "pidx cs i \<noteq> 0" using wf_positions(5) [OF assms(1) l] q(2) by auto
    then show thesis
      by (rule defend [rotated]) (use q i d e pspan_step [of ?p D ?q] tix_Defend [OF d e] RightOf_Defend [OF e] in \<open>simp_all add: Defend_simps\<close>)
  qed
qed

lemma left_tix:
  assumes "wf_claims D cs" and "i < length cs"
  shows "case left_idx cs i of None \<Rightarrow> ctix D cs i = cspan D cs i - 1 | Some j \<Rightarrow> j < i \<and> ctix D cs j = ctix D cs i - cspan D cs i"
  using assms
proof (induction rule: wf_induct)
  case root
  then show ?case by (simp add: left_idx.simps wf_root(2) [OF assms(1)] tix_def)
next
  case (child i)
  show ?case
    using assms(1) child(1,2)
  proof (cases rule: wf_child_cases)
    case attack
    then show ?thesis using child(3) wf_step(2) [OF assms(1) child(1,2)] by (auto split: option.splits)
  next
    case defend
    then show ?thesis using wf_step(2) [OF assms(1) child(1,2)] by simp
  qed
qed

lemma right_tix:
  assumes "wf_claims D cs" and "i < length cs"
  shows "case right_idx cs i of None \<Rightarrow> i = 0 | Some j \<Rightarrow> j < i \<and> ctix D cs j = ctix D cs i + cspan D cs i"
  using assms
proof (induction rule: wf_induct)
  case root
  then show ?case by (simp add: right_idx.simps)
next
  case (child i)
  show ?case
    using assms(1) child(1,2)
  proof (cases rule: wf_child_cases)
    case attack
    then show ?thesis using wf_step(2) [OF assms(1) child(1,2)] by simp
  next
    case defend
    then show ?thesis using child(3) wf_step(2) [OF assms(1) child(1,2)] by (auto split: option.splits)
  qed
qed

text \<open>Ancestors, the claim itself included.\<close>

inductive anc :: "Claim list \<Rightarrow> nat \<Rightarrow> nat \<Rightarrow> bool" for cs where
  anc_refl: "anc cs i i"
| anc_parent: "0 < i \<Longrightarrow> i < length cs \<Longrightarrow> anc cs (pidx cs i) j \<Longrightarrow> anc cs i j"

lemma anc_cases_iff: "i < length cs \<Longrightarrow> anc cs i j \<longleftrightarrow> j = i \<or> 0 < i \<and> anc cs (pidx cs i) j"
  by (subst anc.simps) auto

lemma anc_le:
  assumes "anc cs i j" and "wf_claims D cs" and "i < length cs"
  shows "j \<le> i"
  using assms(1,3)
proof (induction rule: anc.induct)
  case (anc_parent i j)
  then show ?case using wf_step(2) [OF assms(2), of i] by simp
qed simp

lemma wf_depth_Suc:
  assumes "wf_claims D cs" and "0 < i" and "i < length cs"
  shows "unat (cl_Depth (cs ! i)) = Suc (unat (cl_Depth (cs ! pidx cs i)))"
  using wf_step(3) [OF assms] unat_Suc_depth by (auto simp: answers_def Attack_simps Defend_simps)

lemma anc_depth:
  assumes "anc cs i j" and "wf_claims D cs" and "i < length cs"
  shows "cl_Depth (cs ! j) \<le> cl_Depth (cs ! i)"
  using assms(1,3)
proof (induction rule: anc.induct)
  case (anc_parent i j)
  then show ?case using wf_depth_Suc [OF assms(2), of i] wf_step(2) [OF assms(2), of i] by (simp add: word_le_nat_alt)
qed simp

lemma left_idx_anc:
  assumes "wf_claims D cs" and "i < length cs" and "left_idx cs i = Some j"
  shows "anc cs i j"
  using assms
proof (induction arbitrary: j rule: wf_induct)
  case root
  then show ?case by (simp add: left_idx.simps)
next
  case (child i)
  show ?case using assms(1) child(1,2)
    by (cases rule: wf_child_cases) (use child in \<open>auto intro: anc_parent anc_refl\<close>)
qed

lemma right_idx_anc:
  assumes "wf_claims D cs" and "i < length cs" and "right_idx cs i = Some j"
  shows "anc cs i j"
  using assms
proof (induction arbitrary: j rule: wf_induct)
  case root
  then show ?case by (simp add: right_idx.simps)
next
  case (child i)
  show ?case using assms(1) child(1,2)
    by (cases rule: wf_child_cases) (use child in \<open>auto intro: anc_parent anc_refl\<close>)
qed

text \<open>No ancestor lies in the range that a claim and its answers are about.\<close>

lemma anc_gap:
  assumes "wf_claims D cs" and "i < length cs" and "anc cs i j" and "j \<noteq> i"
  shows "ctix D cs j \<le> ctix D cs i - cspan D cs i \<or> ctix D cs i + cspan D cs i \<le> ctix D cs j"
  using assms
proof (induction arbitrary: j rule: wf_induct)
  case root
  then show ?case using wf_root(1) [OF assms(1)] anc_cases_iff [of 0 cs j] by simp
next
  case (child i)
  let ?p = "pidx cs i"
  have "anc cs ?p j" using child(2,4,5) anc_cases_iff [of i cs j] by simp
  then have g: "j = ?p \<or> ctix D cs j \<le> ctix D cs ?p - cspan D cs ?p \<or> ctix D cs ?p + cspan D cs ?p \<le> ctix D cs j"
    using child(3) assms(1) by blast
  have "cspan D cs i > 0" by simp
  show ?case using assms(1) child(1,2)
    by (cases rule: wf_child_cases) (use g \<open>cspan D cs i > 0\<close> in \<open>(elim disjE; simp; linarith)+\<close>)
qed

lemma anc_tix_neq: "wf_claims D cs \<Longrightarrow> i < length cs \<Longrightarrow> anc cs i j \<Longrightarrow> j \<noteq> i \<Longrightarrow> ctix D cs j \<noteq> ctix D cs i"
  using anc_gap [of D cs i j] pspan_pos [of D "cl_Position (cs ! i)"] by linarith

text \<open>The search for an ancestor returns, and finds the one ancestor with the given trace index.\<close>

lemma AncestorWithTraceIndex_step:
  assumes "wf_claims (gs_depth g) (gs_claims g)" and "i < length (gs_claims g)"
  shows "AncestorWithTraceIndex g (gs_claims g ! i) t =
    (if ctix (gs_depth g) (gs_claims g) i = t then Some (AncestorFound (gs_claims g ! i))
     else if i = 0 then Some AncestorMissing
     else AncestorWithTraceIndex g (gs_claims g ! pidx (gs_claims g) i) t)"
  by (subst AncestorWithTraceIndex.simps)
    (use wf_positions(3,5) [OF assms] getParent_wf [OF assms] in \<open>auto simp: TraceIndex_tix\<close>)

lemma AncestorWithTraceIndex_found:
  assumes "wf_claims (gs_depth g) (gs_claims g)" and "i < length (gs_claims g)" and "anc (gs_claims g) i j"
  shows "AncestorWithTraceIndex g (gs_claims g ! i) (ctix (gs_depth g) (gs_claims g) j) = Some (AncestorFound (gs_claims g ! j))"
  using assms
proof (induction arbitrary: j rule: wf_induct)
  case root
  then show ?case
    using wf_root(1) [OF assms(1)] anc_cases_iff [of 0 "gs_claims g" j] AncestorWithTraceIndex_step [OF assms(1), of 0] by simp
next
  case (child i)
  show ?case
  proof (cases "j = i")
    case True
    then show ?thesis using child(2) assms(1) by (simp add: AncestorWithTraceIndex_step)
  next
    case False
    with child have "anc (gs_claims g) (pidx (gs_claims g) i) j" using anc_cases_iff [of i "gs_claims g" j] by simp
    with child anc_tix_neq [OF assms(1) child(2,4) False] show ?thesis
      by (simp add: AncestorWithTraceIndex_step [OF assms(1) child(2)])
  qed
qed

lemma AncestorWithTraceIndex_returns:
  assumes "wf_claims (gs_depth g) (gs_claims g)" and "i < length (gs_claims g)"
  shows "AncestorWithTraceIndex g (gs_claims g ! i) t = Some AncestorMissing \<or>
    (\<exists>j. anc (gs_claims g) i j \<and> ctix (gs_depth g) (gs_claims g) j = t \<and>
       AncestorWithTraceIndex g (gs_claims g ! i) t = Some (AncestorFound (gs_claims g ! j)))"
  using assms
proof (induction rule: wf_induct)
  case root
  then show ?case
    using wf_root(1) [OF assms(1)] AncestorWithTraceIndex_step [OF assms(1), of 0 t] anc_refl [of "gs_claims g" 0] by auto
next
  case (child i)
  then show ?case
    by (cases "ctix (gs_depth g) (gs_claims g) i = t")
      (auto simp: AncestorWithTraceIndex_step [OF assms(1) child(2)] intro: anc_refl anc_parent)
qed

lemma wf_trace_bounds:
  assumes "wf_claims D cs" and "i < length cs"
  shows "0 \<le> ctix D cs i" "ctix D cs i < 2 ^ unat D"
proof -
  let ?p = "cl_Position (cs ! i)"
  have v: "0 \<le> IndexAtDepth ?p" "IndexAtDepth ?p + 1 \<le> 2 ^ unat (pos_depth ?p)" and d: "unat (pos_depth ?p) \<le> unat D"
    using wf_positions(1,3) [OF assms] by (auto simp: valid_position_def word_le_nat_alt)
  have "1 * 1 \<le> (IndexAtDepth ?p + 1) * pspan D ?p" using v by (intro mult_mono) (auto simp: pspan_def)
  then show "0 \<le> ctix D cs i" by (simp add: tix_def)
  have "(IndexAtDepth ?p + 1) * pspan D ?p \<le> 2 ^ unat (pos_depth ?p) * pspan D ?p" using v(2) by (rule mult_right_mono) (simp add: pspan_def)
  also have "\<dots> = 2 ^ unat D" using d by (simp add: pspan_def flip: power_add)
  finally show "ctix D cs i < 2 ^ unat D" by (simp add: tix_def)
qed

section \<open>Identity of claims\<close>

lemma NewGameState_sel [simp]: "gs_claims (NewGameState K cs D) = cs" "gs_depth (NewGameState K cs D) = D"
  by (simp_all add: NewGameState_def)

lemma fold_ids: "fold (\<lambda>c m. m(f c \<mapsto> True)) cs m k = (if k \<in> f ` set cs then Some True else m k)"
  by (induction cs arbitrary: m) auto

lemma IsDuplicate_iff: "IsDuplicate K (NewGameState K cs D) c \<longleftrightarrow> claim_ID K c \<in> claim_ID K ` set cs"
  by (simp add: IsDuplicate_def NewGameState_def map_true_def fold_ids)

section \<open>A sample game\<close>

definition sample_claim :: "nat \<Rightarrow> int \<Rightarrow> Position \<Rightarrow> hash \<Rightarrow> Claim" where
  "sample_claim i p pos v = zero_Claim\<lparr>cl_Value := v, cl_Position := pos, cl_Claimant := 7, cl_ContractIndex := int i, cl_ParentContractIndex := p\<rparr>"

text \<open>A game of depth 4: the root is attacked, the attack is defended, and so on down to a leaf.\<close>

definition sample_game :: "Claim list" where
  "sample_game = [sample_claim 0 0 (NewPosition 0 0) 1, sample_claim 1 0 (NewPosition 1 0) 2, sample_claim 2 1 (NewPosition 2 2) 3,
     sample_claim 3 2 (NewPosition 3 4) 4, sample_claim 4 3 (NewPosition 4 10) 5]"

lemma sample_game_wf: "wf_claims 4 sample_game" by code_simp

section \<open>Properties\<close>

text \<open>C18: The search for an ancestor by its trace index ends in every well-formed game, does not panic, and answers right: it finds the only
  claim on the path to the root with that trace index, or reports that there is none.\<close>

theorem ancestor_search:
  assumes "wf_claims D cs" and "i < length cs"
  shows "\<exists>r. AncestorWithTraceIndex (NewGameState K cs D) (cs ! i) t = Some r \<and> r \<noteq> AncestorPanic \<and>
    (\<forall>c. r = AncestorFound c \<longleftrightarrow> (\<exists>j. anc cs i j \<and> c = cs ! j \<and> TraceIndex (cl_Position c) D = Some t))"
proof -
  let ?g = "NewGameState K cs D"
  have w: "wf_claims (gs_depth ?g) (gs_claims ?g)" "i < length (gs_claims ?g)" using assms by simp_all
  have t: "TraceIndex (cl_Position (cs ! j)) D = Some (ctix D cs j)" if "anc cs i j" for j
    using anc_le [OF that assms] assms wf_positions(3) [OF assms(1), of j] by (simp add: TraceIndex_tix not_less)
  consider "AncestorWithTraceIndex ?g (cs ! i) t = Some AncestorMissing"
    | j where "anc cs i j" "ctix D cs j = t" "AncestorWithTraceIndex ?g (cs ! i) t = Some (AncestorFound (cs ! j))"
    using AncestorWithTraceIndex_returns [OF w, of t] by auto
  then show ?thesis
  proof cases
    case 1
    have "\<not> anc cs i j" if "ctix D cs j = t" for j using AncestorWithTraceIndex_found [OF w, of j] that 1 by auto
    then show ?thesis using 1 t by auto
  next
    case (2 j)
    have u: "cs ! k = cs ! j" if "anc cs i k" "ctix D cs k = t" for k
      using AncestorWithTraceIndex_found [OF w, of k] that 2(3) by simp
    have "cs ! j = c \<longleftrightarrow> (\<exists>k. anc cs i k \<and> c = cs ! k \<and> TraceIndex (cl_Position c) D = Some t)" for c
    proof
      assume "cs ! j = c"
      then show "\<exists>k. anc cs i k \<and> c = cs ! k \<and> TraceIndex (cl_Position c) D = Some t" using 2(1,2) t [OF 2(1)] by auto
    next
      assume "\<exists>k. anc cs i k \<and> c = cs ! k \<and> TraceIndex (cl_Position c) D = Some t"
      then obtain k where k: "anc cs i k" "c = cs ! k" "TraceIndex (cl_Position (cs ! k)) D = Some t" by blast
      then show "cs ! j = c" using u [OF k(1)] t [OF k(1)] by simp
    qed
    then show ?thesis using 2(3) by simp
  qed
qed

theorem ancestor_search_witness:
  "\<exists>r. AncestorWithTraceIndex (NewGameState (\<lambda>_. 0) sample_game 4) (sample_game ! 4) 11 = Some r \<and> r \<noteq> AncestorPanic"
proof -
  have "(4 :: nat) < length sample_game" by code_simp
  from ancestor_search [OF sample_game_wf this, of "\<lambda>_. 0" 11] show ?thesis by blast
qed

text \<open>A claim at the maximal depth can be stepped from both sides. In a well-formed game the claim right before its trace index is on the path to the
  root, unless the step starts from the absolute prestate, and so is the claim right after it.\<close>

theorem step_states_available:
  assumes "wf_claims D cs" and "0 < i" and "i < length cs" and "cl_Depth (cs ! i) = D" and "TraceIndex (cl_Position (cs ! i)) D = Some t"
  shows "(t = 0 \<or> (\<exists>j<i. AncestorWithTraceIndex (NewGameState K cs D) (cs ! i) (t - 1) = Some (AncestorFound (cs ! j)))) \<and>
    (\<exists>j<i. AncestorWithTraceIndex (NewGameState K cs D) (cs ! i) (t + 1) = Some (AncestorFound (cs ! j)))"
proof -
  let ?g = "NewGameState K cs D"
  have w: "wf_claims (gs_depth ?g) (gs_claims ?g)" "i < length (gs_claims ?g)" using assms by simp_all
  have s: "cspan D cs i = 1" "ctix D cs i = t" using assms(4,5) by (simp_all add: pspan_def TraceIndex_tix)
  have "t = 0 \<or> (\<exists>j<i. AncestorWithTraceIndex ?g (cs ! i) (t - 1) = Some (AncestorFound (cs ! j)))"
  proof (cases "left_idx cs i")
    case None
    then show ?thesis using left_tix [OF assms(1,3)] s by simp
  next
    case (Some j)
    have "j < i" "ctix D cs j = t - 1" using left_tix [OF assms(1,3)] s Some by simp_all
    then show ?thesis using AncestorWithTraceIndex_found [OF w, of j] left_idx_anc [OF assms(1,3) Some] by auto
  qed
  moreover have "\<exists>j<i. AncestorWithTraceIndex ?g (cs ! i) (t + 1) = Some (AncestorFound (cs ! j))"
  proof (cases "right_idx cs i")
    case None
    then show ?thesis using right_tix [OF assms(1,3)] assms(2) by simp
  next
    case (Some j)
    have "j < i" "ctix D cs j = t + 1" using right_tix [OF assms(1,3)] s Some by simp_all
    then show ?thesis using AncestorWithTraceIndex_found [OF w, of j] right_idx_anc [OF assms(1,3) Some] by auto
  qed
  ultimately show ?thesis by blast
qed

theorem step_states_available_witness:
  "\<exists>j<4. AncestorWithTraceIndex (NewGameState (\<lambda>_. 0) sample_game 4) (sample_game ! 4) 11 = Some (AncestorFound (sample_game ! j))"
proof -
  have "(4 :: nat) < length sample_game" "cl_Depth (sample_game ! 4) = 4" "TraceIndex (cl_Position (sample_game ! 4)) 4 = Some 10" by code_simp+
  from step_states_available [OF sample_game_wf _ this, of "\<lambda>_. 0"] show ?thesis by simp
qed

end
