(* ===== verification/Honest_Solver.thy ===== *)
theory Honest_Solver
  imports Fault_Game
begin

text \<open>
  The solver of the challenger (\<open>op-challenger/game/fault/solver\<close>: \<open>honest_claims.go\<close>, \<open>solver.go\<close>, \<open>game_solver.go\<close>), and the strategy it
  follows. The trace accessor is a parameter: what it answers, errors included, depends on the game, the claim in question and the position. Hashing is
  the parameter \<open>K\<close>.
\<close>

section \<open>Definitions\<close>

subsection \<open>Actions and traces\<close>

datatype ActionType = ActionTypeMove | ActionTypeStep | ActionTypeChallengeL2BlockNumber

record ('o, 'ch) Action =
  act_Type :: ActionType
  act_ParentClaim :: Claim
  act_IsAttack :: bool
  act_Value :: hash
  act_PreState :: "byte list"
  act_ProofData :: "byte list"
  act_OracleData :: "'o option"
  act_InvalidL2BlockNumberChallenge :: "'ch option"

definition zero_Action :: "('o, 'ch) Action" where
  "zero_Action = \<lparr>act_Type = ActionTypeMove, act_ParentClaim = zero_Claim, act_IsAttack = False, act_Value = 0, act_PreState = [],
     act_ProofData = [], act_OracleData = None, act_InvalidL2BlockNumberChallenge = None\<rparr>"

datatype ('e, 'ch) l2_answer = ErrL2BlockNumberValid | L2CheckFailed 'e | L2Challenge 'ch | L2CheckPanic

record ('e, 'o, 'ch) TraceAccessor =
  ta_Get :: "gameState \<Rightarrow> Claim \<Rightarrow> Position \<Rightarrow> 'e + hash"
  ta_GetStepData :: "gameState \<Rightarrow> Claim \<Rightarrow> Position \<Rightarrow> 'e + byte list \<times> byte list \<times> 'o option"
  ta_GetL2BlockNumberChallenge :: "gameState \<Rightarrow> ('e, 'ch) l2_answer"

subsection \<open>Honest claims\<close>

record honestClaimTracker =
  hct_agreed :: "hash \<rightharpoonup> bool"
  hct_counters :: "hash \<rightharpoonup> Claim"

definition newHonestClaimTracker :: honestClaimTracker where
  "newHonestClaimTracker = \<lparr>hct_agreed = Map.empty, hct_counters = Map.empty\<rparr>"

definition AddHonestClaim :: "keccak \<Rightarrow> Claim \<Rightarrow> Claim \<Rightarrow> honestClaimTracker \<Rightarrow> honestClaimTracker" where
  "AddHonestClaim K parent claim a =
     (let a = a\<lparr>hct_agreed := (hct_agreed a)(claim_ID K claim \<mapsto> True)\<rparr>
      in if parent \<noteq> zero_Claim then a\<lparr>hct_counters := (hct_counters a)(claim_ID K parent \<mapsto> claim)\<rparr> else a)"

definition IsHonest :: "keccak \<Rightarrow> Claim \<Rightarrow> honestClaimTracker \<Rightarrow> bool" where
  "IsHonest K claim a = map_true (hct_agreed a) (claim_ID K claim)"

definition HonestCounter :: "keccak \<Rightarrow> Claim \<Rightarrow> honestClaimTracker \<Rightarrow> Claim option" where
  "HonestCounter K parent a = hct_counters a (claim_ID K parent)"

subsection \<open>Moves and steps\<close>

datatype 'e solver_error = TraceError 'e | ErrGameDepthReached | ErrStepNonLeafNode | NoParentForClaim | SolverPanic

record ('e, 'o, 'ch) claimSolver =
  sv_trace :: "('e, 'o, 'ch) TraceAccessor"
  sv_gameDepth :: u64

definition newClaimSolver :: "u64 \<Rightarrow> ('e, 'o, 'ch) TraceAccessor \<Rightarrow> ('e, 'o, 'ch) claimSolver" where
  "newClaimSolver gameDepth trace = \<lparr>sv_trace = trace, sv_gameDepth = gameDepth\<rparr>"

definition shouldCounter :: "keccak \<Rightarrow> gameState \<Rightarrow> Claim \<Rightarrow> honestClaimTracker \<Rightarrow> 'e solver_error + bool" where
  "shouldCounter K g claim honestClaims =
     (if IsHonest K claim honestClaims then Inr False
      else if IsRoot claim then Inr True
      else case GetParent g claim of
        Inl _ \<Rightarrow> Inl NoParentForClaim
      | Inr parent \<Rightarrow>
          if IsHonest K parent honestClaims then Inr True
          else (case HonestCounter K parent honestClaims of
                  None \<Rightarrow> Inr False
                | Some counter \<Rightarrow>
                    (case (TraceIndex (cl_Position counter) (gs_depth g), TraceIndex (cl_Position claim) (gs_depth g)) of
                       (Some honestIdx, Some claimIdx) \<Rightarrow> Inr (claimIdx \<le> honestIdx)
                     | _ \<Rightarrow> Inl SolverPanic)))"

definition trace_get :: "('e, 'o, 'ch) claimSolver \<Rightarrow> gameState \<Rightarrow> Claim \<Rightarrow> Position \<Rightarrow> 'e solver_error + hash" where
  "trace_get s g claim pos = map_sum TraceError id (ta_Get (sv_trace s) g claim pos)"

definition agreeWithClaim :: "('e, 'o, 'ch) claimSolver \<Rightarrow> gameState \<Rightarrow> Claim \<Rightarrow> 'e solver_error + bool" where
  "agreeWithClaim s g claim =
     and_then (trace_get s g claim (cl_Position claim)) (\<lambda>ourValue. Inr (ourValue = cl_Value claim))"

text \<open>A claim that is not yet in the contract: only value, position and parent are set.\<close>

definition new_claim :: "hash \<Rightarrow> Position \<Rightarrow> int \<Rightarrow> Claim" where
  "new_claim value position parentIndex =
     zero_Claim\<lparr>cl_Value := value, cl_Position := position, cl_ParentContractIndex := parentIndex\<rparr>"

definition attack :: "('e, 'o, 'ch) claimSolver \<Rightarrow> gameState \<Rightarrow> Claim \<Rightarrow> 'e solver_error + Claim option" where
  "attack s g claim =
     (let position = Attack (cl_Position claim) in
      and_then (trace_get s g claim position) (\<lambda>value. Inr (Some (new_claim value position (cl_ContractIndex claim)))))"

definition defend :: "('e, 'o, 'ch) claimSolver \<Rightarrow> gameState \<Rightarrow> Claim \<Rightarrow> 'e solver_error + Claim option" where
  "defend s g claim =
     (if IsRoot claim then Inr None
      else let position = Defend (cl_Position claim) in
      and_then (trace_get s g claim position) (\<lambda>value. Inr (Some (new_claim value position (cl_ContractIndex claim)))))"

definition NextMove ::
  "keccak \<Rightarrow> ('e, 'o, 'ch) claimSolver \<Rightarrow> Claim \<Rightarrow> gameState \<Rightarrow> honestClaimTracker \<Rightarrow> 'e solver_error + Claim option" where
  "NextMove K s claim g honestClaims =
     (if cl_Depth claim = sv_gameDepth s then Inl ErrGameDepthReached
      else and_then (shouldCounter K g claim honestClaims) (\<lambda>counter.
      if \<not> counter then Inr None
      else and_then (agreeWithClaim s g claim) (\<lambda>agree.
      if agree then defend s g claim else attack s g claim)))"

record 'o StepData =
  sd_LeafClaim :: Claim
  sd_IsAttack :: bool
  sd_PreState :: "byte list"
  sd_ProofData :: "byte list"
  sd_OracleData :: "'o option"

definition AttemptStep ::
  "keccak \<Rightarrow> ('e, 'o, 'ch) claimSolver \<Rightarrow> gameState \<Rightarrow> Claim \<Rightarrow> honestClaimTracker \<Rightarrow> 'e solver_error + 'o StepData option" where
  "AttemptStep K s g claim honestClaims =
     (if cl_Depth claim \<noteq> sv_gameDepth s then Inl ErrStepNonLeafNode
      else and_then (shouldCounter K g claim honestClaims) (\<lambda>counter.
      if \<not> counter then Inr None
      else and_then (agreeWithClaim s g claim) (\<lambda>claimCorrect.
      let position = (if \<not> claimCorrect then cl_Position claim else MoveRight (cl_Position claim)) in
      and_then (map_sum TraceError id (ta_GetStepData (sv_trace s) g claim position)) (\<lambda>(preState, proofData, oracleData).
      Inr (Some \<lparr>sd_LeafClaim = claim, sd_IsAttack = (\<not> claimCorrect), sd_PreState = preState, sd_ProofData = proofData,
             sd_OracleData = oracleData\<rparr>)))))"

subsection \<open>The next actions\<close>

definition calculateStep ::
  "keccak \<Rightarrow> ('e, 'o, 'ch) claimSolver \<Rightarrow> gameState \<Rightarrow> Claim \<Rightarrow> honestClaimTracker \<Rightarrow> 'e solver_error + ('o, 'ch) Action option" where
  "calculateStep K s g claim agreedClaims =
     (if cl_CounteredBy claim \<noteq> 0 then Inr None
      else and_then (AttemptStep K s g claim agreedClaims) (\<lambda>step.
      case step of
        None \<Rightarrow> Inr None
      | Some step \<Rightarrow> Inr (Some (zero_Action\<lparr>act_Type := ActionTypeStep, act_ParentClaim := sd_LeafClaim step, act_IsAttack := sd_IsAttack step,
          act_PreState := sd_PreState step, act_ProofData := sd_ProofData step, act_OracleData := sd_OracleData step\<rparr>))))"

definition calculateMove ::
  "keccak \<Rightarrow> ('e, 'o, 'ch) claimSolver \<Rightarrow> gameState \<Rightarrow> Claim \<Rightarrow> honestClaimTracker \<Rightarrow>
     ('e solver_error + ('o, 'ch) Action option) \<times> honestClaimTracker" where
  "calculateMove K s g claim honestClaims =
     (case NextMove K s claim g honestClaims of
        Inl e \<Rightarrow> (Inl e, honestClaims)
      | Inr None \<Rightarrow> (Inr None, honestClaims)
      | Inr (Some move) \<Rightarrow>
          let honestClaims = AddHonestClaim K claim move honestClaims in
          if IsDuplicate K g move then (Inr None, honestClaims)
          else if cl_ParentContractIndex move < 0 \<or> cl_ParentContractIndex move \<ge> int (length (gs_claims g)) then (Inl SolverPanic, honestClaims)
          else (Inr (Some (zero_Action\<lparr>act_Type := ActionTypeMove, act_IsAttack := \<not> DefendsParent g move,
                  act_ParentClaim := gs_claims g ! nat (cl_ParentContractIndex move), act_Value := cl_Value move\<rparr>)), honestClaims))"

definition next_action ::
  "keccak \<Rightarrow> ('e, 'o, 'ch) claimSolver \<Rightarrow> gameState \<Rightarrow> Claim \<Rightarrow> honestClaimTracker \<Rightarrow>
     ('e solver_error + ('o, 'ch) Action option) \<times> honestClaimTracker" where
  "next_action K s g claim agreedClaims =
     (if cl_Depth claim = gs_depth g then (calculateStep K s g claim agreedClaims, agreedClaims)
      else calculateMove K s g claim agreedClaims)"

text \<open>The loop over the claims stops at the first error; the actions found before it are kept.\<close>

fun next_actions ::
  "keccak \<Rightarrow> ('e, 'o, 'ch) claimSolver \<Rightarrow> gameState \<Rightarrow> Claim list \<Rightarrow> honestClaimTracker \<Rightarrow> ('o, 'ch) Action list \<Rightarrow>
     ('o, 'ch) Action list \<times> 'e solver_error option" where
  "next_actions K s g [] agreedClaims actions = (actions, None)"
| "next_actions K s g (claim # claims) agreedClaims actions =
     (case next_action K s g claim agreedClaims of
        (Inl e, _) \<Rightarrow> (actions, Some e)
      | (Inr None, agreedClaims) \<Rightarrow> next_actions K s g claims agreedClaims actions
      | (Inr (Some a), agreedClaims) \<Rightarrow> next_actions K s g claims agreedClaims (actions @ [a]))"

definition AgreeWithRootClaim :: "('e, 'o, 'ch) claimSolver \<Rightarrow> gameState \<Rightarrow> 'e solver_error + bool" where
  "AgreeWithRootClaim s g = (case gs_claims g of [] \<Rightarrow> Inl SolverPanic | c # _ \<Rightarrow> agreeWithClaim s g c)"

definition initial_tracker :: "keccak \<Rightarrow> gameState \<Rightarrow> bool \<Rightarrow> honestClaimTracker" where
  "initial_tracker K g agreeWithRootClaim =
     (if agreeWithRootClaim then AddHonestClaim K zero_Claim (gs_claims g ! 0) newHonestClaimTracker else newHonestClaimTracker)"

definition CalculateNextActions ::
  "keccak \<Rightarrow> ('e, 'o, 'ch) claimSolver \<Rightarrow> gameState \<Rightarrow> ('o, 'ch) Action list \<times> 'e solver_error option" where
  "CalculateNextActions K s g =
     (case AgreeWithRootClaim s g of
        Inl e \<Rightarrow> ([], Some e)
      | Inr agreeWithRootClaim \<Rightarrow>
         (case (if agreeWithRootClaim then ta_GetL2BlockNumberChallenge (sv_trace s) g else ErrL2BlockNumberValid) of
            L2CheckFailed e \<Rightarrow> ([], Some (TraceError e))
          | L2CheckPanic \<Rightarrow> ([], Some SolverPanic)
          | L2Challenge challenge \<Rightarrow>
              ([zero_Action\<lparr>act_Type := ActionTypeChallengeL2BlockNumber, act_InvalidL2BlockNumberChallenge := Some challenge\<rparr>], None)
          | ErrL2BlockNumberValid \<Rightarrow> next_actions K s g (gs_claims g) (initial_tracker K g agreeWithRootClaim) []))"

section \<open>The honest strategy\<close>

text \<open>The same without identifiers and without bookkeeping: whether a claim is one the honest actor stands for, whether it is to be countered, and
  by which move, each defined from the answers to these questions for its parent. \<open>get\<close> gives the value of the trace at a position.\<close>

type_synonym 'e getter = "Claim \<Rightarrow> Position \<Rightarrow> 'e + hash"

definition key :: "Claim \<Rightarrow> Position \<times> hash \<times> int" where
  "key c = (cl_Position c, cl_Value c, cl_ParentContractIndex c)"

definition agrees :: "'e getter \<Rightarrow> Claim \<Rightarrow> bool" where
  "agrees get c \<longleftrightarrow> get c (cl_Position c) = Inr (cl_Value c)"

definition answer :: "'e getter \<Rightarrow> Claim \<Rightarrow> Position \<Rightarrow> Claim" where
  "answer get c pos = new_claim (case get c pos of Inl _ \<Rightarrow> 0 | Inr v \<Rightarrow> v) pos (cl_ContractIndex c)"

definition strat_from :: "'e getter \<Rightarrow> u64 \<Rightarrow> Claim list \<Rightarrow> nat \<Rightarrow> bool \<Rightarrow> Claim option \<Rightarrow> bool \<times> bool \<times> Claim option" where
  "strat_from get D cs i hp mp =
     (let h = (if i = 0 then agrees get (cs ! 0) else (case mp of None \<Rightarrow> False | Some m \<Rightarrow> key m = key (cs ! i)));
          c = (\<not> h \<and> (i = 0 \<or> hp \<or> (case mp of None \<Rightarrow> False | Some m \<Rightarrow> ctix D cs i \<le> tix D (cl_Position m))));
          m = (if \<not> c \<or> cl_Depth (cs ! i) = D then None
               else if agrees get (cs ! i)
               then (if i = 0 then None else Some (answer get (cs ! i) (Defend (cl_Position (cs ! i)))))
               else Some (answer get (cs ! i) (Attack (cl_Position (cs ! i)))))
      in (h, c, m))"

fun strat :: "'e getter \<Rightarrow> u64 \<Rightarrow> Claim list \<Rightarrow> nat \<Rightarrow> bool \<times> bool \<times> Claim option" where
  "strat get D cs i =
     (if i = 0 \<or> \<not> pidx cs i < i then strat_from get D cs i False None
      else (case strat get D cs (pidx cs i) of (h, c, m) \<Rightarrow> strat_from get D cs i h m))"

declare strat.simps [simp del]

definition honest :: "'e getter \<Rightarrow> u64 \<Rightarrow> Claim list \<Rightarrow> nat \<Rightarrow> bool" where "honest get D cs i = fst (strat get D cs i)"
definition countered :: "'e getter \<Rightarrow> u64 \<Rightarrow> Claim list \<Rightarrow> nat \<Rightarrow> bool" where "countered get D cs i = fst (snd (strat get D cs i))"
definition plan :: "'e getter \<Rightarrow> u64 \<Rightarrow> Claim list \<Rightarrow> nat \<Rightarrow> Claim option" where "plan get D cs i = snd (snd (strat get D cs i))"

lemma strat_from_simps:
  "fst (strat_from get D cs i hp mp) \<longleftrightarrow> (if i = 0 then agrees get (cs ! 0) else (\<exists>m. mp = Some m \<and> key m = key (cs ! i)))"
  "fst (snd (strat_from get D cs i hp mp)) \<longleftrightarrow> \<not> fst (strat_from get D cs i hp mp) \<and>
     (i = 0 \<or> hp \<or> (\<exists>m. mp = Some m \<and> ctix D cs i \<le> tix D (cl_Position m)))"
  "snd (snd (strat_from get D cs i hp mp)) =
     (if \<not> fst (snd (strat_from get D cs i hp mp)) \<or> cl_Depth (cs ! i) = D then None
      else if agrees get (cs ! i) then (if i = 0 then None else Some (answer get (cs ! i) (Defend (cl_Position (cs ! i)))))
      else Some (answer get (cs ! i) (Attack (cl_Position (cs ! i)))))"
  by (auto simp: strat_from_def Let_def split: option.splits)

lemma strat_root:
  "honest get D cs 0 \<longleftrightarrow> agrees get (cs ! 0)" "countered get D cs 0 \<longleftrightarrow> \<not> agrees get (cs ! 0)"
  by (simp_all add: honest_def countered_def strat.simps [of get D cs 0] strat_from_simps)

lemma strat_eq: "\<exists>hp mp. strat get D cs i = strat_from get D cs i hp mp"
  by (subst strat.simps) (auto split: prod.splits)

lemma strat_child:
  assumes "wf_claims D cs" and "0 < i" and "i < length cs"
  shows "honest get D cs i \<longleftrightarrow> (\<exists>m. plan get D cs (pidx cs i) = Some m \<and> key m = key (cs ! i))"
    "countered get D cs i \<longleftrightarrow> \<not> honest get D cs i \<and>
       (honest get D cs (pidx cs i) \<or> (\<exists>m. plan get D cs (pidx cs i) = Some m \<and> ctix D cs i \<le> tix D (cl_Position m)))"
proof -
  have "strat get D cs i = strat_from get D cs i (honest get D cs (pidx cs i)) (plan get D cs (pidx cs i))"
    using wf_step(2) [OF assms] assms(2) by (subst strat.simps) (simp add: honest_def plan_def split: prod.splits)
  then show "honest get D cs i \<longleftrightarrow> (\<exists>m. plan get D cs (pidx cs i) = Some m \<and> key m = key (cs ! i))"
    "countered get D cs i \<longleftrightarrow> \<not> honest get D cs i \<and>
       (honest get D cs (pidx cs i) \<or> (\<exists>m. plan get D cs (pidx cs i) = Some m \<and> ctix D cs i \<le> tix D (cl_Position m)))"
    using assms(2) by (simp_all add: honest_def [of get D cs i] countered_def [of get D cs i] strat_from_simps)
qed

lemma plan_eq:
  "plan get D cs i =
     (if \<not> countered get D cs i \<or> cl_Depth (cs ! i) = D then None
      else if agrees get (cs ! i) then (if i = 0 then None else Some (answer get (cs ! i) (Defend (cl_Position (cs ! i)))))
      else Some (answer get (cs ! i) (Attack (cl_Position (cs ! i)))))"
proof -
  obtain hp mp where "strat get D cs i = strat_from get D cs i hp mp" using strat_eq by blast
  then show ?thesis by (simp add: plan_def countered_def strat_from_simps(3))
qed

lemma plan_Some_iff:
  "plan get D cs j = Some m \<longleftrightarrow> countered get D cs j \<and> cl_Depth (cs ! j) \<noteq> D \<and>
     (agrees get (cs ! j) \<and> j \<noteq> 0 \<and> m = answer get (cs ! j) (Defend (cl_Position (cs ! j))) \<or>
      \<not> agrees get (cs ! j) \<and> m = answer get (cs ! j) (Attack (cl_Position (cs ! j))))"
  unfolding plan_eq by auto

lemma not_honest_countered:
  assumes "wf_claims D cs" and "i < length cs" and "countered get D cs i"
  shows "\<not> honest get D cs i"
  using assms strat_root [of get D cs] strat_child(2) [OF assms(1) _ assms(2), of get] by (cases "i = 0") auto

lemma answer_simps [simp]:
  "cl_Position (answer get c pos) = pos" "cl_ParentContractIndex (answer get c pos) = cl_ContractIndex c"
  by (simp_all add: answer_def new_claim_def zero_Claim_def)

lemma answer_value: "get c pos = Inr v \<Longrightarrow> cl_Value (answer get c pos) = v"
  by (simp add: answer_def new_claim_def zero_Claim_def)

section \<open>The solver follows the strategy\<close>

text \<open>Claims are told apart by their identifiers: this is what the solver relies on. It is required of the claims of the game and of the moves that may be made in it.\<close>

definition candidates :: "'e getter \<Rightarrow> Claim list \<Rightarrow> Claim set" where
  "candidates get cs = {answer get c pos | c pos v. c \<in> set cs \<and>
     (pos = Attack (cl_Position c) \<or> \<not> IsRoot c \<and> pos = Defend (cl_Position c)) \<and> get c pos = Inr v}"

definition ids_ok :: "keccak \<Rightarrow> 'e getter \<Rightarrow> Claim list \<Rightarrow> bool" where
  "ids_ok K get cs \<longleftrightarrow> inj_on (claim_ID K) (set cs) \<and>
     (\<forall>m\<in>candidates get cs. \<forall>c\<in>set cs \<union> candidates get cs. claim_ID K m = claim_ID K c \<longrightarrow> key m = key c)"

lemma claim_ID_key: "key a = key b \<Longrightarrow> claim_ID K a = claim_ID K b"
  by (simp add: key_def claim_ID_def)

lemma ids_nth:
  assumes "ids_ok K get cs" and "wf_claims D cs" and "i < length cs" and "j < length cs" and "claim_ID K (cs ! i) = claim_ID K (cs ! j)"
  shows "i = j"
proof -
  have "cs ! i = cs ! j" using assms(1,3-5) by (auto simp: ids_ok_def dest: inj_onD)
  then have "cl_ContractIndex (cs ! i) = cl_ContractIndex (cs ! j)" by (rule arg_cong)
  then show ?thesis unfolding wf_index [OF assms(2,3)] wf_index [OF assms(2,4)] by simp
qed

text \<open>The trace was read without an error for the move in answer to claim \<open>j\<close>, and at claim \<open>j\<close> itself if it has one.\<close>

definition read_ok :: "'e getter \<Rightarrow> u64 \<Rightarrow> Claim list \<Rightarrow> nat \<Rightarrow> bool" where
  "read_ok get D cs j \<longleftrightarrow> (\<forall>m. plan get D cs j = Some m \<longrightarrow> get (cs ! j) (cl_Position m) = Inr (cl_Value m)) \<and>
     (countered get D cs j \<and> cl_Depth (cs ! j) \<noteq> D \<longrightarrow> (\<exists>v. get (cs ! j) (cl_Position (cs ! j)) = Inr v))"

lemma plan_candidate:
  assumes "wf_claims D cs" and "plan get D cs j = Some m" and "read_ok get D cs j" and "j < length cs"
  shows "m \<in> candidates get cs"
proof -
  obtain pos where pos: "m = answer get (cs ! j) pos" "pos = Attack (cl_Position (cs ! j)) \<or> j \<noteq> 0 \<and> pos = Defend (cl_Position (cs ! j))"
    using assms(2) unfolding plan_Some_iff by blast
  then have "get (cs ! j) pos = Inr (cl_Value m)" using assms(2,3) by (simp add: read_ok_def)
  then show ?thesis using pos nth_mem [OF assms(4)] wf_positions(5) [OF assms(1,4)] unfolding candidates_def by blast
qed

lemma plan_parent:
  assumes "wf_claims D cs" and "j < length cs" and "plan get D cs j = Some m"
  shows "cl_ParentContractIndex m = int j" "pos_depth (cl_Position m) = cl_Depth (cs ! j) + 1" "cl_Depth (cs ! j) < D"
    "cl_Position m = (if agrees get (cs ! j) then Defend (cl_Position (cs ! j)) else Attack (cl_Position (cs ! j)))"
    "agrees get (cs ! j) \<Longrightarrow> j \<noteq> 0" "countered get D cs j"
proof -
  from assms(3) have p: "countered get D cs j" "cl_Depth (cs ! j) \<noteq> D"
    "agrees get (cs ! j) \<and> j \<noteq> 0 \<and> m = answer get (cs ! j) (Defend (cl_Position (cs ! j))) \<or>
      \<not> agrees get (cs ! j) \<and> m = answer get (cs ! j) (Attack (cl_Position (cs ! j)))"
    unfolding plan_Some_iff by blast+
  show "cl_Depth (cs ! j) < D" using p(2) wf_positions(3) [OF assms(1,2)] by simp
  show "countered get D cs j" by (rule p(1))
  show "agrees get (cs ! j) \<Longrightarrow> j \<noteq> 0" using p(3) by blast
  show "cl_ParentContractIndex m = int j" using p(3) wf_index [OF assms(1,2)] by (elim disjE) simp_all
  show "cl_Position m = (if agrees get (cs ! j) then Defend (cl_Position (cs ! j)) else Attack (cl_Position (cs ! j)))"
    using p(3) by (elim disjE) simp_all
  then show "pos_depth (cl_Position m) = cl_Depth (cs ! j) + 1" by (simp add: Attack_simps Defend_simps)
qed

definition tracks :: "keccak \<Rightarrow> 'e getter \<Rightarrow> u64 \<Rightarrow> Claim list \<Rightarrow> nat \<Rightarrow> honestClaimTracker \<Rightarrow> bool" where
  "tracks K get D cs i tr \<longleftrightarrow>
     (\<forall>k. map_true (hct_agreed tr) k \<longleftrightarrow>
        honest get D cs 0 \<and> k = claim_ID K (cs ! 0) \<or> (\<exists>j<i. \<exists>m. plan get D cs j = Some m \<and> k = claim_ID K m)) \<and>
     (\<forall>j<length cs. hct_counters tr (claim_ID K (cs ! j)) = (if j < i then plan get D cs j else None)) \<and>
     (\<forall>j<i. read_ok get D cs j)"

lemma tracks_honest:
  assumes "tracks K get D cs i tr" and "ids_ok K get cs" and "wf_claims D cs" and "k \<le> i" and "k < length cs" and "i \<le> length cs"
  shows "IsHonest K (cs ! k) tr \<longleftrightarrow> honest get D cs k"
proof -
  have agreed: "IsHonest K (cs ! k) tr \<longleftrightarrow> honest get D cs 0 \<and> claim_ID K (cs ! k) = claim_ID K (cs ! 0) \<or>
      (\<exists>j<i. \<exists>m. plan get D cs j = Some m \<and> claim_ID K (cs ! k) = claim_ID K m)"
    using assms(1) by (simp add: tracks_def IsHonest_def)
  have moves: "0 < k \<and> j = pidx cs k \<and> key m = key (cs ! k)" if "j < i" "plan get D cs j = Some m" "claim_ID K (cs ! k) = claim_ID K m" for j m
  proof -
    have j: "j < length cs" using that(1) assms(6) by simp
    have "m \<in> candidates get cs" using assms(1) that(1,2) j by (auto simp: tracks_def intro: plan_candidate [OF assms(3)])
    then have e: "key m = key (cs ! k)" using assms(2,5) that(3) by (auto simp: ids_ok_def)
    have "cl_Depth (cs ! k) \<noteq> 0"
      using plan_parent(2,3) [OF assms(3) j that(2)] e unat_Suc_depth [of "cl_Depth (cs ! j)" D] by (auto simp: key_def unat_eq_0 [symmetric])
    then show ?thesis using e plan_parent(1) [OF assms(3) j that(2)] wf_positions(4) [OF assms(3,5)] by (auto simp: key_def)
  qed
  show ?thesis
  proof (cases "k = 0")
    case True
    then show ?thesis using agreed moves by auto
  next
    case False
    then have k: "0 < k" by simp
    have "pidx cs k < i" using wf_step(2) [OF assms(3) k assms(5)] assms(4) by simp
    moreover have "claim_ID K (cs ! k) \<noteq> claim_ID K (cs ! 0)"
      using ids_nth [OF assms(2,3,5), of 0] wf_root(1) [OF assms(3)] k by auto
    ultimately show ?thesis
      unfolding agreed strat_child(1) [OF assms(3) k assms(5)] using moves claim_ID_key by metis
  qed
qed

lemma shouldCounter_eq:
  assumes "tracks K get D cs i tr" and "ids_ok K get cs" and "wf_claims D cs" and "i < length cs"
  shows "shouldCounter K (NewGameState K cs D) (cs ! i) tr = Inr (countered get D cs i)"
proof -
  have h: "IsHonest K (cs ! i) tr \<longleftrightarrow> honest get D cs i" using tracks_honest [OF assms(1-3), of i] assms(4) by simp
  show ?thesis
  proof (cases "i = 0")
    case True
    then show ?thesis using h wf_positions(5) [OF assms(3,4)] strat_root [of get D cs] by (simp add: shouldCounter_def)
  next
    case False
    then have i: "0 < i" by simp
    let ?p = "pidx cs i"
    have p: "?p < i" "?p < length cs" using wf_step(2) [OF assms(3) i assms(4)] assms(4) by simp_all
    have hp: "IsHonest K (cs ! ?p) tr \<longleftrightarrow> honest get D cs ?p" using tracks_honest [OF assms(1-3), of ?p] p assms(4) by simp
    have c: "HonestCounter K (cs ! ?p) tr = plan get D cs ?p" using assms(1) p by (simp add: tracks_def HonestCounter_def)
    have g: "GetParent (NewGameState K cs D) (cs ! i) = Inr (cs ! ?p)"
      using getParent_wf [of D "NewGameState K cs D" i] assms(3,4) i by (simp add: GetParent_def)
    have t: "TraceIndex (cl_Position m) D = Some (tix D (cl_Position m))" if "plan get D cs ?p = Some m" for m
      using plan_parent(2,3) [OF assms(3) p(2) that] unat_Suc_depth [of "cl_Depth (cs ! ?p)" D]
      by (simp add: TraceIndex_tix word_less_nat_alt)
    have "TraceIndex (cl_Position (cs ! i)) D = Some (ctix D cs i)"
      using wf_positions(3) [OF assms(3,4)] by (simp add: TraceIndex_tix not_less)
    with i h hp c g t wf_positions(5) [OF assms(3,4)] strat_child(2) [OF assms(3) i assms(4), of get] show ?thesis
      by (auto simp: shouldCounter_def split: option.splits)
  qed
qed

text \<open>What the loop does for one claim: it proposes a move or a step, or there is nothing to do.\<close>

definition move_action :: "'e getter \<Rightarrow> Claim list \<Rightarrow> nat \<Rightarrow> Claim \<Rightarrow> ('o, 'ch) Action" where
  "move_action get cs i m = zero_Action\<lparr>act_Type := ActionTypeMove, act_IsAttack := \<not> agrees get (cs ! i), act_ParentClaim := cs ! i, act_Value := cl_Value m\<rparr>"

definition step_position :: "'e getter \<Rightarrow> Claim \<Rightarrow> Position" where
  "step_position get c = (if agrees get c then MoveRight (cl_Position c) else cl_Position c)"

definition step_action :: "'e getter \<Rightarrow> Claim list \<Rightarrow> nat \<Rightarrow> byte list \<times> byte list \<times> 'o option \<Rightarrow> ('o, 'ch) Action" where
  "step_action get cs i = (\<lambda>(pre, proof, oracle). zero_Action\<lparr>act_Type := ActionTypeStep, act_ParentClaim := cs ! i,
     act_IsAttack := \<not> agrees get (cs ! i), act_PreState := pre, act_ProofData := proof, act_OracleData := oracle\<rparr>)"

definition proposed :: "keccak \<Rightarrow> ('e, 'o, 'ch) TraceAccessor \<Rightarrow> u64 \<Rightarrow> Claim list \<Rightarrow> nat \<Rightarrow> ('o, 'ch) Action \<Rightarrow> bool" where
  "proposed K A D cs i a \<longleftrightarrow>
     (let g = NewGameState K cs D; get = ta_Get A g in
      (\<exists>m. plan get D cs i = Some m \<and> read_ok get D cs i \<and> claim_ID K m \<notin> claim_ID K ` set cs \<and> a = move_action get cs i m) \<or>
      (\<exists>d. cl_Depth (cs ! i) = D \<and> countered get D cs i \<and> cl_CounteredBy (cs ! i) = 0 \<and>
         (\<exists>v. get (cs ! i) (cl_Position (cs ! i)) = Inr v) \<and>
         ta_GetStepData A g (cs ! i) (step_position get (cs ! i)) = Inr d \<and> a = step_action get cs i d))"

definition settled :: "keccak \<Rightarrow> 'e getter \<Rightarrow> u64 \<Rightarrow> Claim list \<Rightarrow> nat \<Rightarrow> bool" where
  "settled K get D cs i \<longleftrightarrow>
     (cl_Depth (cs ! i) = D \<and> countered get D cs i \<longrightarrow> cl_CounteredBy (cs ! i) \<noteq> 0) \<and>
     (\<forall>m. plan get D cs i = Some m \<longrightarrow> (\<exists>k<length cs. key (cs ! k) = key m))"

lemma agreeWithClaim_Inr:
  "agreeWithClaim s g c = Inr b \<Longrightarrow> b = agrees (ta_Get (sv_trace s) g) c \<and> (\<exists>v. ta_Get (sv_trace s) g c (cl_Position c) = Inr v)"
  by (auto simp: agreeWithClaim_def and_then_Inr_iff trace_get_def agrees_def map_sum_Inr_iff)

lemma NextMove_Inr:
  assumes "tracks K get D cs i tr" and "ids_ok K get cs" and "wf_claims D cs" and "i < length cs"
    and "g = NewGameState K cs D" and "get = ta_Get (sv_trace s) g" and "sv_gameDepth s = D"
    and "NextMove K s (cs ! i) g tr = Inr mo"
  shows "mo = plan get D cs i \<and> read_ok get D cs i"
proof -
  note c = shouldCounter_eq [OF assms(1-4), folded assms(5)]
  have d: "cl_Depth (cs ! i) \<noteq> D" using assms(7,8) by (auto simp: NextMove_def)
  have r: "IsRoot (cs ! i) \<longleftrightarrow> i = 0" using wf_positions(5) [OF assms(3,4)] .
  show ?thesis
  proof (cases "countered get D cs i")
    case False
    then have "plan get D cs i = None" by (simp add: plan_eq)
    then show ?thesis using False d assms(7,8) by (simp add: NextMove_def c read_ok_def)
  next
    case True
    with assms(8) d assms(7) obtain b where b: "agreeWithClaim s g (cs ! i) = Inr b"
      "(if b then defend s g (cs ! i) else attack s g (cs ! i)) = Inr mo"
      by (auto simp: NextMove_def c and_then_Inr_iff)
    have ag: "b = agrees get (cs ! i)" "\<exists>v. get (cs ! i) (cl_Position (cs ! i)) = Inr v" using agreeWithClaim_Inr [OF b(1)] assms(6) by simp_all
    show ?thesis
    proof (cases "b \<and> i = 0")
      case True
      then have "mo = None" "plan get D cs i = None" using b(2) ag(1) r by (auto simp: defend_def plan_eq)
      then show ?thesis using ag(2) by (simp add: read_ok_def)
    next
      case False
      let ?pos = "if b then Defend (cl_Position (cs ! i)) else Attack (cl_Position (cs ! i))"
      from b(2) False r obtain v where v: "get (cs ! i) ?pos = Inr v" "mo = Some (new_claim v ?pos (cl_ContractIndex (cs ! i)))"
        by (cases b) (auto simp: attack_def defend_def Let_def and_then_Inr_iff trace_get_def map_sum_Inr_iff assms(6))
      then have "mo = Some (answer get (cs ! i) ?pos)" by (simp add: answer_def)
      moreover have "plan get D cs i = Some (answer get (cs ! i) ?pos)" using \<open>countered get D cs i\<close> d ag(1) False by (auto simp: plan_eq)
      ultimately show ?thesis using v(1) ag(2) by (simp add: read_ok_def answer_value)
    qed
  qed
qed

lemma tracks_add:
  assumes "tracks K get D cs i tr" and "ids_ok K get cs" and "wf_claims D cs" and "i < length cs"
    and "plan get D cs i = Some m" and "read_ok get D cs i"
  shows "tracks K get D cs (Suc i) (AddHonestClaim K (cs ! i) m tr)"
proof -
  have "cs ! i \<noteq> zero_Claim" using wf_positions(1) [OF assms(3,4)] by (auto simp: valid_position_def zero_Claim_def)
  then have a: "hct_agreed (AddHonestClaim K (cs ! i) m tr) = (hct_agreed tr)(claim_ID K m \<mapsto> True)"
    "hct_counters (AddHonestClaim K (cs ! i) m tr) = (hct_counters tr)(claim_ID K (cs ! i) \<mapsto> m)"
    by (simp_all add: AddHonestClaim_def Let_def)
  have "map_true (hct_agreed (AddHonestClaim K (cs ! i) m tr)) k \<longleftrightarrow> k = claim_ID K m \<or> map_true (hct_agreed tr) k" for k
    by (simp add: a map_true_def)
  moreover have "hct_counters (AddHonestClaim K (cs ! i) m tr) (claim_ID K (cs ! j)) = (if j < Suc i then plan get D cs j else None)"
    if "j < length cs" for j
    using assms(1,5) that ids_nth [OF assms(2,3) that assms(4)] by (auto simp: a tracks_def less_Suc_eq)
  ultimately show ?thesis using assms(1,5,6) by (auto simp: tracks_def less_Suc_eq)
qed

lemma tracks_skip: "tracks K get D cs i tr \<Longrightarrow> plan get D cs i = None \<Longrightarrow> read_ok get D cs i \<Longrightarrow> tracks K get D cs (Suc i) tr"
  by (auto simp: tracks_def less_Suc_eq)

lemma next_action_Inr:
  assumes "tracks K get D cs i tr" and "ids_ok K get cs" and "wf_claims D cs" and "i < length cs"
    and "g = NewGameState K cs D" and "get = ta_Get (sv_trace s) g" and "sv_gameDepth s = D"
    and "next_action K s g (cs ! i) tr = (Inr ao, tr')"
  shows "tracks K get D cs (Suc i) tr' \<and> (case ao of None \<Rightarrow> settled K get D cs i | Some a \<Rightarrow> proposed K (sv_trace s) D cs i a)"
proof (cases "cl_Depth (cs ! i) = D")
  case True
  note c = shouldCounter_eq [OF assms(1-4), folded assms(5)]
  have p: "plan get D cs i = None" using True by (simp add: plan_eq)
  have ro: "read_ok get D cs i" using True p by (simp add: read_ok_def)
  have st: "calculateStep K s g (cs ! i) tr = Inr ao" "tr' = tr" using assms(5,8) True by (auto simp: next_action_def)
  show ?thesis
  proof (cases "cl_CounteredBy (cs ! i) \<noteq> 0 \<or> \<not> countered get D cs i")
    case True
    have "AttemptStep K s g (cs ! i) tr = Inr None" if "\<not> countered get D cs i"
      using that \<open>cl_Depth (cs ! i) = D\<close> assms(7) by (simp add: AttemptStep_def c)
    then have "ao = None" using st(1) True by (auto simp: calculateStep_def split: if_splits)
    then show ?thesis using True p st(2) tracks_skip [OF assms(1) p ro] by (auto simp: settled_def)
  next
    case False
    then obtain b pre pf orc where b: "agreeWithClaim s g (cs ! i) = Inr b"
      "ta_GetStepData (sv_trace s) g (cs ! i) (if \<not> b then cl_Position (cs ! i) else MoveRight (cl_Position (cs ! i))) = Inr (pre, pf, orc)"
      "ao = Some (zero_Action\<lparr>act_Type := ActionTypeStep, act_ParentClaim := cs ! i, act_IsAttack := \<not> b, act_PreState := pre,
         act_ProofData := pf, act_OracleData := orc\<rparr>)"
      using st(1) True assms(7) by (auto simp: calculateStep_def AttemptStep_def c and_then_Inr_iff map_sum_Inr_iff Let_def)
    have "b = agrees get (cs ! i)" "\<exists>v. get (cs ! i) (cl_Position (cs ! i)) = Inr v" using agreeWithClaim_Inr [OF b(1)] assms(6) by simp_all
    with b False True assms(5,6) have "\<exists>a. ao = Some a \<and> proposed K (sv_trace s) D cs i a"
      by (auto simp: proposed_def Let_def step_position_def step_action_def)
    then show ?thesis using st(2) tracks_skip [OF assms(1) p ro] by auto
  qed
next
  case False
  then have "calculateMove K s g (cs ! i) tr = (Inr ao, tr')" using assms(5,8) by (simp add: next_action_def)
  then obtain mo where mo: "NextMove K s (cs ! i) g tr = Inr mo" by (auto simp: calculateMove_def split: sum.splits)
  have m: "mo = plan get D cs i" "read_ok get D cs i" using NextMove_Inr [OF assms(1-7) mo] by blast+
  show ?thesis
  proof (cases mo)
    case None
    then show ?thesis
      using \<open>calculateMove K s g (cs ! i) tr = (Inr ao, tr')\<close> mo m False tracks_skip [OF assms(1)] by (auto simp: calculateMove_def settled_def)
  next
    case (Some mv)
    then have p: "plan get D cs i = Some mv" using m by simp
    let ?tr = "AddHonestClaim K (cs ! i) mv tr"
    have t: "tracks K get D cs (Suc i) ?tr" using tracks_add [OF assms(1-4) p m(2)] .
    have dup: "IsDuplicate K g mv \<longleftrightarrow> claim_ID K mv \<in> claim_ID K ` set cs" using assms(5) by (simp add: IsDuplicate_iff)
    note pp = plan_parent [OF assms(3,4) p]
    have gp: "getParent g mv = Some (cs ! i)"
      using pp(1-3) unat_Suc_depth [OF pp(3)] assms(4,5) by (auto simp: getParent_def IsRoot_def IsRootPosition_def)
    have dp: "DefendsParent g mv = agrees get (cs ! i)"
      using gp pp(4) not_RightOf_Attack RightOf_Defend wf_positions(2) [OF assms(3,4)] by (simp add: DefendsParent_def)
    show ?thesis
    proof (cases "IsDuplicate K g mv")
      case True
      then have ao: "ao = None" "tr' = ?tr"
        using \<open>calculateMove K s g (cs ! i) tr = (Inr ao, tr')\<close> mo Some by (simp_all add: calculateMove_def Let_def)
      have "mv \<in> candidates get cs" using plan_candidate [OF assms(3) p m(2) assms(4)] .
      obtain c where c: "c \<in> set cs" "claim_ID K mv = claim_ID K c" using True unfolding dup by blast
      then have "key mv = key c" using \<open>mv \<in> candidates get cs\<close> assms(2) unfolding ids_ok_def by blast
      then have "\<exists>k<length cs. key (cs ! k) = key mv" using c(1) by (auto simp: in_set_conv_nth)
      then show ?thesis using ao t False p by (auto simp: settled_def)
    next
      case new: False
      then have "ao = Some (move_action get cs i mv)" "tr' = ?tr"
        using \<open>calculateMove K s g (cs ! i) tr = (Inr ao, tr')\<close> mo Some pp(1) assms(4,5) dp
        by (simp_all add: calculateMove_def Let_def move_action_def)
      then show ?thesis using t p m(2) new dup assms(5,6) by (auto simp: proposed_def Let_def)
    qed
  qed
qed

lemma next_actions_loop:
  assumes "tracks K get D cs i tr" and "ids_ok K get cs" and "wf_claims D cs" and "i \<le> length cs"
    and "g = NewGameState K cs D" and "get = ta_Get (sv_trace s) g" and "sv_gameDepth s = D"
    and "next_actions K s g (drop i cs) tr actions = (actions', err)"
  shows "\<exists>new. actions' = actions @ new \<and> (\<forall>a\<in>set new. \<exists>k<length cs. proposed K (sv_trace s) D cs k a \<and> (\<forall>j\<le>k. read_ok get D cs j)) \<and>
    (err = None \<and> new = [] \<longrightarrow> (\<forall>k<length cs. i \<le> k \<longrightarrow> settled K get D cs k))"
  using assms(1,4,8)
proof (induction "length cs - i" arbitrary: i tr actions)
  case 0
  then show ?case by simp
next
  case (Suc n)
  then have i: "i < length cs" by simp
  then have d: "drop i cs = cs ! i # drop (Suc i) cs" by (simp add: Cons_nth_drop_Suc)
  obtain r tr' where na: "next_action K s g (cs ! i) tr = (r, tr')" by force
  show ?case
  proof (cases r)
    case (Inl e)
    then show ?thesis using Suc.prems(3) na by (auto simp: d)
  next
    case (Inr ao)
    have st: "tracks K get D cs (Suc i) tr'" "case ao of None \<Rightarrow> settled K get D cs i | Some a \<Rightarrow> proposed K (sv_trace s) D cs i a"
      using next_action_Inr [OF Suc.prems(1) assms(2,3) i assms(5-7)] na Inr by blast+
    have "next_actions K s g (drop (Suc i) cs) tr' (case ao of None \<Rightarrow> actions | Some a \<Rightarrow> actions @ [a]) = (actions', err)"
      using Suc.prems(3) na Inr by (simp add: d split: option.splits)
    then obtain new where new: "actions' = (case ao of None \<Rightarrow> actions | Some a \<Rightarrow> actions @ [a]) @ new"
      "\<forall>a\<in>set new. \<exists>k<length cs. proposed K (sv_trace s) D cs k a \<and> (\<forall>j\<le>k. read_ok get D cs j)"
      "err = None \<and> new = [] \<longrightarrow> (\<forall>k<length cs. Suc i \<le> k \<longrightarrow> settled K get D cs k)"
      using Suc.hyps(1) [OF _ st(1)] Suc.hyps(2) i by fastforce
    show ?thesis
    proof (cases ao)
      case None
      have "settled K get D cs k" if "err = None \<and> new = []" "k < length cs" "i \<le> k" for k
        using new(3) that st(2) None by (cases "k = i") simp_all
      then show ?thesis using new(1,2) None by auto
    next
      case (Some a)
      have "\<forall>j\<le>i. read_ok get D cs j" using st(1) by (simp add: tracks_def less_Suc_eq_le)
      then show ?thesis using Some new st(2) i by (intro exI [of _ "a # new"]) auto
    qed
  qed
qed

lemma initial_tracks: "tracks K get D cs 0 (initial_tracker K (NewGameState K cs D) (agrees get (cs ! 0)))"
  by (auto simp: tracks_def initial_tracker_def strat_root AddHonestClaim_def newHonestClaimTracker_def map_true_def)

lemma CalculateNextActions_Inr:
  assumes "ids_ok K (ta_Get (sv_trace s) (NewGameState K cs D)) cs" and "wf_claims D cs" and "sv_gameDepth s = D"
    and "CalculateNextActions K s (NewGameState K cs D) = (actions, err)"
  shows "(\<forall>a\<in>set actions. act_Type a = ActionTypeChallengeL2BlockNumber \<or> 
      (\<exists>k<length cs. proposed K (sv_trace s) D cs k a \<and> (\<forall>j\<le>k. read_ok (ta_Get (sv_trace s) (NewGameState K cs D)) D cs j))) \<and>
    (err = None \<and> actions = [] \<longrightarrow> (\<forall>k<length cs. settled K (ta_Get (sv_trace s) (NewGameState K cs D)) D cs k))"
proof -
  let ?g = "NewGameState K cs D" and ?get = "ta_Get (sv_trace s) (NewGameState K cs D)"
  consider (error) e where "actions = []" "err = Some e"
    | (challenge) ch where "actions = [zero_Action\<lparr>act_Type := ActionTypeChallengeL2BlockNumber, act_InvalidL2BlockNumberChallenge := Some ch\<rparr>]"
    | (loop) b where "agreeWithClaim s ?g (cs ! 0) = Inr b" "next_actions K s ?g cs (initial_tracker K ?g b) [] = (actions, err)"
    using assms(4) wf_root(1) [OF assms(2)]
    by (cases cs) (auto simp: CalculateNextActions_def AgreeWithRootClaim_def split: sum.splits l2_answer.splits if_splits)
  then show ?thesis
  proof cases
    case (loop b)
    have "b = agrees ?get (cs ! 0)" using agreeWithClaim_Inr [OF loop(1)] by blast
    then show ?thesis
      using next_actions_loop [OF initial_tracks assms(1,2) _ refl refl assms(3), of "[]" actions err] loop(2) by auto
  qed auto
qed

end
