(* ===== verification/Trace_Access.thy ===== *)
theory Trace_Access
  imports Honest_Solver
begin

text \<open>
  Access to traces (\<open>op-challenger/game/fault/trace\<close>: \<open>access.go\<close>, \<open>translate.go\<close>, \<open>split/split.go\<close>). A split game has output roots in its upper part and a
  machine trace in its lower part; which machine trace depends on the claims above it. Providers of traces are parameters.
\<close>

section \<open>Definitions\<close>

datatype 'e access_error = ProviderError 'e | PositionError position_error | ErrRefClaimNotDeepEnough | AncestorNotFound | AccessPanic | AccessDiverges

record ('e, 'o, 'ch) TraceProvider =
  tp_Get :: "Position \<Rightarrow> 'e + hash"
  tp_GetStepData :: "Position \<Rightarrow> 'e + byte list \<times> byte list \<times> 'o option"
  tp_AbsolutePreStateCommitment :: "'e + hash"
  tp_GetL2BlockNumberChallenge :: "('e, 'ch) l2_answer"

subsection \<open>Translation of positions\<close>

text \<open>The errors of a translating provider are those of positions and those of the provider it wraps.\<close>

definition translated ::
  "u64 \<Rightarrow> (Position \<Rightarrow> 'e access_error + 'v) \<Rightarrow> Position \<Rightarrow> 'e access_error + 'v" where
  "translated rootDepth get pos = and_then (map_sum PositionError id (RelativeToAncestorAtDepth pos rootDepth)) get"

definition Translate ::
  "('e access_error, 'o, 'ch) TraceProvider \<Rightarrow> u64 \<Rightarrow> ('e access_error, 'o, 'ch) TraceProvider" where
  "Translate provider rootDepth =
     \<lparr>tp_Get = translated rootDepth (tp_Get provider), tp_GetStepData = translated rootDepth (tp_GetStepData provider),
      tp_AbsolutePreStateCommitment = tp_AbsolutePreStateCommitment provider,
      tp_GetL2BlockNumberChallenge = tp_GetL2BlockNumberChallenge provider\<rparr>"

subsection \<open>Accessors\<close>

type_synonym ('e, 'o, 'ch) ProviderSelector = "gameState \<Rightarrow> Claim \<Rightarrow> Position \<Rightarrow> 'e + ('e, 'o, 'ch) TraceProvider"

definition NewAccessor :: "('e, 'o, 'ch) ProviderSelector \<Rightarrow> ('e, 'o, 'ch) TraceAccessor" where
  "NewAccessor selector =
     \<lparr>ta_Get = (\<lambda>g ref pos. and_then (selector g ref pos) (\<lambda>provider. tp_Get provider pos)),
      ta_GetStepData = (\<lambda>g ref pos. and_then (selector g ref pos) (\<lambda>provider. tp_GetStepData provider pos)),
      ta_GetL2BlockNumberChallenge = (\<lambda>g. case gs_claims g of
          [] \<Rightarrow> L2CheckPanic
        | c # _ \<Rightarrow> (case selector g c RootPosition of Inl e \<Rightarrow> L2CheckFailed e | Inr provider \<Rightarrow> tp_GetL2BlockNumberChallenge provider))\<rparr>"

definition NewSimpleTraceAccessor :: "('e, 'o, 'ch) TraceProvider \<Rightarrow> ('e, 'o, 'ch) TraceAccessor" where
  "NewSimpleTraceAccessor trace = NewAccessor (\<lambda>_ _ _. Inr trace)"

subsection \<open>Split games\<close>

partial_function (option) findAncestorAtDepth :: "gameState \<Rightarrow> Claim \<Rightarrow> u64 \<Rightarrow> ('e access_error + Claim) option" where
  "findAncestorAtDepth g claim depth =
     (if cl_Depth claim > depth
      then (case GetParent g claim of Inl _ \<Rightarrow> Some (Inl AncestorNotFound) | Inr p \<Rightarrow> findAncestorAtDepth g p depth)
      else Some (Inr claim))"

partial_function (option) findAncestorWithTraceIndex :: "gameState \<Rightarrow> Claim \<Rightarrow> u64 \<Rightarrow> int \<Rightarrow> ('e access_error + Claim) option" where
  "findAncestorWithTraceIndex g candidate depth traceIdx =
     (case TraceIndex (cl_Position candidate) depth of
        None \<Rightarrow> Some (Inl AccessPanic)
      | Some t \<Rightarrow>
          if t \<noteq> traceIdx
          then (case GetParent g candidate of
                  Inl _ \<Rightarrow> Some (Inl AncestorNotFound) | Inr p \<Rightarrow> findAncestorWithTraceIndex g p depth traceIdx)
          else Some (Inr candidate))"

definition returned :: "('e access_error + 'a) option \<Rightarrow> 'e access_error + 'a" where
  "returned r = (case r of None \<Rightarrow> Inl AccessDiverges | Some x \<Rightarrow> x)"

definition index_of :: "Position \<Rightarrow> u64 \<Rightarrow> 'e access_error + int" where
  "index_of p depth = (case TraceIndex p depth of None \<Rightarrow> Inl AccessPanic | Some t \<Rightarrow> Inr t)"

text \<open>The claims before and after the disputed step of the upper game.\<close>

definition bracket :: "gameState \<Rightarrow> u64 \<Rightarrow> Claim \<Rightarrow> Position \<Rightarrow> 'e access_error + Claim \<times> Claim" where
  "bracket g topDepth topLeaf pos =
     and_then (index_of pos (pos_depth pos)) (\<lambda>posIdx.
     and_then (index_of (cl_Position topLeaf) (pos_depth pos)) (\<lambda>leafIdx.
     and_then (index_of (cl_Position topLeaf) topDepth) (\<lambda>leafTraceIdx.
     if posIdx > leafIdx
     then and_then (returned (findAncestorWithTraceIndex g topLeaf topDepth (leafTraceIdx + 1))) (\<lambda>post. Inr (topLeaf, post))
     else if leafTraceIdx = 0 then Inr (zero_Claim, topLeaf)
     else and_then (returned (findAncestorWithTraceIndex g topLeaf topDepth (leafTraceIdx - 1))) (\<lambda>pre. Inr (pre, topLeaf)))))"

type_synonym ('e, 'o, 'ch) ProviderCreator = "u64 \<Rightarrow> Claim \<Rightarrow> Claim \<Rightarrow> 'e access_error + ('e access_error, 'o, 'ch) TraceProvider"

definition NewSplitProviderSelector ::
  "('e access_error, 'o, 'ch) TraceProvider \<Rightarrow> u64 \<Rightarrow> ('e, 'o, 'ch) ProviderCreator \<Rightarrow> ('e access_error, 'o, 'ch) ProviderSelector" where
  "NewSplitProviderSelector topProvider topDepth bottomProviderCreator = (\<lambda>g ref pos.
     if pos_depth pos \<le> topDepth then Inr topProvider
     else if cl_Depth ref < topDepth then Inl ErrRefClaimNotDeepEnough
     else and_then (returned (findAncestorAtDepth g ref topDepth)) (\<lambda>topLeaf.
          and_then (bracket g topDepth topLeaf pos) (\<lambda>(pre, post).
          and_then (bottomProviderCreator (gs_depth g - topDepth - 1) pre post) (\<lambda>provider.
          Inr (Translate provider (topDepth + 1))))))"

section \<open>The claims around a step\<close>

lemma GetParent_wf:
  assumes "wf_claims D cs" and "0 < i" and "i < length cs"
  shows "GetParent (NewGameState K cs D) (cs ! i) = Inr (cs ! pidx cs i)"
  using getParent_wf [of D "NewGameState K cs D" i] assms by (simp add: GetParent_def)

lemma findAncestorAtDepth_wf:
  assumes "wf_claims D cs" and "i < length cs" and "T \<le> cl_Depth (cs ! i)"
  shows "\<exists>k. anc cs i k \<and> cl_Depth (cs ! k) = T \<and> findAncestorAtDepth (NewGameState K cs D) (cs ! i) T = Some (Inr (cs ! k))"
  using assms
proof (induction rule: wf_induct)
  case root
  have "cl_Depth (cs ! 0) = 0" using wf_root(2) [OF assms(1)] by simp
  with root show ?case by (intro exI [of _ 0]) (simp add: anc_refl findAncestorAtDepth.simps)
next
  case (child i)
  show ?case
  proof (cases "cl_Depth (cs ! i) = T")
    case True
    then show ?thesis by (intro exI [of _ i]) (simp add: anc_refl findAncestorAtDepth.simps [of _ "cs ! i"])
  next
    case False
    then have "T < cl_Depth (cs ! i)" using child(4) by simp
    moreover from this have "T \<le> cl_Depth (cs ! pidx cs i)"
      using wf_depth_Suc [OF assms(1) child(1,2)] by (simp add: word_less_nat_alt word_le_nat_alt)
    ultimately show ?thesis
      using child(3) GetParent_wf [OF assms(1) child(1,2)] anc_parent [OF child(1,2)]
      by (subst findAncestorAtDepth.simps) auto
  qed
qed

text \<open>Trace indices at the depth of the upper game and at the full depth compare alike.\<close>

lemma tix_scale:
  assumes "pos_depth p \<le> T" and "T \<le> D"
  shows "tix D p + 1 = (tix T p + 1) * 2 ^ (unat D - unat T)"
proof -
  have "unat D - unat (pos_depth p) = (unat T - unat (pos_depth p)) + (unat D - unat T)"
    using assms by (simp add: word_le_nat_alt)
  then show ?thesis by (simp add: tix_def pspan_def power_add algebra_simps)
qed

lemma findAncestorWithTraceIndex_wf:
  assumes "wf_claims D cs" and "k < length cs" and "anc cs k j" and "cl_Depth (cs ! k) \<le> T" and "T \<le> D"
  shows "findAncestorWithTraceIndex (NewGameState K cs D) (cs ! k) T (tix T (cl_Position (cs ! j))) = Some (Inr (cs ! j))"
  using assms(1-4)
proof (induction arbitrary: j rule: wf_induct)
  case root
  then have "j = 0" using anc_cases_iff [of 0 cs j] wf_root(1) [OF assms(1)] by simp
  then show ?case using root by (simp add: findAncestorWithTraceIndex.simps TraceIndex_tix not_less)
next
  case (child i)
  show ?case
  proof (cases "j = i")
    case True
    then show ?thesis using child(5) by (simp add: findAncestorWithTraceIndex.simps [of _ "cs ! i"] TraceIndex_tix not_less)
  next
    case False
    let ?p = "pidx cs i"
    have a: "anc cs ?p j" using child(2,4) False anc_cases_iff [of i cs j] by simp
    have dp: "cl_Depth (cs ! ?p) \<le> T"
      using child(5) wf_depth_Suc [OF assms(1) child(1,2)] by (simp add: word_le_nat_alt)
    have dj: "cl_Depth (cs ! j) \<le> cl_Depth (cs ! ?p)"
      using anc_depth [OF a assms(1)] wf_step(2) [OF assms(1) child(1,2)] child(2) by simp
    have "tix T (cl_Position (cs ! i)) \<noteq> tix T (cl_Position (cs ! j))"
      using anc_tix_neq [OF assms(1) child(2,4) False] tix_scale [OF child(5) assms(5)] tix_scale [of "cl_Position (cs ! j)" T D]
        order_trans [OF dj dp] assms(5) by auto
    then show ?thesis
      using child(3) [OF a dp] child(5) GetParent_wf [OF assms(1) child(1,2)]
      by (subst findAncestorWithTraceIndex.simps) (simp add: TraceIndex_tix not_less)
  qed
qed

section \<open>Properties\<close>

text \<open>The claims from a claim to the root.\<close>

definition path :: "Claim list \<Rightarrow> nat \<Rightarrow> Claim set" where
  "path cs k = {cs ! j | j. anc cs k j}"

text \<open>C12: The lower part of a split game is about one step of the upper trace. For every claim at or below the split depth and every position below it, the search
  ends, the selector finds the claim at the split depth on the path, and the lower trace is created between two claims of the path with adjacent
  trace indices, or between the absolute prestate and the first one. If the position is to the right of the claim at the split depth, that claim is the one before the step,
  otherwise it is the one after it.\<close>

theorem split_brackets_one_step:
  fixes create :: "('e, 'o, 'ch) ProviderCreator"
  assumes "wf_claims D cs" and "i < length cs" and "0 < T" and "T \<le> cl_Depth (cs ! i)" and "T < pos_depth pos"
  shows "\<exists>k pre post t p l. anc cs i k \<and> cl_Depth (cs ! k) = T \<and>
    NewSplitProviderSelector topProvider T create (NewGameState K cs D) (cs ! i) pos =
      and_then (create (D - T - 1) pre post) (\<lambda>provider. Inr (Translate provider (T + 1))) \<and>
    TraceIndex pos (pos_depth pos) = Some p \<and> TraceIndex (cl_Position (cs ! k)) (pos_depth pos) = Some l \<and>
    (if p \<le> l then post = cs ! k else pre = cs ! k) \<and> post \<in> path cs k \<and> TraceIndex (cl_Position post) T = Some t \<and>
    (t = 0 \<and> pre = zero_Claim \<or> pre \<in> path cs k \<and> TraceIndex (cl_Position pre) T = Some (t - 1))"
proof -
  let ?g = "NewGameState K cs D"
  obtain k where k: "anc cs i k" "cl_Depth (cs ! k) = T" "findAncestorAtDepth ?g (cs ! i) T = Some (Inr (cs ! k) :: 'e access_error + Claim)"
    using findAncestorAtDepth_wf [OF assms(1,2,4)] by blast
  have kl: "k < length cs" using anc_le [OF k(1) assms(1,2)] assms(2) by simp
  have k0: "k \<noteq> 0" using wf_positions(4) [OF assms(1) kl] k(2) assms(3) by auto
  have TD: "T \<le> D" using wf_positions(3) [OF assms(1) kl] k(2) by simp
  have sp: "cspan D cs k = 2 ^ (unat D - unat T)" using k(2) by (simp add: pspan_def)
  have nb: "findAncestorWithTraceIndex ?g (cs ! k) T (ctix T cs k + e) = Some (Inr (cs ! j) :: 'e access_error + Claim)" "TraceIndex (cl_Position (cs ! j)) T = Some (ctix T cs k + e)"
    if "anc cs k j" "ctix D cs j = ctix D cs k + e * cspan D cs k" for j e
  proof -
    have dj: "cl_Depth (cs ! j) \<le> T" using anc_depth [OF that(1) assms(1) kl] k(2) by simp
    have "(ctix T cs j + 1) * 2 ^ (unat D - unat T) = (ctix T cs k + e + 1) * 2 ^ (unat D - unat T)"
      using that(2) tix_scale [OF dj TD] tix_scale [of "cl_Position (cs ! k)" T D] k(2) TD by (simp add: sp algebra_simps)
    then have "ctix T cs j = ctix T cs k + e" by simp
    then show "findAncestorWithTraceIndex ?g (cs ! k) T (ctix T cs k + e) = Some (Inr (cs ! j) :: 'e access_error + Claim)" "TraceIndex (cl_Position (cs ! j)) T = Some (ctix T cs k + e)"
      using findAncestorWithTraceIndex_wf [OF assms(1) kl that(1), of T K] k(2) TD dj by (simp_all add: TraceIndex_tix not_less)
  qed
  have ix: "index_of pos (pos_depth pos) = (Inr (tix (pos_depth pos) pos) :: 'e access_error + int)" "index_of (cl_Position (cs ! k)) (pos_depth pos) = (Inr (tix (pos_depth pos) (cl_Position (cs ! k))) :: 'e access_error + int)"
    "index_of (cl_Position (cs ! k)) T = (Inr (ctix T cs k) :: 'e access_error + int)" "TraceIndex (cl_Position (cs ! k)) T = Some (ctix T cs k)"
    "TraceIndex pos (pos_depth pos) = Some (tix (pos_depth pos) pos)"
    "TraceIndex (cl_Position (cs ! k)) (pos_depth pos) = Some (tix (pos_depth pos) (cl_Position (cs ! k)))"
    using assms(5) k(2) by (auto simp: index_of_def TraceIndex_tix)
  have sel: "NewSplitProviderSelector topProvider T create ?g (cs ! i) pos =
      and_then (bracket ?g T (cs ! k) pos) (\<lambda>(pre, post). and_then (create (D - T - 1) pre post) (\<lambda>provider. Inr (Translate provider (T + 1))))"
  proof -
    have "\<not> pos_depth pos \<le> T" "\<not> cl_Depth (cs ! i) < T" using assms(4,5) by auto
    then show ?thesis using k(3) by (simp add: NewSplitProviderSelector_def returned_def)
  qed
  have "\<exists>pre post t. bracket ?g T (cs ! k) pos = (Inr (pre, post) :: 'e access_error + Claim \<times> Claim) \<and>
      (if tix (pos_depth pos) pos \<le> tix (pos_depth pos) (cl_Position (cs ! k)) then post = cs ! k else pre = cs ! k) \<and> post \<in> path cs k \<and>
      TraceIndex (cl_Position post) T = Some t \<and> (t = 0 \<and> pre = zero_Claim \<or> pre \<in> path cs k \<and> TraceIndex (cl_Position pre) T = Some (t - 1))"
  proof (cases "tix (pos_depth pos) (cl_Position (cs ! k)) < tix (pos_depth pos) pos")
    case True
    obtain j where j: "right_idx cs k = Some j" "j < k" "ctix D cs j = ctix D cs k + 1 * cspan D cs k"
      using right_tix [OF assms(1) kl] k0 by (auto split: option.splits)
    note n = nb [OF right_idx_anc [OF assms(1) kl j(1)] j(3)]
    then have "bracket ?g T (cs ! k) pos = (Inr (cs ! k, cs ! j) :: 'e access_error + Claim \<times> Claim)" using True by (simp add: bracket_def ix returned_def)
    moreover have "cs ! k \<in> path cs k" "cs ! j \<in> path cs k" using right_idx_anc [OF assms(1) kl j(1)] by (auto simp: path_def intro: anc_refl)
    ultimately show ?thesis using n(2) ix(4) True by auto
  next
    case False
    then have le: "tix (pos_depth pos) pos \<le> tix (pos_depth pos) (cl_Position (cs ! k))" by simp
    show ?thesis
    proof (cases "ctix T cs k = 0")
      case True
      then have "bracket ?g T (cs ! k) pos = (Inr (zero_Claim, cs ! k) :: 'e access_error + Claim \<times> Claim)" using False by (simp add: bracket_def ix)
      then show ?thesis using ix(4) True le anc_refl [of cs k] by (auto simp: path_def)
    next
      case nz: False
      have "left_idx cs k \<noteq> None"
      proof
        assume "left_idx cs k = None"
        then have "ctix D cs k + 1 = 2 ^ (unat D - unat T)" using left_tix [OF assms(1) kl] by (simp add: sp)
        then show False using nz tix_scale [of "cl_Position (cs ! k)" T D] k(2) TD by simp
      qed
      then obtain j where j: "left_idx cs k = Some j" "j < k" "ctix D cs j = ctix D cs k + (- 1) * cspan D cs k"
        using left_tix [OF assms(1) kl] by (auto split: option.splits)
      note n = nb [OF left_idx_anc [OF assms(1) kl j(1)] j(3)]
      then have "bracket ?g T (cs ! k) pos = (Inr (cs ! j, cs ! k) :: 'e access_error + Claim \<times> Claim)" using False nz by (simp add: bracket_def ix returned_def)
      moreover have "cs ! k \<in> path cs k" "cs ! j \<in> path cs k" using left_idx_anc [OF assms(1) kl j(1)] by (auto simp: path_def intro: anc_refl)
      ultimately show ?thesis using n(2) ix(4) le by auto
    qed
  qed
  then show ?thesis using k(1,2) sel ix(5,6) by (elim exE conjE) (intro exI conjI, assumption+, simp, assumption+)
qed

theorem split_brackets_one_step_witness:
  "\<exists>k pre post t p l. anc sample_game 4 k \<and> cl_Depth (sample_game ! k) = 2 \<and>
    NewSplitProviderSelector \<lparr>tp_Get = (\<lambda>_. Inr 0), tp_GetStepData = (\<lambda>_. Inr ([], [], None)), tp_AbsolutePreStateCommitment = Inr 0,
        tp_GetL2BlockNumberChallenge = ErrL2BlockNumberValid\<rparr> 2 (\<lambda>_ _ _. Inl AccessPanic :: unit access_error + (unit access_error, unit, unit) TraceProvider)
      (NewGameState (\<lambda>_. 0) sample_game 4) (sample_game ! 4) (NewPosition 4 10) = Inl AccessPanic \<and>
    TraceIndex (NewPosition 4 10) 4 = Some p \<and> TraceIndex (cl_Position (sample_game ! k)) 4 = Some l \<and>
    (if p \<le> l then post = sample_game ! k else pre = sample_game ! k) \<and> post \<in> path sample_game k \<and> TraceIndex (cl_Position post) 2 = Some t \<and>
    (t = 0 \<and> pre = zero_Claim \<or> pre \<in> path sample_game k \<and> TraceIndex (cl_Position pre) 2 = Some (t - 1))"
proof -
  have d: "pos_depth (NewPosition 4 10) = 4" by code_simp
  have "(4 :: nat) < length sample_game" "(2 :: u64) \<le> cl_Depth (sample_game ! 4)" "(2 :: u64) < pos_depth (NewPosition 4 10)" by code_simp+
  from split_brackets_one_step [OF sample_game_wf this(1) _ this(2,3), where create = "\<lambda>_ _ _. Inl AccessPanic :: unit access_error + (unit access_error, unit, unit) TraceProvider"
      and topProvider = "\<lparr>tp_Get = (\<lambda>_. Inr 0), tp_GetStepData = (\<lambda>_. Inr ([], [], None)), tp_AbsolutePreStateCommitment = Inr 0,
        tp_GetL2BlockNumberChallenge = ErrL2BlockNumberValid\<rparr>" and K = "\<lambda>_. 0"]
  show ?thesis unfolding d and_then_simps by simp
qed

end
