(* ===== verification/Solver_Rules.thy ===== *)
theory Solver_Rules
  imports Trace_Access
begin

text \<open>
  The rules that actions of an honest challenger must obey (\<open>op-challenger/game/fault/solver/rules.go\<close>), and that the solver obeys them
  in every well-formed game: no action is rejected by the contract, and no claim can be countered from a poisoned prestate.
\<close>

section \<open>Definitions\<close>

datatype rule_error = ParentDoesNotExist | ParentAtMaxDepth | ParentNotAtMaxDepth | CreatingDuplicateClaim | AlreadyCountered |
  DefendingRootClaim | CounteringOwnClaim | NoParentOfClaim | NoCorrectValue | PrestatePoisoned | NoPoststate | FailedStep | NoPrestate |
  SteppingFromPoisonedPrestate | PostingLeafWithPoisonedPrestate | PrestateHashMismatch

datatype rule_result = RuleOk | RuleError rule_error | RulePanic | RuleDiverges

definition challengerAddr :: address where "challengerAddr = 0xaaaaaaaaaaaaaaaaaaaaaaaaaaaaaaaaaaaaaaaa"

text \<open>\<open>game.Claims()[action.ParentClaim.ContractIndex]\<close>, which panics out of range.\<close>

definition with_parent :: "gameState \<Rightarrow> ('o, 'ch) Action \<Rightarrow> (Claim \<Rightarrow> rule_result) \<Rightarrow> rule_result" where
  "with_parent g action f =
     (let i = cl_ContractIndex (act_ParentClaim action) in
      if i < 0 \<or> i \<ge> int (length (gs_claims g)) then RulePanic else f (gs_claims g ! nat i))"

definition with_index :: "Position \<Rightarrow> u64 \<Rightarrow> (int \<Rightarrow> rule_result) \<Rightarrow> rule_result" where
  "with_index p depth f = (case TraceIndex p depth of None \<Rightarrow> RulePanic | Some t \<Rightarrow> f t)"

definition with_value :: "('e, 'o, 'ch) TraceProvider \<Rightarrow> Position \<Rightarrow> (hash \<Rightarrow> rule_result) \<Rightarrow> rule_result" where
  "with_value P p f = (case tp_Get P p of Inl _ \<Rightarrow> RuleError NoCorrectValue | Inr v \<Rightarrow> f v)"

definition check :: "bool \<Rightarrow> rule_error \<Rightarrow> rule_result" where
  "check broken e = (if broken then RuleError e else RuleOk)"

definition resultingPosition :: "Claim \<Rightarrow> ('o, 'ch) Action \<Rightarrow> Position" where
  "resultingPosition parent action =
     (let parentPos = cl_Position parent in
      if act_Type action = ActionTypeStep then parentPos
      else if act_IsAttack action then Attack parentPos else Defend parentPos)"

definition parentMustExist :: "gameState \<Rightarrow> ('o, 'ch) Action \<Rightarrow> rule_result" where
  "parentMustExist g action =
     check (int (length (gs_claims g)) \<le> cl_ContractIndex (act_ParentClaim action) \<or> cl_ContractIndex (act_ParentClaim action) < 0)
       ParentDoesNotExist"

definition onlyStepAtMaxDepth :: "gameState \<Rightarrow> ('o, 'ch) Action \<Rightarrow> rule_result" where
  "onlyStepAtMaxDepth g action =
     (if act_Type action = ActionTypeStep then RuleOk
      else with_parent g action (\<lambda>parent. check (cl_Depth parent \<ge> gs_depth g) ParentAtMaxDepth))"

definition onlyMoveBeforeMaxDepth :: "gameState \<Rightarrow> ('o, 'ch) Action \<Rightarrow> rule_result" where
  "onlyMoveBeforeMaxDepth g action =
     (if act_Type action = ActionTypeMove then RuleOk
      else with_parent g action (\<lambda>parent. check (cl_Depth parent < gs_depth g) ParentNotAtMaxDepth))"

definition doNotDuplicateExistingMoves :: "keccak \<Rightarrow> gameState \<Rightarrow> ('o, 'ch) Action \<Rightarrow> rule_result" where
  "doNotDuplicateExistingMoves K g action =
     with_parent g action (\<lambda>parent.
       check (IsDuplicate K g (new_claim (act_Value action) (resultingPosition parent action) (cl_ContractIndex (act_ParentClaim action))))
         CreatingDuplicateClaim)"

definition doNotStepAlreadyCounteredClaims :: "gameState \<Rightarrow> ('o, 'ch) Action \<Rightarrow> rule_result" where
  "doNotStepAlreadyCounteredClaims g action =
     with_parent g action (\<lambda>claim. check (cl_CounteredBy claim \<noteq> 0) AlreadyCountered)"

definition doNotDefendRootClaim :: "gameState \<Rightarrow> ('o, 'ch) Action \<Rightarrow> rule_result" where
  "doNotDefendRootClaim g action =
     with_parent g action (\<lambda>parent. check (IsRootPosition (cl_Position parent) \<and> \<not> act_IsAttack action) DefendingRootClaim)"

definition doNotCounterSelf :: "gameState \<Rightarrow> ('o, 'ch) Action \<Rightarrow> rule_result" where
  "doNotCounterSelf g action =
     with_parent g action (\<lambda>claim. check (cl_Claimant claim = challengerAddr) CounteringOwnClaim)"

text \<open>The walk up the ancestors that keeps the claim with the highest trace index to the left.\<close>

datatype walk = WalkDone Claim | WalkNoParent | WalkPanic

partial_function (option) prestate_walk :: "gameState \<Rightarrow> int \<Rightarrow> Claim \<Rightarrow> Claim \<Rightarrow> walk option" where
  "prestate_walk g honestTraceIndex claim preStateClaim =
     (case TraceIndex (cl_Position claim) (gs_depth g) of
        None \<Rightarrow> Some WalkPanic
      | Some claimTraceIdx \<Rightarrow>
         (let keep = (if claimTraceIdx < honestTraceIndex
                      then (if preStateClaim = zero_Claim then Some claim
                            else case TraceIndex (cl_Position preStateClaim) (gs_depth g) of
                                   None \<Rightarrow> None
                                 | Some t \<Rightarrow> Some (if claimTraceIdx > t then claim else preStateClaim))
                      else Some preStateClaim)
          in case keep of
               None \<Rightarrow> Some WalkPanic
             | Some preStateClaim \<Rightarrow>
                 if IsRoot claim then Some (WalkDone preStateClaim)
                 else (case GetParent g claim of
                         Inl _ \<Rightarrow> Some WalkNoParent
                       | Inr parent \<Rightarrow> prestate_walk g honestTraceIndex parent preStateClaim)))"

definition avoidPoisonedPrestate :: "gameState \<Rightarrow> ('o, 'ch) Action \<Rightarrow> ('e, 'o, 'ch) TraceProvider \<Rightarrow> rule_result" where
  "avoidPoisonedPrestate g action correctTrace =
     (if act_Type action = ActionTypeStep then RuleOk
      else with_parent g action (\<lambda>parent.
           with_index (resultingPosition parent action) (gs_depth g) (\<lambda>honestTraceIndex.
           case prestate_walk g honestTraceIndex parent zero_Claim of
             None \<Rightarrow> RuleDiverges
           | Some WalkPanic \<Rightarrow> RulePanic
           | Some WalkNoParent \<Rightarrow> RuleError NoParentOfClaim
           | Some (WalkDone preStateClaim) \<Rightarrow>
               if preStateClaim = zero_Claim then RuleOk
               else with_value correctTrace (cl_Position preStateClaim) (\<lambda>correctValue.
                    check (correctValue \<noteq> cl_Value preStateClaim) PrestatePoisoned))))"

definition with_ancestor :: "gameState \<Rightarrow> Claim \<Rightarrow> int \<Rightarrow> rule_error \<Rightarrow> (Claim \<Rightarrow> rule_result) \<Rightarrow> rule_result" where
  "with_ancestor g claim t e f =
     (case AncestorWithTraceIndex g claim t of
        None \<Rightarrow> RuleDiverges
      | Some AncestorPanic \<Rightarrow> RulePanic
      | Some AncestorMissing \<Rightarrow> RuleError e
      | Some (AncestorFound c) \<Rightarrow> f c)"

definition detectFailedStep :: "gameState \<Rightarrow> ('o, 'ch) Action \<Rightarrow> ('e, 'o, 'ch) TraceProvider \<Rightarrow> rule_result" where
  "detectFailedStep g action correctTrace =
     (if act_Type action \<noteq> ActionTypeStep then RuleOk
      else with_parent g action (\<lambda>claim.
           let position = resultingPosition claim action in
           if pos_depth position \<noteq> gs_depth g then RuleOk
           else with_index position (gs_depth g) (\<lambda>honestTraceIndex.
           let poststateIndex = (if \<not> act_IsAttack action then honestTraceIndex + 1 else honestTraceIndex) in
           with_ancestor g claim poststateIndex NoPoststate (\<lambda>poststateClaim.
           with_value correctTrace (cl_Position poststateClaim) (\<lambda>correctValue.
           let validStep = correctValue = cl_Value poststateClaim;
               parentPostAgree = (cl_Depth claim - cl_Depth poststateClaim) mod 2 = 0
           in check (parentPostAgree = validStep) FailedStep)))))"

definition detectPoisonedStepPrestate ::
  "keccak \<Rightarrow> gameState \<Rightarrow> ('o, 'ch) Action \<Rightarrow> ('e, 'o, 'ch) TraceProvider \<Rightarrow> rule_result" where
  "detectPoisonedStepPrestate K g action correctTrace =
     with_parent g action (\<lambda>claim.
       let position = resultingPosition claim action in
       if pos_depth position \<noteq> gs_depth g then RuleOk
       else with_index position (gs_depth g) (\<lambda>honestTraceIndex.
       let prestateIndex = (if act_IsAttack action \<or> act_Type action = ActionTypeMove then honestTraceIndex - 1 else honestTraceIndex) in
       if prestateIndex < 0 then RuleOk
       else with_ancestor g claim prestateIndex NoPrestate (\<lambda>preStateClaim.
       with_value correctTrace (cl_Position preStateClaim) (\<lambda>correctValue.
       if correctValue \<noteq> cl_Value preStateClaim
       then RuleError (if act_Type action = ActionTypeStep then SteppingFromPoisonedPrestate else PostingLeafWithPoisonedPrestate)
       else check (act_Type action = ActionTypeStep \<and> drop 1 (bytes32 (K (act_PreState action))) \<noteq> drop 1 (bytes32 (cl_Value preStateClaim)))
              PrestateHashMismatch))))"

definition rules :: "keccak \<Rightarrow> gameState \<Rightarrow> ('o, 'ch) Action \<Rightarrow> ('e, 'o, 'ch) TraceProvider \<Rightarrow> rule_result list" where
  "rules K g action correctTrace =
     [parentMustExist g action, onlyStepAtMaxDepth g action, onlyMoveBeforeMaxDepth g action, doNotDuplicateExistingMoves K g action,
      doNotStepAlreadyCounteredClaims g action, doNotDefendRootClaim g action, avoidPoisonedPrestate g action correctTrace,
      detectPoisonedStepPrestate K g action correctTrace, detectFailedStep g action correctTrace, doNotCounterSelf g action]"

text \<open>All rules are evaluated and their errors joined; a panic or a rule that does not return ends the evaluation.\<close>

datatype outcome = Errors "rule_error list" | Panics | Diverges

fun join_rules :: "rule_result list \<Rightarrow> outcome" where
  "join_rules [] = Errors []"
| "join_rules (r # rs) =
     (case r of
        RulePanic \<Rightarrow> Panics
      | RuleDiverges \<Rightarrow> Diverges
      | RuleOk \<Rightarrow> join_rules rs
      | RuleError e \<Rightarrow> (case join_rules rs of Errors es \<Rightarrow> Errors (e # es) | r \<Rightarrow> r))"

definition checkRules :: "keccak \<Rightarrow> gameState \<Rightarrow> ('o, 'ch) Action \<Rightarrow> ('e, 'o, 'ch) TraceProvider \<Rightarrow> outcome" where
  "checkRules K g action correctTrace = join_rules (rules K g action correctTrace)"

section \<open>The claims around an honest move\<close>

text \<open>With one trace for the whole game, the value at a position does not depend on the claim in question.\<close>

abbreviation simple :: "('e, 'o, 'ch) TraceProvider \<Rightarrow> 'e getter" where "simple P \<equiv> (\<lambda>_ pos. tp_Get P pos)"

abbreviation correct :: "('e, 'o, 'ch) TraceProvider \<Rightarrow> Claim list \<Rightarrow> nat \<Rightarrow> bool" where "correct P cs i \<equiv> agrees (simple P) (cs ! i)"

lemma honest_correct:
  assumes "wf_claims D cs" and "i < length cs" and "honest (simple P) D cs i" and "\<forall>j<i. read_ok (simple P) D cs j"
  shows "correct P cs i"
proof (cases "i = 0")
  case True
  then show ?thesis using assms(3) by (simp add: strat_root)
next
  case False
  then obtain m where m: "plan (simple P) D cs (pidx cs i) = Some m" "key m = key (cs ! i)"
    using strat_child(1) [OF assms(1) _ assms(2), of "simple P"] assms(3) by auto
  moreover have "pidx cs i < i" using wf_step(2) [OF assms(1) _ assms(2)] False by simp
  ultimately have "tp_Get P (cl_Position m) = Inr (cl_Value m)" using assms(4) by (auto simp: read_ok_def)
  then show ?thesis using m(2) by (simp add: agrees_def key_def)
qed

text \<open>A counter that is not to the left of claim \<open>i\<close> stands at the position of claim \<open>i\<close>, or the claim attacks a correct parent.\<close>

lemma attack_left_of_defence:
  assumes "wf_claims D cs" and "0 < i" and "i < length cs" and "plan get D cs (pidx cs i) = Some m" and "\<not> agrees get (cs ! pidx cs i)"
    and "ctix D cs i = ctix D cs (pidx cs i) + cspan D cs i"
  shows "tix D (cl_Position m) < ctix D cs i"
proof -
  let ?p = "pidx cs i"
  have p: "?p < length cs" using wf_step(2) [OF assms(1-3)] assms(3) by simp
  have a: "cl_Position m = Attack (cl_Position (cs ! ?p))" using plan_parent(4) [OF assms(1) p assms(4)] assms(5) by simp
  show ?thesis
    unfolding a using tix_Attack [OF plan_parent(3) [OF assms(1) p assms(4)]] assms(6) pspan_pos [of D "Attack (cl_Position (cs ! ?p))"]
      pspan_pos [of D "cl_Position (cs ! i)"] by linarith
qed

lemma child_of_plan:
  assumes "wf_claims D cs" and "0 < i" and "i < length cs" and "plan get D cs (pidx cs i) = Some m" and "ctix D cs i \<le> tix D (cl_Position m)"
  shows "cl_Position (cs ! i) = cl_Position m \<or> agrees get (cs ! pidx cs i) \<and> cl_Position (cs ! i) = Attack (cl_Position (cs ! pidx cs i))"
proof -
  have p: "pidx cs i < length cs" using wf_step(2) [OF assms(1-3)] assms(3) by simp
  note m = plan_parent(4) [OF assms(1) p assms(4)]
  show ?thesis
    using assms(1-3)
  proof (cases rule: wf_child_cases)
    case attack
    then show ?thesis using m by simp
  next
    case defend
    then show ?thesis using m attack_left_of_defence [OF assms(1-4) _ defend(5)] assms(5) by auto
  qed
qed

lemma same_key:
  assumes "wf_claims D cs" and "0 < i" and "i < length cs" and "plan (simple P) D cs (pidx cs i) = Some m" and "read_ok (simple P) D cs (pidx cs i)"
    and "cl_Position (cs ! i) = cl_Position m" and "correct P cs i"
  shows "honest (simple P) D cs i"
proof -
  have p: "pidx cs i < length cs" "0 \<le> cl_ParentContractIndex (cs ! i)" using wf_step [OF assms(1-3)] assms(3) by auto
  have "cl_ParentContractIndex m = cl_ParentContractIndex (cs ! i)" using plan_parent(1) [OF assms(1) p(1) assms(4)] p(2) by simp
  moreover have "cl_Value m = cl_Value (cs ! i)" using assms(4-7) by (auto simp: read_ok_def agrees_def)
  ultimately show ?thesis using strat_child(1) [OF assms(1-3), of "simple P"] assms(4,6) by (auto simp: key_def)
qed

text \<open>The nearest claim to the left of an honest claim, or of one to be countered, is correct.\<close>

lemma left_correct:
  assumes "wf_claims D cs" and "i < length cs" and "\<forall>j<i. read_ok (simple P) D cs j"
    and "honest (simple P) D cs i \<or> countered (simple P) D cs i" and "left_idx cs i = Some j"
  shows "correct P cs j"
  using assms
proof (induction arbitrary: j rule: wf_induct)
  case root
  then show ?case by (simp add: left_idx.simps)
next
  case (child i)
  let ?p = "pidx cs i" and ?get = "simple P"
  have pl: "?p < i" "?p < length cs" using wf_step(2) [OF assms(1) child(1,2)] child(2) by simp_all
  note st = strat_child [OF assms(1) child(1,2), of ?get]
  have r: "\<forall>j<?p. read_ok ?get D cs j" using child(4) pl(1) by simp
  have act: "honest ?get D cs ?p \<or> countered ?get D cs ?p"
    using st child(5) plan_parent(6) [OF assms(1) pl(2), of ?get] by blast
  show ?case
    using assms(1) child(1,2)
  proof (cases rule: wf_child_cases)
    case attack
    then show ?thesis using child(3) [OF r act] child(6) by simp
  next
    case defend
    have "correct P cs ?p"
    proof (rule ccontr)
      assume n: "\<not> correct P cs ?p"
      then have "\<not> honest ?get D cs ?p" using honest_correct [OF assms(1) pl(2) _ r] by blast
      then obtain m where m: "plan ?get D cs ?p = Some m" "key m = key (cs ! i) \<or> ctix D cs i \<le> tix D (cl_Position m)"
        using st child(5) by blast
      have a: "cl_Position m = Attack (cl_Position (cs ! ?p))" using plan_parent(4) [OF assms(1) pl(2) m(1)] n by simp
      then have "cl_Position (cs ! i) \<noteq> cl_Position m" using defend(3) not_RightOf_Attack by auto
      moreover have "tix D (cl_Position m) < ctix D cs i"
        using attack_left_of_defence [OF assms(1) child(1,2) m(1) n defend(5)] .
      ultimately show False using m(2) by (auto simp: key_def)
    qed
    then show ?thesis using defend(6) child(6) by simp
  qed
qed

text \<open>The nearest claim to the right agrees with an honest claim if their levels do, and with a correct claim that is to be countered if their levels do not.\<close>

lemma right_parity:
  assumes "wf_claims D cs" and "i < length cs" and "\<forall>j<i. read_ok (simple P) D cs j" and "right_idx cs i = Some j"
  shows "(honest (simple P) D cs i \<longrightarrow> (correct P cs j \<longleftrightarrow> even (unat (cl_Depth (cs ! i)) + unat (cl_Depth (cs ! j))))) \<and>
    (countered (simple P) D cs i \<and> correct P cs i \<longrightarrow> (correct P cs j \<longleftrightarrow> odd (unat (cl_Depth (cs ! i)) + unat (cl_Depth (cs ! j)))))"
  using assms
proof (induction arbitrary: j rule: wf_induct)
  case root
  then show ?case by (simp add: right_idx.simps)
next
  case (child i)
  let ?p = "pidx cs i" and ?get = "simple P"
  have pl: "?p < i" "?p < length cs" using wf_step(2) [OF assms(1) child(1,2)] child(2) by simp_all
  note st = strat_child [OF assms(1) child(1,2), of ?get]
  have r: "\<forall>j<?p. read_ok ?get D cs j" "read_ok ?get D cs ?p" using child(4) pl(1) by simp_all
  have d: "unat (cl_Depth (cs ! i)) = Suc (unat (cl_Depth (cs ! ?p)))" using wf_depth_Suc [OF assms(1) child(1,2)] .
  have hp: "honest ?get D cs ?p \<Longrightarrow> correct P cs ?p" using honest_correct [OF assms(1) pl(2) _ r(1)] .
  have other: "honest ?get D cs ?p \<or> correct P cs ?p \<and> cl_Position (cs ! i) = Attack (cl_Position (cs ! ?p))"
    if "countered ?get D cs i" "correct P cs i"
    using that st child_of_plan [OF assms(1) child(1,2)] same_key [OF assms(1) child(1,2) _ r(2)] by blast
  show ?case
    using assms(1) child(1,2)
  proof (cases rule: wf_child_cases)
    case attack
    have "\<not> correct P cs ?p" if h: "honest ?get D cs i"
    proof -
      obtain m where m: "plan ?get D cs ?p = Some m" "key m = key (cs ! i)" using h st(1) by blast
      then have "cl_Position m = cl_Position (cs ! i)" by (simp add: key_def)
      then show ?thesis
        using plan_parent(4) [OF assms(1) pl(2) m(1)] attack(2) RightOf_Defend [OF wf_positions(2) [OF assms(1) pl(2)]] by auto
    qed
    moreover have "j = ?p" using attack(6) child(5) by simp
    ultimately show ?thesis using d hp other by auto
  next
    case defend
    have rj: "right_idx cs ?p = Some j" using defend(7) child(5) by simp
    have "countered ?get D cs ?p \<and> correct P cs ?p" if h: "honest ?get D cs i"
    proof -
      obtain m where m: "plan ?get D cs ?p = Some m" "key m = key (cs ! i)" using h st(1) by blast
      then have "cl_Position m = cl_Position (cs ! i)" by (simp add: key_def)
      then show ?thesis using plan_parent(4,6) [OF assms(1) pl(2) m(1)] defend(3) not_RightOf_Attack by (metis (full_types))
    qed
    moreover have "honest ?get D cs ?p" if "countered ?get D cs i" "correct P cs i"
      using other [OF that] defend(3) not_RightOf_Attack by auto
    ultimately show ?thesis using child(3) [OF r(1) rj] d by auto
  qed
qed

section \<open>The searches of the rules\<close>

lemma wf_TraceIndex: "wf_claims D cs \<Longrightarrow> i < length cs \<Longrightarrow> TraceIndex (cl_Position (cs ! i)) D = Some (ctix D cs i)"
  using wf_positions(3) [of D cs i] by (simp add: TraceIndex_tix not_less)

lemma wf_not_zero: "wf_claims D cs \<Longrightarrow> i < length cs \<Longrightarrow> cs ! i \<noteq> zero_Claim"
  using wf_positions(1) [of D cs i] by (auto simp: valid_position_def zero_Claim_def)

lemma walk_zero:
  assumes "wf_claims D cs" and "i < length cs"
  shows "prestate_walk (NewGameState K cs D) t (cs ! i) zero_Claim =
    (let pre = (if ctix D cs i < t then cs ! i else zero_Claim)
     in if i = 0 then Some (WalkDone pre) else prestate_walk (NewGameState K cs D) t (cs ! pidx cs i) pre)"
  using wf_TraceIndex [OF assms] wf_positions(5) [OF assms] GetParent_wf [OF assms(1) _ assms(2), of K]
  by (subst prestate_walk.simps) (auto simp: Let_def)

lemma walk_claim:
  assumes "wf_claims D cs" and "i < length cs" and "b < length cs"
  shows "prestate_walk (NewGameState K cs D) t (cs ! i) (cs ! b) =
    (let pre = (if ctix D cs i < t \<and> ctix D cs b < ctix D cs i then cs ! i else cs ! b)
     in if i = 0 then Some (WalkDone pre) else prestate_walk (NewGameState K cs D) t (cs ! pidx cs i) pre)"
  using wf_TraceIndex [OF assms(1,2)] wf_TraceIndex [OF assms(1,3)] wf_positions(5) [OF assms(1,2)]
    GetParent_wf [OF assms(1) _ assms(2), of K] wf_not_zero [OF assms(1,3)]
  by (subst prestate_walk.simps) (auto simp: Let_def)

lemma walk_keeps:
  assumes "wf_claims D cs" and "i < length cs" and "b < length cs" and "\<And>j. anc cs i j \<Longrightarrow> ctix D cs j < t \<Longrightarrow> ctix D cs j \<le> ctix D cs b"
  shows "prestate_walk (NewGameState K cs D) t (cs ! i) (cs ! b) = Some (WalkDone (cs ! b))"
  using assms(1,2,4)
proof (induction rule: wf_induct)
  case root
  then show ?case using wf_root(1) [OF assms(1)] anc_refl [of cs 0] by (fastforce simp: walk_claim [OF assms(1) _ assms(3)])
next
  case (child i)
  have "\<not> (ctix D cs i < t \<and> ctix D cs b < ctix D cs i)" using child(4) [OF anc_refl] by linarith
  moreover have "prestate_walk (NewGameState K cs D) t (cs ! pidx cs i) (cs ! b) = Some (WalkDone (cs ! b))"
    using child(3,4) anc_parent [OF child(1,2)] by blast
  ultimately show ?case using child(1) by (auto simp: walk_claim [OF assms(1) child(2) assms(3)] Let_def)
qed

lemma walk_none:
  assumes "wf_claims D cs" and "i < length cs" and "\<And>j. anc cs i j \<Longrightarrow> t \<le> ctix D cs j"
  shows "prestate_walk (NewGameState K cs D) t (cs ! i) zero_Claim = Some (WalkDone zero_Claim)"
  using assms
proof (induction rule: wf_induct)
  case root
  then show ?case using wf_root(1) [OF assms(1)] anc_refl [of cs 0] by (fastforce simp: walk_zero [OF assms(1)])
next
  case (child i)
  have "\<not> ctix D cs i < t" using child(4) [OF anc_refl] by simp
  moreover have "prestate_walk (NewGameState K cs D) t (cs ! pidx cs i) zero_Claim = Some (WalkDone zero_Claim)"
    using child(3,4) anc_parent [OF child(1,2)] by blast
  ultimately show ?case using child(1) by (auto simp: walk_zero [OF assms(1) child(2)] Let_def)
qed

text \<open>The walk from a claim \<open>i\<close> whose proper ancestors in the way are all to the right ends with the nearest claim to the left.\<close>

lemma walk_left:
  assumes "wf_claims D cs" and "i < length cs" and "left_idx cs i = Some b" and "t \<le> ctix D cs i" and "ctix D cs i - cspan D cs i < t"
  shows "prestate_walk (NewGameState K cs D) t (cs ! i) zero_Claim = Some (WalkDone (cs ! b))"
  using assms
proof (induction rule: wf_induct)
  case root
  then show ?case by (simp add: left_idx.simps)
next
  case (child i)
  let ?p = "pidx cs i"
  have p: "?p < length cs" using wf_step(2) [OF assms(1) child(1,2)] child(2) by simp
  have w: "prestate_walk (NewGameState K cs D) t (cs ! i) zero_Claim = prestate_walk (NewGameState K cs D) t (cs ! ?p) zero_Claim"
    using child(1,5) by (simp add: walk_zero [OF assms(1) child(2)])
  show ?case
    using assms(1) child(1,2)
  proof (cases rule: wf_child_cases)
    case attack
    then show ?thesis using child(3-6) w pspan_pos [of D "cl_Position (cs ! i)"] by simp
  next
    case defend
    then have b: "b = ?p" "ctix D cs ?p < t" using child(4,6) by simp_all
    show ?thesis
    proof (cases "?p = 0")
      case True
      then show ?thesis using w b walk_zero [OF assms(1), of 0 K t] wf_root(1) [OF assms(1)] by simp
    next
      case False
      have "ctix D cs j \<le> ctix D cs ?p" if "anc cs (pidx cs ?p) j" "ctix D cs j < t" for j
      proof -
        have "anc cs ?p j" using that(1) False p by (auto intro: anc_parent)
        then have "j = ?p \<or> ctix D cs j \<le> ctix D cs ?p - cspan D cs ?p \<or> ctix D cs ?p + cspan D cs ?p \<le> ctix D cs j"
          using anc_gap [OF assms(1) p] by blast
        then show ?thesis using that(2) child(5) defend(4,5) pspan_pos [of D "cl_Position (cs ! i)"] by (elim disjE) (simp, linarith+)
      qed
      moreover have "pidx cs ?p < length cs" using wf_step(2) [OF assms(1) _ p] False p by simp
      ultimately show ?thesis using w b False walk_keeps [OF assms(1) _ p, of "pidx cs ?p" t K] by (simp add: walk_zero [OF assms(1) p])
    qed
  qed
qed

section \<open>Moves obey the rules\<close>

lemma simple_accessor [simp]: 
  "ta_Get (NewSimpleTraceAccessor P) g = simple P" "ta_GetStepData (NewSimpleTraceAccessor P) g c = tp_GetStepData P"
  by (simp_all add: NewSimpleTraceAccessor_def NewAccessor_def)

lemma with_parent_nth:
  assumes "wf_claims D cs" and "i < length cs" and "act_ParentClaim a = cs ! i"
  shows "with_parent (NewGameState K cs D) a f = f (cs ! i)"
  using wf_index [OF assms(1,2)] assms(2,3) by (simp add: with_parent_def Let_def)

text \<open>Every claim above one that is to be countered is honest or to be countered itself, so its value was read.\<close>

lemma anc_active:
  assumes "wf_claims D cs" and "i < length cs" and "honest get D cs i \<or> countered get D cs i" and "anc cs i j"
  shows "honest get D cs j \<or> countered get D cs j"
  using assms
proof (induction rule: wf_induct)
  case root
  then show ?case using anc_cases_iff [of 0 cs j] wf_root(1) [OF assms(1)] by simp
next
  case (child i)
  show ?case
  proof (cases "j = i")
    case False
    have p: "pidx cs i < length cs" using wf_step(2) [OF assms(1) child(1,2)] child(2) by simp
    have "honest get D cs (pidx cs i) \<or> countered get D cs (pidx cs i)"
      using strat_child [OF assms(1) child(1,2), of get] child(4) plan_parent(6) [OF assms(1) p, of get] by blast
    moreover have "anc cs (pidx cs i) j" using child(2,5) False anc_cases_iff [of i cs j] by simp
    ultimately show ?thesis using child(3) by blast
  qed (use child(4) in simp)
qed

lemma anc_value:
  assumes "wf_claims D cs" and "i < length cs" and "countered (simple P) D cs i" and "anc cs i j" and "j \<noteq> i" and "\<forall>j<i. read_ok (simple P) D cs j"
  shows "\<exists>v. tp_Get P (cl_Position (cs ! j)) = Inr v"
proof -
  have j: "j < i" using anc_le [OF assms(4,1,2)] assms(5) by simp
  have d: "cl_Depth (cs ! j) \<noteq> D"
  proof -
    have i: "0 < i" using j by simp
    have "anc cs (pidx cs i) j" using assms(2,4,5) anc_cases_iff [of i cs j] by simp
    then have "cl_Depth (cs ! j) \<le> cl_Depth (cs ! pidx cs i)" using anc_depth [OF _ assms(1)] wf_step(2) [OF assms(1) i assms(2)] assms(2) by simp
    then show ?thesis using wf_step(3) [OF assms(1) i assms(2)] by (auto simp: answers_def)
  qed
  from anc_active [OF assms(1,2) _ assms(4), of "simple P"] assms(3)
  consider "honest (simple P) D cs j" | "countered (simple P) D cs j" by blast
  then show ?thesis
  proof cases
    case 1
    then have "correct P cs j" using honest_correct [OF assms(1) _ 1] assms(2,6) j by simp
    then show ?thesis by (auto simp: agrees_def)
  next
    case 2
    then show ?thesis using assms(6) j d by (auto simp: read_ok_def)
  qed
qed

text \<open>The trace index of a move and the claims next to it.\<close>

lemma plan_tix:
  assumes "wf_claims D cs" and "i < length cs" and "plan get D cs i = Some m"
  shows "TraceIndex (cl_Position m) D = Some (tix D (cl_Position m))" "cspan D cs i = 2 * pspan D (cl_Position m)"
    "tix D (cl_Position m) = (if agrees get (cs ! i) then ctix D cs i + pspan D (cl_Position m) else ctix D cs i - pspan D (cl_Position m))"
proof -
  note pp = plan_parent [OF assms]
  show "TraceIndex (cl_Position m) D = Some (tix D (cl_Position m))"
    using pp(2,3) unat_Suc_depth [OF pp(3)] by (simp add: TraceIndex_tix word_less_nat_alt)
  show "cspan D cs i = 2 * pspan D (cl_Position m)" using pspan_step [OF pp(3,2)] .
  show "tix D (cl_Position m) = (if agrees get (cs ! i) then ctix D cs i + pspan D (cl_Position m) else ctix D cs i - pspan D (cl_Position m))"
    using pp(4) tix_Attack [OF pp(3)] tix_Defend [OF pp(3) wf_positions(2) [OF assms(1,2)]] by simp
qed

lemma move_prestate:
  assumes "wf_claims D cs" and "i < length cs" and "plan (simple P) D cs i = Some m" and "\<forall>j<i. read_ok (simple P) D cs j"
  shows "prestate_walk (NewGameState K cs D) (tix D (cl_Position m)) (cs ! i) zero_Claim = Some (WalkDone zero_Claim) \<and>
      tix D (cl_Position m) = pspan D (cl_Position m) - 1 \<or>
    (\<exists>b<length cs. anc cs i b \<and> correct P cs b \<and> ctix D cs b = tix D (cl_Position m) - pspan D (cl_Position m) \<and>
       prestate_walk (NewGameState K cs D) (tix D (cl_Position m)) (cs ! i) zero_Claim = Some (WalkDone (cs ! b)))"
proof -
  let ?t = "tix D (cl_Position m)" and ?s = "pspan D (cl_Position m)" and ?g = "NewGameState K cs D"
  note t = plan_tix [OF assms(1-3)] and pp = plan_parent [OF assms(1-3)]
  have s: "0 < ?s" by simp
  have gap: "j = i \<or> ctix D cs j \<le> ctix D cs i - cspan D cs i \<or> ctix D cs i + cspan D cs i \<le> ctix D cs j" if "anc cs i j" for j
    using anc_gap [OF assms(1,2) that] by blast
  show ?thesis
  proof (cases "correct P cs i")
    case True
    then have i: "0 < i" using pp(5) by simp
    have p: "pidx cs i < length cs" using wf_step(2) [OF assms(1) i assms(2)] assms(2) by simp
    have ti: "?t = ctix D cs i + ?s" using t(3) True by simp
    have "ctix D cs j \<le> ctix D cs i" if "anc cs (pidx cs i) j" "ctix D cs j < ?t" for j
      using gap [OF anc_parent [OF i assms(2) that(1)]] that(2) ti t(2) s by (elim disjE) (simp, linarith+)
    then have "prestate_walk ?g ?t (cs ! pidx cs i) (cs ! i) = Some (WalkDone (cs ! i))" by (rule walk_keeps [OF assms(1) p assms(2)])
    then have "prestate_walk ?g ?t (cs ! i) zero_Claim = Some (WalkDone (cs ! i))" using ti s i by (simp add: walk_zero [OF assms(1,2)])
    then show ?thesis using True ti assms(2) anc_refl [of cs i] by auto
  next
    case False
    then have ti: "?t = ctix D cs i - ?s" using t(3) by simp
    show ?thesis
    proof (cases "left_idx cs i")
      case None
      then have l: "ctix D cs i = cspan D cs i - 1" using left_tix [OF assms(1,2)] by simp
      have "?t \<le> ctix D cs j" if "anc cs i j" for j
      proof -
        have "0 \<le> ctix D cs j" using wf_trace_bounds(1) [OF assms(1), of j] anc_le [OF that assms(1,2)] assms(2) by simp
        moreover have "?t \<le> ctix D cs i" using ti pspan_pos [of D "cl_Position m"] by linarith
        ultimately show ?thesis using gap [OF that] l ti t(2) pspan_pos [of D "cl_Position m"] by (elim disjE) (blast, linarith+)
      qed
      then have "prestate_walk ?g ?t (cs ! i) zero_Claim = Some (WalkDone zero_Claim)" by (rule walk_none [OF assms(1,2)])
      then show ?thesis using l ti t(2) by simp
    next
      case (Some b)
      have b: "b < i" "ctix D cs b = ctix D cs i - cspan D cs i" using left_tix [OF assms(1,2)] Some by simp_all
      have "prestate_walk ?g ?t (cs ! i) zero_Claim = Some (WalkDone (cs ! b))"
        by (rule walk_left [OF assms(1,2) Some]) (use ti t(2) s in linarith)+
      moreover have "correct P cs b" using left_correct [OF assms(1,2,4) _ Some] pp(6) by blast
      moreover have "ctix D cs b = ?t - ?s" using b(2) ti t(2) by simp
      ultimately show ?thesis using b(1) assms(2) left_idx_anc [OF assms(1,2) Some] by (intro disjI2 exI [of _ b]) simp
    qed
  qed
qed

lemma with_value_correct: "correct P cs b \<Longrightarrow> with_value P (cl_Position (cs ! b)) f = f (cl_Value (cs ! b))"
  by (simp add: with_value_def agrees_def)

lemma check_False [simp]: "check False e = RuleOk" by (simp add: check_def)

text \<open>The identifiers tell the claims of the game, the moves that may be made in it and what the duplicate rule makes of a step apart. Only leaves
  are countered by a step.\<close>

definition told_apart :: "keccak \<Rightarrow> ('e, 'o, 'ch) TraceProvider \<Rightarrow> Claim list \<Rightarrow> bool" where
  "told_apart K P cs \<longleftrightarrow> ids_ok K (simple P) cs \<and>
     (\<forall>c\<in>set cs. \<forall>c'\<in>set cs. claim_ID K (new_claim 0 (cl_Position c) (cl_ContractIndex c)) = claim_ID K c' \<longrightarrow>
        key (new_claim 0 (cl_Position c) (cl_ContractIndex c)) = key c')"

definition setting :: "keccak \<Rightarrow> ('e, 'o, 'ch) TraceProvider \<Rightarrow> u64 \<Rightarrow> Claim list \<Rightarrow> bool" where
  "setting K P D cs \<longleftrightarrow> wf_claims D cs \<and> 0 < D \<and> told_apart K P cs \<and> (\<forall>c\<in>set cs. cl_CounteredBy c \<noteq> 0 \<longrightarrow> cl_Depth c = D)"

text \<open>The prestate of a step is the one that the trace commits to right before it. The first byte of a commitment is the status of the virtual machine.\<close>

definition prestates_ok :: "keccak \<Rightarrow> ('e, 'o, 'ch) TraceProvider \<Rightarrow> u64 \<Rightarrow> bool" where
  "prestates_ok K P D \<longleftrightarrow> (\<forall>pos q pre pf orc v. tp_GetStepData P pos = Inr (pre, pf, orc) \<longrightarrow> tp_Get P q = Inr v \<longrightarrow>
     pos_depth pos = D \<longrightarrow> TraceIndex q D = Some (IndexAtDepth pos - 1) \<longrightarrow> drop 1 (bytes32 (K pre)) = drop 1 (bytes32 v))"

lemma move_obeys_rules:
  assumes "setting K P D cs" and "i < length cs" and "plan (simple P) D cs i = Some m" and "\<forall>j\<le>i. read_ok (simple P) D cs j"
    and "claim_ID K m \<notin> claim_ID K ` set cs" and "cl_Claimant (cs ! i) \<noteq> challengerAddr"
  shows "checkRules K (NewGameState K cs D) (move_action (simple P) cs i m) P = Errors []"
proof -
  let ?g = "NewGameState K cs D" and ?a = "move_action (simple P) cs i m"
  let ?t = "tix D (cl_Position m)" and ?s = "pspan D (cl_Position m)"
  have wf: "wf_claims D cs" and leaf: "cl_CounteredBy (cs ! i) \<noteq> 0 \<Longrightarrow> cl_Depth (cs ! i) = D"
    using assms(1,2) by (auto simp: setting_def)
  note pp = plan_parent [OF wf assms(2,3)] and ti = plan_tix [OF wf assms(2,3)]
  have a: "act_Type ?a = ActionTypeMove" "act_ParentClaim ?a = cs ! i" "act_IsAttack ?a \<longleftrightarrow> \<not> correct P cs i" "act_Value ?a = cl_Value m"
    by (simp_all add: move_action_def zero_Action_def)
  have rp: "resultingPosition (cs ! i) ?a = cl_Position m" using pp(4) by (simp add: resultingPosition_def Let_def a)
  note wp = with_parent_nth [OF wf assms(2) a(2)]
  have ix: "cl_ContractIndex (cs ! i) = int i" using wf_index [OF wf assms(2)] .
  have r: "\<forall>j<i. read_ok (simple P) D cs j" using assms(4) by simp
  note pre = move_prestate [OF wf assms(2,3) r, of K]
  have 4: "claim_ID K (new_claim (cl_Value m) (cl_Position m) (int i)) = claim_ID K m"
    using pp(1) by (intro claim_ID_key) (simp add: key_def new_claim_def zero_Claim_def)
  have 7: "avoidPoisonedPrestate ?g ?a P = RuleOk"
    using pre wf_not_zero [OF wf] by (auto simp: avoidPoisonedPrestate_def a wp rp with_index_def ti(1) with_value_correct)
  have 8: "detectPoisonedStepPrestate K ?g ?a P = RuleOk"
  proof (cases "pos_depth (cl_Position m) = D")
    case True
    then have s: "?s = 1" by (simp add: pspan_def)
    from pre consider "?t = 0" | b where "anc cs i b" "correct P cs b" "ctix D cs b = ?t - 1" "b < length cs" unfolding s by auto
    then show ?thesis
    proof cases
      case 1
      then show ?thesis by (simp add: detectPoisonedStepPrestate_def Let_def wp rp with_index_def ti(1) a)
    next
      case (2 b)
      have "AncestorWithTraceIndex ?g (cs ! i) (?t - 1) = Some (AncestorFound (cs ! b))"
        using AncestorWithTraceIndex_found [of ?g i b] wf assms(2) 2(1,3) by simp
      then show ?thesis
        by (simp add: detectPoisonedStepPrestate_def Let_def wp rp with_index_def ti(1) a with_ancestor_def with_value_correct [OF 2(2)])
    qed
  qed (simp add: detectPoisonedStepPrestate_def Let_def wp rp)
  have "rules K ?g ?a P = replicate 10 RuleOk"
    using 4 7 8 pp(3,5) leaf assms(2,5,6) ix wf_positions(5) [OF wf assms(2)]
    by (auto simp: rules_def numeral_eq_Suc parentMustExist_def onlyStepAtMaxDepth_def onlyMoveBeforeMaxDepth_def doNotDuplicateExistingMoves_def
        doNotStepAlreadyCounteredClaims_def doNotDefendRootClaim_def detectFailedStep_def doNotCounterSelf_def a wp rp IsDuplicate_iff
        check_def IsRoot_def)
  then show ?thesis by (simp add: checkRules_def numeral_eq_Suc)
qed

section \<open>Steps obey the rules\<close>

lemma MoveRight_simps [simp]: "pos_depth (MoveRight p) = pos_depth p" "IndexAtDepth (MoveRight p) = IndexAtDepth p + 1"
  by (simp_all add: MoveRight_def IndexAtDepth_def)

lemma leaf_index:
  assumes "wf_claims D cs" and "i < length cs" and "cl_Depth (cs ! i) = D"
  shows "cspan D cs i = 1" "ctix D cs i = IndexAtDepth (cl_Position (cs ! i))"
  using assms(3) by (simp_all add: pspan_def tix_def)

lemma step_action_simps:
  assumes "a = step_action (simple P) cs i (pre, pf, orc)"
  shows "act_Type a = ActionTypeStep" "act_ParentClaim a = cs ! i" "act_IsAttack a \<longleftrightarrow> \<not> correct P cs i" "act_PreState a = pre" "act_Value a = 0"
  by (simp_all add: assms step_action_def zero_Action_def)

text \<open>A step is never taken for a copy of a claim: below a leaf there is none.\<close>

lemma step_not_duplicate:
  assumes "setting K P D cs" and "i < length cs" and "cl_Depth (cs ! i) = D"
  shows "\<not> IsDuplicate K (NewGameState K cs D) (new_claim 0 (cl_Position (cs ! i)) (cl_ContractIndex (cs ! i)))"
proof
  let ?m = "new_claim 0 (cl_Position (cs ! i)) (cl_ContractIndex (cs ! i))"
  have wf: "wf_claims D cs" using assms(1) by (simp add: setting_def)
  assume "IsDuplicate K (NewGameState K cs D) ?m"
  then obtain j where j: "j < length cs" "claim_ID K ?m = claim_ID K (cs ! j)" by (auto simp: IsDuplicate_iff in_set_conv_nth)
  then have "key ?m = key (cs ! j)" using assms(1,2) nth_mem unfolding setting_def told_apart_def by blast
  then have k: "cl_Position (cs ! j) = cl_Position (cs ! i)" "pidx cs j = i"
    using wf_index [OF wf assms(2)] by (auto simp: key_def new_claim_def zero_Claim_def)
  have "0 < j" using wf_positions(4) [OF wf j(1)] assms(1,3) k(1) by (auto simp: setting_def)
  then show False using wf_step(3) [OF wf _ j(1)] k assms(3) by (simp add: answers_def)
qed

lemma step_prestate:
  assumes "wf_claims D cs" and "i < length cs" and "cl_Depth (cs ! i) = D" and "countered (simple P) D cs i" and "\<forall>j<i. read_ok (simple P) D cs j"
    and "prestates_ok K P D" and "tp_GetStepData P (step_position (simple P) (cs ! i)) = Inr (pre, pf, orc)"
  shows "detectPoisonedStepPrestate K (NewGameState K cs D) (step_action (simple P) cs i (pre, pf, orc)) P = RuleOk"
proof -
  let ?g = "NewGameState K cs D" and ?a = "step_action (simple P) cs i (pre, pf, orc)"
  note a = step_action_simps [of ?a P cs i pre pf orc, OF refl] and l = leaf_index [OF assms(1-3)]
  note wp = with_parent_nth [OF assms(1,2) a(2)]
  let ?t = "if correct P cs i then ctix D cs i else ctix D cs i - 1"
  have "?t < 0 \<or> (\<exists>b<length cs. anc cs i b \<and> correct P cs b \<and> ctix D cs b = ?t)"
  proof (cases "correct P cs i")
    case True
    then show ?thesis using assms(2) anc_refl [of cs i] by auto
  next
    case False
    then show ?thesis
      using left_tix [OF assms(1,2)] left_correct [OF assms(1,2,5)] left_idx_anc [OF assms(1,2)] assms(2,4) l(1) by (cases "left_idx cs i") auto
  qed
  then consider "?t < 0" | b where "b < length cs" "anc cs i b" "correct P cs b" "ctix D cs b = ?t" by blast
  then show ?thesis
  proof cases
    case 1
    then show ?thesis
      by (auto simp: detectPoisonedStepPrestate_def Let_def wp resultingPosition_def with_index_def wf_TraceIndex [OF assms(1,2)] a split: if_splits)
  next
    case (2 b)
    have f: "AncestorWithTraceIndex ?g (cs ! i) ?t = Some (AncestorFound (cs ! b))"
      using AncestorWithTraceIndex_found [of ?g i b] assms(1,2) 2(2,4) by simp
    have "TraceIndex (cl_Position (cs ! b)) D = Some (IndexAtDepth (step_position (simple P) (cs ! i)) - 1)"
      using wf_TraceIndex [OF assms(1) 2(1)] 2(4) l(2) by (simp add: step_position_def)
    moreover have "pos_depth (step_position (simple P) (cs ! i)) = D" using assms(3) by (simp add: step_position_def)
    moreover have "tp_Get P (cl_Position (cs ! b)) = Inr (cl_Value (cs ! b))" using 2(3) by (simp add: agrees_def)
    ultimately have "drop 1 (bytes32 (K pre)) = drop 1 (bytes32 (cl_Value (cs ! b)))" using assms(6,7) unfolding prestates_ok_def by blast
    then show ?thesis
      using f with_value_correct [OF 2(3)]
      by (auto simp: detectPoisonedStepPrestate_def Let_def wp resultingPosition_def with_index_def wf_TraceIndex [OF assms(1,2)] a with_ancestor_def
          split: if_splits)
  qed
qed

lemma even_depth_diff: "d \<le> e \<Longrightarrow> (e - d) mod 2 = 0 \<longleftrightarrow> even (unat e + unat d)" for d e :: u64
proof -
  assume "d \<le> e"
  then have "even (unat (e - d)) \<longleftrightarrow> even (unat e + unat d)" by (simp add: unat_sub word_le_nat_alt)
  moreover have "(e - d) mod 2 = 0 \<longleftrightarrow> even (unat (e - d))" by (simp add: unat_mod even_iff_mod_2_eq_zero flip: unat_eq_0)
  ultimately show ?thesis by simp
qed

lemma step_poststate:
  assumes "wf_claims D cs" and "i < length cs" and "cl_Depth (cs ! i) = D" and "countered (simple P) D cs i" and "\<forall>j<i. read_ok (simple P) D cs j"
    and "0 < D" and "tp_Get P (cl_Position (cs ! i)) = Inr v"
  shows "detectFailedStep (NewGameState K cs D) (step_action (simple P) cs i (pre, pf, orc)) P = RuleOk"
proof -
  let ?g = "NewGameState K cs D" and ?a = "step_action (simple P) cs i (pre, pf, orc)"
  note a = step_action_simps [of ?a P cs i pre pf orc, OF refl] and l = leaf_index [OF assms(1-3)]
  note wp = with_parent_nth [OF assms(1,2) a(2)]
  let ?t = "if correct P cs i then ctix D cs i + 1 else ctix D cs i"
  have "\<exists>b w. b < length cs \<and> anc cs i b \<and> ctix D cs b = ?t \<and> tp_Get P (cl_Position (cs ! b)) = Inr w \<and> cl_Depth (cs ! b) \<le> D \<and>
    (correct P cs b \<longleftrightarrow> odd (unat (cl_Depth (cs ! i)) + unat (cl_Depth (cs ! b))))"
  proof (cases "correct P cs i")
    case True
    have "i \<noteq> 0" using wf_positions(4) [OF assms(1,2)] assms(3,6) by auto
    then obtain b where b: "right_idx cs i = Some b" "b < i" "ctix D cs b = ?t"
      using right_tix [OF assms(1,2)] l(1) True by (auto split: option.splits)
    then have "b < length cs" "anc cs i b" "b \<noteq> i" using assms(2) right_idx_anc [OF assms(1,2) b(1)] by simp_all
    then show ?thesis
      using b(3) anc_value [OF assms(1,2,4) _ _ assms(5)] right_parity [OF assms(1,2,5) b(1)] assms(4) True wf_positions(3) [OF assms(1)] by blast
  next
    case False
    then show ?thesis using assms(2,3,7) anc_refl [of cs i] by auto
  qed
  then obtain b w where b: "b < length cs" "anc cs i b" "ctix D cs b = ?t" "tp_Get P (cl_Position (cs ! b)) = Inr w" "cl_Depth (cs ! b) \<le> D"
    "correct P cs b \<longleftrightarrow> odd (unat (cl_Depth (cs ! i)) + unat (cl_Depth (cs ! b)))" by blast
  have f: "AncestorWithTraceIndex ?g (cs ! i) ?t = Some (AncestorFound (cs ! b))"
    using AncestorWithTraceIndex_found [of ?g i b] assms(1,2) b(2,3) by simp
  have "w = cl_Value (cs ! b) \<longleftrightarrow> (D - cl_Depth (cs ! b)) mod 2 \<noteq> 0"
    using b(4-6) even_depth_diff [OF b(5)] assms(3) by (simp add: agrees_def)
  then show ?thesis
    using f b(4) assms(3)
    by (auto simp: detectFailedStep_def Let_def wp resultingPosition_def with_index_def wf_TraceIndex [OF assms(1,2)] a with_ancestor_def with_value_def
        check_def split: if_splits)
qed

lemma step_obeys_rules:
  assumes "setting K P D cs" and "i < length cs" and "cl_Depth (cs ! i) = D" and "countered (simple P) D cs i" and "\<forall>j<i. read_ok (simple P) D cs j"
    and "prestates_ok K P D" and "tp_GetStepData P (step_position (simple P) (cs ! i)) = Inr (pre, pf, orc)"
    and "tp_Get P (cl_Position (cs ! i)) = Inr v" and "cl_CounteredBy (cs ! i) = 0" and "cl_Claimant (cs ! i) \<noteq> challengerAddr"
  shows "checkRules K (NewGameState K cs D) (step_action (simple P) cs i (pre, pf, orc)) P = Errors []"
proof -
  let ?g = "NewGameState K cs D" and ?a = "step_action (simple P) cs i (pre, pf, orc)"
  have wf: "wf_claims D cs" "0 < D" using assms(1) by (simp_all add: setting_def)
  note a = step_action_simps [of ?a P cs i pre pf orc, OF refl]
  note wp = with_parent_nth [OF wf(1) assms(2) a(2)]
  have "\<not> IsRootPosition (cl_Position (cs ! i))"
    using wf_positions(4,5) [OF wf(1) assms(2)] assms(3) wf(2) by (auto simp: IsRoot_def)
  then have "rules K ?g ?a P = replicate 10 RuleOk"
    using step_not_duplicate [OF assms(1-3)] step_prestate [OF wf(1) assms(2-7)] step_poststate [OF wf(1) assms(2-5) wf(2) assms(8)]
      wf_index [OF wf(1) assms(2)] assms(2,3,9,10)
    by (simp add: rules_def numeral_eq_Suc parentMustExist_def onlyStepAtMaxDepth_def onlyMoveBeforeMaxDepth_def doNotDuplicateExistingMoves_def
        doNotStepAlreadyCounteredClaims_def doNotDefendRootClaim_def avoidPoisonedPrestate_def doNotCounterSelf_def a wp resultingPosition_def)
  then show ?thesis by (simp add: checkRules_def numeral_eq_Suc)
qed

section \<open>Games with a challenger\<close>

text \<open>The game as it is played with the challenger: anyone may answer a claim, the challenger computes its actions and performs them at any later time, and leaves
  are countered by steps. The contract accepts no copy of a claim. The challenger stands for the root claim only if it is correct.\<close>

abbreviation simpleSolver :: "u64 \<Rightarrow> ('e, 'o, 'ch) TraceProvider \<Rightarrow> ('e, 'o, 'ch) claimSolver" where
  "simpleSolver D P \<equiv> newClaimSolver D (NewSimpleTraceAccessor P)"

definition placed :: "u64 \<Rightarrow> Claim list \<Rightarrow> nat \<Rightarrow> Claim \<Rightarrow> bool" where
  "placed D cs p c \<longleftrightarrow> p < length cs \<and> answers D (cs ! p) (cl_Position c) \<and> cl_ContractIndex c = int (length cs) \<and>
     cl_ParentContractIndex c = int p \<and> cl_CounteredBy c = 0 \<and> key c \<notin> key ` set cs"

inductive play :: "keccak \<Rightarrow> ('e, 'o, 'ch) TraceProvider \<Rightarrow> u64 \<Rightarrow> Claim list \<Rightarrow> ('o, 'ch) Action list \<Rightarrow> bool" for K P D where
  start: "wf_claims D [c] \<Longrightarrow> cl_CounteredBy c = 0 \<Longrightarrow> cl_Claimant c = challengerAddr \<longrightarrow> agrees (simple P) c \<Longrightarrow> play K P D [c] []"
| other: "play K P D cs as \<Longrightarrow> placed D cs p c \<Longrightarrow> cl_Claimant c \<noteq> challengerAddr \<Longrightarrow> play K P D (cs @ [c]) as"
| think: "play K P D cs as \<Longrightarrow> told_apart K P cs \<Longrightarrow> CalculateNextActions K (simpleSolver D P) (NewGameState K cs D) = (actions, err) \<Longrightarrow>
    play K P D cs actions"
| move: "play K P D cs as \<Longrightarrow> a \<in> set as \<Longrightarrow> act_Type a = ActionTypeMove \<Longrightarrow> cl_ContractIndex (act_ParentClaim a) = int p \<Longrightarrow> placed D cs p c \<Longrightarrow>
    cl_Position c = resultingPosition (cs ! p) a \<Longrightarrow> cl_Value c = act_Value a \<Longrightarrow> play K P D (cs @ [c]) as"
| step: "play K P D cs as \<Longrightarrow> i < length cs \<Longrightarrow> cl_Depth (cs ! i) = D \<Longrightarrow> play K P D (cs[i := (cs ! i)\<lparr>cl_CounteredBy := who\<rparr>]) as"

definition same_claim :: "Claim \<Rightarrow> Claim \<Rightarrow> bool" where
  "same_claim c c' \<longleftrightarrow> key c = key c' \<and> cl_ContractIndex c = cl_ContractIndex c'"

lemma strat_cong:
  assumes "\<And>j. j \<le> i \<Longrightarrow> same_claim (cs ! j) (cs' ! j)"
  shows "strat (simple P) D cs i = strat (simple P) D cs' i"
  using assms
proof (induction i rule: less_induct)
  case (less i)
  have s: "same_claim (cs ! i) (cs' ! i)" "same_claim (cs ! 0) (cs' ! 0)" using less.prems by simp_all
  then have f: "strat_from (simple P) D cs i h m = strat_from (simple P) D cs' i h m" for h m
    by (cases m) (simp_all add: same_claim_def key_def strat_from_def agrees_def answer_def Let_def)
  have p: "pidx cs i = pidx cs' i" using s(1) by (simp add: same_claim_def key_def)
  have "strat (simple P) D cs (pidx cs i) = strat (simple P) D cs' (pidx cs i)" if "pidx cs i < i" using less that by simp
  then show ?case using f p by (subst (1 2) strat.simps) (simp split: prod.splits)
qed

text \<open>What holds throughout: the claims are well formed, only leaves are stepped against, the challenger's claims are honest, and so are the moves it is about to make.\<close>

definition pending_ok :: "('e, 'o, 'ch) TraceProvider \<Rightarrow> u64 \<Rightarrow> Claim list \<Rightarrow> ('o, 'ch) Action \<Rightarrow> bool" where
  "pending_ok P D cs a \<longleftrightarrow> (act_Type a = ActionTypeMove \<longrightarrow>
     (\<exists>i<length cs. \<exists>m. plan (simple P) D cs i = Some m \<and> cl_ContractIndex (act_ParentClaim a) = int i \<and>
        resultingPosition (cs ! i) a = cl_Position m \<and> act_Value a = cl_Value m))"

definition play_inv :: "('e, 'o, 'ch) TraceProvider \<Rightarrow> u64 \<Rightarrow> Claim list \<Rightarrow> ('o, 'ch) Action list \<Rightarrow> bool" where
  "play_inv P D cs as \<longleftrightarrow> wf_claims D cs \<and> (\<forall>i<length cs. cl_CounteredBy (cs ! i) \<noteq> 0 \<longrightarrow> cl_Depth (cs ! i) = D) \<and>
     (\<forall>i<length cs. cl_Claimant (cs ! i) = challengerAddr \<longrightarrow> honest (simple P) D cs i) \<and> (\<forall>a\<in>set as. pending_ok P D cs a)"

lemma wf_placed:
  assumes "wf_claims D cs" and "placed D cs p c"
  shows "wf_claims D (cs @ [c])"
  unfolding wf_claims_def
proof (intro conjI allI impI)
  fix i
  assume "i < length (cs @ [c])"
  then consider "i < length cs" | "i = length cs" by force
  then show "wf_claim D (cs @ [c]) i"
  proof cases
    case 1
    then show ?thesis
      using assms(1) wf_step(2) [OF assms(1) _ 1] by (cases "i = 0") (auto simp: wf_claims_def wf_claim_def nth_append)
  next
    case 2
    then show ?thesis using assms wf_root(1) [OF assms(1)] by (auto simp: placed_def wf_claim_def nth_append)
  qed
qed simp

lemma strat_append: "i < length cs \<Longrightarrow> strat (simple P) D (cs @ [c]) i = strat (simple P) D cs i"
  by (rule strat_cong) (simp add: nth_append same_claim_def)

lemma pending_cong:
  assumes "pending_ok P D cs a" and "length cs \<le> length cs'" and "\<And>j. j < length cs \<Longrightarrow> same_claim (cs' ! j) (cs ! j)"
  shows "pending_ok P D cs' a"
proof -
  have "\<exists>i<length cs'. \<exists>m. plan (simple P) D cs' i = Some m \<and> cl_ContractIndex (act_ParentClaim a) = int i \<and>
      resultingPosition (cs' ! i) a = cl_Position m \<and> act_Value a = cl_Value m" if t: "act_Type a = ActionTypeMove"
  proof -
    obtain i m where i: "i < length cs" "plan (simple P) D cs i = Some m" "cl_ContractIndex (act_ParentClaim a) = int i"
      "resultingPosition (cs ! i) a = cl_Position m" "act_Value a = cl_Value m" using assms(1) t by (auto simp: pending_ok_def)
    have "strat (simple P) D cs' i = strat (simple P) D cs i" by (rule strat_cong) (use assms(3) i(1) in simp)
    moreover have "cl_Position (cs' ! i) = cl_Position (cs ! i)" using assms(3) [OF i(1)] by (simp add: same_claim_def key_def)
    ultimately show ?thesis using i assms(2) by (intro exI [of _ i]) (simp add: plan_def resultingPosition_def)
  qed
  then show ?thesis by (simp add: pending_ok_def)
qed

lemma pending_append: "pending_ok P D cs a \<Longrightarrow> pending_ok P D (cs @ [c]) a"
  by (rule pending_cong) (auto simp: nth_append same_claim_def)

lemma play_inv_append:
  assumes "play_inv P D cs as" and "placed D cs p c" and "cl_Claimant c = challengerAddr \<Longrightarrow> honest (simple P) D (cs @ [c]) (length cs)"
  shows "play_inv P D (cs @ [c]) as"
  using assms wf_placed [OF _ assms(2)] pending_append [of P D cs _ c]
  by (auto simp: play_inv_def honest_def strat_append nth_append less_Suc_eq placed_def)

lemma play_inv_step:
  assumes "play_inv P D cs as" and "i < length cs" and "cl_Depth (cs ! i) = D"
  shows "play_inv P D (cs[i := (cs ! i)\<lparr>cl_CounteredBy := who\<rparr>]) as"
proof -
  let ?cs = "cs[i := (cs ! i)\<lparr>cl_CounteredBy := who\<rparr>]"
  have wf: "wf_claims D cs" using assms(1) by (simp add: play_inv_def)
  have same: "same_claim (?cs ! j) (cs ! j)" "cl_Claimant (?cs ! j) = cl_Claimant (cs ! j)" if "j < length cs" for j
    using that assms(2) by (auto simp: same_claim_def key_def nth_list_update)
  then have k: "key (?cs ! j) = key (cs ! j)" "cl_ContractIndex (?cs ! j) = cl_ContractIndex (cs ! j)" if "j < length cs" for j
    using that by (auto simp: same_claim_def)
  have "wf_claim D ?cs j" if "j < length cs" for j
    using wf that k [OF that] k(1) [of "pidx cs j"] wf_step(2) [OF wf _ that] by (cases "j = 0") (auto simp: wf_claims_def wf_claim_def key_def answers_def IsRoot_def)
  then have "wf_claims D ?cs" using wf by (simp add: wf_claims_def)
  moreover have "strat (simple P) D ?cs j = strat (simple P) D cs j" if "j < length cs" for j by (rule strat_cong) (use that same in simp)
  moreover have "pending_ok P D ?cs a" if "a \<in> set as" for a
    by (rule pending_cong [of P D cs]) (use assms(1) that same in \<open>auto simp: play_inv_def\<close>)
  ultimately show ?thesis using assms same(2) by (auto simp: play_inv_def honest_def nth_list_update)
qed

lemma actions_pending:
  assumes "play_inv P D cs as" and "told_apart K P cs" and "CalculateNextActions K (simpleSolver D P) (NewGameState K cs D) = (actions, err)"
    and "a \<in> set actions" and "act_Type a \<noteq> ActionTypeChallengeL2BlockNumber"
  shows "\<exists>k<length cs. proposed K (NewSimpleTraceAccessor P) D cs k a \<and> (\<forall>j\<le>k. read_ok (simple P) D cs j)"
proof -
  have i: "ids_ok K (ta_Get (sv_trace (simpleSolver D P)) (NewGameState K cs D)) cs" "wf_claims D cs" "sv_gameDepth (simpleSolver D P) = D"
    using assms(1,2) by (simp_all add: told_apart_def play_inv_def newClaimSolver_def)
  from CalculateNextActions_Inr [OF i assms(3)] assms(4,5) show ?thesis by (auto simp: newClaimSolver_def)
qed

lemma pending_proposed:
  assumes "wf_claims D cs" and "i < length cs" and "proposed K (NewSimpleTraceAccessor P) D cs i a"
  shows "pending_ok P D cs a"
  unfolding pending_ok_def
proof
  assume "act_Type a = ActionTypeMove"
  then obtain m where m: "plan (simple P) D cs i = Some m" "a = move_action (simple P) cs i m"
    using assms(3) by (auto simp: proposed_def Let_def step_action_def zero_Action_def)
  then show "\<exists>i<length cs. \<exists>m. plan (simple P) D cs i = Some m \<and> cl_ContractIndex (act_ParentClaim a) = int i \<and>
      resultingPosition (cs ! i) a = cl_Position m \<and> act_Value a = cl_Value m"
    using assms(2) wf_index [OF assms(1,2)] plan_parent(4) [OF assms(1,2) m(1)]
    by (intro exI [of _ i] conjI exI [of _ m]) (simp_all add: move_action_def zero_Action_def resultingPosition_def)
qed

lemma play_inv: "play K P D cs as \<Longrightarrow> play_inv P D cs as"
proof (induction rule: play.induct)
  case (start c)
  then show ?case by (auto simp: play_inv_def strat_root)
next
  case (other cs as p c)
  then show ?case by (intro play_inv_append) simp_all
next
  case (think cs as actions err)
  have "pending_ok P D cs a" if "a \<in> set actions" for a
  proof (cases "act_Type a = ActionTypeChallengeL2BlockNumber")
    case False
    then show ?thesis
      using actions_pending [OF think(4,2,3) that] pending_proposed think(4) by (auto simp: play_inv_def)
  qed (simp add: pending_ok_def)
  then show ?case using think(4) by (simp add: play_inv_def)
next
  case (move cs as a p c)
  have p: "p < length cs" using move.hyps by (simp add: placed_def)
  obtain m where m: "plan (simple P) D cs p = Some m" "resultingPosition (cs ! p) a = cl_Position m" "act_Value a = cl_Value m"
    using move by (auto simp: play_inv_def pending_ok_def)
  have wf: "wf_claims D cs" using move by (simp add: play_inv_def)
  have "key m = key c" using m move.hyps plan_parent(1) [OF wf p m(1)] by (simp add: key_def placed_def)
  moreover have "plan (simple P) D (cs @ [c]) p = Some m" using m(1) p by (simp add: plan_def strat_append)
  ultimately have "honest (simple P) D (cs @ [c]) (length cs)"
    using strat_child(1) [OF wf_placed [OF wf move.hyps(5)], of "length cs" "simple P"] p wf_root(1) [OF wf] move.hyps by (auto simp: nth_append placed_def)
  then show ?case using play_inv_append [OF move.IH move.hyps(5)] by blast
next
  case (step cs as i who)
  then show ?case by (intro play_inv_step)
qed

section \<open>Properties\<close>

text \<open>C3: Every action that the solver proposes obeys the rules for honest actors. Let the game be played in any order by anyone, with the challenger performing its
  moves at any later time. Whatever move or step the solver then computes, its parent exists and is on the right level, it copies no claim, counters no claim of the
  challenger and none that is already stepped against, does not defend the root, and starts from a correct prestate: the claim to the left of a new claim is correct,
  and a step shows its leaf wrong. The rules neither panic nor run forever. The trace may fail to answer at any position. Three conditions: the solver uses one trace for the whole
  game, as the rules do (no split game); whenever it computes its actions, identifiers tell apart the claims and its possible moves, which can fail in a reachable game; and prestates
  are what the trace commits to.\<close>

theorem solver_obeys_rules:
  assumes "play K P D cs as" and "0 < D" and "told_apart K P cs" and "prestates_ok K P D"
    and "CalculateNextActions K (newClaimSolver D (NewSimpleTraceAccessor P)) (NewGameState K cs D) = (actions, err)"
    and "a \<in> set actions" and "act_Type a \<noteq> ActionTypeChallengeL2BlockNumber"
  shows "checkRules K (NewGameState K cs D) a P = Errors []"
proof -
  note inv = play_inv [OF assms(1)]
  have wf: "wf_claims D cs" using inv by (simp add: play_inv_def)
  have set: "setting K P D cs" using inv assms(2,3) by (auto simp: play_inv_def setting_def in_set_conv_nth)
  obtain k where k: "k < length cs" "proposed K (NewSimpleTraceAccessor P) D cs k a" "\<forall>j\<le>k. read_ok (simple P) D cs j"
    using actions_pending [OF inv assms(3,5-7)] by blast
  have own: "cl_Claimant (cs ! k) \<noteq> challengerAddr" if "countered (simple P) D cs k"
    using not_honest_countered [OF wf k(1) that] inv k(1) by (auto simp: play_inv_def)
  from k(2) consider (move) m where "plan (simple P) D cs k = Some m" "claim_ID K m \<notin> claim_ID K ` set cs" "a = move_action (simple P) cs k m"
    | (step) pre pf orc v where "cl_Depth (cs ! k) = D" "countered (simple P) D cs k" "cl_CounteredBy (cs ! k) = 0"
        "tp_Get P (cl_Position (cs ! k)) = Inr v" "tp_GetStepData P (step_position (simple P) (cs ! k)) = Inr (pre, pf, orc)"
        "a = step_action (simple P) cs k (pre, pf, orc)"
    unfolding proposed_def by (auto simp: Let_def)
  then show ?thesis
  proof cases
    case move
    then show ?thesis using move_obeys_rules [OF set k(1) move(1) k(3) move(2)] own plan_parent(6) [OF wf k(1) move(1)] by blast
  next
    case step
    have "\<forall>j<k. read_ok (simple P) D cs j" using k(3) by simp
    then show ?thesis using step_obeys_rules [OF set k(1) step(1,2) _ assms(4) step(5,4,3)] own step(2,6) by blast
  qed
qed

definition sample_trace :: "(unit, unit, unit) TraceProvider" where
  "sample_trace = \<lparr>tp_Get = (\<lambda>_. Inr 0), tp_GetStepData = (\<lambda>_. Inr ([], [1], None)), tp_AbsolutePreStateCommitment = Inr 0,
     tp_GetL2BlockNumberChallenge = ErrL2BlockNumberValid\<rparr>"

definition sample_ids :: keccak where
  "sample_ids bs = word_of_nat (be_decode (take 1 bs) * 256 + be_decode (drop 32 bs))"

definition sample_root :: Claim where "sample_root = sample_claim 0 0 (NewPosition 0 0) 1"

lemma sample_root_simps [simp]:
  "cl_Value sample_root = 1" "cl_Position sample_root = NewPosition 0 0" "cl_ContractIndex sample_root = 0" "IsRoot sample_root"
  by code_simp+

lemma sample_root_ids [simp]:
  "claim_ID sample_ids sample_root = 257" "claim_ID sample_ids (new_claim 0 (Attack (NewPosition 0 0)) 0) = 512"
  "claim_ID sample_ids (new_claim 0 (NewPosition 0 0) 0) = 256"
  by code_simp+

lemma sample_root_answer [simp]: "answer (simple sample_trace) sample_root pos = new_claim 0 pos 0"
  by (simp add: answer_def sample_trace_def)

lemma sample_root_candidates:
  "candidates (simple sample_trace) [sample_root] = {new_claim 0 (Attack (NewPosition 0 0)) 0}"
  unfolding candidates_def by (auto simp: sample_trace_def answer_def)

lemma sample_root_told_apart: "told_apart sample_ids sample_trace [sample_root]"
  unfolding told_apart_def ids_ok_def sample_root_candidates by simp

lemma sample_root_play: "play sample_ids sample_trace 1 [sample_root] []"
proof -
  have "wf_claims 1 [sample_root]" "cl_Claimant sample_root \<noteq> challengerAddr" "cl_CounteredBy sample_root = 0" by code_simp+
  then show ?thesis by (intro play.start) simp_all
qed

lemma sample_root_actions:
  "CalculateNextActions sample_ids (newClaimSolver 1 (NewSimpleTraceAccessor sample_trace)) (NewGameState sample_ids [sample_root] 1) =
     ([zero_Action\<lparr>act_Type := ActionTypeMove, act_IsAttack := True, act_ParentClaim := sample_root, act_Value := 0\<rparr>], None)"
proof -
  have "IsRoot (new_claim 0 (Attack (NewPosition 0 0)) 0) = False" "RightOf (Attack (NewPosition 0 0)) (NewPosition 0 0) = False" by code_simp+
  moreover have "cl_Position (new_claim v p i) = p" "cl_ParentContractIndex (new_claim v p i) = i" "cl_Value (new_claim v p i) = v" for v p i
    by (simp_all add: new_claim_def)
  ultimately show ?thesis
    by (simp add: CalculateNextActions_def AgreeWithRootClaim_def agreeWithClaim_def trace_get_def newClaimSolver_def sample_trace_def initial_tracker_def
        newHonestClaimTracker_def next_action_def calculateMove_def NextMove_def shouldCounter_def IsHonest_def map_true_def attack_def Let_def IsDuplicate_iff
        DefendsParent_def getParent_def)
qed

theorem solver_obeys_rules_witness:
  "\<exists>a. CalculateNextActions sample_ids (newClaimSolver 1 (NewSimpleTraceAccessor sample_trace)) (NewGameState sample_ids [sample_root] 1) = ([a], None) \<and>
    act_IsAttack a \<and> checkRules sample_ids (NewGameState sample_ids [sample_root] 1) a sample_trace = Errors []"
proof -
  have "prestates_ok sample_ids sample_trace 1" by (simp add: prestates_ok_def sample_trace_def sample_ids_def)
  then show ?thesis
    using solver_obeys_rules [OF sample_root_play _ sample_root_told_apart _ sample_root_actions] sample_root_actions by (simp add: zero_Action_def)
qed

end
