(* ===== verification/Game_Resolution.thy ===== *)
theory Game_Resolution
  imports Solver_Rules
begin

text \<open>
  The resolution of dispute games and its forecast (\<open>op-dispute-mon/mon\<close>: \<open>transform/tree.go\<close>, \<open>resolve.go\<close>, \<open>forecast.go\<close>). The tree is a list of
  nodes; a pointer to a node is its index. The main result: once the solver has nothing left to do, the game resolves in favour of what the solver agrees with.
\<close>

section \<open>Definitions\<close>

type_synonym GameStatus = byte

definition GameStatusInProgress :: GameStatus where "GameStatusInProgress = 0"
definition GameStatusChallengerWon :: GameStatus where "GameStatusChallengerWon = 1"
definition GameStatusDefenderWon :: GameStatus where "GameStatusDefenderWon = 2"

record EnrichedClaim =
  ec_Claim :: Claim
  ec_Resolved :: bool

record BidirectionalClaim =
  bc_Claim :: Claim
  bc_Children :: "nat list"

subsection \<open>The tree\<close>

text \<open>A parent that is missing from the map is a nil pointer: \<open>None\<close> is the panic.\<close>

fun build_tree :: "EnrichedClaim list \<Rightarrow> (int \<rightharpoonup> nat) \<Rightarrow> BidirectionalClaim list \<Rightarrow> BidirectionalClaim list option" where
  "build_tree [] claimMap res = Some res"
| "build_tree (claim # claims) claimMap res =
     (let c = ec_Claim claim;
          n = length res;
          claimMap = claimMap(cl_ContractIndex c \<mapsto> n);
          res = res @ [\<lparr>bc_Claim = c, bc_Children = []\<rparr>]
      in if IsRoot c then build_tree claims claimMap res
         else case claimMap (cl_ParentContractIndex c) of
           None \<Rightarrow> None
         | Some p \<Rightarrow> build_tree claims claimMap (res[p := (res ! p)\<lparr>bc_Children := bc_Children (res ! p) @ [n]\<rparr>]))"

definition CreateBidirectionalTree :: "EnrichedClaim list \<Rightarrow> BidirectionalClaim list option" where
  "CreateBidirectionalTree claims = build_tree claims Map.empty []"

subsection \<open>Resolution\<close>

text \<open>One child: the state is the counter claimant and the leftmost counter so far.\<close>

definition check_child :: "BidirectionalClaim list \<Rightarrow> nat \<Rightarrow> address \<times> int option \<Rightarrow> address \<times> int option" where
  "check_child tree child s =
     (let c = bc_Claim (tree ! child) in
      if cl_CounteredBy c \<noteq> 0 then s
      else if (case snd s of None \<Rightarrow> True | Some leftmostCounter \<Rightarrow> IndexAtDepth (cl_Position c) < leftmostCounter)
      then (cl_Claimant c, Some (IndexAtDepth (cl_Position c)))
      else s)"

definition resolve_claim :: "nat \<Rightarrow> BidirectionalClaim list \<Rightarrow> BidirectionalClaim list" where
  "resolve_claim i tree =
     (let claim = tree ! i;
          s = fold (check_child tree) (bc_Children claim) (cl_CounteredBy (bc_Claim claim), None)
      in tree[i := claim\<lparr>bc_Claim := (bc_Claim claim)\<lparr>cl_CounteredBy := fst s\<rparr>\<rparr>])"

definition Resolve :: "BidirectionalClaim list \<Rightarrow> GameStatus \<times> BidirectionalClaim list" where
  "Resolve tree =
     (let tree = fold resolve_claim (rev [0..<length tree]) tree in
      (if tree = [] \<or> cl_CounteredBy (bc_Claim (tree ! 0)) = 0 then GameStatusDefenderWon else GameStatusChallengerWon, tree))"

subsection \<open>Forecast\<close>

record EnrichedGameData =
  gd_Timestamp :: u64
  gd_L2SequenceNumber :: u64
  gd_Status :: GameStatus
  gd_BlockNumberChallenged :: bool
  gd_Claims :: "EnrichedClaim list"
  gd_AgreeWithClaim :: bool

record forecastBatch =
  AgreeDefenderAhead :: int
  DisagreeDefenderAhead :: int
  AgreeChallengerAhead :: int
  DisagreeChallengerAhead :: int
  AgreeDefenderWins :: int
  DisagreeDefenderWins :: int
  AgreeChallengerWins :: int
  DisagreeChallengerWins :: int
  LatestValidProposalL2Block :: u64
  LatestInvalidProposal :: u64
  LatestValidProposal :: u64

definition zero_forecastBatch :: forecastBatch where
  "zero_forecastBatch = \<lparr>AgreeDefenderAhead = 0, DisagreeDefenderAhead = 0, AgreeChallengerAhead = 0, DisagreeChallengerAhead = 0,
     AgreeDefenderWins = 0, DisagreeDefenderWins = 0, AgreeChallengerWins = 0, DisagreeChallengerWins = 0,
     LatestValidProposalL2Block = 0, LatestInvalidProposal = 0, LatestValidProposal = 0\<rparr>"

definition latest_proposals :: "EnrichedGameData \<Rightarrow> forecastBatch \<Rightarrow> forecastBatch" where
  "latest_proposals game m =
     (if \<not> gd_AgreeWithClaim game
      then (if LatestInvalidProposal m < gd_Timestamp game then m\<lparr>LatestInvalidProposal := gd_Timestamp game\<rparr> else m)
      else let m = (if LatestValidProposal m < gd_Timestamp game then m\<lparr>LatestValidProposal := gd_Timestamp game\<rparr> else m)
           in if LatestValidProposalL2Block m < gd_L2SequenceNumber game
              then m\<lparr>LatestValidProposalL2Block := gd_L2SequenceNumber game\<rparr> else m)"

text \<open>\<open>None\<close> is the panic while the tree is built.\<close>

definition forecastStatus :: "EnrichedGameData \<Rightarrow> GameStatus option" where
  "forecastStatus game =
     (if gd_BlockNumberChallenged game then Some GameStatusChallengerWon
      else map_option (\<lambda>tree. fst (Resolve tree)) (CreateBidirectionalTree (gd_Claims game)))"

definition forecastGame :: "EnrichedGameData \<Rightarrow> forecastBatch \<Rightarrow> forecastBatch option" where
  "forecastGame game m =
     (let m = latest_proposals game m; agreement = gd_AgreeWithClaim game in
      if gd_Status game \<noteq> GameStatusInProgress
      then Some (if gd_Status game = GameStatusDefenderWon
                 then (if agreement then m\<lparr>AgreeDefenderWins := AgreeDefenderWins m + 1\<rparr> else m\<lparr>DisagreeDefenderWins := DisagreeDefenderWins m + 1\<rparr>)
                 else if gd_Status game = GameStatusChallengerWon
                 then (if agreement then m\<lparr>AgreeChallengerWins := AgreeChallengerWins m + 1\<rparr> else m\<lparr>DisagreeChallengerWins := DisagreeChallengerWins m + 1\<rparr>)
                 else m)
      else map_option (\<lambda>forecast.
          if agreement
          then (if forecast = GameStatusChallengerWon then m\<lparr>AgreeChallengerAhead := AgreeChallengerAhead m + 1\<rparr>
                else m\<lparr>AgreeDefenderAhead := AgreeDefenderAhead m + 1\<rparr>)
          else (if forecast = GameStatusDefenderWon then m\<lparr>DisagreeDefenderAhead := DisagreeDefenderAhead m + 1\<rparr>
                else m\<lparr>DisagreeChallengerAhead := DisagreeChallengerAhead m + 1\<rparr>))
        (forecastStatus game))"

fun Forecast :: "EnrichedGameData list \<Rightarrow> forecastBatch \<Rightarrow> forecastBatch option" where
  "Forecast [] batch = Some batch"
| "Forecast (game # games) batch = (case forecastGame game batch of None \<Rightarrow> None | Some batch \<Rightarrow> Forecast games batch)"

section \<open>The tree of a well-formed game\<close>

definition children :: "Claim list \<Rightarrow> nat \<Rightarrow> nat \<Rightarrow> nat list" where
  "children cs n i = filter (\<lambda>j. pidx cs j = i) [Suc i..<n]"

definition tree_of :: "Claim list \<Rightarrow> nat \<Rightarrow> BidirectionalClaim list" where
  "tree_of cs n = map (\<lambda>i. \<lparr>bc_Claim = cs ! i, bc_Children = children cs n i\<rparr>) [0..<n]"

lemma tree_of_simps [simp]: "length (tree_of cs n) = n" "i < n \<Longrightarrow> tree_of cs n ! i = \<lparr>bc_Claim = cs ! i, bc_Children = children cs n i\<rparr>"
  by (simp_all add: tree_of_def)

lemma children_Suc:
  assumes "pidx cs n < n"
  shows "i < n \<Longrightarrow> children cs (Suc n) i = children cs n i @ (if pidx cs n = i then [n] else [])" "children cs (Suc n) n = []"
  using assms by (simp_all add: children_def)

lemma tree_of_Suc:
  assumes "wf_claims D cs" and "0 < n" and "n < length cs"
  shows "tree_of cs (Suc n) =
    (let res = tree_of cs n @ [\<lparr>bc_Claim = cs ! n, bc_Children = []\<rparr>]; p = pidx cs n
     in res[p := (res ! p)\<lparr>bc_Children := bc_Children (res ! p) @ [n]\<rparr>])"
  using wf_step(2) [OF assms] by (auto intro!: nth_equalityI simp: Let_def nth_append nth_list_update children_Suc less_Suc_eq)

definition index_map :: "nat \<Rightarrow> int \<rightharpoonup> nat" where
  "index_map n x = (if 0 \<le> x \<and> x < int n then Some (nat x) else None)"

lemma index_map_simps: "index_map 0 = Map.empty" "(index_map n)(int n \<mapsto> n) = index_map (Suc n)"
  by (auto simp: index_map_def fun_eq_iff)

lemma build_tree_wf:
  assumes "wf_claims D cs" and "cs = map ec_Claim claims" and "n \<le> length cs"
  shows "build_tree (drop n claims) (index_map n) (tree_of cs n) = Some (tree_of cs (length cs))"
  using assms(3)
proof (induction "length cs - n" arbitrary: n)
  case 0
  then show ?case using assms(2) by simp
next
  case (Suc k)
  then have n: "n < length cs" "n < length claims" using assms(2) by simp_all
  have d: "drop n claims = claims ! n # drop (Suc n) claims" using n(2) by (simp add: Cons_nth_drop_Suc)
  have c: "ec_Claim (claims ! n) = cs ! n" "cl_ContractIndex (cs ! n) = int n" "IsRoot (cs ! n) \<longleftrightarrow> n = 0"
    using assms(2) n(2) wf_index [OF assms(1) n(1)] wf_positions(5) [OF assms(1) n(1)] by simp_all
  have ih: "build_tree (drop (Suc n) claims) (index_map (Suc n)) (tree_of cs (Suc n)) = Some (tree_of cs (length cs))"
    using Suc n(1) by simp
  show ?case
  proof (cases "n = 0")
    case True
    moreover have "tree_of cs (Suc 0) = [\<lparr>bc_Claim = cs ! 0, bc_Children = []\<rparr>]" by (simp add: tree_of_def children_def)
    ultimately show ?thesis using ih c index_map_simps(2) [of 0] unfolding d by (simp add: Let_def tree_of_def del: fun_upd_apply) 
  next
    case False
    then have "index_map (Suc n) (cl_ParentContractIndex (cs ! n)) = Some (pidx cs n)"
      using wf_step(1,2) [OF assms(1) _ n(1)] by (auto simp: index_map_def)
    then show ?thesis
      using ih c False tree_of_Suc [OF assms(1) _ n(1)] unfolding d by (simp add: Let_def index_map_simps(2) del: fun_upd_apply)
  qed
qed

lemma CreateBidirectionalTree_wf:
  "wf_claims D (map ec_Claim claims) \<Longrightarrow> CreateBidirectionalTree claims = Some (tree_of (map ec_Claim claims) (length claims))"
  using build_tree_wf [of D "map ec_Claim claims" claims 0] by (simp add: CreateBidirectionalTree_def index_map_simps(1) tree_of_def)

section \<open>Resolution as a recursive function\<close>

lemma arg_min_list_skip: "f y < f a \<Longrightarrow> arg_min_list f (a # y # zs) = arg_min_list f (y # zs)" for f :: "'a \<Rightarrow> 'b :: linorder"
  using f_arg_min_list_f [of "y # zs" f] Min_le [of "f ` set (y # zs)" "f y"] by (auto simp: Let_def)

lemma arg_min_list_keep: "f a \<le> f y \<Longrightarrow> arg_min_list f (a # y # zs) = arg_min_list f (a # zs)" for f :: "'a \<Rightarrow> 'b :: linorder"
  by (cases zs) (auto simp: Let_def)

definition cidx :: "Claim list \<Rightarrow> nat \<Rightarrow> int" where "cidx cs j = IndexAtDepth (cl_Position (cs ! j))"

function resolved :: "Claim list \<Rightarrow> nat \<Rightarrow> address" where
  "resolved cs i =
     (let js = filter (\<lambda>j. pidx cs j = i \<and> resolved cs j = 0) [Suc i..<length cs] in
      if js = [] then cl_CounteredBy (cs ! i) else cl_Claimant (cs ! arg_min_list (cidx cs) js))"
  by auto
termination by (relation "measure (\<lambda>(cs, i). length cs - i)") auto

declare resolved.simps [simp del]

lemma check_child_eq:
  "bc_Claim (tree ! j) = (cs ! j)\<lparr>cl_CounteredBy := r\<rparr> \<Longrightarrow> check_child tree j s =
     (if r \<noteq> 0 then s else if snd s = None \<or> cidx cs j < the (snd s) then (cl_Claimant (cs ! j), Some (cidx cs j)) else s)"
  by (auto simp: check_child_def Let_def cidx_def split: option.splits)

lemma check_children_Some:
  assumes "\<forall>j\<in>set js. bc_Claim (tree ! j) = (cs ! j)\<lparr>cl_CounteredBy := r j\<rparr>"
  shows "fold (check_child tree) js (cl_Claimant (cs ! a), Some (cidx cs a)) =
    (let m = arg_min_list (cidx cs) (a # filter (\<lambda>j. r j = 0) js) in (cl_Claimant (cs ! m), Some (cidx cs m)))"
  using assms
proof (induction js arbitrary: a)
  case (Cons j js)
  then have "check_child tree j s = (if r j \<noteq> 0 then s else if snd s = None \<or> cidx cs j < the (snd s) then (cl_Claimant (cs ! j), Some (cidx cs j)) else s)" for s
    by (intro check_child_eq) simp
  with Cons show ?case
    using arg_min_list_skip [of "cidx cs" j a "filter (\<lambda>j. r j = 0) js"] arg_min_list_keep [of "cidx cs" a j "filter (\<lambda>j. r j = 0) js"]
    by (simp del: arg_min_list.simps add: not_less)
qed simp

lemma check_children_None:
  assumes "\<forall>j\<in>set js. bc_Claim (tree ! j) = (cs ! j)\<lparr>cl_CounteredBy := r j\<rparr>"
  shows "fst (fold (check_child tree) js (c, None)) =
    (let ks = filter (\<lambda>j. r j = 0) js in if ks = [] then c else cl_Claimant (cs ! arg_min_list (cidx cs) ks))"
  using assms
proof (induction js)
  case (Cons j js)
  then have "check_child tree j s = (if r j \<noteq> 0 then s else if snd s = None \<or> cidx cs j < the (snd s) then (cl_Claimant (cs ! j), Some (cidx cs j)) else s)" for s
    by (intro check_child_eq) simp
  with Cons show ?case
    using check_children_Some [where js = js and tree = tree and cs = cs and r = r and a = j] by (simp del: arg_min_list.simps add: Let_def)
qed simp

lemma resolve_loop:
  assumes "n = length cs" and "i \<le> n"
  shows "fold resolve_claim (rev [i..<n]) (tree_of cs n) =
    map (\<lambda>j. \<lparr>bc_Claim = if i \<le> j then (cs ! j)\<lparr>cl_CounteredBy := resolved cs j\<rparr> else cs ! j, bc_Children = children cs n j\<rparr>) [0..<n]"
  using assms(2)
proof (induction "n - i" arbitrary: i)
  case 0
  then show ?case by (simp add: tree_of_def)
next
  case (Suc k)
  then have i: "i < n" by simp
  let ?t = "map (\<lambda>j. \<lparr>bc_Claim = if Suc i \<le> j then (cs ! j)\<lparr>cl_CounteredBy := resolved cs j\<rparr> else cs ! j, bc_Children = children cs n j\<rparr>) [0..<n]"
  have "rev [i..<n] = rev [Suc i..<n] @ [i]" using i by (simp add: upt_conv_Cons)
  moreover have "fold resolve_claim (rev [Suc i..<n]) (tree_of cs n) = ?t" using Suc by simp
  ultimately have s: "fold resolve_claim (rev [i..<n]) (tree_of cs n) = resolve_claim i ?t" by simp
  have "fst (fold (check_child ?t) (children cs n i) (cl_CounteredBy (cs ! i), None)) = resolved cs i"
  proof (subst check_children_None [where cs = cs and r = "resolved cs"])
    show "\<forall>j\<in>set (children cs n i). bc_Claim (?t ! j) = (cs ! j)\<lparr>cl_CounteredBy := resolved cs j\<rparr>" by (auto simp: children_def)
    show "(let ks = filter (\<lambda>j. resolved cs j = 0) (children cs n i)
        in if ks = [] then cl_CounteredBy (cs ! i) else cl_Claimant (cs ! arg_min_list (cidx cs) ks)) = resolved cs i"
      by (subst resolved.simps [of cs i]) (simp add: children_def assms(1) conj_commute)
  qed
  then show ?case using i unfolding s by (auto intro!: nth_equalityI simp: resolve_claim_def Let_def nth_list_update)
qed

lemma Resolve_tree:
  assumes "cs \<noteq> []"
  shows "Resolve (tree_of cs (length cs)) =
    (if resolved cs 0 = 0 then GameStatusDefenderWon else GameStatusChallengerWon,
     map (\<lambda>j. \<lparr>bc_Claim = (cs ! j)\<lparr>cl_CounteredBy := resolved cs j\<rparr>, bc_Children = children cs (length cs) j\<rparr>) [0..<length cs])"
  using resolve_loop [OF refl, of 0 cs] assms by (simp add: Resolve_def Let_def)

section \<open>Games in which the solver has nothing left to do\<close>

lemma tix_mono:
  assumes "pos_depth p = pos_depth q" and "IndexAtDepth p \<le> IndexAtDepth q"
  shows "tix D p \<le> tix D q"
proof -
  have "(IndexAtDepth p + 1) * pspan D q \<le> (IndexAtDepth q + 1) * pspan D q" using assms(2) by (intro mult_right_mono) (simp_all add: pspan_def)
  moreover have "pspan D p = pspan D q" using assms(1) by (simp add: pspan_def)
  ultimately show ?thesis unfolding tix_def using diff_right_mono by metis
qed

lemma arg_min_list_le: "j \<in> set js \<Longrightarrow> f (arg_min_list f js) \<le> f j" for f :: "'a \<Rightarrow> 'b :: linorder"
  using f_arg_min_list_f [of js f] Min_le [of "f ` set js" "f j"] by force

text \<open>What is known of the game: claims have an author, and nobody has stepped against an honest claim.\<close>

definition unrefuted :: "'e getter \<Rightarrow> u64 \<Rightarrow> Claim list \<Rightarrow> bool" where
  "unrefuted get D cs \<longleftrightarrow> (\<forall>i<length cs. cl_Claimant (cs ! i) \<noteq> 0 \<and> (honest get D cs i \<longrightarrow> cl_CounteredBy (cs ! i) = 0))"

lemma leaf_no_children:
  assumes "wf_claims D cs" and "cl_Depth (cs ! i) = D" and "j \<in> set [Suc i..<length cs]"
  shows "pidx cs j \<noteq> i"
  using wf_step(3) [OF assms(1), of j] assms(2,3) by (auto simp: answers_def)

lemma plan_child:
  assumes "wf_claims D cs" and "i < length cs" and "plan get D cs i = Some m" and "k < length cs" and "key (cs ! k) = key m"
  shows "i < k" "pidx cs k = i" "honest get D cs k"
proof -
  note pp = plan_parent [OF assms(1-3)]
  have "cl_Depth (cs ! k) \<noteq> 0" using pp(2,3) assms(5) unat_Suc_depth [of "cl_Depth (cs ! i)" D] by (auto simp: key_def unat_eq_0 [symmetric])
  then have k: "0 < k" using wf_positions(4) [OF assms(1,4)] by auto
  show p: "pidx cs k = i" using pp(1) assms(5) by (simp add: key_def)
  then show "i < k" using wf_step(2) [OF assms(1) k assms(4)] by simp
  show "honest get D cs k" using strat_child(1) [OF assms(1) k assms(4), of get] p assms(3,5) by metis
qed

lemma resolved_honest:
  assumes "wf_claims D cs" and "unrefuted get D cs" and "honest get D cs i" and "i < length cs"
    and "\<And>j. i < j \<Longrightarrow> j < length cs \<Longrightarrow> countered get D cs j \<Longrightarrow> resolved cs j \<noteq> 0"
  shows "resolved cs i = 0"
proof -
  have np: "plan get D cs i = None" using plan_parent(6) [OF assms(1,4)] not_honest_countered [OF assms(1,4)] assms(3) by (cases "plan get D cs i") auto
  have "countered get D cs j" if "pidx cs j = i" "j \<in> set [Suc i..<length cs]" for j
    using strat_child [OF assms(1), of j get] np assms(3) that by auto
  then have "filter (\<lambda>j. pidx cs j = i \<and> resolved cs j = 0) [Suc i..<length cs] = []" using assms(5) by (auto simp: filter_empty_conv)
  then show ?thesis using assms(2-4) by (subst resolved.simps) (simp add: Let_def unrefuted_def)
qed

lemma resolved_counter:
  assumes "wf_claims D cs" and "i < length cs" and "plan get D cs i = Some m" and "k < length cs" and "key (cs ! k) = key m"
    and "\<And>j. i < j \<Longrightarrow> j < length cs \<Longrightarrow> honest get D cs j \<Longrightarrow> resolved cs j = 0"
    and "\<And>j. i < j \<Longrightarrow> j < length cs \<Longrightarrow> countered get D cs j \<Longrightarrow> resolved cs j \<noteq> 0"
  shows "\<exists>j<length cs. key (cs ! j) = key m \<and> resolved cs i = cl_Claimant (cs ! j)"
proof -
  let ?js = "filter (\<lambda>j. pidx cs j = i \<and> resolved cs j = 0) [Suc i..<length cs]" and ?j = "arg_min_list (cidx cs) (filter (\<lambda>j. pidx cs j = i \<and> resolved cs j = 0) [Suc i..<length cs])"
  note k = plan_child [OF assms(1-5)]
  have kj: "k \<in> set ?js" using k assms(4,6) by simp
  then have ne: "?js \<noteq> []" by (metis empty_iff list.set(1))
  then have "?j \<in> set ?js" by (rule arg_min_list_in)
  then have j: "i < ?j" "?j < length cs" "pidx cs ?j = i" "resolved cs ?j = 0" by simp_all
  then have j0: "0 < ?j" by simp
  have "cl_Depth (cs ! ?j) = cl_Depth (cs ! k)"
    using wf_step(3) [OF assms(1) j0 j(2)] wf_step(3) [OF assms(1) _ assms(4)] j(3) k(1,2) by (auto simp: answers_def Attack_simps Defend_simps)
  moreover have "cidx cs ?j \<le> cidx cs k" using arg_min_list_le [OF kj] .
  ultimately have "ctix D cs ?j \<le> tix D (cl_Position m)" using assms(5) tix_mono by (auto simp: cidx_def key_def)
  moreover have "\<not> countered get D cs ?j" using assms(7) [OF j(1,2)] j(4) by blast
  ultimately have "honest get D cs ?j" using strat_child(2) [OF assms(1) j0 j(2), of get] j(3) assms(3) by auto
  then have "key (cs ! ?j) = key m" using strat_child(1) [OF assms(1) j0 j(2), of get] j(3) assms(3) by auto
  moreover have "resolved cs i = cl_Claimant (cs ! ?j)" using ne by (subst resolved.simps) (simp add: Let_def del: filter_empty_conv)
  ultimately show ?thesis using j(2) by blast
qed

lemma resolved_strategy:
  assumes "wf_claims D cs" and "unrefuted get D cs" and "\<forall>k<length cs. settled K get D cs k" and "i < length cs"
  shows "(honest get D cs i \<longrightarrow> resolved cs i = 0) \<and> (countered get D cs i \<longrightarrow> resolved cs i \<noteq> 0) \<and>
    (\<forall>m. plan get D cs i = Some m \<longrightarrow> (\<exists>j<length cs. key (cs ! j) = key m \<and> resolved cs i = cl_Claimant (cs ! j)))"
  using assms(4)
proof (induction "length cs - i" arbitrary: i rule: less_induct)
  case less
  have ih: "honest get D cs j \<Longrightarrow> resolved cs j = 0" "countered get D cs j \<Longrightarrow> resolved cs j \<noteq> 0" if "i < j" "j < length cs" for j
    using less(1) [OF _ that(2)] that by (simp_all add: diff_less_mono2)
  have c: "\<exists>j<length cs. key (cs ! j) = key m \<and> resolved cs i = cl_Claimant (cs ! j)" if p: "plan get D cs i = Some m" for m
  proof -
    obtain k where "k < length cs" "key (cs ! k) = key m" using assms(3) less(2) p by (auto simp: settled_def)
    then show ?thesis by (rule resolved_counter [OF assms(1) less(2) p]) (use ih in simp_all)
  qed
  have "resolved cs i \<noteq> 0" if co: "countered get D cs i"
  proof (cases "cl_Depth (cs ! i) = D")
    case True
    have "filter (\<lambda>j. pidx cs j = i \<and> resolved cs j = 0) [Suc i..<length cs] = []"
      using leaf_no_children [OF assms(1) True] by (auto simp: filter_empty_conv)
    moreover have "cl_CounteredBy (cs ! i) \<noteq> 0" using assms(3) less(2) co True by (simp add: settled_def)
    ultimately show ?thesis by (subst resolved.simps) (simp add: Let_def)
  next
    case False
    have "agrees get (cs ! i) \<Longrightarrow> i \<noteq> 0" using co strat_root [of get D cs] by (cases "i = 0") simp_all
    then obtain m where "plan get D cs i = Some m" using co False by (cases "agrees get (cs ! i)") (auto simp: plan_eq)
    then show ?thesis using c assms(2) unfolding unrefuted_def by metis
  qed
  moreover have "resolved cs i = 0" if "honest get D cs i" using resolved_honest [OF assms(1,2) that less(2)] ih(2) by simp
  ultimately show ?case using c by simp
qed

section \<open>Properties\<close>

text \<open>C2: The resolution of a game favours what the solver agrees with. Let the solver of any trace find nothing to do in a well-formed game, where nobody has
  stepped against an honest claim and where the identifiers tell apart the claims and the moves that the solver may make. (There are well-formed games where they do not, and the solver
  then takes a needed move for one that was made; see \<open>Claim_Identity\<close>.) Then the defender wins if and only if the solver agrees with the root claim. Honest claims end uncountered, every claim that is to be
  countered ends countered, and where the counter is a claim, the author of the honest counter is paid, whoever else answered and in whatever order.\<close>

theorem honest_actor_wins:
  fixes A :: "('e, 'o, 'ch) TraceAccessor"
  assumes "wf_claims D (map ec_Claim claims)" and "cs = map ec_Claim claims" and "get = ta_Get A (NewGameState K cs D)"
    and "ids_ok K get cs" and "unrefuted get D cs"
    and "CalculateNextActions K (newClaimSolver D A) (NewGameState K cs D) = ([], None)"
  shows "\<exists>tree tree'. CreateBidirectionalTree claims = Some tree \<and>
    Resolve tree = (if agrees get (cs ! 0) then GameStatusDefenderWon else GameStatusChallengerWon, tree') \<and> length tree' = length cs \<and>
    (\<forall>i<length cs. (honest get D cs i \<longrightarrow> cl_CounteredBy (bc_Claim (tree' ! i)) = 0) \<and>
       (countered get D cs i \<longrightarrow> cl_CounteredBy (bc_Claim (tree' ! i)) \<noteq> 0) \<and>
       (\<forall>m. plan get D cs i = Some m \<longrightarrow> (\<exists>j<length cs. key (cs ! j) = key m \<and> cl_CounteredBy (bc_Claim (tree' ! i)) = cl_Claimant (cs ! j))))"
proof -
  have wf: "wf_claims D cs" "cs \<noteq> []" "length claims = length cs" using assms(1,2) wf_root(1) by auto
  have "\<forall>k<length cs. settled K get D cs k"
    using CalculateNextActions_Inr [of K "newClaimSolver D A" cs D "[]" None] assms(3,4,6) wf(1) by (simp add: newClaimSolver_def)
  note r = resolved_strategy [OF wf(1) assms(5) this]
  let ?tree' = "map (\<lambda>j. \<lparr>bc_Claim = (cs ! j)\<lparr>cl_CounteredBy := resolved cs j\<rparr>, bc_Children = children cs (length cs) j\<rparr>) [0..<length cs]"
  have "resolved cs 0 = 0 \<longleftrightarrow> agrees get (cs ! 0)" using r [of 0] wf(2) strat_root [of get D cs] by auto
  then have "Resolve (tree_of cs (length cs)) = (if agrees get (cs ! 0) then GameStatusDefenderWon else GameStatusChallengerWon, ?tree')"
    using Resolve_tree [OF wf(2)] by simp
  moreover have "CreateBidirectionalTree claims = Some (tree_of cs (length cs))" using CreateBidirectionalTree_wf [OF assms(1)] assms(2) by simp
  ultimately show ?thesis using r by (intro exI [of _ "tree_of cs (length cs)"] exI [of _ ?tree']) simp
qed

definition sample_counter :: Claim where "sample_counter = sample_claim 1 0 (NewPosition 1 0) 0"

lemma sample_counter_simps [simp]:
  "cl_Value sample_counter = 0" "cl_Position sample_counter = NewPosition 1 0" "cl_ContractIndex sample_counter = 1" "\<not> IsRoot sample_counter"
  "cl_CounteredBy sample_counter = 0" "cl_CounteredBy sample_root = 0" "cl_Claimant sample_counter = 7" "cl_Claimant sample_root = 7"
  by code_simp+

lemma sample_counter_ids [simp]:
  "claim_ID sample_ids sample_counter = 512" "claim_ID sample_ids (new_claim 0 (Attack (NewPosition 1 0)) 1) = 1025"
  "claim_ID sample_ids (new_claim 0 (Defend (NewPosition 1 0)) 1) = 1537"
  by code_simp+

lemma sample_counter_candidates:
  "candidates (simple sample_trace) [sample_root, sample_counter] \<subseteq>
     {new_claim 0 (Attack (NewPosition 0 0)) 0, new_claim 0 (Attack (NewPosition 1 0)) 1, new_claim 0 (Defend (NewPosition 1 0)) 1}"
  unfolding candidates_def by (auto simp: sample_trace_def answer_def)

lemma sample_counter_told_apart: "ids_ok sample_ids (simple sample_trace) [sample_root, sample_counter]"
proof -
  let ?M = "{new_claim 0 (Attack (NewPosition 0 0)) 0, new_claim 0 (Attack (NewPosition 1 0)) 1, new_claim 0 (Defend (NewPosition 1 0)) 1}"
  have "key (new_claim 0 (Attack (NewPosition 0 0)) 0) = key sample_counter" by code_simp
  then have "\<forall>m\<in>?M. \<forall>c\<in>set [sample_root, sample_counter] \<union> ?M. claim_ID sample_ids m = claim_ID sample_ids c \<longrightarrow> key m = key c" by simp
  moreover have "inj_on (claim_ID sample_ids) (set [sample_root, sample_counter])" by (auto simp: inj_on_def)
  ultimately show ?thesis using sample_counter_candidates unfolding ids_ok_def by blast
qed

lemma sample_counter_wf: "wf_claims 1 [sample_root, sample_counter]" by code_simp

lemma sample_counter_actions:
  "CalculateNextActions sample_ids (newClaimSolver 1 (NewSimpleTraceAccessor sample_trace)) (NewGameState sample_ids [sample_root, sample_counter] 1) = ([], None)"
  by (simp add: CalculateNextActions_def AgreeWithRootClaim_def agreeWithClaim_def trace_get_def newClaimSolver_def sample_trace_def initial_tracker_def
      newHonestClaimTracker_def next_action_def calculateMove_def calculateStep_def AttemptStep_def AddHonestClaim_def NextMove_def shouldCounter_def IsHonest_def
      map_true_def attack_def Let_def IsDuplicate_iff)

theorem honest_actor_wins_witness:
  "\<exists>tree tree'. CreateBidirectionalTree [\<lparr>ec_Claim = sample_root, ec_Resolved = False\<rparr>, \<lparr>ec_Claim = sample_counter, ec_Resolved = False\<rparr>] = Some tree \<and>
    Resolve tree = (GameStatusChallengerWon, tree')"
proof -
  let ?claims = "[\<lparr>ec_Claim = sample_root, ec_Resolved = False\<rparr>, \<lparr>ec_Claim = sample_counter, ec_Resolved = False\<rparr>]"
  let ?get = "ta_Get (NewSimpleTraceAccessor sample_trace) (NewGameState sample_ids [sample_root, sample_counter] 1)"
  have "unrefuted ?get 1 [sample_root, sample_counter]" by (auto simp: unrefuted_def less_Suc_eq)
  moreover have "\<not> agrees ?get ([sample_root, sample_counter] ! 0)" by (simp add: agrees_def sample_trace_def)
  moreover have "ids_ok sample_ids ?get [sample_root, sample_counter]" using sample_counter_told_apart by simp
  moreover have "wf_claims 1 (map ec_Claim ?claims)" "[sample_root, sample_counter] = map ec_Claim ?claims" using sample_counter_wf by simp_all
  ultimately show ?thesis
    using honest_actor_wins [of 1 ?claims "[sample_root, sample_counter]" ?get "NewSimpleTraceAccessor sample_trace" sample_ids, OF _ _ refl _ _ sample_counter_actions]
    by (simp only: if_False) blast
qed

lemma forecast_total:
  "forecastGame game m = Some m' \<Longrightarrow> gd_Status game \<in> {GameStatusInProgress, GameStatusChallengerWon, GameStatusDefenderWon} \<Longrightarrow>
     AgreeDefenderAhead m' + DisagreeDefenderAhead m' + AgreeChallengerAhead m' + DisagreeChallengerAhead m' + AgreeDefenderWins m' +
       DisagreeDefenderWins m' + AgreeChallengerWins m' + DisagreeChallengerWins m' =
     AgreeDefenderAhead m + DisagreeDefenderAhead m + AgreeChallengerAhead m + DisagreeChallengerAhead m + AgreeDefenderWins m +
       DisagreeDefenderWins m + AgreeChallengerWins m + DisagreeChallengerWins m + 1"
  by (auto simp: forecastGame_def latest_proposals_def Let_def split: if_splits)

end
