(* ===== verification/Claim_Identity.thy ===== *)
theory Claim_Identity
  imports Honest_Solver
begin

text \<open>
  What identifies a claim (\<open>Claim.ID\<close> of \<open>op-challenger/game/fault/types/types.go\<close>): a game in which two claims that differ have the same identifier, under every
  hash function. The results on the solver therefore have to assume that identifiers tell the claims of the game apart.
\<close>

section \<open>A game with a collision\<close>

text \<open>Claims 0 to 10 attack each other down to depth 10, the others all attack the root. The answer to claim 265 has index 4 in the tree, and claim 10 has
  index 1024: the bytes of the identifier of the one are 4, the value, 1 and 9, those of the other 4 and 0, the value, and 9.\<close>

definition colliding_claim :: "nat \<Rightarrow> Claim" where
  "colliding_claim i =
     (if i \<le> 10 then sample_claim i (int (i - 1)) (NewPosition (of_nat i) 0) (if i = 10 then 1 else 0)
      else sample_claim i 0 (NewPosition 1 0) (of_nat i))"

definition colliding_game :: "Claim list" where "colliding_game = map colliding_claim [0..<266]"

definition suppressed_move :: Claim where
  "suppressed_move = zero_Claim\<lparr>cl_Value := 0, cl_Position := Attack (cl_Position (colliding_game ! 265)), cl_ParentContractIndex := 265\<rparr>"

lemma Attack_leftmost: "Attack (NewPosition d 0) = NewPosition (d + 1) 0"
  by (simp add: Attack_def pos_move_def NewPosition_def IndexAtDepth_def boolToInt_def lshIndex_def)

lemma colliding_nth: "i < 266 \<Longrightarrow> colliding_game ! i = colliding_claim i" "length colliding_game = 266"
  by (simp_all add: colliding_game_def)

lemma colliding_simps:
  "cl_ContractIndex (colliding_claim i) = int i" "cl_ParentContractIndex (colliding_claim i) = (if i \<le> 10 then int (i - 1) else 0)"
  "cl_Position (colliding_claim i) = NewPosition (if i \<le> 10 then of_nat i else 1) 0"
  "cl_Value (colliding_claim i) = (if i < 10 then 0 else if i = 10 then 1 else of_nat i)"
  by (simp_all add: colliding_claim_def sample_claim_def)

lemma colliding_game_wf: "wf_claims 11 colliding_game"
proof -
  have "wf_claim 11 colliding_game i" if i: "i < 266" for i
  proof -
    note d = wf_claim_def colliding_nth colliding_simps answers_def Attack_leftmost
    consider "i = 0" | "0 < i" "i \<le> 10" | "10 < i" by linarith
    then show ?thesis
    proof cases
      case 2
      then obtain j where j: "i = Suc j" "j < 10" by (metis Suc_le_lessD Suc_pred')
      have "unat (word_of_nat j :: u64) = j" using j by (simp add: unat_of_nat take_bit_nat_eq_self)
      then have n: "(word_of_nat j :: u64) < 11" using j by (simp add: word_less_nat_alt)
      have q: "cl_Position (colliding_game ! j) = NewPosition (word_of_nat j) 0" "cl_Position (colliding_game ! i) = NewPosition (word_of_nat j + 1) 0"
        "pidx colliding_game i = j" "0 \<le> cl_ParentContractIndex (colliding_game ! i)" "cl_ContractIndex (colliding_game ! i) = int i"
        using j by (simp_all add: colliding_nth colliding_simps add.commute)
      have "j < i" using j by simp
      then show ?thesis using 2 n by (simp add: wf_claim_def answers_def q Attack_leftmost)
    qed (use i in \<open>simp_all add: d\<close>)
  qed
  then show ?thesis by (simp add: wf_claims_def colliding_nth) (auto simp: colliding_game_def)
qed

lemma ids_collide: "claim_ID K suppressed_move = claim_ID K (colliding_game ! 10)"
proof -
  have "big_Bytes (ToGIndex (cl_Position suppressed_move)) @ bytes32 (cl_Value suppressed_move) @ big_Bytes (cl_ParentContractIndex suppressed_move) =
    big_Bytes (ToGIndex (cl_Position (colliding_claim 10))) @ bytes32 (cl_Value (colliding_claim 10)) @ big_Bytes (cl_ParentContractIndex (colliding_claim 10))"
  by (simp add: suppressed_move_def colliding_nth colliding_simps Attack_leftmost) code_simp
  then show ?thesis by (simp add: claim_ID_def colliding_nth)
qed

lemma colliding_keys: "distinct (map key colliding_game)" "key suppressed_move \<notin> key ` set colliding_game"
proof -
  have "inj_on (key \<circ> colliding_claim) {0..<266}"
  proof (rule inj_onI)
    fix i j
    assume "i \<in> {0..<266}" "j \<in> {0..<266}" "(key \<circ> colliding_claim) i = (key \<circ> colliding_claim) j"
    then have k: "i < 266" "j < 266" "unat (word_of_nat (if i \<le> 10 then i else 1) :: u64) = unat (word_of_nat (if j \<le> 10 then j else 1) :: u64)"
      "unat (cl_Value (colliding_claim i)) = unat (cl_Value (colliding_claim j))"
      by (auto simp: key_def colliding_simps NewPosition_def)
    have u: "unat (word_of_nat n :: u64) = n" "unat (word_of_nat n :: hash) = n" if "n < 266" for n
      using that by (simp_all add: unat_of_nat take_bit_nat_eq_self)
    show "i = j" using k u [of i] u [of j] by (auto simp: colliding_simps split: if_splits)
  qed
  then show "distinct (map key colliding_game)" by (simp add: colliding_game_def distinct_map)
  have "key suppressed_move \<noteq> key (colliding_claim i)" for i by (auto simp: key_def suppressed_move_def colliding_simps)
  then show "key suppressed_move \<notin> key ` set colliding_game" by (auto simp: colliding_game_def)
qed

section \<open>Properties\<close>

text \<open>C23: Identifiers do not tell claims apart, whatever the hash. They are hashes of three fields written one after the other without lengths. There is a
  well-formed game without copies, and an answer to one of its claims that nobody has made, which the game takes for a duplicate: a claim at depth 10 with a chosen
  value stands for it. A solver that plans this answer does not make it.\<close>

theorem ids_not_injective:
  "wf_claims 11 colliding_game \<and> distinct (map key colliding_game) \<and> answers 11 (colliding_game ! 265) (cl_Position suppressed_move) \<and>
    cl_ParentContractIndex suppressed_move = 265 \<and> key suppressed_move \<notin> key ` set colliding_game \<and>
    IsDuplicate K (NewGameState K colliding_game 11) suppressed_move"
proof -
  have "colliding_game ! 10 \<in> set colliding_game" using nth_mem [of 10 colliding_game] by (simp add: colliding_nth(2))
  then have "IsDuplicate K (NewGameState K colliding_game 11) suppressed_move" using ids_collide by (auto simp: IsDuplicate_iff)
  moreover have "answers 11 (colliding_game ! 265) (cl_Position suppressed_move)"
    by (simp add: answers_def suppressed_move_def colliding_nth colliding_simps)
  moreover have "cl_ParentContractIndex suppressed_move = 265" by (simp add: suppressed_move_def)
  ultimately show ?thesis using colliding_game_wf colliding_keys by simp
qed

end
