(* ===== verification/Channel_Out.thy ===== *)
theory Channel_Out
  imports Channel_In_Reader L1_Info
begin

text \<open>
  The writing side of channels (\<open>op-node/rollup/derive/channel_out.go\<close>, \<open>span_channel_out.go\<close>): blocks become batches, batches a span batch, its
  encoding is compressed and cut into frames. Parameters are the RLP string encoding, the compressor, which is rewritten from the start each time, and the
  blocks and transactions of go-ethereum.
\<close>

section \<open>Definitions\<close>

text \<open>What the code asks of a transaction: its type, its data, and its binary encoding, which may fail.\<close>

record block_tx =
  bt_IsDeposit :: bool
  bt_Data :: "byte list"
  bt_Binary :: "byte list option"

record Block =
  blk_Hash :: hash
  blk_ParentHash :: hash
  blk_Number :: u64
  blk_Time :: u64
  blk_Transactions :: "block_tx list"

text \<open>The buffer of a compressor after a reset, after a write of some data, and after a write and a close, and the error of the last call.\<close>

record 'e compressor_lib =
  cp_Reset :: "byte list"
  cp_Write :: "byte list \<Rightarrow> byte list \<times> 'e option"
  cp_Close :: "byte list \<Rightarrow> byte list \<times> 'e option"

record ('al, 'au, 's, 'e) out_env =
  oe_lib :: "('al, 'au, 's) libraries"
  oe_rlp_string :: "byte list \<Rightarrow> byte list"
  oe_compressor :: "'e compressor_lib"
  oe_keccak :: keccak

datatype 'e out_error =
    ErrMaxFrameSizeTooSmall | ErrNotDepositTx | ErrTooManyRLPBytes | ErrChannelOutAlreadyClosed | ErrCompressorFull
  | NoTransactions | TxEncoding | BlockInfoError info_error | SpanBatchError span_error | CompressorError 'e | NilChainID | OutPanic

definition FrameV0OverHeadSize :: nat where "FrameV0OverHeadSize = 23"

subsection \<open>Blocks and frames\<close>

fun opaque_txs :: "block_tx list \<Rightarrow> 'e out_error + byte list list" where
  "opaque_txs [] = Inr []"
| "opaque_txs (tx # txs) =
     (if bt_IsDeposit tx then opaque_txs txs
      else case bt_Binary tx of
        None \<Rightarrow> Inl TxEncoding
      | Some otx \<Rightarrow> and_then (opaque_txs txs) (\<lambda>rest. Inr (otx # rest)))"

definition BlockToSingularBatch :: "keccak \<Rightarrow> Config \<Rightarrow> Block \<Rightarrow> 'e out_error + SingularBatch \<times> L1BlockInfo" where
  "BlockToSingularBatch K rollupCfg block =
     (if blk_Transactions block = [] then Inl NoTransactions
      else and_then (opaque_txs (blk_Transactions block)) (\<lambda>opaqueTxs.
      let l1InfoTx = hd (blk_Transactions block) in
      if \<not> bt_IsDeposit l1InfoTx then Inl ErrNotDepositTx
      else case L1BlockInfoFromBytes K rollupCfg (blk_Time block) (bt_Data l1InfoTx) of
        Inl e \<Rightarrow> Inl (BlockInfoError e)
      | Inr l1Info \<Rightarrow>
          Inr (\<lparr>sb_ParentHash = blk_ParentHash block, sb_EpochNum = li_Number l1Info, sb_EpochHash = li_BlockHash l1Info,
                sb_Timestamp = blk_Time block, sb_Transactions = opaqueTxs\<rparr>, l1Info)))"

text \<open>The frame to be filled: its header, and the number of bytes it takes from the channel.\<close>

definition createEmptyFrame :: "ChannelID \<Rightarrow> u64 \<Rightarrow> nat \<Rightarrow> bool \<Rightarrow> u64 \<Rightarrow> Frame \<times> nat" where
  "createEmptyFrame i frame readyBytes isClosed maxSize =
     (let maxDataSize = maxSize - word_of_nat FrameV0OverHeadSize;
          fits = maxDataSize \<ge> word_of_nat readyBytes
      in (\<lparr>ID = i, FrameNumber = ucast frame, Data = [], IsLast = (fits \<and> isClosed)\<rparr>,
          if fits then unat (word_of_nat readyBytes :: u64) else unat maxDataSize))"

text \<open>The data of a transaction that closes a channel of which only some frames are on L1. The loop over frame numbers is the code's, with a counter of 16 bits.\<close>

datatype force_error = NoFrames | InvalidID

partial_function (option) missing_frames :: "ChannelID \<Rightarrow> Frame list \<Rightarrow> u16 \<Rightarrow> u16 \<Rightarrow> byte list \<Rightarrow> byte list option" where
  "missing_frames i frames closeNumber n out =
     (if n \<le> closeNumber
      then missing_frames i frames closeNumber (n + 1)
             (if n \<in> FrameNumber ` set frames then out
              else out @ MarshalBinary \<lparr>ID = i, FrameNumber = n, Data = [], IsLast = False\<rparr>)
      else Some out)"

definition ForceCloseTxData :: "Frame list \<Rightarrow> (force_error + byte list) option" where
  "ForceCloseTxData frames =
     (case frames of
        [] \<Rightarrow> Some (Inl NoFrames)
      | first # _ \<Rightarrow>
          let i = ID first in
          if \<exists>f\<in>set frames. ID f \<noteq> i then Some (Inl InvalidID)
          else (case find IsLast frames of
              None \<Rightarrow> Some (Inr (DerivationVersion0 # MarshalBinary \<lparr>ID = i, FrameNumber = 0, Data = [], IsLast = True\<rparr>))
            | Some closing \<Rightarrow> map_option Inr (missing_frames i frames (FrameNumber closing) 0 [DerivationVersion0])))"

subsection \<open>Span channel out\<close>

record 'e SpanChannelOut =
  so_id :: ChannelID
  so_frame :: u64
  so_rlp :: "byte list \<times> byte list"
  so_rlpIndex :: nat
  so_lastCompressedRLPSize :: nat
  so_compressed :: "byte list option"
  so_target :: u64
  so_closed :: bool
  so_full :: "'e out_error option"
  so_spanBatch :: SpanBatchBuilder
  so_maxBlocksPerSpanBatch :: int
  so_sealedRLPBytes :: nat
  so_chainSpec :: ChainSpec

text \<open>The identifier is random. \<open>so_compressed\<close> is the buffer of the compressor, \<open>None\<close> once the compressor is discarded.\<close>

definition NewSpanChannelOut ::
  "('al, 'au, 's, 'e) out_env \<Rightarrow> ChannelID \<Rightarrow> u64 \<Rightarrow> ChainSpec \<Rightarrow> int \<Rightarrow> 'e out_error + 'e SpanChannelOut" where
  "NewSpanChannelOut E i targetOutputSize chainSpec maxBlocks =
     (case L2ChainID (config chainSpec) of
        None \<Rightarrow> Inl NilChainID
      | Some chainID \<Rightarrow>
          Inr \<lparr>so_id = i, so_frame = 0, so_rlp = ([], []), so_rlpIndex = 0, so_lastCompressedRLPSize = 0,
            so_compressed = Some (cp_Reset (oe_compressor E)), so_target = targetOutputSize, so_closed = False, so_full = None,
            so_spanBatch = NewSpanBatch (lib_codecs (oe_lib E)) (L2Time (cfg_Genesis (config chainSpec))) (nat chainID),
            so_maxBlocksPerSpanBatch = maxBlocks, so_sealedRLPBytes = 0, so_chainSpec = chainSpec\<rparr>)"

definition activeRLP :: "'e SpanChannelOut \<Rightarrow> byte list" where
  "activeRLP co = (if so_rlpIndex co = 0 then fst (so_rlp co) else snd (so_rlp co))"

definition inactiveRLP :: "'e SpanChannelOut \<Rightarrow> byte list" where
  "inactiveRLP co = (if (so_rlpIndex co + 1) mod 2 = 0 then fst (so_rlp co) else snd (so_rlp co))"

definition swapRLP :: "'e SpanChannelOut \<Rightarrow> 'e SpanChannelOut" where
  "swapRLP co = co\<lparr>so_rlpIndex := (so_rlpIndex co + 1) mod 2\<rparr>"

definition set_active :: "byte list \<Rightarrow> 'e SpanChannelOut \<Rightarrow> 'e SpanChannelOut" where
  "set_active bs co = co\<lparr>so_rlp := (if so_rlpIndex co = 0 then (bs, snd (so_rlp co)) else (fst (so_rlp co), bs))\<rparr>"

definition set_inactive :: "byte list \<Rightarrow> 'e SpanChannelOut \<Rightarrow> 'e SpanChannelOut" where
  "set_inactive bs co = swapRLP (set_active bs (swapRLP co))"

definition so_resetSpanBatch :: "('al, 'au, 's, 'e) out_env \<Rightarrow> 'e SpanChannelOut \<Rightarrow> 'e SpanChannelOut" where
  "so_resetSpanBatch E co =
     co\<lparr>so_spanBatch := NewSpanBatch (lib_codecs (oe_lib E)) (sp_GenesisTimestamp (so_spanBatch co)) (sp_ChainID (so_spanBatch co))\<rparr>"

definition so_Reset :: "('al, 'au, 's, 'e) out_env \<Rightarrow> ChannelID \<Rightarrow> 'e SpanChannelOut \<Rightarrow> 'e SpanChannelOut" where
  "so_Reset E newID co =
     so_resetSpanBatch E (co\<lparr>so_closed := False, so_full := None, so_frame := 0, so_sealedRLPBytes := 0, so_rlp := ([], []),
       so_lastCompressedRLPSize := 0, so_compressed := Some (cp_Reset (oe_compressor E)), so_id := newID\<rparr>)"

definition checkFull :: "nat \<Rightarrow> 'e SpanChannelOut \<Rightarrow> 'e SpanChannelOut" where
  "checkFull len co =
     (if so_full co \<noteq> None then co
      else if word_of_nat len \<ge> so_target co then co\<lparr>so_full := Some ErrCompressorFull\<rparr> else co)"

text \<open>The results of operations: an error that leaves a state, or none. A panic ends the run.\<close>

definition so_compress :: "('al, 'au, 's, 'e) out_env \<Rightarrow> 'e SpanChannelOut \<Rightarrow> 'e out_error option \<times> 'e SpanChannelOut" where
  "so_compress E co =
     (if so_compressed co = None then (Some OutPanic, co)
      else let bs = activeRLP co in
      case cp_Write (oe_compressor E) bs of
        (buf, Some e) \<Rightarrow> (Some (CompressorError e), co\<lparr>so_compressed := Some buf\<rparr>)
      | (_, None) \<Rightarrow>
          (case cp_Close (oe_compressor E) bs of
             (buf, Some e) \<Rightarrow> (Some (CompressorError e), co\<lparr>so_lastCompressedRLPSize := length bs, so_compressed := Some buf\<rparr>)
           | (buf, None) \<Rightarrow> (None, checkFull (length buf) (co\<lparr>so_lastCompressedRLPSize := length bs, so_compressed := Some buf\<rparr>))))"

definition ensureOpenSpanBatch :: "('al, 'au, 's, 'e) out_env \<Rightarrow> 'e SpanChannelOut \<Rightarrow> 'e out_error + 'e SpanChannelOut" where
  "ensureOpenSpanBatch E co =
     (if so_maxBlocksPerSpanBatch co = 0 \<or> int (length (sp_Batches (so_spanBatch co))) < so_maxBlocksPerSpanBatch co then Inr co
      else if length (inactiveRLP co) > length (activeRLP co) then Inl OutPanic
      else Inr (so_resetSpanBatch E (set_inactive (activeRLP co) (co\<lparr>so_sealedRLPBytes := length (activeRLP co)\<rparr>))))"

text \<open>Adding a batch. An error of the span batch leaves it half changed and a panic leaves nothing: these are \<open>Inl\<close>. Otherwise there is a state, and possibly an error.\<close>

definition so_addSingularBatch ::
  "('al, 'au, 's, 'e) out_env \<Rightarrow> SingularBatch \<Rightarrow> u64 \<Rightarrow> 'e SpanChannelOut \<Rightarrow> 'e out_error + 'e out_error option \<times> 'e SpanChannelOut" where
  "so_addSingularBatch E batch seqNum co =
     (if so_closed co then Inr (Some ErrChannelOutAlreadyClosed, co)
      else if so_full co \<noteq> None then Inr (so_full co, co)
      else and_then (ensureOpenSpanBatch E co) (\<lambda>co.
      case AppendSingularBatch (lib_codecs (oe_lib E)) (so_spanBatch co) batch seqNum of
        Inl e \<Rightarrow> Inl (SpanBatchError e)
      | Inr sb \<Rightarrow>
      case ToRawSpanBatch sb of
        Inl e \<Rightarrow> Inl (SpanBatchError e)
      | Inr rawSpanBatch \<Rightarrow>
          let co = swapRLP (co\<lparr>so_spanBatch := sb\<rparr>) in
          if length (activeRLP co) < so_sealedRLPBytes co then Inl OutPanic
          else case encodeTyped (oe_lib E) \<lparr>inner = InnerSpan rawSpanBatch, ComprAlgo = None\<rparr> of
            Inl e \<Rightarrow> Inl (SpanBatchError e)
          | Inr bs \<Rightarrow>
              let co = set_active (take (so_sealedRLPBytes co) (activeRLP co) @ oe_rlp_string E bs) co;
                  maxRLPBytesPerChannel = MaxRLPBytesPerChannel (so_chainSpec co) (sb_Timestamp batch) in
              if length (activeRLP co) > unat maxRLPBytesPerChannel
              then (case so_compress E (swapRLP co) of
                      (Some e, co) \<Rightarrow> Inr (Some e, co)
                    | (None, co) \<Rightarrow> Inr (Some ErrTooManyRLPBytes, co))
              else case so_compressed co of
                None \<Rightarrow> Inl OutPanic
              | Some buf \<Rightarrow>
                  let rlpGrowth = int (length (activeRLP co)) - int (so_lastCompressedRLPSize co) in
                  if word_of_int (int (length buf) + rlpGrowth) < so_target co then Inr (None, co)
                  else (case so_compress E co of
                      (Some e, co) \<Rightarrow> Inr (Some e, co)
                    | (None, co) \<Rightarrow>
                        (case so_full co of
                           None \<Rightarrow> Inr (None, co)
                         | Some err \<Rightarrow>
                             if so_sealedRLPBytes co = 0 \<and> length (sp_Batches (so_spanBatch co)) = 1 then Inr (None, co)
                             else if word_of_nat (length (the (so_compressed co))) = so_target co then Inr (None, co)
                             else (case so_compress E (swapRLP co) of
                                 (Some e, co) \<Rightarrow> Inr (Some e, co)
                               | (None, co) \<Rightarrow> Inr (Some err, co))))))"

definition so_AddBlock ::
  "('al, 'au, 's, 'e) out_env \<Rightarrow> Config \<Rightarrow> Block \<Rightarrow> 'e SpanChannelOut \<Rightarrow> 'e out_error + (L1BlockInfo option \<times> 'e out_error option) \<times> 'e SpanChannelOut" where
  "so_AddBlock E rollupCfg block co =
     (if so_closed co then Inr ((None, Some ErrChannelOutAlreadyClosed), co)
      else case BlockToSingularBatch (oe_keccak E) rollupCfg block of
        Inl e \<Rightarrow> Inr ((None, Some e), co)
      | Inr (batch, l1Info) \<Rightarrow>
          and_then (so_addSingularBatch E batch (li_SequenceNumber l1Info) co) (\<lambda>(err, co). Inr ((Some l1Info, err), co)))"

definition so_InputBytes :: "'e SpanChannelOut \<Rightarrow> nat" where "so_InputBytes co = length (activeRLP co)"

definition so_ReadyBytes :: "'e SpanChannelOut \<Rightarrow> nat option" where
  "so_ReadyBytes co = (if so_closed co \<or> so_full co \<noteq> None then map_option length (so_compressed co) else Some 0)"

definition so_Close :: "('al, 'au, 's, 'e) out_env \<Rightarrow> 'e SpanChannelOut \<Rightarrow> 'e out_error option \<times> 'e SpanChannelOut" where
  "so_Close E co =
     (if so_closed co then (Some ErrChannelOutAlreadyClosed, co)
      else let co = co\<lparr>so_closed := True\<rparr> in
      if so_full co \<noteq> None then (None, co) else so_compress E co)"

text \<open>The frame number, whether the frame is the last of the channel (the error is then \<open>io.EOF\<close>), and the bytes written.\<close>

definition so_OutputFrame :: "u64 \<Rightarrow> 'e SpanChannelOut \<Rightarrow> ('e out_error + u16 \<times> bool \<times> byte list) \<times> 'e SpanChannelOut" where
  "so_OutputFrame maxSize co =
     (if unat maxSize < FrameV0OverHeadSize then (Inl ErrMaxFrameSizeTooSmall, co)
      else case (so_ReadyBytes co, so_compressed co) of
        (Some ready, Some buf) \<Rightarrow>
          let (f, n) = createEmptyFrame (so_id co) (so_frame co) ready (so_closed co) maxSize in
          if n > length buf then (Inl OutPanic, co)
          else let f = f\<lparr>Data := take n buf\<rparr> in
               (Inr (FrameNumber f, IsLast f, MarshalBinary f), co\<lparr>so_compressed := Some (drop n buf), so_frame := so_frame co + 1\<rparr>)
      | _ \<Rightarrow> (Inl OutPanic, co))"

definition so_DiscardCompressor :: "'e SpanChannelOut \<Rightarrow> 'e SpanChannelOut" where
  "so_DiscardCompressor co = co\<lparr>so_compressed := None\<rparr>"

section \<open>What the buffers hold\<close>

lemma append_all_snoc: "append_all C b (ss @ [(s, n)]) = and_then (append_all C b ss) (\<lambda>b. AppendSingularBatch C b s n)"
proof (induction ss arbitrary: b)
  case Nil
  then show ?case by (cases "AppendSingularBatch C b s n") simp_all
next
  case (Cons p ss)
  then show ?case by (cases p; cases "AppendSingularBatch C b (fst p) (snd p)") simp_all
qed

lemma AppendSingularBatch_keeps:
  "AppendSingularBatch C b s n = Inr b' \<Longrightarrow>
     sp_GenesisTimestamp b' = sp_GenesisTimestamp b \<and> sp_ChainID b' = sp_ChainID b \<and> length (sp_Batches b') = Suc (length (sp_Batches b))"
  by (auto simp: AppendSingularBatch_def Let_def and_then_Inr_iff split: if_splits)

definition encoded :: "('al, 'au, 's, 'e) out_env \<Rightarrow> u64 \<Rightarrow> nat \<Rightarrow> (SingularBatch \<times> u64) list \<Rightarrow> byte list \<Rightarrow> bool" where
  "encoded E g chainID ss bs \<longleftrightarrow>
     (\<exists>sb raw p. append_all (lib_codecs (oe_lib E)) (NewSpanBatch (lib_codecs (oe_lib E)) g chainID) ss = Inr sb \<and> ToRawSpanBatch sb = Inr raw \<and>
        encodeTyped (oe_lib E) \<lparr>inner = InnerSpan raw, ComprAlgo = None\<rparr> = Inr p \<and> bs = oe_rlp_string E p)"

definition holds :: "('al, 'au, 's, 'e) out_env \<Rightarrow> u64 \<Rightarrow> nat \<Rightarrow> (SingularBatch \<times> u64) list list \<Rightarrow> byte list \<Rightarrow> bool" where
  "holds E g chainID spans bs \<longleftrightarrow> (\<exists>bss. list_all2 (encoded E g chainID) spans bss \<and> bs = concat bss)"

lemma holds_Nil [simp]: "holds E g chainID [] []" by (simp add: holds_def)

lemma holds_snoc: "holds E g chainID spans bs \<Longrightarrow> encoded E g chainID ss b \<Longrightarrow> holds E g chainID (spans @ [ss]) (bs @ b)"
proof -
  assume "holds E g chainID spans bs" and e: "encoded E g chainID ss b"
  then obtain bss where "list_all2 (encoded E g chainID) spans bss" "bs = concat bss" by (auto simp: holds_def)
  with e show ?thesis unfolding holds_def by (intro exI [of _ "bss @ [b]"]) (simp add: list_all2_appendI)
qed

text \<open>The state while batches are added: sealed span batches, and the batches of the open one.\<close>

definition so_inv ::
  "('al, 'au, 's, 'e) out_env \<Rightarrow> u64 \<Rightarrow> nat \<Rightarrow> (SingularBatch \<times> u64) list list \<Rightarrow> (SingularBatch \<times> u64) list \<Rightarrow> 'e SpanChannelOut \<Rightarrow> bool" where
  "so_inv E g chainID sealed cur co \<longleftrightarrow>
     \<not> so_closed co \<and> so_compressed co \<noteq> None \<and> so_rlpIndex co < 2 \<and>
     sp_GenesisTimestamp (so_spanBatch co) = g \<and> sp_ChainID (so_spanBatch co) = chainID \<and>
     append_all (lib_codecs (oe_lib E)) (NewSpanBatch (lib_codecs (oe_lib E)) g chainID) cur = Inr (so_spanBatch co) \<and>
     (\<exists>S. holds E g chainID sealed S \<and> so_sealedRLPBytes co = length S \<and>
        (if cur = [] then activeRLP co = S else \<exists>b. encoded E g chainID cur b \<and> activeRLP co = S @ b) \<and>
        length S \<le> length (inactiveRLP co) \<and> take (length S) (inactiveRLP co) = S) \<and>
     (so_full co \<noteq> None \<longrightarrow> so_full co = Some ErrCompressorFull \<and> so_compressed co = Some (fst (cp_Close (oe_compressor E) (activeRLP co))))"

definition spans_of :: "'a list list \<Rightarrow> 'a list \<Rightarrow> 'a list list" where
  "spans_of sealed cur = (if cur = [] then sealed else sealed @ [cur])"

lemma concat_spans_of [simp]: "concat (spans_of sealed cur) = concat sealed @ cur" by (simp add: spans_of_def)

lemma so_inv_holds:
  assumes inv: "so_inv E g chainID sealed cur co"
  shows "holds E g chainID (spans_of sealed cur) (activeRLP co)"
proof (cases "cur = []")
  case True
  then show ?thesis using inv by (auto simp: so_inv_def spans_of_def)
next
  case False
  with inv obtain S b where "holds E g chainID sealed S" "encoded E g chainID cur b" "activeRLP co = S @ b"
    by (auto simp: so_inv_def)
  with False show ?thesis by (simp add: spans_of_def holds_snoc)
qed

text \<open>Both buffers under a swap, and everything else.\<close>

lemma buffers:
  assumes "so_rlpIndex co < 2"
  shows "activeRLP (swapRLP co) = inactiveRLP co" "inactiveRLP (swapRLP co) = activeRLP co" "so_rlpIndex (swapRLP co) < 2" "swapRLP (swapRLP co) = co"
    "activeRLP (set_active bs co) = bs" "inactiveRLP (set_active bs co) = inactiveRLP co" "so_rlpIndex (set_active bs co) = so_rlpIndex co"
    "activeRLP (set_inactive bs co) = activeRLP co" "inactiveRLP (set_inactive bs co) = bs" "so_rlpIndex (set_inactive bs co) = so_rlpIndex co"
proof -
  consider "so_rlpIndex co = 0" | "so_rlpIndex co = 1" using assms by linarith
  note index = this
  note defs = activeRLP_def inactiveRLP_def swapRLP_def set_active_def set_inactive_def
  show "activeRLP (swapRLP co) = inactiveRLP co" "inactiveRLP (swapRLP co) = activeRLP co" "so_rlpIndex (swapRLP co) < 2" "swapRLP (swapRLP co) = co"
    by (rule index; simp add: defs)+
  show "activeRLP (set_active bs co) = bs" "inactiveRLP (set_active bs co) = inactiveRLP co" "so_rlpIndex (set_active bs co) = so_rlpIndex co"
    by (rule index; simp add: defs)+
  show "activeRLP (set_inactive bs co) = activeRLP co" "inactiveRLP (set_inactive bs co) = bs" "so_rlpIndex (set_inactive bs co) = so_rlpIndex co"
    by (rule index; simp add: defs)+
qed

lemma buffer_fields [simp]:
  "so_closed (swapRLP co) = so_closed co" "so_compressed (swapRLP co) = so_compressed co" "so_spanBatch (swapRLP co) = so_spanBatch co"
  "so_sealedRLPBytes (swapRLP co) = so_sealedRLPBytes co" "so_full (swapRLP co) = so_full co" "so_target (swapRLP co) = so_target co"
  "so_closed (set_active bs co) = so_closed co" "so_compressed (set_active bs co) = so_compressed co" "so_spanBatch (set_active bs co) = so_spanBatch co"
  "so_sealedRLPBytes (set_active bs co) = so_sealedRLPBytes co" "so_full (set_active bs co) = so_full co"
  "so_closed (set_inactive bs co) = so_closed co" "so_compressed (set_inactive bs co) = so_compressed co" "so_spanBatch (set_inactive bs co) = so_spanBatch co"
  "so_sealedRLPBytes (set_inactive bs co) = so_sealedRLPBytes co" "so_full (set_inactive bs co) = so_full co"
  "so_chainSpec (swapRLP co) = so_chainSpec co" "so_chainSpec (set_active bs co) = so_chainSpec co" "so_chainSpec (set_inactive bs co) = so_chainSpec co"
  by (simp_all add: swapRLP_def set_active_def set_inactive_def)

lemma buffer_updates [simp]:
  "activeRLP (co\<lparr>so_spanBatch := sb\<rparr>) = activeRLP co" "inactiveRLP (co\<lparr>so_spanBatch := sb\<rparr>) = inactiveRLP co"
  "activeRLP (co\<lparr>so_sealedRLPBytes := n\<rparr>) = activeRLP co" "inactiveRLP (co\<lparr>so_sealedRLPBytes := n\<rparr>) = inactiveRLP co"
  "activeRLP (so_resetSpanBatch E co) = activeRLP co" "inactiveRLP (so_resetSpanBatch E co) = inactiveRLP co"
  "so_rlpIndex (so_resetSpanBatch E co) = so_rlpIndex co"
  by (simp_all add: activeRLP_def inactiveRLP_def so_resetSpanBatch_def)

text \<open>Compression writes the active buffer from the start.\<close>

lemma so_compress_None:
  assumes "so_compress E co = (None, co')"
  shows "so_compressed co' = Some (fst (cp_Close (oe_compressor E) (activeRLP co)))" "activeRLP co' = activeRLP co" "inactiveRLP co' = inactiveRLP co"
    "so_rlpIndex co' = so_rlpIndex co" "so_spanBatch co' = so_spanBatch co" "so_sealedRLPBytes co' = so_sealedRLPBytes co" "so_closed co' = so_closed co"
    "so_full co' = so_full co \<or> so_full co = None \<and> so_full co' = Some ErrCompressorFull" "so_chainSpec co' = so_chainSpec co"
  using assms
  by (auto simp: so_compress_def Let_def checkFull_def activeRLP_def inactiveRLP_def split: if_splits prod.splits option.splits)

lemma ensureOpen_inv:
  assumes "so_inv E g chainID sealed cur co" and "ensureOpenSpanBatch E co = Inr co'"
  shows "\<exists>sealed' cur'. so_inv E g chainID sealed' cur' co' \<and> spans_of sealed' cur' = spans_of sealed cur \<and> activeRLP co' = activeRLP co \<and>
    so_full co' = so_full co \<and> so_chainSpec co' = so_chainSpec co"
proof (cases "co' = co")
  case True
  then show ?thesis using assms(1) by blast
next
  case False
  let ?a = "activeRLP co"
  have i: "so_rlpIndex co < 2" "so_rlpIndex (co\<lparr>so_sealedRLPBytes := length ?a\<rparr>) < 2" using assms(1) by (simp_all add: so_inv_def)
  have co': "co' = so_resetSpanBatch E (set_inactive ?a (co\<lparr>so_sealedRLPBytes := length ?a\<rparr>))"
    using assms(2) False by (auto simp: ensureOpenSpanBatch_def split: if_splits)
  have b: "activeRLP co' = ?a" "inactiveRLP co' = ?a" "so_rlpIndex co' < 2" using buffers [OF i(2)] i by (simp_all add: co')
  have "append_all (lib_codecs (oe_lib E)) (NewSpanBatch (lib_codecs (oe_lib E)) g chainID) [] = Inr (so_spanBatch co')"
    using assms(1) by (simp add: co' so_resetSpanBatch_def so_inv_def)
  moreover have "sp_GenesisTimestamp (so_spanBatch co') = g \<and> sp_ChainID (so_spanBatch co') = chainID"
    using assms(1) by (simp add: co' so_resetSpanBatch_def so_inv_def NewSpanBatch_def)
  moreover have "so_sealedRLPBytes co' = length ?a" "so_closed co' = so_closed co" "so_compressed co' = so_compressed co" "so_full co' = so_full co"
    "so_chainSpec co' = so_chainSpec co"
    by (simp_all add: co' so_resetSpanBatch_def)
  ultimately have "so_inv E g chainID (spans_of sealed cur) [] co'"
    using assms(1) b so_inv_holds [OF assms(1)] unfolding so_inv_def [of E g chainID "spans_of sealed cur"] by (auto simp: so_inv_def)
  moreover have "spans_of (spans_of sealed cur) [] = spans_of sealed cur" by (simp add: spans_of_def)
  ultimately show ?thesis using b \<open>so_full co' = so_full co\<close> \<open>so_chainSpec co' = so_chainSpec co\<close> by blast
qed


text \<open>A channel that takes no more batches: the batch that was refused is not in the active buffer.\<close>

definition so_stopped :: "('al, 'au, 's, 'e) out_env \<Rightarrow> u64 \<Rightarrow> nat \<Rightarrow> (SingularBatch \<times> u64) list list \<Rightarrow> 'e SpanChannelOut \<Rightarrow> bool" where
  "so_stopped E g chainID spans co \<longleftrightarrow>
     \<not> so_closed co \<and> so_compressed co \<noteq> None \<and> holds E g chainID spans (activeRLP co) \<and>
     (so_full co \<noteq> None \<longrightarrow> so_full co = Some ErrCompressorFull \<and> so_compressed co = Some (fst (cp_Close (oe_compressor E) (activeRLP co))))"

lemma so_inv_stopped: "so_inv E g chainID sealed cur co \<Longrightarrow> so_stopped E g chainID (spans_of sealed cur) co"
  using so_inv_holds [of E g chainID sealed cur co] by (simp add: so_stopped_def so_inv_def)

lemma compress_stopped:
  assumes "so_compress E co = (None, co')" and "\<not> so_closed co" and "holds E g chainID spans (activeRLP co)"
    and "so_full co = None \<or> so_full co = Some ErrCompressorFull"
  shows "so_stopped E g chainID spans co'"
  using so_compress_None [OF assms(1)] assms(2-4) by (auto simp: so_stopped_def)

lemma compress_inv:
  assumes "so_compress E co = (None, co')" and "so_inv E g chainID sealed cur co"
  shows "so_inv E g chainID sealed cur co'"
  using so_compress_None [OF assms(1)] assms(2) by (auto simp: so_inv_def)

lemma compress_error: "so_compress E co = (Some e, co') \<Longrightarrow> e \<noteq> ErrTooManyRLPBytes \<and> e \<noteq> ErrCompressorFull"
  by (auto simp: so_compress_def Let_def split: if_splits prod.splits option.splits)

text \<open>The buffer that was not active receives the open span batch with the new batch; the one that was active stays as it was.\<close>

lemma written_inv:
  assumes inv: "so_inv E g chainID sealed cur co" and full: "so_full co = None"
    and app: "AppendSingularBatch (lib_codecs (oe_lib E)) (so_spanBatch co) b n = Inr sb" and raw: "ToRawSpanBatch sb = Inr raw"
    and enc: "encodeTyped (oe_lib E) \<lparr>inner = InnerSpan raw, ComprAlgo = None\<rparr> = Inr bs"
    and co1: "co1 = swapRLP (co\<lparr>so_spanBatch := sb\<rparr>)"
    and co2: "co2 = set_active (take (so_sealedRLPBytes co1) (activeRLP co1) @ oe_rlp_string E bs) co1"
  shows "so_inv E g chainID sealed (cur @ [(b, n)]) co2" "activeRLP (swapRLP co2) = activeRLP co" "so_sealedRLPBytes co1 \<le> length (activeRLP co1)"
    "so_full co2 = None" "so_closed co2 = so_closed co" "so_chainSpec co2 = so_chainSpec co"
proof -
  let ?co = "co\<lparr>so_spanBatch := sb\<rparr>"
  have i: "so_rlpIndex ?co < 2" using inv by (simp add: so_inv_def)
  note sw = buffers [OF i]
  have i1: "so_rlpIndex co1 < 2" using sw(3) by (simp add: co1)
  note st = buffers [OF i1]
  obtain S where S: "holds E g chainID sealed S" "so_sealedRLPBytes co = length S"
      "if cur = [] then activeRLP co = S else \<exists>b. encoded E g chainID cur b \<and> activeRLP co = S @ b"
      "length S \<le> length (inactiveRLP co)" "take (length S) (inactiveRLP co) = S"
    using inv by (auto simp: so_inv_def)
  have a1: "activeRLP co1 = inactiveRLP co" "inactiveRLP co1 = activeRLP co" using sw by (simp_all add: co1)
  have s1: "so_sealedRLPBytes co1 = length S" using S(2) by (simp add: co1)
  have a2: "activeRLP co2 = S @ oe_rlp_string E bs" using st(5) S(5) a1 s1 by (simp add: co2)
  have n2: "inactiveRLP co2 = activeRLP co" using st(6) a1 by (simp add: co2)
  have all: "append_all (lib_codecs (oe_lib E)) (NewSpanBatch (lib_codecs (oe_lib E)) g chainID) (cur @ [(b, n)]) = Inr sb"
    using inv app by (simp add: append_all_snoc so_inv_def)
  have e: "encoded E g chainID (cur @ [(b, n)]) (oe_rlp_string E bs)" using all raw enc by (auto simp: encoded_def)
  have sb: "so_spanBatch co2 = sb" "so_closed co2 = so_closed co" "so_compressed co2 = so_compressed co" "so_full co2 = so_full co"
      "so_sealedRLPBytes co2 = length S" "so_rlpIndex co2 < 2"
    using s1 st(7) i1 by (simp_all add: co2 co1)
  have k: "sp_GenesisTimestamp sb = g \<and> sp_ChainID sb = chainID" using AppendSingularBatch_keeps [OF app] inv by (simp add: so_inv_def)
  have "length S \<le> length (activeRLP co) \<and> take (length S) (activeRLP co) = S" using S(3) by (auto split: if_splits)
  then show "so_inv E g chainID sealed (cur @ [(b, n)]) co2"
    using inv full k all sb a2 n2 e S(1) unfolding so_inv_def [of E g chainID sealed "cur @ [(b, n)]"] so_inv_def [of E g chainID sealed cur]
    by auto
  show "activeRLP (swapRLP co2) = activeRLP co" using buffers(1) [OF sb(6)] n2 by simp
  show "so_sealedRLPBytes co1 \<le> length (activeRLP co1)" using a1 s1 S(4) by simp
  show "so_full co2 = None" "so_closed co2 = so_closed co" "so_chainSpec co2 = so_chainSpec co" using sb full by (simp_all add: co2 co1)
qed


section \<open>Adding batches\<close>

text \<open>The part of \<open>addSingularBatch\<close> after the new encoding is in the active buffer.\<close>

definition after_write :: "('al, 'au, 's, 'e) out_env \<Rightarrow> u64 \<Rightarrow> 'e SpanChannelOut \<Rightarrow> 'e out_error + 'e out_error option \<times> 'e SpanChannelOut" where
  "after_write E maxRLPBytesPerChannel co =
     (if length (activeRLP co) > unat maxRLPBytesPerChannel
      then (case so_compress E (swapRLP co) of (Some e, co) \<Rightarrow> Inr (Some e, co) | (None, co) \<Rightarrow> Inr (Some ErrTooManyRLPBytes, co))
      else case so_compressed co of
        None \<Rightarrow> Inl OutPanic
      | Some buf \<Rightarrow>
          if word_of_int (int (length buf) + (int (length (activeRLP co)) - int (so_lastCompressedRLPSize co))) < so_target co then Inr (None, co)
          else (case so_compress E co of
              (Some e, co) \<Rightarrow> Inr (Some e, co)
            | (None, co) \<Rightarrow>
                (case so_full co of
                   None \<Rightarrow> Inr (None, co)
                 | Some err \<Rightarrow>
                     if so_sealedRLPBytes co = 0 \<and> length (sp_Batches (so_spanBatch co)) = 1 then Inr (None, co)
                     else if word_of_nat (length (the (so_compressed co))) = so_target co then Inr (None, co)
                     else (case so_compress E (swapRLP co) of (Some e, co) \<Rightarrow> Inr (Some e, co) | (None, co) \<Rightarrow> Inr (Some err, co)))))"

lemma so_add_eq:
  "so_addSingularBatch E batch seqNum co =
     (if so_closed co then Inr (Some ErrChannelOutAlreadyClosed, co)
      else if so_full co \<noteq> None then Inr (so_full co, co)
      else and_then (ensureOpenSpanBatch E co) (\<lambda>co.
      case AppendSingularBatch (lib_codecs (oe_lib E)) (so_spanBatch co) batch seqNum of
        Inl e \<Rightarrow> Inl (SpanBatchError e)
      | Inr sb \<Rightarrow>
      case ToRawSpanBatch sb of
        Inl e \<Rightarrow> Inl (SpanBatchError e)
      | Inr rawSpanBatch \<Rightarrow>
          let co = swapRLP (co\<lparr>so_spanBatch := sb\<rparr>) in
          if length (activeRLP co) < so_sealedRLPBytes co then Inl OutPanic
          else case encodeTyped (oe_lib E) \<lparr>inner = InnerSpan rawSpanBatch, ComprAlgo = None\<rparr> of
            Inl e \<Rightarrow> Inl (SpanBatchError e)
          | Inr bs \<Rightarrow>
              after_write E (MaxRLPBytesPerChannel (so_chainSpec co) (sb_Timestamp batch))
                (set_active (take (so_sealedRLPBytes co) (activeRLP co) @ oe_rlp_string E bs) co)))"
  unfolding so_addSingularBatch_def after_write_def Let_def
  by (simp add: set_active_def cong: if_cong option.case_cong sum.case_cong)

definition refused :: "'e out_error \<Rightarrow> bool" where "refused e \<longleftrightarrow> e = ErrTooManyRLPBytes \<or> e = ErrCompressorFull"

lemma after_write_cases:
  assumes "after_write E maxRLP co = Inr (err, co')" and "so_full co = None"
  obtains (kept) "err = None" "co' = co" | (compressed) "err = None" "so_compress E co = (None, co')"
  | (reverted) e co1 where "err = Some e" "refused e" "co1 = co \<or> so_compress E co = (None, co1)" "so_compress E (swapRLP co1) = (None, co')"
  | (failed) e where "err = Some e" "\<not> refused e"
proof -
  have r: "refused ErrTooManyRLPBytes" "refused ErrCompressorFull" by (simp_all add: refused_def)
  have f: "so_compress E c = (Some e, c') \<Longrightarrow> \<not> refused e" for c e c' using compress_error by (fastforce simp: refused_def)
  have g: "so_compress E co = (None, c) \<Longrightarrow> so_full c = None \<or> so_full c = Some ErrCompressorFull" for c
    using so_compress_None(8) assms(2) by metis
  obtain e1 c1 where c1: "so_compress E (swapRLP co) = (e1, c1)" by (cases "so_compress E (swapRLP co)")
  obtain e2 c2 where c2: "so_compress E co = (e2, c2)" by (cases "so_compress E co")
  obtain e3 c3 where c3: "so_compress E (swapRLP c2) = (e3, c3)" by (cases "so_compress E (swapRLP c2)")
  show thesis
  proof (cases "length (activeRLP co) > unat maxRLP")
    case True
    show thesis
    proof (cases e1)
      case None
      then show thesis using assms(1) True c1 r by (intro reverted [of ErrTooManyRLPBytes co]) (simp_all add: after_write_def)
    next
      case (Some e)
      then show thesis using assms(1) True c1 f [of "swapRLP co"] by (intro failed [of e]) (auto simp: after_write_def)
    qed
  next
    case False
    then show thesis
    proof (cases e2)
      case None
      have z: "so_compress E co = (None, c2)" using c2 None by simp
      show thesis
      proof (cases "so_full c2")
        case None
        then show thesis using assms(1) False z kept compressed by (auto simp: after_write_def split: option.splits if_splits)
      next
        case (Some full)
        then have "refused full" using g [OF z] r by auto
        then show thesis
          using assms(1) False z c3 Some f [of "swapRLP c2"] kept compressed reverted [of full c2] failed
          by (cases e3) (auto simp: after_write_def split: option.splits if_splits)
      qed
    next
      case (Some e)
      then show thesis using assms(1) False c2 f kept failed by (auto simp: after_write_def split: option.splits if_splits)
    qed
  qed
qed

lemma after_write_bound: "after_write E maxRLP co = Inr (None, co') \<Longrightarrow> length (activeRLP co) \<le> unat maxRLP"
  by (auto simp: after_write_def split: if_splits prod.splits option.splits)

lemma so_add_cases:
  assumes inv: "so_inv E g chainID sealed cur co" and add: "so_addSingularBatch E b n co = Inr (err, co')" and full: "so_full co = None"
  shows "(err = None \<longrightarrow> (\<exists>sealed' cur'. so_inv E g chainID sealed' cur' co' \<and> concat sealed' @ cur' = concat sealed @ cur @ [(b, n)]) \<and>
       length (activeRLP co') \<le> unat (MaxRLPBytesPerChannel (so_chainSpec co) (sb_Timestamp b)) \<and> so_chainSpec co' = so_chainSpec co) \<and>
     (\<forall>e. err = Some e \<longrightarrow> refused e \<longrightarrow> so_stopped E g chainID (spans_of sealed cur) co' \<and> activeRLP co' = activeRLP co)"
proof -
  have open_: "\<not> so_closed co" using inv by (simp add: so_inv_def)
  obtain co1 where c1: "ensureOpenSpanBatch E co = Inr co1" using add full open_ by (auto simp: so_add_eq and_then_Inr_iff)
  obtain sb where c2: "AppendSingularBatch (lib_codecs (oe_lib E)) (so_spanBatch co1) b n = Inr sb"
    using add full open_ c1 by (cases "AppendSingularBatch (lib_codecs (oe_lib E)) (so_spanBatch co1) b n") (simp_all add: so_add_eq)
  obtain raw where c3: "ToRawSpanBatch sb = Inr raw" using add full open_ c1 c2 by (cases "ToRawSpanBatch sb") (simp_all add: so_add_eq)
  let ?w = "swapRLP (co1\<lparr>so_spanBatch := sb\<rparr>)"
  have ns: "\<not> length (activeRLP ?w) < so_sealedRLPBytes ?w" using add full open_ c1 c2 c3 by (auto simp: so_add_eq split: if_splits)
  obtain bs where c4: "encodeTyped (oe_lib E) \<lparr>inner = InnerSpan raw, ComprAlgo = None\<rparr> = Inr bs"
    using add full open_ c1 c2 c3 ns
    by (cases "encodeTyped (oe_lib E) \<lparr>inner = InnerSpan raw, ComprAlgo = None\<rparr>") (simp_all add: so_add_eq Let_def)
  define co2 where "co2 = set_active (take (so_sealedRLPBytes ?w) (activeRLP ?w) @ oe_rlp_string E bs) ?w"
  have w: "after_write E (MaxRLPBytesPerChannel (so_chainSpec ?w) (sb_Timestamp b)) co2 = Inr (err, co')"
    using add full open_ c1 c2 c3 c4 ns by (simp add: so_add_eq Let_def co2_def)
  obtain sealed1 cur1 where inv1: "so_inv E g chainID sealed1 cur1 co1" and sp: "spans_of sealed1 cur1 = spans_of sealed cur"
      and a1: "activeRLP co1 = activeRLP co" and full1: "so_full co1 = None" and spec1: "so_chainSpec co1 = so_chainSpec co"
    using ensureOpen_inv [OF inv c1] full by auto
  note wr = written_inv [OF inv1 full1 c2 c3 c4 refl co2_def]
  have cat: "concat sealed1 @ cur1 = concat sealed @ cur" using arg_cong [OF sp, of concat] by simp
  have h: "holds E g chainID (spans_of sealed cur) (activeRLP co)" by (rule so_inv_holds [OF inv])
  show ?thesis
  proof (cases rule: after_write_cases [OF w wr(4)])
    case 1
    then show ?thesis using wr(1,6) cat spec1 after_write_bound [OF w [unfolded 1(1)]] by (simp add: swapRLP_def) (metis append_assoc)
  next
    case 2
    then show ?thesis using compress_inv [OF 2(2) wr(1)] so_compress_None(2,9) [OF 2(2)] wr(6) cat spec1 after_write_bound [OF w [unfolded 2(1)]]
      by (simp add: swapRLP_def) (metis append_assoc)
  next
    case (3 e c)
    have i2: "so_rlpIndex co2 < 2" using wr(1) by (simp add: so_inv_def)
    have "activeRLP (swapRLP c) = activeRLP co \<and> \<not> so_closed c \<and> (so_full c = None \<or> so_full c = Some ErrCompressorFull)"
      using 3(3)
    proof
      assume "c = co2"
      then show ?thesis using wr a1 open_ inv1 by (simp add: so_inv_def)
    next
      assume z: "so_compress E co2 = (None, c)"
      note k = so_compress_None [OF z]
      have "activeRLP (swapRLP c) = inactiveRLP co2" using buffers(1) [of c] k i2 by simp
      then show ?thesis using wr a1 open_ inv1 k buffers(1) [OF i2] by (auto simp: so_inv_def)
    qed
    then have "so_stopped E g chainID (spans_of sealed cur) co' \<and> activeRLP co' = activeRLP co"
      using compress_stopped [OF 3(4)] so_compress_None(2) [OF 3(4)] h by simp
    then show ?thesis using 3(1) by simp
  next
    case (4 e)
    then show ?thesis by simp
  qed
qed


section \<open>Whole channels\<close>

text \<open>Batches are added until one is not accepted. The results are the accepted ones, the error that ended the run, if any, and the state.\<close>

fun add_batches ::
  "('al, 'au, 's, 'e) out_env \<Rightarrow> (SingularBatch \<times> u64) list \<Rightarrow> 'e SpanChannelOut \<Rightarrow>
     'e out_error + (SingularBatch \<times> u64) list \<times> 'e out_error option \<times> 'e SpanChannelOut" where
  "add_batches E [] co = Inr ([], None, co)"
| "add_batches E ((b, n) # rest) co =
     and_then (so_addSingularBatch E b n co) (\<lambda>(err, co).
       case err of
         Some e \<Rightarrow> Inr ([], Some e, co)
       | None \<Rightarrow> and_then (add_batches E rest co) (\<lambda>(accepted, err, co). Inr ((b, n) # accepted, err, co)))"

lemma add_batches_stopped:
  assumes "so_inv E g chainID sealed cur co" and "add_batches E ss co = Inr (accepted, err, co')"
    and "\<forall>e. err = Some e \<longrightarrow> refused e"
  shows "\<exists>spans. concat spans = concat sealed @ cur @ accepted \<and> (\<exists>rest. ss = accepted @ rest) \<and> so_stopped E g chainID spans co'"
  using assms
proof (induction ss arbitrary: sealed cur co accepted)
  case Nil
  then show ?case using so_inv_stopped [OF Nil(1)] by (intro exI [of _ "spans_of sealed cur"]) simp
next
  case (Cons p ss)
  obtain b n where p: "p = (b, n)" by (cases p)
  obtain err1 co1 where add: "so_addSingularBatch E b n co = Inr (err1, co1)" using Cons.prems(2) p by (auto simp: and_then_Inr_iff)
  have refused_full: "so_full co \<noteq> None \<Longrightarrow> err1 = so_full co \<and> co1 = co" using add Cons.prems(1) by (auto simp: so_addSingularBatch_def so_inv_def)
  show ?case
  proof (cases err1)
    case (Some e)
    then have r: "accepted = []" "err = Some e" "co' = co1" using Cons.prems(2) p add by simp_all
    then have "refused e" using Cons.prems(3) by simp
    then have "so_stopped E g chainID (spans_of sealed cur) co'"
      using so_add_cases [OF Cons.prems(1) add] refused_full so_inv_stopped [OF Cons.prems(1)] Some r(3) by (cases "so_full co") auto
    then show ?thesis using r(1) by (intro exI [of _ "spans_of sealed cur"]) simp
  next
    case None
    then have "so_full co = None" using refused_full by (cases "so_full co") auto
    then obtain sealed1 cur1 where inv1: "so_inv E g chainID sealed1 cur1 co1" and c: "concat sealed1 @ cur1 = concat sealed @ cur @ [(b, n)]"
      using so_add_cases [OF Cons.prems(1) add] None by auto
    obtain acc1 where a: "add_batches E ss co1 = Inr (acc1, err, co')" "accepted = (b, n) # acc1"
      using Cons.prems(2) p add None by (auto simp: and_then_Inr_iff)
    obtain spans rest where "concat spans = concat sealed1 @ cur1 @ acc1" "ss = acc1 @ rest" "so_stopped E g chainID spans co'"
      using Cons.IH [OF inv1 a(1) Cons.prems(3)] by blast
    then show ?thesis using a(2) c p by (intro exI [of _ spans]) (metis append_Cons append_Nil append_assoc)
  qed
qed

lemma add_batches_bound:
  assumes "so_inv E g chainID sealed cur co" and "add_batches E ss co = Inr (accepted, err, co')"
    and "\<forall>e. err = Some e \<longrightarrow> refused e" and "length (activeRLP co) \<le> M"
    and "\<forall>p\<in>set accepted. unat (MaxRLPBytesPerChannel (so_chainSpec co) (sb_Timestamp (fst p))) \<le> M"
  shows "length (activeRLP co') \<le> M"
  using assms
proof (induction ss arbitrary: sealed cur co accepted)
  case (Cons p ss)
  obtain b n where p: "p = (b, n)" by (cases p)
  obtain err1 co1 where add: "so_addSingularBatch E b n co = Inr (err1, co1)" using Cons.prems(2) p by (auto simp: and_then_Inr_iff)
  have rf: "so_full co \<noteq> None \<Longrightarrow> err1 = so_full co \<and> co1 = co" using add Cons.prems(1) by (auto simp: so_addSingularBatch_def so_inv_def)
  show ?case
  proof (cases err1)
    case (Some e)
    then have r: "err = Some e" "co' = co1" using Cons.prems(2) p add by simp_all
    then have "activeRLP co' = activeRLP co"
      using so_add_cases [OF Cons.prems(1) add] rf Some Cons.prems(3) by (cases "so_full co") auto
    then show ?thesis using Cons.prems(4) by simp
  next
    case None
    then have full: "so_full co = None" using rf by (cases "so_full co") auto
    obtain acc1 where a: "add_batches E ss co1 = Inr (acc1, err, co')" "accepted = (b, n) # acc1"
      using Cons.prems(2) p add None by (auto simp: and_then_Inr_iff)
    obtain sealed1 cur1 where inv1: "so_inv E g chainID sealed1 cur1 co1" and len: "length (activeRLP co1) \<le> M" and spec: "so_chainSpec co1 = so_chainSpec co"
      using so_add_cases [OF Cons.prems(1) add full] None Cons.prems(5) a(2) by auto
    show ?thesis by (rule Cons.IH [OF inv1 a(1) Cons.prems(3) len]) (use Cons.prems(5) a(2) spec in auto)
  qed
qed simp

lemma NewSpanChannelOut_inv:
  "NewSpanChannelOut E i target spec maxBlocks = Inr co \<Longrightarrow> L2ChainID (config spec) = Some chainID \<Longrightarrow>
     so_inv E (L2Time (cfg_Genesis (config spec))) (nat chainID) [] [] co"
  by (auto simp: NewSpanChannelOut_def so_inv_def activeRLP_def inactiveRLP_def NewSpanBatch_def)

lemma so_Reset_inv:
  "so_rlpIndex co < 2 \<Longrightarrow> so_inv E (sp_GenesisTimestamp (so_spanBatch co)) (sp_ChainID (so_spanBatch co)) [] [] (so_Reset E i co)"
  by (auto simp: so_Reset_def so_resetSpanBatch_def so_inv_def activeRLP_def inactiveRLP_def NewSpanBatch_def)

lemma so_Close_holds:
  assumes "so_stopped E g chainID spans co" and "so_Close E co = (None, co')"
  shows "\<exists>bs. bs = activeRLP co \<and> holds E g chainID spans bs \<and> so_compressed co' = Some (fst (cp_Close (oe_compressor E) bs)) \<and> so_closed co' \<and>
    (so_full co' = None \<longrightarrow> snd (cp_Close (oe_compressor E) bs) = None)"
proof (cases "so_full co")
  case None
  then have z: "so_compress E (co\<lparr>so_closed := True\<rparr>) = (None, co')" using assms by (simp add: so_Close_def so_stopped_def)
  have a: "activeRLP (co\<lparr>so_closed := True\<rparr>) = activeRLP co" by (simp add: activeRLP_def)
  have "snd (cp_Close (oe_compressor E) (activeRLP co)) = None"
    using z a by (auto simp: so_compress_def Let_def split: if_splits prod.splits option.splits)
  then show ?thesis using so_compress_None [OF z] assms(1) a by (auto simp: so_stopped_def)
next
  case (Some e)
  then show ?thesis using assms by (auto simp: so_Close_def so_stopped_def Let_def)
qed

lemma closed_channel:
  assumes "NewSpanChannelOut E i target spec maxBlocks = Inr co" and "L2ChainID (config spec) = Some chainID"
    and "add_batches E ss co = Inr (accepted, err, co1)" and "\<forall>e. err = Some e \<longrightarrow> refused e" and "so_Close E co1 = (None, co2)"
  shows "\<exists>spans bs. concat spans = accepted \<and> (\<exists>rest. ss = accepted @ rest) \<and>
    holds E (L2Time (cfg_Genesis (config spec))) (nat chainID) spans bs \<and> so_compressed co2 = Some (fst (cp_Close (oe_compressor E) bs)) \<and> so_closed co2 \<and>
    (\<forall>M. (\<forall>p\<in>set accepted. unat (MaxRLPBytesPerChannel spec (sb_Timestamp (fst p))) \<le> M) \<longrightarrow> length bs \<le> M)"
proof -
  have inv: "so_inv E (L2Time (cfg_Genesis (config spec))) (nat chainID) [] [] co" by (rule NewSpanChannelOut_inv [OF assms(1,2)])
  obtain spans where s: "concat spans = accepted" "\<exists>rest. ss = accepted @ rest"
      "so_stopped E (L2Time (cfg_Genesis (config spec))) (nat chainID) spans co1"
    using add_batches_stopped [OF inv assms(3,4)] by auto
  have "activeRLP co = []" "so_chainSpec co = spec" using assms(1,2) by (auto simp: NewSpanChannelOut_def activeRLP_def)
  then have "length (activeRLP co1) \<le> M" if "\<forall>p\<in>set accepted. unat (MaxRLPBytesPerChannel spec (sb_Timestamp (fst p))) \<le> M" for M
    using add_batches_bound [OF inv assms(3,4)] that by simp
  then show ?thesis using s so_Close_holds [OF s(3) assms(5)] by blast
qed

section \<open>A sample\<close>

text \<open>Two blocks without transactions, in span batches of one block each. The second one does not fit.\<close>

definition unary_string :: "byte list \<Rightarrow> byte list" where "unary_string x = replicate (length x) 1 @ 0 # x"

definition sample_out_lib :: "(unit, unit, byte list list) libraries" where
  "sample_out_lib = sample_libraries\<lparr>stream_Bytes := (\<lambda>s. case concat s of
       [] \<Rightarrow> (Inl IoEOF, s)
     | bs \<Rightarrow> let n = length (takeWhile (\<lambda>b. b = 1) bs); r = drop (Suc n) bs in (Inr (take n r), [drop n r]))\<rparr>"

definition sample_out_env :: "(unit, unit, byte list list, unit) out_env" where
  "sample_out_env = \<lparr>oe_lib = sample_out_lib, oe_rlp_string = unary_string,
     oe_compressor = \<lparr>cp_Reset = [], cp_Write = (\<lambda>bs. ([], None)), cp_Close = (\<lambda>bs. (1 # bs, None))\<rparr>, oe_keccak = (\<lambda>_. 0)\<rparr>"

definition sample_spec :: ChainSpec where
  "sample_spec = NewChainSpec (sample_aligned\<lparr>L2ChainID := Some 2, cfg_Genesis := (cfg_Genesis sample_aligned)\<lparr>L2Time := 0\<rparr>\<rparr>)"

definition sample_b1 :: SingularBatch where
  "sample_b1 = \<lparr>sb_ParentHash = 3, sb_EpochNum = 4, sb_EpochHash = 40, sb_Timestamp = 10, sb_Transactions = []\<rparr>"

definition sample_b2 :: SingularBatch where
  "sample_b2 = \<lparr>sb_ParentHash = 0, sb_EpochNum = 5, sb_EpochHash = 50, sb_Timestamp = 12, sb_Transactions = []\<rparr>"

abbreviation (input) no_txs :: spanBatchTxs where
  "no_txs \<equiv> empty_spanBatchTxs\<lparr>contractCreationBits := Some 0, yParityBits := Some 0, protectedBits := Some 0\<rparr>"

definition only_builder :: "SingularBatch \<Rightarrow> u64 \<Rightarrow> SpanBatchBuilder" where
  "only_builder s n = projr (AppendSingularBatch sample_codecs (NewSpanBatch sample_codecs 0 2) s n)"

definition only_raw :: "SingularBatch \<Rightarrow> u64 \<Rightarrow> RawSpanBatch" where "only_raw s n = projr (ToRawSpanBatch (only_builder s n))"

definition only_bytes :: "SingularBatch \<Rightarrow> u64 \<Rightarrow> byte list" where
  "only_bytes s n = SpanBatchType # encodePrefix \<lparr>relTimestamp = sb_Timestamp s, l1OriginNum = sb_EpochNum s,
      parentCheck = first20 (sb_ParentHash s), l1OriginCheck = first20 (sb_EpochHash s)\<rparr> @ [1, if n = 0 then 1 else 0, 0]"

lemma small_codes: "BitLen 0 = 0" "BitLen (Suc 0) = 1" "PutUvarint 0 = [0]" "PutUvarint 1 = [1]" by code_simp+

lemma new_txs: "newSpanBatchTxs C chainID [] = Inr no_txs"
  by (simp add: newSpanBatchTxs_def AddTxs_def empty_spanBatchTxs_def)

lemma encode_no_txs: "sbtxs_encode no_txs = Inr []"
  by (simp add: sbtxs_encode_def encodeSpanBatchBits_def empty_spanBatchTxs_def bit_bytes_def encodeTxSigsRS_def small_codes)

lemma encode_one_bit: "encodeSpanBatchBits 1 (Some (SetBit 0 0 b)) = Inr [if b then 1 else 0]"
  by (cases b) (simp_all add: encodeSpanBatchBits_def bit_bytes_def SetBit_def small_codes)

lemma only:
  assumes "sb_Transactions s = []"
  shows "AppendSingularBatch sample_codecs (NewSpanBatch sample_codecs 0 2) s n = Inr (only_builder s n)"
    "ToRawSpanBatch (only_builder s n) = Inr (only_raw s n)"
    "encodeTyped sample_out_lib \<lparr>inner = InnerSpan (only_raw s n), ComprAlgo = None\<rparr> = Inr (only_bytes s n)"
    "length (sp_Batches (only_builder s n)) = 1" "sp_GenesisTimestamp (only_builder s n) = 0" "sp_ChainID (only_builder s n) = 2"
proof -
  show a: "AppendSingularBatch sample_codecs (NewSpanBatch sample_codecs 0 2) s n = Inr (only_builder s n)"
    using assms by (simp add: AppendSingularBatch_def NewSpanBatch_def only_builder_def new_txs AddTxs_def)
  have "\<exists>raw. ToRawSpanBatch (only_builder s n) = Inr raw \<and> raw_encode raw = Inr (tl (only_bytes s n))"
    using assms
    by (simp add: AppendSingularBatch_def NewSpanBatch_def only_builder_def new_txs AddTxs_def only_bytes_def ToRawSpanBatch_def raw_encode_def
        encodePayload_def Let_def encodeTxs_def singularBatchToElement_def encode_one_bit encode_no_txs small_codes)
  then show "ToRawSpanBatch (only_builder s n) = Inr (only_raw s n)"
    "encodeTyped sample_out_lib \<lparr>inner = InnerSpan (only_raw s n), ComprAlgo = None\<rparr> = Inr (only_bytes s n)"
    by (auto simp: only_raw_def encodeTyped_def GetBatchType_def only_bytes_def)
  show "length (sp_Batches (only_builder s n)) = 1" "sp_GenesisTimestamp (only_builder s n) = 0" "sp_ChainID (only_builder s n) = 2"
    using AppendSingularBatch_keeps [OF a] by (simp_all add: NewSpanBatch_def)
qed

definition sample_r1 :: "byte list" where "sample_r1 = unary_string (only_bytes sample_b1 1)"
definition sample_r2 :: "byte list" where "sample_r2 = unary_string (only_bytes sample_b2 0)"

lemma sample_lengths: "length sample_r1 = 93" "length sample_r2 = 93"
  by (simp_all add: sample_r1_def sample_r2_def unary_string_def only_bytes_def sample_b1_def sample_b2_def encodePrefix_def PutUvarint.simps del: be_encode.simps)

definition sample_co :: "unit SpanChannelOut" where "sample_co = projr (NewSpanChannelOut sample_out_env 7 100 sample_spec 1)"

definition sample_co1 :: "unit SpanChannelOut" where
  "sample_co1 = sample_co\<lparr>so_rlp := ([], sample_r1), so_rlpIndex := 1, so_spanBatch := only_builder sample_b1 1\<rparr>"

definition sample_co2 :: "unit SpanChannelOut" where
  "sample_co2 = sample_co1\<lparr>so_rlp := (sample_r1 @ sample_r2, sample_r1), so_lastCompressedRLPSize := 93,
     so_compressed := Some (1 # sample_r1), so_full := Some ErrCompressorFull, so_spanBatch := only_builder sample_b2 0, so_sealedRLPBytes := 93\<rparr>"

lemma sample_new: "NewSpanChannelOut sample_out_env 7 100 sample_spec 1 = Inr sample_co"
  by (simp add: sample_co_def NewSpanChannelOut_def sample_spec_def NewChainSpec_def)

lemma sample_co_sel:
  "so_closed sample_co = False" "so_full sample_co = None" "so_rlp sample_co = ([], [])" "so_rlpIndex sample_co = 0" "so_sealedRLPBytes sample_co = 0"
  "so_spanBatch sample_co = NewSpanBatch sample_codecs 0 2" "so_chainSpec sample_co = sample_spec" "so_compressed sample_co = Some []"
  "so_target sample_co = 100" "so_lastCompressedRLPSize sample_co = 0" "so_maxBlocksPerSpanBatch sample_co = 1"
  by (simp_all add: sample_co_def NewSpanChannelOut_def sample_spec_def NewChainSpec_def sample_out_env_def sample_out_lib_def sample_libraries_def)

lemma sample_env_sel:
  "oe_lib sample_out_env = sample_out_lib" "lib_codecs sample_out_lib = sample_codecs" "oe_rlp_string sample_out_env = unary_string"
  "oe_compressor sample_out_env = \<lparr>cp_Reset = [], cp_Write = (\<lambda>bs. ([], None)), cp_Close = (\<lambda>bs. (1 # bs, None))\<rparr>"
  by (simp_all add: sample_out_env_def sample_out_lib_def sample_libraries_def)

lemma sample_max: "\<not> unat (MaxRLPBytesPerChannel sample_spec t) < 93" "\<not> unat (MaxRLPBytesPerChannel sample_spec t) < 186"
  by (simp_all add: MaxRLPBytesPerChannel_def maxRLPBytesPerChannelBedrock_def maxRLPBytesPerChannelFjord_def)

lemma sample_no_txs: "sb_Transactions sample_b1 = []" "sb_Transactions sample_b2 = []" by (simp_all add: sample_b1_def sample_b2_def)

lemmas sample_eval = so_addSingularBatch_def ensureOpenSpanBatch_def Let_def sample_co_sel sample_env_sel sample_max sample_lengths only [OF sample_no_txs(1)]
  only [OF sample_no_txs(2)] activeRLP_def inactiveRLP_def swapRLP_def set_active_def set_inactive_def so_resetSpanBatch_def so_compress_def checkFull_def
  sample_co1_def sample_co2_def sample_r1_def [symmetric] sample_r2_def [symmetric]

lemma sample_add: 
  "so_addSingularBatch sample_out_env sample_b1 1 sample_co = Inr (None, sample_co1)"
  "so_addSingularBatch sample_out_env sample_b2 0 sample_co1 = Inr (Some ErrCompressorFull, sample_co2)"
proof -
  have "sp_Batches (NewSpanBatch sample_codecs 0 2) = []" by (simp add: NewSpanBatch_def)
  then show "so_addSingularBatch sample_out_env sample_b1 1 sample_co = Inr (None, sample_co1)" by (simp add: sample_eval)
  show "so_addSingularBatch sample_out_env sample_b2 0 sample_co1 = Inr (Some ErrCompressorFull, sample_co2)" by (simp add: sample_eval)
qed

lemma sample_added: "add_batches sample_out_env [(sample_b1, 1), (sample_b2, 0)] sample_co = Inr ([(sample_b1, 1)], Some ErrCompressorFull, sample_co2)"
  by (simp add: sample_add)

lemma sample_closed: "so_Close sample_out_env sample_co2 = (None, sample_co2\<lparr>so_closed := True\<rparr>)"
  by (simp add: so_Close_def sample_co2_def sample_co1_def sample_co_sel)

section \<open>Properties\<close>

text \<open>C7: What a closed span channel carries. Of the batches offered to a new channel a prefix is accepted: after an error of a full channel the
  batch that was refused is not in the channel, although it was already encoded. The compressed data is the compression of the encoded span batches whose
  blocks, joined, are exactly the accepted ones, in order; a limit on the blocks of a span batch and the two buffers do not show.\<close>

theorem closed_channel_holds_accepted:
  assumes "NewSpanChannelOut E i target spec maxBlocks = Inr co" and "L2ChainID (config spec) = Some chainID"
    and "add_batches E ss co = Inr (accepted, err, co1)" and "\<forall>e. err = Some e \<longrightarrow> e = ErrTooManyRLPBytes \<or> e = ErrCompressorFull"
    and "so_Close E co1 = (None, co2)"
  shows "\<exists>spans bs. concat spans = accepted \<and> (\<exists>rest. ss = accepted @ rest) \<and>
    holds E (L2Time (cfg_Genesis (config spec))) (nat chainID) spans bs \<and> so_compressed co2 = Some (fst (cp_Close (oe_compressor E) bs))"
  using closed_channel [OF assms(1-3) _ assms(5)] assms(4) by (auto simp: refused_def)

theorem closed_channel_holds_accepted_witness:
  "\<exists>spans bs. concat spans = [(sample_b1, 1)] \<and> holds sample_out_env 0 2 spans bs \<and>
     so_compressed (sample_co2\<lparr>so_closed := True\<rparr>) = Some (1 # bs)"
  using closed_channel_holds_accepted [OF sample_new _ sample_added _ sample_closed, of 2]
  by (auto simp: sample_spec_def NewChainSpec_def sample_env_sel)

end
