(* ===== verification/Channel_Builder.thy ===== *)
theory Channel_Builder
  imports Channel_Out
begin

text \<open>
  The channel builder of the batcher (\<open>op-batcher/batcher/channel_builder.go\<close>, \<open>channel_config.go\<close>): it adds blocks to a channel out until the channel is full
  or times out, closes it and cuts the output into frames. The channel out is an interface of the code, here a record of its operations.
\<close>

section \<open>Definitions\<close>

subsection \<open>The interface of channel outs\<close>

record ('co, 'e) channel_out =
  out_ID :: "'co \<Rightarrow> ChannelID"
  out_AddBlock :: "Config \<Rightarrow> Block \<Rightarrow> 'co \<Rightarrow> 'e out_error + (L1BlockInfo option \<times> 'e out_error option) \<times> 'co"
  out_InputBytes :: "'co \<Rightarrow> nat"
  out_ReadyBytes :: "'co \<Rightarrow> nat option"
  out_FullErr :: "'co \<Rightarrow> 'e out_error option"
  out_Close :: "'co \<Rightarrow> 'e out_error option \<times> 'co"
  out_OutputFrame :: "u64 \<Rightarrow> 'co \<Rightarrow> ('e out_error + u16 \<times> bool \<times> byte list) \<times> 'co"

definition span_channel_out :: "('al, 'au, 's, 'e) out_env \<Rightarrow> ('e SpanChannelOut, 'e) channel_out" where
  "span_channel_out E =
     \<lparr>out_ID = so_id, out_AddBlock = so_AddBlock E, out_InputBytes = so_InputBytes, out_ReadyBytes = so_ReadyBytes, out_FullErr = so_full,
      out_Close = so_Close E, out_OutputFrame = so_OutputFrame\<rparr>"

subsection \<open>Configuration\<close>

record ChannelConfig =
  cc_SeqWindowSize :: u64
  cc_ChannelTimeout :: u64
  cc_MaxChannelDuration :: u64
  cc_SubSafetyMargin :: u64
  cc_MaxFrameSize :: u64
  cc_MaxBlocksPerSpanBatch :: int
  cc_TargetNumFrames :: int
  cc_TargetOutputSize :: u64
  cc_BatchType :: nat
  cc_UseBlobs :: bool

datatype channel_config_error = ErrInvalidChannelTimeout u64 u64 | MaxFrameSizeTooSmall u64 | UnrecognizedBatchType nat | InvalidNumberOfFrames int

definition cc_Check :: "ChannelConfig \<Rightarrow> channel_config_error option" where
  "cc_Check cc =
     (if cc_ChannelTimeout cc < cc_SubSafetyMargin cc then Some (ErrInvalidChannelTimeout (cc_ChannelTimeout cc) (cc_SubSafetyMargin cc))
      else if cc_MaxFrameSize cc < word_of_nat FrameV0OverHeadSize then Some (MaxFrameSizeTooSmall (cc_MaxFrameSize cc))
      else if cc_BatchType cc > unat SpanBatchType then Some (UnrecognizedBatchType (cc_BatchType cc))
      else if cc_TargetNumFrames cc < 1 then Some (InvalidNumberOfFrames (cc_TargetNumFrames cc))
      else None)"

text \<open>\<open>None\<close> is the panic.\<close>

definition MaxDataSize :: "int \<Rightarrow> u64 \<Rightarrow> u64 option" where
  "MaxDataSize numFrames maxFrameSize =
     (if maxFrameSize < word_of_nat FrameV0OverHeadSize then None
      else Some (word_of_int numFrames * (maxFrameSize - word_of_nat FrameV0OverHeadSize)))"

definition InitCompressorConfig :: "ChannelConfig \<Rightarrow> ChannelConfig option" where
  "InitCompressorConfig cc = map_option (\<lambda>n. cc\<lparr>cc_TargetOutputSize := n\<rparr>) (MaxDataSize (cc_TargetNumFrames cc) (cc_MaxFrameSize cc))"

definition MaxFramesPerTx :: "ChannelConfig \<Rightarrow> int" where
  "MaxFramesPerTx cc = (if \<not> cc_UseBlobs cc then 1 else cc_TargetNumFrames cc)"

subsection \<open>State\<close>

datatype 'e full_reason =
    FullOut "'e out_error" | ErrMaxFrameIndex | ErrMaxDurationReached | ErrChannelTimeoutClose | ErrSeqWindowClose | ErrTerminated

datatype 'e builder_error = ChannelFullError "'e full_reason option" | AddingBlock "'e out_error" | ClosingChannelOut "'e out_error" | WritingFrame "'e out_error" | NilInfo

record SizedBlock =
  sz_Block :: Block
  sz_estimatedDABytes :: u64

record frameData =
  fd_data :: "byte list"
  fd_chID :: ChannelID
  fd_frameNumber :: u16

text \<open>A full channel has a \<open>ChannelFullError\<close>, which wraps the reason: \<open>cb_fullErr\<close> is \<open>None\<close> for a channel that is not full.\<close>

record ('co, 'e) ChannelBuilder =
  cb_cfg :: ChannelConfig
  cb_rollupCfg :: Config
  cb_timeout :: u64
  cb_timeoutReason :: "'e full_reason option"
  cb_fullErr :: "'e full_reason option option"
  cb_co :: 'co
  cb_blocks :: "SizedBlock list"
  cb_latestL1Origin :: BlockID
  cb_oldestL1Origin :: BlockID
  cb_latestL2 :: BlockID
  cb_oldestL2 :: BlockID
  cb_frames :: "frameData list"
  cb_frameCursor :: nat
  cb_numFrames :: nat
  cb_outputBytes :: nat

definition IsFull :: "('co, 'e) ChannelBuilder \<Rightarrow> bool" where "IsFull c \<longleftrightarrow> cb_fullErr c \<noteq> None"

definition setFullErr :: "'e full_reason option \<Rightarrow> ('co, 'e) ChannelBuilder \<Rightarrow> ('co, 'e) ChannelBuilder" where
  "setFullErr err c = c\<lparr>cb_fullErr := Some err\<rparr>"

subsection \<open>Timeouts\<close>

definition updateTimeout :: "u64 \<Rightarrow> 'e full_reason \<Rightarrow> ('co, 'e) ChannelBuilder \<Rightarrow> ('co, 'e) ChannelBuilder" where
  "updateTimeout timeoutBlockNum reason c =
     (if cb_timeout c = 0 \<or> cb_timeout c > timeoutBlockNum then c\<lparr>cb_timeout := timeoutBlockNum, cb_timeoutReason := Some reason\<rparr> else c)"

definition updateDurationTimeout :: "u64 \<Rightarrow> ('co, 'e) ChannelBuilder \<Rightarrow> ('co, 'e) ChannelBuilder" where
  "updateDurationTimeout l1BlockNum c =
     (if cc_MaxChannelDuration (cb_cfg c) = 0 then c else updateTimeout (l1BlockNum + cc_MaxChannelDuration (cb_cfg c)) ErrMaxDurationReached c)"

definition updateSwTimeout :: "u64 \<Rightarrow> ('co, 'e) ChannelBuilder \<Rightarrow> ('co, 'e) ChannelBuilder" where
  "updateSwTimeout l1InfoNumber c =
     updateTimeout (l1InfoNumber + cc_SeqWindowSize (cb_cfg c) - cc_SubSafetyMargin (cb_cfg c)) ErrSeqWindowClose c"

definition FramePublished :: "u64 \<Rightarrow> ('co, 'e) ChannelBuilder \<Rightarrow> ('co, 'e) ChannelBuilder" where
  "FramePublished l1BlockNum c =
     updateTimeout (l1BlockNum + cc_ChannelTimeout (cb_cfg c) - cc_SubSafetyMargin (cb_cfg c)) ErrChannelTimeoutClose c"

definition CheckTimeout :: "u64 \<Rightarrow> ('co, 'e) ChannelBuilder \<Rightarrow> ('co, 'e) ChannelBuilder" where
  "CheckTimeout l1BlockNum c =
     (if cb_timeout c \<noteq> 0 \<and> \<not> IsFull c \<and> l1BlockNum \<ge> cb_timeout c then setFullErr (cb_timeoutReason c) c else c)"

definition NewChannelBuilderWithChannelOut :: "ChannelConfig \<Rightarrow> Config \<Rightarrow> u64 \<Rightarrow> 'co \<Rightarrow> ('co, 'e) ChannelBuilder" where
  "NewChannelBuilderWithChannelOut cfg rollupCfg latestL1OriginBlockNum channelOut =
     (let zero = \<lparr>bid_Hash = 0, bid_Number = 0\<rparr> in
      updateDurationTimeout latestL1OriginBlockNum
       \<lparr>cb_cfg = cfg, cb_rollupCfg = rollupCfg, cb_timeout = 0, cb_timeoutReason = None, cb_fullErr = None, cb_co = channelOut, cb_blocks = [],
        cb_latestL1Origin = zero, cb_oldestL1Origin = zero, cb_latestL2 = zero, cb_oldestL2 = zero, cb_frames = [], cb_frameCursor = 0,
        cb_numFrames = 0, cb_outputBytes = 0\<rparr>)"

subsection \<open>Blocks\<close>

definition blockID :: "Block \<Rightarrow> BlockID" where "blockID b = \<lparr>bid_Hash = blk_Hash b, bid_Number = blk_Number b\<rparr>"

text \<open>The origins and L2 blocks that the builder remembers.\<close>

definition update_origins :: "L1BlockInfo \<Rightarrow> ('co, 'e) ChannelBuilder \<Rightarrow> ('co, 'e) ChannelBuilder" where
  "update_origins l1info c =
     (let origin = \<lparr>bid_Hash = li_BlockHash l1info, bid_Number = li_Number l1info\<rparr>;
          c = (if li_Number l1info > bid_Number (cb_latestL1Origin c) then c\<lparr>cb_latestL1Origin := origin\<rparr> else c)
      in if bid_Number (cb_oldestL1Origin c) = 0 \<or> li_Number l1info < bid_Number (cb_latestL1Origin c) then c\<lparr>cb_oldestL1Origin := origin\<rparr> else c)"

definition update_l2 :: "Block \<Rightarrow> ('co, 'e) ChannelBuilder \<Rightarrow> ('co, 'e) ChannelBuilder" where
  "update_l2 b c =
     (let c = (if blk_Number b > bid_Number (cb_latestL2 c) then c\<lparr>cb_latestL2 := blockID b\<rparr> else c)
      in if bid_Number (cb_oldestL2 c) = 0 \<or> blk_Number b < bid_Number (cb_oldestL2 c) then c\<lparr>cb_oldestL2 := blockID b\<rparr> else c)"

text \<open>The inner error is the one the code returns; the outer one stands for a channel out that is left half changed or a panic.\<close>

definition cb_AddBlock ::
  "('co, 'e) channel_out \<Rightarrow> SizedBlock \<Rightarrow> ('co, 'e) ChannelBuilder \<Rightarrow>
     'e builder_error + (L1BlockInfo option \<times> 'e builder_error option) \<times> ('co, 'e) ChannelBuilder" where
  "cb_AddBlock ops block c =
     (case cb_fullErr c of
        Some reason \<Rightarrow> Inr ((None, Some (ChannelFullError reason)), c)
      | None \<Rightarrow>
         (case out_AddBlock ops (cb_rollupCfg c) (sz_Block block) (cb_co c) of
            Inl e \<Rightarrow> Inl (AddingBlock e)
          | Inr ((l1info, Some err), co) \<Rightarrow>
              let c = c\<lparr>cb_co := co\<rparr> in
              if err = ErrTooManyRLPBytes \<or> err = ErrCompressorFull
              then Inr ((l1info, Some (ChannelFullError (Some (FullOut err)))), setFullErr (Some (FullOut err)) c)
              else Inr ((l1info, Some (AddingBlock err)), c)
          | Inr ((None, None), co) \<Rightarrow> Inl NilInfo
          | Inr ((Some l1info, None), co) \<Rightarrow>
              let c = c\<lparr>cb_co := co, cb_blocks := cb_blocks c @ [block]\<rparr>;
                  c = update_l2 (sz_Block block) (update_origins l1info (updateSwTimeout (li_Number l1info) c))
              in Inr ((Some l1info, None),
                   case out_FullErr ops (cb_co c) of None \<Rightarrow> c | Some err \<Rightarrow> setFullErr (Some (FullOut err)) c)))"

subsection \<open>Frames\<close>

text \<open>The result is an error or whether the error was \<open>io.EOF\<close>.\<close>

definition outputFrame :: "('co, 'e) channel_out \<Rightarrow> ('co, 'e) ChannelBuilder \<Rightarrow> ('e builder_error + bool) \<times> ('co, 'e) ChannelBuilder" where
  "outputFrame ops c =
     (case out_OutputFrame ops (cc_MaxFrameSize (cb_cfg c)) (cb_co c) of
        (Inl err, co) \<Rightarrow> (Inl (WritingFrame err), c\<lparr>cb_co := co\<rparr>)
      | (Inr (fn, eof, buf), co) \<Rightarrow>
          let c = c\<lparr>cb_co := co\<rparr>;
              c = (if fn = 0xFFFF then setFullErr (Some ErrMaxFrameIndex) c else c);
              frame = \<lparr>fd_data = buf, fd_chID = out_ID ops (cb_co c), fd_frameNumber = fn\<rparr>
          in (Inr eof, c\<lparr>cb_frames := cb_frames c @ [frame], cb_numFrames := cb_numFrames c + 1, cb_outputBytes := cb_outputBytes c + length buf\<rparr>))"

partial_function (option) output_until_eof ::
  "('co, 'e) channel_out \<Rightarrow> ('co, 'e) ChannelBuilder \<Rightarrow> ('e builder_error option \<times> ('co, 'e) ChannelBuilder) option" where
  "output_until_eof ops c =
     (case outputFrame ops c of
        (Inl err, c) \<Rightarrow> Some (Some err, c)
      | (Inr eof, c) \<Rightarrow> if eof then Some (None, c) else output_until_eof ops c)"

definition closeAndOutputAllFrames ::
  "('co, 'e) channel_out \<Rightarrow> ('co, 'e) ChannelBuilder \<Rightarrow> ('e builder_error option \<times> ('co, 'e) ChannelBuilder) option" where
  "closeAndOutputAllFrames ops c =
     (case out_Close ops (cb_co c) of
        (Some err, co) \<Rightarrow> Some (Some (ClosingChannelOut err), c\<lparr>cb_co := co\<rparr>)
      | (None, co) \<Rightarrow> output_until_eof ops (c\<lparr>cb_co := co\<rparr>))"

partial_function (option) outputReadyFrames ::
  "('co, 'e) channel_out \<Rightarrow> ('co, 'e) ChannelBuilder \<Rightarrow> ('e builder_error option \<times> ('co, 'e) ChannelBuilder) option" where
  "outputReadyFrames ops c =
     (case out_ReadyBytes ops (cb_co c) of
        None \<Rightarrow> Some (Some (WritingFrame OutPanic), c)
      | Some ready \<Rightarrow>
         if int ready + int FrameV0OverHeadSize \<ge> sint (cc_MaxFrameSize (cb_cfg c))
         then (case outputFrame ops c of
                 (Inl err, c) \<Rightarrow> Some (Some err, c)
               | (Inr eof, c) \<Rightarrow> if eof then Some (None, c) else outputReadyFrames ops c)
         else Some (None, c))"

definition OutputFrames ::
  "('co, 'e) channel_out \<Rightarrow> ('co, 'e) ChannelBuilder \<Rightarrow> ('e builder_error option \<times> ('co, 'e) ChannelBuilder) option" where
  "OutputFrames ops c = (if IsFull c then closeAndOutputAllFrames ops c else outputReadyFrames ops c)"

definition cb_Close :: "('co, 'e) ChannelBuilder \<Rightarrow> ('co, 'e) ChannelBuilder" where
  "cb_Close c = (if \<not> IsFull c then setFullErr (Some ErrTerminated) c else c)"

definition HasPendingFrame :: "('co, 'e) ChannelBuilder \<Rightarrow> bool" where "HasPendingFrame c \<longleftrightarrow> cb_frameCursor c < length (cb_frames c)"

definition PendingFrames :: "('co, 'e) ChannelBuilder \<Rightarrow> int" where "PendingFrames c = int (length (cb_frames c)) - int (cb_frameCursor c)"

text \<open>\<open>None\<close> is the panic, in both.\<close>

definition cb_NextFrame :: "('co, 'e) ChannelBuilder \<Rightarrow> (frameData \<times> ('co, 'e) ChannelBuilder) option" where
  "cb_NextFrame c =
     (if length (cb_frames c) \<le> cb_frameCursor c then None
      else Some (cb_frames c ! cb_frameCursor c, c\<lparr>cb_frameCursor := cb_frameCursor c + 1\<rparr>))"

definition RewindFrameCursor :: "frameData \<Rightarrow> ('co, 'e) ChannelBuilder \<Rightarrow> ('co, 'e) ChannelBuilder option" where
  "RewindFrameCursor frame c =
     (let n = unat (fd_frameNumber frame) in
      if length (cb_frames c) \<le> n \<or> length (fd_data (cb_frames c ! n)) \<noteq> length (fd_data frame) \<or> fd_chID (cb_frames c ! n) \<noteq> fd_chID frame then None
      else Some (if cb_frameCursor c > n then c\<lparr>cb_frameCursor := n\<rparr> else c))"


section \<open>Cutting a channel into frames\<close>

text \<open>The frames of a channel from number \<open>k\<close> on, each with up to \<open>m\<close> bytes of data.\<close>

function frames_of :: "ChannelID \<Rightarrow> nat \<Rightarrow> nat \<Rightarrow> byte list \<Rightarrow> Frame list" where
  "frames_of i m k buf =
     (if length buf \<le> m \<or> m = 0 then [\<lparr>ID = i, FrameNumber = word_of_nat k, Data = buf, IsLast = True\<rparr>]
      else \<lparr>ID = i, FrameNumber = word_of_nat k, Data = take m buf, IsLast = False\<rparr> # frames_of i m (Suc k) (drop m buf))"
  by pat_completeness auto
termination by (relation "measure (\<lambda>(i, m, k, buf). length buf)") auto

declare frames_of.simps [simp del]

lemma frames_of_data: "concat (map Data (frames_of i m k buf)) = buf"
  by (induction i m k buf rule: frames_of.induct) (subst frames_of.simps, auto)

lemma frames_of_nonempty [simp]: "frames_of i m k buf \<noteq> []" by (subst frames_of.simps) simp

lemma frames_of_nth:
  "j < length (frames_of i m k buf) \<Longrightarrow>
     ID (frames_of i m k buf ! j) = i \<and> FrameNumber (frames_of i m k buf ! j) = word_of_nat (k + j) \<and>
     (IsLast (frames_of i m k buf ! j) \<longleftrightarrow> Suc j = length (frames_of i m k buf))"
proof (induction i m k buf arbitrary: j rule: frames_of.induct)
  case (1 i m k buf)
  show ?case
  proof (cases "length buf \<le> m \<or> m = 0")
    case True
    then show ?thesis using 1(2) frames_of.simps [of i m k buf] by auto
  next
    case False
    then have e: "frames_of i m k buf = \<lparr>ID = i, FrameNumber = word_of_nat k, Data = take m buf, IsLast = False\<rparr> # frames_of i m (Suc k) (drop m buf)"
      by (subst frames_of.simps) simp
    show ?thesis using 1(2) 1(1) [OF False] unfolding e by (cases j) auto
  qed
qed

lemma frames_of_sizes:
  assumes "0 < m"
  shows "(\<forall>f\<in>set (frames_of i m k buf). length (Data f) \<le> m) \<and> (\<forall>f\<in>set (butlast (frames_of i m k buf)). length (Data f) = m) \<and>
    m * length (frames_of i m k buf) < length buf + m + (if buf = [] then 1 else 0)"
  using assms
proof (induction i m k buf rule: frames_of.induct)
  case (1 i m k buf)
  show ?case
  proof (cases "length buf \<le> m")
    case True
    then show ?thesis by (subst (1 2 3) frames_of.simps) auto
  next
    case False
    then have e: "frames_of i m k buf = \<lparr>ID = i, FrameNumber = word_of_nat k, Data = take m buf, IsLast = False\<rparr> # frames_of i m (Suc k) (drop m buf)"
      using 1(2) by (subst frames_of.simps) simp
    have d: "drop m buf \<noteq> []" "length (drop m buf) + m = length buf" using False by auto
    show ?thesis using 1(1) 1(2) False d unfolding e by (auto simp: algebra_simps)
  qed
qed

lemma frame_number: "(ucast (word_of_nat k :: u64) :: u16) = word_of_nat k"
  by (simp add: unsigned_of_nat word_of_nat_eq_iff)

definition frame_data :: "Frame \<Rightarrow> frameData" where
  "frame_data f = \<lparr>fd_data = MarshalBinary f, fd_chID = ID f, fd_frameNumber = FrameNumber f\<rparr>"

subsection \<open>Closed channel outs\<close>

text \<open>What a closed channel out promises: with \<open>buf\<close> still to be written and \<open>k\<close> frames written, the next frame carries as much of it as fits.\<close>

locale closed_out =
  fixes ops :: "('co, 'e) channel_out" and pending :: "'co \<Rightarrow> byte list \<Rightarrow> u64 \<Rightarrow> bool"
  assumes next_frame: "pending co buf k \<Longrightarrow> FrameV0OverHeadSize \<le> unat maxSize \<Longrightarrow> length buf < 2 ^ 64 \<Longrightarrow> m = unat maxSize - FrameV0OverHeadSize \<Longrightarrow>
    \<exists>co'. out_OutputFrame ops maxSize co =
        (Inr (ucast k, length buf \<le> m, MarshalBinary \<lparr>ID = out_ID ops co, FrameNumber = ucast k, Data = take m buf, IsLast = (length buf \<le> m)\<rparr>), co') \<and>
      pending co' (drop m buf) (k + 1) \<and> out_ID ops co' = out_ID ops co"
begin

lemma outputFrame_pending:
  assumes "pending (cb_co c) buf k" and "FrameV0OverHeadSize \<le> unat (cc_MaxFrameSize (cb_cfg c))" and "length buf < 2 ^ 64"
    and "m = unat (cc_MaxFrameSize (cb_cfg c)) - FrameV0OverHeadSize"
  shows "\<exists>c'. outputFrame ops c = (Inr (length buf \<le> m), c') \<and> pending (cb_co c') (drop m buf) (k + 1) \<and> cb_cfg c' = cb_cfg c \<and>
    cb_frames c' = cb_frames c @ [frame_data \<lparr>ID = out_ID ops (cb_co c), FrameNumber = ucast k, Data = take m buf, IsLast = (length buf \<le> m)\<rparr>] \<and>
    out_ID ops (cb_co c') = out_ID ops (cb_co c) \<and> cb_blocks c' = cb_blocks c \<and> cb_frameCursor c' = cb_frameCursor c \<and> (IsFull c \<longrightarrow> IsFull c')"
  using next_frame [OF assms] by (auto simp: outputFrame_def Let_def frame_data_def setFullErr_def IsFull_def)

lemma output_until_eof_frames:
  assumes "pending (cb_co c) buf (word_of_nat k)" and "FrameV0OverHeadSize < unat (cc_MaxFrameSize (cb_cfg c))" and "length buf < 2 ^ 64"
    and "m = unat (cc_MaxFrameSize (cb_cfg c)) - FrameV0OverHeadSize"
  shows "\<exists>c'. output_until_eof ops c = Some (None, c') \<and> cb_frames c' = cb_frames c @ map frame_data (frames_of (out_ID ops (cb_co c)) m k buf) \<and>
    cb_blocks c' = cb_blocks c \<and> cb_frameCursor c' = cb_frameCursor c \<and> (IsFull c \<longrightarrow> IsFull c')"
  using assms
proof (induction "length buf" arbitrary: c k buf rule: less_induct)
  case less
  have le: "FrameV0OverHeadSize \<le> unat (cc_MaxFrameSize (cb_cfg c))" and m: "0 < m" using less.prems(2,4) by simp_all
  obtain c1 where c1: "outputFrame ops c = (Inr (length buf \<le> m), c1)" "pending (cb_co c1) (drop m buf) (word_of_nat (Suc k))" "cb_cfg c1 = cb_cfg c"
      "cb_frames c1 = cb_frames c @ [frame_data \<lparr>ID = out_ID ops (cb_co c), FrameNumber = word_of_nat k, Data = take m buf, IsLast = (length buf \<le> m)\<rparr>]"
      "out_ID ops (cb_co c1) = out_ID ops (cb_co c)" "cb_blocks c1 = cb_blocks c" "cb_frameCursor c1 = cb_frameCursor c" "IsFull c \<longrightarrow> IsFull c1"
    using outputFrame_pending [OF less.prems(1) le less.prems(3,4)] by (auto simp: frame_number add.commute)
  show ?case
  proof (cases "length buf \<le> m")
    case True
    then show ?thesis using c1 by (subst output_until_eof.simps, subst frames_of.simps) (auto simp: Let_def)
  next
    case False
    then have "length (drop m buf) < length buf" using m by simp
    moreover have "length (drop m buf) < 2 ^ 64" using less.prems(3) by (simp only: length_drop)
    ultimately obtain c2 where "output_until_eof ops c1 = Some (None, c2)"
        "cb_frames c2 = cb_frames c1 @ map frame_data (frames_of (out_ID ops (cb_co c1)) m (Suc k) (drop m buf))"
        "cb_blocks c2 = cb_blocks c1" "cb_frameCursor c2 = cb_frameCursor c1" "IsFull c1 \<longrightarrow> IsFull c2"
      using less.hyps [OF _ c1(2)] less.prems(2,4) c1(3) by (metis (no_types, lifting))
    then show ?thesis using c1 False m by (subst output_until_eof.simps, subst frames_of.simps) auto
  qed
qed

text \<open>With room for the overhead only, a closed channel that holds data never ends.\<close>

lemma output_until_eof_never:
  assumes "pending (cb_co c) buf k" and "unat (cc_MaxFrameSize (cb_cfg c)) = FrameV0OverHeadSize" and "length buf < 2 ^ 64" and "buf \<noteq> []"
  shows "output_until_eof ops c = None"
proof (rule ccontr)
  assume "output_until_eof ops c \<noteq> None"
  then obtain y where y: "output_until_eof ops c = Some y" by auto
  let ?stuck = "\<lambda>c. \<exists>k. pending (cb_co c) buf k \<and> unat (cc_MaxFrameSize (cb_cfg c)) = FrameV0OverHeadSize"
  have "ops = ops \<longrightarrow> \<not> ?stuck c"
  proof (rule output_until_eof.raw_induct [where P = "\<lambda>o' c y. o' = ops \<longrightarrow> \<not> ?stuck c", OF _ y], intro impI notI)
    fix rec o' c y
    assume IH: "\<And>o' c y. rec o' c = Some y \<Longrightarrow> o' = ops \<longrightarrow> \<not> ?stuck c"
      and eq: "(case outputFrame o' c of (Inl err, c) \<Rightarrow> Some (Some err, c) | (Inr eof, c) \<Rightarrow> if eof then Some (None, c) else rec o' c) = Some y"
      and o': "o' = ops" and "?stuck c"
    then obtain k where p: "pending (cb_co c) buf k" "unat (cc_MaxFrameSize (cb_cfg c)) = FrameV0OverHeadSize" by blast
    then obtain c1 where c1: "outputFrame ops c = (Inr False, c1)" "pending (cb_co c1) buf (k + 1)" "cb_cfg c1 = cb_cfg c"
      using outputFrame_pending [of c buf k 0] assms(3,4) by auto
    then have "rec ops c1 = Some y" using eq o' by simp
    from IH [OF this] c1 p show False by auto
  qed
  with y assms(1,2) show False by blast
qed

end


subsection \<open>The span channel out keeps the promise\<close>

definition span_pending :: "'e SpanChannelOut \<Rightarrow> byte list \<Rightarrow> u64 \<Rightarrow> bool" where
  "span_pending co buf k \<longleftrightarrow> so_closed co \<and> so_compressed co = Some buf \<and> so_frame co = k"

lemma max_data_size:
  assumes "FrameV0OverHeadSize \<le> unat (maxSize :: u64)"
  shows "unat (maxSize - word_of_nat FrameV0OverHeadSize) = unat maxSize - FrameV0OverHeadSize"
proof -
  have "word_of_nat FrameV0OverHeadSize \<le> maxSize" using assms by (simp add: word_le_nat_alt FrameV0OverHeadSize_def)
  then show ?thesis by (simp add: unat_sub FrameV0OverHeadSize_def)
qed

interpretation span_out: closed_out "span_channel_out (E :: ('al, 'au, 's, 'e) out_env)" span_pending for E
proof unfold_locales
  fix co :: "'e SpanChannelOut" and buf k and maxSize :: u64 and m
  assume p: "span_pending co buf k" and le: "FrameV0OverHeadSize \<le> unat maxSize" and len: "length buf < 2 ^ 64" and m: "m = unat maxSize - FrameV0OverHeadSize"
  have u: "unat (word_of_nat (length buf) :: u64) = length buf" using len by (simp add: unat_of_nat)
  have fits: "maxSize - word_of_nat FrameV0OverHeadSize \<ge> word_of_nat (length buf) \<longleftrightarrow> length buf \<le> m"
    using max_data_size [OF le] u m by (simp add: word_le_nat_alt)
  show "\<exists>co'. out_OutputFrame (span_channel_out E) maxSize co =
      (Inr (ucast k, length buf \<le> m, MarshalBinary \<lparr>ID = out_ID (span_channel_out E) co, FrameNumber = ucast k, Data = take m buf, IsLast = (length buf \<le> m)\<rparr>), co') \<and>
    span_pending co' (drop m buf) (k + 1) \<and> out_ID (span_channel_out E) co' = out_ID (span_channel_out E) co"
    using p le u fits max_data_size [OF le] m
    by (auto simp: span_channel_out_def so_OutputFrame_def createEmptyFrame_def Let_def span_pending_def so_ReadyBytes_def)
qed

text \<open>An open span channel writes empty frames.\<close>

definition span_open :: "'e SpanChannelOut \<Rightarrow> bool" where
  "span_open co \<longleftrightarrow> \<not> so_closed co \<and> so_full co = None \<and> so_compressed co \<noteq> None"

lemma outputFrame_open:
  assumes "span_open (cb_co c)" and "FrameV0OverHeadSize \<le> unat (cc_MaxFrameSize (cb_cfg c))"
  shows "\<exists>c'. outputFrame (span_channel_out E) c = (Inr False, c') \<and> span_open (cb_co c') \<and> cb_cfg c' = cb_cfg c"
  using assms
  by (auto simp: outputFrame_def span_channel_out_def so_OutputFrame_def createEmptyFrame_def Let_def span_open_def so_ReadyBytes_def setFullErr_def)

lemma ready_frames_never:
  assumes "span_open (cb_co c)" and "unat (cc_MaxFrameSize (cb_cfg c)) = FrameV0OverHeadSize"
  shows "outputReadyFrames (span_channel_out E) c = None"
proof (rule ccontr)
  assume "outputReadyFrames (span_channel_out E) c \<noteq> None"
  then obtain y where y: "outputReadyFrames (span_channel_out E) c = Some y" by auto
  let ?stuck = "\<lambda>c. span_open (cb_co c) \<and> unat (cc_MaxFrameSize (cb_cfg c)) = FrameV0OverHeadSize"
  have "span_channel_out E = span_channel_out E \<longrightarrow> \<not> ?stuck c"
  proof (rule outputReadyFrames.raw_induct [where P = "\<lambda>o' c y. o' = span_channel_out E \<longrightarrow> \<not> ?stuck c", OF _ y], intro impI notI)
    fix rec o' c y
    assume IH: "\<And>o' c y. rec o' c = Some y \<Longrightarrow> o' = span_channel_out E \<longrightarrow> \<not> ?stuck c"
      and eq: "(case out_ReadyBytes o' (cb_co c) of None \<Rightarrow> Some (Some (WritingFrame OutPanic), c)
        | Some ready \<Rightarrow>
         if int ready + int FrameV0OverHeadSize \<ge> sint (cc_MaxFrameSize (cb_cfg c))
         then (case outputFrame o' c of (Inl err, c) \<Rightarrow> Some (Some err, c) | (Inr eof, c) \<Rightarrow> if eof then Some (None, c) else rec o' c)
         else Some (None, c)) = Some y"
      and o': "o' = span_channel_out E" and st: "?stuck c"
    obtain c1 where c1: "outputFrame (span_channel_out E) c = (Inr False, c1)" "span_open (cb_co c1)" "cb_cfg c1 = cb_cfg c"
      using outputFrame_open [of c E] st by auto
    have w: "cc_MaxFrameSize (cb_cfg c) = 23" using st by (simp add: FrameV0OverHeadSize_def word_unat_eq_iff)
    then have "rec (span_channel_out E) c1 = Some y"
      using eq o' c1 st by (simp add: span_channel_out_def so_ReadyBytes_def span_open_def FrameV0OverHeadSize_def)
    from IH [OF this] c1 st show False by auto
  qed
  with assms y show False by blast
qed

section \<open>Properties\<close>

lemma closed_frames:
  fixes E :: "('al, 'au, 's, 'e) out_env"
  assumes "so_Close E (cb_co c) = (None, co)" and "so_compressed co = Some buf" and "length buf < 2 ^ 64" and "so_frame (cb_co c) = 0"
    and "FrameV0OverHeadSize < unat (cc_MaxFrameSize (cb_cfg c))" and "so_closed co" and "m = unat (cc_MaxFrameSize (cb_cfg c)) - FrameV0OverHeadSize"
  shows "\<exists>c'. closeAndOutputAllFrames (span_channel_out E) c = Some (None, c') \<and> cb_frames c' = cb_frames c @ map frame_data (frames_of (so_id (cb_co c)) m 0 buf) \<and>
    cb_blocks c' = cb_blocks c \<and> cb_frameCursor c' = cb_frameCursor c \<and> (IsFull c \<longrightarrow> IsFull c')"
proof -
  have co: "so_frame co = so_frame (cb_co c) \<and> so_id co = so_id (cb_co c)"
    using assms(1) by (auto simp: so_Close_def so_compress_def Let_def checkFull_def split: if_splits prod.splits option.splits)
  let ?c = "c\<lparr>cb_co := co\<rparr>"
  have "span_pending (cb_co ?c) buf (word_of_nat 0)" using assms(2,4,6) co by (simp add: span_pending_def)
  then obtain c' where "output_until_eof (span_channel_out E) ?c = Some (None, c')"
      "cb_frames c' = cb_frames ?c @ map frame_data (frames_of (out_ID (span_channel_out E) (cb_co ?c)) m 0 buf)"
      "cb_blocks c' = cb_blocks ?c" "cb_frameCursor c' = cb_frameCursor ?c" "IsFull ?c \<longrightarrow> IsFull c'"
    using span_out.output_until_eof_frames [where c = ?c and buf = buf and k = 0 and E = E and m = m] assms(3,5,7) by auto
  then show ?thesis using assms(1) co by (simp add: closeAndOutputAllFrames_def span_channel_out_def IsFull_def)
qed


lemma so_Close_closed: "so_Close E co = (None, co') \<Longrightarrow> so_closed co'"
  by (auto simp: so_Close_def so_compress_def Let_def checkFull_def split: if_splits prod.splits option.splits)

lemma frames_of_channel:
  assumes "0 < m" and "length buf \<le> 65536 * m"
  shows "channel_frames i (frames_of i m 0 buf)"
proof -
  let ?n = "length (frames_of i m 0 buf)"
  have "m * ?n < length buf + m + (if buf = [] then 1 else 0)" using frames_of_sizes [OF assms(1)] by blast
  note len = this
  have "?n \<le> 65536"
  proof (cases "buf = []")
    case True
    then show ?thesis by (subst frames_of.simps) simp
  next
    case False
    with len have "m * ?n < length buf + m" by simp
    with assms(2) have "m * ?n < m * 65537" by linarith
    then show ?thesis by simp
  qed
  then show ?thesis using frames_of_nth [of _ i m 0 buf] by (simp add: channel_frames_def)
qed

text \<open>C14: Closing a span channel and cutting it into frames ends without an error. The data of the new frames, joined, is the compressed channel;
  they are numbered from 0 and only the last one is marked last; no encoded frame is longer than \<open>MaxFrameSize\<close>, and all but the last have exactly that length.\<close>

theorem closing_cuts_channel_into_frames:
  assumes "so_Close E (cb_co c) = (None, co)" and "so_compressed co = Some buf" and "length buf < 2 ^ 64" and "so_frame (cb_co c) = 0"
    and "FrameV0OverHeadSize < unat (cc_MaxFrameSize (cb_cfg c))"
  shows "\<exists>c' fs. closeAndOutputAllFrames (span_channel_out E) c = Some (None, c') \<and> cb_frames c' = cb_frames c @ map frame_data fs \<and>
    concat (map Data fs) = buf \<and>
    (\<forall>k<length fs. ID (fs ! k) = so_id (cb_co c) \<and> FrameNumber (fs ! k) = word_of_nat k \<and> (IsLast (fs ! k) \<longleftrightarrow> Suc k = length fs)) \<and>
    (\<forall>f\<in>set fs. length (MarshalBinary f) \<le> unat (cc_MaxFrameSize (cb_cfg c))) \<and>
    (\<forall>f\<in>set (butlast fs). length (MarshalBinary f) = unat (cc_MaxFrameSize (cb_cfg c)))"
proof -
  define m where "m = unat (cc_MaxFrameSize (cb_cfg c)) - FrameV0OverHeadSize"
  have m: "0 < m" "unat (cc_MaxFrameSize (cb_cfg c)) = m + 23" using assms(5) by (simp_all add: m_def FrameV0OverHeadSize_def)
  obtain c' where "closeAndOutputAllFrames (span_channel_out E) c = Some (None, c')"
      "cb_frames c' = cb_frames c @ map frame_data (frames_of (so_id (cb_co c)) m 0 buf)"
    using closed_frames [OF assms so_Close_closed [OF assms(1)] m_def] by blast
  then show ?thesis
    using frames_of_nth [of _ "so_id (cb_co c)" m 0 buf] frames_of_sizes [OF m(1), of "so_id (cb_co c)" 0 buf] frames_of_data [of "so_id (cb_co c)" m 0 buf] m(2)
    by (intro exI [of _ c'] exI [of _ "frames_of (so_id (cb_co c)) m 0 buf"]) (simp add: length_MarshalBinary)
qed

definition sample_cb_cfg :: ChannelConfig where
  "sample_cb_cfg = \<lparr>cc_SeqWindowSize = 3600, cc_ChannelTimeout = 300, cc_MaxChannelDuration = 0, cc_SubSafetyMargin = 10, cc_MaxFrameSize = 43,
     cc_MaxBlocksPerSpanBatch = 1, cc_TargetNumFrames = 3, cc_TargetOutputSize = 60, cc_BatchType = 1, cc_UseBlobs = False\<rparr>"

definition sample_cb :: "u64 \<Rightarrow> unit SpanChannelOut \<Rightarrow> (unit SpanChannelOut, unit) ChannelBuilder" where
  "sample_cb maxSize co = NewChannelBuilderWithChannelOut (sample_cb_cfg\<lparr>cc_MaxFrameSize := maxSize\<rparr>) (config sample_spec) 0 co"

lemma sample_cb_sel [simp]:
  "cb_co (sample_cb n co) = co" "cc_MaxFrameSize (cb_cfg (sample_cb n co)) = n" "cb_frames (sample_cb n co) = []"
  by (simp_all add: sample_cb_def NewChannelBuilderWithChannelOut_def updateDurationTimeout_def updateTimeout_def sample_cb_cfg_def Let_def)

theorem closing_cuts_channel_into_frames_witness:
  "\<exists>c' fs. closeAndOutputAllFrames (span_channel_out sample_out_env) (sample_cb 43 sample_co2) = Some (None, c') \<and>
     cb_frames c' = map frame_data fs \<and> concat (map Data fs) = 1 # sample_r1"
proof -
  have "so_compressed (sample_co2\<lparr>so_closed := True\<rparr>) = Some (1 # sample_r1)" "so_frame sample_co2 = 0"
    by (simp_all add: sample_co2_def sample_co1_def sample_co_def NewSpanChannelOut_def sample_spec_def NewChainSpec_def)
  then show ?thesis
    using closing_cuts_channel_into_frames [of sample_out_env "sample_cb 43 sample_co2"] sample_closed
    by (fastforce simp: sample_lengths FrameV0OverHeadSize_def)
qed

text \<open>C21: The smallest frame size that \<open>Check\<close> accepts, the frame overhead itself, leaves no room for data. With it \<open>OutputFrames\<close> does not return: on an open
  span channel it writes empty frames forever, and closing a channel that holds data does not end either.\<close>

theorem smallest_frame_size_never_returns:
  assumes "unat (cc_MaxFrameSize (cb_cfg c)) = FrameV0OverHeadSize"
  shows "(\<not> IsFull c \<longrightarrow> \<not> so_closed (cb_co c) \<longrightarrow> so_full (cb_co c) = None \<longrightarrow> so_compressed (cb_co c) \<noteq> None \<longrightarrow>
      OutputFrames (span_channel_out E) c = None) \<and>
    (\<forall>co buf. IsFull c \<longrightarrow> so_Close E (cb_co c) = (None, co) \<longrightarrow> so_compressed co = Some buf \<longrightarrow> buf \<noteq> [] \<longrightarrow> length buf < 2 ^ 64 \<longrightarrow>
      OutputFrames (span_channel_out E) c = None)"
proof (intro conjI allI impI)
  assume "\<not> IsFull c" "\<not> so_closed (cb_co c)" "so_full (cb_co c) = None" "so_compressed (cb_co c) \<noteq> None"
  then show "OutputFrames (span_channel_out E) c = None"
    using ready_frames_never [of c E] assms by (simp add: OutputFrames_def span_open_def)
next
  fix co buf
  assume f: "IsFull c" "so_Close E (cb_co c) = (None, co)" "so_compressed co = Some buf" "buf \<noteq> []" "length buf < 2 ^ 64"
  then have "output_until_eof (span_channel_out E) (c\<lparr>cb_co := co\<rparr>) = None"
    using span_out.output_until_eof_never [of "c\<lparr>cb_co := co\<rparr>" buf "so_frame co" E] so_Close_closed [of E "cb_co c" co] assms by (simp add: span_pending_def)
  then show "OutputFrames (span_channel_out E) c = None"
    using f by (simp add: OutputFrames_def closeAndOutputAllFrames_def span_channel_out_def)
qed

theorem smallest_frame_size_never_returns_witness:
  "cc_Check (cb_cfg (sample_cb 23 sample_co)) = None \<and> OutputFrames (span_channel_out sample_out_env) (sample_cb 23 sample_co) = None \<and>
     OutputFrames (span_channel_out sample_out_env) (cb_Close (sample_cb 23 sample_co2)) = None"
proof -
  have full: "\<not> IsFull (sample_cb 23 sample_co)" "IsFull (cb_Close (sample_cb 23 sample_co2))"
    by (simp_all add: IsFull_def cb_Close_def setFullErr_def sample_cb_def NewChannelBuilderWithChannelOut_def updateDurationTimeout_def updateTimeout_def
        sample_cb_cfg_def Let_def)
  have sel: "cb_co (cb_Close (sample_cb 23 sample_co2)) = sample_co2" "cb_cfg (cb_Close (sample_cb 23 sample_co2)) = cb_cfg (sample_cb 23 sample_co2)"
    by (simp_all add: cb_Close_def setFullErr_def)
  have "so_compressed (sample_co2\<lparr>so_closed := True\<rparr>) = Some (1 # sample_r1)" by (simp add: sample_co2_def)
  then have a: "OutputFrames (span_channel_out sample_out_env) (cb_Close (sample_cb 23 sample_co2)) = None"
    using smallest_frame_size_never_returns [of "cb_Close (sample_cb 23 sample_co2)" sample_out_env] full sel sample_closed
    by (auto simp: FrameV0OverHeadSize_def sample_lengths)
  have b: "OutputFrames (span_channel_out sample_out_env) (sample_cb 23 sample_co) = None"
    using smallest_frame_size_never_returns [of "sample_cb 23 sample_co" sample_out_env] full by (auto simp: FrameV0OverHeadSize_def sample_co_sel)
  have "cc_Check (cb_cfg (sample_cb 23 sample_co)) = None"
    by (simp add: cc_Check_def sample_cb_def NewChannelBuilderWithChannelOut_def updateDurationTimeout_def updateTimeout_def sample_cb_cfg_def
        FrameV0OverHeadSize_def SpanBatchType_def Let_def)
  with a b show ?thesis by simp
qed

end
