(* ===== verification/Tx_Data.thy ===== *)
theory Tx_Data
  imports Channel_Builder Data_Source
begin

text \<open>
  The data of a batcher transaction (\<open>op-batcher/batcher/tx_data.go\<close>): frames of a channel as calldata, as one blob per frame, or in the Mantle
  format, where the frames are an RLP list that is split over blobs. RLP is a parameter.
\<close>

section \<open>Definitions\<close>

record txData =
  td_frames :: "frameData list"
  td_asBlob :: bool

type_synonym txID = "(ChannelID \<times> u16) list"

definition td_ID :: "txData \<Rightarrow> txID" where
  "td_ID td = map (\<lambda>f. (fd_chID f, fd_frameNumber f)) (td_frames td)"

definition CallData :: "txData \<Rightarrow> byte list" where
  "CallData td = DerivationVersion0 # concat (map fd_data (td_frames td))"

definition td_Len :: "txData \<Rightarrow> nat" where "td_Len td = sum_list (map (\<lambda>f. length (fd_data f)) (td_frames td))"

subsection \<open>Identifiers as strings\<close>

definition hex_digit :: "nat \<Rightarrow> char" where "hex_digit n = ''0123456789abcdef'' ! n"

definition ChannelID_String :: "ChannelID \<Rightarrow> string" where
  "ChannelID_String i = concat (map (\<lambda>b. [hex_digit (unat b div 16), hex_digit (unat b mod 16)]) (be_encode ChannelIDLength (unat i)))"

fun decimal :: "nat \<Rightarrow> string" where
  "decimal n = (if n < 10 then [hex_digit n] else decimal (n div 10) @ [hex_digit (n mod 10)])"

declare decimal.simps [simp del]

fun txid_loop :: "ChannelID \<Rightarrow> txID \<Rightarrow> string" where
  "txid_loop curChID [] = []"
| "txid_loop curChID ((c, n) # rest) =
     (if c = curChID then ''+'' @ decimal (unat n) @ txid_loop curChID rest
      else (if curChID \<noteq> 0 then ''|'' else []) @ ChannelID_String c @ '':'' @ decimal (unat n) @ txid_loop c rest)"

definition txid_String :: "txID \<Rightarrow> string" where "txid_String i = txid_loop 0 i"

subsection \<open>Blobs\<close>

datatype txdata_error = EncodingRLP | BlobFromData blob_error

fun blobs_loop :: "frameData list \<Rightarrow> txdata_error + byte list list" where
  "blobs_loop [] = Inr []"
| "blobs_loop (f # fs) =
     and_then (map_sum BlobFromData id (FromData (DerivationVersion0 # fd_data f))) (\<lambda>b. and_then (blobs_loop fs) (\<lambda>bs. Inr (b # bs)))"

definition Blobs :: "txData \<Rightarrow> txdata_error + byte list list" where "Blobs td = blobs_loop (td_frames td)"

function mantle_split :: "byte list \<Rightarrow> txdata_error + byte list list" where
  "mantle_split data =
     (if data = [] then Inr []
      else and_then (map_sum BlobFromData id (FromData (take MaxBlobDataSize data))) (\<lambda>b.
           and_then (mantle_split (drop MaxBlobDataSize data)) (\<lambda>bs. Inr (b # bs))))"
  by pat_completeness auto
termination by (relation "measure length") (auto simp: MaxBlobDataSize_def)

declare mantle_split.simps [simp del]

definition MantleBlobs :: "(byte list list \<Rightarrow> byte list option) \<Rightarrow> txData \<Rightarrow> txdata_error + byte list list" where
  "MantleBlobs rlpEncode td =
     (if td_frames td = [] then Inr []
      else case rlpEncode (map (\<lambda>f. DerivationVersion0 # fd_data f) (td_frames td)) of
        None \<Rightarrow> Inl EncodingRLP
      | Some wholeBlobData \<Rightarrow> mantle_split wholeBlobData)"

text \<open>The format that the batcher chooses (\<open>blobTxCandidate\<close> of \<open>driver.go\<close>): the Mantle format until Arsia is active at the L1 block the node has read last.\<close>

definition blob_tx_blobs :: "(byte list list \<Rightarrow> byte list option) \<Rightarrow> Config \<Rightarrow> L1BlockRef \<Rightarrow> txData \<Rightarrow> txdata_error + byte list list" where
  "blob_tx_blobs rlpEncode rollupCfg prevCurrentL1 td =
     (if \<not> IsMantleArsia rollupCfg (l1_Time prevCurrentL1) then MantleBlobs rlpEncode td else Blobs td)"

section \<open>Identifiers are unique\<close>

lemma hex_digit_inj: "m < 16 \<Longrightarrow> n < 16 \<Longrightarrow> hex_digit m = hex_digit n \<longleftrightarrow> m = n"
  using nth_eq_iff_index_eq [of "''0123456789abcdef''" m n] by (simp add: hex_digit_def)

definition is_digit :: "char \<Rightarrow> bool" where "is_digit c \<longleftrightarrow> c \<in> set ''0123456789''"

lemma hex_digit_is_digit: "n < 10 \<Longrightarrow> is_digit (hex_digit n)"
proof -
  assume "n < 10"
  then have "hex_digit n = ''0123456789'' ! n" by (simp add: hex_digit_def numeral_eq_Suc less_Suc_eq) (auto simp: numeral_eq_Suc)
  then show ?thesis using \<open>n < 10\<close> nth_mem [of n "''0123456789''"] by (simp add: is_digit_def)
qed

lemma decimal_digits: "list_all is_digit (decimal n)"
  by (induction n rule: decimal.induct) (subst decimal.simps, auto intro: hex_digit_is_digit)

lemma decimal_inj: "decimal m = decimal n \<Longrightarrow> m = n"
proof (induction m arbitrary: n rule: decimal.induct)
  case (1 m)
  have ne: "decimal k \<noteq> []" for k by (subst decimal.simps) simp
  show ?case
  proof (cases "m < 10"; cases "n < 10")
    assume "m < 10" "n < 10"
    then show ?thesis using 1(2) hex_digit_inj [of m n] by (simp add: decimal.simps [of m] decimal.simps [of n])
  next
    assume "m < 10" "\<not> n < 10"
    then show ?thesis using 1(2) ne [of "n div 10"] by (simp add: decimal.simps [of m] decimal.simps [of n])
  next
    assume "\<not> m < 10" "n < 10"
    then show ?thesis using 1(2) ne [of "m div 10"] by (simp add: decimal.simps [of m] decimal.simps [of n])
  next
    assume g: "\<not> m < 10" "\<not> n < 10"
    then have "decimal (m div 10) = decimal (n div 10)" "hex_digit (m mod 10) = hex_digit (n mod 10)"
      using 1(2) by (simp_all add: decimal.simps [of m] decimal.simps [of n])
    then have "m div 10 = n div 10" "m mod 10 = n mod 10" using 1(1) [OF g(1)] hex_digit_inj [of "m mod 10" "n mod 10"] by auto
    then show ?thesis by (metis div_mult_mod_eq)
  qed
qed

lemma digits_prefix:
  assumes "list_all is_digit ds" and "list_all is_digit es" and "r = [] \<or> \<not> is_digit (hd r)" and "s = [] \<or> \<not> is_digit (hd s)" and "ds @ r = es @ s"
  shows "ds = es \<and> r = s"
  using assms
proof (induction ds arbitrary: es)
  case Nil
  then show ?case by (cases es) auto
next
  case (Cons d ds)
  then show ?case by (cases es) auto
qed

lemma ChannelID_String_inj:
  assumes "ChannelID_String i @ r = ChannelID_String j @ s"
  shows "i = j \<and> r = s"
proof -
  let ?hex = "\<lambda>bs :: byte list. concat (map (\<lambda>b. [hex_digit (unat b div 16), hex_digit (unat b mod 16)]) bs)"
  have len: "length (?hex bs) = 2 * length bs" for bs by (induction bs) simp_all
  have inj: "length as = length bs \<Longrightarrow> ?hex as = ?hex bs \<Longrightarrow> as = bs" for as bs
  proof (induction as bs rule: list_induct2)
    case (Cons a as b bs)
    have "unat a < 16 * 16" "unat b < 16 * 16" using unsigned_less [of a, where 'a = nat] unsigned_less [of b, where 'a = nat] by simp_all
    then have s: "unat a div 16 < 16" "unat b div 16 < 16" by (simp_all only: less_mult_imp_div_less)
    then have "unat a div 16 = unat b div 16" "unat a mod 16 = unat b mod 16" using Cons.prems hex_digit_inj by auto
    then have "a = b" unfolding word_unat_eq_iff by (metis div_mult_mod_eq)
    then show ?case using Cons by simp
  qed simp
  let ?b = "\<lambda>i. be_encode ChannelIDLength (unat (i :: ChannelID))"
  have l: "length (?b i) = 16" for i by (simp add: ChannelIDLength_def del: be_encode.simps)
  have eq: "?hex (?b i) @ r = ?hex (?b j) @ s" using assms by (simp only: ChannelID_String_def)
  then have "?hex (?b i) = ?hex (?b j) \<and> r = s" by (subst (asm) append_eq_append_conv) (simp_all add: len l)
  moreover from this have "?b i = ?b j" using inj [of "?b i" "?b j"] l by simp
  then have "be_decode (?b i) = be_decode (?b j)" by simp
  then have "i = j" by (simp only: ChannelIDLength_def id_field_decode word_unat_eq_iff)
  ultimately show ?thesis by simp
qed


text \<open>A string that continues the list of frames does not start with a digit.\<close>

lemma txid_loop_start: "c \<noteq> 0 \<Longrightarrow> txid_loop c fs = [] \<or> \<not> is_digit (hd (txid_loop c fs))"
  by (cases fs) (auto simp: is_digit_def split: if_splits)

lemma number_then_rest:
  assumes "decimal (unat (m :: u16)) @ txid_loop c fs = decimal (unat (n :: u16)) @ txid_loop c gs" and "c \<noteq> 0"
  shows "m = n \<and> txid_loop c fs = txid_loop c gs"
proof -
  have "decimal (unat m) = decimal (unat n) \<and> txid_loop c fs = txid_loop c gs"
    by (rule digits_prefix [OF decimal_digits decimal_digits txid_loop_start [OF assms(2)] txid_loop_start [OF assms(2)] assms(1)])
  then show ?thesis using decimal_inj word_unat_eq_iff by blast
qed

lemma txid_loop_Nil: "txid_loop c fs = [] \<longleftrightarrow> fs = []"
  by (cases fs) (auto split: if_splits)

lemma txid_loop_inj:
  assumes "\<forall>f\<in>set fs. fst f \<noteq> 0" and "\<forall>f\<in>set gs. fst f \<noteq> 0" and "txid_loop c fs = txid_loop c gs"
  shows "fs = gs"
  using assms
proof (induction fs arbitrary: c gs)
  case Nil
  then show ?case using txid_loop_Nil [of c gs] by simp
next
  case (Cons f fs)
  obtain a m where f: "f = (a, m)" "a \<noteq> 0" using Cons.prems(1) by (cases f) auto
  have "gs \<noteq> []" using Cons.prems(3) txid_loop_Nil [of c] by (metis list.distinct(1))
  then obtain b n gs' where g: "gs = (b, n) # gs'" "b \<noteq> 0" using Cons.prems(2) by (cases gs) auto
  have ih: "txid_loop d fs = txid_loop d gs' \<Longrightarrow> fs = gs'" for d using Cons.IH [of gs' d] Cons.prems(1,2) g by simp
  show ?case
  proof (cases "a = c"; cases "b = c")
    assume "a = c" "b = c"
    then show ?thesis using Cons.prems(3) f g number_then_rest [of m c fs n gs'] ih by auto
  next
    assume "a = c" "b \<noteq> c"
    then show ?thesis using Cons.prems(3) f g by simp
  next
    assume "a \<noteq> c" "b = c"
    then show ?thesis using Cons.prems(3) f g by simp
  next
    assume n: "a \<noteq> c" "b \<noteq> c"
    then have "ChannelID_String a @ '':'' @ decimal (unat m) @ txid_loop a fs = ChannelID_String b @ '':'' @ decimal (unat n) @ txid_loop b gs'"
      using Cons.prems(3) f g by simp
    from ChannelID_String_inj [OF this] have "a = b" "decimal (unat m) @ txid_loop a fs = decimal (unat n) @ txid_loop a gs'" by auto
    then show ?thesis using number_then_rest [of m a fs n gs'] ih f g by auto
  qed
qed

lemma txid_String_inj: "\<forall>f\<in>set i. fst f \<noteq> 0 \<Longrightarrow> \<forall>f\<in>set j. fst f \<noteq> 0 \<Longrightarrow> txid_String i = txid_String j \<longleftrightarrow> i = j"
  unfolding txid_String_def using txid_loop_inj by blast

section \<open>Reading the data back\<close>

text \<open>Frames that a builder produced from frames within the length limit.\<close>

definition carries :: "txData \<Rightarrow> Frame list \<Rightarrow> bool" where
  "carries td fs \<longleftrightarrow> fs \<noteq> [] \<and> list_all frame_wf fs \<and> td_frames td = map frame_data fs"

lemma CallData_parses: "carries td fs \<Longrightarrow> ParseFrames (CallData td) = Inr fs"
proof -
  assume "carries td fs"
  moreover have "fd_data \<circ> frame_data = MarshalBinary" by (simp add: fun_eq_iff frame_data_def)
  ultimately show ?thesis by (simp add: ParseFrames_Inr_iff CallData_def carries_def)
qed

lemma one_frame_parses: "frame_wf f \<Longrightarrow> ParseFrames (DerivationVersion0 # MarshalBinary f) = Inr [f]"
  by (simp add: ParseFrames_Inr_iff)

lemma FromData_ok: "length d \<le> MaxBlobDataSize \<Longrightarrow> \<exists>b. FromData d = Inr b \<and> length b = BlobSize \<and> ToData b = Inr d"
  using FromData_blob [of d] ToData_blob [of d] by simp

lemma blobs_loop_ok:
  assumes "\<forall>f\<in>set fds. length (fd_data f) < MaxBlobDataSize"
  shows "\<exists>bs. blobs_loop fds = Inr bs \<and> list_all2 (\<lambda>b f. ToData b = Inr (DerivationVersion0 # fd_data f)) bs fds"
  using assms
proof (induction fds)
  case (Cons f fds)
  then obtain b bs where "FromData (DerivationVersion0 # fd_data f) = Inr b" "ToData b = Inr (DerivationVersion0 # fd_data f)"
      "blobs_loop fds = Inr bs" "list_all2 (\<lambda>b f. ToData b = Inr (DerivationVersion0 # fd_data f)) bs fds"
    using FromData_ok [of "DerivationVersion0 # fd_data f"] by auto
  then show ?case by auto
qed simp

lemma mantle_split_ok:
  "\<exists>bs. mantle_split data = Inr bs \<and> (\<exists>ds. list_all2 (\<lambda>b d. ToData b = Inr d) bs ds \<and> concat ds = data) \<and>
     (\<forall>b\<in>set bs. length b = BlobSize) \<and> length bs = (length data + MaxBlobDataSize - 1) div MaxBlobDataSize"
proof (induction data rule: mantle_split.induct)
  case (1 data)
  show ?case
  proof (cases "data = []")
    case True
    then show ?thesis by (subst mantle_split.simps) (simp add: MaxBlobDataSize_def)
  next
    case False
    obtain b where b: "FromData (take MaxBlobDataSize data) = Inr b" "length b = BlobSize" "ToData b = Inr (take MaxBlobDataSize data)"
      using FromData_ok [of "take MaxBlobDataSize data"] by auto
    obtain bs ds where r: "mantle_split (drop MaxBlobDataSize data) = Inr bs" "list_all2 (\<lambda>b d. ToData b = Inr d) bs ds"
        "concat ds = drop MaxBlobDataSize data" "\<forall>b\<in>set bs. length b = BlobSize"
        "length bs = (length (drop MaxBlobDataSize data) + MaxBlobDataSize - 1) div MaxBlobDataSize"
      using 1 [OF False] b by auto
    have M: "0 < MaxBlobDataSize" by (simp add: MaxBlobDataSize_def)
    have "Suc (length bs) = (length data + MaxBlobDataSize - 1) div MaxBlobDataSize"
    proof (cases "length data \<le> MaxBlobDataSize")
      case True
      then have "(length data + MaxBlobDataSize - 1) div MaxBlobDataSize = 1" using False M by (intro div_nat_eqI) (cases data; simp)+
      moreover have "length bs = 0" using r(5) True M by simp
      ultimately show ?thesis by simp
    next
      case f: False
      have "length data + MaxBlobDataSize - 1 = (length (drop MaxBlobDataSize data) + MaxBlobDataSize - 1) + MaxBlobDataSize" using f M by simp
      then show ?thesis using r(5) M by (simp only: div_add_self2)
    qed
    moreover have "list_all2 (\<lambda>b d. ToData b = Inr d) (b # bs) (take MaxBlobDataSize data # ds)" "concat (take MaxBlobDataSize data # ds) = data"
      using b r by simp_all
    moreover have "mantle_split data = Inr (b # bs)" using False b r by (subst mantle_split.simps) simp
    moreover have "\<forall>x\<in>set (b # bs). length x = BlobSize" "length (b # bs) = Suc (length bs)" using b r by simp_all
    ultimately show ?thesis by (metis (no_types, lifting))
  qed
qed


lemma collect_blobs_ok:
  assumes "serves m hs bs" and "list_all2 (\<lambda>b d. ToData b = Inr d) bs ds"
  shows "collect_blobs m hs = Some (ds, True)"
  using assms
proof (induction hs arbitrary: bs ds)
  case Nil
  then show ?case by (auto simp: serves_def)
next
  case (Cons h hs)
  then obtain b bs' d ds' where "bs = b # bs'" "ds = d # ds'" "map_of m (ibh_Index h) = Some (Some b)" "serves m hs bs'" "ToData b = Inr d"
      "list_all2 (\<lambda>b d. ToData b = Inr d) bs' ds'"
    by (auto simp: serves_def list_all2_Cons1)
  then show ?case using Cons.IH by simp
qed

text \<open>What is used of RLP: lists of strings are encoded, the encoding is not empty, and decoding gives them back.\<close>

definition rlp_strings :: "(byte list list \<Rightarrow> byte list option) \<Rightarrow> (byte list \<Rightarrow> byte list list option) \<Rightarrow> bool" where
  "rlp_strings rlpEncode rlpDecode \<longleftrightarrow> (\<forall>xs. xs \<noteq> [] \<longrightarrow> (\<exists>e. rlpEncode xs = Some e \<and> e \<noteq> [] \<and> rlpDecode e = Some xs))"

lemma MantleBlobs_read:
  assumes "carries td fs" and "rlp_strings rlpEncode rlpDecode"
  shows "\<exists>bs. MantleBlobs rlpEncode td = Inr bs \<and> (\<forall>b\<in>set bs. length b = BlobSize) \<and>
    (\<forall>m hs. serves m hs bs \<longrightarrow> processTxBlobs rlpDecode m hs = Some (map (\<lambda>f. DerivationVersion0 # MarshalBinary f) fs, False))"
proof -
  let ?xs = "map (\<lambda>f. DerivationVersion0 # MarshalBinary f) fs"
  have fds: "map (\<lambda>f. DerivationVersion0 # fd_data f) (td_frames td) = ?xs" "td_frames td \<noteq> []"
    using assms(1) by (simp_all add: carries_def frame_data_def comp_def)
  obtain e where e: "rlpEncode ?xs = Some e" "e \<noteq> []" "rlpDecode e = Some ?xs" using assms by (auto simp: rlp_strings_def carries_def)
  obtain bs ds where "mantle_split e = Inr bs" "list_all2 (\<lambda>b d. ToData b = Inr d) bs ds" "concat ds = e" "\<forall>b\<in>set bs. length b = BlobSize"
    using mantle_split_ok [of e] by blast
  then show ?thesis using fds e collect_blobs_ok [of _ _ bs ds] by (auto simp: MantleBlobs_def processTxBlobs_def Let_def)
qed

lemma Blobs_read:
  assumes "carries td fs" and "Blobs td = Inr bs" and "rlp_list_prefix rlpDecode" and "serves m hs bs"
  shows "processTxBlobs rlpDecode m hs = Some (map (\<lambda>f. DerivationVersion0 # MarshalBinary f) fs, True)"
proof -
  let ?xs = "map (\<lambda>f. DerivationVersion0 # MarshalBinary f) fs"
  have "list_all2 (\<lambda>b f. ToData b = Inr (DerivationVersion0 # fd_data f)) bs fds" if "blobs_loop fds = Inr bs" for fds bs
    using that
  proof (induction fds arbitrary: bs)
    case (Cons f fds)
    from Cons.prems obtain b bs' where "FromData (DerivationVersion0 # fd_data f) = Inr b" "blobs_loop fds = Inr bs'" "bs = b # bs'"
      by (cases "FromData (DerivationVersion0 # fd_data f)") (auto simp: and_then_Inr_iff)
    moreover from this have "length (DerivationVersion0 # fd_data f) \<le> MaxBlobDataSize" by (auto simp: FromData_def split: if_splits)
    ultimately show ?case using Cons.IH FromData_ok [of "DerivationVersion0 # fd_data f"] by auto
  qed simp
  from this [of "map frame_data fs" bs] have "list_all2 (\<lambda>b d. ToData b = Inr d) bs ?xs"
    using assms(1,2) by (simp add: Blobs_def carries_def frame_data_def list_all2_map2)
  then have "collect_blobs m hs = Some (?xs, True)" by (rule collect_blobs_ok [OF assms(4)])
  moreover obtain y where "concat ?xs = DerivationVersion0 # y" using assms(1) by (cases fs) (auto simp: carries_def)
  moreover have "fs \<noteq> []" using assms(1) by (simp add: carries_def)
  moreover have "rlpDecode (DerivationVersion0 # y) = None" for y using assms(3) by (simp add: rlp_list_prefix_def DerivationVersion0_def)
  ultimately show ?thesis by (simp add: processTxBlobs_def Let_def)
qed

section \<open>Properties\<close>

text \<open>C11: The data source of Mantle reads back what the batcher puts into blobs, in either format: whichever format the batcher chooses, if the blobs are served
  in their order, the source hands out one piece of data for each frame, in order, which parses as that frame. Only the standard format calls the
  toggle. In the Mantle format blobs can always be made.\<close>

theorem blobs_of_either_format_are_read_back:
  assumes "carries td fs" and "rlp_strings rlpEncode rlpDecode" and "rlp_list_prefix rlpDecode"
    and "blob_tx_blobs rlpEncode rollupCfg cur td = Inr bs" and "serves m hs bs"
  shows "processTxBlobs rlpDecode m hs = Some (map (\<lambda>f. DerivationVersion0 # MarshalBinary f) fs, IsMantleArsia rollupCfg (l1_Time cur)) \<and>
    (\<forall>f\<in>set fs. ParseFrames (DerivationVersion0 # MarshalBinary f) = Inr [f]) \<and> (\<exists>bs'. MantleBlobs rlpEncode td = Inr bs')"
proof -
  obtain bs' where m: "MantleBlobs rlpEncode td = Inr bs'"
      "serves m hs bs' \<Longrightarrow> processTxBlobs rlpDecode m hs = Some (map (\<lambda>f. DerivationVersion0 # MarshalBinary f) fs, False)"
    using MantleBlobs_read [OF assms(1,2)] by blast
  have "\<forall>f\<in>set fs. ParseFrames (DerivationVersion0 # MarshalBinary f) = Inr [f]"
    using assms(1) one_frame_parses by (auto simp: carries_def list_all_iff)
  then show ?thesis
    using m assms(4,5) Blobs_read [OF assms(1) _ assms(3,5)] by (cases "IsMantleArsia rollupCfg (l1_Time cur)") (auto simp: blob_tx_blobs_def)
qed

definition sample_td :: txData where "sample_td = \<lparr>td_frames = map frame_data [sample_frame 0 [1, 2] True], td_asBlob = True\<rparr>"

definition sample_rlp_encode :: "byte list list \<Rightarrow> byte list option" where
  "sample_rlp_encode xs = Some (192 # concat (map unary_string xs))"

fun sample_rlp_items :: "nat \<Rightarrow> byte list \<Rightarrow> byte list list" where
  "sample_rlp_items 0 bs = []"
| "sample_rlp_items (Suc k) bs =
     (if bs = [] then []
      else let n = length (takeWhile (\<lambda>b. b = 1) bs); r = drop (Suc n) bs in take n r # sample_rlp_items k (drop n r))"

definition sample_rlp_decode :: "byte list \<Rightarrow> byte list list option" where
  "sample_rlp_decode bs = (case bs of [] \<Rightarrow> None | b # r \<Rightarrow> if b = 192 then Some (sample_rlp_items (length r) r) else None)"

lemma sample_rlp_item: "takeWhile (\<lambda>b. b = 1) (replicate n 1 @ (0 :: byte) # x) = replicate n 1" by (induction n) auto

lemma sample_rlp_items_encoded:
  "length xs \<le> k \<Longrightarrow> sample_rlp_items k (concat (map unary_string xs)) = xs"
proof (induction xs arbitrary: k)
  case Nil
  then show ?case by (cases k) simp_all
next
  case (Cons x xs)
  then show ?case by (cases k) (simp_all add: Let_def sample_rlp_item unary_string_def)
qed

lemma sample_rlp_strings: "rlp_strings sample_rlp_encode sample_rlp_decode"
proof -
  have "length xs \<le> length (concat (map unary_string xs))" for xs :: "byte list list" by (induction xs) (simp_all add: unary_string_def)
  then show ?thesis by (auto simp: rlp_strings_def sample_rlp_encode_def sample_rlp_decode_def sample_rlp_items_encoded)
qed

theorem blobs_of_either_format_are_read_back_witness:
  "\<exists>bs m hs. blob_tx_blobs sample_rlp_encode sample_config zero_L1BlockRef sample_td = Inr bs \<and> serves m hs bs \<and>
     processTxBlobs sample_rlp_decode m hs = Some ([DerivationVersion0 # MarshalBinary (sample_frame 0 [1, 2] True)], False)"
proof -
  have c: "carries sample_td [sample_frame 0 [1, 2] True]" by (simp add: carries_def sample_td_def frame_wf_def sample_frame_def MaxFrameLen_def)
  have a: "\<not> IsMantleArsia sample_config (l1_Time zero_L1BlockRef)" by code_simp
  obtain e where e: "sample_rlp_encode [DerivationVersion0 # MarshalBinary (sample_frame 0 [1, 2] True)] = Some e" "length e = 54"
    by (simp add: sample_rlp_encode_def unary_string_def length_MarshalBinary sample_frame_def)
  then have t: "blob_tx_blobs sample_rlp_encode sample_config zero_L1BlockRef sample_td = mantle_split e"
    using a by (simp add: blob_tx_blobs_def MantleBlobs_def sample_td_def frame_data_def)
  obtain bs where bs: "mantle_split e = Inr bs" "length bs = (length e + MaxBlobDataSize - 1) div MaxBlobDataSize" using mantle_split_ok [of e] by blast
  then obtain b where "bs = [b]" using e(2) by (auto simp: MaxBlobDataSize_def length_Suc_conv)
  then have m: "serves [(0, Some b)] [\<lparr>ibh_Index = 0, ibh_Hash = 0\<rparr>] bs" by (simp add: serves_def)
  have p: "rlp_list_prefix sample_rlp_decode" by (auto simp: rlp_list_prefix_def sample_rlp_decode_def)
  show ?thesis
    using blobs_of_either_format_are_read_back [OF c sample_rlp_strings p t [unfolded bs(1)] m] t bs m a
    by (intro exI [of _ bs] exI [of _ "[(0, Some b)]"] exI [of _ "[\<lparr>ibh_Index = 0, ibh_Hash = 0\<rparr>]"]) simp
qed

end
