(* ===== verification/Batch_Delivery.thy ===== *)
theory Batch_Delivery
  imports Tx_Data Channel_In_Reader
begin

unbundle bit_operations_syntax

text \<open>
  From the batcher to the node: what the derivation pipeline reads from the frames that a channel builder makes of the accepted batches. This theory models no
  further code; it joins the writing side (\<open>Channel_Out\<close>, \<open>Channel_Builder\<close>, \<open>Tx_Data\<close>) with the reading side (\<open>Frame\<close>, \<open>Channel\<close>, \<open>Channel_In_Reader\<close>,
  \<open>Span_Batch\<close>).
\<close>

section \<open>The libraries on both sides\<close>

text \<open>A stream \<open>s\<close> with \<open>R s bs\<close> reads \<open>bs\<close>: the encoded strings one after the other, and then its end.\<close>

definition rlp_stream :: "('al, 'au, 's, 'e) out_env \<Rightarrow> ('s \<Rightarrow> byte list \<Rightarrow> bool) \<Rightarrow> bool" where
  "rlp_stream E R \<longleftrightarrow>
     (\<forall>s. R s [] \<longrightarrow> fst (stream_Bytes (oe_lib E) s) = Inl IoEOF) \<and>
     (\<forall>s x r. R s (oe_rlp_string E x @ r) \<longrightarrow> (\<exists>s'. stream_Bytes (oe_lib E) s = (Inr x, s') \<and> R s' r))"

text \<open>Compressed data is of one of the two kinds the node knows, and decompression up to a limit gives back what is not longer.\<close>

definition decompresses :: "('al, 'au, 's, 'e) out_env \<Rightarrow> ('s \<Rightarrow> byte list \<Rightarrow> bool) \<Rightarrow> u64 \<Rightarrow> bool \<Rightarrow> bool" where
  "decompresses E R limit fjord \<longleftrightarrow>
     (\<forall>bs. length bs \<le> unat limit \<longrightarrow> (\<exists>c rest. fst (cp_Close (oe_compressor E) bs) = c # rest \<and>
        (c AND 15 = ZlibCM8 \<and> (\<exists>s. zlib_NewReader (oe_lib E) (c # rest) limit = Some s \<and> R s bs) \<or>
         c = ChannelVersionBrotli \<and> fjord \<and> R (brotli_NewReader (oe_lib E) rest limit) bs)))"

lemma BatchReader_decompresses:
  assumes "decompresses E R limit fjord" and "length bs \<le> unat limit"
  shows "\<exists>algo s. BatchReader (oe_lib E) (fst (cp_Close (oe_compressor E) bs)) limit fjord = Inr (algo, s) \<and> R s bs"
proof -
  have "\<exists>c rest. fst (cp_Close (oe_compressor E) bs) = c # rest \<and>
      (c AND 15 = ZlibCM8 \<and> (\<exists>s. zlib_NewReader (oe_lib E) (c # rest) limit = Some s \<and> R s bs) \<or>
       c = ChannelVersionBrotli \<and> fjord \<and> R (brotli_NewReader (oe_lib E) rest limit) bs)"
    using assms by (simp add: decompresses_def)
  then obtain c rest where c: "fst (cp_Close (oe_compressor E) bs) = c # rest"
      "c AND 15 = ZlibCM8 \<and> (\<exists>s. zlib_NewReader (oe_lib E) (c # rest) limit = Some s \<and> R s bs) \<or>
       c = ChannelVersionBrotli \<and> fjord \<and> R (brotli_NewReader (oe_lib E) rest limit) bs"
    by blast
  have n: "ChannelVersionBrotli AND 15 \<noteq> ZlibCM8" "ChannelVersionBrotli AND 15 \<noteq> ZlibCM15"
    by (simp_all add: ChannelVersionBrotli_def ZlibCM8_def ZlibCM15_def)
  from c(2) show ?thesis
  proof
    assume "c AND 15 = ZlibCM8 \<and> (\<exists>s. zlib_NewReader (oe_lib E) (c # rest) limit = Some s \<and> R s bs)"
    then show ?thesis using c(1) by (auto simp: BatchReader_def)
  next
    assume "c = ChannelVersionBrotli \<and> fjord \<and> R (brotli_NewReader (oe_lib E) rest limit) bs"
    then show ?thesis using c(1) n by (auto simp: BatchReader_def)
  qed
qed

section \<open>Reading span batches\<close>

text \<open>What the node makes of a span: the blocks, and the checks of the block before and of the last epoch.\<close>

definition span_read :: "(SingularBatch \<times> u64) list \<Rightarrow> SpanBatch" where
  "span_read ss =
     \<lparr>ParentCheck = first20 (sb_ParentHash (fst (hd ss))), L1OriginCheck = first20 (sb_EpochHash (fst (last ss))), sp_GenesisTimestamp = 0,
      sp_Batches = map singularBatchToElement (map fst ss), originBits = 0, blockTxCounts = []\<rparr>"

definition readable_span :: "('al, 'au) codecs \<Rightarrow> u64 \<Rightarrow> nat \<Rightarrow> (SingularBatch \<times> u64) list \<Rightarrow> bool" where
  "readable_span C bt chainID ss \<longleftrightarrow> span_of bt (map fst ss) \<and>
     (\<exists>txs. list_all2 (good_tx C chainID) (block_txs (map fst ss)) txs \<and> length txs \<le> unat MaxSpanBatchElementCount)"

lemma encoded_read:
  assumes "encoded E g chainID ss b" and "readable_span (lib_codecs (oe_lib E)) bt chainID ss" and "rlp_stream E R" and "R s (b @ rest)"
  shows "\<exists>raw s'. nextBatchData (oe_lib E) (algo, s) = (Inr \<lparr>inner = InnerSpan raw, ComprAlgo = Some algo\<rparr>, algo, s') \<and> R s' rest \<and>
    derive (lib_codecs (oe_lib E)) raw bt g chainID = Inr (span_read ss)"
proof -
  let ?C = "lib_codecs (oe_lib E)"
  obtain txs where "span_of bt (map fst ss)" "list_all2 (good_tx ?C chainID) (block_txs (map fst ss)) txs" "length txs \<le> unat MaxSpanBatchElementCount"
    using assms(2) by (auto simp: readable_span_def)
  from span_roundtrip [OF this] obtain sb raw bytes where r: "append_all ?C (NewSpanBatch ?C g chainID) ss = Inr sb" "ToRawSpanBatch sb = Inr raw"
      "raw_encode raw = Inr bytes" and d: "\<exists>raw'. raw_decode ?C (bytes @ []) = Inr (raw', []) \<and> derive ?C raw' bt g chainID = Inr (span_read ss)"
    unfolding span_read_def by blast
  obtain raw' where raw': "raw_decode ?C bytes = Inr (raw', [])" "derive ?C raw' bt g chainID = Inr (span_read ss)" using d by auto
  have b: "b = oe_rlp_string E (SpanBatchType # bytes)"
    using assms(1) r by (auto simp: encoded_def encodeTyped_def GetBatchType_def)
  obtain s' where s': "stream_Bytes (oe_lib E) s = (Inr (SpanBatchType # bytes), s')" "R s' rest"
    using assms(3,4) unfolding b rlp_stream_def by blast
  have "decodeTypedBatch (oe_lib E) (SpanBatchType # bytes) = Inr (InnerSpan raw')"
    using raw' by (simp add: decodeTypedBatch_def SpanBatchType_def SingularBatchType_def)
  then show ?thesis using s' raw' by (simp add: nextBatchData_def)
qed

text \<open>Pulls from a stage, one after the other.\<close>

fun pulls :: "nat \<Rightarrow> ('p, 'a) puller \<Rightarrow> 'p \<Rightarrow> (derive_error + 'a) list" where
  "pulls 0 f p = []"
| "pulls (Suc n) f p = (case f p of (r, p') \<Rightarrow> r # pulls n f p')"

lemma reader_pulls:
  assumes "list_all2 (encoded E g chainID) spans bss" and "\<forall>ss\<in>set spans. readable_span (lib_codecs (oe_lib E)) (BlockTime cfg) chainID ss"
    and "rlp_stream E R" and "R s (concat bss)" and "nextBatchFn cr = Some (algo, s)"
    and "g = L2Time (cfg_Genesis cfg)" and "chainID = l2_chain_id cfg" and "IsDelta cfg (l1_Time (rc_Origin prev p))"
  shows "pulls (Suc (length spans)) (cr_NextBatch (oe_lib E) cfg prev) (cr, p) = map (\<lambda>ss. Inr (Span (span_read ss))) spans @ [Inl NotEnoughData]"
  using assms(1,2,4,5)
proof (induction spans arbitrary: bss s cr)
  case Nil
  then have "fst (stream_Bytes (oe_lib E) s) = Inl IoEOF" using assms(3) by (simp add: rlp_stream_def)
  then obtain s' where "nextBatchData (oe_lib E) (algo, s) = (Inl IoEOF, algo, s')" by (cases "stream_Bytes (oe_lib E) s") (auto simp: nextBatchData_def)
  then show ?case using Nil by (simp add: cr_NextBatch_def read_batch_def)
next
  case (Cons ss spans)
  obtain b bss' where b: "bss = b # bss'" "encoded E g chainID ss b" "list_all2 (encoded E g chainID) spans bss'"
    using Cons.prems(1) by (auto simp: list_all2_Cons1)
  have "readable_span (lib_codecs (oe_lib E)) (BlockTime cfg) chainID ss" "R s (b @ concat bss')" using Cons.prems(2,3) b(1) by simp_all
  from encoded_read [OF b(2) this(1) assms(3) this(2), of algo] obtain raw s' where
      n: "nextBatchData (oe_lib E) (algo, s) = (Inr \<lparr>inner = InnerSpan raw, ComprAlgo = Some algo\<rparr>, algo, s')" and s': "R s' (concat bss')"
      and d: "derive (lib_codecs (oe_lib E)) raw (BlockTime cfg) g chainID = Inr (span_read ss)" by blast
  let ?cr = "cr\<lparr>nextBatchFn := Some (algo, s')\<rparr>"
  have "cr_NextBatch (oe_lib E) cfg prev (cr, p) = (Inr (Span (span_read ss)), ?cr, p)"
    using Cons.prems(4) n d assms(6-8)
    by (simp add: cr_NextBatch_def read_batch_def GetBatchType_def SpanBatchType_def SingularBatchType_def DeriveSpanBatch_def Let_def)
  moreover have "pulls (Suc (length spans)) (cr_NextBatch (oe_lib E) cfg prev) (?cr, p) = map (\<lambda>ss. Inr (Span (span_read ss))) spans @ [Inl NotEnoughData]"
    by (rule Cons.IH [OF b(3) _ s']) (use Cons.prems(2) in simp_all)
  ultimately show ?case by simp
qed

text \<open>A new channel is read as if its reader were there already.\<close>

lemma new_channel_pulls:
  assumes "nextBatchFn cr = None" and "rc_NextRawChannel prev p = (Inr data, p')"
    and "BatchReader L data (MaxRLPBytesPerChannel (NewChainSpec cfg) (l1_Time (rc_Origin prev p'))) (IsFjord cfg (l1_Time (rc_Origin prev p'))) = Inr f"
  shows "pulls (Suc n) (cr_NextBatch L cfg prev) (cr, p) = pulls (Suc n) (cr_NextBatch L cfg prev) (cr\<lparr>nextBatchFn := Some f\<rparr>, p')"
  using assms by (simp add: cr_NextBatch_def WriteChannel_def)


section \<open>Parts of a readable sequence\<close>

lemma span_of_part:
  assumes "span_of bt (xs @ ys @ zs)" and "ys \<noteq> []"
  shows "span_of bt ys"
proof -
  let ?all = "xs @ ys @ zs" and ?t = "sb_Timestamp (hd (xs @ ys @ zs))"
  have a: "length ?all \<le> unat MaxSpanBatchElementCount" "unat ?t + unat bt * length ?all < 2 ^ 64"
    and ts: "\<And>i. i < length ?all \<Longrightarrow> sb_Timestamp (?all ! i) = ?t + bt * word_of_nat i"
    and ep: "\<And>i. Suc i < length ?all \<Longrightarrow> epoch_step (sb_EpochNum (?all ! i)) (sb_EpochNum (?all ! Suc i))"
    using assms(1) unfolding span_of_def by blast+
  have nth: "i < length ys \<Longrightarrow> ?all ! (length xs + i) = ys ! i" for i by (simp add: nth_append)
  have y0: "sb_Timestamp (hd ys) = ?t + bt * word_of_nat (length xs)"
    using ts [of "length xs"] nth [of 0] assms(2) by (simp add: hd_conv_nth)
  have "unat bt * length xs \<le> unat bt * length ?all" by simp
  then have u: "unat bt * length xs < 2 ^ 64" "unat ?t + unat bt * length xs < 2 ^ 64" using a(2) by linarith+
  have e: "?t + bt * word_of_nat (length xs) = word_of_nat (unat ?t + unat bt * length xs)" by simp
  have "unat (word_of_nat (unat ?t + unat bt * length xs) :: u64) = unat ?t + unat bt * length xs"
    using u(2) by (subst unat_of_nat) simp
  then have "unat (sb_Timestamp (hd ys)) = unat ?t + unat bt * length xs" unfolding y0 e .
  moreover have "unat bt * length xs + unat bt * length ys \<le> unat bt * length ?all" by (simp add: algebra_simps)
  ultimately have "unat (sb_Timestamp (hd ys)) + unat bt * length ys < 2 ^ 64" using a(2) by linarith
  moreover have "sb_Timestamp (ys ! i) = sb_Timestamp (hd ys) + bt * word_of_nat i" if "i < length ys" for i
    using ts [of "length xs + i"] nth [OF that] that y0 by (simp add: algebra_simps)
  moreover have "epoch_step (sb_EpochNum (ys ! i)) (sb_EpochNum (ys ! Suc i))" if "Suc i < length ys" for i
    using ep [of "length xs + i"] nth [of i] nth [of "Suc i"] that by simp
  ultimately show ?thesis using assms(2) a(1) by (simp add: span_of_def)
qed

lemma readable_part:
  assumes "readable_span C bt chainID (xs @ ys @ zs)" and "ys \<noteq> []"
  shows "readable_span C bt chainID ys"
proof -
  obtain txs where t: "list_all2 (good_tx C chainID) (block_txs (map fst (xs @ ys @ zs))) txs" "length txs \<le> unat MaxSpanBatchElementCount"
    using assms(1) by (auto simp: readable_span_def)
  have "block_txs (map fst (xs @ ys @ zs)) = block_txs (map fst xs) @ block_txs (map fst ys) @ block_txs (map fst zs)" by simp
  with t(1) obtain t1 t2 t3 where "txs = t1 @ t2 @ t3" "list_all2 (good_tx C chainID) (block_txs (map fst ys)) t2"
    by (auto simp: list_all2_append1)
  moreover have "span_of bt (map fst ys)" using assms span_of_part [of bt "map fst xs" "map fst ys" "map fst zs"] by (auto simp: readable_span_def)
  ultimately show ?thesis using t(2) by (auto simp: readable_span_def)
qed

lemma encoded_nonempty: "encoded E g chainID ss b \<Longrightarrow> ss \<noteq> []"
  by (auto simp: encoded_def ToRawSpanBatch_def NewSpanBatch_def)

lemma readable_spans:
  assumes "list_all2 (encoded E g chainID) spans bss" and "concat spans \<noteq> [] \<longrightarrow> readable_span C bt chainID (concat spans)"
  shows "\<forall>ss\<in>set spans. readable_span C bt chainID ss"
proof
  fix ss assume "ss \<in> set spans"
  then obtain as cs where s: "spans = as @ ss # cs" by (meson split_list)
  have "\<forall>x\<in>set spans. x \<noteq> []" using assms(1) encoded_nonempty by (fastforce simp: list_all2_conv_all_nth in_set_conv_nth)
  then have "ss \<noteq> []" using s by simp
  moreover have "concat spans = concat as @ ss @ concat cs" by (simp add: s)
  ultimately show "readable_span C bt chainID ss" using assms(2) readable_part [of C bt chainID "concat as" ss "concat cs"] by simp
qed

section \<open>Frames in order\<close>

text \<open>From Holocene on a channel takes its frames in order only. Delivered in order they give the same channel.\<close>

lemma in_order_add_all:
  assumes "channel_frames i fs"
  shows "requireInOrder ch \<Longrightarrow> partially i fs qs (ch\<lparr>requireInOrder := False\<rparr>) \<Longrightarrow> fs = qs @ map fst ps \<Longrightarrow>
    \<exists>ch'. add_all ch ps = Inr ch' \<and> partially i fs fs (ch'\<lparr>requireInOrder := False\<rparr>)"
proof (induction ps arbitrary: qs ch)
  case Nil
  then show ?case by simp
next
  case (Cons p ps)
  obtain f l1 where p: "p = (f, l1)" by (cases p)
  have fs: "fs = qs @ f # map fst ps" using Cons.prems(3) p by simp
  have d: "f \<notin> set qs" using channel_frames_distinct [OF assms] fs by simp
  have step: "AddFrame f l1 (ch\<lparr>requireInOrder := False\<rparr>) = Inr (added (ch\<lparr>requireInOrder := False\<rparr>) f l1)"
      "partially i fs (qs @ [f]) (added (ch\<lparr>requireInOrder := False\<rparr>) f l1)"
    using partially_step [OF assms Cons.prems(2) _ d] fs by auto
  have at: "length qs < length fs" "fs ! length qs = f" unfolding fs by simp_all
  then have "length qs < 65536" using assms by (simp add: channel_frames_def)
  moreover have "FrameNumber f = word_of_nat (length qs)" using assms at by (auto simp: channel_frames_def)
  ultimately have "unat (FrameNumber f) = length (inputs ch)" using Cons.prems(2) by (simp add: partially_def unat_of_nat)
  then have "AddFrame f l1 ch = Inr (added ch f l1)"
    using step(1) Cons.prems(1) AddFrame_added [of ch f l1] by (auto simp: AddFrame_Inr_iff accepts_def)
  moreover have "(added ch f l1)\<lparr>requireInOrder := False\<rparr> = added (ch\<lparr>requireInOrder := False\<rparr>) f l1"
    by (simp add: added_def kept_def)
  moreover from this have "\<exists>ch'. add_all (added ch f l1) ps = Inr ch' \<and> partially i fs fs (ch'\<lparr>requireInOrder := False\<rparr>)"
    by (intro Cons.IH [of _ "qs @ [f]"]) (use Cons.prems(1) step(2) fs in simp_all)
  ultimately show ?case by (simp add: p)
qed

lemma in_order_reassembly:
  assumes "channel_frames i fs" and "map fst ps = fs"
  shows "\<exists>ch. add_all (NewChannel i ob True) ps = Inr ch \<and> IsReady ch \<and> Reader ch = Inr (concat (map Data fs))"
proof -
  have n: "partially i fs [] ((NewChannel i ob True)\<lparr>requireInOrder := False\<rparr>)" "requireInOrder (NewChannel i ob True)"
    using partially_NewChannel [OF assms(1), of ob] by (simp_all add: NewChannel_def)
  have ps: "fs = [] @ map fst ps" using assms(2) by simp
  obtain ch where ch: "add_all (NewChannel i ob True) ps = Inr ch" "partially i fs fs (ch\<lparr>requireInOrder := False\<rparr>)"
    using in_order_add_all [OF assms(1) n(2,1) ps] by blast
  have same: "IsReady (ch\<lparr>requireInOrder := False\<rparr>) = IsReady ch" "Reader (ch\<lparr>requireInOrder := False\<rparr>) = Reader ch"
    by (simp_all add: IsReady_def Reader_def cong: if_cong)
  have "IsReady (ch\<lparr>requireInOrder := False\<rparr>) \<and> Reader (ch\<lparr>requireInOrder := False\<rparr>) = Inr (concat (map Data fs))"
    using partially_ready [OF assms(1) ch(2) refl channel_frames_distinct [OF assms(1)]] by simp
  then show ?thesis using ch(1) unfolding same by blast
qed

section \<open>Frame counter and identifier of an open channel\<close>

lemma so_compress_frame: "so_compress E co = (e, co') \<Longrightarrow> so_frame co' = so_frame co \<and> so_id co' = so_id co"
  by (auto simp: so_compress_def Let_def checkFull_def split: if_splits prod.splits option.splits)

lemma buffer_frame [simp]:
  "so_frame (swapRLP co) = so_frame co" "so_id (swapRLP co) = so_id co" "so_frame (set_active bs co) = so_frame co" "so_id (set_active bs co) = so_id co"
  "so_frame (set_inactive bs co) = so_frame co" "so_id (set_inactive bs co) = so_id co" "so_frame (so_resetSpanBatch E co) = so_frame co"
  "so_id (so_resetSpanBatch E co) = so_id co"
  by (simp_all add: swapRLP_def set_active_def set_inactive_def so_resetSpanBatch_def)

lemma after_write_frame:
  assumes "after_write E maxRLP co = Inr (err, co')" and "err = None \<or> (\<exists>e. err = Some e \<and> refused e)" and "so_full co = None"
  shows "so_frame co' = so_frame co \<and> so_id co' = so_id co"
proof (cases rule: after_write_cases [OF assms(1,3)])
  case 1
  then show ?thesis by simp
next
  case 2
  then show ?thesis using so_compress_frame by blast
next
  case (3 e co1)
  then show ?thesis using so_compress_frame [OF 3(4)] so_compress_frame [of E co None co1] by auto
next
  case (4 e)
  then show ?thesis using assms(2) by simp
qed

lemma so_add_frame:
  assumes add: "so_addSingularBatch E b n co = Inr (err, co')" and "err = None \<or> (\<exists>e. err = Some e \<and> refused e)"
  shows "so_frame co' = so_frame co \<and> so_id co' = so_id co"
proof (cases "so_closed co \<or> so_full co \<noteq> None")
  case True
  then have "co' = co" using add by (cases "so_closed co") (simp_all add: so_add_eq split: option.splits)
  then show ?thesis by simp
next
  case False
  then obtain co1 where c1: "ensureOpenSpanBatch E co = Inr co1" using add by (auto simp: so_add_eq and_then_Inr_iff)
  have k: "so_frame co1 = so_frame co \<and> so_id co1 = so_id co \<and> so_full co1 = None"
    using c1 False by (auto simp: ensureOpenSpanBatch_def so_resetSpanBatch_def split: if_splits)
  obtain sb where c2: "AppendSingularBatch (lib_codecs (oe_lib E)) (so_spanBatch co1) b n = Inr sb"
    using add False c1 by (cases "AppendSingularBatch (lib_codecs (oe_lib E)) (so_spanBatch co1) b n") (simp_all add: so_add_eq)
  let ?w = "swapRLP (co1\<lparr>so_spanBatch := sb\<rparr>)"
  obtain M bs where "after_write E M (set_active bs ?w) = Inr (err, co')"
    using add False c1 c2 by (auto simp: so_add_eq Let_def split: sum.splits if_splits)
  from after_write_frame [OF this assms(2)] k show ?thesis by simp
qed

lemma add_batches_frame:
  "add_batches E ss co = Inr (accepted, err, co') \<Longrightarrow> \<forall>e. err = Some e \<longrightarrow> refused e \<Longrightarrow> so_frame co' = so_frame co \<and> so_id co' = so_id co"
proof (induction ss arbitrary: co accepted)
  case (Cons p ss)
  obtain b n where p: "p = (b, n)" by (cases p)
  obtain err1 co1 where add: "so_addSingularBatch E b n co = Inr (err1, co1)" using Cons.prems(1) p by (auto simp: and_then_Inr_iff)
  show ?case
  proof (cases err1)
    case None
    then obtain acc1 where "add_batches E ss co1 = Inr (acc1, err, co')" using Cons.prems(1) p add by (auto simp: and_then_Inr_iff)
    from Cons.IH [OF this Cons.prems(2)] so_add_frame [OF add] None show ?thesis by simp
  next
    case (Some e)
    then show ?thesis using Cons.prems p add so_add_frame [OF add] by auto
  qed
qed simp


section \<open>Properties\<close>

text \<open>The hypotheses: what the batcher did, and what is used of the node's configuration and of the libraries.\<close>

definition batcher_closed ::
  "('al, 'au, 's, 'e) out_env \<Rightarrow> ChainSpec \<Rightarrow> (SingularBatch \<times> u64) list \<Rightarrow> (SingularBatch \<times> u64) list \<Rightarrow> ('e SpanChannelOut, 'e) ChannelBuilder \<Rightarrow> bool" where
  "batcher_closed E spec ss accepted c \<longleftrightarrow>
     (\<exists>i target maxBlocks co err co' buf. NewSpanChannelOut E i target spec maxBlocks = Inr co \<and> add_batches E ss co = Inr (accepted, err, cb_co c) \<and>
        (\<forall>e. err = Some e \<longrightarrow> refused e) \<and> so_Close E (cb_co c) = (None, co') \<and> cb_frames c = [] \<and> so_compressed co' = Some buf \<and>
        FrameV0OverHeadSize < unat (cc_MaxFrameSize (cb_cfg c)) \<and> unat (cc_MaxFrameSize (cb_cfg c)) \<le> MaxFrameLen + FrameV0OverHeadSize \<and>
        length buf \<le> 65536 * (unat (cc_MaxFrameSize (cb_cfg c)) - FrameV0OverHeadSize))"

definition node_ready ::
  "('al, 'au, 's, 'e) out_env \<Rightarrow> ('s \<Rightarrow> byte list \<Rightarrow> bool) \<Rightarrow> Config \<Rightarrow> L1BlockRef \<Rightarrow> (SingularBatch \<times> u64) list \<Rightarrow> bool" where
  "node_ready E R cfg origin accepted \<longleftrightarrow>
     (let limit = MaxRLPBytesPerChannel (NewChainSpec cfg) (l1_Time origin) in
      rlp_stream E R \<and> decompresses E R limit (IsFjord cfg (l1_Time origin)) \<and> IsDelta cfg (l1_Time origin) \<and> L2ChainID cfg \<noteq> None \<and>
      (\<forall>p\<in>set accepted. MaxRLPBytesPerChannel (NewChainSpec cfg) (sb_Timestamp (fst p)) \<le> limit) \<and>
      (accepted \<noteq> [] \<longrightarrow> readable_span (lib_codecs (oe_lib E)) (BlockTime cfg) (l2_chain_id cfg) accepted))"

text \<open>Frames delivered in any order, or in order to a channel that requires it, make the channel ready, and pulling from the channel reader then yields the span batches, without an error, until there is
  not enough data.\<close>

definition node_reads :: "('al, 'au, 's, 'e) out_env \<Rightarrow> Config \<Rightarrow> L1BlockRef \<Rightarrow> ChannelID \<Rightarrow> Frame list \<Rightarrow> (SingularBatch \<times> u64) list list \<Rightarrow> 'p itself \<Rightarrow> bool" where
  "node_reads E cfg origin i fs spans _ \<longleftrightarrow>
     (\<forall>ps ob inOrder. distinct (map fst ps) \<longrightarrow> set (map fst ps) = set fs \<longrightarrow> (inOrder \<longrightarrow> map fst ps = fs) \<longrightarrow>
       (\<exists>ch data. add_all (NewChannel i ob inOrder) ps = Inr ch \<and> IsReady ch \<and> Reader ch = Inr data \<and>
         (\<forall>prev (p :: 'p) p' cr. nextBatchFn cr = None \<longrightarrow> rc_NextRawChannel prev p = (Inr data, p') \<longrightarrow> rc_Origin prev p' = origin \<longrightarrow>
           pulls (Suc (length spans)) (cr_NextBatch (oe_lib E) cfg prev) (cr, p) =
             map (\<lambda>ss. Inr (Span (span_read ss))) spans @ [Inl NotEnoughData])))"

text \<open>C1: The node reads what the batcher wrote. Batches are added to a new span channel until it refuses one, and the channel builder closes it and outputs its
  frames. Each frame parses from its transaction data. If the node gets them in any order (before Holocene; in order from then on), the channel becomes ready, and pulling from the channel
  reader yields one span batch after the other, without an error, until there is not enough data; their blocks, joined, are exactly the accepted
  batches: epochs, timestamps and transactions, in order, and none of the refused one. Each span batch names the parent of its first block and the
  L1 origin of its last one. This holds however the spans were cut.\<close>

theorem node_reads_what_batcher_wrote:
  assumes "batcher_closed E (NewChainSpec cfg) ss accepted c" and "node_ready E R cfg origin accepted"
  shows "\<exists>c' fs spans. closeAndOutputAllFrames (span_channel_out E) c = Some (None, c') \<and> cb_frames c' = map frame_data fs \<and>
    (\<forall>f\<in>set fs. ParseFrames (DerivationVersion0 # fd_data (frame_data f)) = Inr [f]) \<and>
    concat spans = accepted \<and> (\<exists>rest. ss = accepted @ rest) \<and> node_reads E cfg origin (so_id (cb_co c)) fs spans TYPE('p)"
proof -
  let ?spec = "NewChainSpec cfg" and ?limit = "MaxRLPBytesPerChannel (NewChainSpec cfg) (l1_Time origin)" and ?max = "unat (cc_MaxFrameSize (cb_cfg c))"
  obtain i target maxBlocks co err co' buf where new: "NewSpanChannelOut E i target ?spec maxBlocks = Inr co"
      and add: "add_batches E ss co = Inr (accepted, err, cb_co c)" "\<forall>e. err = Some e \<longrightarrow> refused e" and close: "so_Close E (cb_co c) = (None, co')"
      and c: "cb_frames c = []" "so_compressed co' = Some buf" "FrameV0OverHeadSize < ?max" "?max \<le> MaxFrameLen + FrameV0OverHeadSize"
        "length buf \<le> 65536 * (?max - FrameV0OverHeadSize)"
    using assms(1) unfolding batcher_closed_def by blast
  obtain chainID where cid: "L2ChainID (config ?spec) = Some chainID" using assms(2) by (auto simp: node_ready_def Let_def NewChainSpec_def)
  have node: "rlp_stream E R" "decompresses E R ?limit (IsFjord cfg (l1_Time origin))" "IsDelta cfg (l1_Time origin)"
      "\<forall>p\<in>set accepted. unat (MaxRLPBytesPerChannel ?spec (sb_Timestamp (fst p))) \<le> unat ?limit"
      "accepted \<noteq> [] \<longrightarrow> readable_span (lib_codecs (oe_lib E)) (BlockTime cfg) (l2_chain_id cfg) accepted"
    using assms(2) by (simp_all add: node_ready_def Let_def word_le_nat_alt)
  obtain spans bs where sp: "concat spans = accepted" "\<exists>rest. ss = accepted @ rest" "holds E (L2Time (cfg_Genesis cfg)) (l2_chain_id cfg) spans bs"
      "buf = fst (cp_Close (oe_compressor E) bs)" "so_closed co'" "length bs \<le> unat ?limit"
    using closed_channel [OF new cid add close] node(4) c(2) cid by (auto simp: NewChainSpec_def l2_chain_id_def)
  obtain bss where bss: "list_all2 (encoded E (L2Time (cfg_Genesis cfg)) (l2_chain_id cfg)) spans bss" "bs = concat bss" using sp(3) by (auto simp: holds_def)
  have rd: "\<forall>ss\<in>set spans. readable_span (lib_codecs (oe_lib E)) (BlockTime cfg) (l2_chain_id cfg) ss"
    using readable_spans [OF bss(1)] node(5) sp(1) by simp
  obtain algo s where br: "BatchReader (oe_lib E) buf ?limit (IsFjord cfg (l1_Time origin)) = Inr (algo, s)" "R s bs"
    using BatchReader_decompresses [OF node(2) sp(6)] sp(4) by auto
  define m where "m = ?max - FrameV0OverHeadSize"
  define fs where "fs = frames_of (so_id (cb_co c)) m 0 buf"
  have m: "0 < m" "m \<le> MaxFrameLen" using c(3,4) by (simp_all add: m_def)
  have "so_frame (cb_co c) = 0" using add_batches_frame [OF add] new cid by (auto simp: NewSpanChannelOut_def)
  moreover have "length buf < 2 ^ 64" using c(5) m(2) by (simp add: m_def [symmetric] MaxFrameLen_def)
  ultimately obtain c' where out: "closeAndOutputAllFrames (span_channel_out E) c = Some (None, c')" "cb_frames c' = map frame_data fs"
    using closed_frames [OF close c(2) _ _ c(3) sp(5) m_def] c(1) unfolding fs_def by auto
  have cf: "channel_frames (so_id (cb_co c)) fs" unfolding fs_def by (rule frames_of_channel [OF m(1)]) (use c(5) m_def in simp)
  have data: "concat (map Data fs) = buf" unfolding fs_def by (rule frames_of_data)
  have "\<forall>f\<in>set fs. length (Data f) \<le> MaxFrameLen"
    using frames_of_sizes [OF m(1), of "so_id (cb_co c)" 0 buf] m(2) unfolding fs_def by fastforce
  then have parse: "\<forall>f\<in>set fs. ParseFrames (DerivationVersion0 # fd_data (frame_data f)) = Inr [f]"
    using one_frame_parses by (simp add: frame_wf_def frame_data_def)
  have "node_reads E cfg origin (so_id (cb_co c)) fs spans TYPE('p)"
    unfolding node_reads_def
  proof (intro allI impI)
    fix ps :: "(Frame \<times> L1BlockRef) list" and ob inOrder
    assume ps: "distinct (map fst ps)" "set (map fst ps) = set fs" "inOrder \<longrightarrow> map fst ps = fs"
    obtain ch where ch: "add_all (NewChannel (so_id (cb_co c)) ob inOrder) ps = Inr ch" "IsReady ch" "Reader ch = Inr buf"
      using reassembly [OF cf ps(1,2), of ob "length ps"] in_order_reassembly [OF cf, of ps ob] ps(3) data by (cases inOrder) auto
    have pull: "pulls (Suc (length spans)) (cr_NextBatch (oe_lib E) cfg prev) (cr, p) = map (\<lambda>ss. Inr (Span (span_read ss))) spans @ [Inl NotEnoughData]"
      if p: "nextBatchFn cr = None" "rc_NextRawChannel prev p = (Inr buf, p')" "rc_Origin prev p' = origin" for prev and p p' :: 'p and cr
    proof -
      have "pulls (Suc (length spans)) (cr_NextBatch (oe_lib E) cfg prev) (cr, p) =
          pulls (Suc (length spans)) (cr_NextBatch (oe_lib E) cfg prev) (cr\<lparr>nextBatchFn := Some (algo, s)\<rparr>, p')"
        by (rule new_channel_pulls [OF p(1,2)]) (simp add: p(3) br(1))
      also have "\<dots> = map (\<lambda>ss. Inr (Span (span_read ss))) spans @ [Inl NotEnoughData]"
        by (rule reader_pulls [OF bss(1) rd node(1) br(2) [unfolded bss(2)]]) (simp_all add: p(3) node(3))
      finally show ?thesis .
    qed
    show "\<exists>ch data. add_all (NewChannel (so_id (cb_co c)) ob inOrder) ps = Inr ch \<and> IsReady ch \<and> Reader ch = Inr data \<and>
         (\<forall>prev (p :: 'p) p' cr. nextBatchFn cr = None \<longrightarrow> rc_NextRawChannel prev p = (Inr data, p') \<longrightarrow> rc_Origin prev p' = origin \<longrightarrow>
           pulls (Suc (length spans)) (cr_NextBatch (oe_lib E) cfg prev) (cr, p) =
             map (\<lambda>ss. Inr (Span (span_read ss))) spans @ [Inl NotEnoughData])"
      by (intro exI [of _ ch] exI [of _ buf] conjI ch allI impI pull)
  qed
  with out parse sp(1,2) show ?thesis by metis
qed

definition sample_reads :: "byte list list \<Rightarrow> byte list \<Rightarrow> bool" where "sample_reads s bs \<longleftrightarrow> concat s = bs"

definition sample_origin :: L1BlockRef where "sample_origin = zero_L1BlockRef\<lparr>l1_Time := 3000\<rparr>"

lemma sample_readable: "readable_span sample_codecs 2 2 [(sample_b1, 1)]"
  by (auto simp: readable_span_def span_of_def sample_b1_def MaxSpanBatchElementCount_def)

lemma sample_node_ready: "node_ready sample_out_env sample_reads (config sample_spec) sample_origin [(sample_b1, 1)]"
proof -
  have s: "rlp_stream sample_out_env sample_reads"
    unfolding rlp_stream_def
  proof (intro conjI allI impI)
    fix s assume "sample_reads s []"
    then show "fst (stream_Bytes (oe_lib sample_out_env) s) = Inl IoEOF" by (simp add: sample_reads_def sample_env_sel sample_out_lib_def del: concat_eq_Nil_conv)
  next
    fix s x r assume "sample_reads s (oe_rlp_string sample_out_env x @ r)"
    then have c: "concat s = replicate (length x) 1 @ 0 # x @ r" by (simp add: sample_reads_def sample_env_sel unary_string_def)
    then obtain b t where bt: "concat s = b # t" by (cases x) auto
    have "takeWhile (\<lambda>b. b = 1) (b # t) = replicate (length x) 1" "drop (Suc (length x)) (b # t) = x @ r"
      using c bt sample_rlp_item [of "length x" "x @ r"] by (metis, metis append_Cons append_Nil append_assoc append_eq_conv_conj length_append_singleton length_replicate)
    moreover from this have "drop (Suc (length x + length x)) (b # t) = r"
      using drop_drop [of "length x" "Suc (length x)" "b # t"] by simp
    ultimately show "\<exists>s'. stream_Bytes (oe_lib sample_out_env) s = (Inr x, s') \<and> sample_reads s' r"
      using bt by (simp del: drop_Suc_Cons takeWhile.simps add: sample_reads_def sample_env_sel sample_out_lib_def Let_def)
  qed
  have d: "decompresses sample_out_env sample_reads limit True" for limit
    by (simp add: decompresses_def sample_env_sel ChannelVersionBrotli_def sample_reads_def sample_out_lib_def sample_libraries_def)
  have f: "IsFjord (config sample_spec) (l1_Time sample_origin)" "IsDelta (config sample_spec) (l1_Time sample_origin)" by code_simp+
  have l: "MaxRLPBytesPerChannel (NewChainSpec (config sample_spec)) t \<le> maxRLPBytesPerChannelFjord" for t
    by (simp add: MaxRLPBytesPerChannel_def maxRLPBytesPerChannelFjord_def maxRLPBytesPerChannelBedrock_def)
  have "MaxRLPBytesPerChannel (NewChainSpec (config sample_spec)) (l1_Time sample_origin) = maxRLPBytesPerChannelFjord"
    using f(1) by (simp add: MaxRLPBytesPerChannel_def NewChainSpec_def)
  then show ?thesis using s d f l sample_readable
    by (simp add: node_ready_def Let_def sample_env_sel) (simp add: sample_spec_def NewChainSpec_def l2_chain_id_def)
qed


lemma sample_batcher_closed:
  "batcher_closed sample_out_env (NewChainSpec (config sample_spec)) [(sample_b1, 1), (sample_b2, 0)] [(sample_b1, 1)] (sample_cb 43 sample_co2)"
proof -
  have "sample_spec = NewChainSpec (config sample_spec)" by (simp add: sample_spec_def NewChainSpec_def)
  then show ?thesis
    using sample_new sample_added sample_closed
    unfolding batcher_closed_def
    by (intro exI [of _ 7] exI [of _ 100] exI [of _ 1] exI [of _ sample_co] exI [of _ "Some ErrCompressorFull"] exI [of _ "sample_co2\<lparr>so_closed := True\<rparr>"]
        exI [of _ "1 # sample_r1"])
      (simp add: refused_def FrameV0OverHeadSize_def MaxFrameLen_def sample_lengths, simp add: sample_co2_def)
qed

theorem node_reads_what_batcher_wrote_witness:
  "\<exists>c' fs spans. closeAndOutputAllFrames (span_channel_out sample_out_env) (sample_cb 43 sample_co2) = Some (None, c') \<and>
     cb_frames c' = map frame_data fs \<and> concat spans = [(sample_b1, 1)] \<and>
     node_reads sample_out_env (config sample_spec) sample_origin (so_id sample_co2) fs spans TYPE(channel_stage \<times> nat)"
  using node_reads_what_batcher_wrote [OF sample_batcher_closed sample_node_ready, where 'p = "channel_stage \<times> nat"] by auto

end
