(* ===== verification/Force_Close.thy ===== *)
theory Force_Close
  imports Channel_Out Channel
begin

text \<open>
  What \<open>ForceCloseTxData\<close> (\<open>op-node/rollup/derive/channel_out.go\<close>) does to the channel it is meant to close.
\<close>

section \<open>The loop over frame numbers\<close>

definition gap :: "ChannelID \<Rightarrow> nat \<Rightarrow> Frame" where
  "gap i k = \<lparr>ID = i, FrameNumber = word_of_nat k, Data = [], IsLast = False\<rparr>"

text \<open>The empty frames for the numbers from \<open>k\<close> to \<open>n\<close> that are missing.\<close>

definition gaps :: "ChannelID \<Rightarrow> Frame list \<Rightarrow> nat \<Rightarrow> nat \<Rightarrow> Frame list" where
  "gaps i frames k n = map (gap i) (filter (\<lambda>j. (word_of_nat j :: u16) \<notin> FrameNumber ` set frames) [k..<Suc n])"

lemma missing_frames_gaps:
  assumes "unat closeNumber < 65535" and "k \<le> Suc (unat closeNumber)"
  shows "missing_frames i frames closeNumber (word_of_nat k) out = Some (out @ concat (map MarshalBinary (gaps i frames k (unat closeNumber))))"
  using assms(2)
proof (induction "Suc (unat closeNumber) - k" arbitrary: k out)
  case 0
  then have "k = Suc (unat closeNumber)" by simp
  moreover from this have "unat (word_of_nat k :: u16) = k" using assms(1) by (subst unat_of_nat) simp
  then have "\<not> (word_of_nat k :: u16) \<le> closeNumber" using \<open>k = _\<close> by (simp only: word_le_nat_alt)
  ultimately show ?case by (subst missing_frames.simps) (simp add: gaps_def)
next
  case (Suc d)
  then have k: "k \<le> unat closeNumber" by simp
  then have le: "(word_of_nat k :: u16) \<le> closeNumber" using assms(1) by (simp add: word_le_nat_alt unat_of_nat)
  have n: "(word_of_nat k :: u16) + 1 = word_of_nat (Suc k)" by simp
  have "[k..<Suc (unat closeNumber)] = k # [Suc k..<Suc (unat closeNumber)]" using k by (simp add: upt_conv_Cons del: upt_Suc)
  then have up: "gaps i frames k (unat closeNumber) =
      (if (word_of_nat k :: u16) \<in> FrameNumber ` set frames then [] else [gap i k]) @ gaps i frames (Suc k) (unat closeNumber)"
    by (simp add: gaps_def del: upt_Suc)
  have ih: "missing_frames i frames closeNumber (word_of_nat (Suc k)) out = Some (out @ concat (map MarshalBinary (gaps i frames (Suc k) (unat closeNumber))))" for out
    by (rule Suc.hyps(1)) (use Suc.hyps(2) k in simp_all)
  show ?case
    by (subst missing_frames.simps) (simp only: le n ih if_True, simp add: up gap_def)
qed

text \<open>The counter has 16 bits: after the last number it starts again.\<close>

lemma missing_frames_never: "missing_frames i frames 0xFFFF n out = None"
proof (rule ccontr)
  assume "missing_frames i frames 0xFFFF n out \<noteq> None"
  then obtain y where y: "missing_frames i frames 0xFFFF n out = Some y" by auto
  have "(0xFFFF :: u16) = 0xFFFF \<longrightarrow> False"
  proof (rule missing_frames.raw_induct [where P = "\<lambda>i frames c n out y. c = 0xFFFF \<longrightarrow> False", OF _ y], intro impI)
    fix rec i frames c n out y
    assume IH: "\<And>i frames c n out y. rec i frames c n out = Some y \<Longrightarrow> c = (0xFFFF :: u16) \<longrightarrow> False"
      and eq: "(if n \<le> c then rec i frames c (n + 1) (if n \<in> FrameNumber ` set frames then out
              else out @ MarshalBinary \<lparr>ID = i, FrameNumber = n, Data = [], IsLast = False\<rparr>) else Some out) = Some y" and c: "c = 0xFFFF"
    have "n \<le> c" using unat_u16_less [of n] by (simp add: c word_le_nat_alt)
    with eq IH c show False by (metis (full_types))
  qed
  then show False by simp
qed

lemma ForceClose_never:
  assumes "\<forall>f\<in>set frames. ID f = i" and "find IsLast frames = Some c" and "FrameNumber c = 0xFFFF"
  shows "ForceCloseTxData frames = None"
proof -
  show ?thesis using assms missing_frames_never by (cases frames) (auto simp: ForceCloseTxData_def Let_def)
qed

lemma gaps_numbers:
  assumes "channel_frames i fs" and "length fs < 65536" and "set frames \<subseteq> set fs" and "last fs \<in> set frames"
  shows "map (unat \<circ> FrameNumber) (gaps i frames 0 (length fs - 1)) =
    filter (\<lambda>k. \<forall>f\<in>set frames. unat (FrameNumber f) \<noteq> k) [0..<length fs - 1]"
proof -
  let ?P = "\<lambda>j. (word_of_nat j :: u16) \<notin> FrameNumber ` set frames"
  have ne: "fs \<noteq> []" using assms(1) by (simp add: channel_frames_def)
  have "FrameNumber (last fs) = word_of_nat (length fs - 1)" using assms(1) ne by (simp add: channel_frames_def last_conv_nth)
  then have "(word_of_nat (length fs - 1) :: u16) \<in> FrameNumber ` set frames" using assms(4) by (metis imageI)
  then have f: "filter ?P [0..<Suc (length fs - 1)] = filter ?P [0..<length fs - 1]" by simp
  have un: "unat (word_of_nat k :: u16) = k" if "k < length fs - 1" for k using that assms(2) by (simp add: unat_of_nat)
  have "?P k \<longleftrightarrow> (\<forall>f\<in>set frames. unat (FrameNumber f) \<noteq> k)" if "k < length fs - 1" for k
    using un [OF that] by (force simp: image_iff)
  then have "filter ?P [0..<length fs - 1] = filter (\<lambda>k. \<forall>f\<in>set frames. unat (FrameNumber f) \<noteq> k) [0..<length fs - 1]"
    by (intro filter_cong) auto
  moreover have "map (unat \<circ> FrameNumber \<circ> gap i) (filter ?P [0..<length fs - 1]) = filter ?P [0..<length fs - 1]"
    using un by (intro map_idI) (auto simp: gap_def)
  ultimately show ?thesis unfolding gaps_def map_map f by simp
qed

section \<open>Properties\<close>

lemma ForceClose_closing:
  assumes "channel_frames i fs" and "length fs < 65536" and "set frames \<subseteq> set fs" and "last fs \<in> set frames"
  shows "ForceCloseTxData frames = Some (Inr (DerivationVersion0 # concat (map MarshalBinary (gaps i frames 0 (length fs - 1)))))"
proof -
  have ids: "\<forall>f\<in>set frames. ID f = i" using assms(3) by (meson channel_frames_nth [OF assms(1)] subsetD)
  have ne: "frames \<noteq> []" using assms(4) by auto
  have fs: "fs \<noteq> []" using assms(1) by (simp add: channel_frames_def)
  have lastfs: "IsLast (last fs)" "unat (FrameNumber (last fs)) = length fs - 1"
    using assms(1,2) fs by (simp_all add: channel_frames_def last_conv_nth unat_of_nat)
  have "find IsLast frames = Some (last fs)"
  proof (cases "find IsLast frames")
    case None
    then show ?thesis using lastfs assms(4) by (auto simp: find_None_iff)
  next
    case (Some f)
    then have "f \<in> set frames" "IsLast f" by (auto simp: find_Some_iff)
    then show ?thesis using Some channel_frames_last [OF assms(1), of f] assms(3) by auto
  qed
  moreover have "unat (FrameNumber (last fs)) < 65535" using lastfs assms(2) fs by simp
  ultimately show ?thesis
    using missing_frames_gaps [of "FrameNumber (last fs)" 0 i frames "[DerivationVersion0]"] ids ne lastfs
    by (cases frames) (auto simp: ForceCloseTxData_def Let_def)
qed


text \<open>The channel that force closing leaves: the frames that are there, and empty ones for the others.\<close>

definition filled_frames :: "ChannelID \<Rightarrow> Frame list \<Rightarrow> Frame list \<Rightarrow> Frame list" where
  "filled_frames i fs frames = map (\<lambda>k. if fs ! k \<in> set frames then fs ! k else gap i k) [0..<length fs]"

lemma filled_channel:
  assumes "channel_frames i fs" and "last fs \<in> set frames"
  shows "channel_frames i (filled_frames i fs frames)"
proof -
  have "fs ! (length fs - 1) \<in> set frames" using assms by (simp add: channel_frames_def last_conv_nth)
  then have "fs ! k \<in> set frames" if "Suc k = length fs" for k using that by (metis diff_Suc_1)
  then show ?thesis using assms(1) by (auto simp: channel_frames_def filled_frames_def gap_def)
qed

lemma filled_set:
  assumes "channel_frames i fs" and "set frames \<subseteq> set fs"
  shows "set (filled_frames i fs frames) = set frames \<union> set (gaps i frames 0 (length fs - 1))"
proof -
  have ne: "fs \<noteq> []" using assms(1) by (simp add: channel_frames_def)
  have there: "fs ! k \<in> set frames \<longleftrightarrow> (word_of_nat k :: u16) \<in> FrameNumber ` set frames" if "k < length fs" for k
  proof
    assume "(word_of_nat k :: u16) \<in> FrameNumber ` set frames"
    moreover have "FrameNumber (fs ! k) = word_of_nat k" using assms(1) that by (simp add: channel_frames_def)
    ultimately obtain f where f: "f \<in> set frames" "FrameNumber f = FrameNumber (fs ! k)" by auto
    then have "f = fs ! k" using channel_frames_inj [OF assms(1), of f "fs ! k"] assms(2) that by auto
    then show "fs ! k \<in> set frames" using f(1) by simp
  next
    assume "fs ! k \<in> set frames"
    moreover have "FrameNumber (fs ! k) = word_of_nat k" using assms(1) that by (simp add: channel_frames_def)
    ultimately show "(word_of_nat k :: u16) \<in> FrameNumber ` set frames" by (metis image_eqI)
  qed
  have fr: "x \<in> set frames \<longleftrightarrow> (\<exists>k<length fs. x = fs ! k \<and> fs ! k \<in> set frames)" for x
    using assms(2) by (metis in_set_conv_nth subsetD)
  have ga: "x \<in> set (gaps i frames 0 (length fs - 1)) \<longleftrightarrow> (\<exists>k<length fs. x = gap i k \<and> fs ! k \<notin> set frames)" for x
    using there ne by (auto simp: gaps_def)
  have fi: "x \<in> set (filled_frames i fs frames) \<longleftrightarrow> (\<exists>k<length fs. x = (if fs ! k \<in> set frames then fs ! k else gap i k))" for x
    by (simp only: filled_frames_def set_map set_upt image_iff Bex_def atLeastLessThan_iff) (metis zero_le)
  have "x \<in> set (filled_frames i fs frames) \<longleftrightarrow> x \<in> set frames \<union> set (gaps i frames 0 (length fs - 1))" for x
    unfolding Un_iff fi ga using fr [of x] by metis
  then show ?thesis by blast
qed

text \<open>C19: If frames of a channel are on L1 with the closing one among them, and its number is not the highest possible one, \<open>ForceCloseTxData\<close> returns empty frames
  for exactly the numbers that are missing, in ascending order, after the version byte. If one is missing at all, this data parses as these frames (otherwise it is the
  bare version byte). Delivered with the frames on L1, in any order, they make a channel ready that does not require its frames in order, as before Holocene.\<close>

theorem force_close_completes_channel:
  assumes "channel_frames i fs" and "length fs < 65536" and "set frames \<subseteq> set fs" and "last fs \<in> set frames"
  shows "\<exists>gs. ForceCloseTxData frames = Some (Inr (DerivationVersion0 # concat (map MarshalBinary gs))) \<and>
    map (unat \<circ> FrameNumber) gs = filter (\<lambda>k. \<forall>f\<in>set frames. unat (FrameNumber f) \<noteq> k) [0..<length fs - 1] \<and>
    (\<forall>g\<in>set gs. ID g = i \<and> Data g = [] \<and> \<not> IsLast g) \<and>
    (gs \<noteq> [] \<longrightarrow> ParseFrames (DerivationVersion0 # concat (map MarshalBinary gs)) = Inr gs) \<and>
    (\<forall>ps ob. distinct (map fst ps) \<longrightarrow> set (map fst ps) = set frames \<union> set gs \<longrightarrow>
      (\<exists>ch. add_all (NewChannel i ob False) ps = Inr ch \<and> IsReady ch))"
proof (intro exI [of _ "gaps i frames 0 (length fs - 1)"] conjI impI allI ForceClose_closing [OF assms] gaps_numbers [OF assms])
  show "\<forall>g\<in>set (gaps i frames 0 (length fs - 1)). ID g = i \<and> Data g = [] \<and> \<not> IsLast g" by (auto simp: gaps_def gap_def)
next
  have "list_all frame_wf (gaps i frames 0 (length fs - 1))" by (auto simp: gaps_def gap_def frame_wf_def list_all_iff)
  then show "gaps i frames 0 (length fs - 1) \<noteq> [] \<Longrightarrow>
      ParseFrames (DerivationVersion0 # concat (map MarshalBinary (gaps i frames 0 (length fs - 1)))) = Inr (gaps i frames 0 (length fs - 1))"
    by (simp add: ParseFrames_Inr_iff)
next
  fix ps :: "(Frame \<times> L1BlockRef) list" and ob
  assume ps: "distinct (map fst ps)" "set (map fst ps) = set frames \<union> set (gaps i frames 0 (length fs - 1))"
  show "\<exists>ch. add_all (NewChannel i ob False) ps = Inr ch \<and> IsReady ch"
    using reassembly [OF filled_channel [OF assms(1,4)] ps(1), of ob "length ps"] ps(2) filled_set [OF assms(1,3)] by auto
qed

theorem force_close_completes_channel_witness:
  "\<exists>gs. ForceCloseTxData [sample_frame 2 [4] True, sample_frame 0 [1, 2] False] = Some (Inr (DerivationVersion0 # concat (map MarshalBinary gs))) \<and>
    map (unat \<circ> FrameNumber) gs = [1]"
  using force_close_completes_channel [OF sample_channel_frames, of "[sample_frame 2 [4] True, sample_frame 0 [1, 2] False]"]
  by (auto simp: sample_frames_def sample_frame_def upt_rec)

text \<open>C20: If no closing frame is on L1 but frame 0 is, the frame that \<open>ForceCloseTxData\<close> makes has number 0 again. The channel that holds the frames on L1
  refuses it as a duplicate and stays open: it is not closed. And if the closing frame has the highest possible number, the function
  does not return.\<close>

theorem force_close_fails:
  assumes "frames \<noteq> []" and "\<forall>f\<in>set frames. ID f = i \<and> \<not> IsLast f" and "0 \<in> FrameNumber ` set frames"
  shows "\<exists>g. ForceCloseTxData frames = Some (Inr (DerivationVersion0 # MarshalBinary g)) \<and> IsLast g \<and>
    (\<forall>b b' ob ch. ch = fold offer (map (\<lambda>f. (f, b)) frames) (NewChannel i ob False) \<longrightarrow>
       AddFrame g b' ch = Inl DuplicateErr \<and> \<not> IsReady (offer (g, b') ch)) \<and>
    (\<forall>fs c. (\<forall>f\<in>set fs. ID f = i) \<longrightarrow> find IsLast fs = Some c \<longrightarrow> FrameNumber c = 0xFFFF \<longrightarrow> ForceCloseTxData fs = None)"
proof -
  let ?g = "\<lparr>ID = i, FrameNumber = 0, Data = [], IsLast = True\<rparr>"
  have run: "ch_id (fold offer (map (\<lambda>f. (f, b)) fs) ch) = i \<and> \<not> closed (fold offer (map (\<lambda>f. (f, b)) fs) ch) \<and>
      (map_of (inputs ch) 0 \<noteq> None \<or> 0 \<in> FrameNumber ` set fs \<longrightarrow> map_of (inputs (fold offer (map (\<lambda>f. (f, b)) fs) ch)) 0 \<noteq> None)"
    if "ch_id ch = i" "\<not> closed ch" "\<not> requireInOrder ch" "\<forall>f\<in>set fs. ID f = i \<and> \<not> IsLast f" for fs b and ch :: Channel
    using that
  proof (induction fs arbitrary: ch)
    case (Cons f fs)
    have f: "ID f = i" "\<not> IsLast f" using Cons.prems(4) by simp_all
    have z: "FrameNumber f = 0 \<longleftrightarrow> frame_key f = 0" using ucast_u16_eq_iff [of "FrameNumber f" 0] by (simp add: frame_key_def)
    have o: "offer (f, b) ch = (if map_of (inputs ch) (frame_key f) = None then added ch f b else ch)"
    proof (cases "map_of (inputs ch) (frame_key f) = None")
      case True
      then have "accepts ch f" using Cons.prems(1-3) f by (simp add: accepts_def)
      then show ?thesis using True AddFrame_added [of ch f b] by (simp add: offer_def)
    next
      case False
      then have "AddFrame f b ch = Inl DuplicateErr" using Cons.prems(1-3) f by (simp add: AddFrame_def)
      then show ?thesis using False by (auto simp: offer_def)
    qed
    have "map_of (inputs ch) 0 \<noteq> None \<or> FrameNumber f = 0 \<longrightarrow> map_of (inputs (offer (f, b) ch)) 0 \<noteq> None"
      using f z by (auto simp: o kept_def map_add_def split: option.splits)
    moreover have "ch_id (offer (f, b) ch) = i" "\<not> closed (offer (f, b) ch)" "\<not> requireInOrder (offer (f, b) ch)"
      using Cons.prems(1-3) f by (simp_all add: o)
    ultimately show ?case using Cons.IH [of "offer (f, b) ch"] Cons.prems(4) by auto
  qed auto
  have "find IsLast frames = None" using assms(2) by (simp add: find_None_iff)
  then have made: "ForceCloseTxData frames = Some (Inr (DerivationVersion0 # MarshalBinary ?g))"
    using assms(1,2) by (cases frames) (auto simp: ForceCloseTxData_def Let_def)
  have refused: "AddFrame ?g b' ch = Inl DuplicateErr \<and> \<not> IsReady (offer (?g, b') ch)"
    if "ch = fold offer (map (\<lambda>f. (f, b)) frames) (NewChannel i ob False)" for b b' ob ch
  proof -
    have c: "ch_id ch = i" "\<not> closed ch" "map_of (inputs ch) 0 \<noteq> None"
      using run [of "NewChannel i ob False" frames b] assms(2,3) that by (auto simp: NewChannel_def)
    then have "AddFrame ?g b' ch = Inl DuplicateErr" by (auto simp: AddFrame_def frame_key_def)
    then show ?thesis using c(2) by (simp add: offer_def IsReady_def)
  qed
  have "IsLast ?g" by simp
  then show ?thesis
    by (intro exI [of _ ?g] conjI allI impI made refused [THEN conjunct1] refused [THEN conjunct2] ForceClose_never [of _ i])
qed

theorem force_close_fails_witness:
  "\<exists>g. ForceCloseTxData [sample_frame 0 [1, 2] False] = Some (Inr (DerivationVersion0 # MarshalBinary g)) \<and>
     AddFrame g zero_L1BlockRef (fold offer [(sample_frame 0 [1, 2] False, zero_L1BlockRef)] (NewChannel 7 zero_L1BlockRef False)) = Inl DuplicateErr"
  using force_close_fails [of "[sample_frame 0 [1, 2] False]" 7] by (auto simp: sample_frame_def)

end
