(* ===== verification/Spec2Isabelle.thy ===== *)
theory Spec2Isabelle
  imports Rollup_Config Attributes Game_Resolution Claim_Identity Batch_Delivery Force_Close
begin

text \<open>
  Verification of the derivation pipeline of the Mantle rollup node (\<open>op-node\<close>), of the channels that the batcher (\<open>op-batcher\<close>) writes for it, and of the dispute game that secures it (\<open>op-challenger\<close>, \<open>op-dispute-mon\<close>).

  The node derives the L2 chain from L1. Data that the batcher posts to L1, in calldata or in blobs, is read
  block by block (L1 traversal, L1 retrieval, data sources), cut into frames (frame queue), assembled into
  channels (channel bank before Holocene, channel assembler from Holocene on), decompressed and decoded into batches
  (channel reader), checked and turned into one batch for each L2 block (batch queue before Holocene, batch stage
  from Holocene on), and completed to payload attributes for the engine (attributes queue). The pipeline drives the
  stages: it resets them, moves them from one L1 block to the next, and exchanges them when a fork activates. Which rules apply is decided by the fork schedule of the rollup configuration, where
  Mantle activates the OP forks together with its own fork Arsia.

  The batcher goes the other way: L2 blocks become batches, batches a span batch that is compressed into a channel (channel out), the channel is cut into
  frames (channel builder), and the frames become calldata or blobs (transaction data). The two directions are joined: the node reads exactly the batches that
  the batcher accepted.

  Proposed outputs are disputed in games. A game is a list of claims, each but the first an answer to an earlier one; an answer bisects the range of trace indices that its
  parent leaves open, down to single steps of a virtual machine. The challenger derives from the claims which of them are its own, which it counters and how (solver), using a
  trace provider that depends on the claim in a split game; the monitor resolves a game from its leaves to the root.

  \<^bold>\<open>Theories and sources\<close> (paths under \<open>src/\<close>)

  \<^item> \<open>Prelude\<close>: machine types, big-endian integers, readers over buffers, Go maps, and the contracts
    \<open>transition_system\<close>, \<open>codec\<close>, \<open>codec_loop\<close>.
  \<^item> \<open>Eth_Types\<close>: block references and system configuration (\<open>op-service/eth/id.go\<close>, \<open>types.go\<close>).
  \<^item> \<open>Rollup_Config\<close>: forks and rollup configuration (\<open>op-core/forks\<close>, \<open>op-node/rollup/types.go\<close>,
    \<open>mantle_types.go\<close>, \<open>chain_spec.go\<close>): activation predicates, checks of a configuration, the alignment of the OP
    forks with Arsia, block numbers and timestamps.
  \<^item> \<open>Frame\<close>, \<open>Channel\<close>, \<open>Frame_Queue\<close>, \<open>Channel_Bank\<close>, \<open>Channel_Assembler\<close>: the files of the same names in
    \<open>op-node/rollup/derive\<close>. The bank refines a list of channels, the assembler a specification on lists of frames;
    the loop of the assembler is shown to end over the real stages below it.
  \<^item> \<open>Blob\<close>: the blob encoding (\<open>op-service/eth/blob.go\<close>) bit by bit, with its round trip.
  \<^item> \<open>Data_Source\<close>: calldata, blob and Mantle blob sources and the factory that chooses between them.
  \<^item> \<open>L1_Stages\<close>: \<open>l1_traversal.go\<close>, \<open>l1_retrieval.go\<close>, and the composition up to the assembler.
  \<^item> \<open>Batches\<close>: \<open>batches.go\<close> and the derived form of span batches (\<open>span_batch.go\<close>).
  \<^item> \<open>Batch_Stages\<close>: \<open>base_batch_stage.go\<close>, \<open>batch_stage.go\<close>, \<open>batch_queue.go\<close>.
  \<^item> \<open>Span_Batch_Txs\<close>: the column-wise format of the transactions of a span batch (\<open>span_batch_txs.go\<close>,
    \<open>span_batch_tx.go\<close>, \<open>span_batch_util.go\<close>): signatures, bit lists, varints, and the round trip.
  \<^item> \<open>Span_Batch\<close>: prefix and payload of a span batch, its construction from singular batches, and its derived form
    (\<open>span_batch.go\<close>): round trip, shape of what is derived, absence of panics.
  \<^item> \<open>Channel_In_Reader\<close>: typed batches (\<open>batch.go\<close>), \<open>channel_in_reader.go\<close>, \<open>channel_mux.go\<close>, and the composition of all
    stages up to the batch stage, over which the safe head is shown to follow L1.
  \<^item> \<open>Pipeline\<close>: \<open>batch_mux.go\<close>, \<open>attributes_queue.go\<close>, \<open>check_l1.go\<close>, \<open>pipeline.go\<close>, \<open>mantle_pipeline.go\<close>: steps keep the
    stages fitted to the fork, resets complete, the walk back of a reset returns and ends at the first block far enough back.
  \<^item> \<open>Solabi\<close>, \<open>Receipts\<close>: ABI words (\<open>op-service/solabi/util.go\<close>), logs and receipts.
  \<^item> \<open>System_Config\<close>: configuration events (\<open>system_config.go\<close>, \<open>mantle_system_config.go\<close>) and the packed fee parameters (\<open>op-service/eth/types.go\<close>): receipts apply
    the updates they encode.
  \<^item> \<open>Deposits\<close>: \<open>deposit_log.go\<close>, \<open>deposit_source.go\<close>, \<open>deposits.go\<close>: which events decode, to what, and that none is lost.
  \<^item> \<open>L1_Info\<close>: the L1 info transaction (\<open>l1_block_info.go\<close>) and what is read from an L2 block (\<open>payload_util.go\<close>): round trip of every format, and
    the system configuration survives in the L2 blocks.
  \<^item> \<open>Attributes\<close>: \<open>attributes.go\<close> with the upgrade transactions of Skadi and Arsia: deposits are included, and the derived block refers to the L1 block of its batch.
  \<^item> \<open>Channel_Out\<close>: \<open>channel_out.go\<close>, \<open>span_channel_out.go\<close> of \<open>op-node/rollup/derive\<close>: blocks to batches, the two buffers of a span channel, frames; what a closed
    channel carries.
  \<^item> \<open>Channel_Builder\<close>: \<open>channel_builder.go\<close>, \<open>channel_config.go\<close> of \<open>op-batcher/batcher\<close>, over the interface of channel outs (locale \<open>closed_out\<close>): how a channel is cut into frames,
    and when that does not end.
  \<^item> \<open>Tx_Data\<close>: \<open>tx_data.go\<close>: the blobs of a transaction, in either format, are read back by \<open>Data_Source\<close>.
  \<^item> \<open>Force_Close\<close>: what \<open>ForceCloseTxData\<close> does to the channel on the side of the node.
  \<^item> \<open>Batch_Delivery\<close>: from the batches added to a channel to the batches read from it, through frames, channel and channel reader.
  \<^item> \<open>Fault_Position\<close>, \<open>Fault_Game\<close>: \<open>position.go\<close>, \<open>types.go\<close>, \<open>game.go\<close> of \<open>op-challenger/game/fault/types\<close>: generalized indices, trace indices, the search for
    ancestors, well-formed games.
  \<^item> \<open>Claim_Identity\<close>: identifiers of claims can collide.
  \<^item> \<open>Honest_Solver\<close>: \<open>honest_claims.go\<close>, \<open>solver.go\<close>, \<open>game_solver.go\<close> of \<open>op-challenger/game/fault/solver\<close>, and the strategy on the claims themselves that
    the solver is shown to follow.
  \<^item> \<open>Trace_Access\<close>: \<open>trace/access.go\<close>, \<open>trace/translate.go\<close>, \<open>trace/split/split.go\<close>: the claims around a disputed step.
  \<^item> \<open>Solver_Rules\<close>: \<open>rules.go\<close>; games as a step relation between the challenger and anyone else, over which every action
    proposed by a solver with one trace obeys the rules, if identifiers tell claims apart.
  \<^item> \<open>Game_Resolution\<close>: \<open>tree.go\<close>, \<open>resolve.go\<close>, \<open>forecast.go\<close> of \<open>op-dispute-mon/mon\<close>: the honest actor wins, if identifiers tell claims apart.
  \<^item> \<open>Derive_Error\<close>: error values (\<open>error.go\<close>) and the contract of a stage that is pulled.

  \<^bold>\<open>Conventions.\<close> A Go struct is a record, its methods are functions that take and return it. A call to the
  previous stage is a function from the state of that stage to a result and a new state (\<open>puller\<close>).
  Unsigned integers are words, so sums wrap as in Go; \<open>int\<close> is a natural number or integer where its range is
  not exceeded. Errors are values of a sum type; a panic is an error value or a state of the stage
  that panicked, never an arbitrary value. Loops are recursive functions. Loops that may run forever are partial
  functions into options: the ingestion loop of the assembler, shown to return over the real stages,
  the walk back of a reset, shown to return when L2 parents have lower numbers, the walks along the parents of a claim, shown to return in well-formed games, the output loops of the channel builder, shown to return for frame sizes
  with room for data and not to return otherwise, and the loop over frame numbers of a forced close. There is no fuel. Logging and metrics are left out.

  \<^bold>\<open>Parameters.\<close> RPC clients for L1, blobs and L2, the recovery of a transaction's sender, the RLP codec and the decompressors of
  the libraries, Keccak-256, the transaction codec, blob fees and extra data of go-ethereum, the bytecodes that upgrades deploy, the compressors and channel identifiers of the batcher, and the trace providers of dispute games are arguments. The pipeline takes
  the builder of attributes as an argument; \<open>Attributes\<close> supplies it. Hypotheses on parameters are part of the statements and have witnesses.

  \<^bold>\<open>Not modelled.\<close> The upgrade transactions of the OP forks, which this node does not use, the managed traversal, engine, sequencing, p2p and the services around
  them (RPC-driven), the scheduling and transactions of the challenger, the singular channel out, the channel manager and the driver of the batcher, the virtual machines, the proof program, tests, tools, contracts and bindings.
\<close>

end
